(* ===== verification/Prelude.thy ===== *)
theory Prelude
  imports Main "HOL-Library.AList" "HOL-Library.Char_ord"
begin

text \<open>
  Shared vocabulary of the development: the error classes and the \<open>Result\<close> type of
  \<open>packages/shared-kernel/domain\<close>, JavaScript strings (\<open>trim\<close>, \<open>toLowerCase\<close>, \<open>split\<close>),
  the insertion-ordered \<open>Map\<close> and \<open>Set\<close> of the language, and dates. A JavaScript string is
  a list of code units below 256 here (Isabelle's \<open>string\<close>), so \<open>trim\<close> and \<open>toLowerCase\<close>
  are written out for that range. A \<open>Date\<close> is \<open>Some\<close> epoch milliseconds, or \<open>None\<close> for
  the Invalid Date, whose \<open>getTime()\<close> is NaN and whose comparisons are all false.
\<close>

section \<open>Automation collections\<close>

named_theorems wf_intros \<open>invariant preservation rules of the components\<close>
named_theorems js_simps \<open>evaluation rules for the JavaScript library functions\<close>

section \<open>Errors and results\<close>

text \<open>
  \<open>shared-kernel/domain/errors.ts\<close> and the error classes the packages derive from it. The
  human-readable message is left out, the class, its field errors and its data are kept.
\<close>

datatype domain_error =
    ValidationError "(string \<times> string list) list"
  | NotFoundError
  | ConflictError
  | AuthorizationError
  | AuthenticationError
  | AccountLockedError
  | SystemRoleImmutableError string string string

fun error_code :: "domain_error \<Rightarrow> string" where
  "error_code (ValidationError _) = ''VALIDATION_ERROR''"
| "error_code NotFoundError = ''NOT_FOUND''"
| "error_code ConflictError = ''CONFLICT''"
| "error_code AuthorizationError = ''AUTHORIZATION_FAILED''"
| "error_code AuthenticationError = ''AUTHENTICATION_FAILED''"
| "error_code AccountLockedError = ''AUTHENTICATION_FAILED''"
| "error_code (SystemRoleImmutableError _ _ _) = ''SYSTEM_ROLE_IMMUTABLE''"

fun http_status_hint :: "domain_error \<Rightarrow> nat" where
  "http_status_hint (ValidationError _) = 400"
| "http_status_hint NotFoundError = 404"
| "http_status_hint ConflictError = 409"
| "http_status_hint AuthorizationError = 403"
| "http_status_hint AuthenticationError = 401"
| "http_status_hint AccountLockedError = 401"
| "http_status_hint (SystemRoleImmutableError _ _ _) = 403"

text \<open>
  \<open>result\<close>: the \<open>Result<T, E>\<close> a function returns. \<open>throwing\<close>: a function whose \<open>Inl\<close> is a
  thrown exception. A function that can do both has type \<open>'a result throwing\<close>.
\<close>

type_synonym 'a result = "domain_error + 'a"
type_synonym 'a throwing = "domain_error + 'a"

fun is_ok :: "'e + 'a \<Rightarrow> bool" where
  "is_ok (Inr _) = True"
| "is_ok (Inl _) = False"

fun is_err :: "'e + 'a \<Rightarrow> bool" where
  "is_err (Inr _) = False"
| "is_err (Inl _) = True"

fun result_map :: "'e + 'a \<Rightarrow> ('a \<Rightarrow> 'b) \<Rightarrow> 'e + 'b" where
  "result_map (Inr v) f = Inr (f v)"
| "result_map (Inl e) f = Inl e"

fun result_flat_map :: "'e + 'a \<Rightarrow> ('a \<Rightarrow> 'e + 'b) \<Rightarrow> 'e + 'b" where
  "result_flat_map (Inr v) f = f v"
| "result_flat_map (Inl e) f = Inl e"

fun result_match :: "'e + 'a \<Rightarrow> ('a \<Rightarrow> 'u) \<Rightarrow> ('e \<Rightarrow> 'u) \<Rightarrow> 'u" where
  "result_match (Inr v) ok err = ok v"
| "result_match (Inl e) ok err = err e"

lemma result_flat_map_Inr_iff [simp]:
  "result_flat_map r f = Inr y \<longleftrightarrow> (\<exists>x. r = Inr x \<and> f x = Inr y)"
  by (cases r) auto

lemma result_map_Inr_iff [simp]:
  "result_map r f = Inr y \<longleftrightarrow> (\<exists>x. r = Inr x \<and> f x = y)"
  by (cases r) auto

lemma result_flat_map_assoc:
  "result_flat_map (result_flat_map r f) g = result_flat_map r (\<lambda>x. result_flat_map (f x) g)"
  by (cases r) auto

text \<open>The loop \<open>for (const x of xs) ys.push(f(x))\<close> where \<open>f\<close> may throw.\<close>

fun map_throwing :: "('a \<Rightarrow> 'e + 'b) \<Rightarrow> 'a list \<Rightarrow> 'e + 'b list" where
  "map_throwing f [] = Inr []"
| "map_throwing f (x # xs) =
     (case f x of Inl e \<Rightarrow> Inl e
      | Inr y \<Rightarrow> (case map_throwing f xs of Inl e \<Rightarrow> Inl e | Inr ys \<Rightarrow> Inr (y # ys)))"

lemma map_throwing_total:
  "(\<forall>x \<in> set xs. f x = Inr (g x)) \<Longrightarrow> map_throwing f xs = Inr (map g xs)"
  by (induction xs) auto

lemma map_throwing_InrD:
  "map_throwing f xs = Inr ys \<Longrightarrow> list_all2 (\<lambda>x y. f x = Inr y) xs ys"
  by (induction xs arbitrary: ys) (auto split: sum.splits)

lemma map_throwing_set:
  "map_throwing f xs = Inr ys \<Longrightarrow> set ys = {y. \<exists>x \<in> set xs. f x = Inr y}"
  by (induction xs arbitrary: ys) (auto split: sum.splits)

lemma map_throwing_Inl_iff:
  "(\<exists>e. map_throwing f xs = Inl e) \<longleftrightarrow> (\<exists>x \<in> set xs. \<exists>e. f x = Inl e)"
  by (induction xs) (auto split: sum.splits)

text \<open>The operator \<open>??\<close> on an optional value.\<close>

definition or_default :: "'a option \<Rightarrow> 'a \<Rightarrow> 'a" where
  "or_default x d = (case x of None \<Rightarrow> d | Some v \<Rightarrow> v)"

lemma or_default_simps [simp]: "or_default None d = d" "or_default (Some v) d = v"
  by (simp_all add: or_default_def)

section \<open>Strings\<close>

text \<open>\<open>s.slice(0, i)\<close> and \<open>s.slice(i + 1)\<close> around the first \<open>d\<close>, if there is one.\<close>

fun split_first :: "char \<Rightarrow> string \<Rightarrow> (string \<times> string) option" where
  "split_first d [] = None"
| "split_first d (c # cs) =
     (if c = d then Some ([], cs)
      else (case split_first d cs of None \<Rightarrow> None | Some (a, b) \<Rightarrow> Some (c # a, b)))"

lemma split_first_Some:
  "split_first d s = Some (a, b) \<longleftrightarrow> s = a @ d # b \<and> d \<notin> set a"
proof (induction s arbitrary: a)
  case (Cons c cs)
  show ?case
  proof (cases "c = d")
    case True
    then show ?thesis by (cases a) auto
  next
    case False
    then have "split_first d (c # cs) = Some (a, b) \<longleftrightarrow>
        (\<exists>a'. a = c # a' \<and> split_first d cs = Some (a', b))"
      by (auto split: option.split)
    also have "... \<longleftrightarrow> c # cs = a @ d # b \<and> d \<notin> set a"
      using False by (cases a) (auto simp: Cons.IH)
    finally show ?thesis .
  qed
qed simp

lemma split_first_append: "d \<notin> set a \<Longrightarrow> split_first d (a @ d # b) = Some (a, b)"
  by (simp add: split_first_Some)

definition js_ws :: "char \<Rightarrow> bool" where
  "js_ws c \<longleftrightarrow> of_char c \<in> {9, 10, 11, 12, 13, 32, 160 :: nat}"

definition trim_start :: "string \<Rightarrow> string" where
  "trim_start s = dropWhile js_ws s"

definition trim_end :: "string \<Rightarrow> string" where
  "trim_end s = rev (dropWhile js_ws (rev s))"

definition js_trim :: "string \<Rightarrow> string" where
  "js_trim s = trim_end (trim_start s)"

definition char_lower :: "char \<Rightarrow> char" where
  "char_lower c =
     (let n = of_char c :: nat
      in if 65 \<le> n \<and> n \<le> 90 \<or> 192 \<le> n \<and> n \<le> 222 \<and> n \<noteq> 215 then char_of (n + 32) else c)"

definition js_lower :: "string \<Rightarrow> string" where
  "js_lower s = map char_lower s"

fun js_split :: "char \<Rightarrow> string \<Rightarrow> string list" where
  "js_split d [] = [[]]"
| "js_split d (c # cs) =
     (if c = d then [] # js_split d cs
      else (case js_split d cs of [] \<Rightarrow> [[c]] | w # ws \<Rightarrow> (c # w) # ws))"

fun js_join :: "string \<Rightarrow> string list \<Rightarrow> string" where
  "js_join d [] = []"
| "js_join d [w] = w"
| "js_join d (w # v # ws) = w @ d @ js_join d (v # ws)"

fun js_includes :: "string \<Rightarrow> string \<Rightarrow> bool" where
  "js_includes [] p = (p = [])"
| "js_includes (c # cs) p = (take (length p) (c # cs) = p \<or> js_includes cs p)"

lemma js_includes_iff: "js_includes s p \<longleftrightarrow> (\<exists>u v. s = u @ p @ v)"
proof (induction s)
  case Nil
  then show ?case by auto
next
  case (Cons c cs)
  have "take (length p) (c # cs) = p \<longleftrightarrow> (\<exists>v. c # cs = p @ v)"
    by (metis append_eq_conv_conj append_take_drop_id)
  moreover have "(\<exists>u v. c # cs = u @ p @ v) \<longleftrightarrow>
      (\<exists>v. c # cs = p @ v) \<or> (\<exists>u v. cs = u @ p @ v)"
    by (metis append_Cons append_Nil list.exhaust list.inject)
  ultimately show ?case using Cons.IH by simp
qed

lemma js_split_not_Nil [simp]: "js_split d s \<noteq> []"
  by (induction s) (auto split: list.splits)

lemma js_split_single: "d \<notin> set s \<Longrightarrow> js_split d s = [s]"
  by (induction s) auto

lemma js_split_append: "d \<notin> set a \<Longrightarrow> js_split d (a @ d # b) = a # js_split d b"
  by (induction a) auto

lemma js_join_split: "js_join [d] (js_split d s) = s"
proof (induction s)
  case (Cons c cs)
  obtain w ws where w: "js_split d cs = w # ws"
    by (metis js_split_not_Nil list.exhaust)
  show ?case
    using Cons w by (cases ws) (auto split: list.splits)
qed simp

lemma js_split_no_sep: "w \<in> set (js_split d s) \<Longrightarrow> d \<notin> set w"
  by (induction s arbitrary: w) (auto split: list.splits if_splits)

lemma js_split_two:
  "js_split d s = [a, b] \<longleftrightarrow> s = a @ d # b \<and> d \<notin> set a \<and> d \<notin> set b"
proof
  assume h: "js_split d s = [a, b]"
  have "s = a @ d # b"
    using js_join_split [of d s] h by simp
  moreover have "d \<notin> set a" "d \<notin> set b"
    using js_split_no_sep [of _ d s] h by auto
  ultimately show "s = a @ d # b \<and> d \<notin> set a \<and> d \<notin> set b" by simp
next
  assume "s = a @ d # b \<and> d \<notin> set a \<and> d \<notin> set b"
  then show "js_split d s = [a, b]"
    by (simp add: js_split_append js_split_single)
qed

text \<open>A string with no white space at either end is its own trim.\<close>

lemma js_trim_id:
  assumes "s = [] \<or> \<not> js_ws (hd s) \<and> \<not> js_ws (last s)"
  shows "js_trim s = s"
proof (cases s)
  case Nil
  then show ?thesis by (simp add: js_trim_def trim_start_def trim_end_def)
next
  case (Cons c cs)
  have "dropWhile js_ws s = s" using assms Cons by auto
  moreover have "dropWhile js_ws (rev s) = rev s"
  proof (cases "rev s")
    case (Cons x xs)
    then have "x = last s" by (metis hd_rev list.sel(1))
    then show ?thesis using assms Cons by (metis dropWhile.simps(2) rev.simps(1) rev_rev_ident list.distinct(1))
  qed simp
  ultimately show ?thesis by (simp add: js_trim_def trim_start_def trim_end_def)
qed

lemma js_trim_no_ws: "(\<forall>c \<in> set s. \<not> js_ws c) \<Longrightarrow> js_trim s = s"
  by (rule js_trim_id) (cases s, auto)

lemma js_trim_subset: "set (js_trim s) \<subseteq> set s"
  unfolding js_trim_def trim_start_def trim_end_def
  by (metis (no_types, lifting) set_dropWhileD set_rev subsetI)

lemma js_trim_ends:
  assumes "js_trim s \<noteq> []"
  shows "\<not> js_ws (hd (js_trim s)) \<and> \<not> js_ws (last (js_trim s))"
proof -
  let ?t = "dropWhile js_ws s"
  let ?u = "dropWhile js_ws (rev ?t)"
  have trim: "js_trim s = rev ?u" by (simp add: js_trim_def trim_start_def trim_end_def)
  with assms have u: "?u \<noteq> []" by simp
  then have "\<not> js_ws (hd ?u)" by (rule hd_dropWhile)
  moreover have "hd (rev ?u) = hd ?t"
  proof -
    obtain p where "rev ?t = p @ ?u" by (metis takeWhile_dropWhile_id)
    then have "?t = rev ?u @ rev p" by (metis rev_append rev_rev_ident)
    then show ?thesis using u by (metis hd_append2 rev_is_Nil_conv)
  qed
  moreover have "?t \<noteq> []" using u by (metis dropWhile.simps(1) rev.simps(1))
  then have "\<not> js_ws (hd ?t)" by (rule hd_dropWhile)
  ultimately show ?thesis
    using u trim by (simp add: last_rev)
qed

lemma js_trim_idem [simp]: "js_trim (js_trim s) = js_trim s"
  using js_trim_ends [of s] by (intro js_trim_id) blast

lemma of_char_lower:
  "of_char (char_lower c) =
     (let n = of_char c :: nat
      in if 65 \<le> n \<and> n \<le> 90 \<or> 192 \<le> n \<and> n \<le> 222 \<and> n \<noteq> 215 then n + 32 else n)"
  by (auto simp: char_lower_def Let_def)

lemma char_lower_idem [simp]: "char_lower (char_lower c) = char_lower c"
proof -
  have "of_char (char_lower (char_lower c)) = (of_char (char_lower c) :: nat)"
    by (auto simp: of_char_lower Let_def)
  then show ?thesis by (simp only: of_char_eq_iff)
qed

lemma js_lower_idem [simp]: "js_lower (js_lower s) = js_lower s"
  by (simp add: js_lower_def)

lemma js_lower_Nil_iff [simp]: "js_lower s = [] \<longleftrightarrow> s = []"
  by (simp add: js_lower_def)

lemma js_lower_append [simp]: "js_lower (s @ t) = js_lower s @ js_lower t"
  by (simp add: js_lower_def)

lemma js_ws_lower [simp]: "js_ws (char_lower c) = js_ws c"
  unfolding js_ws_def of_char_lower Let_def by auto

lemma js_lower_trim: "js_lower (js_trim s) = js_trim (js_lower s)"
proof -
  have "dropWhile js_ws (map char_lower xs) = map char_lower (dropWhile js_ws xs)" for xs
    by (simp add: dropWhile_map comp_def)
  then show ?thesis
    by (simp add: js_lower_def js_trim_def trim_start_def trim_end_def rev_map)
qed

section \<open>Insertion-ordered maps and sets\<close>

text \<open>
  A JavaScript \<open>Map\<close> as the list of its entries in insertion order: \<open>set\<close> on a present key
  keeps the position, on a new key appends; \<open>delete\<close> removes the entry. These are the
  library's \<open>AList.update\<close> and \<open>AList.delete\<close>.
\<close>

type_synonym ('k, 'v) js_map = "('k \<times> 'v) list"

abbreviation map_get :: "('k, 'v) js_map \<Rightarrow> 'k \<Rightarrow> 'v option" where
  "map_get m k \<equiv> map_of m k"

abbreviation map_set :: "'k \<Rightarrow> 'v \<Rightarrow> ('k, 'v) js_map \<Rightarrow> ('k, 'v) js_map" where
  "map_set k v m \<equiv> AList.update k v m"

abbreviation map_delete :: "'k \<Rightarrow> ('k, 'v) js_map \<Rightarrow> ('k, 'v) js_map" where
  "map_delete k m \<equiv> AList.delete k m"

definition map_values :: "('k, 'v) js_map \<Rightarrow> 'v list" where
  "map_values m = map snd m"

definition map_wf :: "('k, 'v) js_map \<Rightarrow> bool" where
  "map_wf m \<longleftrightarrow> distinct (map fst m)"

lemma map_wf_Nil [simp, intro]: "map_wf []"
  by (simp add: map_wf_def)

lemma map_wf_set [simp, intro]: "map_wf m \<Longrightarrow> map_wf (map_set k v m)"
  by (simp add: map_wf_def distinct_update)

lemma map_wf_delete [simp, intro]: "map_wf m \<Longrightarrow> map_wf (map_delete k m)"
  by (simp add: map_wf_def distinct_delete)

lemma map_get_set [simp]: "map_get (map_set k v m) k' = (if k' = k then Some v else map_get m k')"
  by (simp add: update_conv')

lemma map_get_delete [simp]:
  "map_get (map_delete k m) k' = (if k' = k then None else map_get m k')"
  by (simp add: delete_conv')

lemma map_values_iff: "map_wf m \<Longrightarrow> v \<in> set (map_values m) \<longleftrightarrow> (\<exists>k. map_get m k = Some v)"
  by (force simp: map_values_def map_wf_def dest: map_of_SomeD)

lemma map_values_set:
  assumes "map_wf m"
  shows "v' \<in> set (map_values (map_set k v m)) \<longleftrightarrow>
    v' = v \<or> (\<exists>k'. k' \<noteq> k \<and> map_get m k' = Some v')"
  using assms by (auto simp: map_values_iff)

text \<open>A \<open>Set\<close> as the list of its elements in insertion order.\<close>

definition set_add :: "'a \<Rightarrow> 'a list \<Rightarrow> 'a list" where
  "set_add x xs = (if x \<in> set xs then xs else xs @ [x])"

definition set_delete :: "'a \<Rightarrow> 'a list \<Rightarrow> 'a list" where
  "set_delete x xs = filter (\<lambda>y. y \<noteq> x) xs"

lemma set_set_add [simp]: "set (set_add x xs) = insert x (set xs)"
  by (auto simp: set_add_def)

lemma set_set_delete [simp]: "set (set_delete x xs) = set xs - {x}"
  by (auto simp: set_delete_def)

lemma distinct_set_add [simp]: "distinct xs \<Longrightarrow> distinct (set_add x xs)"
  by (simp add: set_add_def)

lemma distinct_set_delete [simp]: "distinct xs \<Longrightarrow> distinct (set_delete x xs)"
  by (simp add: set_delete_def)

text \<open>\<open>new Set(xs)\<close>.\<close>

definition set_of_list :: "'a list \<Rightarrow> 'a list" where
  "set_of_list xs = fold set_add xs []"

lemma set_fold_set_add: "set (fold set_add xs ys) = set ys \<union> set xs"
  by (induction xs arbitrary: ys) auto

lemma distinct_fold_set_add: "distinct ys \<Longrightarrow> distinct (fold set_add xs ys)"
  by (induction xs arbitrary: ys) auto

lemma set_set_of_list [simp]: "set (set_of_list xs) = set xs"
  by (simp add: set_of_list_def set_fold_set_add)

lemma distinct_set_of_list [simp]: "distinct (set_of_list xs)"
  by (simp add: set_of_list_def distinct_fold_set_add)

section \<open>Dates\<close>

type_synonym date = "int option"

fun date_ge :: "date \<Rightarrow> date \<Rightarrow> bool" where
  "date_ge (Some a) (Some b) = (a \<ge> b)"
| "date_ge _ _ = False"

fun date_gt :: "date \<Rightarrow> date \<Rightarrow> bool" where
  "date_gt (Some a) (Some b) = (a > b)"
| "date_gt _ _ = False"

definition date_invalid :: "date \<Rightarrow> bool" where
  "date_invalid d \<longleftrightarrow> d = None"

lemma date_ge_trans: "date_ge a b \<Longrightarrow> date_ge b c \<Longrightarrow> date_ge a c"
  by (cases a; cases b; cases c) auto

section \<open>Searches\<close>

lemma find_SomeD: "find P xs = Some x \<Longrightarrow> x \<in> set xs \<and> P x"
  by (induction xs) (auto split: if_splits)

lemma find_exists: "x \<in> set xs \<Longrightarrow> P x \<Longrightarrow> \<exists>y. find P xs = Some y"
  by (induction xs) auto

end
