(* ===== verification/Permissions.thy ===== *)
theory Permissions
  imports Prelude
begin

text \<open>
  \<open>packages/authorization/domain/value-objects/permission.ts\<close> and
  \<open>domain/services/permission-matcher.ts\<close>: parsing of \<open>resource:action\<close> strings into
  canonical permissions and the wildcard matching of granted against required permissions.
  Then the older \<open>Permission\<close> and \<open>Role\<close> of \<open>domain/authorization.ts\<close>.
\<close>

section \<open>The Permission value object\<close>

record permission =
  perm_value :: string
  perm_resource :: string
  perm_action :: string

definition perm_char :: "char \<Rightarrow> bool" where
  "perm_char c \<longleftrightarrow>
     (let n = of_char c :: nat
      in 97 \<le> n \<and> n \<le> 122 \<or> 48 \<le> n \<and> n \<le> 57 \<or> c = CHR ''_'' \<or> c = CHR ''*'' \<or> c = CHR ''-'')"

text \<open>\<open>PERMISSION_PATTERN\<close>: two nonempty segments of permission characters and one colon.\<close>

definition permission_pattern :: "string \<Rightarrow> bool" where
  "permission_pattern s =
     (case js_split CHR '':'' s of
        [a, b] \<Rightarrow> a \<noteq> [] \<and> b \<noteq> [] \<and> list_all perm_char a \<and> list_all perm_char b
      | _ \<Rightarrow> False)"

definition permission_error :: "string \<Rightarrow> domain_error" where
  "permission_error code = ValidationError [(''permission'', [code])]"

definition permission_create :: "string \<Rightarrow> permission result" where
  "permission_create raw =
     (let normalized = js_lower (js_trim raw)
      in if length normalized = 0 then Inl (permission_error ''required'')
         else case js_split CHR '':'' normalized of
           [resource, action] \<Rightarrow>
             (if resource = [] \<or> length (js_trim resource) = 0
              then Inl (permission_error ''empty_resource'')
              else if action = [] \<or> length (js_trim action) = 0
              then Inl (permission_error ''empty_action'')
              else if \<not> permission_pattern normalized
              then Inl (permission_error ''invalid_characters'')
              else Inr \<lparr>perm_value = normalized, perm_resource = resource, perm_action = action\<rparr>)
         | _ \<Rightarrow> Inl (permission_error ''invalid_format''))"

text \<open>\<open>Permission.from\<close> throws the error \<open>create\<close> returns.\<close>

definition permission_from :: "string \<Rightarrow> permission throwing" where
  "permission_from raw = (case permission_create raw of Inl e \<Rightarrow> Inl e | Inr p \<Rightarrow> Inr p)"

definition permission_equals :: "permission \<Rightarrow> permission \<Rightarrow> bool" where
  "permission_equals p q \<longleftrightarrow> perm_value p = perm_value q"

definition permission_matches :: "permission \<Rightarrow> permission \<Rightarrow> bool" where
  "permission_matches granted required =
     (if perm_value granted = perm_value required then True
      else if perm_resource granted = ''*'' \<and> perm_action granted = ''*'' then True
      else if perm_resource granted = perm_resource required \<and> perm_action granted = ''*'' then True
      else if perm_resource granted = ''*'' \<and> perm_action granted = perm_action required then True
      else False)"

text \<open>A parameter of type \<open>Permission | string\<close>, and how a method reads it.\<close>

datatype perm_arg = PermObj permission | PermStr string

fun perm_arg_from :: "perm_arg \<Rightarrow> permission throwing" where
  "perm_arg_from (PermStr s) = permission_from s"
| "perm_arg_from (PermObj p) = Inr p"

fun perm_arg_create :: "perm_arg \<Rightarrow> permission result" where
  "perm_arg_create (PermStr s) = permission_create s"
| "perm_arg_create (PermObj p) = Inr p"

section \<open>PermissionMatcher\<close>

definition matcher_matches :: "perm_arg \<Rightarrow> perm_arg \<Rightarrow> bool" where
  "matcher_matches granted required =
     (case (perm_arg_create granted, perm_arg_create required) of
        (Inr g, Inr r) \<Rightarrow>
          (if perm_value g = perm_value r then True
           else if perm_resource g = ''*'' \<and> perm_action g = ''*'' then True
           else if perm_resource g = perm_resource r \<and> perm_action g = ''*'' then True
           else if perm_resource g = ''*'' \<and> perm_action g = perm_action r then True
           else False)
      | _ \<Rightarrow> False)"

definition is_global_wildcard :: "perm_arg \<Rightarrow> bool" where
  "is_global_wildcard p =
     (case perm_arg_create p of
        Inl _ \<Rightarrow> False
      | Inr q \<Rightarrow> perm_resource q = ''*'' \<and> perm_action q = ''*'')"

section \<open>The older model of domain/authorization.ts\<close>

definition lower_letter :: "char \<Rightarrow> bool" where
  "lower_letter c \<longleftrightarrow> 97 \<le> (of_char c :: nat) \<and> (of_char c :: nat) \<le> 122"

definition lower_or_digit_or_dash :: "char \<Rightarrow> bool" where
  "lower_or_digit_or_dash c \<longleftrightarrow>
     lower_letter c \<or> 48 \<le> (of_char c :: nat) \<and> (of_char c :: nat) \<le> 57 \<or> c = CHR ''-''"

definition legacy_key_pattern :: "string \<Rightarrow> bool" where
  "legacy_key_pattern s =
     (case js_split CHR '':'' s of
        [r # rs, a # as] \<Rightarrow>
          lower_letter r \<and> list_all lower_or_digit_or_dash rs \<and> lower_letter a \<and>
          list_all (\<lambda>c. lower_or_digit_or_dash c \<or> c = CHR ''*'') as
      | _ \<Rightarrow> False)"

text \<open>The constructor throws \<open>AuthorizationError("INVALID")\<close>, here \<open>None\<close>.\<close>

definition legacy_permission_new :: "string \<Rightarrow> string option" where
  "legacy_permission_new key = (if \<not> legacy_key_pattern key then None else Some key)"

definition legacy_role_has_permission :: "string list \<Rightarrow> string \<Rightarrow> bool" where
  "legacy_role_has_permission permissions key =
     (let resource = hd (js_split CHR '':'' key)
      in ''*:*'' \<in> set permissions \<or> key \<in> set permissions \<or>
         resource @ '':*'' \<in> set permissions)"

section \<open>Canonical permissions\<close>

text \<open>
  What every \<open>Permission\<close> object satisfies: the constructor is private and \<open>create\<close> is its
  only caller.
\<close>

definition permission_wf :: "permission \<Rightarrow> bool" where
  "permission_wf p \<longleftrightarrow>
     perm_value p = perm_resource p @ '':'' @ perm_action p \<and>
     perm_resource p \<noteq> [] \<and> perm_action p \<noteq> [] \<and>
     list_all perm_char (perm_resource p) \<and> list_all perm_char (perm_action p)"

lemma perm_char_facts:
  assumes "perm_char c"
  shows "c \<noteq> CHR '':''" "\<not> js_ws c" "char_lower c = c"
proof -
  define n where "n = (of_char c :: nat)"
  have n: "97 \<le> n \<and> n \<le> 122 \<or> 48 \<le> n \<and> n \<le> 57 \<or> n = 95 \<or> n = 42 \<or> n = 45"
    using assms unfolding perm_char_def Let_def n_def by (elim disjE) simp_all
  show "c \<noteq> CHR '':''"
  proof
    assume "c = CHR '':''"
    then have "n = 58" by (simp add: n_def)
    with n show False by simp
  qed
  have "n \<notin> {9, 10, 11, 12, 13, 32, 160}" using n by (elim disjE) simp_all
  then show "\<not> js_ws c" by (simp add: js_ws_def n_def)
  have "\<not> (65 \<le> n \<and> n \<le> 90)" "\<not> 192 \<le> n" using n by linarith+
  then show "char_lower c = c"
    unfolding char_lower_def Let_def n_def [symmetric] by auto
qed

lemma colon_not_ws: "\<not> js_ws CHR '':''"
  by code_simp

lemma colon_lower: "char_lower CHR '':'' = CHR '':''"
  by code_simp

lemmas colon_facts = colon_not_ws colon_lower

lemma perm_chars_facts:
  assumes "list_all perm_char s"
  shows "CHR '':'' \<notin> set s" "\<forall>c \<in> set s. \<not> js_ws c" "js_lower s = s"
proof -
  have a: "\<forall>c \<in> set s. perm_char c" using assms by (simp add: list_all_iff)
  show "CHR '':'' \<notin> set s" using a perm_char_facts(1) by blast
  show "\<forall>c \<in> set s. \<not> js_ws c" using a perm_char_facts(2) by blast
  show "js_lower s = s" unfolding js_lower_def using a perm_char_facts(3) by (blast intro: map_idI)
qed

lemma permission_pattern_iff:
  "permission_pattern s \<longleftrightarrow>
     (\<exists>a b. s = a @ '':'' @ b \<and> a \<noteq> [] \<and> b \<noteq> [] \<and> list_all perm_char a \<and> list_all perm_char b)"
proof
  assume "permission_pattern s"
  then obtain a b where "js_split CHR '':'' s = [a, b]"
    and "a \<noteq> []" "b \<noteq> []" "list_all perm_char a" "list_all perm_char b"
    by (auto simp: permission_pattern_def split: list.splits)
  then show "\<exists>a b. s = a @ '':'' @ b \<and> a \<noteq> [] \<and> b \<noteq> [] \<and> list_all perm_char a \<and> list_all perm_char b"
    by (auto simp: js_split_two)
next
  assume "\<exists>a b. s = a @ '':'' @ b \<and> a \<noteq> [] \<and> b \<noteq> [] \<and> list_all perm_char a \<and> list_all perm_char b"
  then obtain a b where s: "s = a @ '':'' @ b" and
    w: "a \<noteq> []" "b \<noteq> []" "list_all perm_char a" "list_all perm_char b" by blast
  then have "js_split CHR '':'' s = [a, b]"
    using perm_chars_facts(1) by (auto simp: js_split_two)
  then show "permission_pattern s" using w by (simp add: permission_pattern_def)
qed

lemma permission_wf_split:
  "permission_wf p \<Longrightarrow> js_split CHR '':'' (perm_value p) = [perm_resource p, perm_action p]"
  using perm_chars_facts(1) by (auto simp: permission_wf_def js_split_two)

lemma permission_wf_pattern: "permission_wf p \<Longrightarrow> permission_pattern (perm_value p)"
  unfolding permission_wf_def permission_pattern_iff by blast

lemma permission_wf_lower_trim:
  assumes "permission_wf p"
  shows "js_lower (js_trim (perm_value p)) = perm_value p"
proof -
  have "\<forall>c \<in> set (perm_value p). \<not> js_ws c \<and> char_lower c = c"
    using assms perm_char_facts colon_facts by (auto simp: permission_wf_def list_all_iff)
  then show ?thesis
    by (simp add: js_trim_no_ws js_lower_def map_idI)
qed

lemma permission_wf_inject:
  assumes "permission_wf p" "permission_wf q" "perm_value p = perm_value q"
  shows "p = q"
  using permission_wf_split [OF assms(1)] permission_wf_split [OF assms(2)] assms(3)
  by (cases p; cases q) simp

text \<open>
  \<open>create\<close> succeeds exactly with the well-formed permission whose value is the trimmed,
  lower-cased input.
\<close>

lemma permission_create_Inr_iff:
  "permission_create raw = Inr p \<longleftrightarrow> permission_wf p \<and> perm_value p = js_lower (js_trim raw)"
proof
  assume "permission_create raw = Inr p"
  then obtain a b where ab: "js_split CHR '':'' (js_lower (js_trim raw)) = [a, b]"
    and pat: "permission_pattern (js_lower (js_trim raw))"
    and p: "p = \<lparr>perm_value = js_lower (js_trim raw), perm_resource = a, perm_action = b\<rparr>"
    by (auto simp: permission_create_def Let_def split: if_splits list.splits)
  with pat have "a \<noteq> [] \<and> b \<noteq> [] \<and> list_all perm_char a \<and> list_all perm_char b"
    by (simp add: permission_pattern_def)
  then show "permission_wf p \<and> perm_value p = js_lower (js_trim raw)"
    using ab p by (simp add: permission_wf_def js_split_two)
next
  assume h: "permission_wf p \<and> perm_value p = js_lower (js_trim raw)"
  then have s: "js_split CHR '':'' (js_lower (js_trim raw)) = [perm_resource p, perm_action p]"
    using permission_wf_split by metis
  have pat: "permission_pattern (js_lower (js_trim raw))"
    using h permission_wf_pattern by metis
  have ne: "js_lower (js_trim raw) \<noteq> []"
    using h by (metis permission_wf_def append_is_Nil_conv)
  have tr: "js_trim (perm_resource p) = perm_resource p" "js_trim (perm_action p) = perm_action p"
    using h perm_chars_facts(2) by (auto simp: permission_wf_def intro: js_trim_no_ws)
  have "perm_resource p \<noteq> []" "perm_action p \<noteq> []" using h by (auto simp: permission_wf_def)
  with s pat tr ne show "permission_create raw = Inr p"
    using h by (cases p) (simp add: permission_create_def Let_def del: js_lower_Nil_iff)
qed

lemma permission_from_eq: "permission_from raw = permission_create raw"
  by (simp add: permission_from_def split: sum.splits)

lemma permission_from_value [simp]: "permission_wf p \<Longrightarrow> permission_from (perm_value p) = Inr p"
  by (simp add: permission_from_eq permission_create_Inr_iff permission_wf_lower_trim)

lemma permission_create_value [simp]: "permission_wf p \<Longrightarrow> permission_create (perm_value p) = Inr p"
  by (simp add: permission_create_Inr_iff permission_wf_lower_trim)

definition perm_arg_wf :: "perm_arg \<Rightarrow> bool" where
  "perm_arg_wf a = (case a of PermObj p \<Rightarrow> permission_wf p | PermStr _ \<Rightarrow> True)"

lemma perm_arg_from_wf: "perm_arg_wf a \<Longrightarrow> perm_arg_from a = Inr p \<Longrightarrow> permission_wf p"
  by (cases a) (auto simp: perm_arg_wf_def permission_from_eq permission_create_Inr_iff)

lemma perm_arg_create_eq [simp]: "perm_arg_create a = perm_arg_from a"
  by (cases a) (auto simp: permission_from_eq)

section \<open>Matching\<close>

text \<open>What a granted segment promises: \<open>*\<close> covers everything, any other text only itself.\<close>

definition segment_covers :: "string \<Rightarrow> string \<Rightarrow> bool" where
  "segment_covers g r \<longleftrightarrow> g = ''*'' \<or> g = r"

lemma permission_matches_spec:
  assumes "permission_wf g" "permission_wf r"
  shows "permission_matches g r \<longleftrightarrow>
    segment_covers (perm_resource g) (perm_resource r) \<and>
    segment_covers (perm_action g) (perm_action r)"
proof (cases "perm_value g = perm_value r")
  case True
  then have "g = r" using assms permission_wf_inject by blast
  then show ?thesis by (simp add: permission_matches_def segment_covers_def)
next
  case False
  then have "\<not> (perm_resource g = perm_resource r \<and> perm_action g = perm_action r)"
    using assms by (auto simp: permission_wf_def)
  then show ?thesis using False by (auto simp: permission_matches_def segment_covers_def)
qed

lemma permission_matches_refl: "permission_matches p p"
  by (simp add: permission_matches_def)

lemma permission_matches_trans:
  assumes "permission_wf p" "permission_wf q" "permission_wf r"
    and "permission_matches p q" "permission_matches q r"
  shows "permission_matches p r"
  using assms by (auto simp: permission_matches_spec segment_covers_def)

lemma matcher_matches_iff:
  "matcher_matches a b \<longleftrightarrow>
     (\<exists>g r. perm_arg_create a = Inr g \<and> perm_arg_create b = Inr r \<and> permission_matches g r)"
  unfolding matcher_matches_def permission_matches_def
  by (cases "perm_arg_create a"; cases "perm_arg_create b") simp_all

lemma is_global_wildcard_iff:
  assumes "permission_wf p"
  shows "is_global_wildcard (PermObj p) \<longleftrightarrow> perm_value p = ''*:*''"
    and "is_global_wildcard (PermStr (perm_value p)) \<longleftrightarrow> perm_value p = ''*:*''"
proof -
  have w: "permission_wf \<lparr>perm_value = ''*:*'', perm_resource = ''*'', perm_action = ''*''\<rparr>"
    by (simp add: permission_wf_def perm_char_def)
  have "perm_resource p = ''*'' \<and> perm_action p = ''*'' \<longleftrightarrow> perm_value p = ''*:*''"
    using permission_wf_inject [OF assms w] assms by (auto simp: permission_wf_def)
  then show "is_global_wildcard (PermObj p) \<longleftrightarrow> perm_value p = ''*:*''"
    and "is_global_wildcard (PermStr (perm_value p)) \<longleftrightarrow> perm_value p = ''*:*''"
    using assms by (simp_all add: is_global_wildcard_def permission_from_eq [symmetric])
qed

text \<open>The global wildcard satisfies every requirement.\<close>

lemma global_wildcard_matches:
  "permission_wf g \<Longrightarrow> is_global_wildcard (PermObj g) \<Longrightarrow> permission_matches g r"
  by (simp add: is_global_wildcard_def permission_matches_def)

lemma legacy_role_has_permission_matches:
  assumes "permission_wf r" and "legacy_role_has_permission ps (perm_value r)"
  shows "\<exists>v \<in> set ps. matcher_matches (PermStr v) (PermObj r)"
proof -
  let ?star = "\<lparr>perm_value = ''*:*'', perm_resource = ''*'', perm_action = ''*''\<rparr>"
  let ?act = "\<lparr>perm_value = perm_resource r @ '':*'', perm_resource = perm_resource r,
      perm_action = ''*''\<rparr>"
  have w: "permission_wf ?star" "permission_wf ?act"
    using assms(1) by (simp_all add: permission_wf_def perm_char_def)
  have "hd (js_split CHR '':'' (perm_value r)) = perm_resource r"
    by (simp add: permission_wf_split [OF assms(1)])
  then consider "''*:*'' \<in> set ps" | "perm_value r \<in> set ps" | "perm_resource r @ '':*'' \<in> set ps"
    using assms(2) by (auto simp: legacy_role_has_permission_def Let_def)
  then show ?thesis
  proof cases
    case 1
    then show ?thesis using permission_from_value [OF w(1)]
      by (intro bexI [of _ "''*:*''"]) (auto simp: matcher_matches_iff permission_matches_def)
  next
    case 2
    then show ?thesis using permission_from_value [OF assms(1)]
      by (intro bexI [of _ "perm_value r"]) (auto simp: matcher_matches_iff permission_matches_def)
  next
    case 3
    then show ?thesis using permission_from_value [OF w(2)]
      by (intro bexI [of _ "perm_resource r @ '':*''"])
        (auto simp: matcher_matches_iff permission_matches_def)
  qed
qed

section \<open>Properties\<close>

text \<open>
  Parsing is canonical: what \<open>Permission.create\<close> returns has the trimmed, lower-cased
  input as its value, that value splits into its resource and action, and parsing the value
  again returns the same permission; and the check functions that take a string or an object
  read both alike.
\<close>

theorem permission_create_roundtrip:
  assumes "permission_create raw = Inr p"
  shows "perm_value p = js_lower (js_trim raw) \<and>
    perm_value p = perm_resource p @ '':'' @ perm_action p \<and>
    js_split CHR '':'' (perm_value p) = [perm_resource p, perm_action p] \<and>
    permission_create (perm_value p) = Inr p \<and>
    perm_arg_from (PermStr raw) = perm_arg_from (PermObj p)"
proof -
  have w: "permission_wf p" "perm_value p = js_lower (js_trim raw)"
    using assms by (simp_all add: permission_create_Inr_iff)
  have "permission_from raw = Inr p" using assms by (simp add: permission_from_eq)
  moreover have "perm_value p = perm_resource p @ '':'' @ perm_action p"
    using w(1) by (simp add: permission_wf_def)
  ultimately show ?thesis
    using w permission_wf_split [OF w(1)] permission_create_value [OF w(1)] by simp
qed

theorem permission_create_roundtrip_witness:
  "perm_value \<lparr>perm_value = ''users:*'', perm_resource = ''users'', perm_action = ''*''\<rparr> =
     js_lower (js_trim '' Users:* '')"
proof -
  have "permission_create '' Users:* '' =
      Inr \<lparr>perm_value = ''users:*'', perm_resource = ''users'', perm_action = ''*''\<rparr>"
    by code_simp
  from permission_create_roundtrip [OF this] show ?thesis by blast
qed

text \<open>
  The two matchers agree and mean the same: a granted permission satisfies a required one
  exactly when each of its segments is \<open>*\<close> or equal to the required segment; on strings that
  do not parse \<open>PermissionMatcher.matches\<close> is false.
\<close>

theorem permission_matching_spec:
  "matcher_matches (PermStr a) (PermStr b) \<longleftrightarrow>
     (\<exists>g r. permission_create a = Inr g \<and> permission_create b = Inr r \<and>
        permission_matches g r \<and>
        segment_covers (perm_resource g) (perm_resource r) \<and>
        segment_covers (perm_action g) (perm_action r)) \<and>
     (\<forall>g r. permission_create a = Inr g \<longrightarrow> permission_create b = Inr r \<longrightarrow>
        (segment_covers (perm_resource g) (perm_resource r) \<and>
         segment_covers (perm_action g) (perm_action r) \<longleftrightarrow> permission_matches g r))"
proof -
  have spec: "permission_matches g r \<longleftrightarrow> segment_covers (perm_resource g) (perm_resource r) \<and>
      segment_covers (perm_action g) (perm_action r)"
    if "permission_create a = Inr g" "permission_create b = Inr r" for g r
    using that permission_matches_spec by (simp add: permission_create_Inr_iff)
  then show ?thesis
    by (auto simp: matcher_matches_iff permission_from_eq)
qed

theorem permission_matching_spec_witness:
  "matcher_matches (PermStr ''users:*'') (PermStr ''USERS:read'') \<and>
   \<not> matcher_matches (PermStr ''users:*'') (PermStr ''user_profiles:read'')"
proof -
  have g: "permission_create ''users:*'' =
      Inr \<lparr>perm_value = ''users:*'', perm_resource = ''users'', perm_action = ''*''\<rparr>" by code_simp
  have r: "permission_create ''USERS:read'' =
      Inr \<lparr>perm_value = ''users:read'', perm_resource = ''users'', perm_action = ''read''\<rparr>" by code_simp
  have o': "permission_create ''user_profiles:read'' =
      Inr \<lparr>perm_value = ''user_profiles:read'', perm_resource = ''user_profiles'',
        perm_action = ''read''\<rparr>" by code_simp
  show ?thesis
    unfolding permission_matching_spec by (simp add: g r o' segment_covers_def permission_matches_def)
qed

end
