(* ===== verification/Roles.thy ===== *)
theory Roles
  imports Permissions
begin

text \<open>
  \<open>packages/authorization/domain/entities/role.ts\<close>: the \<open>Role\<close> aggregate with its guarded
  mutators, and the \<open>RoleRepository\<close> and \<open>PermissionRepository\<close> ports as records of
  operations with their contracts as locales, interpreted on the in-memory adapters of
  \<open>infrastructure/fakes\<close>. \<open>new Date()\<close> and \<open>createId()\<close> are arguments (\<open>now\<close>, \<open>fresh\<close>).
\<close>

section \<open>The Role aggregate\<close>

record role =
  role_id :: string
  role_name :: string
  role_description :: "string option"
  role_is_system :: bool
  role_permissions :: "string list"
  role_created_at :: date
  role_updated_at :: date

record create_role_params =
  crp_id :: "string option"
  crp_name :: string
  crp_description :: "string option"
  crp_is_system :: "bool option"
  crp_permissions :: "perm_arg list option"
  crp_created_at :: "date option"
  crp_updated_at :: "date option"



text \<open>The loop of \<open>Role.create\<close> over the initial permissions.\<close>

definition initial_permissions :: "perm_arg list option \<Rightarrow> string list throwing" where
  "initial_permissions ps =
     (case ps of None \<Rightarrow> Inr []
      | Some args \<Rightarrow>
          (case map_throwing perm_arg_from args of
             Inl e \<Rightarrow> Inl e
           | Inr perms \<Rightarrow> Inr (set_of_list (map perm_value perms))))"

definition role_create :: "string \<Rightarrow> date \<Rightarrow> create_role_params \<Rightarrow> role result throwing" where
  "role_create fresh now params =
     (if length (js_trim (crp_name params)) = 0
      then Inr (Inl (ValidationError [(''name'', [''required''])]))
      else
        let trimmed = js_trim (crp_name params);
            created = or_default (crp_created_at params) now;
            updated = or_default (crp_updated_at params) now;
            system = or_default (crp_is_system params) False
        in case initial_permissions (crp_permissions params) of
             Inl e \<Rightarrow> Inl e
           | Inr perms \<Rightarrow>
               Inr (Inr \<lparr>role_id = or_default (crp_id params) fresh,
                 role_name = trimmed,
                 role_description = map_option js_trim (crp_description params),
                 role_is_system = system,
                 role_permissions = perms,
                 role_created_at = created,
                 role_updated_at = updated\<rparr>))"

definition role_create_system :: "string \<Rightarrow> date \<Rightarrow> create_role_params \<Rightarrow> role result throwing" where
  "role_create_system fresh now params =
     role_create fresh now (params\<lparr>crp_is_system := Some True\<rparr>)"

text \<open>
  The mutators return the role after the call; \<open>Inl\<close> is a thrown error, which leaves the
  object as it was.
\<close>

definition role_grant :: "date \<Rightarrow> perm_arg \<Rightarrow> role \<Rightarrow> role throwing" where
  "role_grant now permission r =
     (case perm_arg_from permission of
        Inl e \<Rightarrow> Inl e
      | Inr perm \<Rightarrow>
          (if perm_value perm \<notin> set (role_permissions r)
           then Inr (r\<lparr>role_permissions := set_add (perm_value perm) (role_permissions r),
                       role_updated_at := now\<rparr>)
           else Inr r))"

definition role_revoke :: "date \<Rightarrow> perm_arg \<Rightarrow> role \<Rightarrow> role throwing" where
  "role_revoke now permission r =
     (if role_is_system r
      then Inl (SystemRoleImmutableError (role_id r) (role_name r) ''revoke'')
      else case perm_arg_from permission of
        Inl e \<Rightarrow> Inl e
      | Inr perm \<Rightarrow>
          (if perm_value perm \<in> set (role_permissions r)
           then Inr (r\<lparr>role_permissions := set_delete (perm_value perm) (role_permissions r),
                       role_updated_at := now\<rparr>)
           else Inr r))"

definition role_rename :: "date \<Rightarrow> string \<Rightarrow> role \<Rightarrow> role throwing" where
  "role_rename now new_name r =
     (if role_is_system r
      then Inl (SystemRoleImmutableError (role_id r) (role_name r) ''rename'')
      else if length (js_trim new_name) = 0
      then Inl (ValidationError [(''name'', [''required''])])
      else let trimmed = js_trim new_name
           in if role_name r \<noteq> trimmed
              then Inr (r\<lparr>role_name := trimmed, role_updated_at := now\<rparr>)
              else Inr r)"

definition role_update_description :: "date \<Rightarrow> string option \<Rightarrow> role \<Rightarrow> role" where
  "role_update_description now d r =
     r\<lparr>role_description := map_option js_trim d, role_updated_at := now\<rparr>"

definition role_has_permission :: "role \<Rightarrow> perm_arg \<Rightarrow> bool throwing" where
  "role_has_permission r permission =
     (case perm_arg_from permission of
        Inl e \<Rightarrow> Inl e
      | Inr required \<Rightarrow>
          (if perm_value required \<in> set (role_permissions r) then Inr True
           else if perm_resource required @ '':*'' \<in> set (role_permissions r) then Inr True
           else Inr False))"

section \<open>Well-formed roles\<close>

definition role_wf :: "role \<Rightarrow> bool" where
  "role_wf r \<longleftrightarrow>
     distinct (role_permissions r) \<and> list_all permission_pattern (role_permissions r) \<and>
     role_name r \<noteq> [] \<and> js_trim (role_name r) = role_name r"

text \<open>The permission objects a stored permission string stands for.\<close>

lemma permission_pattern_wf:
  "permission_pattern v \<longleftrightarrow> (\<exists>p. permission_wf p \<and> perm_value p = v)"
proof
  assume "permission_pattern v"
  then obtain a b where "v = a @ '':'' @ b \<and> a \<noteq> [] \<and> b \<noteq> [] \<and> list_all perm_char a \<and> list_all perm_char b"
    unfolding permission_pattern_iff by blast
  then have "permission_wf \<lparr>perm_value = v, perm_resource = a, perm_action = b\<rparr>"
    by (simp add: permission_wf_def)
  then show "\<exists>p. permission_wf p \<and> perm_value p = v" by force
qed (auto intro: permission_wf_pattern)

lemma initial_permissions_wf:
  assumes "initial_permissions ps = Inr vs"
    and "\<forall>args. ps = Some args \<longrightarrow> list_all perm_arg_wf args"
  shows "distinct vs \<and> list_all permission_pattern vs"
proof (cases ps)
  case None
  then show ?thesis using assms(1) by (simp add: initial_permissions_def)
next
  case (Some args)
  then obtain perms where m: "map_throwing perm_arg_from args = Inr perms"
    and vs: "vs = set_of_list (map perm_value perms)"
    using assms(1) by (auto simp: initial_permissions_def split: sum.splits)
  have "permission_wf p" if "p \<in> set perms" for p
    using that map_throwing_set [OF m] assms(2) Some
    by (auto simp: list_all_iff intro: perm_arg_from_wf)
  then show ?thesis
    using vs by (auto simp: list_all_iff intro: permission_wf_pattern)
qed

definition crp_wf :: "create_role_params \<Rightarrow> bool" where
  "crp_wf params \<longleftrightarrow> (\<forall>args. crp_permissions params = Some args \<longrightarrow> list_all perm_arg_wf args)"

lemma role_create_wf [wf_intros]:
  assumes "role_create fresh now params = Inr (Inr r)" and "crp_wf params"
  shows "role_wf r"
proof -
  obtain vs where "initial_permissions (crp_permissions params) = Inr vs"
    and "role_permissions r = vs" "role_name r = js_trim (crp_name params)"
    and "js_trim (crp_name params) \<noteq> []"
    using assms(1) by (auto simp: role_create_def Let_def split: if_splits sum.splits)
  then show ?thesis
    using initial_permissions_wf [of "crp_permissions params" vs] assms(2)
    by (simp add: role_wf_def crp_wf_def)
qed

lemma role_grant_wf [wf_intros]:
  assumes "role_grant now a r = Inr r'" "role_wf r" "perm_arg_wf a"
  shows "role_wf r'"
proof -
  obtain p where p: "perm_arg_from a = Inr p" "permission_wf p"
    using assms perm_arg_from_wf by (cases "perm_arg_from a") (auto simp: role_grant_def)
  then have "permission_pattern (perm_value p)" by (blast intro: permission_wf_pattern)
  with p assms show ?thesis
    by (auto simp: role_grant_def role_wf_def list_all_iff split: if_splits)
qed

lemma role_revoke_wf [wf_intros]:
  assumes "role_revoke now a r = Inr r'" "role_wf r"
  shows "role_wf r'"
  using assms by (auto simp: role_revoke_def role_wf_def list_all_iff split: if_splits sum.splits)

lemma role_rename_wf [wf_intros]:
  assumes "role_rename now n r = Inr r'" "role_wf r"
  shows "role_wf r'"
  using assms by (auto simp: role_rename_def role_wf_def Let_def split: if_splits)

lemma role_update_description_wf [wf_intros]: "role_wf r \<Longrightarrow> role_wf (role_update_description now d r)"
  by (simp add: role_wf_def role_update_description_def)

lemmas role_wf_rules = role_create_wf role_grant_wf role_revoke_wf role_rename_wf
  role_update_description_wf

text \<open>Frame facts: no mutator changes the id or the system flag.\<close>

lemma role_mutators_frame:
  "role_grant now a r = Inr r' \<Longrightarrow> role_id r' = role_id r \<and> role_is_system r' = role_is_system r
     \<and> role_name r' = role_name r"
  "role_revoke now a r = Inr r' \<Longrightarrow> role_id r' = role_id r \<and> role_is_system r' = role_is_system r
     \<and> role_name r' = role_name r"
  "role_rename now n r = Inr r' \<Longrightarrow> role_id r' = role_id r \<and> role_is_system r' = role_is_system r
     \<and> role_permissions r' = role_permissions r"
  by (auto simp: role_grant_def role_revoke_def role_rename_def Let_def split: if_splits sum.splits)

lemma role_grant_permissions:
  "role_grant now a r = Inr r' \<Longrightarrow>
     \<exists>p. perm_arg_from a = Inr p \<and>
       set (role_permissions r') = insert (perm_value p) (set (role_permissions r))"
  by (auto simp: role_grant_def split: if_splits sum.splits)

lemma role_revoke_permissions:
  "role_revoke now a r = Inr r' \<Longrightarrow>
     \<not> role_is_system r \<and> (\<exists>p. perm_arg_from a = Inr p \<and>
       set (role_permissions r') = set (role_permissions r) - {perm_value p})"
  by (auto simp: role_revoke_def split: if_splits sum.splits)

text \<open>
  \<open>Role.hasPermission\<close> against the matching of \<open>Permission.matches\<close>: what it accepts, a
  granted permission of the role matches; a \<open>*:*\<close> or \<open>*:action\<close> grant it does not see.
\<close>

lemma role_has_permission_matches:
  assumes "permission_wf req" and "role_has_permission r (PermObj req) = Inr True"
  shows "\<exists>v \<in> set (role_permissions r). \<exists>g. permission_from v = Inr g \<and> permission_matches g req"
proof -
  let ?act = "\<lparr>perm_value = perm_resource req @ '':*'', perm_resource = perm_resource req,
      perm_action = ''*''\<rparr>"
  have w: "permission_wf ?act" using assms(1) by (simp add: permission_wf_def perm_char_def)
  consider "perm_value req \<in> set (role_permissions r)" |
      "perm_resource req @ '':*'' \<in> set (role_permissions r)"
    using assms(2) by (auto simp: role_has_permission_def split: if_splits)
  then show ?thesis
  proof cases
    case 1
    then show ?thesis using permission_from_value [OF assms(1)] permission_matches_refl by blast
  next
    case 2
    then show ?thesis using permission_from_value [OF w]
      by (intro bexI [OF _ 2] exI [of _ ?act]) (simp add: permission_matches_def)
  qed
qed

section \<open>The RoleRepository port\<close>

record 'r role_repository =
  rr_find_by_id :: "'r \<Rightarrow> string \<Rightarrow> role option"
  rr_find_by_name :: "'r \<Rightarrow> string \<Rightarrow> role option"
  rr_find_all :: "'r \<Rightarrow> role list"
  rr_save :: "role \<Rightarrow> 'r \<Rightarrow> 'r"
  rr_delete :: "string \<Rightarrow> 'r \<Rightarrow> 'r throwing"

locale role_store =
  fixes ops :: "'r role_repository"
    and inv :: "'r \<Rightarrow> bool"
  assumes find_save: "inv s \<Longrightarrow> rr_find_by_id ops (rr_save ops x s) i =
      (if i = role_id x then Some x else rr_find_by_id ops s i)"
    and inv_save: "inv s \<Longrightarrow> inv (rr_save ops x s)"
    and find_id: "inv s \<Longrightarrow> rr_find_by_id ops s i = Some x \<Longrightarrow> role_id x = i"
    and name_sound: "inv s \<Longrightarrow> rr_find_by_name ops s n = Some x \<Longrightarrow>
      role_name x = js_trim n \<and> rr_find_by_id ops s (role_id x) = Some x"
    and name_complete: "inv s \<Longrightarrow> rr_find_by_name ops s n = None \<Longrightarrow>
      rr_find_by_id ops s i = Some x \<Longrightarrow> role_name x \<noteq> js_trim n"
    and delete_system: "inv s \<Longrightarrow> rr_find_by_id ops s i = Some x \<Longrightarrow> role_is_system x \<Longrightarrow>
      rr_delete ops i s = Inl (SystemRoleImmutableError (role_id x) (role_name x) ''delete'')"
    and delete_other: "inv s \<Longrightarrow> (\<forall>x. rr_find_by_id ops s i = Some x \<longrightarrow> \<not> role_is_system x) \<Longrightarrow>
      \<exists>s'. rr_delete ops i s = Inr s' \<and> inv s' \<and>
        (\<forall>j. rr_find_by_id ops s' j = (if j = i then None else rr_find_by_id ops s j))"
begin

lemma delete_result:
  assumes "inv s" "rr_delete ops i s = Inr s'"
  shows "inv s' \<and> (\<forall>j. rr_find_by_id ops s' j = (if j = i then None else rr_find_by_id ops s j)) \<and>
    (\<forall>x. rr_find_by_id ops s i = Some x \<longrightarrow> \<not> role_is_system x)"
proof -
  have ns: "\<forall>x. rr_find_by_id ops s i = Some x \<longrightarrow> \<not> role_is_system x"
    using delete_system [OF assms(1)] assms(2) by fastforce
  from delete_other [OF assms(1) ns] assms(2) ns show ?thesis by auto
qed

end

section \<open>The in-memory repositories\<close>

text \<open>\<open>infrastructure/fakes/in-memory-role-repository.ts\<close>.\<close>

definition mem_role_find_by_id :: "(string, role) js_map \<Rightarrow> string \<Rightarrow> role option" where
  "mem_role_find_by_id m i = map_get m i"

definition mem_role_find_by_name :: "(string, role) js_map \<Rightarrow> string \<Rightarrow> role option" where
  "mem_role_find_by_name m n = find (\<lambda>r. role_name r = js_trim n) (map_values m)"

definition mem_role_find_all :: "(string, role) js_map \<Rightarrow> role list" where
  "mem_role_find_all m = map_values m"

definition mem_role_save :: "role \<Rightarrow> (string, role) js_map \<Rightarrow> (string, role) js_map" where
  "mem_role_save r m = map_set (role_id r) r m"

definition mem_role_delete :: "string \<Rightarrow> (string, role) js_map \<Rightarrow> (string, role) js_map throwing" where
  "mem_role_delete i m =
     (case map_get m i of
        None \<Rightarrow> Inr m
      | Some r \<Rightarrow>
          (if role_is_system r
           then Inl (SystemRoleImmutableError (role_id r) (role_name r) ''delete'')
           else Inr (map_delete i m)))"

definition mem_role_ops :: "(string, role) js_map role_repository" where
  "mem_role_ops = \<lparr>rr_find_by_id = mem_role_find_by_id, rr_find_by_name = mem_role_find_by_name,
     rr_find_all = mem_role_find_all, rr_save = mem_role_save, rr_delete = mem_role_delete\<rparr>"

definition mem_role_inv :: "(string, role) js_map \<Rightarrow> bool" where
  "mem_role_inv m \<longleftrightarrow> map_wf m \<and> (\<forall>i r. map_get m i = Some r \<longrightarrow> role_id r = i)"

lemma mem_role_ops_simps [simp]:
  "rr_find_by_id mem_role_ops = mem_role_find_by_id"
  "rr_find_by_name mem_role_ops = mem_role_find_by_name"
  "rr_find_all mem_role_ops = mem_role_find_all"
  "rr_save mem_role_ops = mem_role_save"
  "rr_delete mem_role_ops = mem_role_delete"
  by (simp_all add: mem_role_ops_def)

lemma mem_role_inv_Nil [simp]: "mem_role_inv []"
  by (simp add: mem_role_inv_def)

lemma mem_role_name_sound:
  assumes "mem_role_inv m" "mem_role_find_by_name m n = Some r"
  shows "role_name r = js_trim n \<and> map_get m (role_id r) = Some r"
proof -
  have "role_name r = js_trim n" "r \<in> set (map_values m)"
    using assms(2) by (auto simp: mem_role_find_by_name_def find_Some_iff)
  then show ?thesis
    using assms(1) by (auto simp: mem_role_inv_def map_values_iff)
qed

interpretation mem_roles: role_store mem_role_ops mem_role_inv
proof unfold_locales
  fix s n x
  assume "mem_role_inv s" "rr_find_by_name mem_role_ops s n = Some x"
  then show "role_name x = js_trim n \<and> rr_find_by_id mem_role_ops s (role_id x) = Some x"
    using mem_role_name_sound by (simp add: mem_role_find_by_id_def)
next
  fix s n i x
  assume "mem_role_inv s" "rr_find_by_name mem_role_ops s n = None"
    "rr_find_by_id mem_role_ops s i = Some x"
  then show "role_name x \<noteq> js_trim n"
    by (auto simp: mem_role_find_by_name_def find_None_iff mem_role_find_by_id_def
        mem_role_inv_def map_values_iff)
qed (auto simp: mem_role_find_by_id_def mem_role_save_def mem_role_inv_def mem_role_delete_def
    split: option.splits)

text \<open>
  The \<open>PermissionRepository\<close> port and \<open>infrastructure/fakes/in-memory-permission-repository.ts\<close>.
\<close>

record 'c permission_repository =
  pr_find_by_key :: "'c \<Rightarrow> string \<Rightarrow> permission option"
  pr_find_all :: "'c \<Rightarrow> permission list"
  pr_save :: "permission \<Rightarrow> 'c \<Rightarrow> 'c throwing"

definition mem_perm_save :: "permission \<Rightarrow> (string, permission) js_map \<Rightarrow> (string, permission) js_map throwing" where
  "mem_perm_save p m =
     (let key = perm_value p
      in if map_get m key \<noteq> None then Inl ConflictError else Inr (map_set key p m))"

definition mem_perm_find_by_key :: "(string, permission) js_map \<Rightarrow> string \<Rightarrow> permission option" where
  "mem_perm_find_by_key m key = map_get m (js_lower (js_trim key))"

definition mem_perm_find_all :: "(string, permission) js_map \<Rightarrow> permission list" where
  "mem_perm_find_all m = map_values m"

definition mem_perm_ops :: "(string, permission) js_map permission_repository" where
  "mem_perm_ops = \<lparr>pr_find_by_key = mem_perm_find_by_key, pr_find_all = mem_perm_find_all,
     pr_save = mem_perm_save\<rparr>"

lemma mem_perm_ops_simps [simp]:
  "pr_find_by_key mem_perm_ops = mem_perm_find_by_key"
  "pr_find_all mem_perm_ops = mem_perm_find_all"
  "pr_save mem_perm_ops = mem_perm_save"
  by (simp_all add: mem_perm_ops_def)

definition mem_perm_inv :: "(string, permission) js_map \<Rightarrow> bool" where
  "mem_perm_inv m \<longleftrightarrow> map_wf m \<and> (\<forall>k p. map_get m k = Some p \<longrightarrow> permission_wf p \<and> perm_value p = k)"

locale permission_store =
  fixes cops :: "'c permission_repository"
    and cinv :: "'c \<Rightarrow> bool"
  assumes perm_save: "cinv c \<Longrightarrow> permission_wf p \<Longrightarrow> pr_find_by_key cops c (perm_value p) = None \<Longrightarrow>
      \<exists>c'. pr_save cops p c = Inr c' \<and> cinv c' \<and>
        (\<forall>q. permission_wf q \<longrightarrow> pr_find_by_key cops c' (perm_value q) =
           (if perm_value q = perm_value p then Some p else pr_find_by_key cops c (perm_value q)))"
    and perm_found: "cinv c \<Longrightarrow> permission_wf p \<Longrightarrow> pr_find_by_key cops c (perm_value p) = Some q \<Longrightarrow>
      q = p"

interpretation mem_perms: permission_store mem_perm_ops mem_perm_inv
proof unfold_locales
  fix c p
  assume "mem_perm_inv c" "permission_wf p" "pr_find_by_key mem_perm_ops c (perm_value p) = None"
  then show "\<exists>c'. pr_save mem_perm_ops p c = Inr c' \<and> mem_perm_inv c' \<and>
        (\<forall>q. permission_wf q \<longrightarrow> pr_find_by_key mem_perm_ops c' (perm_value q) =
           (if perm_value q = perm_value p then Some p
            else pr_find_by_key mem_perm_ops c (perm_value q)))"
    by (auto simp: mem_perm_save_def mem_perm_find_by_key_def permission_wf_lower_trim
        mem_perm_inv_def Let_def)
next
  fix c p q
  assume "mem_perm_inv c" "permission_wf p" "pr_find_by_key mem_perm_ops c (perm_value p) = Some q"
  then show "q = p"
    by (auto simp: mem_perm_find_by_key_def permission_wf_lower_trim mem_perm_inv_def
        intro: permission_wf_inject)
qed

end
