(* ===== verification/RoleAdmin.thy ===== *)
theory RoleAdmin
  imports Roles
begin

text \<open>
  The role administration use cases of \<open>packages/authorization/application/use-cases\<close>:
  \<open>CreateRole\<close>, \<open>DefinePermission\<close>, \<open>AssignPermissionToRole\<close>, \<open>RevokePermissionFromRole\<close>,
  each over the repository ports it is constructed with, and the system they form together
  with the repository's own \<open>delete\<close>: a step relation, its invariant and what no sequence
  of operations can do to a system role. A use case returns its \<open>Result\<close> and the store
  after it; \<open>Inl\<close> is an exception that escapes \<open>execute\<close>.
\<close>

section \<open>The use cases\<close>

record create_role_command =
  crc_name :: string
  crc_description :: "string option"
  crc_is_system :: "bool option"
  crc_permissions :: "perm_arg list option"

definition create_role_execute ::
  "'r role_repository \<Rightarrow> string \<Rightarrow> date \<Rightarrow> create_role_command \<Rightarrow> 'r \<Rightarrow> (role result \<times> 'r) throwing" where
  "create_role_execute ops fresh now cmd s =
     (case role_create fresh now \<lparr>crp_id = None, crp_name = crc_name cmd,
         crp_description = crc_description cmd, crp_is_system = crc_is_system cmd,
         crp_permissions = crc_permissions cmd, crp_created_at = None, crp_updated_at = None\<rparr> of
        Inl e \<Rightarrow> Inl e
      | Inr (Inl e) \<Rightarrow> Inr (Inl e, s)
      | Inr (Inr role) \<Rightarrow>
          (if \<not> role_is_system role \<and>
              list_ex (\<lambda>k. is_global_wildcard (PermStr k)) (role_permissions role)
           then Inr (Inl (ValidationError [(''permissions'', [''system_role_only''])]), s)
           else case rr_find_by_name ops s (role_name role) of
             Some _ \<Rightarrow> Inr (Inl ConflictError, s)
           | None \<Rightarrow> Inr (Inr role, rr_save ops role s)))"

definition define_permission_execute ::
  "'c permission_repository \<Rightarrow> string \<Rightarrow> 'c \<Rightarrow> (permission result \<times> 'c) throwing" where
  "define_permission_execute cops key c =
     (case permission_create key of
        Inl e \<Rightarrow> Inr (Inl e, c)
      | Inr p \<Rightarrow>
          (case pr_find_by_key cops c (perm_value p) of
             Some existing \<Rightarrow> Inr (Inr existing, c)
           | None \<Rightarrow>
               (case pr_save cops p c of Inl e \<Rightarrow> Inl e | Inr c' \<Rightarrow> Inr (Inr p, c'))))"

definition assign_permission_execute ::
  "'r role_repository \<Rightarrow> 'c permission_repository \<Rightarrow> date \<Rightarrow> string \<Rightarrow> string \<Rightarrow> 'c \<Rightarrow> 'r \<Rightarrow>
     (role result \<times> 'r) throwing" where
  "assign_permission_execute ops cops now rid permission c s =
     (case rr_find_by_id ops s rid of
        None \<Rightarrow> Inr (Inl NotFoundError, s)
      | Some role \<Rightarrow>
          (case permission_create permission of
             Inl e \<Rightarrow> Inr (Inl e, s)
           | Inr p \<Rightarrow>
               (if is_global_wildcard (PermObj p) \<and> \<not> role_is_system role
                then Inr (Inl (permission_error ''system_role_only''), s)
                else case pr_find_by_key cops c (perm_value p) of
                  None \<Rightarrow> Inr (Inl (permission_error ''unregistered_permission''), s)
                | Some _ \<Rightarrow>
                    (case role_grant now (PermObj p) role of
                       Inl e \<Rightarrow> Inl e
                     | Inr role' \<Rightarrow> Inr (Inr role', rr_save ops role' s)))))"

definition revoke_permission_execute ::
  "'r role_repository \<Rightarrow> date \<Rightarrow> string \<Rightarrow> string \<Rightarrow> 'r \<Rightarrow> (role result \<times> 'r) throwing" where
  "revoke_permission_execute ops now rid permission s =
     (case rr_find_by_id ops s rid of
        None \<Rightarrow> Inr (Inl NotFoundError, s)
      | Some role \<Rightarrow>
          (case permission_create permission of
             Inl e \<Rightarrow> Inr (Inl e, s)
           | Inr p \<Rightarrow>
               (case role_revoke now (PermObj p) role of
                  Inl e \<Rightarrow> Inr (Inl e, s)
                | Inr role' \<Rightarrow> Inr (Inr role', rr_save ops role' s))))"

section \<open>What the use cases keep\<close>

text \<open>
  The guarded roles: well formed, and the global wildcard only on a system role. This is a
  promise of the use cases, not of the aggregate (\<open>Role.grant\<close> alone accepts \<open>*:*\<close>).
\<close>

definition role_guarded :: "role \<Rightarrow> bool" where
  "role_guarded r \<longleftrightarrow> role_wf r \<and> (''*:*'' \<in> set (role_permissions r) \<longrightarrow> role_is_system r)"

definition system_kept :: "role \<Rightarrow> role \<Rightarrow> bool" where
  "system_kept r r' \<longleftrightarrow>
     role_is_system r' \<and> role_id r' = role_id r \<and> role_name r' = role_name r \<and>
     set (role_permissions r) \<subseteq> set (role_permissions r')"

lemma system_kept_refl [simp]: "role_is_system r \<Longrightarrow> system_kept r r"
  by (simp add: system_kept_def)

lemma system_kept_trans: "system_kept r s \<Longrightarrow> system_kept s t \<Longrightarrow> system_kept r t"
  by (auto simp: system_kept_def)

definition command_wf :: "create_role_command \<Rightarrow> bool" where
  "command_wf cmd \<longleftrightarrow> (\<forall>args. crc_permissions cmd = Some args \<longrightarrow> list_all perm_arg_wf args)"

locale role_admin = role_store ops inv + permission_store cops cinv
  for ops :: "'r role_repository" and inv and cops :: "'c permission_repository" and cinv
begin

definition guarded :: "'r \<Rightarrow> bool" where
  "guarded s \<longleftrightarrow> inv s \<and> (\<forall>i r. rr_find_by_id ops s i = Some r \<longrightarrow> role_guarded r) \<and>
     (\<forall>i j r r'. rr_find_by_id ops s i = Some r \<longrightarrow> rr_find_by_id ops s j = Some r' \<longrightarrow>
        role_name r = role_name r' \<longrightarrow> i = j)"

definition keeps_system :: "'r \<Rightarrow> 'r \<Rightarrow> bool" where
  "keeps_system s s' \<longleftrightarrow> (\<forall>i r. rr_find_by_id ops s i = Some r \<longrightarrow> role_is_system r \<longrightarrow>
     (\<exists>r'. rr_find_by_id ops s' i = Some r' \<and> system_kept r r'))"

lemma keeps_system_refl [simp]: "keeps_system s s"
  by (simp add: keeps_system_def)

lemma keeps_system_trans: "keeps_system s t \<Longrightarrow> keeps_system t u \<Longrightarrow> keeps_system s u"
  unfolding keeps_system_def by (meson system_kept_def system_kept_trans)

text \<open>Saving an updated role under its own id.\<close>

lemma save_update:
  assumes g: "guarded s" and old: "rr_find_by_id ops s i = Some r"
    and new: "role_id r' = role_id r" "role_name r' = role_name r" "role_guarded r'"
  shows "guarded (rr_save ops r' s)"
proof -
  have inv: "inv s" using g by (simp add: guarded_def)
  have id: "role_id r = i" using find_id [OF inv old] .
  show ?thesis
    unfolding guarded_def find_save [OF inv]
    using g old new id inv_save [OF inv] by (auto simp: guarded_def split: if_splits)
qed

lemma save_keeps:
  assumes g: "guarded s" and old: "rr_find_by_id ops s i = Some r"
    and new: "role_id r' = role_id r" "role_is_system r \<longrightarrow> system_kept r r'"
  shows "keeps_system s (rr_save ops r' s)"
proof -
  have inv: "inv s" using g by (simp add: guarded_def)
  have id: "role_id r = i" using find_id [OF inv old] .
  show ?thesis
    unfolding keeps_system_def find_save [OF inv] using old new id by auto
qed

lemma create_role_cases:
  assumes "create_role_execute ops fresh now cmd s = Inr (res, s')"
  obtains (unchanged) "s' = s"
  | (saved) role where "s' = rr_save ops role s" "res = Inr role" "role_id role = fresh"
      "command_wf cmd \<Longrightarrow> role_guarded role" "rr_find_by_name ops s (role_name role) = None"
proof -
  define params where "params = \<lparr>crp_id = None, crp_name = crc_name cmd,
         crp_description = crc_description cmd, crp_is_system = crc_is_system cmd,
         crp_permissions = crc_permissions cmd, crp_created_at = None, crp_updated_at = None\<rparr>"
  show ?thesis
  proof (cases "s' = s")
    case False
    then obtain role where r: "role_create fresh now params = Inr (Inr role)"
      and nw: "role_is_system role \<or>
        \<not> list_ex (\<lambda>k. is_global_wildcard (PermStr k)) (role_permissions role)"
      and nm: "rr_find_by_name ops s (role_name role) = None"
      and s': "s' = rr_save ops role s" "res = Inr role"
      using assms unfolding create_role_execute_def params_def [symmetric]
      by (auto split: sum.splits if_splits option.splits)
    have id: "role_id role = fresh"
      using r by (auto simp: role_create_def params_def or_default_def Let_def
          split: sum.splits if_splits)
    have "role_guarded role" if "command_wf cmd"
    proof -
      have wf: "role_wf role"
        using role_create_wf [OF r] that by (simp add: params_def crp_wf_def command_wf_def)
      moreover have "role_is_system role" if star: "''*:*'' \<in> set (role_permissions role)"
      proof -
        from star wf obtain p where "permission_wf p" "perm_value p = ''*:*''"
          by (auto simp: role_wf_def list_all_iff permission_pattern_wf)
        then have "is_global_wildcard (PermStr ''*:*'')"
          using is_global_wildcard_iff(2) [of p] by simp
        with star nw show ?thesis by (auto simp: list_ex_iff)
      qed
      ultimately show ?thesis by (simp add: role_guarded_def)
    qed
    with s' id nm show ?thesis by (intro saved)
  qed (rule unchanged)
qed

lemma create_role_guarded:
  assumes run: "create_role_execute ops fresh now cmd s = Inr (res, s')"
    and g: "guarded s" and cmd: "command_wf cmd" and fresh: "rr_find_by_id ops s fresh = None"
  shows "guarded s' \<and> keeps_system s s'"
  using run
proof (cases rule: create_role_cases)
  case (saved role)
  have inv: "inv s" using g by (simp add: guarded_def)
  have nm: "js_trim (role_name role) = role_name role"
    using saved(4) cmd by (simp add: role_guarded_def role_wf_def)
  have new: "role_name r \<noteq> role_name role" if "rr_find_by_id ops s i = Some r" for i r
    using name_complete [OF inv saved(5) that] nm by simp
  have "guarded s'"
    unfolding guarded_def saved(1) find_save [OF inv]
    using g saved(4) [OF cmd] inv_save [OF inv] new
    by (auto simp: guarded_def split: if_splits) (metis new)+
  moreover have "keeps_system s s'"
    unfolding keeps_system_def saved(1) find_save [OF inv] using fresh saved(3) by auto
  ultimately show ?thesis by simp
qed (use g in simp)

lemma assign_permission_cases:
  assumes run: "assign_permission_execute ops cops now rid key c s = Inr (res, s')"
  obtains (unchanged) "s' = s"
  | (saved) r r' p where "rr_find_by_id ops s rid = Some r" "permission_create key = Inr p"
      "\<not> is_global_wildcard (PermObj p) \<or> role_is_system r"
      "pr_find_by_key cops c (perm_value p) \<noteq> None"
      "role_grant now (PermObj p) r = Inr r'" "s' = rr_save ops r' s" "res = Inr r'"
proof (cases "s' = s")
  case False
  with run show ?thesis
    by (auto simp: assign_permission_execute_def split: sum.splits if_splits option.splits
        intro!: saved)
qed (rule unchanged)

lemma assign_permission_guarded:
  assumes run: "assign_permission_execute ops cops now rid key c s = Inr (res, s')"
    and g: "guarded s"
  shows "guarded s' \<and> keeps_system s s'"
  using run
proof (cases rule: assign_permission_cases)
  case (saved r r' p)
  have pw: "permission_wf p" using saved(2) by (simp add: permission_create_Inr_iff)
  have rg: "role_guarded r" using g saved(1) unfolding guarded_def by blast
  have wf': "role_wf r'"
    by (rule role_grant_wf [OF saved(5)]) (use rg pw in \<open>auto simp: role_guarded_def perm_arg_wf_def\<close>)
  have fr: "role_id r' = role_id r" "role_name r' = role_name r" "role_is_system r' = role_is_system r"
    using role_mutators_frame(1) [OF saved(5)] by auto
  have ps: "set (role_permissions r') = insert (perm_value p) (set (role_permissions r))"
    using role_grant_permissions [OF saved(5)] by simp
  have "role_guarded r'"
    using wf' rg ps fr saved(3) is_global_wildcard_iff(1) [OF pw] by (auto simp: role_guarded_def)
  moreover have "role_is_system r \<longrightarrow> system_kept r r'"
    using fr ps by (auto simp: system_kept_def)
  ultimately show ?thesis
    using save_update [OF g saved(1) fr(1,2)] save_keeps [OF g saved(1) fr(1)] saved(6) by blast
qed (use g in simp)

lemma revoke_permission_guarded:
  assumes run: "revoke_permission_execute ops now rid key s = Inr (res, s')" and g: "guarded s"
  shows "guarded s' \<and> keeps_system s s'"
proof (cases "s' = s")
  case False
  with run obtain r r' p where r: "rr_find_by_id ops s rid = Some r"
    and rv: "role_revoke now (PermObj p) r = Inr r'" and s': "s' = rr_save ops r' s"
    by (auto simp: revoke_permission_execute_def split: sum.splits option.splits) metis
  have rg: "role_guarded r" using g r unfolding guarded_def by blast
  have fr: "role_id r' = role_id r" "role_name r' = role_name r" "role_is_system r' = role_is_system r"
    using role_mutators_frame(2) [OF rv] by auto
  have ps: "\<not> role_is_system r" "set (role_permissions r') \<subseteq> set (role_permissions r)"
    using role_revoke_permissions [OF rv] by auto
  have "role_guarded r'"
    using role_revoke_wf [OF rv] rg fr ps by (auto simp: role_guarded_def)
  then show ?thesis
    using save_update [OF g r fr(1,2)] save_keeps [OF g r fr(1)] ps(1) s' by blast
qed (use g in simp)

lemma delete_guarded:
  assumes "rr_delete ops i s = Inr s'" and g: "guarded s"
  shows "guarded s' \<and> keeps_system s s'"
proof -
  have inv: "inv s" using g by (simp add: guarded_def)
  note d = delete_result [OF inv assms(1)]
  have "guarded s'" using d g unfolding guarded_def by (auto split: if_splits)
  moreover have "keeps_system s s'" using d unfolding keeps_system_def by auto
  ultimately show ?thesis by simp
qed

end

interpretation mem_admin: role_admin mem_role_ops mem_role_inv mem_perm_ops mem_perm_inv
  by unfold_locales

section \<open>The administration system\<close>

record rbac_state =
  rb_roles :: "(string, role) js_map"
  rb_perms :: "(string, permission) js_map"

definition rbac_init :: rbac_state where
  "rbac_init = \<lparr>rb_roles = [], rb_perms = []\<rparr>"

text \<open>
  One step is one call that returns. The id of a new role comes from \<open>randomUUID\<close>, which
  does not repeat: the premise of \<open>create\<close>.
\<close>

inductive rbac_step :: "rbac_state \<Rightarrow> rbac_state \<Rightarrow> bool" where
  create: "create_role_execute mem_role_ops fresh now cmd (rb_roles s) = Inr (res, rs) \<Longrightarrow>
     command_wf cmd \<Longrightarrow> map_get (rb_roles s) fresh = None \<Longrightarrow> rbac_step s (s\<lparr>rb_roles := rs\<rparr>)"
| define_perm: "define_permission_execute mem_perm_ops key (rb_perms s) = Inr (pres, ps) \<Longrightarrow>
     rbac_step s (s\<lparr>rb_perms := ps\<rparr>)"
| assign: "assign_permission_execute mem_role_ops mem_perm_ops now rid key (rb_perms s) (rb_roles s)
       = Inr (res, rs) \<Longrightarrow> rbac_step s (s\<lparr>rb_roles := rs\<rparr>)"
| revoke: "revoke_permission_execute mem_role_ops now rid key (rb_roles s) = Inr (res, rs) \<Longrightarrow>
     rbac_step s (s\<lparr>rb_roles := rs\<rparr>)"
| delete: "mem_role_delete rid (rb_roles s) = Inr rs \<Longrightarrow> rbac_step s (s\<lparr>rb_roles := rs\<rparr>)"

inductive_cases rbac_stepE: "rbac_step s t"

inductive rbac_steps :: "rbac_state \<Rightarrow> rbac_state \<Rightarrow> bool" where
  refl: "rbac_steps s s"
| more: "rbac_steps s t \<Longrightarrow> rbac_step t u \<Longrightarrow> rbac_steps s u"

lemma rbac_step_kept:
  assumes "rbac_step s t" and "mem_admin.guarded (rb_roles s)"
  shows "mem_admin.guarded (rb_roles t) \<and> mem_admin.keeps_system (rb_roles s) (rb_roles t)"
  using assms
proof (cases rule: rbac_step.cases)
  case (create fresh now cmd res rs)
  then show ?thesis
    using mem_admin.create_role_guarded [of fresh now cmd "rb_roles s" res rs] assms(2)
    by (simp add: mem_role_find_by_id_def)
next
  case (assign now rid key res rs)
  then show ?thesis using mem_admin.assign_permission_guarded assms(2) by auto
next
  case (revoke now rid key res rs)
  then show ?thesis using mem_admin.revoke_permission_guarded assms(2) by auto
next
  case (delete rid rs)
  then show ?thesis using mem_admin.delete_guarded [of rid "rb_roles s" rs] assms(2) by simp
qed (use assms(2) in simp)

lemma rbac_steps_kept:
  "rbac_steps s t \<Longrightarrow> mem_admin.guarded (rb_roles s) \<Longrightarrow>
     mem_admin.guarded (rb_roles t) \<and> mem_admin.keeps_system (rb_roles s) (rb_roles t)"
proof (induction rule: rbac_steps.induct)
  case (more s t u)
  then show ?case using rbac_step_kept mem_admin.keeps_system_trans by blast
qed simp

lemma rbac_init_guarded: "mem_admin.guarded (rb_roles rbac_init)"
  by (simp add: mem_admin.guarded_def rbac_init_def mem_role_find_by_id_def)

section \<open>Properties\<close>

text \<open>
  C2: In every state the administration use cases can reach from an empty system, every stored
  role is well formed (canonical permissions without duplicates, a trimmed nonempty name),
  the global wildcard is held by system roles only, and no two roles share a name.
\<close>

theorem rbac_invariant:
  assumes "rbac_steps rbac_init s" and "map_get (rb_roles s) i = Some r"
  shows "role_wf r \<and> (''*:*'' \<in> set (role_permissions r) \<longrightarrow> role_is_system r) \<and>
    (\<forall>j r'. map_get (rb_roles s) j = Some r' \<and> role_name r' = role_name r \<longrightarrow> i = j)"
proof -
  have "mem_admin.guarded (rb_roles s)"
    using rbac_steps_kept [OF assms(1) rbac_init_guarded] by simp
  then show ?thesis
    using assms(2) unfolding mem_admin.guarded_def
    by (auto simp: mem_role_find_by_id_def role_guarded_def)
qed

text \<open>A state the use cases reach: one system role holding the global wildcard.\<close>

definition demo_role :: role where
  "demo_role = \<lparr>role_id = ''r1'', role_name = ''root'', role_description = None,
     role_is_system = True, role_permissions = [''*:*''], role_created_at = Some 0,
     role_updated_at = Some 0\<rparr>"

definition demo_state :: rbac_state where
  "demo_state = \<lparr>rb_roles = [(''r1'', demo_role)], rb_perms = []\<rparr>"

lemma demo_reachable: "rbac_steps rbac_init demo_state"
proof -
  let ?cmd = "\<lparr>crc_name = '' root'', crc_description = None, crc_is_system = Some True,
      crc_permissions = Some [PermStr ''*:*'']\<rparr>"
  have "create_role_execute mem_role_ops ''r1'' (Some 0) ?cmd (rb_roles rbac_init) =
      Inr (Inr demo_role, [(''r1'', demo_role)])"
    by code_simp
  moreover have "command_wf ?cmd" by (simp add: command_wf_def perm_arg_wf_def)
  ultimately have "rbac_step rbac_init (rbac_init\<lparr>rb_roles := [(''r1'', demo_role)]\<rparr>)"
    by (rule rbac_step.create) (simp add: rbac_init_def)
  then show ?thesis
    using rbac_steps.more [OF rbac_steps.refl] by (simp add: rbac_init_def demo_state_def)
qed

theorem rbac_invariant_witness: "role_wf demo_role \<and> role_is_system demo_role"
  using rbac_invariant [OF demo_reachable, of "''r1''" demo_role]
  by (simp add: demo_state_def) (simp add: demo_role_def)

text \<open>
  A system role survives: whatever sequence of create, define, assign, revoke and delete
  calls follows, a role flagged as a system role is still stored under its id, is still a
  system role with the same name, and holds every permission it held.
\<close>

theorem rbac_system_roles_survive:
  assumes "rbac_steps rbac_init s" and "rbac_steps s t"
    and "map_get (rb_roles s) i = Some r" and "role_is_system r"
  shows "\<exists>r'. map_get (rb_roles t) i = Some r' \<and> role_is_system r' \<and>
    role_name r' = role_name r \<and> set (role_permissions r) \<subseteq> set (role_permissions r')"
proof -
  have "mem_admin.guarded (rb_roles s)"
    using rbac_steps_kept [OF assms(1) rbac_init_guarded] by simp
  from rbac_steps_kept [OF assms(2) this]
  have "\<forall>i r. map_get (rb_roles s) i = Some r \<longrightarrow> role_is_system r \<longrightarrow>
      (\<exists>r'. map_get (rb_roles t) i = Some r' \<and> system_kept r r')"
    by (simp add: mem_admin.keeps_system_def mem_role_find_by_id_def)
  then show ?thesis using assms(3,4) unfolding system_kept_def by blast
qed

theorem rbac_system_roles_survive_witness:
  "\<exists>r'. map_get (rb_roles demo_state) ''r1'' = Some r' \<and> role_is_system r' \<and>
    role_name r' = ''root'' \<and> {''*:*''} \<subseteq> set (role_permissions r')"
  using rbac_system_roles_survive [OF demo_reachable rbac_steps.refl, of "''r1''" demo_role]
  by (simp add: demo_state_def) (simp add: demo_role_def)

text \<open>
  \<open>Role.hasPermission\<close> accepts only what some permission of the role matches, but it does
  not see the wildcards \<open>*:*\<close> and \<open>*:action\<close>: a role that holds only \<open>*:*\<close> answers false for
  every concrete permission, although \<open>Permission.matches\<close> says \<open>*:*\<close> satisfies it.
\<close>

theorem role_has_permission_wildcards:
  assumes "permission_create key = Inr req"
  shows "(role_has_permission r (PermObj req) = Inr True \<longrightarrow>
      (\<exists>v \<in> set (role_permissions r). matcher_matches (PermStr v) (PermObj req))) \<and>
    (role_permissions r = [''*:*''] \<and> perm_resource req \<noteq> ''*'' \<longrightarrow>
      role_has_permission r (PermObj req) = Inr False \<and>
      matcher_matches (PermStr ''*:*'') (PermObj req))"
proof (intro conjI impI)
  have w: "permission_wf req" using assms by (simp add: permission_create_Inr_iff)
  show "\<exists>v \<in> set (role_permissions r). matcher_matches (PermStr v) (PermObj req)"
    if "role_has_permission r (PermObj req) = Inr True"
    using role_has_permission_matches [OF w that] by (force simp: matcher_matches_iff)
  show "role_has_permission r (PermObj req) = Inr False"
    if "role_permissions r = [''*:*''] \<and> perm_resource req \<noteq> ''*''"
  proof -
    have "perm_value req \<noteq> ''*:*''" "perm_resource req @ '':*'' \<noteq> ''*:*''"
      using that w by (auto simp: permission_wf_def append_eq_Cons_conv)
    then show ?thesis using that by (simp add: role_has_permission_def)
  qed
  have "permission_create ''*:*'' = Inr \<lparr>perm_value = ''*:*'', perm_resource = ''*'',
      perm_action = ''*''\<rparr>" by code_simp
  then show "matcher_matches (PermStr ''*:*'') (PermObj req)"
    by (simp add: matcher_matches_iff permission_from_eq permission_matches_def)
qed

theorem role_has_permission_wildcards_witness:
  "role_has_permission demo_role (PermObj \<lparr>perm_value = ''users:read'',
     perm_resource = ''users'', perm_action = ''read''\<rparr>) = Inr False"
proof -
  have "permission_create ''users:read'' = Inr \<lparr>perm_value = ''users:read'',
     perm_resource = ''users'', perm_action = ''read''\<rparr>" by code_simp
  from role_has_permission_wildcards [OF this, of demo_role] show ?thesis
    by (simp add: demo_role_def)
qed

end
