(* ===== verification/Assignments.thy ===== *)
theory Assignments
  imports Roles
begin

text \<open>
  \<open>packages/authorization/domain/entities/user-role-assignment.ts\<close>, the
  \<open>UserRoleAssignmentRepository\<close> port with its contract and in-memory adapter, and the use
  cases \<open>AssignRoleToUser\<close> and \<open>RevokeRoleFromUser\<close>. The two clock readings of a use case
  (one in the repository query, one in \<open>create\<close>) are two arguments.
\<close>

section \<open>The UserRoleAssignment entity\<close>

record assignment =
  ra_id :: string
  ra_user :: string
  ra_role :: string
  ra_org :: "string option"
  ra_assigned_at :: date
  ra_assigned_by :: string
  ra_expires_at :: "date option"

text \<open>\<open>orgId\<close> as a caller passes it: \<open>undefined\<close>, \<open>null\<close> (global) or an organization.\<close>

datatype org_arg = OrgUndefined | OrgNull | OrgOf string

record create_assignment_params =
  cap_id :: "string option"
  cap_user :: string
  cap_role :: string
  cap_org :: org_arg
  cap_assigned_by :: string
  cap_assigned_at :: "date option"
  cap_expires_at :: "date option"

definition blank :: "string \<Rightarrow> bool" where
  "blank s \<longleftrightarrow> s = [] \<or> js_trim s = []"

definition field_error :: "string \<Rightarrow> string \<Rightarrow> domain_error" where
  "field_error field code = ValidationError [(field, [code])]"

definition scope_of :: "org_arg \<Rightarrow> string option result" where
  "scope_of org =
     (case org of
        OrgUndefined \<Rightarrow> Inl (field_error ''orgId'' ''ambiguous_scope'')
      | OrgNull \<Rightarrow> Inr None
      | OrgOf o' \<Rightarrow> (if js_trim o' = [] then Inl (field_error ''orgId'' ''invalid_scope'')
                    else Inr (Some o')))"

text \<open>The expiry block of \<open>create\<close>: an expiry must be a valid date after \<open>assignedAt\<close>.\<close>

definition expiry_of :: "date \<Rightarrow> date option \<Rightarrow> date option result" where
  "expiry_of assigned expires =
     (case expires of
        None \<Rightarrow> Inr None
      | Some e \<Rightarrow>
          (if date_invalid e then Inl (field_error ''expiresAt'' ''invalid_date'')
           else if date_ge assigned e then Inl (field_error ''expiresAt'' ''must_be_after_assigned_at'')
           else Inr (Some e)))"

definition assignment_create ::
  "string \<Rightarrow> date \<Rightarrow> create_assignment_params \<Rightarrow> assignment result" where
  "assignment_create fresh now params =
     (if blank (cap_user params) then Inl (field_error ''userId'' ''required'')
      else if blank (cap_role params) then Inl (field_error ''roleId'' ''required'')
      else if blank (cap_assigned_by params) then Inl (field_error ''assignedBy'' ''required'')
      else case scope_of (cap_org params) of
        Inl e \<Rightarrow> Inl e
      | Inr scope \<Rightarrow>
          (let assigned = or_default (cap_assigned_at params) now
           in if date_invalid assigned then Inl (field_error ''assignedAt'' ''invalid_date'')
              else case expiry_of assigned (cap_expires_at params) of
                Inl e \<Rightarrow> Inl e
              | Inr expires \<Rightarrow>
                  Inr \<lparr>ra_id = or_default (cap_id params) fresh, ra_user = cap_user params,
                    ra_role = cap_role params, ra_org = scope, ra_assigned_at = assigned,
                    ra_assigned_by = cap_assigned_by params, ra_expires_at = expires\<rparr>))"

definition assign_global :: "string \<Rightarrow> date \<Rightarrow> create_assignment_params \<Rightarrow> assignment result" where
  "assign_global fresh now params = assignment_create fresh now (params\<lparr>cap_org := OrgNull\<rparr>)"

definition is_global :: "assignment \<Rightarrow> bool" where
  "is_global a \<longleftrightarrow> ra_org a = None"

definition is_scoped :: "assignment \<Rightarrow> bool" where
  "is_scoped a \<longleftrightarrow> ra_org a \<noteq> None"

definition is_expired :: "date \<Rightarrow> assignment \<Rightarrow> bool" where
  "is_expired now a = (case ra_expires_at a of None \<Rightarrow> False | Some e \<Rightarrow> date_ge now e)"

text \<open>What every created assignment satisfies.\<close>

definition assignment_wf :: "assignment \<Rightarrow> bool" where
  "assignment_wf a \<longleftrightarrow>
     \<not> blank (ra_user a) \<and> \<not> blank (ra_role a) \<and> \<not> blank (ra_assigned_by a) \<and>
     (\<forall>o'. ra_org a = Some o' \<longrightarrow> js_trim o' \<noteq> []) \<and>
     (\<exists>t. ra_assigned_at a = Some t \<and> (\<forall>e. ra_expires_at a = Some e \<longrightarrow> (\<exists>x. e = Some x \<and> t < x)))"

lemma expiry_of_Inr:
  assumes "expiry_of (Some t) x = Inr y"
  shows "y = x \<and> (\<forall>e. x = Some e \<longrightarrow> (\<exists>v. e = Some v \<and> t < v))"
  using assms
  by (cases x) (auto simp: expiry_of_def date_invalid_def split: if_splits option.splits)

lemma assignment_create_Inr:
  assumes "assignment_create fresh now params = Inr a"
  shows "assignment_wf a \<and> ra_id a = or_default (cap_id params) fresh \<and>
    ra_user a = cap_user params \<and> ra_role a = cap_role params \<and>
    ra_expires_at a = cap_expires_at params \<and>
    cap_org params = (case ra_org a of None \<Rightarrow> OrgNull | Some o' \<Rightarrow> OrgOf o')"
proof -
  obtain scope t expires where sc: "scope_of (cap_org params) = Inr scope"
    and t: "or_default (cap_assigned_at params) now = Some t"
    and ex: "expiry_of (Some t) (cap_expires_at params) = Inr expires"
    and nb: "\<not> blank (cap_user params)" "\<not> blank (cap_role params)" "\<not> blank (cap_assigned_by params)"
    and a: "a = \<lparr>ra_id = or_default (cap_id params) fresh, ra_user = cap_user params,
                    ra_role = cap_role params, ra_org = scope, ra_assigned_at = Some t,
                    ra_assigned_by = cap_assigned_by params, ra_expires_at = expires\<rparr>"
    using assms
    by (auto simp: assignment_create_def Let_def date_invalid_def split: if_splits sum.splits)
  from sc have "cap_org params = (case scope of None \<Rightarrow> OrgNull | Some o' \<Rightarrow> OrgOf o')"
    and "\<forall>o'. scope = Some o' \<longrightarrow> js_trim o' \<noteq> []"
    by (auto simp: scope_of_def split: org_arg.splits if_splits)
  with a nb expiry_of_Inr [OF ex] show ?thesis by (auto simp: assignment_wf_def)
qed

text \<open>Expiry is permanent: an assignment expired at some time is expired at every later one.\<close>

lemma is_expired_mono: "is_expired now a \<Longrightarrow> date_ge later now \<Longrightarrow> is_expired later a"
  by (auto simp: is_expired_def split: option.splits intro: date_ge_trans)

section \<open>The UserRoleAssignmentRepository port\<close>

record 's assignment_repository =
  ar_find_by_id :: "'s \<Rightarrow> string \<Rightarrow> assignment option"
  ar_find_by_user :: "'s \<Rightarrow> string \<Rightarrow> bool \<Rightarrow> date \<Rightarrow> assignment list"
  ar_find_by_user_and_org :: "'s \<Rightarrow> string \<Rightarrow> string option \<Rightarrow> bool \<Rightarrow> date \<Rightarrow> assignment list"
  ar_save :: "assignment \<Rightarrow> 's \<Rightarrow> 's"
  ar_revoke :: "string \<Rightarrow> 's \<Rightarrow> 's"

locale assignment_store =
  fixes aops :: "'s assignment_repository"
    and ainv :: "'s \<Rightarrow> bool"
  assumes afind_save: "ainv s \<Longrightarrow> ar_find_by_id aops (ar_save aops a s) i =
      (if i = ra_id a then Some a else ar_find_by_id aops s i)"
    and ainv_save: "ainv s \<Longrightarrow> ainv (ar_save aops a s)"
    and afind_revoke: "ainv s \<Longrightarrow> ar_find_by_id aops (ar_revoke aops i s) j =
      (if j = i then None else ar_find_by_id aops s j)"
    and ainv_revoke: "ainv s \<Longrightarrow> ainv (ar_revoke aops i s)"
    and afind_id: "ainv s \<Longrightarrow> ar_find_by_id aops s i = Some a \<Longrightarrow> ra_id a = i"
    and afind_user: "ainv s \<Longrightarrow> a \<in> set (ar_find_by_user aops s u incl now) \<longleftrightarrow>
      ar_find_by_id aops s (ra_id a) = Some a \<and> ra_user a = u \<and> (incl \<or> \<not> is_expired now a)"
    and afind_user_org: "ainv s \<Longrightarrow> a \<in> set (ar_find_by_user_and_org aops s u org incl now) \<longleftrightarrow>
      ar_find_by_id aops s (ra_id a) = Some a \<and> ra_user a = u \<and> ra_org a = org \<and>
      (incl \<or> \<not> is_expired now a)"

section \<open>The in-memory adapter\<close>

definition mem_asg_find_by_id :: "(string, assignment) js_map \<Rightarrow> string \<Rightarrow> assignment option" where
  "mem_asg_find_by_id m i = map_get m i"

definition mem_asg_find_by_user ::
  "(string, assignment) js_map \<Rightarrow> string \<Rightarrow> bool \<Rightarrow> date \<Rightarrow> assignment list" where
  "mem_asg_find_by_user m u incl now =
     filter (\<lambda>a. if ra_user a \<noteq> u then False
                 else if \<not> incl \<and> is_expired now a then False else True) (map_values m)"

definition mem_asg_find_by_user_and_org ::
  "(string, assignment) js_map \<Rightarrow> string \<Rightarrow> string option \<Rightarrow> bool \<Rightarrow> date \<Rightarrow> assignment list" where
  "mem_asg_find_by_user_and_org m u org incl now =
     filter (\<lambda>a. if ra_user a \<noteq> u \<or> ra_org a \<noteq> org then False
                 else if \<not> incl \<and> is_expired now a then False else True) (map_values m)"

definition mem_asg_save :: "assignment \<Rightarrow> (string, assignment) js_map \<Rightarrow> (string, assignment) js_map" where
  "mem_asg_save a m = map_set (ra_id a) a m"

definition mem_asg_revoke :: "string \<Rightarrow> (string, assignment) js_map \<Rightarrow> (string, assignment) js_map" where
  "mem_asg_revoke i m = map_delete i m"

definition mem_asg_ops :: "(string, assignment) js_map assignment_repository" where
  "mem_asg_ops = \<lparr>ar_find_by_id = mem_asg_find_by_id, ar_find_by_user = mem_asg_find_by_user,
     ar_find_by_user_and_org = mem_asg_find_by_user_and_org, ar_save = mem_asg_save,
     ar_revoke = mem_asg_revoke\<rparr>"

definition mem_asg_inv :: "(string, assignment) js_map \<Rightarrow> bool" where
  "mem_asg_inv m \<longleftrightarrow> map_wf m \<and> (\<forall>i a. map_get m i = Some a \<longrightarrow> ra_id a = i)"

lemma mem_asg_ops_simps [simp]:
  "ar_find_by_id mem_asg_ops = mem_asg_find_by_id"
  "ar_find_by_user mem_asg_ops = mem_asg_find_by_user"
  "ar_find_by_user_and_org mem_asg_ops = mem_asg_find_by_user_and_org"
  "ar_save mem_asg_ops = mem_asg_save"
  "ar_revoke mem_asg_ops = mem_asg_revoke"
  by (simp_all add: mem_asg_ops_def)

lemma mem_asg_inv_Nil [simp]: "mem_asg_inv []"
  by (simp add: mem_asg_inv_def)

lemma mem_asg_values: "mem_asg_inv m \<Longrightarrow> a \<in> set (map_values m) \<longleftrightarrow> map_get m (ra_id a) = Some a"
  by (auto simp: mem_asg_inv_def map_values_iff)

interpretation mem_asgs: assignment_store mem_asg_ops mem_asg_inv
  by unfold_locales
    (auto simp: mem_asg_find_by_id_def mem_asg_save_def mem_asg_revoke_def
      mem_asg_find_by_user_def mem_asg_find_by_user_and_org_def mem_asg_values,
     auto simp: mem_asg_inv_def)

section \<open>AssignRoleToUser and RevokeRoleFromUser\<close>

record assign_role_command =
  arc_user :: string
  arc_role :: string
  arc_org :: org_arg
  arc_assigned_by :: string
  arc_expires_at :: "date option"
  arc_assigned_at :: "date option"

text \<open>The active assignment of the same role and scope \<open>execute\<close> looks for first.\<close>

definition existing_assignment ::
  "'s assignment_repository \<Rightarrow> date \<Rightarrow> string \<Rightarrow> string \<Rightarrow> org_arg \<Rightarrow> 's \<Rightarrow> assignment option" where
  "existing_assignment aops now user role org s =
     (case org of
        OrgUndefined \<Rightarrow> None
      | OrgNull \<Rightarrow> find (\<lambda>a. ra_role a = role) (ar_find_by_user_and_org aops s user None False now)
      | OrgOf o' \<Rightarrow>
          find (\<lambda>a. ra_role a = role) (ar_find_by_user_and_org aops s user (Some o') False now))"

definition assign_role_execute ::
  "'r role_repository \<Rightarrow> 's assignment_repository \<Rightarrow> string \<Rightarrow> date \<Rightarrow> date \<Rightarrow> assign_role_command \<Rightarrow>
     'r \<Rightarrow> 's \<Rightarrow> assignment result \<times> 's" where
  "assign_role_execute ops aops fresh now1 now2 cmd r s =
     (case rr_find_by_id ops r (arc_role cmd) of
        None \<Rightarrow> (Inl NotFoundError, s)
      | Some _ \<Rightarrow>
          (case existing_assignment aops now1 (arc_user cmd) (arc_role cmd) (arc_org cmd) s of
             Some a \<Rightarrow> (Inr a, s)
           | None \<Rightarrow>
               (case assignment_create fresh now2
                   \<lparr>cap_id = None, cap_user = arc_user cmd, cap_role = arc_role cmd,
                    cap_org = arc_org cmd, cap_assigned_by = arc_assigned_by cmd,
                    cap_assigned_at = arc_assigned_at cmd, cap_expires_at = arc_expires_at cmd\<rparr> of
                  Inl e \<Rightarrow> (Inl e, s)
                | Inr a \<Rightarrow> (Inr a, ar_save aops a s))))"

record revoke_role_command =
  rrc_assignment :: "string option"
  rrc_user :: "string option"
  rrc_role :: "string option"
  rrc_org :: org_arg

definition revoke_role_execute ::
  "'s assignment_repository \<Rightarrow> date \<Rightarrow> revoke_role_command \<Rightarrow> 's \<Rightarrow> assignment result \<times> 's" where
  "revoke_role_execute aops now cmd s =
     (case rrc_assignment cmd of
        Some i \<Rightarrow>
          (case ar_find_by_id aops s i of
             None \<Rightarrow> (Inl NotFoundError, s)
           | Some a \<Rightarrow> (Inr a, ar_revoke aops (ra_id a) s))
      | None \<Rightarrow>
          (case (rrc_user cmd, rrc_role cmd, rrc_org cmd) of
             (Some _, Some _, OrgUndefined) \<Rightarrow>
               (Inl (field_error ''command'' ''missing_identifier''), s)
           | (Some user, Some role, org) \<Rightarrow>
               (case existing_assignment aops now user role org s of
                  None \<Rightarrow> (Inl NotFoundError, s)
                | Some a \<Rightarrow> (Inr a, ar_revoke aops (ra_id a) s))
           | _ \<Rightarrow> (Inl (field_error ''command'' ''missing_identifier''), s)))"

text \<open>An active assignment of a user, role and scope at a time.\<close>

definition active_for :: "date \<Rightarrow> string \<Rightarrow> string \<Rightarrow> string option \<Rightarrow> assignment \<Rightarrow> bool" where
  "active_for now user role org a \<longleftrightarrow>
     ra_user a = user \<and> ra_role a = role \<and> ra_org a = org \<and> \<not> is_expired now a"

definition org_arg_of :: "string option \<Rightarrow> org_arg" where
  "org_arg_of org = (case org of None \<Rightarrow> OrgNull | Some o' \<Rightarrow> OrgOf o')"

lemma existing_assignment_of:
  "existing_assignment aops now user role (org_arg_of org) s =
     find (\<lambda>a. ra_role a = role) (ar_find_by_user_and_org aops s user org False now)"
  by (cases org) (simp_all add: existing_assignment_def org_arg_of_def)

context assignment_store
begin

lemma existing_Some:
  assumes "ainv s" "existing_assignment aops now user role (org_arg_of org) s = Some a"
  shows "ar_find_by_id aops s (ra_id a) = Some a \<and> active_for now user role org a"
proof -
  have "a \<in> set (ar_find_by_user_and_org aops s user org False now) \<and> ra_role a = role"
    using assms(2) by (auto simp: existing_assignment_of find_Some_iff)
  then show ?thesis using afind_user_org [OF assms(1)] by (simp add: active_for_def)
qed

lemma existing_None:
  assumes "ainv s" "existing_assignment aops now user role (org_arg_of org) s = None"
    and "ar_find_by_id aops s i = Some a"
  shows "\<not> active_for now user role org a"
  using assms afind_user_org [OF assms(1)] afind_id [OF assms(1,3)]
  by (auto simp: existing_assignment_of find_None_iff active_for_def)

text \<open>
  At most one assignment of a user, role and scope is active at a time: what
  \<open>AssignRoleToUser\<close> keeps by looking for an active one first.
\<close>

definition one_active :: "date \<Rightarrow> 's \<Rightarrow> bool" where
  "one_active now s \<longleftrightarrow> ainv s \<and>
     (\<forall>i j a b. ar_find_by_id aops s i = Some a \<longrightarrow> ar_find_by_id aops s j = Some b \<longrightarrow>
        active_for now (ra_user a) (ra_role a) (ra_org a) a \<longrightarrow>
        active_for now (ra_user a) (ra_role a) (ra_org a) b \<longrightarrow> i = j)"

lemma one_active_later: "one_active now s \<Longrightarrow> date_ge later now \<Longrightarrow> one_active later s"
  unfolding one_active_def active_for_def using is_expired_mono by blast

lemma assign_role_cases:
  assumes "assign_role_execute ops aops fresh now1 now2 cmd r s = (res, s')"
  obtains (unchanged) "s' = s"
  | (saved) a org where "res = Inr a" "s' = ar_save aops a s" "ra_id a = fresh"
      "arc_org cmd = org_arg_of org" "assignment_wf a"
      "ra_user a = arc_user cmd" "ra_role a = arc_role cmd" "ra_org a = org"
      "existing_assignment aops now1 (arc_user cmd) (arc_role cmd) (org_arg_of org) s = None"
proof (cases "s' = s")
  case False
  define params where "params = \<lparr>cap_id = None, cap_user = arc_user cmd, cap_role = arc_role cmd,
                    cap_org = arc_org cmd, cap_assigned_by = arc_assigned_by cmd,
                    cap_assigned_at = arc_assigned_at cmd, cap_expires_at = arc_expires_at cmd\<rparr>"
  from False assms obtain a where c: "assignment_create fresh now2 params = Inr a"
    and ex: "existing_assignment aops now1 (arc_user cmd) (arc_role cmd) (arc_org cmd) s = None"
    and s': "res = Inr a" "s' = ar_save aops a s"
    unfolding assign_role_execute_def params_def [symmetric]
    by (auto split: option.splits sum.splits)
  from assignment_create_Inr [OF c] ex s' show ?thesis
    by (intro saved [of a "ra_org a"])
      (auto simp: params_def or_default_def org_arg_of_def split: option.splits)
qed (rule unchanged)

lemma assign_role_one_active:
  assumes run: "assign_role_execute ops aops fresh now1 now2 cmd r s = (res, s')"
    and one: "one_active now1 s" and fresh: "ar_find_by_id aops s fresh = None"
  shows "one_active now1 s'"
  using run
proof (cases rule: assign_role_cases)
  case (saved a org)
  have inv: "ainv s" using one by (simp add: one_active_def)
  have none: "\<not> active_for now1 (arc_user cmd) (arc_role cmd) org b"
    if "ar_find_by_id aops s i = Some b" for i b
    using existing_None [OF inv saved(9) that] .
  show ?thesis
    unfolding one_active_def saved(2) afind_save [OF inv]
    using one none ainv_save [OF inv] saved(3,6,7,8)
    by (auto simp: one_active_def active_for_def split: if_splits)
qed (use one in simp)

lemma revoke_role_one_active:
  assumes "revoke_role_execute aops now cmd s = (res, s')" and one: "one_active t s"
  shows "one_active t s'"
proof (cases "s' = s")
  case False
  then obtain i where "s' = ar_revoke aops i s"
    using assms(1)
    by (auto simp: revoke_role_execute_def split: option.splits org_arg.splits)
  moreover have inv: "ainv s" using one by (simp add: one_active_def)
  ultimately show ?thesis
    using one ainv_revoke [OF inv] unfolding one_active_def by (auto simp: afind_revoke [OF inv] split: if_splits)
qed (use one in simp)

text \<open>Revoking by user, role and scope leaves no active assignment of them.\<close>

lemma revoke_role_leaves_none:
  assumes one: "one_active now s"
    and run: "revoke_role_execute aops now \<lparr>rrc_assignment = None, rrc_user = Some user,
        rrc_role = Some role, rrc_org = org_arg_of org\<rparr> s = (res, s')"
    and later: "date_ge t now" and found: "ar_find_by_id aops s' i = Some b"
  shows "\<not> active_for t user role org b"
proof -
  have inv: "ainv s" using one by (simp add: one_active_def)
  have ex: "(case existing_assignment aops now user role (org_arg_of org) s of
        None \<Rightarrow> s' = s | Some a \<Rightarrow> s' = ar_revoke aops (ra_id a) s)"
    using run by (cases org) (auto simp: revoke_role_execute_def org_arg_of_def split: option.splits)
  have "\<not> active_for now user role org b"
  proof (cases "existing_assignment aops now user role (org_arg_of org) s")
    case None
    then show ?thesis using existing_None [OF inv None] ex found by simp
  next
    case (Some a)
    then have s': "s' = ar_revoke aops (ra_id a) s" using ex by simp
    have a: "ar_find_by_id aops s (ra_id a) = Some a" "active_for now user role org a"
      using existing_Some [OF inv Some] by auto
    have b: "ar_find_by_id aops s i = Some b" "i \<noteq> ra_id a"
      using found by (simp_all add: s' afind_revoke [OF inv] split: if_splits)
    show ?thesis
      using one a b unfolding one_active_def active_for_def by metis
  qed
  then show ?thesis using is_expired_mono [OF _ later] by (auto simp: active_for_def)
qed

end

section \<open>Properties\<close>

text \<open>
  The in-memory store as \<open>AssignRoleToUser\<close> and \<open>RevokeRoleFromUser\<close> leave it, with a clock
  that never goes back: any commands, any role store, a fresh id for each new assignment.
\<close>

inductive asg_reach :: "int \<Rightarrow> (string, assignment) js_map \<Rightarrow> bool" where
  empty: "asg_reach t []"
| tick: "asg_reach t s \<Longrightarrow> t \<le> u \<Longrightarrow> asg_reach u s"
| assign: "asg_reach t s \<Longrightarrow> map_get s fresh = None \<Longrightarrow>
    assign_role_execute mem_role_ops mem_asg_ops fresh (Some t) now2 cmd roles s = (res, s') \<Longrightarrow>
    asg_reach t s'"
| revoke: "asg_reach t s \<Longrightarrow> revoke_role_execute mem_asg_ops (Some t) cmd s = (res, s') \<Longrightarrow>
    asg_reach t s'"

lemma asg_reach_one_active: "asg_reach t s \<Longrightarrow> mem_asgs.one_active (Some t) s"
proof (induction rule: asg_reach.induct)
  case (empty t)
  then show ?case by (simp add: mem_asgs.one_active_def mem_asg_find_by_id_def)
next
  case (tick t s u)
  then show ?case using mem_asgs.one_active_later by (metis date_ge.simps(1))
next
  case (assign t s fresh now2 cmd roles res s')
  then show ?case using mem_asgs.assign_role_one_active by (simp add: mem_asg_find_by_id_def)
next
  case (revoke t s cmd res s')
  then show ?case using mem_asgs.revoke_role_one_active by blast
qed

text \<open>
  \<open>UserRoleAssignment.create\<close> accepts exactly the assignments with a nonblank user, role and
  assigner, an explicit scope (\<open>null\<close> or a nonblank organization, never \<open>undefined\<close>), a valid
  \<open>assignedAt\<close>, and, if an expiry is given, a valid one strictly after \<open>assignedAt\<close>.
\<close>

theorem assignment_create_accepts:
  "(\<exists>a. assignment_create fresh now params = Inr a) \<longleftrightarrow>
     js_trim (cap_user params) \<noteq> [] \<and> js_trim (cap_role params) \<noteq> [] \<and>
     js_trim (cap_assigned_by params) \<noteq> [] \<and>
     (cap_org params = OrgNull \<or> (\<exists>o'. cap_org params = OrgOf o' \<and> js_trim o' \<noteq> [])) \<and>
     (\<exists>t. or_default (cap_assigned_at params) now = Some t \<and>
        (cap_expires_at params = None \<or> (\<exists>x. cap_expires_at params = Some (Some x) \<and> t < x)))"
proof -
  have b: "blank s \<longleftrightarrow> js_trim s = []" for s by (auto simp: blank_def js_trim_def trim_start_def trim_end_def)
  have sc: "(\<exists>scope. scope_of org = Inr scope) \<longleftrightarrow> org = OrgNull \<or> (\<exists>o'. org = OrgOf o' \<and> js_trim o' \<noteq> [])" for org :: org_arg
    by (cases org) (simp_all add: scope_of_def)
  have ex: "(\<exists>y. expiry_of (Some t) e = Inr y) \<longleftrightarrow> e = None \<or> (\<exists>x. e = Some (Some x) \<and> t < x)" for t e
    by (cases e) (auto simp: expiry_of_def date_invalid_def not_le split: option.splits)
  have "(\<exists>a. assignment_create fresh now params = Inr a) \<longleftrightarrow>
     \<not> blank (cap_user params) \<and> \<not> blank (cap_role params) \<and> \<not> blank (cap_assigned_by params) \<and>
     (\<exists>scope. scope_of (cap_org params) = Inr scope) \<and>
     (\<exists>t. or_default (cap_assigned_at params) now = Some t \<and>
        (\<exists>y. expiry_of (Some t) (cap_expires_at params) = Inr y))"
    by (auto simp: assignment_create_def Let_def date_invalid_def split: sum.split)
  then show ?thesis by (simp only: b sc ex)
qed

text \<open>
  In every store the two use cases reach, at most one assignment of a given user, role and
  scope is active (assigning twice returns the existing assignment).
\<close>

theorem active_assignment_unique:
  assumes "asg_reach t s"
    and "map_get s i = Some a" "active_for (Some t) user role org a"
    and "map_get s j = Some b" "active_for (Some t) user role org b"
  shows "i = j \<and> a = b"
proof -
  have "i = j"
    using asg_reach_one_active [OF assms(1)] assms(2-5)
    unfolding mem_asgs.one_active_def active_for_def
    by (auto simp: mem_asg_find_by_id_def)
  then show ?thesis using assms(2,4) by simp
qed

definition demo_assign :: assign_role_command where
  "demo_assign = \<lparr>arc_user = ''u1'', arc_role = ''r1'', arc_org = OrgOf ''acme'',
     arc_assigned_by = ''root'', arc_expires_at = Some (Some 9), arc_assigned_at = None\<rparr>"

definition demo_assignment :: assignment where
  "demo_assignment = \<lparr>ra_id = ''a1'', ra_user = ''u1'', ra_role = ''r1'', ra_org = Some ''acme'',
     ra_assigned_at = Some 3, ra_assigned_by = ''root'', ra_expires_at = Some (Some 9)\<rparr>"

lemma demo_assignment_reachable: "asg_reach 3 [(''a1'', demo_assignment)]"
proof -
  let ?role = "\<lparr>role_id = ''r1'', role_name = ''x'', role_description = None,
     role_is_system = False, role_permissions = [], role_created_at = Some 0,
     role_updated_at = Some 0\<rparr>"
  have "assign_role_execute mem_role_ops mem_asg_ops ''a1'' (Some 3) (Some 3) demo_assign
      [(''r1'', ?role)] [] = (Inr demo_assignment, [(''a1'', demo_assignment)])"
    by code_simp
  then show ?thesis by (rule asg_reach.assign [OF asg_reach.empty, rotated]) simp
qed

theorem active_assignment_unique_witness:
  "active_for (Some 3) ''u1'' ''r1'' (Some ''acme'') demo_assignment \<and>
   (\<exists>!j. map_get [(''a1'', demo_assignment)] j = Some demo_assignment)"
proof -
  have a: "active_for (Some 3) ''u1'' ''r1'' (Some ''acme'') demo_assignment"
    by (simp add: active_for_def is_expired_def demo_assignment_def)
  have m: "map_get [(''a1'', demo_assignment)] ''a1'' = Some demo_assignment" by simp
  then show ?thesis
    using a active_assignment_unique [OF demo_assignment_reachable m a] by metis
qed

text \<open>
  C4: Revoking by user, role and scope takes the role away for good: after it, no stored
  assignment of that user, role and scope is active at that or any later time.
\<close>

theorem revocation_effective:
  assumes "asg_reach t s" and "t \<le> u"
    and "revoke_role_execute mem_asg_ops (Some t) \<lparr>rrc_assignment = None, rrc_user = Some user,
        rrc_role = Some role, rrc_org = org_arg_of org\<rparr> s = (res, s')"
    and "map_get s' i = Some b"
  shows "\<not> active_for (Some u) user role org b"
  using mem_asgs.revoke_role_leaves_none [OF asg_reach_one_active [OF assms(1)] assms(3)] assms(2,4)
  by (simp add: mem_asg_find_by_id_def)

theorem revocation_effective_witness:
  "revoke_role_execute mem_asg_ops (Some 3) \<lparr>rrc_assignment = None, rrc_user = Some ''u1'',
        rrc_role = Some ''r1'', rrc_org = org_arg_of (Some ''beta'')\<rparr> [(''a1'', demo_assignment)] =
      (Inl NotFoundError, [(''a1'', demo_assignment)]) \<and>
    \<not> active_for (Some 5) ''u1'' ''r1'' (Some ''beta'') demo_assignment"
proof -
  have run: "revoke_role_execute mem_asg_ops (Some 3) \<lparr>rrc_assignment = None, rrc_user = Some ''u1'',
        rrc_role = Some ''r1'', rrc_org = org_arg_of (Some ''beta'')\<rparr> [(''a1'', demo_assignment)] =
      (Inl NotFoundError, [(''a1'', demo_assignment)])"
    by code_simp
  have "\<not> active_for (Some 5) ''u1'' ''r1'' (Some ''beta'') demo_assignment"
    by (rule revocation_effective [OF demo_assignment_reachable _ run, of 5 "''a1''"]) simp_all
  with run show ?thesis by blast
qed

end
