(* ===== verification/PermissionCheck.thy ===== *)
theory PermissionCheck
  imports RoleAdmin Assignments
begin

text \<open>
  \<open>packages/authorization/application/services/permission-checker.ts\<close>: the effective
  permissions of a user in a scope and the three checks over them, and what the checks
  decide in terms of the stored assignments and roles.
\<close>

section \<open>PermissionChecker\<close>

text \<open>The loop over the distinct role ids; a dangling id contributes nothing.\<close>

definition role_permission_objects ::
  "'r role_repository \<Rightarrow> 'r \<Rightarrow> string \<Rightarrow> permission list throwing" where
  "role_permission_objects ops r i =
     (case rr_find_by_id ops r i of
        None \<Rightarrow> Inr []
      | Some role \<Rightarrow> map_throwing permission_from (role_permissions role))"

definition resolve_effective_permissions ::
  "'r role_repository \<Rightarrow> 's assignment_repository \<Rightarrow> string \<Rightarrow> string option \<Rightarrow> date \<Rightarrow> 'r \<Rightarrow> 's \<Rightarrow>
     permission list throwing" where
  "resolve_effective_permissions ops aops user org now r s =
     (let scoped = (if org \<noteq> None then ar_find_by_user_and_org aops s user org False now else []);
          global_ones = ar_find_by_user_and_org aops s user None False now;
          unique_ids = set_of_list (map ra_role (scoped @ global_ones))
      in case map_throwing (role_permission_objects ops r) unique_ids of
           Inl e \<Rightarrow> Inl e
         | Inr pss \<Rightarrow> Inr (concat pss))"

definition has_permission ::
  "'r role_repository \<Rightarrow> 's assignment_repository \<Rightarrow> string \<Rightarrow> string option \<Rightarrow> perm_arg \<Rightarrow> date \<Rightarrow>
     'r \<Rightarrow> 's \<Rightarrow> bool throwing" where
  "has_permission ops aops user org permission now r s =
     (case perm_arg_from permission of
        Inl e \<Rightarrow> Inl e
      | Inr required \<Rightarrow>
          (case resolve_effective_permissions ops aops user org now r s of
             Inl e \<Rightarrow> Inl e
           | Inr effective \<Rightarrow> Inr (list_ex (\<lambda>g. permission_matches g required) effective)))"

definition has_any_permission ::
  "'r role_repository \<Rightarrow> 's assignment_repository \<Rightarrow> string \<Rightarrow> string option \<Rightarrow> perm_arg list \<Rightarrow> date \<Rightarrow>
     'r \<Rightarrow> 's \<Rightarrow> bool throwing" where
  "has_any_permission ops aops user org permissions now r s =
     (case map_throwing perm_arg_from permissions of
        Inl e \<Rightarrow> Inl e
      | Inr required_list \<Rightarrow>
          (if required_list = [] then Inr False
           else case resolve_effective_permissions ops aops user org now r s of
             Inl e \<Rightarrow> Inl e
           | Inr effective \<Rightarrow>
               Inr (list_ex (\<lambda>required. list_ex (\<lambda>g. permission_matches g required) effective)
                      required_list)))"

definition has_all_permissions ::
  "'r role_repository \<Rightarrow> 's assignment_repository \<Rightarrow> string \<Rightarrow> string option \<Rightarrow> perm_arg list \<Rightarrow> date \<Rightarrow>
     'r \<Rightarrow> 's \<Rightarrow> bool throwing" where
  "has_all_permissions ops aops user org permissions now r s =
     (case map_throwing perm_arg_from permissions of
        Inl e \<Rightarrow> Inl e
      | Inr required_list \<Rightarrow>
          (if required_list = [] then Inr True
           else case resolve_effective_permissions ops aops user org now r s of
             Inl e \<Rightarrow> Inl e
           | Inr effective \<Rightarrow>
               Inr (list_all (\<lambda>required. list_ex (\<lambda>g. permission_matches g required) effective)
                      required_list)))"

section \<open>What the checks decide\<close>

locale permission_check = role_admin ops inv cops cinv + assignment_store aops ainv
  for ops :: "'r role_repository" and inv and cops :: "'c permission_repository" and cinv
    and aops :: "'s assignment_repository" and ainv
begin

text \<open>
  The specification: some assignment of the user in the scope (or a global one), not expired,
  to a stored role that holds a matching permission.
\<close>

definition grants :: "'r \<Rightarrow> 's \<Rightarrow> string \<Rightarrow> string option \<Rightarrow> date \<Rightarrow> permission \<Rightarrow> bool" where
  "grants r s user org now required \<longleftrightarrow>
     (\<exists>a role g. ar_find_by_id aops s (ra_id a) = Some a \<and> ra_user a = user \<and>
        (ra_org a = None \<or> ra_org a = org) \<and> \<not> is_expired now a \<and>
        rr_find_by_id ops r (ra_role a) = Some role \<and>
        permission_wf g \<and> perm_value g \<in> set (role_permissions role) \<and>
        permission_matches g required)"

lemma role_permission_objects_total:
  assumes "guarded r"
  shows "\<exists>ps. role_permission_objects ops r i = Inr ps \<and>
    (\<forall>g. g \<in> set ps \<longleftrightarrow> (\<exists>role. rr_find_by_id ops r i = Some role \<and> permission_wf g \<and>
       perm_value g \<in> set (role_permissions role)))"
proof (cases "rr_find_by_id ops r i")
  case None
  then show ?thesis by (simp add: role_permission_objects_def)
next
  case (Some role)
  then have pats: "\<forall>v \<in> set (role_permissions role). permission_pattern v"
    using assms by (auto simp: guarded_def role_guarded_def role_wf_def list_all_iff)
  then have "\<not> (\<exists>v \<in> set (role_permissions role). \<exists>e. permission_from v = Inl e)"
    by (auto simp: permission_pattern_wf)
  then obtain ps where ps: "map_throwing permission_from (role_permissions role) = Inr ps"
    using map_throwing_Inl_iff by (metis sum.exhaust)
  have "g \<in> set ps \<longleftrightarrow> permission_wf g \<and> perm_value g \<in> set (role_permissions role)" for g
  proof
    assume "g \<in> set ps"
    then obtain v where v: "v \<in> set (role_permissions role)" "permission_from v = Inr g"
      using map_throwing_set [OF ps] by auto
    then obtain q where "permission_wf q" "perm_value q = v" using pats permission_pattern_wf by blast
    with v show "permission_wf g \<and> perm_value g \<in> set (role_permissions role)" by auto
  next
    assume "permission_wf g \<and> perm_value g \<in> set (role_permissions role)"
    then show "g \<in> set ps" using map_throwing_set [OF ps] by force
  qed
  then show ?thesis using Some ps by (simp add: role_permission_objects_def)
qed

lemma resolve_effective_spec:
  assumes g: "guarded r" and a: "ainv s"
  shows "\<exists>ps. resolve_effective_permissions ops aops user org now r s = Inr ps \<and>
    (\<forall>required. list_ex (\<lambda>g. permission_matches g required) ps \<longleftrightarrow> grants r s user org now required)"
proof -
  define ids where "ids = set_of_list (map ra_role
      ((if org \<noteq> None then ar_find_by_user_and_org aops s user org False now else []) @
       ar_find_by_user_and_org aops s user None False now))"
  have ids: "i \<in> set ids \<longleftrightarrow> (\<exists>b. ar_find_by_id aops s (ra_id b) = Some b \<and> ra_user b = user \<and>
      (ra_org b = None \<or> ra_org b = org) \<and> \<not> is_expired now b \<and> ra_role b = i)" for i
    using afind_user_org [OF a] by (auto simp: ids_def image_iff)
  have "\<not> (\<exists>i \<in> set ids. \<exists>e. role_permission_objects ops r i = Inl e)"
    using role_permission_objects_total [OF g] by (metis Inl_Inr_False)
  then obtain pss where pss: "map_throwing (role_permission_objects ops r) ids = Inr pss"
    using map_throwing_Inl_iff by (metis sum.exhaust)
  have mem: "g \<in> set (concat pss) \<longleftrightarrow> (\<exists>i \<in> set ids. \<exists>role. rr_find_by_id ops r i = Some role \<and>
      permission_wf g \<and> perm_value g \<in> set (role_permissions role))" for g
  proof -
    have "g \<in> set (concat pss) \<longleftrightarrow> (\<exists>i \<in> set ids. \<exists>ps. role_permission_objects ops r i = Inr ps \<and> g \<in> set ps)"
      using map_throwing_set [OF pss] by auto
    also have "... \<longleftrightarrow> (\<exists>i \<in> set ids. \<exists>role. rr_find_by_id ops r i = Some role \<and>
      permission_wf g \<and> perm_value g \<in> set (role_permissions role))"
      using role_permission_objects_total [OF g] by (metis Inr_inject)
    finally show ?thesis .
  qed
  have "resolve_effective_permissions ops aops user org now r s = Inr (concat pss)"
    using pss by (simp add: resolve_effective_permissions_def Let_def ids_def)
  moreover have "list_ex (\<lambda>g. permission_matches g required) (concat pss) \<longleftrightarrow>
      grants r s user org now required" for required
    unfolding list_ex_iff Bex_def mem ids grants_def by blast
  ultimately show ?thesis by blast
qed

lemma has_permission_spec:
  assumes "guarded r" "ainv s" "perm_arg_from permission = Inr required"
  shows "has_permission ops aops user org permission now r s =
    Inr (grants r s user org now required)"
  using resolve_effective_spec [OF assms(1,2), of user org now] assms(3)
  by (auto simp: has_permission_def)

lemma has_any_permission_spec:
  assumes "guarded r" "ainv s" "map_throwing perm_arg_from permissions = Inr required_list"
  shows "has_any_permission ops aops user org permissions now r s =
    Inr (\<exists>required \<in> set required_list. grants r s user org now required)"
  using resolve_effective_spec [OF assms(1,2), of user org now] assms(3)
  by (cases "required_list = []") (auto simp: has_any_permission_def list_ex_iff)

lemma has_all_permissions_spec:
  assumes "guarded r" "ainv s" "map_throwing perm_arg_from permissions = Inr required_list"
  shows "has_all_permissions ops aops user org permissions now r s =
    Inr (\<forall>required \<in> set required_list. grants r s user org now required)"
  using resolve_effective_spec [OF assms(1,2), of user org now] assms(3)
  by (cases "required_list = []") (auto simp: has_all_permissions_def list_all_iff)

text \<open>Deny by default, tenant isolation and expiry, read off the specification.\<close>

lemma grants_none: "(\<forall>i a. ar_find_by_id aops s i = Some a \<longrightarrow> ra_user a \<noteq> user \<or> is_expired now a) \<Longrightarrow>
    \<not> grants r s user org now required"
  unfolding grants_def by blast

lemma grants_other_org:
  "(\<forall>i a. ar_find_by_id aops s i = Some a \<longrightarrow> ra_user a = user \<longrightarrow> ra_org a = Some other) \<Longrightarrow>
     org \<noteq> Some other \<Longrightarrow> \<not> grants r s user org now required"
  unfolding grants_def by (metis option.distinct(1))

lemma grants_later:
  "grants r s user org later required \<Longrightarrow> date_ge later now \<Longrightarrow> grants r s user org now required"
  unfolding grants_def using is_expired_mono by blast

text \<open>A granted permission that covers another grants it too.\<close>

lemma grants_covers:
  assumes "grants r s user org now p" "permission_wf p" "permission_wf q" "permission_matches p q"
  shows "grants r s user org now q"
  using assms permission_matches_trans unfolding grants_def by blast

end

interpretation mem_check: permission_check mem_role_ops mem_role_inv mem_perm_ops mem_perm_inv
    mem_asg_ops mem_asg_inv
  by unfold_locales

section \<open>Properties\<close>

lemma reachable_checkable:
  "rbac_steps rbac_init st \<Longrightarrow> asg_reach t s \<Longrightarrow> mem_admin.guarded (rb_roles st) \<and> mem_asg_inv s"
  using rbac_steps_kept [OF _ rbac_init_guarded] asg_reach_one_active
  by (simp add: mem_asgs.one_active_def)

text \<open>In a guarded store the specification speaks of the stored strings.\<close>

lemma grants_strings:
  assumes "mem_admin.guarded rs" "perm_arg_from permission = Inr required"
  shows "mem_check.grants rs s user org now required \<longleftrightarrow>
    (\<exists>a role v. map_get s (ra_id a) = Some a \<and> ra_user a = user \<and>
       (ra_org a = None \<or> ra_org a = org) \<and> \<not> is_expired now a \<and>
       map_get rs (ra_role a) = Some role \<and> v \<in> set (role_permissions role) \<and>
       matcher_matches (PermStr v) permission)"
proof -
  have "(\<exists>g. permission_wf g \<and> perm_value g \<in> set (role_permissions role) \<and>
        permission_matches g required) \<longleftrightarrow>
      (\<exists>v. v \<in> set (role_permissions role) \<and> matcher_matches (PermStr v) permission)" (is "?l = ?r")
    if "map_get rs i = Some role" for i role
  proof
    assume ?l
    then show ?r using assms(2) by (auto simp: matcher_matches_iff)
  next
    assume ?r
    then obtain v g where v: "v \<in> set (role_permissions role)" "permission_from v = Inr g"
        "permission_matches g required"
      using assms(2) by (auto simp: matcher_matches_iff permission_from_eq)
    have "role_guarded role"
      using assms(1) that unfolding mem_admin.guarded_def by (auto simp: mem_role_find_by_id_def)
    then have "permission_pattern v" using v(1) by (auto simp: role_guarded_def role_wf_def list_all_iff)
    then obtain q where "permission_wf q" "perm_value q = v" using permission_pattern_wf by blast
    with v show ?l by (metis permission_from_value Inr_inject)
  qed
  then show ?thesis
    unfolding mem_check.grants_def by (auto simp: mem_role_find_by_id_def mem_asg_find_by_id_def) blast+
qed

text \<open>
  C1: In every reachable state \<open>PermissionChecker.hasPermission\<close> decides, for every permission
  that parses, exactly whether some stored, unexpired assignment of the user (global, or in the
  organization asked about) leads to a stored role holding a permission that matches; a string
  that does not parse is an error, never a grant.
\<close>

theorem has_permission_decides:
  assumes "rbac_steps rbac_init st" and "asg_reach t s"
  shows "has_permission mem_role_ops mem_asg_ops user org permission now (rb_roles st) s =
    (case perm_arg_from permission of
       Inl e \<Rightarrow> Inl e
     | Inr _ \<Rightarrow> Inr (\<exists>a role v. map_get s (ra_id a) = Some a \<and> ra_user a = user \<and>
         (ra_org a = None \<or> ra_org a = org) \<and> \<not> is_expired now a \<and>
         map_get (rb_roles st) (ra_role a) = Some role \<and> v \<in> set (role_permissions role) \<and>
         matcher_matches (PermStr v) permission))"
proof (cases "perm_arg_from permission")
  case (Inl e)
  then show ?thesis by (simp add: has_permission_def)
next
  case (Inr required)
  then show ?thesis
    using mem_check.has_permission_spec [OF _ _ Inr] reachable_checkable [OF assms]
      grants_strings [OF _ Inr] by simp
qed

lemma demo_matches: "matcher_matches (PermStr ''*:*'') (PermStr ''users:read'')"
  by code_simp

theorem has_permission_decides_witness:
  "has_permission mem_role_ops mem_asg_ops ''u1'' (Some ''acme'') (PermStr ''users:read'') (Some 4)
     [(''r1'', demo_role)] [(''a1'', demo_assignment)] = Inr True"
proof -
  obtain p where p: "perm_arg_from (PermStr ''users:read'') = Inr p"
    using demo_matches by (auto simp: matcher_matches_iff)
  have "\<not> is_expired (Some 4) demo_assignment" by code_simp
  then have "\<exists>a role v. map_get [(''a1'', demo_assignment)] (ra_id a) = Some a \<and> ra_user a = ''u1'' \<and>
      (ra_org a = None \<or> ra_org a = Some ''acme'') \<and> \<not> is_expired (Some 4) a \<and>
      map_get (rb_roles demo_state) (ra_role a) = Some role \<and> v \<in> set (role_permissions role) \<and>
      matcher_matches (PermStr v) (PermStr ''users:read'')"
    using demo_matches
    by (intro exI [of _ demo_assignment] exI [of _ demo_role] exI [of _ "''*:*''"])
      (simp_all add: demo_assignment_def demo_role_def demo_state_def)
  then show ?thesis
    using has_permission_decides [OF demo_reachable demo_assignment_reachable, of "''u1''"
        "Some ''acme''" "PermStr ''users:read''" "Some 4"] p
    by (simp add: demo_state_def del: perm_arg_from.simps)
qed

text \<open>
  The combined checks mean what their names say: over permissions that all parse,
  \<open>hasAllPermissions\<close> is the conjunction and \<open>hasAnyPermission\<close> the disjunction of
  \<open>hasPermission\<close>, the empty list being true and false respectively.
\<close>

theorem combined_checks_agree:
  assumes "rbac_steps rbac_init st" and "asg_reach t s"
    and "map_throwing perm_arg_from ps = Inr rs"
  shows "has_all_permissions mem_role_ops mem_asg_ops user org ps now (rb_roles st) s =
      Inr (\<forall>p \<in> set ps. has_permission mem_role_ops mem_asg_ops user org p now (rb_roles st) s
             = Inr True) \<and>
    has_any_permission mem_role_ops mem_asg_ops user org ps now (rb_roles st) s =
      Inr (\<exists>p \<in> set ps. has_permission mem_role_ops mem_asg_ops user org p now (rb_roles st) s
             = Inr True)"
proof -
  note inv = reachable_checkable [OF assms(1,2)]
  have each: "\<exists>r \<in> set rs. perm_arg_from p = Inr r \<and>
      (has_permission mem_role_ops mem_asg_ops user org p now (rb_roles st) s = Inr True \<longleftrightarrow>
       mem_check.grants (rb_roles st) s user org now r)" if p: "p \<in> set ps" for p
  proof -
    have "\<exists>r \<in> set rs. perm_arg_from p = Inr r"
      using map_throwing_InrD [OF assms(3)] p
      by (auto simp: list_all2_conv_all_nth in_set_conv_nth)
    then obtain r where "perm_arg_from p = Inr r" "r \<in> set rs" by blast
    then show ?thesis
      using mem_check.has_permission_spec [OF _ _ \<open>perm_arg_from p = Inr r\<close>] inv by auto
  qed
  have source: "\<exists>p \<in> set ps. perm_arg_from p = Inr r" if "r \<in> set rs" for r
    using map_throwing_set [OF assms(3)] that by auto
  have "(\<forall>r \<in> set rs. mem_check.grants (rb_roles st) s user org now r) \<longleftrightarrow>
      (\<forall>p \<in> set ps. has_permission mem_role_ops mem_asg_ops user org p now (rb_roles st) s = Inr True)"
    using each source by (metis Inr_inject)
  moreover have "(\<exists>r \<in> set rs. mem_check.grants (rb_roles st) s user org now r) \<longleftrightarrow>
      (\<exists>p \<in> set ps. has_permission mem_role_ops mem_asg_ops user org p now (rb_roles st) s = Inr True)"
    using each source by (metis Inr_inject)
  ultimately show ?thesis
    using mem_check.has_all_permissions_spec [OF _ _ assms(3)]
      mem_check.has_any_permission_spec [OF _ _ assms(3)] inv by simp
qed

theorem combined_checks_agree_witness:
  "has_all_permissions mem_role_ops mem_asg_ops ''u2'' None [] (Some 0) [(''r1'', demo_role)] [] = Inr True \<and>
   has_any_permission mem_role_ops mem_asg_ops ''u2'' None [] (Some 0) [(''r1'', demo_role)] [] = Inr False"
  using combined_checks_agree [OF demo_reachable asg_reach.empty, of "[]" "[]"]
  by (simp add: demo_state_def)

text \<open>
  Tenant isolation and expiry: a user whose every assignment is scoped to one organization
  has no permission in any other organization and none in the global scope; and with the stores
  unchanged a permission held later was held at every earlier time (access only runs out).
\<close>

theorem tenant_isolation_and_expiry:
  assumes "rbac_steps rbac_init st" and "asg_reach t s" and "perm_arg_from permission = Inr required"
  shows "((\<forall>i a. map_get s i = Some a \<and> ra_user a = user \<longrightarrow> ra_org a = Some home) \<and> org \<noteq> Some home \<longrightarrow>
      has_permission mem_role_ops mem_asg_ops user org permission now (rb_roles st) s = Inr False) \<and>
    (date_ge later now \<and>
      has_permission mem_role_ops mem_asg_ops user org permission later (rb_roles st) s = Inr True \<longrightarrow>
      has_permission mem_role_ops mem_asg_ops user org permission now (rb_roles st) s = Inr True)"
  using mem_check.has_permission_spec [OF _ _ assms(3)] reachable_checkable [OF assms(1,2)]
    mem_check.grants_other_org [of s user home org] mem_check.grants_later
  by (auto simp: mem_asg_find_by_id_def)

theorem tenant_isolation_and_expiry_witness:
  "has_permission mem_role_ops mem_asg_ops ''u1'' (Some ''beta'') (PermStr ''users:read'') (Some 4)
     [(''r1'', demo_role)] [(''a1'', demo_assignment)] = Inr False"
proof -
  obtain p where p: "perm_arg_from (PermStr ''users:read'') = Inr p"
    using demo_matches by (auto simp: matcher_matches_iff)
  have "ra_org demo_assignment = Some ''acme''" by (simp add: demo_assignment_def)
  then show ?thesis
    using tenant_isolation_and_expiry [OF demo_reachable demo_assignment_reachable p, of "''u1''"
        "''acme''" "Some ''beta''" "Some 4"]
    by (auto simp: demo_state_def split: if_splits)
qed

text \<open>
  Assigning works: once \<open>AssignRoleToUser\<close> returns an assignment that has not expired, the
  user has, in that scope, every permission the role holds (and what it covers).
\<close>

theorem assign_then_has_permission:
  assumes "rbac_steps rbac_init st" and "asg_reach t s" and "map_get s fresh = None"
    and "assign_role_execute mem_role_ops mem_asg_ops fresh (Some t) now2 cmd (rb_roles st) s =
        (Inr a, s')"
    and "\<not> is_expired (Some t) a"
    and "map_get (rb_roles st) (arc_role cmd) = Some role" and "v \<in> set (role_permissions role)"
    and "matcher_matches (PermStr v) permission"
    and "arc_org cmd = org_arg_of scope" and "scope = None \<or> org = scope"
  shows "has_permission mem_role_ops mem_asg_ops (arc_user cmd) org permission (Some t)
      (rb_roles st) s' = Inr True"
proof -
  have reach: "asg_reach t s'" by (rule asg_reach.assign [OF assms(2-4)])
  have inv: "mem_asg_inv s" using reachable_checkable [OF assms(1,2)] by simp
  obtain required where req: "perm_arg_from permission = Inr required"
    using assms(8) by (auto simp: matcher_matches_iff)
  have "map_get s' (ra_id a) = Some a \<and> ra_user a = arc_user cmd \<and> ra_role a = arc_role cmd \<and>
      ra_org a = scope"
  proof (cases "existing_assignment mem_asg_ops (Some t) (arc_user cmd) (arc_role cmd) (arc_org cmd) s")
    case None
    then show ?thesis
      using assms(4,6,9) assignment_create_Inr
      by (cases scope)
        (auto simp: assign_role_execute_def mem_role_find_by_id_def org_arg_of_def mem_asg_save_def
          split: sum.splits option.splits dest!: assignment_create_Inr)
  next
    case (Some b)
    then have "b = a" "s' = s" using assms(4,6) by (auto simp: assign_role_execute_def mem_role_find_by_id_def)
    then show ?thesis
      using mem_asgs.existing_Some [OF inv, of "Some t" "arc_user cmd" "arc_role cmd" scope] Some assms(9)
      by (simp add: active_for_def mem_asg_find_by_id_def)
  qed
  then have "mem_check.grants (rb_roles st) s' (arc_user cmd) org (Some t) required"
    using grants_strings [OF _ req] reachable_checkable [OF assms(1) reach] assms(5-8,10) by metis
  then show ?thesis
    using mem_check.has_permission_spec [OF _ _ req] reachable_checkable [OF assms(1) reach] by simp
qed

theorem assign_then_has_permission_witness:
  "has_permission mem_role_ops mem_asg_ops ''u1'' (Some ''acme'') (PermStr ''users:read'') (Some 3)
     (rb_roles demo_state) [(''a1'', demo_assignment)] = Inr True"
proof -
  have run: "assign_role_execute mem_role_ops mem_asg_ops ''a1'' (Some 3) (Some 3) demo_assign
      (rb_roles demo_state) [] = (Inr demo_assignment, [(''a1'', demo_assignment)])"
    by code_simp
  have u: "arc_user demo_assign = ''u1''" "map_get (rb_roles demo_state) (arc_role demo_assign) = Some demo_role"
    "''*:*'' \<in> set (role_permissions demo_role)" "arc_org demo_assign = org_arg_of (Some ''acme'')"
    by (simp_all add: demo_assign_def demo_state_def demo_role_def org_arg_of_def)
  have "\<not> is_expired (Some 3) demo_assignment" by code_simp
  from assign_then_has_permission [OF demo_reachable asg_reach.empty _ run this u(2,3) demo_matches u(4)]
  show ?thesis by (simp add: u(1))
qed

end
