(* ===== verification/PermissionGuards.thy ===== *)
theory PermissionGuards
  imports PermissionCheck
begin

text \<open>
  The permission guards of the HTTP layer,
  \<open>packages/authorization/interface/guards/require-permission.ts\<close>, and the hook that resolves a
  principal's permissions once per request, \<open>interface/hooks/resolve-principal.ts\<close>. A guard lets
  the request pass, answers 403, or lets the checker's exception through. The checker is a record
  of functions, as \<open>PermissionCheckerLike\<close> and \<open>PermissionResolverLike\<close>; \<open>checker_over\<close> is the one
  of this repository, over its stores at one moment.
\<close>

section \<open>Requests\<close>

record authenticated_principal =
  ap_user :: string
  ap_org :: "string option"
  ap_permissions :: "string list option"

text \<open>\<open>'x\<close> is what a resolver of the organization can read: params, query and headers.\<close>

record 'x principal_request =
  pq_principal :: "authenticated_principal option"
  pq_rest :: 'x

type_synonym 'x org_id_resolver = "'x principal_request \<Rightarrow> string option"

record permission_checker =
  ck_has :: "string \<Rightarrow> string option \<Rightarrow> perm_arg \<Rightarrow> bool throwing"
  ck_has_any :: "string \<Rightarrow> string option \<Rightarrow> perm_arg list \<Rightarrow> bool throwing"
  ck_has_all :: "string \<Rightarrow> string option \<Rightarrow> perm_arg list \<Rightarrow> bool throwing"
  ck_resolve :: "string \<Rightarrow> string option \<Rightarrow> perm_arg list throwing"

datatype guard_outcome = GuardPasses | GuardForbids | GuardThrows domain_error

text \<open>The principal of a request that has a non-empty user id.\<close>

definition present_principal :: "'x principal_request \<Rightarrow> authenticated_principal option" where
  "present_principal q =
     (case pq_principal q of
        None \<Rightarrow> None
      | Some p \<Rightarrow> (if ap_user p = '''' then None else Some p))"

definition principal_org :: "'x org_id_resolver option \<Rightarrow> 'x principal_request \<Rightarrow> authenticated_principal \<Rightarrow> string option" where
  "principal_org resolver q p = (case resolver of Some f \<Rightarrow> f q | None \<Rightarrow> ap_org p)"

section \<open>Guards\<close>

definition check_cached_permission :: "string list \<Rightarrow> perm_arg \<Rightarrow> bool" where
  "check_cached_permission cached required = list_ex (\<lambda>g. matcher_matches (PermStr g) required) cached"

definition outcome_of :: "bool throwing \<Rightarrow> guard_outcome" where
  "outcome_of allowed =
     (case allowed of Inl e \<Rightarrow> GuardThrows e | Inr b \<Rightarrow> (if b then GuardPasses else GuardForbids))"

definition require_permission ::
  "permission_checker \<Rightarrow> perm_arg \<Rightarrow> 'x org_id_resolver option \<Rightarrow> 'x principal_request \<Rightarrow> guard_outcome" where
  "require_permission checker permission resolver q =
     (case present_principal q of
        None \<Rightarrow> GuardForbids
      | Some p \<Rightarrow>
          (case ap_permissions p of
             Some cached \<Rightarrow> (if \<not> check_cached_permission cached permission then GuardForbids else GuardPasses)
           | None \<Rightarrow> outcome_of (ck_has checker (ap_user p) (principal_org resolver q p) permission)))"

definition require_any_permission ::
  "permission_checker \<Rightarrow> perm_arg list \<Rightarrow> 'x org_id_resolver option \<Rightarrow> 'x principal_request \<Rightarrow> guard_outcome" where
  "require_any_permission checker permissions resolver q =
     (case present_principal q of
        None \<Rightarrow> GuardForbids
      | Some p \<Rightarrow>
          (case ap_permissions p of
             Some cached \<Rightarrow>
               (if \<not> list_ex (check_cached_permission cached) permissions then GuardForbids else GuardPasses)
           | None \<Rightarrow> outcome_of (ck_has_any checker (ap_user p) (principal_org resolver q p) permissions)))"

fun all_cached :: "string list \<Rightarrow> perm_arg list \<Rightarrow> guard_outcome" where
  "all_cached cached [] = GuardPasses"
| "all_cached cached (p # ps) =
     (if \<not> check_cached_permission cached p then GuardForbids else all_cached cached ps)"

definition require_all_permissions ::
  "permission_checker \<Rightarrow> perm_arg list \<Rightarrow> 'x org_id_resolver option \<Rightarrow> 'x principal_request \<Rightarrow> guard_outcome" where
  "require_all_permissions checker permissions resolver q =
     (case present_principal q of
        None \<Rightarrow> GuardForbids
      | Some p \<Rightarrow>
          (case ap_permissions p of
             Some cached \<Rightarrow> all_cached cached permissions
           | None \<Rightarrow> outcome_of (ck_has_all checker (ap_user p) (principal_org resolver q p) permissions)))"

section \<open>The hook\<close>

fun permission_item_key :: "perm_arg \<Rightarrow> string" where
  "permission_item_key (PermStr s) = s"
| "permission_item_key (PermObj p) = perm_value p"

definition resolve_principal ::
  "permission_checker \<Rightarrow> 'x org_id_resolver option \<Rightarrow> 'x principal_request \<Rightarrow> 'x principal_request throwing" where
  "resolve_principal checker resolver q =
     (case present_principal q of
        None \<Rightarrow> Inr q
      | Some p \<Rightarrow>
          (case ap_permissions p of
             Some _ \<Rightarrow> Inr q
           | None \<Rightarrow>
               (case ck_resolve checker (ap_user p) (principal_org resolver q p) of
                  Inl e \<Rightarrow> Inl e
                | Inr effective \<Rightarrow>
                    (let keys = set_of_list (map permission_item_key effective)
                     in Inr (q\<lparr>pq_principal := Some (p\<lparr>ap_permissions := Some keys\<rparr>)\<rparr>)))))"

text \<open>The checker of \<open>PermissionCheck\<close> over its stores at one moment.\<close>

definition checker_over ::
  "'r role_repository \<Rightarrow> 's assignment_repository \<Rightarrow> date \<Rightarrow> 'r \<Rightarrow> 's \<Rightarrow> permission_checker" where
  "checker_over ops aops now r s =
     \<lparr>ck_has = (\<lambda>user org p. has_permission ops aops user org p now r s),
      ck_has_any = (\<lambda>user org ps. has_any_permission ops aops user org ps now r s),
      ck_has_all = (\<lambda>user org ps. has_all_permissions ops aops user org ps now r s),
      ck_resolve = (\<lambda>user org. map_sum id (map PermObj) (resolve_effective_permissions ops aops user org now r s))\<rparr>"

section \<open>The guards after the hook\<close>

lemma resolve_effective_wf:
  assumes "resolve_effective_permissions ops aops user org now r s = Inr ps"
  shows "\<forall>g \<in> set ps. permission_wf g"
proof -
  have obj: "\<forall>g \<in> set qs. permission_wf g" if "role_permission_objects ops r i = Inr qs" for i qs
  proof (cases "rr_find_by_id ops r i")
    case None
    then show ?thesis using that by (simp add: role_permission_objects_def)
  next
    case (Some role)
    then have m: "map_throwing permission_from (role_permissions role) = Inr qs"
      using that by (simp add: role_permission_objects_def)
    show ?thesis
      using map_throwing_set [OF m] perm_arg_from_wf [of "PermStr v" for v]
      by (auto simp: perm_arg_wf_def)
  qed
  define ids where "ids = set_of_list (map ra_role
      ((if org \<noteq> None then ar_find_by_user_and_org aops s user org False now else []) @
       ar_find_by_user_and_org aops s user None False now))"
  have "(case map_throwing (role_permission_objects ops r) ids of Inl e \<Rightarrow> Inl e | Inr pss \<Rightarrow> Inr (concat pss)) = Inr ps"
    using assms unfolding resolve_effective_permissions_def Let_def ids_def by simp
  then obtain pss where pss: "map_throwing (role_permission_objects ops r) ids = Inr pss" "ps = concat pss"
    by (cases "map_throwing (role_permission_objects ops r) ids") simp_all
  show ?thesis
  proof
    fix g assume "g \<in> set ps"
    then obtain qs where "qs \<in> set pss" "g \<in> set qs" using pss(2) by auto
    moreover obtain i where "role_permission_objects ops r i = Inr qs"
      using map_throwing_set [OF pss(1)] \<open>qs \<in> set pss\<close> by auto
    ultimately show "permission_wf g" using obj by blast
  qed
qed

lemma cached_check_iff:
  assumes "\<forall>g \<in> set effective. permission_wf g" and "perm_arg_from permission = Inr required"
  shows "check_cached_permission (set_of_list (map permission_item_key (map PermObj effective))) permission
    = list_ex (\<lambda>g. permission_matches g required) effective"
proof -
  have each: "matcher_matches (PermStr (perm_value g)) permission = permission_matches g required"
    if "g \<in> set effective" for g
    using assms that permission_from_value [of g] by (auto simp: matcher_matches_iff)
  show ?thesis unfolding check_cached_permission_def list_ex_iff by (auto simp: each)
qed

lemma all_cached_iff: "all_cached cached ps = (if list_all (check_cached_permission cached) ps then GuardPasses else GuardForbids)"
  by (induction ps) auto
lemma cached_checks_iff:
  assumes "\<forall>g \<in> set effective. permission_wf g" and "map_throwing perm_arg_from permissions = Inr required"
  defines "keys \<equiv> set_of_list (map permission_item_key (map PermObj effective))"
  shows "list_ex (check_cached_permission keys) permissions =
      list_ex (\<lambda>r. list_ex (\<lambda>g. permission_matches g r) effective) required"
    and "list_all (check_cached_permission keys) permissions =
      list_all (\<lambda>r. list_ex (\<lambda>g. permission_matches g r) effective) required"
proof -
  have "list_all2 (\<lambda>p r. check_cached_permission keys p = list_ex (\<lambda>g. permission_matches g r) effective)
      permissions required"
    using map_throwing_InrD [OF assms(2)]
    by (rule list_all2_mono) (simp add: keys_def cached_check_iff [OF assms(1)] del: map_map)
  then show "list_ex (check_cached_permission keys) permissions =
      list_ex (\<lambda>r. list_ex (\<lambda>g. permission_matches g r) effective) required"
    and "list_all (check_cached_permission keys) permissions =
      list_all (\<lambda>r. list_ex (\<lambda>g. permission_matches g r) effective) required"
    by (induction rule: list_all2_induct) auto
qed

text \<open>What the hook leaves on a request it resolves.\<close>

lemma resolve_principal_Inr:
  assumes "resolve_principal (checker_over ops aops now r s) resolver q = Inr q'"
    and "present_principal q = Some p" and "ap_permissions p = None"
  obtains effective where
    "resolve_effective_permissions ops aops (ap_user p) (principal_org resolver q p) now r s = Inr effective"
    and "present_principal q' = Some (p\<lparr>ap_permissions :=
           Some (set_of_list (map permission_item_key (map PermObj effective)))\<rparr>)"
proof -
  have u: "ap_user p \<noteq> ''''" using assms(2) by (auto simp: present_principal_def split: option.splits if_splits)
  show ?thesis
  proof (cases "resolve_effective_permissions ops aops (ap_user p) (principal_org resolver q p) now r s")
    case (Inl e)
    then show ?thesis using assms by (simp add: resolve_principal_def checker_over_def)
  next
    case (Inr effective)
    then show ?thesis
      using assms u by (intro that [OF Inr]) (auto simp: resolve_principal_def checker_over_def present_principal_def Let_def)
  qed
qed

text \<open>The decision of a guard on a request without cached permissions, in terms of the effective ones.\<close>

lemma uncached_guard:
  assumes "present_principal q = Some p" "ap_permissions p = None"
    and "resolve_effective_permissions ops aops (ap_user p) (principal_org resolver q p) now r s = Inr effective"
  shows "perm_arg_from permission = Inr required \<Longrightarrow>
      require_permission (checker_over ops aops now r s) permission resolver q =
        (if list_ex (\<lambda>g. permission_matches g required) effective then GuardPasses else GuardForbids)"
    and "map_throwing perm_arg_from permissions = Inr rs \<Longrightarrow>
      require_any_permission (checker_over ops aops now r s) permissions resolver q =
        (if list_ex (\<lambda>r. list_ex (\<lambda>g. permission_matches g r) effective) rs then GuardPasses else GuardForbids)"
    and "map_throwing perm_arg_from permissions = Inr rs \<Longrightarrow>
      require_all_permissions (checker_over ops aops now r s) permissions resolver q =
        (if list_all (\<lambda>r. list_ex (\<lambda>g. permission_matches g r) effective) rs then GuardPasses else GuardForbids)"
  using assms
  by (simp_all add: require_permission_def require_any_permission_def require_all_permissions_def
      checker_over_def has_permission_def has_any_permission_def has_all_permissions_def outcome_of_def)

text \<open>
  C28: Resolving a principal's permissions once and checking the cached keys decides as asking the
  checker: for permissions that parse, each of the three guards answers a request the hook has
  resolved exactly as it answers the request without the hook, when both use the same resolver of
  the organization.
\<close>

theorem hook_keeps_guard_decisions:
  assumes "resolve_principal (checker_over ops aops now r s) resolver q = Inr q'"
    and "present_principal q = Some p" and "ap_permissions p = None"
    and "perm_arg_from permission = Inr required" and "map_throwing perm_arg_from permissions = Inr rs"
  defines "checker \<equiv> checker_over ops aops now r s"
  shows "require_permission checker permission resolver q' = require_permission checker permission resolver q \<and>
    require_any_permission checker permissions resolver q' = require_any_permission checker permissions resolver q \<and>
    require_all_permissions checker permissions resolver q' = require_all_permissions checker permissions resolver q"
proof -
  obtain effective where e:
    "resolve_effective_permissions ops aops (ap_user p) (principal_org resolver q p) now r s = Inr effective"
    "present_principal q' = Some (p\<lparr>ap_permissions :=
       Some (set_of_list (map permission_item_key (map PermObj effective)))\<rparr>)"
    by (rule resolve_principal_Inr [OF assms(1-3)])
  note wf = resolve_effective_wf [OF e(1)]
  note plain = uncached_guard [OF assms(2,3) e(1)]
  show ?thesis
    unfolding checker_def plain(1) [OF assms(4)] plain(2) [OF assms(5)] plain(3) [OF assms(5)]
    using cached_check_iff [OF wf assms(4)] cached_checks_iff [OF wf assms(5)]
    by (simp add: require_permission_def require_any_permission_def require_all_permissions_def e(2)
        all_cached_iff del: map_map)
qed

text \<open>
  With cached permissions a guard no longer looks at the organization it was configured to ask
  about, nor at the checker: whatever resolved them decides.
\<close>

lemma cached_guard_ignores_resolver:
  assumes "present_principal q = Some p" "ap_permissions p = Some cached"
  shows "require_permission checker permission resolver q = require_permission checker' permission resolver' q"
  using assms by (simp add: require_permission_def)

definition demo_principal :: authenticated_principal where
  "demo_principal = \<lparr>ap_user = ''u1'', ap_org = Some ''acme'', ap_permissions = None\<rparr>"

definition demo_principal_request :: "string principal_request" where
  "demo_principal_request = \<lparr>pq_principal = Some demo_principal, pq_rest = ''globex''\<rparr>"

definition demo_checker :: permission_checker where
  "demo_checker = checker_over mem_role_ops mem_asg_ops (Some 4) [(''r1'', demo_role)] [(''a1'', demo_assignment)]"

definition demo_resolved :: "string principal_request" where
  "demo_resolved = demo_principal_request
     \<lparr>pq_principal := Some (demo_principal\<lparr>ap_permissions := Some (role_permissions demo_role)\<rparr>)\<rparr>"

lemma demo_resolves: "resolve_principal demo_checker None demo_principal_request = Inr demo_resolved"
  by code_simp

theorem hook_keeps_guard_decisions_witness:
  "require_permission demo_checker (PermStr ''users:read'') None demo_resolved = GuardPasses \<and>
   require_permission demo_checker (PermStr ''users:read'') None demo_principal_request = GuardPasses"
proof -
  obtain p where p: "perm_arg_from (PermStr ''users:read'') = Inr p"
    using demo_matches by (auto simp: matcher_matches_iff)
  have "require_permission demo_checker (PermStr ''users:read'') None demo_resolved =
      require_permission demo_checker (PermStr ''users:read'') None demo_principal_request"
    using hook_keeps_guard_decisions [OF demo_resolves [unfolded demo_checker_def], of demo_principal, OF _ _ p, of "[]" "[]"]
    by (simp add: demo_principal_request_def demo_principal_def present_principal_def demo_checker_def
        del: perm_arg_from.simps)
  moreover have "require_permission demo_checker (PermStr ''users:read'') None demo_resolved = GuardPasses"
    by code_simp
  ultimately show ?thesis by simp
qed

text \<open>
  The same request to a guard that asks about the organization in the request: without the hook it
  is refused, after the hook it passes on the permissions of the principal's own organization.
\<close>

lemma guard_crosses_organizations:
  "require_permission demo_checker (PermStr ''users:read'') (Some (\<lambda>q. Some (pq_rest q))) demo_principal_request = GuardForbids \<and>
   require_permission demo_checker (PermStr ''users:read'') (Some (\<lambda>q. Some (pq_rest q))) demo_resolved = GuardPasses"
  by code_simp

end
