(* ===== verification/JsValues.thy ===== *)
theory JsValues
  imports Prelude Complex_Main
begin

text \<open>
  The JavaScript values the policy language compares: numbers (a finite double is the
  rational it denotes, so \<open>===\<close> and \<open><\<close> are exact; then NaN and the infinities), the
  attribute values of \<open>packages/authorization/domain/value-objects/attribute-context.ts\<close>,
  and the JSON tree \<open>JSON.stringify\<close> writes out.
\<close>

section \<open>Numbers\<close>

datatype jsnum = JFin rat | JNaN | JPosInf | JNegInf

text \<open>\<open>===\<close> on numbers, and the \<open>SameValueZero\<close> comparison of \<open>Array.prototype.includes\<close>.\<close>

definition num_eq :: "jsnum \<Rightarrow> jsnum \<Rightarrow> bool" where
  "num_eq a b \<longleftrightarrow> a = b \<and> a \<noteq> JNaN"

definition num_same_value_zero :: "jsnum \<Rightarrow> jsnum \<Rightarrow> bool" where
  "num_same_value_zero a b \<longleftrightarrow> a = b"

fun num_lt :: "jsnum \<Rightarrow> jsnum \<Rightarrow> bool" where
  "num_lt JNaN _ = False"
| "num_lt _ JNaN = False"
| "num_lt (JFin a) (JFin b) = (a < b)"
| "num_lt JNegInf JNegInf = False"
| "num_lt JNegInf _ = True"
| "num_lt _ JNegInf = False"
| "num_lt JPosInf _ = False"
| "num_lt _ JPosInf = True"

definition num_le :: "jsnum \<Rightarrow> jsnum \<Rightarrow> bool" where
  "num_le a b \<longleftrightarrow> num_lt a b \<or> num_eq a b"

fun num_finite :: "jsnum \<Rightarrow> bool" where
  "num_finite (JFin _) = True"
| "num_finite _ = False"

definition num_of_date :: "date \<Rightarrow> jsnum" where
  "num_of_date d = (case d of None \<Rightarrow> JNaN | Some ms \<Rightarrow> JFin (of_int ms))"

lemma num_eq_sym: "num_eq a b \<longleftrightarrow> num_eq b a"
  by (auto simp: num_eq_def)

lemma num_eq_trans: "num_eq a b \<Longrightarrow> num_eq b c \<Longrightarrow> num_eq a c"
  by (auto simp: num_eq_def)

lemma num_eqD: "num_eq a b \<Longrightarrow> a = b"
  by (simp add: num_eq_def)

lemma num_lt_irrefl [simp]: "\<not> num_lt a a"
  by (cases a) auto

section \<open>Attribute values\<close>

text \<open>
  \<open>AInherited\<close> is a member every plain object inherits from \<open>Object.prototype\<close>: a read of
  \<open>bag["constructor"]\<close> returns it although the bag has no such attribute.
\<close>

datatype attr_value =
    AStr string
  | ANum jsnum
  | ABool bool
  | ADate date
  | AArr "attr_value list"
  | ARec "(string \<times> attr_value) list"
  | AInherited string

type_synonym attr_bag = "(string, attr_value) js_map"

definition object_prototype_names :: "string list" where
  "object_prototype_names =
     [''constructor'', ''toString'', ''toLocaleString'', ''valueOf'', ''hasOwnProperty'',
      ''isPrototypeOf'', ''propertyIsEnumerable'', ''__proto__'', ''__defineGetter__'',
      ''__defineSetter__'', ''__lookupGetter__'', ''__lookupSetter__'']"

text \<open>A property read \<open>object[key]\<close>: own properties first, then the prototype's.\<close>

definition object_get :: "attr_bag \<Rightarrow> string \<Rightarrow> attr_value option" where
  "object_get bag key =
     (case map_get bag key of
        Some v \<Rightarrow> Some v
      | None \<Rightarrow> if key \<in> set object_prototype_names then Some (AInherited key) else None)"

lemma object_get_own: "map_get bag key = Some v \<Longrightarrow> object_get bag key = Some v"
  by (simp add: object_get_def)

lemma object_get_missing:
  "map_get bag key = None \<Longrightarrow> key \<notin> set object_prototype_names \<Longrightarrow> object_get bag key = None"
  by (simp add: object_get_def)

section \<open>JSON\<close>

text \<open>
  What \<open>JSON.stringify\<close> writes, as a tree: two values have the same text exactly when they
  have the same tree, since strings are quoted and a finite number prints as the shortest
  text that reads back as it. \<open>isot\<close> is \<open>Date.prototype.toISOString\<close> on valid dates; a
  number that is not finite, and an invalid date, print as \<open>null\<close>, as a function does
  inside an array.
\<close>

datatype json =
    JNull
  | JBool bool
  | JNum rat
  | JStr string
  | JArr "json list"
  | JObj "(string \<times> json) list"

fun json_num :: "jsnum \<Rightarrow> json" where
  "json_num (JFin q) = JNum q"
| "json_num _ = JNull"

fun json_of :: "(int \<Rightarrow> string) \<Rightarrow> attr_value \<Rightarrow> json" where
  "json_of isot (AStr s) = JStr s"
| "json_of isot (ANum n) = json_num n"
| "json_of isot (ABool b) = JBool b"
| "json_of isot (ADate d) = (case d of None \<Rightarrow> JNull | Some ms \<Rightarrow> JStr (isot ms))"
| "json_of isot (AArr vs) = JArr (map (json_of isot) vs)"
| "json_of isot (ARec fs) = JObj (map (\<lambda>(k, v). (k, json_of isot v)) fs)"
| "json_of isot (AInherited k) = JNull"

end
