(* ===== verification/Policies.thy ===== *)
theory Policies
  imports JsValues
begin

text \<open>
  The attribute-based layer of \<open>packages/authorization/domain\<close>: \<open>Condition\<close> trees and their
  structural equality (\<open>value-objects/condition.ts\<close>), \<open>AttributeContext.resolve\<close>
  (\<open>value-objects/attribute-context.ts\<close>), the evaluation engine
  (\<open>services/policy-evaluation-engine.ts\<close>), the combining algorithms
  (\<open>services/combining-algorithms.ts\<close>), the \<open>Policy\<close> aggregate (\<open>entities/policy.ts\<close>) and
  the in-memory policy repository. \<open>Date.parse\<close>, whose result on strings outside the ISO
  format is implementation-defined, is the parameter \<open>parse\<close>.
\<close>

section \<open>Conditions and rules\<close>

datatype lit_item = IStr string | INum jsnum

text \<open>
  A literal of a comparison. An array literal carries the identity of its array object,
  which is what \<open>===\<close> compares.
\<close>

datatype literal = LStr string | LNum jsnum | LBool bool | LArr nat "lit_item list"

datatype comparison_operator = OpEq | OpNeq | OpLt | OpLte | OpGt | OpGte | OpIn | OpContains

datatype condition =
    Always
  | Comparison string comparison_operator literal
  | And "condition list"
  | Or "condition list"
  | Not condition

text \<open>The builders \<open>Condition.and\<close> and \<open>Condition.or\<close> throw on an empty operand list.\<close>

definition cond_and :: "condition list \<Rightarrow> string + condition" where
  "cond_and operands =
     (if length operands = 0 then Inl ''Condition.and() requires at least one operand.''
      else Inr (And operands))"

definition cond_or :: "condition list \<Rightarrow> string + condition" where
  "cond_or operands =
     (if length operands = 0 then Inl ''Condition.or() requires at least one operand.''
      else Inr (Or operands))"

fun item_eq :: "lit_item \<Rightarrow> lit_item \<Rightarrow> bool" where
  "item_eq (IStr a) (IStr b) = (a = b)"
| "item_eq (INum a) (INum b) = num_eq a b"
| "item_eq _ _ = False"

fun literal_equal :: "literal \<Rightarrow> literal \<Rightarrow> bool" where
  "literal_equal (LArr _ xs) (LArr _ ys) = list_all2 item_eq xs ys"
| "literal_equal (LArr _ _) _ = False"
| "literal_equal _ (LArr _ _) = False"
| "literal_equal (LStr a) (LStr b) = (a = b)"
| "literal_equal (LNum a) (LNum b) = num_eq a b"
| "literal_equal (LBool a) (LBool b) = (a = b)"
| "literal_equal _ _ = False"

fun conditions_equal :: "condition \<Rightarrow> condition \<Rightarrow> bool"
  and operands_equal :: "condition list \<Rightarrow> condition list \<Rightarrow> bool" where
  "conditions_equal Always Always = True"
| "conditions_equal (Comparison a o1 v) (Comparison b o2 w) =
     (if a \<noteq> b \<or> o1 \<noteq> o2 then False else literal_equal v w)"
| "conditions_equal (Not a) (Not b) = conditions_equal a b"
| "conditions_equal (And xs) (And ys) = operands_equal xs ys"
| "conditions_equal (Or xs) (Or ys) = operands_equal xs ys"
| "conditions_equal _ _ = False"
| "operands_equal [] [] = True"
| "operands_equal (x # xs) (y # ys) = (conditions_equal x y \<and> operands_equal xs ys)"
| "operands_equal _ _ = False"

datatype effect = EPermit | EDeny

record rule =
  rule_effect :: effect
  rule_condition :: condition
  rule_description :: "string option"

definition rule_create :: "effect \<Rightarrow> condition \<Rightarrow> string option \<Rightarrow> rule" where
  "rule_create e c d = \<lparr>rule_effect = e, rule_condition = c, rule_description = d\<rparr>"

definition rule_equals :: "rule \<Rightarrow> rule \<Rightarrow> bool" where
  "rule_equals r s \<longleftrightarrow>
     rule_effect r = rule_effect s \<and> conditions_equal (rule_condition r) (rule_condition s)"

section \<open>The attribute context\<close>

datatype bag_name = Subject | Resource | Action | Environment

record attribute_context =
  ctx_subject :: attr_bag
  ctx_resource :: attr_bag
  ctx_action :: attr_bag
  ctx_environment :: attr_bag

text \<open>
  The bags a caller passes: a bag may be absent, and an attribute may be \<open>undefined\<close>, which
  \<open>cloneBag\<close> drops. The copy is a plain object, so reads see \<open>Object.prototype\<close>. A bag has
  no own key \<open>__proto__\<close>.
\<close>

type_synonym raw_bag = "(string \<times> attr_value option) list"

fun clone_bag :: "raw_bag \<Rightarrow> attr_bag" where
  "clone_bag [] = []"
| "clone_bag ((k, None) # b) = clone_bag b"
| "clone_bag ((k, Some v) # b) = (k, v) # clone_bag b"

definition context_create ::
  "raw_bag option \<Rightarrow> raw_bag option \<Rightarrow> raw_bag option \<Rightarrow> raw_bag option \<Rightarrow> attribute_context" where
  "context_create s r a e =
     \<lparr>ctx_subject = clone_bag (or_default s []), ctx_resource = clone_bag (or_default r []),
      ctx_action = clone_bag (or_default a []), ctx_environment = clone_bag (or_default e [])\<rparr>"

fun context_bag :: "attribute_context \<Rightarrow> bag_name \<Rightarrow> attr_bag" where
  "context_bag ctx Subject = ctx_subject ctx"
| "context_bag ctx Resource = ctx_resource ctx"
| "context_bag ctx Action = ctx_action ctx"
| "context_bag ctx Environment = ctx_environment ctx"

definition bag_name_of :: "string \<Rightarrow> bag_name option" where
  "bag_name_of s =
     (if s = ''subject'' then Some Subject
      else if s = ''resource'' then Some Resource
      else if s = ''action'' then Some Action
      else if s = ''environment'' then Some Environment
      else None)"

definition context_resolve :: "attribute_context \<Rightarrow> string \<Rightarrow> attr_value option" where
  "context_resolve ctx path =
     (case split_first CHR ''.'' path of
        None \<Rightarrow> None
      | Some (category, key) \<Rightarrow>
          (case bag_name_of category of
             None \<Rightarrow> None
           | Some name \<Rightarrow> object_get (context_bag ctx name) key))"

section \<open>The evaluation engine\<close>

fun value_strict_eq :: "attr_value \<Rightarrow> literal \<Rightarrow> bool" where
  "value_strict_eq (AStr a) (LStr b) = (a = b)"
| "value_strict_eq (ANum a) (LNum b) = num_eq a b"
| "value_strict_eq (ABool a) (LBool b) = (a = b)"
| "value_strict_eq _ _ = False"

fun is_array_value :: "attr_value \<Rightarrow> bool" where
  "is_array_value (AArr _) = True"
| "is_array_value _ = False"

fun is_array_literal :: "literal \<Rightarrow> bool" where
  "is_array_literal (LArr _ _) = True"
| "is_array_literal _ = False"

text \<open>\<open>isOrderable\<close> and \<open>orderableValueOf\<close>.\<close>

fun orderable_value :: "attr_value \<Rightarrow> jsnum option" where
  "orderable_value (ANum n) = Some n"
| "orderable_value (ADate d) = Some (num_of_date d)"
| "orderable_value _ = None"

fun item_same :: "attr_value \<Rightarrow> lit_item \<Rightarrow> bool" where
  "item_same (AStr a) (IStr b) = (a = b)"
| "item_same (ANum a) (INum b) = num_same_value_zero a b"
| "item_same _ _ = False"

fun member_same :: "attr_value \<Rightarrow> literal \<Rightarrow> bool" where
  "member_same (AStr a) (LStr b) = (a = b)"
| "member_same (ANum a) (LNum b) = num_same_value_zero a b"
| "member_same (ABool a) (LBool b) = (a = b)"
| "member_same _ _ = False"

definition compare_eq :: "(string \<Rightarrow> date) \<Rightarrow> attr_value \<Rightarrow> literal \<Rightarrow> bool" where
  "compare_eq parse actual v =
     (if is_array_value actual \<or> is_array_literal v then False
      else case actual of
        ADate d \<Rightarrow> (case v of LStr s \<Rightarrow> num_eq (num_of_date d) (num_of_date (parse s)) | _ \<Rightarrow> False)
      | _ \<Rightarrow> value_strict_eq actual v)"

definition compare_order :: "(jsnum \<Rightarrow> jsnum \<Rightarrow> bool) \<Rightarrow> attr_value \<Rightarrow> literal \<Rightarrow> bool" where
  "compare_order cmp actual v =
     (case (orderable_value actual, v) of (Some a, LNum b) \<Rightarrow> cmp a b | _ \<Rightarrow> False)"

definition compare_in :: "attr_value \<Rightarrow> literal \<Rightarrow> bool" where
  "compare_in actual v =
     (case v of
        LArr _ items \<Rightarrow>
          (case actual of AArr _ \<Rightarrow> False | ADate _ \<Rightarrow> False | _ \<Rightarrow> list_ex (item_same actual) items)
      | _ \<Rightarrow> False)"

definition compare_contains :: "attr_value \<Rightarrow> literal \<Rightarrow> bool" where
  "compare_contains actual v =
     (case actual of
        AArr xs \<Rightarrow> (if is_array_literal v then False else list_ex (\<lambda>x. member_same x v) xs)
      | _ \<Rightarrow> False)"

definition evaluate_comparison ::
  "(string \<Rightarrow> date) \<Rightarrow> attribute_context \<Rightarrow> string \<Rightarrow> comparison_operator \<Rightarrow> literal \<Rightarrow> bool" where
  "evaluate_comparison parse ctx attribute operator v =
     (case context_resolve ctx attribute of
        None \<Rightarrow> False
      | Some actual \<Rightarrow>
          (case operator of
             OpEq \<Rightarrow> compare_eq parse actual v
           | OpNeq \<Rightarrow> \<not> compare_eq parse actual v
           | OpLt \<Rightarrow> compare_order num_lt actual v
           | OpLte \<Rightarrow> compare_order num_le actual v
           | OpGt \<Rightarrow> compare_order (\<lambda>a b. num_lt b a) actual v
           | OpGte \<Rightarrow> compare_order (\<lambda>a b. num_le b a) actual v
           | OpIn \<Rightarrow> compare_in actual v
           | OpContains \<Rightarrow> compare_contains actual v))"

fun evaluate_condition :: "(string \<Rightarrow> date) \<Rightarrow> attribute_context \<Rightarrow> condition \<Rightarrow> bool" where
  "evaluate_condition parse ctx Always = True"
| "evaluate_condition parse ctx (Comparison a operator v) = evaluate_comparison parse ctx a operator v"
| "evaluate_condition parse ctx (And operands) = list_all (evaluate_condition parse ctx) operands"
| "evaluate_condition parse ctx (Or operands) = list_ex (evaluate_condition parse ctx) operands"
| "evaluate_condition parse ctx (Not operand) = (\<not> evaluate_condition parse ctx operand)"

definition evaluate_rule :: "(string \<Rightarrow> date) \<Rightarrow> rule \<Rightarrow> attribute_context \<Rightarrow> bool" where
  "evaluate_rule parse r ctx = evaluate_condition parse ctx (rule_condition r)"

section \<open>Combining algorithms\<close>

datatype outcome = Permit | Deny | NotApplicable

fun outcome_of_effect :: "effect \<Rightarrow> outcome" where
  "outcome_of_effect EPermit = Permit"
| "outcome_of_effect EDeny = Deny"

definition derive_rule_outcomes ::
  "(string \<Rightarrow> date) \<Rightarrow> rule list \<Rightarrow> attribute_context \<Rightarrow> outcome list" where
  "derive_rule_outcomes parse rules ctx =
     map (\<lambda>r. if evaluate_rule parse r ctx then outcome_of_effect (rule_effect r)
              else NotApplicable) rules"

definition deny_overrides :: "outcome list \<Rightarrow> outcome" where
  "deny_overrides outcomes =
     (if List.member outcomes Deny then Deny
      else if List.member outcomes Permit then Permit
      else NotApplicable)"

definition permit_overrides :: "outcome list \<Rightarrow> outcome" where
  "permit_overrides outcomes =
     (if List.member outcomes Permit then Permit
      else if List.member outcomes Deny then Deny
      else NotApplicable)"

definition first_applicable :: "outcome list \<Rightarrow> outcome" where
  "first_applicable outcomes =
     or_default (find (\<lambda>o'. o' \<noteq> NotApplicable) outcomes) NotApplicable"

section \<open>The Policy aggregate and its in-memory repository\<close>

datatype policy_status = Draft | Published | Archived

record policy =
  pol_id :: string
  pol_name :: string
  pol_resource_type :: string
  pol_actions :: "string list"
  pol_rules :: "rule list"
  pol_version :: nat
  pol_created_at :: date
  pol_status :: policy_status
  pol_dsl_source :: "string option"

definition policy_create ::
  "string \<Rightarrow> date \<Rightarrow> string \<Rightarrow> string \<Rightarrow> string list \<Rightarrow> rule list \<Rightarrow> policy_status option \<Rightarrow>
     string option \<Rightarrow> policy result" where
  "policy_create fresh now name resource_type actions rules status dsl =
     (let field_errors =
        (if length (js_trim name) = 0 then [(''name'', [''required''])] else []) @
        (if length rules = 0 then [(''rules'', [''at_least_one_rule_required''])] else []) @
        (if length actions = 0 then [(''target'', [''at_least_one_action_required''])] else [])
      in if length field_errors > 0 then Inl (ValidationError field_errors)
         else Inr \<lparr>pol_id = fresh, pol_name = name, pol_resource_type = resource_type,
           pol_actions = actions, pol_rules = rules, pol_version = 1, pol_created_at = now,
           pol_status = or_default status Published, pol_dsl_source = dsl\<rparr>)"

definition policy_publish_new_version ::
  "date \<Rightarrow> rule list \<Rightarrow> string option \<Rightarrow> policy \<Rightarrow> policy result" where
  "policy_publish_new_version now rules dsl p =
     (if length rules = 0 then Inl (ValidationError [(''rules'', [''at_least_one_rule_required''])])
      else Inr (p\<lparr>pol_rules := rules, pol_version := pol_version p + 1, pol_created_at := now,
        pol_status := Published,
        pol_dsl_source := (case dsl of None \<Rightarrow> pol_dsl_source p | Some d \<Rightarrow> Some d)\<rparr>))"

type_synonym policy_store = "(string, policy list) js_map"

definition mem_policy_save :: "policy \<Rightarrow> policy_store \<Rightarrow> policy_store" where
  "mem_policy_save p m =
     (let versions = or_default (map_get m (pol_id p)) []
      in if list_ex (\<lambda>e. pol_version e = pol_version p) versions then m
         else map_set (pol_id p) (sort_key pol_version (versions @ [p])) m)"

definition last_opt :: "'a list \<Rightarrow> 'a option" where
  "last_opt xs = (if xs = [] then None else Some (last xs))"

definition mem_policy_find_by_id :: "policy_store \<Rightarrow> string \<Rightarrow> policy option" where
  "mem_policy_find_by_id m i = (case map_get m i of None \<Rightarrow> None | Some versions \<Rightarrow> last_opt versions)"

definition mem_policy_find_applicable :: "policy_store \<Rightarrow> string \<Rightarrow> string \<Rightarrow> policy list" where
  "mem_policy_find_applicable m resource_type action =
     (let latest = List.map_filter last_opt (map_values m)
      in filter (\<lambda>p. pol_status p = Published \<and> pol_resource_type p = resource_type \<and>
           action \<in> set (pol_actions p)) latest)"

definition mem_policy_list_versions :: "policy_store \<Rightarrow> string \<Rightarrow> policy list" where
  "mem_policy_list_versions m i = or_default (map_get m i) []"


section \<open>Structural equality is sound\<close>

lemma item_eqD: "item_eq a b \<Longrightarrow> a = b"
  by (cases a; cases b) (auto dest: num_eqD)

lemma list_all2_item_eqD: "list_all2 item_eq xs ys \<Longrightarrow> xs = ys"
  by (induction rule: list_all2_induct) (auto dest: item_eqD)

lemma literal_equal_cases:
  assumes "literal_equal v w"
  obtains "v = w" | r s xs where "v = LArr r xs" "w = LArr s xs"
  using assms by (cases v; cases w) (auto dest: num_eqD list_all2_item_eqD)

lemma literal_equal_evaluate:
  assumes "literal_equal v w"
  shows "evaluate_comparison parse ctx a operator v = evaluate_comparison parse ctx a operator w"
  using assms
proof (cases rule: literal_equal_cases)
  case (2 r s xs)
  then show ?thesis
    by (auto simp: evaluate_comparison_def compare_eq_def compare_order_def compare_in_def
        compare_contains_def split: option.split comparison_operator.split attr_value.split)
qed simp

lemma conditions_equal_evaluate:
  "conditions_equal a b \<Longrightarrow> evaluate_condition parse ctx a = evaluate_condition parse ctx b"
  "operands_equal xs ys \<Longrightarrow>
     list_all (evaluate_condition parse ctx) xs = list_all (evaluate_condition parse ctx) ys \<and>
     list_ex (evaluate_condition parse ctx) xs = list_ex (evaluate_condition parse ctx) ys"
proof (induction a b and xs ys rule: conditions_equal_operands_equal.induct)
  case (2 a o1 v b o2 w)
  then show ?case using literal_equal_evaluate [of v w parse ctx a o1] by (simp split: if_splits)
qed auto

lemma item_eq_sym: "item_eq a b \<longleftrightarrow> item_eq b a"
  by (cases a; cases b) (auto simp: num_eq_sym)

lemma literal_equal_sym: "literal_equal v w \<Longrightarrow> literal_equal w v"
proof (cases v; cases w)
  fix r xs s ys
  assume "literal_equal v w" "v = LArr r xs" "w = LArr s ys"
  then show "literal_equal w v"
    by (simp add: list_all2_conv_all_nth) (metis item_eq_sym)
qed (auto simp: num_eq_sym)

lemma conditions_equal_sym:
  "conditions_equal a b \<Longrightarrow> conditions_equal b a"
  "operands_equal xs ys \<Longrightarrow> operands_equal ys xs"
  by (induction a b and xs ys rule: conditions_equal_operands_equal.induct)
    (auto split: if_splits dest: literal_equal_sym)

lemma rule_equals_evaluate:
  "rule_equals r s \<Longrightarrow> rule_effect r = rule_effect s \<and>
     (\<forall>ctx. evaluate_rule parse r ctx = evaluate_rule parse s ctx)"
  by (auto simp: rule_equals_def evaluate_rule_def conditions_equal_evaluate)

section \<open>Missing attributes\<close>

text \<open>
  \<open>context_le c d\<close>: every path resolves in \<open>c\<close> as in \<open>d\<close>, or not at all (an attribute provider
  that failed or returned less).
\<close>

definition context_le :: "attribute_context \<Rightarrow> attribute_context \<Rightarrow> bool" where
  "context_le c d \<longleftrightarrow> (\<forall>path. context_resolve c path = None \<or>
     context_resolve c path = context_resolve d path)"

fun negation_free :: "condition \<Rightarrow> bool" where
  "negation_free Always = True"
| "negation_free (Comparison _ _ _) = True"
| "negation_free (And xs) = list_all negation_free xs"
| "negation_free (Or xs) = list_all negation_free xs"
| "negation_free (Not _) = False"

lemma evaluate_comparison_le:
  assumes "context_le c d" "evaluate_comparison parse c a operator v"
  shows "evaluate_comparison parse d a operator v"
proof -
  obtain x where "context_resolve c a = Some x"
    using assms(2) by (auto simp: evaluate_comparison_def split: option.splits)
  with assms(1) have "context_resolve d a = Some x"
    unfolding context_le_def by (metis option.distinct(1))
  with \<open>context_resolve c a = Some x\<close> assms(2) show ?thesis by (simp add: evaluate_comparison_def)
qed

lemma evaluate_condition_le:
  "context_le c d \<Longrightarrow> negation_free cond \<Longrightarrow> evaluate_condition parse c cond \<Longrightarrow>
     evaluate_condition parse d cond"
proof (induction cond)
  case (Comparison a operator v)
  then show ?case using evaluate_comparison_le by simp
qed (auto simp: list_all_iff list_ex_iff)

section \<open>What the combining algorithms decide\<close>

definition rule_applies :: "(string \<Rightarrow> date) \<Rightarrow> attribute_context \<Rightarrow> effect \<Rightarrow> rule list \<Rightarrow> bool" where
  "rule_applies parse ctx e rules \<longleftrightarrow>
     list_ex (\<lambda>r. rule_effect r = e \<and> evaluate_rule parse r ctx) rules"

lemma outcome_of_effect_simps [simp]:
  "outcome_of_effect e = Permit \<longleftrightarrow> e = EPermit"
  "outcome_of_effect e = Deny \<longleftrightarrow> e = EDeny"
  "Permit = outcome_of_effect e \<longleftrightarrow> e = EPermit"
  "Deny = outcome_of_effect e \<longleftrightarrow> e = EDeny"
  "outcome_of_effect e \<noteq> NotApplicable"
  by (cases e; simp)+

lemma derived_outcome_iff:
  "Permit \<in> set (derive_rule_outcomes parse rules ctx) \<longleftrightarrow> rule_applies parse ctx EPermit rules"
  "Deny \<in> set (derive_rule_outcomes parse rules ctx) \<longleftrightarrow> rule_applies parse ctx EDeny rules"
  unfolding derive_rule_outcomes_def rule_applies_def list_ex_iff set_map image_iff
  by (auto split: if_splits)

lemma deny_overrides_cases:
  "deny_overrides os =
     (if Deny \<in> set os then Deny else if Permit \<in> set os then Permit else NotApplicable)"
  by (simp add: deny_overrides_def)

lemma permit_overrides_cases:
  "permit_overrides os =
     (if Permit \<in> set os then Permit else if Deny \<in> set os then Deny else NotApplicable)"
  by (simp add: permit_overrides_def)

lemma first_applicable_cases:
  "first_applicable os = NotApplicable \<longleftrightarrow> (\<forall>o' \<in> set os. o' = NotApplicable)"
  "o' \<noteq> NotApplicable \<Longrightarrow> first_applicable os = o' \<longleftrightarrow>
     (\<exists>us vs. os = us @ o' # vs \<and> (\<forall>u \<in> set us. u = NotApplicable))"
proof -
  show "first_applicable os = NotApplicable \<longleftrightarrow> (\<forall>o' \<in> set os. o' = NotApplicable)"
    by (induction os) (auto simp: first_applicable_def)
  assume "o' \<noteq> NotApplicable"
  then show "first_applicable os = o' \<longleftrightarrow>
     (\<exists>us vs. os = us @ o' # vs \<and> (\<forall>u \<in> set us. u = NotApplicable))"
  proof (induction os)
    case Nil
    then show ?case by (auto simp: first_applicable_def)
  next
    case (Cons x xs)
    show ?case
    proof (cases "x = NotApplicable")
      case True
      then have "first_applicable (x # xs) = first_applicable xs" by (simp add: first_applicable_def)
      also have "... = o' \<longleftrightarrow> (\<exists>us vs. x # xs = us @ o' # vs \<and> (\<forall>u \<in> set us. u = NotApplicable))"
        (is "_ \<longleftrightarrow> ?R")
      proof
        assume "first_applicable xs = o'"
        then obtain us vs where "xs = us @ o' # vs" "\<forall>u \<in> set us. u = NotApplicable"
          using Cons by blast
        then show ?R using True by (intro exI [of _ "x # us"] exI [of _ vs]) simp
      next
        assume ?R
        then obtain us vs where us: "x # xs = us @ o' # vs" "\<forall>u \<in> set us. u = NotApplicable" by blast
        with True Cons.prems obtain ws where "us = x # ws" by (cases us) auto
        with us have "xs = ws @ o' # vs" "\<forall>u \<in> set ws. u = NotApplicable" by auto
        then show "first_applicable xs = o'" using Cons by blast
      qed
      finally show ?thesis .
    next
      case False
      then have f: "first_applicable (x # xs) = x" by (simp add: first_applicable_def)
      show ?thesis
      proof
        assume "first_applicable (x # xs) = o'"
        with f show "\<exists>us vs. x # xs = us @ o' # vs \<and> (\<forall>u \<in> set us. u = NotApplicable)"
          by (intro exI [of _ "[]"] exI [of _ xs]) simp
      next
        assume "\<exists>us vs. x # xs = us @ o' # vs \<and> (\<forall>u \<in> set us. u = NotApplicable)"
        then obtain us vs where "x # xs = us @ o' # vs" "\<forall>u \<in> set us. u = NotApplicable" by blast
        with False f show "first_applicable (x # xs) = o'" by (cases us) auto
      qed
    qed
  qed
qed

text \<open>Where no conflict exists, the three algorithms agree.\<close>

lemma algorithms_agree:
  assumes "Permit \<notin> set os \<or> Deny \<notin> set os"
  shows "first_applicable os = deny_overrides os" "permit_overrides os = deny_overrides os"
proof -
  show "permit_overrides os = deny_overrides os"
    using assms by (auto simp: permit_overrides_cases deny_overrides_cases)
  show "first_applicable os = deny_overrides os"
    using assms
  proof (induction os)
    case Nil
    then show ?case by (simp add: first_applicable_def deny_overrides_def)
  next
    case (Cons x xs)
    then show ?case
      by (cases x) (auto simp: first_applicable_def deny_overrides_cases)
  qed
qed

section \<open>The append-only version history\<close>

definition policy_store_inv :: "policy_store \<Rightarrow> bool" where
  "policy_store_inv m \<longleftrightarrow> map_wf m \<and>
     (\<forall>i vs. map_get m i = Some vs \<longrightarrow> vs \<noteq> [] \<and> sorted (map pol_version vs) \<and>
        distinct (map pol_version vs) \<and> (\<forall>p \<in> set vs. pol_id p = i))"

lemma policy_store_inv_Nil: "policy_store_inv []"
  by (simp add: policy_store_inv_def)

lemma mem_policy_save_get:
  "map_get (mem_policy_save p m) i =
     (if i = pol_id p \<and> \<not> list_ex (\<lambda>e. pol_version e = pol_version p) (mem_policy_list_versions m i)
      then Some (sort_key pol_version (mem_policy_list_versions m i @ [p]))
      else map_get m i)"
  by (auto simp: mem_policy_save_def mem_policy_list_versions_def Let_def)

lemma mem_policy_save_inv [wf_intros]:
  assumes "policy_store_inv m"
  shows "policy_store_inv (mem_policy_save p m)"
proof -
  have wf: "map_wf (mem_policy_save p m)"
    using assms by (simp add: policy_store_inv_def mem_policy_save_def Let_def)
  show ?thesis
    unfolding policy_store_inv_def
  proof (intro conjI wf allI impI ballI)
    fix i vs
    assume vs: "map_get (mem_policy_save p m) i = Some vs"
    let ?old = "mem_policy_list_versions m i"
    have old: "distinct (map pol_version ?old) \<and> (\<forall>q \<in> set ?old. pol_id q = i)"
      using assms by (cases "map_get m i"; simp add: policy_store_inv_def mem_policy_list_versions_def)
    have "vs \<noteq> [] \<and> sorted (map pol_version vs) \<and> distinct (map pol_version vs) \<and>
        (\<forall>p \<in> set vs. pol_id p = i)"
    proof (cases "i = pol_id p \<and> \<not> list_ex (\<lambda>e. pol_version e = pol_version p) ?old")
      case True
      then have eq: "vs = sort_key pol_version (?old @ [p])"
        using vs by (auto simp: mem_policy_save_get)
      have "pol_version p \<notin> pol_version ` set ?old" using True by (force simp: list_ex_iff)
      then have "distinct (map pol_version (?old @ [p]))" using old by simp
      then have "distinct (map pol_version vs)"
        unfolding eq by (metis distinct_map distinct_sort set_sort)
      moreover have "set vs = insert p (set ?old)" using eq by auto
      ultimately show ?thesis using eq True old by (auto simp: set_empty [symmetric] simp del: set_empty)
    next
      case False
      then have "map_get m i = Some vs" using vs by (auto simp: mem_policy_save_get split: if_splits)
      then show ?thesis using assms by (simp add: policy_store_inv_def)
    qed
    then show "vs \<noteq> []" "sorted (map pol_version vs)" "distinct (map pol_version vs)"
      "\<And>q. q \<in> set vs \<Longrightarrow> pol_id q = i" by auto
  qed
qed

lemma mem_policy_save_versions:
  "set (mem_policy_list_versions (mem_policy_save p m) i) =
     (if i = pol_id p \<and> (\<forall>e \<in> set (mem_policy_list_versions m i). pol_version e \<noteq> pol_version p)
      then insert p (set (mem_policy_list_versions m i)) else set (mem_policy_list_versions m i))"
proof (cases "i = pol_id p \<and> (\<forall>e \<in> set (mem_policy_list_versions m i). pol_version e \<noteq> pol_version p)")
  case True
  then have "map_get (mem_policy_save p m) i =
      Some (sort_key pol_version (mem_policy_list_versions m i @ [p]))"
    by (auto simp: mem_policy_save_get list_ex_iff)
  then show ?thesis using True by (simp add: mem_policy_list_versions_def [of "mem_policy_save p m"])
next
  case False
  then have "map_get (mem_policy_save p m) i = map_get m i"
    by (auto simp: mem_policy_save_get list_ex_iff)
  then show ?thesis using False by (auto simp: mem_policy_list_versions_def)
qed

lemma mem_policy_find_by_id_latest:
  assumes "policy_store_inv m" "mem_policy_find_by_id m i = Some p"
  shows "p \<in> set (mem_policy_list_versions m i) \<and>
    (\<forall>q \<in> set (mem_policy_list_versions m i). pol_version q \<le> pol_version p)"
proof -
  have "\<exists>vs. map_get m i = Some vs \<and> vs \<noteq> [] \<and> p = last vs"
    using assms(2)
    by (cases "map_get m i") (simp_all add: mem_policy_find_by_id_def last_opt_def split: if_splits)
  then obtain vs where vs: "map_get m i = Some vs" "vs \<noteq> []" "p = last vs" by blast
  have s: "sorted (map pol_version vs)" using assms(1) vs(1) by (simp add: policy_store_inv_def)
  have "pol_version q \<le> pol_version (last vs)" if "q \<in> set vs" for q
  proof -
    obtain k where k: "k < length vs" "q = vs ! k" using \<open>q \<in> set vs\<close> by (auto simp: in_set_conv_nth)
    have "map pol_version vs ! k \<le> map pol_version vs ! (length vs - 1)"
      by (rule sorted_nth_mono [OF s]) (use k(1) in simp_all)
    then show ?thesis using k vs(2) by (simp add: last_conv_nth)
  qed
  moreover have "mem_policy_list_versions m i = vs" using vs(1) by (simp add: mem_policy_list_versions_def)
  ultimately show ?thesis using vs(2,3) by simp
qed

lemma mem_policy_find_by_id_Some_iff:
  assumes "policy_store_inv m"
  shows "mem_policy_find_by_id m i = None \<longleftrightarrow> mem_policy_list_versions m i = []"
  using assms
  by (auto simp: mem_policy_find_by_id_def mem_policy_list_versions_def last_opt_def
      policy_store_inv_def split: option.splits)

lemma mem_policy_find_applicable_iff:
  assumes "policy_store_inv m"
  shows "p \<in> set (mem_policy_find_applicable m rt act) \<longleftrightarrow>
    mem_policy_find_by_id m (pol_id p) = Some p \<and> pol_status p = Published \<and>
    pol_resource_type p = rt \<and> act \<in> set (pol_actions p)"
proof -
  have "p \<in> set (List.map_filter last_opt (map_values m)) \<longleftrightarrow> mem_policy_find_by_id m (pol_id p) = Some p"
  proof
    assume "p \<in> set (List.map_filter last_opt (map_values m))"
    then obtain vs where "vs \<in> set (map_values m)" and l: "last_opt vs = Some p"
      by (auto simp: List.map_filter_def last_opt_def split: if_splits)
    then obtain i where i: "map_get m i = Some vs"
      using assms by (auto simp: policy_store_inv_def map_values_iff)
    then have "pol_id p = i"
      using assms l by (auto simp: policy_store_inv_def last_opt_def split: if_splits)
    with i l show "mem_policy_find_by_id m (pol_id p) = Some p"
      by (simp add: mem_policy_find_by_id_def)
  next
    assume "mem_policy_find_by_id m (pol_id p) = Some p"
    then obtain vs where "map_get m (pol_id p) = Some vs" "last_opt vs = Some p"
      by (auto simp: mem_policy_find_by_id_def split: option.splits)
    then show "p \<in> set (List.map_filter last_opt (map_values m))"
      using assms by (force simp: List.map_filter_def policy_store_inv_def map_values_iff)
  qed
  then show ?thesis by (auto simp: mem_policy_find_applicable_def Let_def)
qed

section \<open>Properties\<close>

lemma policy_saves_inv: "policy_store_inv m \<Longrightarrow> policy_store_inv (fold mem_policy_save ps m)"
  by (induction ps arbitrary: m) (auto intro: wf_intros)

lemma policy_saves_versions:
  "set (mem_policy_list_versions m i) \<subseteq> set (mem_policy_list_versions (fold mem_policy_save ps m) i)"
proof (induction ps arbitrary: m)
  case (Cons p ps)
  have "set (mem_policy_list_versions m i) \<subseteq> set (mem_policy_list_versions (mem_policy_save p m) i)"
    unfolding mem_policy_save_versions by auto
  with Cons [of "mem_policy_save p m"] show ?case by simp
qed simp

lemma first_applicable_effect:
  "first_applicable (derive_rule_outcomes parse rules ctx) = outcome_of_effect e \<longleftrightarrow>
     (\<exists>us r vs. rules = us @ r # vs \<and> rule_effect r = e \<and> evaluate_rule parse r ctx \<and>
        list_all (\<lambda>u. \<not> evaluate_rule parse u ctx) us)"
proof (induction rules)
  case Nil
  show ?case by (cases e) (simp_all add: derive_rule_outcomes_def first_applicable_def or_default_def)
next
  case (Cons q rules)
  show ?case
  proof (cases "evaluate_rule parse q ctx")
    case True
    have "(\<exists>us r vs. q # rules = us @ r # vs \<and> rule_effect r = e \<and> evaluate_rule parse r ctx \<and>
        list_all (\<lambda>u. \<not> evaluate_rule parse u ctx) us) \<longleftrightarrow> rule_effect q = e" (is "?l \<longleftrightarrow> _")
    proof
      assume ?l then show "rule_effect q = e" using True by (auto simp: Cons_eq_append_conv)
    next
      assume "rule_effect q = e"
      then show ?l using True by (intro exI [of _ "[]"] exI [of _ q] exI [of _ rules]) simp
    qed
    moreover have "outcome_of_effect (rule_effect q) = outcome_of_effect e \<longleftrightarrow> rule_effect q = e"
      by (cases "rule_effect q"; cases e) simp_all
    ultimately show ?thesis
      using True by (simp add: derive_rule_outcomes_def first_applicable_def or_default_def)
  next
    case False
    have "(\<exists>us r vs. q # rules = us @ r # vs \<and> rule_effect r = e \<and> evaluate_rule parse r ctx \<and>
        list_all (\<lambda>u. \<not> evaluate_rule parse u ctx) us) \<longleftrightarrow>
      (\<exists>us r vs. rules = us @ r # vs \<and> rule_effect r = e \<and> evaluate_rule parse r ctx \<and>
        list_all (\<lambda>u. \<not> evaluate_rule parse u ctx) us)" (is "?l \<longleftrightarrow> ?r")
    proof
      assume ?l
      then obtain us r vs where l: "q # rules = us @ r # vs" "rule_effect r = e"
        "evaluate_rule parse r ctx" "list_all (\<lambda>u. \<not> evaluate_rule parse u ctx) us" by blast
      then obtain ws where "us = q # ws" using False by (cases us) auto
      with l have "rules = ws @ r # vs" "list_all (\<lambda>u. \<not> evaluate_rule parse u ctx) ws" by simp_all
      with l show ?r by blast
    next
      assume ?r
      then obtain us r vs where "rules = us @ r # vs" "rule_effect r = e" "evaluate_rule parse r ctx"
        "list_all (\<lambda>u. \<not> evaluate_rule parse u ctx) us" by blast
      then show ?l using False by (intro exI [of _ "q # us"] exI [of _ r] exI [of _ vs]) simp
    qed
    with Cons False show ?thesis by (simp add: derive_rule_outcomes_def first_applicable_def)
  qed
qed

text \<open>
  C6: What the combining algorithms decide over a rule list: deny-overrides permits exactly when
  a permit rule and no deny rule applies and denies exactly when a deny rule applies,
  permit-overrides the other way round, and first-applicable returns the effect of the first
  rule that applies.
\<close>

theorem combining_algorithms_decide:
  "(deny_overrides (derive_rule_outcomes parse rules ctx) = Permit \<longleftrightarrow>
      (\<exists>r \<in> set rules. rule_effect r = EPermit \<and> evaluate_rule parse r ctx) \<and>
      \<not> (\<exists>r \<in> set rules. rule_effect r = EDeny \<and> evaluate_rule parse r ctx)) \<and>
   (deny_overrides (derive_rule_outcomes parse rules ctx) = Deny \<longleftrightarrow>
      (\<exists>r \<in> set rules. rule_effect r = EDeny \<and> evaluate_rule parse r ctx)) \<and>
   (permit_overrides (derive_rule_outcomes parse rules ctx) = Permit \<longleftrightarrow>
      (\<exists>r \<in> set rules. rule_effect r = EPermit \<and> evaluate_rule parse r ctx)) \<and>
   (permit_overrides (derive_rule_outcomes parse rules ctx) = Deny \<longleftrightarrow>
      (\<exists>r \<in> set rules. rule_effect r = EDeny \<and> evaluate_rule parse r ctx) \<and>
      \<not> (\<exists>r \<in> set rules. rule_effect r = EPermit \<and> evaluate_rule parse r ctx)) \<and>
   (first_applicable (derive_rule_outcomes parse rules ctx) = outcome_of_effect e \<longleftrightarrow>
      (\<exists>us r vs. rules = us @ r # vs \<and> rule_effect r = e \<and> evaluate_rule parse r ctx \<and>
        list_all (\<lambda>u. \<not> evaluate_rule parse u ctx) us))"
  unfolding first_applicable_effect
  by (simp add: deny_overrides_cases permit_overrides_cases derived_outcome_iff rule_applies_def
      list_ex_iff) blast

text \<open>
  A missing attribute fails closed for negation-free permit rules: if every attribute of a
  smaller context resolves as in a larger one or not at all, then a negation-free rule that
  matches with less information matches with more, so permit-overrides over rules whose permit
  rules are negation-free never permits on missing data what it would not permit on full data.
\<close>

theorem missing_attributes_fail_closed:
  assumes "\<forall>path. context_resolve c path = None \<or> context_resolve c path = context_resolve d path"
    and "\<forall>r \<in> set rules. rule_effect r = EPermit \<longrightarrow> negation_free (rule_condition r)"
    and "permit_overrides (derive_rule_outcomes parse rules c) = Permit"
  shows "permit_overrides (derive_rule_outcomes parse rules d) = Permit"
proof -
  have "context_le c d" using assms(1) by (simp add: context_le_def)
  from evaluate_condition_le [OF this] assms(2,3) show ?thesis
    by (auto simp: permit_overrides_cases derived_outcome_iff rule_applies_def list_ex_iff
        evaluate_rule_def split: if_splits)
qed

definition demo_context :: attribute_context where
  "demo_context = context_create (Some [(''role'', Some (AStr ''admin''))]) None None None"

theorem missing_attributes_fail_closed_witness:
  "permit_overrides (derive_rule_outcomes (\<lambda>_. None)
     [rule_create EPermit (And [Always, Comparison ''subject.role'' OpEq (LStr ''admin'')]) None]
     demo_context) = Permit"
proof -
  let ?r = "rule_create EPermit (And [Always, Comparison ''subject.role'' OpEq (LStr ''admin'')]) None"
  have v: "context_resolve demo_context ''subject.role'' = Some (AStr ''admin'')" by code_simp
  then have "evaluate_rule (\<lambda>_. None) ?r demo_context"
    by (simp add: evaluate_rule_def rule_create_def evaluate_comparison_def compare_eq_def)
  then have "permit_overrides (derive_rule_outcomes (\<lambda>_. None) [?r] demo_context) = Permit"
    by (simp add: permit_overrides_def derive_rule_outcomes_def rule_create_def)
  then show ?thesis
    by (rule missing_attributes_fail_closed [rotated 2]) (simp_all add: rule_create_def)
qed

text \<open>
  Where failing closed stops: with no attributes at all, the negation of any comparison on
  an ordinary attribute is true, and a \<open>neq\<close> comparison on \<open>subject.constructor\<close> is true
  because the read finds the member every object inherits.
\<close>

theorem absent_attributes_can_match:
  "evaluate_condition parse (context_create None None None None)
      (Not (Comparison ''subject.suspended'' operator v)) \<and>
   evaluate_condition parse (context_create None None None None)
      (Comparison ''subject.constructor'' OpNeq v) \<and>
   \<not> evaluate_condition parse (context_create None None None None)
      (Comparison ''subject.suspended'' OpNeq v)"
proof -
  have "context_resolve (context_create None None None None) ''subject.suspended'' = None"
    and "context_resolve (context_create None None None None) ''subject.constructor''
      = Some (AInherited ''constructor'')"
    by code_simp+
  then show ?thesis by (simp add: evaluate_comparison_def compare_eq_def)
qed

text \<open>
  Structurally equal conditions are interchangeable: \<open>conditionsEqual\<close> is symmetric and two
  conditions it identifies evaluate alike in every context.
\<close>

theorem conditions_equal_sound:
  assumes "conditions_equal a b"
  shows "conditions_equal b a \<and>
    (\<forall>parse ctx. evaluate_condition parse ctx a = evaluate_condition parse ctx b)"
  using conditions_equal_sym(1) conditions_equal_evaluate(1) assms by blast

theorem conditions_equal_sound_witness:
  "conditions_equal (Not (Comparison ''subject.level'' OpIn (LArr 2 [IStr ''a'']))) 
     (Not (Comparison ''subject.level'' OpIn (LArr 1 [IStr ''a''])))"
  using conditions_equal_sound [of "Not (Comparison ''subject.level'' OpIn (LArr 1 [IStr ''a'']))"
      "Not (Comparison ''subject.level'' OpIn (LArr 2 [IStr ''a'']))"] by simp

text \<open>
  The version history of a policy is append-only: after any sequence of saves the versions
  of a policy are listed in strictly increasing version order under its own id, further saves
  keep every version listed before, \<open>findById\<close> returns the highest version, and
  \<open>findApplicableTo\<close> returns exactly the highest versions that are published and target the
  resource type and action.
\<close>

theorem policy_history_append_only:
  "sorted_wrt (\<lambda>p q. pol_version p < pol_version q)
      (mem_policy_list_versions (fold mem_policy_save ps []) i) \<and>
   set (mem_policy_list_versions (fold mem_policy_save ps []) i) \<subseteq>
      set (mem_policy_list_versions (fold mem_policy_save qs (fold mem_policy_save ps [])) i) \<and>
   mem_policy_find_by_id (fold mem_policy_save ps []) i =
      last_opt (mem_policy_list_versions (fold mem_policy_save ps []) i) \<and>
   (p \<in> set (mem_policy_find_applicable (fold mem_policy_save ps []) rt act) \<longleftrightarrow>
      last_opt (mem_policy_list_versions (fold mem_policy_save ps []) (pol_id p)) = Some p \<and>
      pol_status p = Published \<and> pol_resource_type p = rt \<and> act \<in> set (pol_actions p))"
proof -
  have inv: "policy_store_inv (fold mem_policy_save ps [])"
    by (rule policy_saves_inv [OF policy_store_inv_Nil])
  have "sorted (map pol_version (mem_policy_list_versions (fold mem_policy_save ps []) i)) \<and>
      distinct (map pol_version (mem_policy_list_versions (fold mem_policy_save ps []) i))"
    using inv by (cases "map_get (fold mem_policy_save ps []) i")
      (simp_all add: mem_policy_list_versions_def policy_store_inv_def or_default_def)
  then have s: "sorted_wrt (\<lambda>p q. pol_version p < pol_version q)
      (mem_policy_list_versions (fold mem_policy_save ps []) i)"
    by (metis sorted_wrt_map strict_sorted_iff)
  have l: "mem_policy_find_by_id (fold mem_policy_save ps []) j =
      last_opt (mem_policy_list_versions (fold mem_policy_save ps []) j)" for j
    by (simp add: mem_policy_find_by_id_def mem_policy_list_versions_def last_opt_def or_default_def
        split: option.split)
  show ?thesis
    using s l policy_saves_versions mem_policy_find_applicable_iff [OF inv] by simp
qed

end
