(* ===== verification/PolicyLint.thy ===== *)
theory PolicyLint
  imports Policies
begin

text \<open>
  \<open>packages/authorization/application/services/policy-linter.ts\<close> over the plain rules of
  \<open>domain/entities/rule.ts\<close>: extraction of equality constraints, the \<open>implies\<close> and
  \<open>overlaps\<close> tests, the pairwise loop, and what a reported finding means for the
  evaluation of the policy set under \<open>first-applicable\<close>.
\<close>

section \<open>The linter\<close>

record lint_rule =
  lr_id :: string
  lr_effect :: effect
  lr_condition :: condition

record policy_set =
  ps_id :: string
  ps_rules :: "lint_rule list"

datatype constraint_op = ConEquals | ConNotEquals

record lint_constraint =
  lc_attribute :: string
  lc_operator :: constraint_op
  lc_value :: literal

text \<open>\<open>===\<close> on literals: an array is identical to itself only.\<close>

fun literal_identical :: "literal \<Rightarrow> literal \<Rightarrow> bool" where
  "literal_identical (LStr a) (LStr b) = (a = b)"
| "literal_identical (LNum a) (LNum b) = num_eq a b"
| "literal_identical (LBool a) (LBool b) = (a = b)"
| "literal_identical (LArr r _) (LArr s _) = (r = s)"
| "literal_identical _ _ = False"

definition extract_leaf_constraint ::
  "string \<Rightarrow> comparison_operator \<Rightarrow> literal \<Rightarrow> lint_constraint list option" where
  "extract_leaf_constraint a operator v =
     (if operator \<noteq> OpEq \<and> operator \<noteq> OpNeq then None
      else Some [\<lparr>lc_attribute = a,
        lc_operator = (if operator = OpEq then ConEquals else ConNotEquals), lc_value = v\<rparr>])"

fun extract_constraints :: "condition \<Rightarrow> lint_constraint list option"
  and extract_operands :: "condition list \<Rightarrow> lint_constraint list option" where
  "extract_constraints (Comparison a operator v) = extract_leaf_constraint a operator v"
| "extract_constraints (And operands) = extract_operands operands"
| "extract_constraints _ = None"
| "extract_operands [] = Some []"
| "extract_operands (c # cs) =
     (case extract_constraints c of
        None \<Rightarrow> None
      | Some xs \<Rightarrow> (case extract_operands cs of None \<Rightarrow> None | Some ys \<Rightarrow> Some (xs @ ys)))"

definition constraints_imply :: "lint_constraint list \<Rightarrow> lint_constraint list \<Rightarrow> bool" where
  "constraints_imply broader narrower =
     list_all (\<lambda>req. list_ex (\<lambda>other. lc_attribute other = lc_attribute req \<and>
       lc_operator other = lc_operator req \<and>
       literal_identical (lc_value other) (lc_value req)) narrower) broader"

definition constraints_compatible :: "lint_constraint \<Rightarrow> lint_constraint \<Rightarrow> bool" where
  "constraints_compatible l r =
     (if lc_attribute l \<noteq> lc_attribute r then True
      else if lc_operator l = ConEquals \<and> lc_operator r = ConEquals
      then literal_identical (lc_value l) (lc_value r)
      else if lc_operator l = ConNotEquals \<and> lc_operator r = ConNotEquals then True
      else let eq = (if lc_operator l = ConEquals then l else r);
               ne = (if lc_operator l = ConEquals then r else l)
           in \<not> literal_identical (lc_value eq) (lc_value ne))"

definition constraints_overlap :: "lint_constraint list \<Rightarrow> lint_constraint list \<Rightarrow> bool" where
  "constraints_overlap a b = list_all (\<lambda>l. list_all (constraints_compatible l) b) a"

datatype finding = Conflict string string | Shadow string string

definition analyze_rule :: "lint_rule \<Rightarrow> lint_rule \<times> lint_constraint list option" where
  "analyze_rule r = (r, extract_constraints (lr_condition r))"

fun lint_pair ::
  "lint_rule \<times> lint_constraint list option \<Rightarrow> lint_rule \<times> lint_constraint list option \<Rightarrow>
     finding list \<times> nat \<Rightarrow> finding list \<times> nat" where
  "lint_pair (e, Some ec) (l, Some lc) (fs, n) =
     (let fs1 = (if lr_effect e \<noteq> lr_effect l \<and> constraints_overlap ec lc
                 then fs @ [Conflict (lr_id e) (lr_id l)] else fs);
          fs2 = (if constraints_imply ec lc then fs1 @ [Shadow (lr_id e) (lr_id l)] else fs1)
      in (fs2, n))"
| "lint_pair _ _ (fs, n) = (fs, n + 1)"

fun lint_loop ::
  "(lint_rule \<times> lint_constraint list option) list \<Rightarrow> finding list \<times> nat \<Rightarrow> finding list \<times> nat" where
  "lint_loop [] acc = acc"
| "lint_loop (earlier # later) acc = lint_loop later (fold (lint_pair earlier) later acc)"

definition lint_policy_set :: "policy_set \<Rightarrow> finding list \<times> nat" where
  "lint_policy_set ps = lint_loop (map analyze_rule (ps_rules ps)) ([], 0)"

section \<open>Constraints mean the condition they were extracted from\<close>

definition constraint_holds ::
  "(string \<Rightarrow> date) \<Rightarrow> attribute_context \<Rightarrow> lint_constraint \<Rightarrow> bool" where
  "constraint_holds parse ctx c =
     evaluate_comparison parse ctx (lc_attribute c)
       (case lc_operator c of ConEquals \<Rightarrow> OpEq | ConNotEquals \<Rightarrow> OpNeq) (lc_value c)"

lemma extract_leaf_holds:
  "extract_leaf_constraint a operator v = Some cs \<Longrightarrow>
     list_all (constraint_holds parse ctx) cs = evaluate_comparison parse ctx a operator v"
  by (cases operator) (auto simp: extract_leaf_constraint_def constraint_holds_def)

lemma extract_constraints_holds:
  "extract_constraints c = Some cs \<Longrightarrow>
     list_all (constraint_holds parse ctx) cs = evaluate_condition parse ctx c"
  "extract_operands ops = Some ds \<Longrightarrow>
     list_all (constraint_holds parse ctx) ds = list_all (evaluate_condition parse ctx) ops"
proof (induction c and ops arbitrary: cs and ds rule: extract_constraints_extract_operands.induct)
  case (1 a operator v)
  then show ?case by (simp add: extract_leaf_holds)
qed (auto split: option.splits)

lemma literal_identical_evaluate:
  assumes "literal_identical v w" "operator = OpEq \<or> operator = OpNeq"
  shows "evaluate_comparison parse ctx a operator v = evaluate_comparison parse ctx a operator w"
proof (cases "is_array_literal v")
  case True
  then have "is_array_literal w" using assms(1) by (cases v; cases w) auto
  with True assms(2) show ?thesis
    by (auto simp: evaluate_comparison_def compare_eq_def split: option.split)
next
  case False
  then have "v = w" using assms(1) by (cases v; cases w) (auto dest: num_eqD)
  then show ?thesis by simp
qed

lemma constraints_imply_sound:
  assumes "constraints_imply broader narrower"
    and "list_all (constraint_holds parse ctx) narrower"
  shows "list_all (constraint_holds parse ctx) broader"
proof -
  have "constraint_holds parse ctx req" if req: "req \<in> set broader" for req
  proof -
    from req assms(1) obtain other where o: "other \<in> set narrower"
      "lc_attribute other = lc_attribute req" "lc_operator other = lc_operator req"
      "literal_identical (lc_value other) (lc_value req)"
      by (auto simp: constraints_imply_def list_all_iff list_ex_iff)
    then have "constraint_holds parse ctx other" using assms(2) by (simp add: list_all_iff)
    then show ?thesis
      using literal_identical_evaluate [OF o(4)] o(2,3)
      by (cases "lc_operator req") (auto simp: constraint_holds_def)
  qed
  then show ?thesis by (simp add: list_all_iff)
qed

text \<open>
  Where no attribute is a Date, two constraints that are not compatible never hold together.
\<close>

definition no_dates :: "attribute_context \<Rightarrow> bool" where
  "no_dates ctx \<longleftrightarrow> (\<forall>path d. context_resolve ctx path \<noteq> Some (ADate d))"

lemma value_strict_eq_identical:
  "value_strict_eq x v \<Longrightarrow> value_strict_eq x w \<Longrightarrow> literal_identical v w"
  by (cases x; cases v; cases w) (auto simp: num_eq_def)

lemma value_strict_eq_of_identical:
  "value_strict_eq x v \<Longrightarrow> literal_identical v w \<Longrightarrow> value_strict_eq x w"
  by (cases x; cases v; cases w) (auto simp: num_eq_def)

lemma literal_identical_sym: "literal_identical v w \<longleftrightarrow> literal_identical w v"
  by (cases v; cases w) (auto simp: num_eq_sym)

lemma compare_eq_strict:
  assumes "no_dates ctx" "context_resolve ctx a = Some x"
  shows "compare_eq parse x v \<longleftrightarrow> value_strict_eq x v"
  using assms by (cases x; cases v) (auto simp: compare_eq_def no_dates_def)

lemma constraints_incompatible:
  assumes nd: "no_dates ctx" and inc: "\<not> constraints_compatible l r"
    and l: "constraint_holds parse ctx l" and r: "constraint_holds parse ctx r"
  shows False
proof -
  have attr: "lc_attribute l = lc_attribute r"
    using inc by (auto simp: constraints_compatible_def split: if_splits)
  obtain x where x: "context_resolve ctx (lc_attribute r) = Some x"
    using r by (auto simp: constraint_holds_def evaluate_comparison_def split: option.splits)
  note eq = compare_eq_strict [OF nd x, of parse]
  have hl: "value_strict_eq x (lc_value l) \<longleftrightarrow> lc_operator l = ConEquals"
    using l x eq attr by (cases "lc_operator l") (auto simp: constraint_holds_def evaluate_comparison_def)
  have hr: "value_strict_eq x (lc_value r) \<longleftrightarrow> lc_operator r = ConEquals"
    using r x eq by (cases "lc_operator r") (auto simp: constraint_holds_def evaluate_comparison_def)
  let ?A = "value_strict_eq x (lc_value l)" and ?B = "value_strict_eq x (lc_value r)"
  let ?I = "literal_identical (lc_value l) (lc_value r)"
  have i: "?A \<and> ?B \<longrightarrow> ?I" using value_strict_eq_identical by blast
  have j: "?A \<and> ?I \<longrightarrow> ?B" using value_strict_eq_of_identical by blast
  have "?B \<and> literal_identical (lc_value r) (lc_value l) \<longrightarrow> ?A"
    using value_strict_eq_of_identical by blast
  then have k: "?B \<and> ?I \<longrightarrow> ?A" using literal_identical_sym by simp
  have s: "literal_identical (lc_value r) (lc_value l) = ?I" by (rule literal_identical_sym)
  have "lc_operator l = ConEquals \<and> lc_operator r = ConEquals \<and> \<not> ?I \<or>
      lc_operator l = ConEquals \<and> lc_operator r \<noteq> ConEquals \<and> ?I \<or>
      lc_operator l \<noteq> ConEquals \<and> lc_operator r = ConEquals \<and> ?I"
    using inc attr by (cases "lc_operator l"; cases "lc_operator r") (simp_all add: constraints_compatible_def s)
  then show False using hl hr i j k by blast
qed

lemma constraints_no_overlap_disjoint:
  assumes "no_dates ctx" "\<not> constraints_overlap a b"
  shows "\<not> (list_all (constraint_holds parse ctx) a \<and> list_all (constraint_holds parse ctx) b)"
  using constraints_incompatible [OF assms(1)] assms(2)
  unfolding constraints_overlap_def list_all_iff by blast

section \<open>The loop reports exactly the pairs\<close>

definition pair_conflict :: "lint_rule \<Rightarrow> lint_rule \<Rightarrow> bool" where
  "pair_conflict e l \<longleftrightarrow> (\<exists>ec lc. extract_constraints (lr_condition e) = Some ec \<and>
     extract_constraints (lr_condition l) = Some lc \<and> lr_effect e \<noteq> lr_effect l \<and>
     constraints_overlap ec lc)"

definition pair_shadow :: "lint_rule \<Rightarrow> lint_rule \<Rightarrow> bool" where
  "pair_shadow e l \<longleftrightarrow> (\<exists>ec lc. extract_constraints (lr_condition e) = Some ec \<and>
     extract_constraints (lr_condition l) = Some lc \<and> constraints_imply ec lc)"

definition pair_finding :: "finding \<Rightarrow> lint_rule \<Rightarrow> lint_rule \<Rightarrow> bool" where
  "pair_finding f e l \<longleftrightarrow>
     f = Conflict (lr_id e) (lr_id l) \<and> pair_conflict e l \<or>
     f = Shadow (lr_id e) (lr_id l) \<and> pair_shadow e l"

text \<open>\<open>earlier_later rs e l\<close>: \<open>e\<close> stands before \<open>l\<close> in \<open>rs\<close>.\<close>

definition earlier_later :: "'a list \<Rightarrow> 'a \<Rightarrow> 'a \<Rightarrow> bool" where
  "earlier_later rs e l \<longleftrightarrow> (\<exists>xs ys zs. rs = xs @ e # ys @ l # zs)"

lemma earlier_later_Cons:
  "earlier_later (r # rs) e l \<longleftrightarrow> e = r \<and> l \<in> set rs \<or> earlier_later rs e l"
proof
  assume "earlier_later (r # rs) e l"
  then obtain xs ys zs where eq: "r # rs = xs @ e # ys @ l # zs" by (auto simp: earlier_later_def)
  then show "e = r \<and> l \<in> set rs \<or> earlier_later rs e l"
    by (cases xs) (auto simp: earlier_later_def)
next
  assume "e = r \<and> l \<in> set rs \<or> earlier_later rs e l"
  then show "earlier_later (r # rs) e l"
  proof
    assume "e = r \<and> l \<in> set rs"
    then obtain ys zs where "r # rs = [] @ e # ys @ l # zs" by (auto simp: in_set_conv_decomp)
    then show ?thesis unfolding earlier_later_def by blast
  next
    assume "earlier_later rs e l"
    then obtain xs ys zs where "r # rs = (r # xs) @ e # ys @ l # zs"
      by (auto simp: earlier_later_def)
    then show ?thesis unfolding earlier_later_def by blast
  qed
qed

lemma lint_pair_findings:
  "f \<in> set (fst (lint_pair (analyze_rule e) (analyze_rule l) acc)) \<longleftrightarrow>
     f \<in> set (fst acc) \<or> pair_finding f e l"
proof -
  obtain fs n where acc: "acc = (fs, n)" by (cases acc)
  show ?thesis
    by (cases "extract_constraints (lr_condition e)"; cases "extract_constraints (lr_condition l)")
      (auto simp: acc analyze_rule_def pair_finding_def pair_conflict_def pair_shadow_def Let_def)
qed

lemma lint_fold_findings:
  "f \<in> set (fst (fold (lint_pair (analyze_rule e)) (map analyze_rule ls) acc)) \<longleftrightarrow>
     f \<in> set (fst acc) \<or> (\<exists>l \<in> set ls. pair_finding f e l)"
  by (induction ls arbitrary: acc) (auto simp: lint_pair_findings)

lemma lint_loop_findings:
  "f \<in> set (fst (lint_loop (map analyze_rule rs) acc)) \<longleftrightarrow>
     f \<in> set (fst acc) \<or> (\<exists>e l. earlier_later rs e l \<and> pair_finding f e l)"
proof (induction rs arbitrary: acc)
  case Nil
  then show ?case by (simp add: earlier_later_def)
next
  case (Cons r rs)
  then show ?case by (auto simp: lint_fold_findings earlier_later_Cons)
qed

lemma lint_policy_set_findings:
  "f \<in> set (fst (lint_policy_set ps)) \<longleftrightarrow> (\<exists>e l. earlier_later (ps_rules ps) e l \<and> pair_finding f e l)"
  by (simp add: lint_policy_set_def lint_loop_findings)

section \<open>Evaluation of a policy set\<close>

definition lint_rule_as_rule :: "lint_rule \<Rightarrow> rule" where
  "lint_rule_as_rule r = rule_create (lr_effect r) (lr_condition r) None"

definition first_applicable_decision ::
  "(string \<Rightarrow> date) \<Rightarrow> lint_rule list \<Rightarrow> attribute_context \<Rightarrow> outcome" where
  "first_applicable_decision parse rs ctx =
     first_applicable (derive_rule_outcomes parse (map lint_rule_as_rule rs) ctx)"

lemma first_applicable_append:
  "first_applicable (us @ vs) =
     (if first_applicable us = NotApplicable then first_applicable vs else first_applicable us)"
  by (induction us) (auto simp: first_applicable_def)

lemma first_applicable_Cons:
  "first_applicable (x # xs) = (if x = NotApplicable then first_applicable xs else x)"
  by (simp add: first_applicable_def)

lemma first_applicable_decision_append:
  "first_applicable_decision parse (us @ vs) ctx =
     (if first_applicable_decision parse us ctx = NotApplicable
      then first_applicable_decision parse vs ctx else first_applicable_decision parse us ctx)"
  by (simp add: first_applicable_decision_def derive_rule_outcomes_def first_applicable_append)

lemma first_applicable_decision_Cons:
  "first_applicable_decision parse (r # rs) ctx =
     (if evaluate_condition parse ctx (lr_condition r) then outcome_of_effect (lr_effect r)
      else first_applicable_decision parse rs ctx)"
  by (auto simp: first_applicable_decision_def derive_rule_outcomes_def first_applicable_Cons
      lint_rule_as_rule_def rule_create_def evaluate_rule_def)

lemma pair_shadow_matches:
  assumes "pair_shadow e l" "evaluate_condition parse ctx (lr_condition l)"
  shows "evaluate_condition parse ctx (lr_condition e)"
  using assms constraints_imply_sound extract_constraints_holds(1) by (metis pair_shadow_def)

lemma shadowed_rule_removable:
  assumes "pair_shadow e l"
  shows "first_applicable_decision parse (xs @ e # ys @ l # zs) ctx =
    first_applicable_decision parse (xs @ e # ys @ zs) ctx"
proof (cases "evaluate_condition parse ctx (lr_condition l)")
  case True
  then have "evaluate_condition parse ctx (lr_condition e)" using pair_shadow_matches assms by blast
  then show ?thesis
    by (simp add: first_applicable_decision_append first_applicable_decision_Cons)
next
  case False
  then show ?thesis
    by (simp add: first_applicable_decision_append first_applicable_decision_Cons)
qed

section \<open>Properties\<close>

text \<open>
  C7: A shadow finding is right: it names an earlier and a later rule of the set such that
  every context the later one matches is matched by the earlier, and deleting the later rule
  changes no decision under first-applicable.
\<close>

theorem lint_shadow_removable:
  assumes "Shadow i j \<in> set (fst (lint_policy_set ps))"
  shows "\<exists>xs e ys l zs. ps_rules ps = xs @ e # ys @ l # zs \<and> lr_id e = i \<and> lr_id l = j \<and>
    (\<forall>parse ctx. first_applicable_decision parse (xs @ e # ys @ l # zs) ctx =
       first_applicable_decision parse (xs @ e # ys @ zs) ctx) \<and>
    (\<forall>parse ctx. evaluate_condition parse ctx (lr_condition l) \<longrightarrow>
       evaluate_condition parse ctx (lr_condition e))"
proof -
  obtain e l where el: "earlier_later (ps_rules ps) e l" "pair_finding (Shadow i j) e l"
    using assms lint_policy_set_findings by blast
  then have ids: "lr_id e = i" "lr_id l = j" "pair_shadow e l" by (auto simp: pair_finding_def)
  obtain xs ys zs where "ps_rules ps = xs @ e # ys @ l # zs"
    using el(1) by (auto simp: earlier_later_def)
  with ids shadowed_rule_removable [OF ids(3)] pair_shadow_matches [OF ids(3)] show ?thesis by blast
qed

definition demo_policy_set :: policy_set where
  "demo_policy_set = \<lparr>ps_id = ''p'', ps_rules =
     [\<lparr>lr_id = ''broad'', lr_effect = EDeny,
       lr_condition = Comparison ''subject.role'' OpEq (LStr ''guest'')\<rparr>,
      \<lparr>lr_id = ''narrow'', lr_effect = EPermit,
       lr_condition = And [Comparison ''resource.kind'' OpNeq (LStr ''secret''),
         Comparison ''subject.role'' OpEq (LStr ''guest'')]\<rparr>,
      \<lparr>lr_id = ''admin'', lr_effect = EPermit,
       lr_condition = Comparison ''subject.role'' OpEq (LStr ''admin'')\<rparr>]\<rparr>"

lemma demo_lint: "lint_policy_set demo_policy_set =
    ([Conflict ''broad'' ''narrow'', Shadow ''broad'' ''narrow''], 0)"
  by code_simp

theorem lint_shadow_removable_witness:
  "\<exists>xs e ys l zs. ps_rules demo_policy_set = xs @ e # ys @ l # zs \<and> lr_id e = ''broad'' \<and>
     lr_id l = ''narrow''"
proof -
  have "Shadow ''broad'' ''narrow'' \<in> set (fst (lint_policy_set demo_policy_set))"
    by (simp add: demo_lint)
  from lint_shadow_removable [OF this] show ?thesis by blast
qed

text \<open>
  No conflict finding means no conflict, for the pairs the linter analyses: if two rules of
  opposite effect are both conjunctions of equality tests and no conflict with their ids is
  reported, then no context without Date attributes matches both.
\<close>

theorem lint_no_conflict_disjoint:
  assumes "ps_rules ps = xs @ e # ys @ l # zs" and "lr_effect e \<noteq> lr_effect l"
    and "extract_constraints (lr_condition e) = Some ec"
    and "extract_constraints (lr_condition l) = Some lc"
    and "Conflict (lr_id e) (lr_id l) \<notin> set (fst (lint_policy_set ps))"
    and "\<forall>path d. context_resolve ctx path \<noteq> Some (ADate d)"
  shows "\<not> (evaluate_condition parse ctx (lr_condition e) \<and>
    evaluate_condition parse ctx (lr_condition l))"
proof -
  have "earlier_later (ps_rules ps) e l" using assms(1) unfolding earlier_later_def by blast
  then have "\<not> pair_conflict e l" using assms(5) lint_policy_set_findings pair_finding_def by blast
  then have "\<not> constraints_overlap ec lc" using assms(2-4) by (auto simp: pair_conflict_def)
  moreover have "no_dates ctx" using assms(6) by (simp add: no_dates_def)
  ultimately show ?thesis
    using constraints_no_overlap_disjoint extract_constraints_holds(1) assms(3,4) by metis
qed

theorem lint_no_conflict_disjoint_witness:
  "\<not> (evaluate_condition (\<lambda>_. None) demo_context (Comparison ''subject.role'' OpEq (LStr ''guest'')) \<and>
     evaluate_condition (\<lambda>_. None) demo_context (Comparison ''subject.role'' OpEq (LStr ''admin'')))"
proof -
  let ?e = "\<lparr>lr_id = ''broad'', lr_effect = EDeny,
       lr_condition = Comparison ''subject.role'' OpEq (LStr ''guest'')\<rparr>"
  let ?l = "\<lparr>lr_id = ''admin'', lr_effect = EPermit,
       lr_condition = Comparison ''subject.role'' OpEq (LStr ''admin'')\<rparr>"
  have s: "ps_rules demo_policy_set = [] @ ?e # [ps_rules demo_policy_set ! 1] @ ?l # []"
    by (simp add: demo_policy_set_def)
  have x: "extract_constraints (lr_condition ?e) = Some [\<lparr>lc_attribute = ''subject.role'',
      lc_operator = ConEquals, lc_value = LStr ''guest''\<rparr>]"
    "extract_constraints (lr_condition ?l) = Some [\<lparr>lc_attribute = ''subject.role'',
      lc_operator = ConEquals, lc_value = LStr ''admin''\<rparr>]"
    by (simp_all add: extract_leaf_constraint_def)
  have n: "Conflict (lr_id ?e) (lr_id ?l) \<notin> set (fst (lint_policy_set demo_policy_set))"
    by (simp add: demo_lint)
  have d: "context_resolve demo_context path \<noteq> Some (ADate d)" for path d
    by (auto simp: context_resolve_def demo_context_def context_create_def object_get_def or_default_def
        bag_name_of_def split: option.splits if_splits)
  show ?thesis
    using lint_no_conflict_disjoint [OF s _ x n, of demo_context "\<lambda>_. None"] d by simp
qed

text \<open>
  A conflict finding is not always a conflict: a rule whose condition compares with an
  array literal under \<open>eq\<close> matches nothing, in any context, and is reported in conflict.
\<close>

theorem lint_conflict_false_positive:
  "set (fst (lint_policy_set \<lparr>ps_id = ''p'', ps_rules =
      [\<lparr>lr_id = ''a'', lr_effect = EPermit,
        lr_condition = Comparison ''subject.roles'' OpEq (LArr 0 [IStr ''admin''])\<rparr>,
       \<lparr>lr_id = ''b'', lr_effect = EDeny,
        lr_condition = Comparison ''resource.kind'' OpEq (LStr ''secret'')\<rparr>]\<rparr>)) = {Conflict ''a'' ''b''} \<and>
   \<not> evaluate_condition parse ctx (Comparison ''subject.roles'' OpEq (LArr 0 [IStr ''admin'']))"
proof -
  have "lint_policy_set \<lparr>ps_id = ''p'', ps_rules =
      [\<lparr>lr_id = ''a'', lr_effect = EPermit,
        lr_condition = Comparison ''subject.roles'' OpEq (LArr 0 [IStr ''admin''])\<rparr>,
       \<lparr>lr_id = ''b'', lr_effect = EDeny,
        lr_condition = Comparison ''resource.kind'' OpEq (LStr ''secret'')\<rparr>]\<rparr> = ([Conflict ''a'' ''b''], 0)"
    by code_simp
  then show ?thesis
    by (simp add: evaluate_comparison_def compare_eq_def split: option.split)
qed

end
