(* ===== verification/AuthzService.thy ===== *)
theory AuthzService
  imports Policies
begin

text \<open>
  \<open>packages/authorization/domain/authorization-decision.ts\<close>, \<open>application/services/
  authorization-service.ts\<close> and \<open>application/use-cases/authorize-action.ts\<close>: the precedence
  configuration and its check, the composition of the role gate with the policy decision
  point, and the caller-facing decision. The two ports have no implementation in the
  repository: they are the function arguments \<open>gate\<close> and \<open>pdp\<close>, total functions into a sum
  whose \<open>Inl\<close> is a thrown error.
\<close>

section \<open>Precedence\<close>

record precedence =
  abac_deny_overrides_rbac_permit :: bool
  abac_permit_overrides_rbac_deny :: bool
  default_effect :: effect

definition authorization_precedence :: precedence where
  "authorization_precedence =
     \<lparr>abac_deny_overrides_rbac_permit = True, abac_permit_overrides_rbac_deny = False,
      default_effect = EDeny\<rparr>"

text \<open>\<open>Partial<AuthorizationPrecedence>\<close>: an absent field takes the default.\<close>

record precedence_overrides =
  po_deny :: "bool option"
  po_permit :: "bool option"
  po_default :: "effect option"

datatype precedence_error = UnsafeAbacDeny | UnsafeAbacPermit | UnsafeDefaultEffect

definition assert_precedence_safe :: "precedence \<Rightarrow> precedence_error + precedence" where
  "assert_precedence_safe p =
     (if \<not> abac_deny_overrides_rbac_permit p then Inl UnsafeAbacDeny
      else if abac_permit_overrides_rbac_deny p then Inl UnsafeAbacPermit
      else if default_effect p \<noteq> EDeny then Inl UnsafeDefaultEffect
      else Inr p)"

definition resolve_precedence :: "precedence_overrides \<Rightarrow> precedence_error + precedence" where
  "resolve_precedence o' =
     assert_precedence_safe
       \<lparr>abac_deny_overrides_rbac_permit =
          or_default (po_deny o') (abac_deny_overrides_rbac_permit authorization_precedence),
        abac_permit_overrides_rbac_deny =
          or_default (po_permit o') (abac_permit_overrides_rbac_deny authorization_precedence),
        default_effect = or_default (po_default o') (default_effect authorization_precedence)\<rparr>"

lemma resolve_precedence_Inr:
  "resolve_precedence o' = Inr p \<Longrightarrow> p = authorization_precedence"
  by (cases p) (auto simp: resolve_precedence_def assert_precedence_safe_def
      authorization_precedence_def split: if_splits)

section \<open>AuthorizationService\<close>

datatype decision_source = SrcRbac | SrcAbac | SrcComposition | SrcFailClosed

record decision =
  dec_effect :: effect
  dec_source :: decision_source
  dec_reason :: string
  dec_matched :: "string list"

record authz_request =
  rq_subject_id :: string
  rq_tenant_id :: string
  rq_action :: string
  rq_resource_type :: string
  rq_resource_id :: "string option"
  rq_context :: "attribute_context option"

datatype role_decision = RoleGrant | RoleDeny | RoleNoMatch

record policy_evaluation =
  pe_effect :: outcome
  pe_reason :: string
  pe_matched :: "string list"

definition empty_attribute_context :: attribute_context where
  "empty_attribute_context = \<lparr>ctx_subject = [], ctx_resource = [], ctx_action = [], ctx_environment = []\<rparr>"

definition deny_decision :: "decision_source \<Rightarrow> string \<Rightarrow> string option \<Rightarrow> decision" where
  "deny_decision source reason detail =
     \<lparr>dec_effect = EDeny, dec_source = source,
      dec_reason = (case detail of None \<Rightarrow> reason | Some d \<Rightarrow> reason @ '': '' @ d),
      dec_matched = []\<rparr>"

definition malformed_request_reason :: "authz_request \<Rightarrow> string option" where
  "malformed_request_reason rq =
     (if js_trim (rq_subject_id rq) = [] then Some ''subjectId is empty''
      else if js_trim (rq_tenant_id rq) = [] then Some ''tenantId is empty''
      else if js_trim (rq_action rq) = [] then Some ''action is empty''
      else if js_trim (rq_resource_type rq) = [] then Some ''resourceType is empty''
      else None)"

definition authorize ::
  "precedence \<Rightarrow> (authz_request \<Rightarrow> 'e + role_decision) \<Rightarrow> (authz_request \<Rightarrow> 'f + policy_evaluation) \<Rightarrow>
     authz_request \<Rightarrow> decision" where
  "authorize prec gate pdp rq =
     (case malformed_request_reason rq of
        Some detail \<Rightarrow> deny_decision SrcFailClosed ''Invalid authorization request'' (Some detail)
      | None \<Rightarrow>
          (case gate rq of
             Inl _ \<Rightarrow> deny_decision SrcFailClosed ''Role permission store unavailable'' None
           | Inr RoleDeny \<Rightarrow> deny_decision SrcRbac ''RBAC denial'' None
           | Inr role \<Rightarrow>
               (let granted = (role = RoleGrant);
                    evaluated = rq\<lparr>rq_context :=
                      Some (or_default (rq_context rq) empty_attribute_context)\<rparr>
                in case pdp evaluated of
                     Inl _ \<Rightarrow> deny_decision SrcFailClosed ''Policy repository unavailable'' None
                   | Inr ev \<Rightarrow>
                       (let source = (if granted then SrcComposition else SrcAbac)
                        in case pe_effect ev of
                             Deny \<Rightarrow> \<lparr>dec_effect = EDeny, dec_source = source,
                               dec_reason = ''ABAC policy denial'', dec_matched = pe_matched ev\<rparr>
                           | Permit \<Rightarrow> \<lparr>dec_effect = EPermit, dec_source = source,
                               dec_reason = (if granted then ''RBAC grant'' else ''ABAC policy permit''),
                               dec_matched = pe_matched ev\<rparr>
                           | NotApplicable \<Rightarrow>
                               (if granted
                                then \<lparr>dec_effect = EPermit, dec_source = SrcRbac,
                                  dec_reason = ''RBAC grant'', dec_matched = []\<rparr>
                                else \<lparr>dec_effect = default_effect prec, dec_source = SrcComposition,
                                  dec_reason = ''No applicable policy'', dec_matched = []\<rparr>)))))"

text \<open>The request the policy decision point sees.\<close>

definition evaluated_request :: "authz_request \<Rightarrow> authz_request" where
  "evaluated_request rq =
     rq\<lparr>rq_context := Some (or_default (rq_context rq) empty_attribute_context)\<rparr>"

text \<open>
  The decision as a table of the two layers' answers: what \<open>authorize\<close> promises, stated
  without its control flow.
\<close>

fun decision_table :: "role_decision \<Rightarrow> outcome \<Rightarrow> effect" where
  "decision_table RoleDeny _ = EDeny"
| "decision_table _ Deny = EDeny"
| "decision_table RoleGrant _ = EPermit"
| "decision_table RoleNoMatch Permit = EPermit"
| "decision_table RoleNoMatch NotApplicable = EDeny"

definition decided_effect ::
  "(authz_request \<Rightarrow> 'e + role_decision) \<Rightarrow> (authz_request \<Rightarrow> 'f + policy_evaluation) \<Rightarrow>
     authz_request \<Rightarrow> effect" where
  "decided_effect gate pdp rq =
     (case (malformed_request_reason rq, gate rq, pdp (evaluated_request rq)) of
        (None, Inr role, Inr ev) \<Rightarrow> decision_table role (pe_effect ev)
      | _ \<Rightarrow> EDeny)"

lemma authorize_effect:
  assumes "resolve_precedence o' = Inr prec"
  shows "dec_effect (authorize prec gate pdp rq) = decided_effect gate pdp rq"
proof -
  have "default_effect prec = EDeny"
    using resolve_precedence_Inr [OF assms] by (simp add: authorization_precedence_def)
  then show ?thesis
    unfolding authorize_def decided_effect_def evaluated_request_def [symmetric] Let_def
    by (simp add: deny_decision_def split: option.split sum.split role_decision.split outcome.split)
qed

lemma decision_table_permit:
  "decision_table role o' = EPermit \<longleftrightarrow>
     role = RoleGrant \<and> o' \<noteq> Deny \<or> role = RoleNoMatch \<and> o' = Permit"
  by (cases role; cases o') auto

lemma decided_effect_permit:
  "decided_effect gate pdp rq = EPermit \<longleftrightarrow>
     malformed_request_reason rq = None \<and>
     (\<exists>role ev. gate rq = Inr role \<and> pdp (evaluated_request rq) = Inr ev \<and>
        (role = RoleGrant \<and> pe_effect ev \<noteq> Deny \<or> role = RoleNoMatch \<and> pe_effect ev = Permit))"
  by (auto simp: decided_effect_def decision_table_permit split: option.splits sum.splits)

lemma authorize_matched_only_from_policies:
  "dec_matched (authorize prec gate pdp rq) \<noteq> [] \<Longrightarrow>
     \<exists>ev. pdp (evaluated_request rq) = Inr ev \<and> pe_effect ev \<noteq> NotApplicable \<and>
       dec_matched (authorize prec gate pdp rq) = pe_matched ev"
  unfolding authorize_def evaluated_request_def [symmetric] Let_def
  by (auto simp: deny_decision_def split: option.splits sum.splits role_decision.splits
      outcome.splits if_splits)

section \<open>AuthorizeAction\<close>

text \<open>
  The resolver registry: a map from resource types to resolvers, each a function of the
  resource id whose \<open>Inl\<close> is the message of the error it throws.
\<close>

type_synonym resolver = "string \<Rightarrow> string + raw_bag"

definition registry_register ::
  "string \<Rightarrow> resolver \<Rightarrow> (string, resolver) js_map \<Rightarrow> (string, resolver) js_map" where
  "registry_register rt r reg = map_set rt r reg"

definition registry_has :: "(string, resolver) js_map \<Rightarrow> string \<Rightarrow> bool" where
  "registry_has reg rt = (map_get reg rt \<noteq> None)"

definition registry_resolve ::
  "(string, resolver) js_map \<Rightarrow> string \<Rightarrow> string \<Rightarrow> string + raw_bag" where
  "registry_resolve reg rt rid =
     (case map_get reg rt of
        None \<Rightarrow> Inl (''No resource-attribute resolver is registered for resource type \"'' @ rt @ ''\".'')
      | Some r \<Rightarrow> r rid)"

text \<open>The object spread \<open>{...a, ...b}\<close>.\<close>

definition bag_spread :: "raw_bag \<Rightarrow> raw_bag \<Rightarrow> raw_bag" where
  "bag_spread a b = fold (\<lambda>(k, v) m. map_set k v m) b a"

record authorize_command =
  ac_subject_id :: string
  ac_tenant_id :: string
  ac_action :: string
  ac_resource_type :: string
  ac_resource_id :: string
  ac_subject_attributes :: "raw_bag option"
  ac_resource_attributes :: "raw_bag option"
  ac_environment_attributes :: "raw_bag option"

record action_decision =
  ad_granted :: bool
  ad_reason :: string
  ad_matched :: "string list"

definition describe_reason :: "decision \<Rightarrow> string" where
  "describe_reason d =
     (let matched = (if length (dec_matched d) > 0
                     then '' (matched: '' @ js_join '', '' (dec_matched d) @ '')'' else '''');
          granted = (dec_effect d = EPermit)
      in case dec_source d of
           SrcRbac \<Rightarrow>
             (if granted then ''Granted: role/permission grant permits this action.''
              else ''Denied: role/permission grant denies this action.'')
         | SrcFailClosed \<Rightarrow>
             ''Denied: the authorization layer could not complete the check ('' @ dec_reason d @ '').''
         | _ \<Rightarrow>
             (if granted
              then (if dec_source d = SrcComposition
                    then ''Granted: role grant and policy together permit this action'' @ matched @ ''.''
                    else ''Granted: an applicable policy permits this action'' @ matched @ ''.'')
              else if length (dec_matched d) > 0
              then ''Denied: an applicable policy denies this action'' @ matched @ ''.''
              else ''Denied: no role grant or policy permits this action (fail-closed default).''))"

definition action_context :: "authorize_command \<Rightarrow> raw_bag \<Rightarrow> attribute_context" where
  "action_context cmd resolved =
     context_create
       (Some (bag_spread [(''id'', Some (AStr (ac_subject_id cmd)))]
                (or_default (ac_subject_attributes cmd) [])))
       (Some (bag_spread (bag_spread [(''id'', Some (AStr (ac_resource_id cmd)))] resolved)
                (or_default (ac_resource_attributes cmd) [])))
       (Some [(''name'', Some (AStr (ac_action cmd)))])
       (Some (or_default (ac_environment_attributes cmd) []))"

definition authorize_action_execute ::
  "precedence \<Rightarrow> (authz_request \<Rightarrow> 'e + role_decision) \<Rightarrow> (authz_request \<Rightarrow> 'f + policy_evaluation) \<Rightarrow>
     (string, resolver) js_map option \<Rightarrow> authorize_command \<Rightarrow> action_decision" where
  "authorize_action_execute prec gate pdp registry cmd =
     (let resolved =
        (case registry of
           None \<Rightarrow> Inr []
         | Some reg \<Rightarrow>
             (if registry_has reg (ac_resource_type cmd)
              then registry_resolve reg (ac_resource_type cmd) (ac_resource_id cmd) else Inr []))
      in case resolved of
           Inl msg \<Rightarrow>
             \<lparr>ad_granted = False,
              ad_reason = ''Denied: could not resolve \"'' @ ac_resource_type cmd @
                ''\" resource attributes ('' @ msg @ '').'',
              ad_matched = []\<rparr>
         | Inr bag \<Rightarrow>
             (let result = authorize prec gate pdp
                \<lparr>rq_subject_id = ac_subject_id cmd, rq_tenant_id = ac_tenant_id cmd,
                 rq_action = ac_action cmd, rq_resource_type = ac_resource_type cmd,
                 rq_resource_id = Some (ac_resource_id cmd),
                 rq_context = Some (action_context cmd bag)\<rparr>
              in \<lparr>ad_granted = (dec_effect result = EPermit), ad_reason = describe_reason result,
                  ad_matched = dec_matched result\<rparr>))"

lemma bag_spread_lookup:
  assumes "distinct (map fst b)"
  shows "map_get (bag_spread a b) k = (case map_get b k of None \<Rightarrow> map_get a k | Some v \<Rightarrow> Some v)"
  using assms
proof (induction b arbitrary: a)
  case Nil
  then show ?case by (simp add: bag_spread_def)
next
  case (Cons kv b)
  obtain k' v where kv: "kv = (k', v)" by (cases kv)
  have "map_get (bag_spread a (kv # b)) k = map_get (bag_spread (map_set k' v a) b) k"
    by (simp add: bag_spread_def kv)
  also have "... = (case map_get b k of None \<Rightarrow> map_get (map_set k' v a) k | Some v \<Rightarrow> Some v)"
    using Cons by simp
  finally have "map_get (bag_spread a (kv # b)) k =
      (case map_get b k of None \<Rightarrow> map_get (map_set k' v a) k | Some w \<Rightarrow> Some w)" .
  moreover have "map_get b k' = None" using Cons.prems kv by (simp add: map_of_eq_None_iff)
  ultimately show ?case using kv by (auto split: option.split)
qed

text \<open>The sentence starts with the decision it reports.\<close>

lemma describe_reason_prefix:
  "dec_source d = SrcFailClosed \<longrightarrow> dec_effect d = EDeny \<Longrightarrow>
     take 8 (describe_reason d) = ''Granted:'' \<longleftrightarrow> dec_effect d = EPermit"
  by (cases "dec_source d"; cases "dec_effect d") (auto simp: describe_reason_def Let_def)

lemma authorize_fail_closed_denies:
  "dec_source (authorize prec gate pdp rq) = SrcFailClosed \<Longrightarrow>
     dec_effect (authorize prec gate pdp rq) = EDeny"
  unfolding authorize_def Let_def
  by (auto simp: deny_decision_def split: option.splits sum.splits role_decision.splits
      outcome.splits if_splits)

section \<open>Properties\<close>

text \<open>
  C3: The permit condition: under any configuration \<open>resolveAuthorizationPrecedence\<close> accepts,
  \<open>authorize\<close> permits exactly the well-formed requests whose role check and policy evaluation
  both return, with a role grant and no policy denial, or no role match and a policy permit.
  Every other outcome, a thrown error of either port included, is a denial.
\<close>

theorem authorize_permit_iff:
  assumes "resolve_precedence overrides = Inr prec"
  shows "dec_effect (authorize prec gate pdp rq) = EPermit \<longleftrightarrow>
     malformed_request_reason rq = None \<and>
     (\<exists>role ev. gate rq = Inr role \<and>
        pdp (rq\<lparr>rq_context := Some (or_default (rq_context rq) empty_attribute_context)\<rparr>) = Inr ev \<and>
        (role = RoleGrant \<and> pe_effect ev \<noteq> Deny \<or> role = RoleNoMatch \<and> pe_effect ev = Permit))"
  by (simp add: authorize_effect [OF assms] decided_effect_permit evaluated_request_def)

definition demo_request :: authz_request where
  "demo_request = \<lparr>rq_subject_id = ''u1'', rq_tenant_id = ''acme'', rq_action = ''read'',
     rq_resource_type = ''document'', rq_resource_id = None, rq_context = None\<rparr>"

definition demo_pdp :: "authz_request \<Rightarrow> unit + policy_evaluation" where
  "demo_pdp rq = (if rq_resource_type rq = ''document''
     then Inr \<lparr>pe_effect = Permit, pe_reason = '''', pe_matched = [''p1'']\<rparr> else Inl ())"

theorem authorize_permit_iff_witness:
  "dec_effect (authorize authorization_precedence (\<lambda>_. Inr RoleNoMatch :: unit + role_decision)
     demo_pdp demo_request) = EPermit"
proof -
  have "resolve_precedence \<lparr>po_deny = None, po_permit = Some False, po_default = None\<rparr> =
      Inr authorization_precedence"
    by (simp add: resolve_precedence_def assert_precedence_safe_def authorization_precedence_def
        or_default_def)
  from authorize_permit_iff [OF this, of "\<lambda>_. Inr RoleNoMatch :: unit + role_decision" demo_pdp
      demo_request] show ?thesis
    by (simp add: demo_pdp_def) (simp add: demo_request_def malformed_request_reason_def js_trim_def
        trim_start_def trim_end_def js_ws_def)
qed

text \<open>
  No configuration relaxes the composition: the only precedence
  \<open>resolveAuthorizationPrecedence\<close> accepts is the default one, so every decision not determined
  by the two layers is a denial, and a role denial or a policy denial is final.
\<close>

theorem precedence_cannot_be_relaxed:
  "(resolve_precedence overrides = Inr prec \<longleftrightarrow> prec = authorization_precedence \<and>
      or_default (po_deny overrides) True \<and> \<not> or_default (po_permit overrides) False \<and>
      or_default (po_default overrides) EDeny = EDeny) \<and>
   (gate rq = Inr RoleDeny \<longrightarrow> dec_effect (authorize prec gate pdp rq) = EDeny) \<and>
   (pdp (rq\<lparr>rq_context := Some (or_default (rq_context rq) empty_attribute_context)\<rparr>) = Inr ev \<and>
      pe_effect ev = Deny \<longrightarrow> dec_effect (authorize prec gate pdp rq) = EDeny)"
proof (intro conjI)
  show "resolve_precedence overrides = Inr prec \<longleftrightarrow> prec = authorization_precedence \<and>
      or_default (po_deny overrides) True \<and> \<not> or_default (po_permit overrides) False \<and>
      or_default (po_default overrides) EDeny = EDeny"
    by (cases prec) (auto simp: resolve_precedence_def assert_precedence_safe_def authorization_precedence_def)
  show "gate rq = Inr RoleDeny \<longrightarrow> dec_effect (authorize prec gate pdp rq) = EDeny"
    by (simp add: authorize_def deny_decision_def split: option.split)
  show "pdp (rq\<lparr>rq_context := Some (or_default (rq_context rq) empty_attribute_context)\<rparr>) = Inr ev \<and>
      pe_effect ev = Deny \<longrightarrow> dec_effect (authorize prec gate pdp rq) = EDeny"
    by (auto simp: authorize_def deny_decision_def Let_def split: option.split sum.split role_decision.split)
qed

theorem precedence_cannot_be_relaxed_witness:
  "dec_effect (authorize authorization_precedence (\<lambda>_. Inr RoleDeny :: unit + role_decision)
     demo_pdp demo_request) = EDeny"
  using precedence_cannot_be_relaxed [of undefined authorization_precedence
      "\<lambda>_. Inr RoleDeny :: unit + role_decision" demo_request demo_pdp undefined] by simp

text \<open>
  \<open>AuthorizeAction\<close> fails closed and reports truthfully: an error of the resource resolver
  denies without a decision; otherwise it grants exactly when \<open>authorize\<close> permits, and its
  reason starts with \<open>Granted:\<close> exactly when it grants.
\<close>

theorem authorize_action_truthful:
  "ad_granted (authorize_action_execute prec gate pdp registry cmd) =
     (case (case registry of None \<Rightarrow> Inr []
            | Some reg \<Rightarrow> if map_get reg (ac_resource_type cmd) = None then Inr []
                         else registry_resolve reg (ac_resource_type cmd) (ac_resource_id cmd)) of
        Inl _ \<Rightarrow> False
      | Inr bag \<Rightarrow> dec_effect (authorize prec gate pdp
          \<lparr>rq_subject_id = ac_subject_id cmd, rq_tenant_id = ac_tenant_id cmd,
           rq_action = ac_action cmd, rq_resource_type = ac_resource_type cmd,
           rq_resource_id = Some (ac_resource_id cmd),
           rq_context = Some (action_context cmd bag)\<rparr>) = EPermit) \<and>
   (take 8 (ad_reason (authorize_action_execute prec gate pdp registry cmd)) = ''Granted:'' \<longleftrightarrow>
      ad_granted (authorize_action_execute prec gate pdp registry cmd))"
proof -
  have "dec_source d = SrcFailClosed \<longrightarrow> dec_effect d = EDeny" if "d = authorize prec gate pdp rq" for d rq
    using authorize_fail_closed_denies that by blast
  note prefix = describe_reason_prefix [OF this [OF refl]]
  show ?thesis
    unfolding authorize_action_execute_def Let_def registry_has_def
    by (simp add: prefix split: option.split sum.split)
qed

end
