(* ===== verification/TextForms.thy ===== *)
theory TextForms
  imports Prelude
begin

text \<open>
  Textual forms the packages build from numbers, strings and dates: \<open>String(n)\<close>, UTF-8 byte
  lengths and the length-prefixed fields of a hash pre-image
  (\<open>packages/audit/domain/value-objects/audit-metadata.ts\<close>), and \<open>Date.prototype.toISOString\<close>
  written after the date arithmetic of the ECMAScript specification. Each form comes with the
  lemma that it loses nothing. A code unit below 256 takes one UTF-8 byte below 128 and two
  from there.
\<close>

section \<open>Decimal text\<close>

fun show_nat :: "nat \<Rightarrow> string" where
  "show_nat n = (if n < 10 then [char_of (48 + n)] else show_nat (n div 10) @ [char_of (48 + n mod 10)])"

declare show_nat.simps [simp del]

definition read_digits :: "string \<Rightarrow> nat" where
  "read_digits s = foldl (\<lambda>a c. 10 * a + (of_char c - 48)) 0 s"

lemma read_show_nat: "read_digits (show_nat n) = n"
proof (induction n rule: show_nat.induct)
  case (1 n)
  show ?case
  proof (cases "n < 10")
    case True
    then show ?thesis by (simp add: show_nat.simps [of n] read_digits_def)
  next
    case False
    then have "read_digits (show_nat n) = 10 * read_digits (show_nat (n div 10)) + n mod 10"
      by (simp add: show_nat.simps [of n] read_digits_def)
    also have "... = n" using 1 False by simp
    finally show ?thesis .
  qed
qed

lemma show_nat_inject [simp]: "show_nat m = show_nat n \<longleftrightarrow> m = n"
  by (metis read_show_nat)

lemma show_nat_digits: "c \<in> set (show_nat n) \<Longrightarrow> 48 \<le> (of_char c :: nat) \<and> (of_char c :: nat) < 58"
proof (induction n rule: show_nat.induct)
  case (1 n)
  then show ?case by (cases "n < 10") (auto simp: show_nat.simps [of n])
qed

lemma show_nat_not_sep:
  "CHR '':'' \<notin> set (show_nat n)" "CHR ''|'' \<notin> set (show_nat n)"
  using show_nat_digits [of "CHR '':''" n] show_nat_digits [of "CHR ''|''" n] by auto

definition show_int :: "int \<Rightarrow> string" where
  "show_int n = (if n < 0 then CHR ''-'' # show_nat (nat (- n)) else show_nat (nat n))"

lemma show_nat_not_Nil [simp]: "show_nat n \<noteq> []"
  by (subst show_nat.simps) simp

lemma show_nat_not_minus: "CHR ''-'' \<notin> set (show_nat n)" "CHR '';'' \<notin> set (show_nat n)"
  using show_nat_digits [of "CHR ''-''" n] show_nat_digits [of "CHR '';''" n] by auto

lemma show_int_inject [simp]: "show_int m = show_int n \<longleftrightarrow> m = n"
proof -
  have "show_nat k \<noteq> CHR ''-'' # s" for k s
    using show_nat_not_minus(1) [of k] by (metis list.set_intros(1))
  then show ?thesis by (auto simp: show_int_def eq_commute [of "CHR ''-'' # _"])
qed

text \<open>\<open>String(n).padStart(w, "0")\<close>.\<close>

definition pad_zero :: "nat \<Rightarrow> nat \<Rightarrow> string" where
  "pad_zero w n = replicate (w - length (show_nat n)) (CHR ''0'') @ show_nat n"

lemma read_digits_replicate: "read_digits (replicate k (CHR ''0'') @ s) = read_digits s"
proof -
  have "foldl (\<lambda>a c. 10 * a + (of_char c - 48)) 0 (replicate k (CHR ''0'')) = (0 :: nat)"
    by (induction k) simp_all
  then show ?thesis by (simp add: read_digits_def)
qed

lemma read_pad_zero [simp]: "read_digits (pad_zero w n) = n"
  by (simp add: pad_zero_def read_digits_replicate read_show_nat)

lemma pad_zero_inject [simp]: "pad_zero w m = pad_zero w n \<longleftrightarrow> m = n"
  by (metis read_pad_zero)

lemma length_show_nat: "0 < w \<Longrightarrow> n < 10 ^ w \<Longrightarrow> length (show_nat n) \<le> w"
proof (induction n arbitrary: w rule: show_nat.induct)
  case (1 n)
  show ?case
  proof (cases "n < 10")
    case True
    with 1(2) show ?thesis by (simp add: show_nat.simps [of n])
  next
    case False
    then obtain v where v: "w = Suc v" "0 < v"
      using "1.prems" by (cases w; cases "w - 1") auto
    then have "n div 10 < 10 ^ v" using "1.prems" by (simp add: less_mult_imp_div_less mult.commute)
    then have "length (show_nat (n div 10)) \<le> v" using "1.IH" [OF False, of v] v by simp
    then show ?thesis using False v by (simp add: show_nat.simps [of n])
  qed
qed

lemma length_pad_zero: "0 < w \<Longrightarrow> n < 10 ^ w \<Longrightarrow> length (pad_zero w n) = w"
  using length_show_nat [of w n] by (simp add: pad_zero_def)

lemma pad_zero_digits: "c \<in> set (pad_zero w n) \<Longrightarrow> 48 \<le> (of_char c :: nat) \<and> (of_char c :: nat) < 58"
  using show_nat_digits by (auto simp: pad_zero_def)

lemma pad_zero_not_sign: "pad_zero w n \<noteq> CHR ''-'' # s" "pad_zero w n \<noteq> CHR ''+'' # s"
  using pad_zero_digits [of "CHR ''-''" w n] pad_zero_digits [of "CHR ''+''" w n] by auto

section \<open>UTF-8 byte lengths and length-prefixed fields\<close>

definition utf8_byte_length :: "string \<Rightarrow> nat" where
  "utf8_byte_length s = sum_list (map (\<lambda>c. if (of_char c :: nat) < 128 then 1 else 2) s)"

lemma utf8_byte_length_simps [simp]:
  "utf8_byte_length [] = 0"
  "utf8_byte_length (c # s) = (if (of_char c :: nat) < 128 then 1 else 2) + utf8_byte_length s"
  "utf8_byte_length (s @ t) = utf8_byte_length s + utf8_byte_length t"
  by (simp_all add: utf8_byte_length_def)

lemma length_le_utf8_byte_length: "length s \<le> utf8_byte_length s"
  by (induction s) auto

text \<open>A field with its byte length: \<open>`${utf8ByteLength(f)}:${f}`\<close>.\<close>

definition frame :: "string \<Rightarrow> string" where
  "frame f = show_nat (utf8_byte_length f) @ '':'' @ f"

text \<open>The byte length says where a field ends, so framed fields can be read back one by one.\<close>

lemma same_bytes_prefix:
  assumes "f @ x = g @ y" and "utf8_byte_length f = utf8_byte_length g"
  shows "f = g \<and> x = y"
  using assms
proof (induction f arbitrary: g)
  case Nil
  then have "length g = 0" using length_le_utf8_byte_length [of g] by simp
  with Nil show ?case by simp
next
  case (Cons c f)
  have "g \<noteq> []" using Cons.prems(2) by (auto split: if_splits)
  then obtain d g' where "g = d # g'" by (cases g) auto
  with Cons show ?case by auto
qed

lemma frame_append_inject [simp]: "frame f @ x = frame g @ y \<longleftrightarrow> f = g \<and> x = y"
proof
  assume h: "frame f @ x = frame g @ y"
  have s: "split_first (CHR '':'') (frame k @ z) = Some (show_nat (utf8_byte_length k), k @ z)" for k z
    using split_first_append [OF show_nat_not_sep(1)] by (simp add: frame_def)
  have "show_nat (utf8_byte_length f) = show_nat (utf8_byte_length g) \<and> f @ x = g @ y"
    using s [of f x] s [of g y] unfolding h by (simp only: option.inject prod.inject)
  then have "utf8_byte_length f = utf8_byte_length g" "f @ x = g @ y" by simp_all
  then show "f = g \<and> x = y" using same_bytes_prefix by blast
qed simp

lemma frame_inject [simp]: "frame f = frame g \<longleftrightarrow> f = g"
  using frame_append_inject [of f "[]" g "[]"] by simp

lemma join_frames_inject:
  "length fs = length gs \<Longrightarrow> js_join d (map frame fs) = js_join d (map frame gs) \<longleftrightarrow> fs = gs"
proof (induction fs gs rule: list_induct2)
  case (Cons f fs g gs)
  then show ?case by (cases fs; cases gs) simp_all
qed simp

section \<open>Date.prototype.toISOString\<close>

text \<open>
  The date arithmetic of the ECMAScript specification: \<open>DayFromYear\<close>, \<open>YearFromTime\<close> (estimated
  from the mean year and corrected by one), \<open>MonthFromTime\<close> and \<open>DateFromTime\<close>. A time value is a
  number of milliseconds, the Invalid Date (for which \<open>toISOString\<close> throws a \<open>RangeError\<close>) is
  handled by the callers.
\<close>

definition day_from_year :: "int \<Rightarrow> int" where
  "day_from_year y = 365 * (y - 1970) + (y - 1969) div 4 - (y - 1901) div 100 + (y - 1601) div 400"

definition leap_year :: "int \<Rightarrow> bool" where
  "leap_year y \<longleftrightarrow> y mod 4 = 0 \<and> (y mod 100 \<noteq> 0 \<or> y mod 400 = 0)"

definition year_from_day :: "int \<Rightarrow> int" where
  "year_from_day d =
     (let y = 1970 + (400 * d) div 146097
      in if d < day_from_year y then y - 1 else if day_from_year (y + 1) \<le> d then y + 1 else y)"

definition month_start :: "bool \<Rightarrow> nat \<Rightarrow> int" where
  "month_start leap m =
     [0, 31, 59, 90, 120, 151, 181, 212, 243, 273, 304, 334] ! m + (if leap \<and> 2 \<le> m then 1 else 0)"

definition month_of_day :: "bool \<Rightarrow> int \<Rightarrow> nat" where
  "month_of_day leap n =
     (let l = (if leap then 1 else 0)
      in if n < 31 then 0 else if n < 59 + l then 1 else if n < 90 + l then 2
         else if n < 120 + l then 3 else if n < 151 + l then 4 else if n < 181 + l then 5
         else if n < 212 + l then 6 else if n < 243 + l then 7 else if n < 273 + l then 8
         else if n < 304 + l then 9 else if n < 334 + l then 10 else 11)"

definition year_text :: "int \<Rightarrow> string" where
  "year_text y =
     (if 0 \<le> y \<and> y \<le> 9999 then pad_zero 4 (nat y)
      else if y < 0 then CHR ''-'' # pad_zero 6 (nat (- y)) else CHR ''+'' # pad_zero 6 (nat y))"

definition to_iso_string :: "int \<Rightarrow> string" where
  "to_iso_string ms =
     (let d = ms div 86400000; t = nat (ms mod 86400000); y = year_from_day d;
          n = d - day_from_year y; m = month_of_day (leap_year y) n;
          dom = nat (n - month_start (leap_year y) m) + 1
      in year_text y @ ''-'' @ pad_zero 2 (m + 1) @ ''-'' @ pad_zero 2 dom @ ''T'' @
         pad_zero 2 (t div 3600000) @ '':'' @ pad_zero 2 (t div 60000 mod 60) @ '':'' @
         pad_zero 2 (t div 1000 mod 60) @ ''.'' @ pad_zero 3 (t mod 1000) @ ''Z'')"

lemma div_lower: "0 < k \<Longrightarrow> k * ((x :: int) div k) \<le> x"
  by (simp add: minus_mod_eq_mult_div [symmetric])

lemma div_upper: "0 < k \<Longrightarrow> (x :: int) < k * (x div k) + k"
  by (simp add: minus_mod_eq_mult_div [symmetric])

lemma div_step: "(x + 1) div k = (x :: int) div k + (if (x + 1) mod k = 0 then 1 else 0)" if "0 < k"
proof -
  have r: "0 \<le> x mod k" "x mod k < k" "x = k * (x div k) + x mod k" using that by simp_all
  show ?thesis
  proof (cases "x mod k + 1 = k")
    case True
    moreover have "k * (x div k + 1) = k * (x div k) + k" by (simp add: distrib_left)
    ultimately have "x + 1 = k * (x div k + 1)" using r(3) by linarith
    then show ?thesis using that by simp
  next
    case False
    then have "x + 1 = k * (x div k) + (x mod k + 1)" "0 \<le> x mod k + 1" "x mod k + 1 < k" using r by linarith+
    then have "(x + 1) div k = x div k" "(x + 1) mod k = x mod k + 1"
      by (rule int_div_pos_eq) (rule int_mod_pos_eq; fact)
    then show ?thesis using r(1) by simp
  qed
qed

lemma day_from_year_step:
  "day_from_year (y + 1) = day_from_year y + (if leap_year y then 366 else 365)"
proof -
  have m: "(y - 1969 + 1) mod 4 = 0 \<longleftrightarrow> y mod 4 = 0" "(y - 1901 + 1) mod 100 = 0 \<longleftrightarrow> y mod 100 = 0"
    "(y - 1601 + 1) mod 400 = 0 \<longleftrightarrow> y mod 400 = 0"
    using dvd_diff_left_iff [of 4 1968 y] dvd_diff_left_iff [of 100 1900 y] dvd_diff_left_iff [of 400 1600 y]
    by (simp_all add: mod_eq_0_iff_dvd)
  have "100 dvd (400 :: int)" "4 dvd (100 :: int)" by simp_all
  then have n: "y mod 400 = 0 \<longrightarrow> y mod 100 = 0" "y mod 100 = 0 \<longrightarrow> y mod 4 = 0"
    unfolding mod_eq_0_iff_dvd using dvd_trans by blast+
  have e: "y + 1 - 1969 = y - 1969 + 1" "y + 1 - 1901 = y - 1901 + 1" "y + 1 - 1601 = y - 1601 + 1"
    "y + 1 - 1970 = y - 1970 + 1" by simp_all
  have q: "(y - 1969 + 1) div 4 = (y - 1969) div 4 + (if y mod 4 = 0 then 1 else 0)"
    "(y - 1901 + 1) div 100 = (y - 1901) div 100 + (if y mod 100 = 0 then 1 else 0)"
    "(y - 1601 + 1) div 400 = (y - 1601) div 400 + (if y mod 400 = 0 then 1 else 0)"
    using div_step [of 4 "y - 1969"] div_step [of 100 "y - 1901"] div_step [of 400 "y - 1601"]
    unfolding m by (simp_all only: zero_less_numeral simp_thms)
  have "365 * (u + 1) + (a + (if P then 1 else 0)) - (b + (if Q then 1 else 0)) + (c + (if R then 1 else 0)) =
      365 * u + a - b + c + (if P \<and> (\<not> Q \<or> R) then 366 else 365)"
    if "R \<longrightarrow> Q" "Q \<longrightarrow> P" for a b c u :: int and P Q R
    by (cases P; cases Q; cases R) (use that in simp_all)
  from this [OF n] show ?thesis
    unfolding day_from_year_def leap_year_def e q .
qed

lemma day_from_year_bounds:
  "400 * day_from_year (1970 + u) < 146097 * u + 600" "146097 * u - 610 < 400 * day_from_year (1970 + u)"
proof -
  define q4 q100 q400 where "q4 = (u + 1) div 4" and "q100 = (u + 69) div 100" and "q400 = (u + 369) div 400"
  have "4 * q4 \<le> u + 1" "u + 1 < 4 * q4 + 4" "100 * q100 \<le> u + 69" "u + 69 < 100 * q100 + 100"
    "400 * q400 \<le> u + 369" "u + 369 < 400 * q400 + 400"
    unfolding q4_def q100_def q400_def by (rule div_lower div_upper; simp)+
  then have "400 * q4 \<le> 100 * u + 100" "100 * u + 100 < 400 * q4 + 400" "400 * q100 \<le> 4 * u + 276"
    "4 * u + 276 < 400 * q100 + 400" "400 * q400 \<le> u + 369" "u + 369 < 400 * q400 + 400"
    by linarith+
  moreover have "day_from_year (1970 + u) = 365 * u + q4 - q100 + q400"
    by (simp add: day_from_year_def q4_def q100_def q400_def add.commute)
  then have "400 * day_from_year (1970 + u) = 146000 * u + 400 * q4 - 400 * q100 + 400 * q400"
    by (simp add: distrib_left right_diff_distrib)
  ultimately show "400 * day_from_year (1970 + u) < 146097 * u + 600"
    "146097 * u - 610 < 400 * day_from_year (1970 + u)" by linarith+
qed

lemma year_from_day_bracket:
  assumes "y = year_from_day d"
  shows "day_from_year y \<le> d" "d < day_from_year (y + 1)"
proof -
  define u where "u = (400 * d) div 146097"
  have q: "146097 * u \<le> 400 * d" "400 * d < 146097 * u + 146097"
    unfolding u_def by (rule div_lower div_upper; simp)+
  define U where "U = 146097 * u"
  have "U + 292194 - 610 < 400 * day_from_year (1970 + (u + 2))" "400 * day_from_year (1970 + (u - 1)) < U - 146097 + 600"
    using day_from_year_bounds(2) [of "u + 2"] day_from_year_bounds(1) [of "u - 1"]
    unfolding distrib_left right_diff_distrib U_def by simp_all
  then have "d < day_from_year (1970 + (u + 2))" "day_from_year (1970 + (u - 1)) < d + 1"
    using q unfolding U_def [symmetric] by linarith+
  then have "d < day_from_year (1970 + (u + 2))" "day_from_year (1970 + (u - 1)) \<le> d" by simp_all
  moreover have "1970 + (u + 2) = 1970 + u + 2" "1970 + (u - 1) = 1970 + u - 1" by simp_all
  ultimately have b: "d < day_from_year (1970 + u + 2)" "day_from_year (1970 + u - 1) \<le> d"
    by (simp_all only:)
  have "day_from_year y \<le> d \<and> d < day_from_year (y + 1)"
    using assms b unfolding year_from_day_def Let_def u_def [symmetric]
    by (cases "d < day_from_year (1970 + u)"; cases "day_from_year (1970 + u + 1) \<le> d") (simp_all add: add.assoc)
  then show "day_from_year y \<le> d" "d < day_from_year (y + 1)" by auto
qed

lemma year_text_inject [simp]: "year_text x = year_text y \<longleftrightarrow> x = y"
proof
  assume h: "year_text x = year_text y"
  show "x = y"
    using h pad_zero_not_sign [of 4] not_sym [OF pad_zero_not_sign(1) [of 4]] not_sym [OF pad_zero_not_sign(2) [of 4]]
    by (auto simp: year_text_def split: if_splits)
qed simp

text \<open>The month of a day and the day of the month, in range for every day of a year.\<close>

lemma month_starts:
  "month_start l 0 = 0" "month_start l (Suc 0) = 31" "month_start l 2 = 59 + (if l then 1 else 0)"
  "month_start l 3 = 90 + (if l then 1 else 0)" "month_start l 4 = 120 + (if l then 1 else 0)"
  "month_start l 5 = 151 + (if l then 1 else 0)" "month_start l 6 = 181 + (if l then 1 else 0)"
  "month_start l 7 = 212 + (if l then 1 else 0)" "month_start l 8 = 243 + (if l then 1 else 0)"
  "month_start l 9 = 273 + (if l then 1 else 0)" "month_start l 10 = 304 + (if l then 1 else 0)"
  "month_start l 11 = 334 + (if l then 1 else 0)"
  by (simp_all add: month_start_def)

lemma month_of_day_bounds:
  assumes "0 \<le> n" "n < (if leap then 366 else 365)" "m = month_of_day leap n"
  shows "m < 12" "month_start leap m \<le> n" "n - month_start leap m < 31"
proof -
  have "m < 12 \<and> month_start leap m \<le> n \<and> n - month_start leap m < 31"
    using assms(1,2) unfolding assms(3) month_of_day_def
    by (cases leap) (auto simp: Let_def month_starts)
  then show "m < 12" "month_start leap m \<le> n" "n - month_start leap m < 31" by auto
qed

text \<open>The fields of a time value, and the text as their concatenation.\<close>

definition iso_fields :: "int \<Rightarrow> int \<times> nat \<times> nat \<times> nat" where
  "iso_fields ms =
     (let d = ms div 86400000; y = year_from_day d; n = d - day_from_year y; m = month_of_day (leap_year y) n
      in (y, m, nat (n - month_start (leap_year y) m), nat (ms mod 86400000)))"

definition ms_of_fields :: "int \<times> nat \<times> nat \<times> nat \<Rightarrow> int" where
  "ms_of_fields = (\<lambda>(y, m, k, t). 86400000 * (day_from_year y + month_start (leap_year y) m + int k) + int t)"

lemma iso_fields_bounds:
  assumes "iso_fields ms = (y, m, k, t)"
  shows "m < 12" "k < 31" "t < 86400000"
proof -
  define d n where "d = ms div 86400000" and "n = d - day_from_year y"
  from assms have f: "y = year_from_day d" "m = month_of_day (leap_year y) n"
    "k = nat (n - month_start (leap_year y) m)" "t = nat (ms mod 86400000)"
    by (auto simp: iso_fields_def Let_def d_def n_def)
  have n: "0 \<le> n" "n < (if leap_year y then 366 else 365)"
    using year_from_day_bracket [OF f(1)] by (simp_all add: n_def day_from_year_step)
  note b = month_of_day_bounds [OF n f(2)]
  show "m < 12" by (rule b(1))
  show "k < 31" using b(3) unfolding f(3) by simp
  have "ms mod 86400000 < 86400000" by (rule pos_mod_bound) simp
  then show "t < 86400000" unfolding f(4) by (simp add: nat_less_iff)
qed

lemma ms_of_iso_fields: "ms_of_fields (iso_fields ms) = ms"
proof -
  define d y n m where "d = ms div 86400000" and "y = year_from_day d" and "n = d - day_from_year y"
    and "m = month_of_day (leap_year y) n"
  have n: "0 \<le> n" "n < (if leap_year y then 366 else 365)"
    using year_from_day_bracket [OF y_def] by (simp_all add: n_def day_from_year_step)
  have "day_from_year y + month_start (leap_year y) m + int (nat (n - month_start (leap_year y) m)) = d"
    using month_of_day_bounds(2) [OF n m_def] by (simp add: n_def)
  moreover have "int (nat (ms mod 86400000)) = ms mod 86400000" by (simp add: pos_mod_sign)
  moreover have "86400000 * d + ms mod 86400000 = ms" unfolding d_def by (rule mult_div_mod_eq)
  moreover have "iso_fields ms = (y, m, nat (n - month_start (leap_year y) m), nat (ms mod 86400000))"
    by (simp add: iso_fields_def Let_def d_def y_def n_def m_def)
  ultimately show ?thesis by (simp add: ms_of_fields_def)
qed

lemma to_iso_string_fields:
  "to_iso_string ms =
     (case iso_fields ms of (y, m, k, t) \<Rightarrow>
        year_text y @ ''-'' @ pad_zero 2 (m + 1) @ ''-'' @ pad_zero 2 (k + 1) @ ''T'' @
        pad_zero 2 (t div 3600000) @ '':'' @ pad_zero 2 (t div 60000 mod 60) @ '':'' @
        pad_zero 2 (t div 1000 mod 60) @ ''.'' @ pad_zero 3 (t mod 1000) @ ''Z'')"
  by (simp add: to_iso_string_def iso_fields_def Let_def)

lemma time_of_day_split:
  "t div 3600000 = t' div 3600000 \<Longrightarrow> t div 60000 mod 60 = t' div 60000 mod 60 \<Longrightarrow>
   t div 1000 mod 60 = t' div 1000 mod 60 \<Longrightarrow> t mod 1000 = t' mod 1000 \<Longrightarrow> t = (t' :: nat)"
proof -
  have e: "x = 1000 * (60 * (60 * (x div 3600000) + x div 60000 mod 60) + x div 1000 mod 60) + x mod 1000" for x :: nat
  proof -
    have "60 * (x div 3600000) + x div 60000 mod 60 = x div 60000"
      using mult_div_mod_eq [of 60 "x div 60000"] by (simp add: div_mult2_eq [symmetric])
    moreover have "60 * (x div 60000) + x div 1000 mod 60 = x div 1000"
      using mult_div_mod_eq [of 60 "x div 1000"] by (simp add: div_mult2_eq [symmetric])
    ultimately show ?thesis using mult_div_mod_eq [of 1000 x] by simp
  qed
  assume "t div 3600000 = t' div 3600000" "t div 60000 mod 60 = t' div 60000 mod 60"
    "t div 1000 mod 60 = t' div 1000 mod 60" "t mod 1000 = t' mod 1000"
  with e [of t] e [of t'] show ?thesis by metis
qed

text \<open>\<open>toISOString\<close> is one to one.\<close>

lemma to_iso_string_inject [simp]: "to_iso_string a = to_iso_string b \<longleftrightarrow> a = b"
proof
  assume h: "to_iso_string a = to_iso_string b"
  obtain y m k t where a: "iso_fields a = (y, m, k, t)" by (cases "iso_fields a")
  obtain y' m' k' t' where b: "iso_fields b = (y', m', k', t')" by (cases "iso_fields b")
  have two: "length (pad_zero 2 x) = 2" if "x < 100" for x using that by (intro length_pad_zero) simp_all
  have three: "length (pad_zero 3 x) = 3" if "x < 1000" for x using that by (intro length_pad_zero) simp_all
  have lens: "length (pad_zero 2 (Suc i)) = 2" "length (pad_zero 2 (Suc j)) = 2"
    "length (pad_zero 2 (s div 3600000)) = 2" "length (pad_zero 2 (s div 60000 mod 60)) = 2"
    "length (pad_zero 2 (s div 1000 mod 60)) = 2" "length (pad_zero 3 (s mod 1000)) = 3"
    if f: "iso_fields c = (x, i, j, s)" for c x i j s
    using iso_fields_bounds [OF f]
    by (auto intro!: two three less_mult_imp_div_less intro: less_trans [OF mod_less_divisor])
  note la = lens [OF a] and lb = lens [OF b]
  define p where "p = (\<lambda>(i :: nat) (j :: nat) (s :: nat). ''-'' @ pad_zero 2 (i + 1) @ ''-'' @ pad_zero 2 (j + 1) @ ''T'' @
        pad_zero 2 (s div 3600000) @ '':'' @ pad_zero 2 (s div 60000 mod 60) @ '':'' @
        pad_zero 2 (s div 1000 mod 60) @ ''.'' @ pad_zero 3 (s mod 1000) @ ''Z'')"
  have "length (p m k t) = length (p m' k' t')" by (simp add: p_def la lb)
  moreover have "year_text y @ p m k t = year_text y' @ p m' k' t'"
    using h by (simp add: to_iso_string_fields a b p_def)
  ultimately have y: "y = y'" and p: "p m k t = p m' k' t'" by simp_all
  have "m = m' \<and> k = k' \<and> t = t'"
    using p la lb unfolding p_def by (auto intro: time_of_day_split simp: append_eq_append_conv)
  with y a b have "iso_fields a = iso_fields b" by simp
  then show "a = b" by (metis ms_of_iso_fields)
qed simp

end
