(* ===== verification/PolicyCacheModel.thy ===== *)
theory PolicyCacheModel
  imports TextForms
begin

text \<open>
  \<open>packages/authorization/infrastructure/cache/in-memory-policy-cache.ts\<close> and
  \<open>resilient-policy-cache.ts\<close>: entries keyed by text that embeds a generation, invalidation
  by advancing a generation, lazy expiry, and the decorator that turns failures into misses.
  The clock is the argument \<open>now\<close>; numbers are written in decimal (\<open>show_nat\<close>).
\<close>

section \<open>InMemoryPolicyCache\<close>

record cache_entry =
  ce_value :: nat
  ce_policy_version :: string
  ce_cached_at :: string
  ce_expires_at :: int

record policy_cache =
  pc_entries :: "(string, cache_entry) js_map"
  pc_generations :: "(string, nat) js_map"
  pc_global_generation :: nat
  pc_default_ttl_seconds :: int

record cache_key =
  ck_resource_type :: string
  ck_action :: string

record cached_policy =
  cp_value :: nat
  cp_policy_version :: string
  cp_cached_at :: string

definition default_policy_cache_ttl_seconds :: int where
  "default_policy_cache_ttl_seconds = 300"

definition policy_cache_new :: "int option \<Rightarrow> policy_cache" where
  "policy_cache_new ttl = \<lparr>pc_entries = [], pc_generations = [], pc_global_generation = 0,
     pc_default_ttl_seconds = or_default ttl default_policy_cache_ttl_seconds\<rparr>"

definition generation_for :: "policy_cache \<Rightarrow> string \<Rightarrow> nat" where
  "generation_for c rt = or_default (map_get (pc_generations c) rt) 0"

definition generation_of :: "policy_cache \<Rightarrow> string \<Rightarrow> string" where
  "generation_of c rt = show_nat (pc_global_generation c) @ '':'' @ show_nat (generation_for c rt)"

definition cache_entry_key :: "policy_cache \<Rightarrow> cache_key \<Rightarrow> string" where
  "cache_entry_key c k =
     generation_of c (ck_resource_type k) @ ''|'' @ ck_resource_type k @ ''|'' @ ck_action k"

definition cache_get :: "int \<Rightarrow> cache_key \<Rightarrow> policy_cache \<Rightarrow> cached_policy option \<times> policy_cache" where
  "cache_get now k c =
     (case map_get (pc_entries c) (cache_entry_key c k) of
        None \<Rightarrow> (None, c)
      | Some e \<Rightarrow>
          (if ce_expires_at e \<le> now
           then (None, c\<lparr>pc_entries := map_delete (cache_entry_key c k) (pc_entries c)\<rparr>)
           else (Some \<lparr>cp_value = ce_value e, cp_policy_version = ce_policy_version e,
                   cp_cached_at = ce_cached_at e\<rparr>, c)))"

definition cache_set ::
  "int \<Rightarrow> cache_key \<Rightarrow> cached_policy \<Rightarrow> int option \<Rightarrow> policy_cache \<Rightarrow> policy_cache" where
  "cache_set now k v ttl c =
     (let ttl_seconds = or_default ttl (pc_default_ttl_seconds c)
      in if ttl_seconds \<le> 0 then c
         else c\<lparr>pc_entries := map_set (cache_entry_key c k)
           \<lparr>ce_value = cp_value v, ce_policy_version = cp_policy_version v,
            ce_cached_at = cp_cached_at v, ce_expires_at = now + ttl_seconds * 1000\<rparr> (pc_entries c)\<rparr>)"

definition cache_invalidate :: "cache_key \<Rightarrow> policy_cache \<Rightarrow> policy_cache" where
  "cache_invalidate k c = c\<lparr>pc_entries := map_delete (cache_entry_key c k) (pc_entries c)\<rparr>"

definition cache_invalidate_resource_type :: "string \<Rightarrow> policy_cache \<Rightarrow> policy_cache" where
  "cache_invalidate_resource_type rt c =
     c\<lparr>pc_generations := map_set rt (generation_for c rt + 1) (pc_generations c)\<rparr>"

definition cache_invalidate_all :: "policy_cache \<Rightarrow> policy_cache" where
  "cache_invalidate_all c = c\<lparr>pc_global_generation := pc_global_generation c + 1\<rparr>"

section \<open>ResilientPolicyCache\<close>

text \<open>
  The decorator over a delegate whose operations may throw (\<open>Inl\<close>); the reports it makes are
  the operation names, appended to a log.
\<close>

definition resilient_get ::
  "('e + 'v option \<times> 'c) \<Rightarrow> 'c \<Rightarrow> string list \<Rightarrow> 'v option \<times> 'c \<times> string list" where
  "resilient_get attempt c reports =
     (case attempt of
        Inl _ \<Rightarrow> (None, c, reports @ [''get''])
      | Inr (v, c') \<Rightarrow> (v, c', reports))"

definition resilient_write ::
  "string \<Rightarrow> ('e + 'c) \<Rightarrow> 'c \<Rightarrow> string list \<Rightarrow> 'c \<times> string list" where
  "resilient_write operation attempt c reports =
     (case attempt of
        Inl _ \<Rightarrow> (c, reports @ [operation])
      | Inr c' \<Rightarrow> (c', reports))"

section \<open>Entry keys\<close>

definition safe_key :: "cache_key \<Rightarrow> bool" where
  "safe_key k \<longleftrightarrow> CHR ''|'' \<notin> set (ck_resource_type k)"

lemma cache_entry_key_inject:
  assumes "safe_key k" "safe_key k'"
  shows "cache_entry_key c k = cache_entry_key c' k' \<longleftrightarrow>
    k = k' \<and> pc_global_generation c = pc_global_generation c' \<and>
    generation_for c (ck_resource_type k) = generation_for c' (ck_resource_type k')"
proof
  assume eq: "cache_entry_key c k = cache_entry_key c' k'"
  have gen: "CHR ''|'' \<notin> set (generation_of d rt)" for d rt
    using show_nat_not_sep(2) by (auto simp: generation_of_def)
  have split: "split_first CHR ''|'' (cache_entry_key d q) =
      Some (generation_of d (ck_resource_type q), ck_resource_type q @ ''|'' @ ck_action q)" for d q
    using split_first_append [OF gen] by (simp add: cache_entry_key_def)
  from split [of c k] split [of c' k'] eq
  have g: "generation_of c (ck_resource_type k) = generation_of c' (ck_resource_type k')"
    and r: "ck_resource_type k @ ''|'' @ ck_action k = ck_resource_type k' @ ''|'' @ ck_action k'"
    by auto
  have sp: "split_first CHR ''|'' (ck_resource_type q @ ''|'' @ ck_action q) =
      Some (ck_resource_type q, ck_action q)" if "safe_key q" for q
    using that split_first_append by (simp add: safe_key_def)
  have "Some (ck_resource_type k, ck_action k) = Some (ck_resource_type k', ck_action k')"
    unfolding sp [OF assms(1), symmetric] sp [OF assms(2), symmetric] r ..
  then have "k = k'" by (cases k; cases k') simp
  moreover have s: "split_first CHR '':'' (generation_of d rt) =
      Some (show_nat (pc_global_generation d), show_nat (generation_for d rt))" for d rt
    using split_first_append [OF show_nat_not_sep(1)] by (simp add: generation_of_def)
  have "Some (show_nat (pc_global_generation c), show_nat (generation_for c (ck_resource_type k))) =
      Some (show_nat (pc_global_generation c'), show_nat (generation_for c' (ck_resource_type k')))"
    unfolding s [symmetric] g ..
  then have "pc_global_generation c = pc_global_generation c' \<and>
    generation_for c (ck_resource_type k) = generation_for c' (ck_resource_type k')"
    by (simp only: option.inject prod.inject show_nat_inject)
  ultimately show "k = k' \<and> pc_global_generation c = pc_global_generation c' \<and>
    generation_for c (ck_resource_type k) = generation_for c' (ck_resource_type k')" by simp
next
  assume h: "k = k' \<and> pc_global_generation c = pc_global_generation c' \<and>
    generation_for c (ck_resource_type k) = generation_for c' (ck_resource_type k')"
  then have "generation_of c (ck_resource_type k) = generation_of c' (ck_resource_type k')"
    unfolding generation_of_def by metis
  then show "cache_entry_key c k = cache_entry_key c' k'" using h by (simp add: cache_entry_key_def)
qed

section \<open>Runs of the cache\<close>

datatype cache_op =
    CacheGet int cache_key
  | CacheSet int cache_key cached_policy "int option"
  | CacheInvalidate cache_key
  | CacheInvalidateType string
  | CacheInvalidateAll

fun cache_step :: "policy_cache \<Rightarrow> cache_op \<Rightarrow> policy_cache" where
  "cache_step c (CacheGet now k) = snd (cache_get now k c)"
| "cache_step c (CacheSet now k v ttl) = cache_set now k v ttl c"
| "cache_step c (CacheInvalidate k) = cache_invalidate k c"
| "cache_step c (CacheInvalidateType rt) = cache_invalidate_resource_type rt c"
| "cache_step c CacheInvalidateAll = cache_invalidate_all c"

fun op_key :: "cache_op \<Rightarrow> cache_key option" where
  "op_key (CacheSet _ k _ _) = Some k"
| "op_key _ = None"

definition ops_safe :: "cache_op list \<Rightarrow> bool" where
  "ops_safe ops \<longleftrightarrow> (\<forall>op \<in> set ops. \<forall>k. op_key op = Some k \<longrightarrow> safe_key k)"

text \<open>
  Every stored key was written under a generation that is not in the future: the fact that
  makes a bump unreachable for everything already stored.
\<close>

definition cache_inv :: "policy_cache \<Rightarrow> bool" where
  "cache_inv c \<longleftrightarrow> (\<forall>t e. map_get (pc_entries c) t = Some e \<longrightarrow>
     (\<exists>k d. safe_key k \<and> t = cache_entry_key d k \<and>
        (pc_global_generation d < pc_global_generation c \<or>
         pc_global_generation d = pc_global_generation c \<and>
         generation_for d (ck_resource_type k) \<le> generation_for c (ck_resource_type k))))"

lemma cache_inv_mono:
  assumes "cache_inv c"
    and sub: "\<And>t e. map_get (pc_entries c') t = Some e \<Longrightarrow> \<exists>e'. map_get (pc_entries c) t = Some e'"
    and gg: "pc_global_generation c \<le> pc_global_generation c'"
    and gr: "\<And>rt. generation_for c rt \<le> generation_for c' rt"
  shows "cache_inv c'"
  unfolding cache_inv_def
proof (intro allI impI)
  fix t e
  assume "map_get (pc_entries c') t = Some e"
  with sub assms(1) obtain k d where k: "safe_key k" "t = cache_entry_key d k"
    "pc_global_generation d < pc_global_generation c \<or>
     pc_global_generation d = pc_global_generation c \<and>
     generation_for d (ck_resource_type k) \<le> generation_for c (ck_resource_type k)"
    unfolding cache_inv_def by blast
  then have "pc_global_generation d < pc_global_generation c' \<or>
     pc_global_generation d = pc_global_generation c' \<and>
     generation_for d (ck_resource_type k) \<le> generation_for c' (ck_resource_type k)"
    using gg gr [of "ck_resource_type k"] by linarith
  with k show "\<exists>k d. safe_key k \<and> t = cache_entry_key d k \<and>
        (pc_global_generation d < pc_global_generation c' \<or>
         pc_global_generation d = pc_global_generation c' \<and>
         generation_for d (ck_resource_type k) \<le> generation_for c' (ck_resource_type k))" by blast
qed

lemma generation_for_invalidate:
  "generation_for (cache_invalidate_resource_type rt c) rt' =
     (if rt' = rt then generation_for c rt + 1 else generation_for c rt')"
  by (simp add: generation_for_def cache_invalidate_resource_type_def)

lemma cache_step_inv:
  assumes "cache_inv c" "ops_safe [op]"
  shows "cache_inv (cache_step c op)"
proof (cases op)
  case (CacheGet now k)
  have "cache_inv (snd (cache_get now k c))"
    by (rule cache_inv_mono [OF assms(1)])
      (auto simp: cache_get_def generation_for_def split: option.splits if_splits)
  with CacheGet show ?thesis by simp
next
  case (CacheSet now k v ttl)
  show ?thesis
  proof (cases "or_default ttl (pc_default_ttl_seconds c) \<le> 0")
    case True
    then show ?thesis using CacheSet assms(1) by (simp add: cache_set_def)
  next
    case False
    have k: "safe_key k" using assms(2) CacheSet by (simp add: ops_safe_def)
    have "pc_global_generation (cache_set now k v ttl c) = pc_global_generation c"
      and "\<And>rt. generation_for (cache_set now k v ttl c) rt = generation_for c rt"
      by (simp_all add: cache_set_def Let_def generation_for_def)
    moreover have "map_get (pc_entries (cache_set now k v ttl c)) t = Some e \<Longrightarrow>
        t = cache_entry_key c k \<or> map_get (pc_entries c) t = Some e" for t e
      using False by (auto simp: cache_set_def Let_def split: if_splits)
    ultimately show ?thesis
      using assms(1) k unfolding CacheSet cache_step.simps cache_inv_def by (metis order_refl)
  qed
next
  case (CacheInvalidate k)
  have "cache_inv (cache_invalidate k c)"
    by (rule cache_inv_mono [OF assms(1)])
      (auto simp: cache_invalidate_def generation_for_def split: if_splits)
  with CacheInvalidate show ?thesis by simp
next
  case (CacheInvalidateType rt)
  have "cache_inv (cache_invalidate_resource_type rt c)"
    by (rule cache_inv_mono [OF assms(1)])
      (auto simp: generation_for_invalidate, auto simp: cache_invalidate_resource_type_def)
  with CacheInvalidateType show ?thesis by simp
next
  case CacheInvalidateAll
  have "cache_inv (cache_invalidate_all c)"
    by (rule cache_inv_mono [OF assms(1)])
      (auto simp: cache_invalidate_all_def generation_for_def)
  with CacheInvalidateAll show ?thesis by simp
qed

lemma cache_run_inv:
  "cache_inv c \<Longrightarrow> ops_safe ops \<Longrightarrow> cache_inv (foldl cache_step c ops)"
proof (induction ops arbitrary: c)
  case (Cons op ops)
  then have "cache_inv (cache_step c op)" "ops_safe ops"
    using cache_step_inv by (auto simp: ops_safe_def)
  then show ?case using Cons.IH by simp
qed simp

lemma cache_new_inv: "cache_inv (policy_cache_new ttl)"
  by (simp add: cache_inv_def policy_cache_new_def)

lemma cache_miss_after_type:
  assumes "cache_inv c" "safe_key k" "ck_resource_type k = rt"
  shows "fst (cache_get now k (cache_invalidate_resource_type rt c)) = None"
proof -
  let ?c = "cache_invalidate_resource_type rt c"
  have "map_get (pc_entries ?c) (cache_entry_key ?c k) = None"
  proof (rule ccontr)
    assume "map_get (pc_entries ?c) (cache_entry_key ?c k) \<noteq> None"
    then obtain e where "map_get (pc_entries c) (cache_entry_key ?c k) = Some e"
      by (auto simp: cache_invalidate_resource_type_def)
    with assms(1) obtain q d where q: "safe_key q" "cache_entry_key ?c k = cache_entry_key d q"
      "pc_global_generation d < pc_global_generation c \<or>
       pc_global_generation d = pc_global_generation c \<and>
       generation_for d (ck_resource_type q) \<le> generation_for c (ck_resource_type q)"
      unfolding cache_inv_def by blast
    then have "k = q" "pc_global_generation ?c = pc_global_generation d"
      "generation_for ?c (ck_resource_type k) = generation_for d (ck_resource_type q)"
      using cache_entry_key_inject [OF assms(2) q(1)] by auto
    with q(3) assms(3) show False
      by (simp add: generation_for_invalidate) (simp add: cache_invalidate_resource_type_def)
  qed
  then show ?thesis by (simp add: cache_get_def)
qed

lemma cache_miss_after_all:
  assumes "cache_inv c" "safe_key k"
  shows "fst (cache_get now k (cache_invalidate_all c)) = None"
proof -
  let ?c = "cache_invalidate_all c"
  have "map_get (pc_entries ?c) (cache_entry_key ?c k) = None"
  proof (rule ccontr)
    assume "map_get (pc_entries ?c) (cache_entry_key ?c k) \<noteq> None"
    then obtain e where "map_get (pc_entries c) (cache_entry_key ?c k) = Some e"
      by (auto simp: cache_invalidate_all_def)
    with assms(1) obtain q d where q: "safe_key q" "cache_entry_key ?c k = cache_entry_key d q"
      "pc_global_generation d \<le> pc_global_generation c"
      unfolding cache_inv_def by (metis less_or_eq_imp_le)
    then have "pc_global_generation ?c = pc_global_generation d"
      using cache_entry_key_inject [OF assms(2) q(1)] by auto
    with q(3) show False by (simp add: cache_invalidate_all_def)
  qed
  then show ?thesis by (simp add: cache_get_def)
qed

lemma cache_get_set:
  assumes "0 < or_default ttl (pc_default_ttl_seconds c)"
  shows "fst (cache_get t k (cache_set now k v ttl c)) =
    (if t < now + or_default ttl (pc_default_ttl_seconds c) * 1000
     then Some \<lparr>cp_value = cp_value v, cp_policy_version = cp_policy_version v,
       cp_cached_at = cp_cached_at v\<rparr> else None)"
proof -
  have "cache_entry_key (cache_set now k v ttl c) k = cache_entry_key c k"
    by (simp add: cache_set_def Let_def cache_entry_key_def generation_of_def generation_for_def)
  then show ?thesis using assms by (simp add: cache_get_def) (simp add: cache_set_def Let_def)
qed

section \<open>Refinement\<close>

text \<open>
  The abstract cache: one optional entry per key. Invalidating a resource type, or all,
  forgets the entries; the code only bumps a generation and leaves them unreachable.
\<close>

type_synonym abstract_cache = "cache_key \<Rightarrow> cache_entry option"

fun abstract_cache_step :: "int \<Rightarrow> abstract_cache \<Rightarrow> cache_op \<Rightarrow> abstract_cache" where
  "abstract_cache_step ttl0 m (CacheGet now k) =
     (case m k of None \<Rightarrow> m | Some e \<Rightarrow> if ce_expires_at e \<le> now then m(k := None) else m)"
| "abstract_cache_step ttl0 m (CacheSet now k v ttl) =
     (if or_default ttl ttl0 \<le> 0 then m
      else m(k \<mapsto> \<lparr>ce_value = cp_value v, ce_policy_version = cp_policy_version v,
        ce_cached_at = cp_cached_at v, ce_expires_at = now + or_default ttl ttl0 * 1000\<rparr>))"
| "abstract_cache_step ttl0 m (CacheInvalidate k) = m(k := None)"
| "abstract_cache_step ttl0 m (CacheInvalidateType rt) =
     (\<lambda>k. if ck_resource_type k = rt then None else m k)"
| "abstract_cache_step ttl0 m CacheInvalidateAll = (\<lambda>k. None)"

definition abstract_cache_get :: "int \<Rightarrow> cache_key \<Rightarrow> abstract_cache \<Rightarrow> cached_policy option" where
  "abstract_cache_get now k m =
     (case m k of None \<Rightarrow> None
      | Some e \<Rightarrow> (if ce_expires_at e \<le> now then None
          else Some \<lparr>cp_value = ce_value e, cp_policy_version = ce_policy_version e,
                  cp_cached_at = ce_cached_at e\<rparr>))"

fun op_in_scope :: "cache_op \<Rightarrow> bool" where
  "op_in_scope (CacheGet _ k) = safe_key k"
| "op_in_scope (CacheSet _ k _ _) = safe_key k"
| "op_in_scope (CacheInvalidate k) = safe_key k"
| "op_in_scope _ = True"

definition cache_abs :: "policy_cache \<Rightarrow> abstract_cache" where
  "cache_abs c k = map_get (pc_entries c) (cache_entry_key c k)"

lemma cache_entry_key_same:
  assumes "safe_key k" "safe_key k'"
  shows "cache_entry_key c k = cache_entry_key c k' \<longleftrightarrow> k = k'"
  using cache_entry_key_inject [OF assms] by auto

lemma cache_entry_key_entries [simp]:
  "cache_entry_key (c\<lparr>pc_entries := es\<rparr>) k = cache_entry_key c k"
  by (simp add: cache_entry_key_def generation_of_def generation_for_def)

lemma cache_step_ttl [simp]: "pc_default_ttl_seconds (cache_step c op) = pc_default_ttl_seconds c"
  by (cases op) (auto simp: cache_get_def cache_set_def cache_invalidate_def Let_def
      cache_invalidate_resource_type_def cache_invalidate_all_def split: option.split)

lemma cache_abs_miss:
  "fst (cache_get now k c) = None \<Longrightarrow> (\<forall>e. map_get (pc_entries c) (cache_entry_key c k) = Some e \<longrightarrow>
     now < ce_expires_at e) \<Longrightarrow> cache_abs c k = None"
  by (auto simp: cache_get_def cache_abs_def split: option.splits if_splits)

lemma cache_abs_invalidated:
  assumes "cache_inv c" "safe_key k"
  shows "cache_abs (cache_invalidate_all c) k = None"
    and "ck_resource_type k = rt \<Longrightarrow> cache_abs (cache_invalidate_resource_type rt c) k = None"
proof -
  have "\<exists>now. \<forall>e. map_get es t = Some e \<longrightarrow> now < ce_expires_at e"
    for es :: "(string, cache_entry) js_map" and t
    by (cases "map_get es t") (auto intro: lt_ex)
  then show "cache_abs (cache_invalidate_all c) k = None"
    and "ck_resource_type k = rt \<Longrightarrow> cache_abs (cache_invalidate_resource_type rt c) k = None"
    using cache_abs_miss cache_miss_after_all [OF assms] cache_miss_after_type [OF assms] by metis+
qed

lemma cache_step_abs:
  assumes "cache_inv c" "op_in_scope op" "safe_key k"
  shows "cache_abs (cache_step c op) k =
    abstract_cache_step (pc_default_ttl_seconds c) (cache_abs c) op k"
proof (cases op)
  case (CacheGet now q)
  have "safe_key q" using assms(2) CacheGet by simp
  then show ?thesis
    using cache_entry_key_same [OF assms(3), of q c]
    by (simp add: CacheGet cache_get_def cache_abs_def split: option.split)
next
  case (CacheSet now q v ttl)
  have "safe_key q" using assms(2) CacheSet by simp
  then show ?thesis
    using cache_entry_key_same [OF assms(3), of q c]
    by (simp add: CacheSet cache_set_def Let_def cache_abs_def)
next
  case (CacheInvalidate q)
  have "safe_key q" using assms(2) CacheInvalidate by simp
  then show ?thesis
    using cache_entry_key_same [OF assms(3), of q c]
    by (simp add: CacheInvalidate cache_invalidate_def cache_abs_def)
next
  case (CacheInvalidateType rt)
  have "cache_entry_key (cache_invalidate_resource_type rt c) k = cache_entry_key c k"
    if "ck_resource_type k \<noteq> rt"
    using that generation_for_invalidate [of rt c]
    by (simp add: cache_entry_key_def generation_of_def) (simp add: cache_invalidate_resource_type_def)
  then have "cache_abs (cache_invalidate_resource_type rt c) k = cache_abs c k"
    if "ck_resource_type k \<noteq> rt"
    using that by (simp add: cache_abs_def) (simp add: cache_invalidate_resource_type_def)
  then show ?thesis
    using cache_abs_invalidated(2) [OF assms(1,3), of rt]
    by (cases "ck_resource_type k = rt") (simp_all add: CacheInvalidateType)
next
  case CacheInvalidateAll
  then show ?thesis using cache_abs_invalidated(1) [OF assms(1,3)] by simp
qed

lemma ops_in_scope_safe: "list_all op_in_scope ops \<Longrightarrow> ops_safe ops"
proof -
  have "op_in_scope op \<Longrightarrow> op_key op = Some k \<Longrightarrow> safe_key k" for op k by (cases op) auto
  then show "list_all op_in_scope ops \<Longrightarrow> ops_safe ops" by (auto simp: ops_safe_def list_all_iff)
qed

lemma abstract_cache_step_cong:
  assumes "\<forall>k. safe_key k \<longrightarrow> m k = n k" "op_in_scope op" "safe_key k"
  shows "abstract_cache_step ttl0 m op k = abstract_cache_step ttl0 n op k"
  using assms by (cases op) (auto split: option.split)

lemma cache_run_abs:
  assumes "cache_inv c" "list_all op_in_scope ops" "\<forall>k. safe_key k \<longrightarrow> m k = cache_abs c k" "safe_key k"
  shows "cache_abs (foldl cache_step c ops) k =
    foldl (abstract_cache_step (pc_default_ttl_seconds c)) m ops k"
  using assms
proof (induction ops arbitrary: c m)
  case (Cons op ops)
  have inv: "cache_inv (cache_step c op)"
    using cache_step_inv [OF Cons.prems(1)] ops_in_scope_safe [of "[op]"] Cons.prems(2) by simp
  have "\<forall>k. safe_key k \<longrightarrow> abstract_cache_step (pc_default_ttl_seconds c) m op k =
      cache_abs (cache_step c op) k"
    using cache_step_abs [OF Cons.prems(1)] abstract_cache_step_cong [OF Cons.prems(3)] Cons.prems(2)
    by simp
  from Cons.IH [OF inv _ this Cons.prems(4)] Cons.prems(2) show ?case by simp
qed simp

section \<open>Properties\<close>

text \<open>
  C5: Refinement: for resource types without the separator \<open>|\<close>, after any sequence of reads,
  writes and invalidations the in-memory cache answers every read as the abstract cache does,
  in which invalidating a resource type or everything forgets the entries at once and an
  entry is readable until its time to live has passed.
\<close>

theorem policy_cache_refines:
  assumes "list_all op_in_scope ops" and "CHR ''|'' \<notin> set (ck_resource_type k)"
  shows "fst (cache_get now k (foldl cache_step (policy_cache_new ttl) ops)) =
    abstract_cache_get now k
      (foldl (abstract_cache_step (or_default ttl default_policy_cache_ttl_seconds)) (\<lambda>_. None) ops)"
proof -
  have k: "safe_key k" using assms(2) by (simp add: safe_key_def)
  have "\<forall>k. safe_key k \<longrightarrow> None = cache_abs (policy_cache_new ttl) k"
    by (simp add: cache_abs_def policy_cache_new_def)
  from cache_run_abs [OF cache_new_inv assms(1) this k]
  have "map_get (pc_entries (foldl cache_step (policy_cache_new ttl) ops))
      (cache_entry_key (foldl cache_step (policy_cache_new ttl) ops) k) =
      foldl (abstract_cache_step (or_default ttl default_policy_cache_ttl_seconds)) (\<lambda>_. None) ops k"
    by (simp add: cache_abs_def [of "foldl cache_step (policy_cache_new ttl) ops"])
      (simp add: policy_cache_new_def)
  then show ?thesis by (simp add: cache_get_def abstract_cache_get_def split: option.split)
qed

theorem policy_cache_refines_witness:
  "fst (cache_get 5 \<lparr>ck_resource_type = ''document'', ck_action = ''read''\<rparr>
     (foldl cache_step (policy_cache_new None)
       [CacheSet 0 \<lparr>ck_resource_type = ''document'', ck_action = ''read''\<rparr>
          \<lparr>cp_value = 1, cp_policy_version = ''1'', cp_cached_at = ''''\<rparr> None,
        CacheInvalidateType ''document''])) = None"
  by (subst policy_cache_refines)
    (simp_all add: safe_key_def abstract_cache_get_def default_policy_cache_ttl_seconds_def or_default_def)

text \<open>
  Where the refinement stops: with \<open>|\<close> in a resource type two different keys share an
  entry, so a read of one returns the policy stored for the other.
\<close>

theorem policy_cache_key_collision:
  "fst (cache_get 5 \<lparr>ck_resource_type = ''a'', ck_action = ''b|read''\<rparr>
     (cache_set 0 \<lparr>ck_resource_type = ''a|b'', ck_action = ''read''\<rparr>
        \<lparr>cp_value = 7, cp_policy_version = ''1'', cp_cached_at = ''''\<rparr> None (policy_cache_new None))) =
   Some \<lparr>cp_value = 7, cp_policy_version = ''1'', cp_cached_at = ''''\<rparr>"
  by code_simp

end
