(* ===== verification/Identity.thy ===== *)
theory Identity
  imports Prelude
begin

text \<open>
  The identity context, \<open>packages/identity\<close>: the value objects \<open>Email\<close>, \<open>DisplayName\<close> and
  \<open>PersonName\<close>, the \<open>User\<close> aggregate with its status machine, the in-memory user repository,
  the shared kernel's \<open>ValidationErrorAggregator\<close>, and the use cases \<open>RegisterUser\<close>,
  \<open>SuspendUser\<close>, \<open>ReactivateUser\<close> and \<open>UpdateUserProfile\<close>. A use case is a function of the
  user store; \<open>new Date()\<close> and \<open>randomUUID()\<close> are arguments.
\<close>

section \<open>Value objects\<close>

text \<open>The regular expression \<open>^[^\s@]+@[^\s@]+\.[^\s@]+$\<close>.\<close>

definition email_char :: "char \<Rightarrow> bool" where
  "email_char c \<longleftrightarrow> \<not> js_ws c \<and> c \<noteq> CHR ''@''"

definition email_pattern :: "string \<Rightarrow> bool" where
  "email_pattern s =
     (case js_split CHR ''@'' s of
        [local_part, domain] \<Rightarrow>
          local_part \<noteq> [] \<and> list_all email_char local_part \<and> list_all email_char domain \<and>
          CHR ''.'' \<in> set (butlast (tl domain))
      | _ \<Rightarrow> False)"

definition email_create :: "string \<Rightarrow> string result" where
  "email_create raw =
     (let normalized = js_lower (js_trim raw)
      in if length normalized = 0 then Inl (ValidationError [(''email'', [''required''])])
         else if length normalized > 254 then Inl (ValidationError [(''email'', [''too_long''])])
         else if \<not> email_pattern normalized
         then Inl (ValidationError [(''email'', [''invalid_format''])])
         else Inr normalized)"

definition display_name_create :: "string \<Rightarrow> string result" where
  "display_name_create raw =
     (let normalized = js_trim raw
      in if length normalized < 1 then Inl (ValidationError [(''displayName'', [''required''])])
         else if length normalized > 64 then Inl (ValidationError [(''displayName'', [''too_long''])])
         else Inr normalized)"

record person_name =
  pn_given :: string
  pn_family :: "string option"

definition person_name_create :: "string \<Rightarrow> string option \<Rightarrow> person_name result" where
  "person_name_create given family =
     (let normalized_given = js_trim given;
          normalized_family = map_option js_trim family;
          field_errors =
            (if length normalized_given = 0 then [(''givenName'', [''required''])]
             else if length normalized_given > 128 then [(''givenName'', [''too_long''])] else []) @
            (case normalized_family of
               Some f \<Rightarrow> (if length f > 128 then [(''familyName'', [''too_long''])] else [])
             | None \<Rightarrow> [])
      in if length field_errors > 0 then Inl (ValidationError field_errors)
         else Inr \<lparr>pn_given = normalized_given,
           pn_family = (if normalized_family = Some '''' then None else normalized_family)\<rparr>)"

definition to_full_name :: "person_name \<Rightarrow> string" where
  "to_full_name p =
     (case pn_family p of None \<Rightarrow> pn_given p | Some f \<Rightarrow> pn_given p @ '' '' @ f)"

section \<open>The User aggregate\<close>

datatype user_status = UPending | UActive | USuspended | UDeleted

fun status_name :: "user_status \<Rightarrow> string" where
  "status_name UPending = ''pending''"
| "status_name UActive = ''active''"
| "status_name USuspended = ''suspended''"
| "status_name UDeleted = ''deleted''"

fun allowed_transitions :: "user_status \<Rightarrow> user_status list" where
  "allowed_transitions UPending = [UActive, UDeleted]"
| "allowed_transitions UActive = [USuspended, UDeleted]"
| "allowed_transitions USuspended = [UActive, UDeleted]"
| "allowed_transitions UDeleted = []"

datatype user_event =
    UserRegistered string string
  | UserStatusChanged string user_status user_status "string option"
  | UserProfileUpdated string

record user =
  u_id :: string
  u_email :: string
  u_display_name :: string
  u_person_name :: "person_name option"
  u_status :: user_status
  u_created_at :: int
  u_updated_at :: int
  u_deleted_at :: "int option"
  u_events :: "user_event list"

definition user_register :: "string \<Rightarrow> int \<Rightarrow> string \<Rightarrow> string \<Rightarrow> person_name option \<Rightarrow> user" where
  "user_register fresh now email display person =
     \<lparr>u_id = fresh, u_email = email, u_display_name = display, u_person_name = person,
      u_status = UPending, u_created_at = now, u_updated_at = now, u_deleted_at = None,
      u_events = [UserRegistered fresh email]\<rparr>"

text \<open>\<open>reconstitute\<close> throws (\<open>None\<close>) where status and \<open>deletedAt\<close> disagree.\<close>

definition user_reconstitute :: "user \<Rightarrow> user option" where
  "user_reconstitute props =
     (if (u_status props = UDeleted) \<noteq> (u_deleted_at props \<noteq> None) then None
      else Some (props\<lparr>u_events := []\<rparr>))"

definition user_transition_to :: "int \<Rightarrow> user_status \<Rightarrow> string option \<Rightarrow> user \<Rightarrow> user result" where
  "user_transition_to now next_status reason u =
     (if next_status \<notin> set (allowed_transitions (u_status u))
      then Inl (ValidationError [(''status'',
        [''invalid_transition_from_'' @ status_name (u_status u)])])
      else Inr (u\<lparr>u_status := next_status, u_updated_at := now,
        u_events := [UserStatusChanged (u_id u) (u_status u) next_status reason]\<rparr>))"

definition user_activate :: "int \<Rightarrow> string option \<Rightarrow> user \<Rightarrow> user result" where
  "user_activate now reason u = user_transition_to now UActive reason u"

definition user_suspend :: "int \<Rightarrow> string option \<Rightarrow> user \<Rightarrow> user result" where
  "user_suspend now reason u = user_transition_to now USuspended reason u"

definition user_delete :: "int \<Rightarrow> string option \<Rightarrow> user \<Rightarrow> user result" where
  "user_delete now reason u =
     (case user_transition_to now UDeleted reason u of
        Inl e \<Rightarrow> Inl e
      | Inr v \<Rightarrow> Inr (v\<lparr>u_deleted_at := Some (u_updated_at v)\<rparr>))"

definition user_update_profile :: "int \<Rightarrow> string \<Rightarrow> person_name option \<Rightarrow> user \<Rightarrow> user" where
  "user_update_profile now display person u =
     u\<lparr>u_display_name := display, u_person_name := person, u_updated_at := now,
       u_events := [UserProfileUpdated (u_id u)]\<rparr>"

definition user_is_deleted :: "user \<Rightarrow> bool" where
  "user_is_deleted u \<longleftrightarrow> u_status u = UDeleted"

section \<open>The user repository\<close>

type_synonym user_store = "(string, user) js_map"

definition users_find_by_id :: "user_store \<Rightarrow> string \<Rightarrow> user option" where
  "users_find_by_id m i =
     (case map_get m i of None \<Rightarrow> None | Some u \<Rightarrow> (if user_is_deleted u then None else Some u))"

definition users_find_including_deleted :: "user_store \<Rightarrow> string \<Rightarrow> user option" where
  "users_find_including_deleted m i = map_get m i"

definition users_find_many :: "user_store \<Rightarrow> string list \<Rightarrow> user list" where
  "users_find_many m ids = filter (\<lambda>u. u_id u \<in> set ids \<and> \<not> user_is_deleted u) (map_values m)"

definition users_find_by_email :: "user_store \<Rightarrow> string \<Rightarrow> user option" where
  "users_find_by_email m email = find (\<lambda>u. u_email u = email \<and> \<not> user_is_deleted u) (map_values m)"

definition users_save :: "user \<Rightarrow> user_store \<Rightarrow> user_store" where
  "users_save u m = map_set (u_id u) u m"

definition users_exists_by_email :: "user_store \<Rightarrow> string \<Rightarrow> bool" where
  "users_exists_by_email m email = list_ex (\<lambda>u. u_email u = email) (map_values m)"

section \<open>ValidationErrorAggregator\<close>

type_synonym error_aggregate = "(string, string list) js_map"

definition aggregate_merge :: "(string \<times> string list) list \<Rightarrow> error_aggregate \<Rightarrow> error_aggregate" where
  "aggregate_merge field_errors m =
     fold (\<lambda>(field, messages) a. map_set field (or_default (map_get a field) [] @ messages) a)
       field_errors m"

text \<open>\<open>collect\<close> takes results whose error is a \<open>ValidationError\<close>, as its type says.\<close>

definition aggregate_collect :: "'a result \<Rightarrow> error_aggregate \<Rightarrow> 'a option \<times> error_aggregate" where
  "aggregate_collect r m =
     (case r of
        Inr v \<Rightarrow> (Some v, m)
      | Inl (ValidationError field_errors) \<Rightarrow> (None, aggregate_merge field_errors m)
      | Inl _ \<Rightarrow> (None, m))"

definition aggregate_has_errors :: "error_aggregate \<Rightarrow> bool" where
  "aggregate_has_errors m \<longleftrightarrow> length m > 0"

definition aggregate_to_error :: "error_aggregate \<Rightarrow> domain_error" where
  "aggregate_to_error m = ValidationError m"

section \<open>Use cases\<close>

record register_user_command =
  ruc_email :: string
  ruc_display_name :: string
  ruc_given :: "string option"
  ruc_family :: "string option"

definition optional_person_name :: "string option \<Rightarrow> string option \<Rightarrow> person_name option result" where
  "optional_person_name given family =
     (case given of
        None \<Rightarrow> Inr None
      | Some g \<Rightarrow> (case person_name_create g family of Inl e \<Rightarrow> Inl e | Inr p \<Rightarrow> Inr (Some p)))"

definition register_user_execute ::
  "string \<Rightarrow> int \<Rightarrow> register_user_command \<Rightarrow> user_store \<Rightarrow> user result \<times> user_store" where
  "register_user_execute fresh now cmd m =
     (case email_create (ruc_email cmd) of
        Inl e \<Rightarrow> (Inl e, m)
      | Inr email \<Rightarrow>
          (case display_name_create (ruc_display_name cmd) of
             Inl e \<Rightarrow> (Inl e, m)
           | Inr display \<Rightarrow>
               (case optional_person_name (ruc_given cmd) (ruc_family cmd) of
                  Inl e \<Rightarrow> (Inl e, m)
                | Inr person \<Rightarrow>
                    (if users_exists_by_email m email then (Inl ConflictError, m)
                     else let u = user_register fresh now email display person
                          in (Inr u, users_save u m)))))"

definition suspend_user_execute ::
  "int \<Rightarrow> string \<Rightarrow> string \<Rightarrow> user_store \<Rightarrow> user result \<times> user_store" where
  "suspend_user_execute now user_id raw_reason m =
     (case users_find_by_id m user_id of
        None \<Rightarrow> (Inl NotFoundError, m)
      | Some u \<Rightarrow>
          (let reason = js_trim raw_reason
           in if length reason = 0 then (Inl (ValidationError [(''reason'', [''required''])]), m)
              else case user_suspend now (Some reason) u of
                Inl e \<Rightarrow> (Inl e, m)
              | Inr v \<Rightarrow> (Inr v, users_save v m)))"

definition reactivate_user_execute ::
  "int \<Rightarrow> string \<Rightarrow> string \<Rightarrow> user_store \<Rightarrow> user result \<times> user_store" where
  "reactivate_user_execute now user_id raw_reason m =
     (case users_find_by_id m user_id of
        None \<Rightarrow> (Inl NotFoundError, m)
      | Some u \<Rightarrow>
          (if u_status u \<noteq> USuspended
           then (Inl (ValidationError [(''status'', [''not_suspended''])]), m)
           else let reason = js_trim raw_reason
                in if length reason = 0
                   then (Inl (ValidationError [(''reason'', [''required''])]), m)
                   else case user_activate now (Some reason) u of
                     Inl e \<Rightarrow> (Inl e, m)
                   | Inr v \<Rightarrow> (Inr v, users_save v m)))"

record update_profile_command =
  upc_user_id :: string
  upc_display_name :: "string option"
  upc_given :: "string option"
  upc_family :: "string option"

definition update_profile_execute ::
  "int \<Rightarrow> update_profile_command \<Rightarrow> user_store \<Rightarrow> user result \<times> user_store" where
  "update_profile_execute now cmd m =
     (case users_find_by_id m (upc_user_id cmd) of
        None \<Rightarrow> (Inl NotFoundError, m)
      | Some u \<Rightarrow>
          (let (display, errors1) =
                 (case upc_display_name cmd of
                    None \<Rightarrow> (u_display_name u, [])
                  | Some raw \<Rightarrow>
                      (case aggregate_collect (display_name_create raw) [] of
                         (Some d, a) \<Rightarrow> (d, a)
                       | (None, a) \<Rightarrow> (u_display_name u, a)));
               (person, errors2) =
                 (case upc_given cmd of
                    None \<Rightarrow> (u_person_name u, errors1)
                  | Some given \<Rightarrow>
                      (case aggregate_collect (person_name_create given (upc_family cmd)) errors1 of
                         (Some p, a) \<Rightarrow> (Some p, a)
                       | (None, a) \<Rightarrow> (u_person_name u, a)))
           in if aggregate_has_errors errors2 then (Inl (aggregate_to_error errors2), m)
              else let v = user_update_profile now display person u
                   in (Inr v, users_save v m)))"

section \<open>The directory invariant\<close>

lemma email_create_Inr:
  "email_create raw = Inr e \<Longrightarrow> e = js_lower (js_trim raw) \<and> email_create e = Inr e"
  by (auto simp: email_create_def Let_def js_lower_trim split: if_splits)



definition user_wf :: "user \<Rightarrow> bool" where
  "user_wf u \<longleftrightarrow> email_create (u_email u) = Inr (u_email u) \<and> u_display_name u \<noteq> [] \<and>
     (u_status u = UDeleted \<longleftrightarrow> u_deleted_at u \<noteq> None)"

lemma user_register_wf [wf_intros]:
  "email_create raw = Inr e \<Longrightarrow> display_name_create d = Inr n \<Longrightarrow> user_wf (user_register fresh now e n p)"
  using email_create_Inr
  by (auto simp: user_wf_def user_register_def display_name_create_def Let_def split: if_splits)

lemma user_transition_to_Inr:
  "user_transition_to now n reason u = Inr v \<Longrightarrow>
     u_id v = u_id u \<and> u_email v = u_email u \<and> u_display_name v = u_display_name u \<and>
     u_deleted_at v = u_deleted_at u \<and> u_status v = n \<and> n \<in> set (allowed_transitions (u_status u))"
  by (auto simp: user_transition_to_def split: if_splits)

lemma user_activate_wf [wf_intros]: "user_activate now r u = Inr v \<Longrightarrow> user_wf u \<Longrightarrow> user_wf v"
  using user_transition_to_Inr [of now UActive r u v]
  by (cases "u_status u") (auto simp: user_wf_def user_activate_def)

lemma user_suspend_wf [wf_intros]: "user_suspend now r u = Inr v \<Longrightarrow> user_wf u \<Longrightarrow> user_wf v"
  using user_transition_to_Inr [of now USuspended r u v]
  by (cases "u_status u") (auto simp: user_wf_def user_suspend_def)

lemma user_delete_Inr:
  assumes "user_delete now r u = Inr v"
  shows "u_id v = u_id u \<and> u_email v = u_email u \<and> u_display_name v = u_display_name u \<and>
    u_status v = UDeleted \<and> u_deleted_at v \<noteq> None"
  using assms user_transition_to_Inr by (fastforce simp: user_delete_def split: sum.splits)

lemma user_delete_wf [wf_intros]: "user_delete now r u = Inr v \<Longrightarrow> user_wf u \<Longrightarrow> user_wf v"
  using user_delete_Inr by (auto simp: user_wf_def)

lemma user_update_profile_wf [wf_intros]: "d \<noteq> [] \<Longrightarrow> user_wf u \<Longrightarrow> user_wf (user_update_profile now d p u)"
  by (simp add: user_wf_def user_update_profile_def)

lemma user_reconstitute_wf: "user_wf u \<Longrightarrow> user_reconstitute u = Some (u\<lparr>u_events := []\<rparr>)"
  by (auto simp: user_wf_def user_reconstitute_def)

text \<open>Ids match, every user is well formed, and no two users share an email, deleted or not.\<close>

definition directory_inv :: "user_store \<Rightarrow> bool" where
  "directory_inv m \<longleftrightarrow> map_wf m \<and> (\<forall>i u. map_get m i = Some u \<longrightarrow> u_id u = i \<and> user_wf u) \<and>
     (\<forall>i j u v. map_get m i = Some u \<longrightarrow> map_get m j = Some v \<longrightarrow> u_email u = u_email v \<longrightarrow> i = j)"

lemma directory_inv_Nil [simp]: "directory_inv []"
  by (simp add: directory_inv_def)

lemma directory_values: "directory_inv m \<Longrightarrow> u \<in> set (map_values m) \<longleftrightarrow> map_get m (u_id u) = Some u"
  by (auto simp: directory_inv_def map_values_iff)

lemma users_find_by_id_iff:
  "users_find_by_id m i = Some u \<longleftrightarrow> map_get m i = Some u \<and> u_status u \<noteq> UDeleted"
  by (auto simp: users_find_by_id_def user_is_deleted_def split: option.splits if_splits)

lemma directory_invD: "directory_inv m \<Longrightarrow> map_get m i = Some u \<Longrightarrow> u_id u = i \<and> user_wf u"
  by (simp add: directory_inv_def)

lemma directory_unique:
  "directory_inv m \<Longrightarrow> map_get m i = Some u \<Longrightarrow> map_get m j = Some v \<Longrightarrow> u_email u = u_email v \<Longrightarrow> i = j"
  unfolding directory_inv_def by blast

lemma users_exists_by_email_iff:
  assumes "directory_inv m"
  shows "users_exists_by_email m e \<longleftrightarrow> (\<exists>i u. map_get m i = Some u \<and> u_email u = e)"
  unfolding users_exists_by_email_def list_ex_iff Bex_def directory_values [OF assms]
  using directory_invD [OF assms] by metis

lemma users_find_by_email_iff:
  assumes "directory_inv m"
  shows "users_find_by_email m e = Some u \<longleftrightarrow>
    map_get m (u_id u) = Some u \<and> u_email u = e \<and> u_status u \<noteq> UDeleted"
proof
  assume "users_find_by_email m e = Some u"
  then have "u \<in> set (map_values m) \<and> u_email u = e \<and> u_status u \<noteq> UDeleted"
    by (auto simp: users_find_by_email_def find_Some_iff user_is_deleted_def)
  then show "map_get m (u_id u) = Some u \<and> u_email u = e \<and> u_status u \<noteq> UDeleted"
    using directory_values [OF assms] by simp
next
  assume h: "map_get m (u_id u) = Some u \<and> u_email u = e \<and> u_status u \<noteq> UDeleted"
  then have "\<exists>x \<in> set (map_values m). u_email x = e \<and> \<not> user_is_deleted x"
    using directory_values [OF assms] by (auto simp: user_is_deleted_def)
  then obtain v where v: "users_find_by_email m e = Some v"
    unfolding users_find_by_email_def by (metis (mono_tags, lifting) find_None_iff option.exhaust)
  then have "v \<in> set (map_values m)" "u_email v = e"
    by (auto simp: users_find_by_email_def find_Some_iff)
  then have "map_get m (u_id v) = Some v" using directory_values [OF assms] by simp
  moreover have "u_email u = u_email v" using h \<open>u_email v = e\<close> by simp
  ultimately have same: "u_id u = u_id v" using directory_unique [OF assms] h by blast
  have "map_get m (u_id u) = Some v" unfolding same by fact
  then have "u = v" using h by (metis option.inject)
  with v show "users_find_by_email m e = Some u" by blast
qed

text \<open>Saving a user that replaces one of the same id and email, or a new one with a fresh email.\<close>

lemma users_save_replace:
  assumes "directory_inv m" "map_get m i = Some u" "u_id v = u_id u" "u_email v = u_email u" "user_wf v"
  shows "directory_inv (users_save v m)"
proof -
  have i: "u_id v = i" using assms(1-3) by (simp add: directory_inv_def)
  have old: "\<exists>w. map_get m j = Some w \<and> u_email w = u_email x"
    if "map_get (users_save v m) j = Some x" for j x
    using that assms(2,4) i by (auto simp: users_save_def split: if_splits)
  show ?thesis
    unfolding directory_inv_def
  proof (intro conjI allI impI)
    show "map_wf (users_save v m)" using assms(1) by (simp add: directory_inv_def users_save_def)
    show "u_id x = j" "user_wf x" if "map_get (users_save v m) j = Some x" for j x
      using that directory_invD [OF assms(1)] assms(5) by (auto simp: users_save_def split: if_splits)
    show "i = j" if "map_get (users_save v m) i = Some x" "map_get (users_save v m) j = Some y"
      "u_email x = u_email y" for i j x y
      using old [OF that(1)] old [OF that(2)] that(3) directory_unique [OF assms(1)] by metis
  qed
qed

lemma users_save_fresh:
  assumes "directory_inv m" "map_get m (u_id v) = None" "user_wf v"
    and "\<not> users_exists_by_email m (u_email v)"
  shows "directory_inv (users_save v m)"
proof -
  have new: "u_email w \<noteq> u_email v" if "map_get m j = Some w" for j w
    using assms(4) that users_exists_by_email_iff [OF assms(1)] by blast
  show ?thesis
    unfolding directory_inv_def
  proof (intro conjI allI impI)
    show "map_wf (users_save v m)" using assms(1) by (simp add: directory_inv_def users_save_def)
    show "u_id x = j" "user_wf x" if "map_get (users_save v m) j = Some x" for j x
      using that directory_invD [OF assms(1)] assms(3) by (auto simp: users_save_def split: if_splits)
    show "i = j" if "map_get (users_save v m) i = Some x" "map_get (users_save v m) j = Some y"
      "u_email x = u_email y" for i j x y
    proof (rule ccontr)
      assume "i \<noteq> j"
      then show False
        using that new directory_unique [OF assms(1)]
        by (cases "i = u_id v"; cases "j = u_id v") (auto simp: users_save_def dest: new)
    qed
  qed
qed

lemma aggregate_merge_nonempty: "fe \<noteq> [] \<Longrightarrow> aggregate_merge fe m \<noteq> []"
proof (induction fe arbitrary: m)
  case (Cons f fe)
  obtain k v where f: "f = (k, v)" by (cases f)
  have "map_set k w a \<noteq> []" for w :: "string list" and a
    by (cases a) auto
  then show ?case using Cons f by (cases fe) (auto simp: aggregate_merge_def)
qed simp

section \<open>What each operation does to the directory\<close>

text \<open>A user becomes another of the same id and email, by no change of status or a legal one.\<close>

definition user_updates :: "user \<Rightarrow> user \<Rightarrow> bool" where
  "user_updates u v \<longleftrightarrow> u_id v = u_id u \<and> u_email v = u_email u \<and> user_wf v \<and>
     (u_status v = u_status u \<or> u_status v \<in> set (allowed_transitions (u_status u)))"

definition updates_one :: "user_store \<Rightarrow> user_store \<Rightarrow> bool" where
  "updates_one m m' \<longleftrightarrow> m' = m \<or>
     (\<exists>i u v. users_find_by_id m i = Some u \<and> user_updates u v \<and> m' = users_save v m)"

lemma updates_one_refl [simp]: "updates_one m m"
  by (simp add: updates_one_def)

lemma updates_oneI: "users_find_by_id m i = Some u \<Longrightarrow> user_updates u v \<Longrightarrow> updates_one m (users_save v m)"
  unfolding updates_one_def by blast

lemma transition_updates:
  "user_wf u \<Longrightarrow> user_activate now r u = Inr v \<Longrightarrow> user_updates u v"
  "user_wf u \<Longrightarrow> user_suspend now r u = Inr v \<Longrightarrow> user_updates u v"
  using user_transition_to_Inr [of now UActive r u v] user_transition_to_Inr [of now USuspended r u v]
    user_activate_wf [of now r u v] user_suspend_wf [of now r u v]
  by (auto simp: user_updates_def user_activate_def user_suspend_def)

lemma delete_updates: "user_wf u \<Longrightarrow> user_delete now r u = Inr v \<Longrightarrow> user_updates u v"
  using user_delete_Inr [of now r u v] user_delete_wf [of now r u v]
    user_transition_to_Inr [of now UDeleted r u]
  by (fastforce simp: user_updates_def user_delete_def split: sum.splits)

lemma profile_updates: "user_wf u \<Longrightarrow> d \<noteq> [] \<Longrightarrow> user_updates u (user_update_profile now d p u)"
  by (simp add: user_updates_def user_update_profile_wf) (simp add: user_update_profile_def)

lemma found_wf: "directory_inv m \<Longrightarrow> users_find_by_id m i = Some u \<Longrightarrow> user_wf u"
  unfolding users_find_by_id_iff using directory_invD by blast

lemma suspend_user_updates:
  assumes "directory_inv m" "suspend_user_execute now i reason m = (res, m')"
  shows "updates_one m m'"
  using assms(2) found_wf [OF assms(1)]
  by (auto simp: suspend_user_execute_def Let_def
      intro!: updates_oneI transition_updates(2) [OF _ sym]
      split: option.splits if_splits sum.splits)

lemma reactivate_user_updates:
  assumes "directory_inv m" "reactivate_user_execute now i reason m = (res, m')"
  shows "updates_one m m'"
  using assms(2) found_wf [OF assms(1)]
  by (auto simp: reactivate_user_execute_def Let_def
      intro!: updates_oneI transition_updates(1) [OF _ sym]
      split: option.splits if_splits sum.splits)

lemma display_name_create_nonempty: "display_name_create raw = Inr d \<Longrightarrow> d \<noteq> []"
  by (auto simp: display_name_create_def Let_def split: if_splits)

lemma update_profile_updates:
  assumes "directory_inv m" "update_profile_execute now cmd m = (res, m')"
  shows "updates_one m m'"
proof (cases "m' = m")
  case False
  then obtain u d p where u: "users_find_by_id m (upc_user_id cmd) = Some u"
    and d: "d = u_display_name u \<or> (\<exists>raw. display_name_create raw = Inr d)"
    and m': "m' = users_save (user_update_profile now d p u) m"
    using assms(2)
    by (auto simp: update_profile_execute_def aggregate_collect_def Let_def
        split: option.splits if_splits sum.splits prod.splits domain_error.splits)
  have w: "user_wf u" using found_wf [OF assms(1) u] .
  then have "d \<noteq> []" using d display_name_create_nonempty by (auto simp: user_wf_def)
  then show ?thesis unfolding m' by (rule updates_oneI [OF u profile_updates [OF w]])
qed simp

lemma register_user_cases:
  assumes "directory_inv m" "register_user_execute fresh now cmd m = (res, m')"
  shows "m' = m \<or> (\<exists>e d p. email_create (ruc_email cmd) = Inr e \<and> display_name_create (ruc_display_name cmd) = Inr d \<and>
    \<not> users_exists_by_email m e \<and> m' = users_save (user_register fresh now e d p) m)"
  using assms(2)
  by (auto simp: register_user_execute_def Let_def split: sum.splits if_splits)

lemma updates_one_inv:
  assumes "directory_inv m" "updates_one m m'"
  shows "directory_inv m'"
proof (cases "m' = m")
  case False
  then obtain i u v where "users_find_by_id m i = Some u" "user_updates u v" "m' = users_save v m"
    using assms(2) by (auto simp: updates_one_def)
  then show ?thesis
    using users_save_replace [OF assms(1)] by (auto simp: users_find_by_id_iff user_updates_def)
qed (use assms(1) in simp)

lemma updates_one_keeps:
  assumes "directory_inv m" "updates_one m m'" "map_get m i = Some u"
  shows "\<exists>v. map_get m' i = Some v \<and> u_id v = u_id u \<and> u_email v = u_email u \<and>
    (v = u \<or> u_status u \<noteq> UDeleted \<and> (u_status v = u_status u \<or> u_status v \<in> set (allowed_transitions (u_status u))))"
proof (cases "m' = m")
  case False
  then obtain j x v where x: "users_find_by_id m j = Some x" "user_updates x v" "m' = users_save v m"
    using assms(2) by (auto simp: updates_one_def)
  then have "u_id x = j" "map_get m j = Some x" "u_status x \<noteq> UDeleted"
    using directory_invD [OF assms(1)] by (auto simp: users_find_by_id_iff)
  then show ?thesis
    using x(2,3) assms(3) by (cases "i = j") (auto simp: users_save_def user_updates_def)
qed (use assms(3) in simp)

section \<open>Properties\<close>

text \<open>
  The directory as its use cases drive it; \<open>activate\<close> is the step of \<open>ConfirmEmailVerification\<close>
  and \<open>delete\<close> the saved result of \<open>User.delete\<close>. The id of a new user does not repeat.
\<close>

inductive directory_step :: "user_store \<Rightarrow> user_store \<Rightarrow> bool" where
  register: "register_user_execute fresh now cmd m = (res, m') \<Longrightarrow> map_get m fresh = None \<Longrightarrow>
     directory_step m m'"
| suspend: "suspend_user_execute now i reason m = (res, m') \<Longrightarrow> directory_step m m'"
| reactivate: "reactivate_user_execute now i reason m = (res, m') \<Longrightarrow> directory_step m m'"
| update_profile: "update_profile_execute now pcmd m = (res, m') \<Longrightarrow> directory_step m m'"
| activate: "users_find_by_id m i = Some u \<Longrightarrow> user_activate now r u = Inr v \<Longrightarrow>
     directory_step m (users_save v m)"
| delete: "users_find_by_id m i = Some u \<Longrightarrow> user_delete now r u = Inr v \<Longrightarrow>
     directory_step m (users_save v m)"

inductive directory_steps :: "user_store \<Rightarrow> user_store \<Rightarrow> bool" where
  refl: "directory_steps m m"
| more: "directory_steps m n \<Longrightarrow> directory_step n k \<Longrightarrow> directory_steps m k"

lemma directory_step_cases:
  assumes "directory_step m m'" "directory_inv m"
  shows "updates_one m m' \<or> (\<exists>v. map_get m (u_id v) = None \<and> user_wf v \<and>
    \<not> users_exists_by_email m (u_email v) \<and> m' = users_save v m)"
  using assms(1)
proof (cases rule: directory_step.cases)
  case (register fresh now cmd res)
  from register_user_cases [OF assms(2) register(1)] show ?thesis
  proof
    assume "m' = m" then show ?thesis by simp
  next
    assume "\<exists>e d p. email_create (ruc_email cmd) = Inr e \<and>
      display_name_create (ruc_display_name cmd) = Inr d \<and>
      \<not> users_exists_by_email m e \<and> m' = users_save (user_register fresh now e d p) m"
    then obtain e d p where r: "email_create (ruc_email cmd) = Inr e"
      "display_name_create (ruc_display_name cmd) = Inr d" "\<not> users_exists_by_email m e"
      "m' = users_save (user_register fresh now e d p) m" by blast
    have "u_id (user_register fresh now e d p) = fresh" "u_email (user_register fresh now e d p) = e"
      by (simp_all add: user_register_def)
    then show ?thesis using r register(2) user_register_wf [OF r(1,2)] by metis
  qed
next
  case (activate i u now r v)
  then show ?thesis
    using updates_oneI transition_updates(1) found_wf [OF assms(2)] by blast
next
  case (delete i u now r v)
  then show ?thesis
    using updates_oneI delete_updates found_wf [OF assms(2)] by blast
qed (use suspend_user_updates reactivate_user_updates update_profile_updates assms(2) in blast)+

lemma directory_step_inv: "directory_step m m' \<Longrightarrow> directory_inv m \<Longrightarrow> directory_inv m'"
  using directory_step_cases updates_one_inv users_save_fresh by blast

lemma directory_steps_inv: "directory_steps m n \<Longrightarrow> directory_inv m \<Longrightarrow> directory_inv n"
  by (induction rule: directory_steps.induct) (auto intro: directory_step_inv)

lemma directory_step_keeps:
  assumes "directory_step m m'" "directory_inv m" "map_get m i = Some u"
  shows "\<exists>v. map_get m' i = Some v \<and> u_id v = u_id u \<and> u_email v = u_email u \<and>
    (v = u \<or> u_status u \<noteq> UDeleted \<and> (u_status v = u_status u \<or> u_status v \<in> set (allowed_transitions (u_status u))))"
  using directory_step_cases [OF assms(1,2)]
proof
  assume "updates_one m m'"
  then show ?thesis using updates_one_keeps assms(2,3) by blast
next
  assume "\<exists>v. map_get m (u_id v) = None \<and> user_wf v \<and>
    \<not> users_exists_by_email m (u_email v) \<and> m' = users_save v m"
  then obtain v where "map_get m (u_id v) = None" "m' = users_save v m" by blast
  then have "map_get m' i = Some u" using assms(3) by (auto simp: users_save_def)
  then show ?thesis by blast
qed

lemma directory_steps_keep:
  assumes "directory_steps m n" "directory_inv m" "map_get m i = Some u"
  shows "\<exists>v. map_get n i = Some v \<and> u_email v = u_email u \<and> (u_status u = UDeleted \<longrightarrow> v = u)"
  using assms
proof (induction rule: directory_steps.induct)
  case (more m n k)
  then obtain v where v: "map_get n i = Some v" "u_email v = u_email u" "u_status u = UDeleted \<longrightarrow> v = u"
    by blast
  have "directory_inv n" using more.hyps(1) more.prems(1) directory_steps_inv by blast
  from directory_step_keeps [OF more.hyps(2) this v(1)] obtain w where
    w: "map_get k i = Some w" "u_email w = u_email v" "w = v \<or> u_status v \<noteq> UDeleted" by blast
  then show ?case using v by metis
qed simp

text \<open>
  The user directory: in every store the use cases reach from an empty one, every user has a
  canonical valid email and a deletion time exactly when deleted, and no two users, deleted ones
  included, share an email. Afterwards no step changes a user's email, and a deleted user is
  never changed again (deletion is terminal, its address never freed).
\<close>

theorem user_directory_invariant:
  assumes "directory_steps [] m" and "directory_steps m n" and "map_get m i = Some u"
  shows "email_create (u_email u) = Inr (u_email u) \<and>
    (u_status u = UDeleted \<longleftrightarrow> u_deleted_at u \<noteq> None) \<and>
    (\<forall>j v. map_get m j = Some v \<and> u_email v = u_email u \<longrightarrow> i = j) \<and>
    (\<exists>v. map_get n i = Some v \<and> u_email v = u_email u \<and> (u_status u = UDeleted \<longrightarrow> v = u))"
proof -
  have inv: "directory_inv m" by (rule directory_steps_inv [OF assms(1)]) simp
  have "user_wf u" using directory_invD [OF inv assms(3)] by simp
  then show ?thesis
    using directory_unique [OF inv assms(3)] directory_steps_keep [OF assms(2) inv assms(3)]
    unfolding user_wf_def by metis
qed

definition demo_register :: register_user_command where
  "demo_register = \<lparr>ruc_email = '' Ada@Example.com'', ruc_display_name = ''Ada'',
     ruc_given = None, ruc_family = None\<rparr>"

definition demo_user :: user where
  "demo_user = user_register ''u1'' 5 ''ada@example.com'' ''Ada'' None"

lemma demo_register_run: "register_user_execute ''u1'' 5 demo_register [] = (Inr demo_user, [(''u1'', demo_user)])"
  by code_simp

lemma demo_directory: "directory_steps [] [(''u1'', demo_user)]"
  by (rule directory_steps.more [OF directory_steps.refl directory_step.register [OF demo_register_run]]) simp

theorem user_directory_invariant_witness: "email_create ''ada@example.com'' = Inr ''ada@example.com''"
  using user_directory_invariant [OF demo_directory directory_steps.refl, of "''u1''" demo_user]
  by (simp add: demo_user_def user_register_def)

end
