(* ===== verification/Credentials.thy ===== *)
theory Credentials
  imports Identity
begin

text \<open>
  The domain layer of \<open>packages/credentials\<close> and its in-memory stores: the lockout policy,
  \<open>RawPassword\<close>, the \<open>Credential\<close> aggregate, the two single-use tokens (email verification and
  password reset), the digest comparison of \<open>token-digest.ts\<close>, and the repositories. SHA-256
  and the password hasher are library code: the functions \<open>digest\<close> and \<open>password_hasher\<close> are
  arguments. A time is in milliseconds.
\<close>

section \<open>The lockout policy\<close>

record lockout_policy =
  lp_threshold :: nat
  lp_base :: int
  lp_factor :: int
  lp_max :: int

definition default_lockout_policy :: lockout_policy where
  "default_lockout_policy = \<lparr>lp_threshold = 5, lp_base = 60000, lp_factor = 2, lp_max = 3600000\<rparr>"

definition lock_duration_ms :: "nat \<Rightarrow> lockout_policy \<Rightarrow> int" where
  "lock_duration_ms failed policy =
     (if failed < lp_threshold policy then 0
      else let steps = failed - lp_threshold policy;
               uncapped = (if steps > 64 then lp_max policy else lp_base policy * lp_factor policy ^ steps)
           in min uncapped (lp_max policy))"

section \<open>RawPassword\<close>

record password_policy =
  pp_min_length :: nat
  pp_max_length :: nat

definition default_password_policy :: password_policy where
  "default_password_policy = \<lparr>pp_min_length = 12, pp_max_length = 256\<rparr>"

definition raw_password_create :: "string \<Rightarrow> password_policy \<Rightarrow> string result" where
  "raw_password_create plaintext policy =
     (if length plaintext < pp_min_length policy then Inl (ValidationError [(''password'', [''too_short''])])
      else if length plaintext > pp_max_length policy
      then Inl (ValidationError [(''password'', [''too_long''])])
      else Inr plaintext)"

definition default_history_depth :: nat where
  "default_history_depth = 5"

section \<open>The password hasher\<close>

text \<open>\<open>ph_hash\<close> takes the salt the library draws.\<close>

record password_hasher =
  ph_hash :: "string \<Rightarrow> string \<Rightarrow> string"
  ph_verify :: "string \<Rightarrow> string \<Rightarrow> bool"
  ph_needs_rehash :: "string \<Rightarrow> bool"

section \<open>The Credential aggregate\<close>

record credential =
  cr_id :: string
  cr_user :: string
  cr_hash :: string
  cr_failed :: nat
  cr_locked_until :: "int option"
  cr_history :: "string list"
  cr_created_at :: int
  cr_updated_at :: int

definition deleted_sentinel :: string where
  "deleted_sentinel = ''[DELETED]''"

definition credential_create :: "string \<Rightarrow> int \<Rightarrow> string \<Rightarrow> string \<Rightarrow> credential" where
  "credential_create fresh now user hash =
     \<lparr>cr_id = fresh, cr_user = user, cr_hash = hash, cr_failed = 0, cr_locked_until = None,
      cr_history = [], cr_created_at = now, cr_updated_at = now\<rparr>"

definition with_password_hash :: "int \<Rightarrow> string \<Rightarrow> credential \<Rightarrow> credential" where
  "with_password_hash now hash c =
     c\<lparr>cr_hash := hash, cr_failed := 0, cr_locked_until := None, cr_updated_at := now\<rparr>"

definition is_locked_at :: "int \<Rightarrow> credential \<Rightarrow> bool" where
  "is_locked_at now c = (case cr_locked_until c of None \<Rightarrow> False | Some u \<Rightarrow> u > now)"

definition record_failed_attempt :: "lockout_policy \<Rightarrow> int \<Rightarrow> credential \<Rightarrow> credential" where
  "record_failed_attempt policy now c =
     (let failed = cr_failed c + 1;
          duration = lock_duration_ms failed policy
      in c\<lparr>cr_failed := failed,
           cr_locked_until := (if duration = 0 then cr_locked_until c else Some (now + duration)),
           cr_updated_at := now\<rparr>)"

definition invalidate_for_deleted_user :: "int \<Rightarrow> credential \<Rightarrow> credential" where
  "invalidate_for_deleted_user now c =
     c\<lparr>cr_hash := deleted_sentinel, cr_failed := 0, cr_locked_until := None, cr_history := [],
       cr_updated_at := now\<rparr>"

definition record_successful_attempt :: "int \<Rightarrow> credential \<Rightarrow> credential" where
  "record_successful_attempt now c =
     (if cr_failed c = 0 \<and> cr_locked_until c = None then c
      else c\<lparr>cr_failed := 0, cr_locked_until := None, cr_updated_at := now\<rparr>)"

text \<open>The loop over the history stops at the first match.\<close>

fun any_match :: "(string \<Rightarrow> bool) \<Rightarrow> string list \<Rightarrow> bool" where
  "any_match matches [] = False"
| "any_match matches (h # hs) = (if matches h then True else any_match matches hs)"

definition is_password_reused :: "password_hasher \<Rightarrow> string \<Rightarrow> credential \<Rightarrow> bool" where
  "is_password_reused ph candidate c =
     (if ph_verify ph candidate (cr_hash c) then True
      else any_match (ph_verify ph candidate) (cr_history c))"

definition rotate_password :: "int \<Rightarrow> string \<Rightarrow> nat \<Rightarrow> credential \<Rightarrow> credential" where
  "rotate_password now new_hash depth c =
     c\<lparr>cr_hash := new_hash, cr_history := take depth (cr_hash c # cr_history c),
       cr_failed := 0, cr_locked_until := None, cr_updated_at := now\<rparr>"

section \<open>Token digests\<close>

definition hex_digit :: "char \<Rightarrow> nat option" where
  "hex_digit c =
     (let n = of_char c :: nat
      in if 48 \<le> n \<and> n \<le> 57 then Some (n - 48)
         else if 97 \<le> n \<and> n \<le> 102 then Some (n - 87)
         else if 65 \<le> n \<and> n \<le> 70 then Some (n - 55)
         else None)"

text \<open>\<open>Buffer.from(s, "hex")\<close> stops at the first pair that is not hexadecimal.\<close>

fun hex_bytes :: "string \<Rightarrow> nat list" where
  "hex_bytes (a # b # s) =
     (case (hex_digit a, hex_digit b) of
        (Some x, Some y) \<Rightarrow> (16 * x + y) # hex_bytes s
      | _ \<Rightarrow> [])"
| "hex_bytes _ = []"

definition token_matches_digest :: "(string \<Rightarrow> string) \<Rightarrow> string \<Rightarrow> string \<Rightarrow> bool" where
  "token_matches_digest digest token stored =
     (let candidate = hex_bytes (digest token);
          actual = hex_bytes stored
      in if length candidate \<noteq> length actual then False else candidate = actual)"

section \<open>Single-use tokens\<close>

record one_time_token =
  ot_id :: string
  ot_user :: string
  ot_hash :: string
  ot_expires_at :: int
  ot_consumed_at :: "int option"
  ot_created_at :: int

definition reset_token_ttl_ms :: int where
  "reset_token_ttl_ms = 60 * 60 * 1000"

definition email_token_ttl_ms :: int where
  "email_token_ttl_ms = 24 * 60 * 60 * 1000"

text \<open>\<open>issue\<close>: the raw token the library draws is an argument and is returned with the entity.\<close>

definition reset_token_issue ::
  "(string \<Rightarrow> string) \<Rightarrow> string \<Rightarrow> string \<Rightarrow> string \<Rightarrow> int option \<Rightarrow> int \<Rightarrow> one_time_token \<times> string" where
  "reset_token_issue digest fresh raw user ttl now =
     (\<lparr>ot_id = fresh, ot_user = user, ot_hash = digest raw,
       ot_expires_at = now + or_default ttl reset_token_ttl_ms, ot_consumed_at = None,
       ot_created_at = now\<rparr>, raw)"

definition email_token_issue ::
  "(string \<Rightarrow> string) \<Rightarrow> string \<Rightarrow> string \<Rightarrow> string \<Rightarrow> int option \<Rightarrow> int \<Rightarrow> one_time_token \<times> string" where
  "email_token_issue digest fresh raw user ttl now =
     (\<lparr>ot_id = fresh, ot_user = user, ot_hash = digest raw,
       ot_expires_at = now + or_default ttl email_token_ttl_ms, ot_consumed_at = None,
       ot_created_at = now\<rparr>, raw)"

definition token_matches :: "(string \<Rightarrow> string) \<Rightarrow> string \<Rightarrow> one_time_token \<Rightarrow> bool" where
  "token_matches digest candidate t = token_matches_digest digest candidate (ot_hash t)"

definition token_is_expired_at :: "int \<Rightarrow> one_time_token \<Rightarrow> bool" where
  "token_is_expired_at now t \<longleftrightarrow> now \<ge> ot_expires_at t"

definition token_is_consumed :: "one_time_token \<Rightarrow> bool" where
  "token_is_consumed t \<longleftrightarrow> ot_consumed_at t \<noteq> None"

definition token_is_usable_at :: "int \<Rightarrow> one_time_token \<Rightarrow> bool" where
  "token_is_usable_at now t \<longleftrightarrow> \<not> token_is_consumed t \<and> \<not> token_is_expired_at now t"

definition token_invalidate :: "int \<Rightarrow> one_time_token \<Rightarrow> one_time_token" where
  "token_invalidate now t = (if token_is_consumed t then t else t\<lparr>ot_consumed_at := Some now\<rparr>)"

definition reset_token_consume :: "int \<Rightarrow> one_time_token \<Rightarrow> one_time_token result" where
  "reset_token_consume now t =
     (if token_is_consumed t then Inl (ValidationError [(''token'', [''already_used''])])
      else if token_is_expired_at now t then Inl (ValidationError [(''token'', [''expired''])])
      else Inr (t\<lparr>ot_consumed_at := Some now\<rparr>))"

definition email_token_consume :: "int \<Rightarrow> one_time_token \<Rightarrow> one_time_token result" where
  "email_token_consume now t =
     (if token_is_consumed t then Inl (ValidationError [(''token'', [''already_used''])])
      else if token_is_expired_at now t then Inl (ValidationError [(''token'', [''expired''])])
      else Inr (t\<lparr>ot_consumed_at := Some now\<rparr>))"

section \<open>The stores\<close>

type_synonym credential_store = "(string, credential) js_map"
type_synonym token_store = "(string, one_time_token) js_map"

definition credentials_find :: "credential_store \<Rightarrow> string \<Rightarrow> credential option" where
  "credentials_find m user = map_get m user"

definition credentials_save :: "credential \<Rightarrow> credential_store \<Rightarrow> credential_store" where
  "credentials_save c m = map_set (cr_user c) c m"

definition credentials_delete :: "string \<Rightarrow> credential_store \<Rightarrow> credential_store" where
  "credentials_delete user m = map_delete user m"

definition tokens_find_by_hash :: "token_store \<Rightarrow> string \<Rightarrow> one_time_token option" where
  "tokens_find_by_hash m hash = find (\<lambda>t. ot_hash t = hash) (map_values m)"

definition tokens_save :: "one_time_token \<Rightarrow> token_store \<Rightarrow> token_store" where
  "tokens_save t m = map_set (ot_id t) t m"

text \<open>Replacing values in place keeps the order of the entries.\<close>

definition tokens_invalidate_outstanding :: "string \<Rightarrow> int \<Rightarrow> token_store \<Rightarrow> token_store" where
  "tokens_invalidate_outstanding user now m =
     map (\<lambda>(i, t). (i, if ot_user t = user \<and> ot_consumed_at t = None
                       then token_invalidate now t else t)) m"

section \<open>Lockout and rotation\<close>

lemma lock_duration_ms_bounds:
  assumes "0 \<le> lp_base p" "0 \<le> lp_factor p" "0 \<le> lp_max p"
  shows "0 \<le> lock_duration_ms n p \<and> lock_duration_ms n p \<le> lp_max p"
  using assms by (auto simp: lock_duration_ms_def Let_def)

lemma lock_duration_ms_pos:
  assumes "0 < lp_base p" "0 < lp_factor p" "0 < lp_max p" "lp_threshold p \<le> n"
  shows "0 < lock_duration_ms n p"
  using assms by (simp add: lock_duration_ms_def Let_def)

lemma lock_duration_ms_mono:
  assumes "0 < lp_base p" "1 \<le> lp_factor p" "0 \<le> lp_max p" "m \<le> n"
  shows "lock_duration_ms m p \<le> lock_duration_ms n p"
proof (cases "m < lp_threshold p")
  case True
  then show ?thesis
    using lock_duration_ms_bounds [of p n] assms by (simp add: lock_duration_ms_def [of m])
next
  case False
  have "lp_factor p ^ (m - lp_threshold p) \<le> lp_factor p ^ (n - lp_threshold p)"
    using assms by (intro power_increasing) auto
  then have "lp_base p * lp_factor p ^ (m - lp_threshold p) \<le> lp_base p * lp_factor p ^ (n - lp_threshold p)"
    using assms(1) by (intro mult_left_mono) auto
  then show ?thesis
    using False assms(4) by (auto simp: lock_duration_ms_def Let_def min_def)
qed

lemma any_match_iff: "any_match p hs \<longleftrightarrow> (\<exists>h \<in> set hs. p h)"
  by (induction hs) auto

lemma is_password_reused_iff:
  "is_password_reused ph pw c \<longleftrightarrow> (\<exists>h \<in> set (cr_hash c # cr_history c). ph_verify ph pw h)"
  by (auto simp: is_password_reused_def any_match_iff)

text \<open>A hash stays in reach of the reuse check for \<open>depth\<close> rotations.\<close>

lemma rotations_hashes:
  "cr_hash (foldl (\<lambda>c h. rotate_password now h depth c) c hs) #
     cr_history (foldl (\<lambda>c h. rotate_password now h depth c) c hs) =
   (if hs = [] then cr_hash c # cr_history c else take (Suc depth) (rev hs @ cr_hash c # cr_history c))"
proof (induction hs rule: rev_induct)
  case (snoc h hs)
  let ?c = "foldl (\<lambda>c h. rotate_password now h depth c) c hs"
  have "cr_hash (rotate_password now h depth ?c) # cr_history (rotate_password now h depth ?c) =
      h # take depth (cr_hash ?c # cr_history ?c)"
    by (simp add: rotate_password_def)
  also have "... = h # take depth (rev hs @ cr_hash c # cr_history c)"
    using snoc by (cases "hs = []") (simp_all add: min_def)
  finally show ?case by simp
qed simp

lemma rotations_keep:
  assumes "length hs \<le> depth"
  shows "cr_hash c \<in> set (cr_hash (foldl (\<lambda>c h. rotate_password now h depth c) c hs) #
     cr_history (foldl (\<lambda>c h. rotate_password now h depth c) c hs))"
proof (cases "hs = []")
  case False
  have "cr_hash c \<in> set (take (Suc depth) (rev hs @ cr_hash c # cr_history c))"
    using assms by (simp add: take_Cons')
  then show ?thesis unfolding rotations_hashes using False by simp
qed simp

section \<open>The token store contract\<close>

lemma token_matches_own: "token_matches digest raw (fst (reset_token_issue digest i raw u ttl now))"
  "token_matches digest raw (fst (email_token_issue digest i raw u ttl now))"
  by (simp_all add: token_matches_def token_matches_digest_def reset_token_issue_def
      email_token_issue_def Let_def)

lemma token_invalidate_simps [simp]:
  "ot_id (token_invalidate now t) = ot_id t" "ot_hash (token_invalidate now t) = ot_hash t"
  "ot_user (token_invalidate now t) = ot_user t"
  "\<exists>c. ot_consumed_at (token_invalidate now t) = Some c"
  by (auto simp: token_invalidate_def token_is_consumed_def)

locale one_time_tokens =
  fixes tget :: "'s \<Rightarrow> string \<Rightarrow> one_time_token option"
    and tfind :: "'s \<Rightarrow> string \<Rightarrow> one_time_token option"
    and tsave :: "one_time_token \<Rightarrow> 's \<Rightarrow> 's"
    and tretire :: "string \<Rightarrow> int \<Rightarrow> 's \<Rightarrow> 's"
    and tinv :: "'s \<Rightarrow> bool"
  assumes tfind_iff: "tinv s \<Longrightarrow> tfind s h = Some t \<longleftrightarrow> tget s (ot_id t) = Some t \<and> ot_hash t = h"
    and tget_save: "tinv s \<Longrightarrow> tget (tsave t s) i = (if i = ot_id t then Some t else tget s i)"
    and tinv_save: "tinv s \<Longrightarrow> (\<forall>i x. tget s i = Some x \<longrightarrow> ot_hash x = ot_hash t \<longrightarrow> i = ot_id t) \<Longrightarrow>
      tinv (tsave t s)"
    and tget_retire: "tinv s \<Longrightarrow> tget (tretire u now s) i = map_option
      (\<lambda>t. if ot_user t = u \<and> ot_consumed_at t = None then token_invalidate now t else t) (tget s i)"
    and tinv_retire: "tinv s \<Longrightarrow> tinv (tretire u now s)"
    and tget_hash: "tinv s \<Longrightarrow> tget s i = Some x \<Longrightarrow> tget s j = Some y \<Longrightarrow> ot_hash x = ot_hash y \<Longrightarrow> i = j"
    and tget_id: "tinv s \<Longrightarrow> tget s i = Some x \<Longrightarrow> ot_id x = i"
begin

text \<open>Saving another version of a stored token keeps the invariant.\<close>

lemma tinv_resave:
  assumes "tinv s" "tget s (ot_id t) = Some x" "ot_hash t = ot_hash x"
  shows "tinv (tsave t s)"
proof (rule tinv_save [OF assms(1)], intro allI impI)
  fix i y
  assume "tget s i = Some y" "ot_hash y = ot_hash t"
  then show "i = ot_id t" using tget_hash [OF assms(1) _ assms(2)] assms(3) by simp
qed

text \<open>Redeeming: after a consumed token is saved, its raw value finds a consumed token only.\<close>

lemma redeemed_once:
  assumes "tinv s" "tfind s h = Some t" "ot_id t' = ot_id t" "ot_hash t' = ot_hash t"
  shows "tfind (tsave t' s) h = Some t' \<and> tinv (tsave t' s)"
proof -
  have t: "tget s (ot_id t) = Some t" "ot_hash t = h" using tfind_iff [OF assms(1)] assms(2) by auto
  have "tget s (ot_id t') = Some t" using t(1) assms(3) by simp
  from tinv_resave [OF assms(1) this assms(4)] have inv: "tinv (tsave t' s)" .
  have "tget (tsave t' s) (ot_id t') = Some t'" using tget_save [OF assms(1)] by simp
  then show ?thesis using inv t assms(4) tfind_iff [OF inv] by simp
qed

text \<open>Reissuing: after retiring a user's tokens and saving a fresh one, no other is outstanding.\<close>

lemma reissued_only:
  assumes "tinv s" "tget s (ot_id t) = None" "\<forall>i x. tget s i = Some x \<longrightarrow> ot_hash x \<noteq> ot_hash t"
    and "ot_user t = u"
  shows "tinv (tsave t (tretire u now s)) \<and>
    (\<forall>i x. tget (tsave t (tretire u now s)) i = Some x \<longrightarrow> ot_user x = u \<longrightarrow> i \<noteq> ot_id t \<longrightarrow>
       ot_consumed_at x \<noteq> None)"
proof
  note inv = tinv_retire [OF assms(1), of u now]
  have retired: "\<exists>y. tget s i = Some y \<and> ot_hash x = ot_hash y \<and>
      (ot_user x = u \<longrightarrow> ot_consumed_at x \<noteq> None)"
    if x: "tget (tretire u now s) i = Some x" for i x
  proof -
    obtain y where y: "tget s i = Some y"
      and xy: "x = (if ot_user y = u \<and> ot_consumed_at y = None then token_invalidate now y else y)"
      using x unfolding tget_retire [OF assms(1)] by blast
    have "ot_hash x = ot_hash y \<and> (ot_user x = u \<longrightarrow> ot_consumed_at x \<noteq> None)"
      unfolding xy by simp
    with y show ?thesis by blast
  qed
  have "ot_hash x \<noteq> ot_hash t" if "tget (tretire u now s) i = Some x" for i x
    using retired [OF that] assms(3) by metis
  then show "tinv (tsave t (tretire u now s))" by (intro tinv_save [OF inv]) blast
  show "\<forall>i x. tget (tsave t (tretire u now s)) i = Some x \<longrightarrow> ot_user x = u \<longrightarrow> i \<noteq> ot_id t \<longrightarrow>
       ot_consumed_at x \<noteq> None"
    unfolding tget_save [OF inv] using retired by (simp; metis option.discI)
qed

end

definition tokens_get :: "token_store \<Rightarrow> string \<Rightarrow> one_time_token option" where
  "tokens_get m i = map_get m i"

definition tokens_inv :: "token_store \<Rightarrow> bool" where
  "tokens_inv m \<longleftrightarrow> map_wf m \<and> (\<forall>i t. map_get m i = Some t \<longrightarrow> ot_id t = i) \<and>
     (\<forall>i j x y. map_get m i = Some x \<longrightarrow> map_get m j = Some y \<longrightarrow> ot_hash x = ot_hash y \<longrightarrow> i = j)"

lemma tokens_inv_Nil [simp]: "tokens_inv []"
  by (simp add: tokens_inv_def)

lemma tokens_values: "tokens_inv m \<Longrightarrow> t \<in> set (map_values m) \<longleftrightarrow> map_get m (ot_id t) = Some t"
  by (auto simp: tokens_inv_def map_values_iff)

lemma tokens_find_iff:
  assumes "tokens_inv m"
  shows "tokens_find_by_hash m h = Some t \<longleftrightarrow> map_get m (ot_id t) = Some t \<and> ot_hash t = h"
proof
  assume "tokens_find_by_hash m h = Some t"
  then show "map_get m (ot_id t) = Some t \<and> ot_hash t = h"
    using tokens_values [OF assms] find_SomeD by (fastforce simp: tokens_find_by_hash_def)
next
  assume h: "map_get m (ot_id t) = Some t \<and> ot_hash t = h"
  then have "t \<in> set (map_values m)" using tokens_values [OF assms] by simp
  then obtain v where v: "tokens_find_by_hash m h = Some v"
    unfolding tokens_find_by_hash_def using find_exists [of t _ "\<lambda>t. ot_hash t = h"] h by blast
  then have "v \<in> set (map_values m) \<and> ot_hash v = h"
    using find_SomeD unfolding tokens_find_by_hash_def by fastforce
  then have w: "map_get m (ot_id v) = Some v" "ot_hash v = ot_hash t"
    using h tokens_values [OF assms] by simp_all
  then have same: "ot_id t = ot_id v" using h assms unfolding tokens_inv_def by metis
  have "map_get m (ot_id t) = Some v" unfolding same by (rule w(1))
  then have "t = v" using h by (metis option.inject)
  with v show "tokens_find_by_hash m h = Some t" by blast
qed

lemma tokens_retire_get:
  "map_get (tokens_invalidate_outstanding u now m) i = map_option
     (\<lambda>t. if ot_user t = u \<and> ot_consumed_at t = None then token_invalidate now t else t) (map_get m i)"
  by (induction m) (auto simp: tokens_invalidate_outstanding_def)

lemma tokens_retire_keys: "map fst (tokens_invalidate_outstanding u now m) = map fst m"
  by (induction m) (auto simp: tokens_invalidate_outstanding_def)

lemma tokens_retire_inv: "tokens_inv m \<Longrightarrow> tokens_inv (tokens_invalidate_outstanding u now m)"
  unfolding tokens_inv_def map_wf_def tokens_retire_keys tokens_retire_get
  by (auto split: if_splits)

lemma tokens_save_inv:
  assumes "tokens_inv m" "\<forall>i x. map_get m i = Some x \<longrightarrow> ot_hash x = ot_hash t \<longrightarrow> i = ot_id t"
  shows "tokens_inv (tokens_save t m)"
  using assms unfolding tokens_inv_def tokens_save_def by (auto split: if_splits)

interpretation mem_tokens: one_time_tokens tokens_get tokens_find_by_hash tokens_save
    tokens_invalidate_outstanding tokens_inv
proof unfold_locales
  fix s h and t :: one_time_token
  assume "tokens_inv s"
  then show "(tokens_find_by_hash s h = Some t) = (tokens_get s (ot_id t) = Some t \<and> ot_hash t = h)"
    by (simp add: tokens_find_iff tokens_get_def)
next
  fix s and t :: one_time_token
  assume "tokens_inv s" "\<forall>i x. tokens_get s i = Some x \<longrightarrow> ot_hash x = ot_hash t \<longrightarrow> i = ot_id t"
  then show "tokens_inv (tokens_save t s)" by (simp add: tokens_save_inv tokens_get_def)
next
  fix s i j and x y :: one_time_token
  assume "tokens_inv s" "tokens_get s i = Some x" "tokens_get s j = Some y" "ot_hash x = ot_hash y"
  then show "i = j" unfolding tokens_inv_def tokens_get_def by blast
qed (auto simp: tokens_get_def tokens_save_def tokens_retire_get tokens_retire_inv,
    auto simp: tokens_inv_def)

end
