(* ===== verification/BruteForce.thy ===== *)
theory BruteForce
  imports Prelude
begin

text \<open>
  \<open>packages/shared-kernel/application/services/brute-force-policy.ts\<close>, the attempt store port
  with its in-memory adapter, and the \<open>RateLimiter\<close> port. The rate limiter has no
  implementation in the repository but the no-op one: it is a record of functions over a
  state of its own. Thresholds are integers; each reading of \<open>Date.now()\<close> is an argument.
\<close>

section \<open>The rate limiter port\<close>

record rate_limit_key =
  rlk_action :: string
  rlk_identifier :: string

record rate_limit_result =
  rlr_allowed :: bool
  rlr_reset_at :: int

record 'l rate_limiter =
  rl_check :: "rate_limit_key \<Rightarrow> 'l \<Rightarrow> rate_limit_result \<times> 'l"
  rl_record_failure :: "rate_limit_key \<Rightarrow> 'l \<Rightarrow> 'l"
  rl_reset :: "rate_limit_key \<Rightarrow> 'l \<Rightarrow> 'l"

definition noop_rate_limiter :: "int \<Rightarrow> unit rate_limiter" where
  "noop_rate_limiter now = \<lparr>rl_check = (\<lambda>_ l. (\<lparr>rlr_allowed = True, rlr_reset_at = now + 60000\<rparr>, l)),
     rl_record_failure = (\<lambda>_ l. l), rl_reset = (\<lambda>_ l. l)\<rparr>"

section \<open>The attempt store\<close>

record attempt_record =
  at_failed :: nat
  at_locked_until :: "int option"

type_synonym attempt_store = "(string, attempt_record) js_map"

definition attempts_read :: "attempt_store \<Rightarrow> string \<Rightarrow> attempt_record" where
  "attempts_read s k = or_default (map_get s k) \<lparr>at_failed = 0, at_locked_until = None\<rparr>"

definition attempts_record_failure :: "string \<Rightarrow> int option \<Rightarrow> attempt_store \<Rightarrow> attempt_store" where
  "attempts_record_failure k until s =
     map_set k \<lparr>at_failed = (case map_get s k of None \<Rightarrow> 0 | Some r \<Rightarrow> at_failed r) + 1,
       at_locked_until = until\<rparr> s"

definition attempts_clear :: "string \<Rightarrow> attempt_store \<Rightarrow> attempt_store" where
  "attempts_clear k s = map_delete k s"

text \<open>What the policy relies on: a counter per key, zero where never written or cleared.\<close>

locale attempt_counter =
  fixes aread :: "'s \<Rightarrow> string \<Rightarrow> attempt_record"
    and afail :: "string \<Rightarrow> int option \<Rightarrow> 's \<Rightarrow> 's"
    and aclear :: "string \<Rightarrow> 's \<Rightarrow> 's"
  assumes aread_fail: "aread (afail k u s) k' =
      (if k' = k then \<lparr>at_failed = at_failed (aread s k) + 1, at_locked_until = u\<rparr> else aread s k')"
    and aread_clear: "aread (aclear k s) k' =
      (if k' = k then \<lparr>at_failed = 0, at_locked_until = None\<rparr> else aread s k')"

interpretation mem_attempts: attempt_counter attempts_read attempts_record_failure attempts_clear
  by unfold_locales
    (simp_all add: attempts_read_def attempts_record_failure_def attempts_clear_def or_default_def
      split: option.split)

section \<open>BruteForcePolicy\<close>

datatype brute_scope = BfLogin | BfMfa | BfPasswordReset | BfApiKey

fun scope_name :: "brute_scope \<Rightarrow> string" where
  "scope_name BfLogin = ''login''"
| "scope_name BfMfa = ''mfa''"
| "scope_name BfPasswordReset = ''password-reset''"
| "scope_name BfApiKey = ''api-key''"

record brute_thresholds =
  bt_threshold :: nat
  bt_base :: int
  bt_factor :: int
  bt_max :: int

definition default_brute_thresholds :: brute_thresholds where
  "default_brute_thresholds = \<lparr>bt_threshold = 5, bt_base = 60000, bt_factor = 2, bt_max = 3600000\<rparr>"

datatype denial_source = DenyLockout | DenyRateLimit | DenyBoth

record brute_decision =
  bd_allowed :: bool
  bd_retry_after :: "int option"
  bd_source :: "denial_source option"

definition brute_key :: "brute_scope \<Rightarrow> string \<Rightarrow> string" where
  "brute_key scope identifier = scope_name scope @ '':'' @ js_lower (js_trim identifier)"

definition brute_lock_duration :: "nat \<Rightarrow> brute_thresholds \<Rightarrow> int" where
  "brute_lock_duration failed th =
     (if failed < bt_threshold th then 0
      else let steps = failed - bt_threshold th;
               uncapped = (if steps > 64 then bt_max th else bt_base th * bt_factor th ^ steps)
           in min uncapped (bt_max th))"

definition brute_lock_until :: "int \<Rightarrow> nat \<Rightarrow> brute_thresholds \<Rightarrow> int option" where
  "brute_lock_until now failed th =
     (let duration = brute_lock_duration failed th
      in if duration = 0 then None else Some (now + duration))"

definition remaining_lock_ms :: "int \<Rightarrow> int option \<Rightarrow> int" where
  "remaining_lock_ms now until = (case until of None \<Rightarrow> 0 | Some u \<Rightarrow> max (u - now) 0)"

text \<open>\<open>Math.ceil(ms / 1000)\<close>.\<close>

definition ceil_seconds :: "int \<Rightarrow> int" where
  "ceil_seconds ms = - ((- ms) div 1000)"

definition seconds_until :: "int \<Rightarrow> int \<Rightarrow> int option" where
  "seconds_until now reset_at = (if reset_at - now > 0 then Some (ceil_seconds (reset_at - now)) else None)"

definition brute_check ::
  "'l rate_limiter option \<Rightarrow> int \<Rightarrow> int \<Rightarrow> brute_scope \<Rightarrow> string \<Rightarrow> attempt_store \<times> 'l \<Rightarrow>
     brute_decision \<times> attempt_store \<times> 'l" where
  "brute_check limiter now1 now2 scope identifier w =
     (let (s, l) = w;
          key = brute_key scope identifier;
          record = attempts_read s key;
          remaining = remaining_lock_ms now1 (at_locked_until record);
          s' = (if remaining = 0 \<and> at_locked_until record \<noteq> None then attempts_clear key s else s);
          (limit, l') =
            (case limiter of
               None \<Rightarrow> (None, l)
             | Some rl \<Rightarrow>
                 (case rl_check rl \<lparr>rlk_action = scope_name scope,
                     rlk_identifier = js_lower (js_trim identifier)\<rparr> l of
                    (res, l1) \<Rightarrow> (Some res, l1)));
          limited = (case limit of None \<Rightarrow> False | Some res \<Rightarrow> \<not> rlr_allowed res);
          locked = (remaining > 0)
      in if \<not> locked \<and> \<not> limited
         then (\<lparr>bd_allowed = True, bd_retry_after = None, bd_source = None\<rparr>, s', l')
         else let lockout_seconds = (if locked then Some (ceil_seconds remaining) else None);
                  limiter_seconds = (case limit of
                     Some res \<Rightarrow> (if limited then seconds_until now2 (rlr_reset_at res) else None)
                   | None \<Rightarrow> None);
                  seconds = (case (lockout_seconds, limiter_seconds) of
                     (Some a, Some b) \<Rightarrow> Some (max a b)
                   | (Some a, None) \<Rightarrow> Some a
                   | (None, b) \<Rightarrow> b)
              in (\<lparr>bd_allowed = False, bd_retry_after = seconds,
                   bd_source = Some (if locked \<and> limited then DenyBoth
                     else if locked then DenyLockout else DenyRateLimit)\<rparr>, s', l'))"

definition brute_record_failure ::
  "brute_thresholds \<Rightarrow> int \<Rightarrow> brute_scope \<Rightarrow> string \<Rightarrow> attempt_store \<Rightarrow> attempt_store" where
  "brute_record_failure th now scope identifier s =
     (let key = brute_key scope identifier;
          failed = at_failed (attempts_read s key)
      in attempts_record_failure key (brute_lock_until now (failed + 1) th) s)"

definition brute_record_success :: "brute_scope \<Rightarrow> string \<Rightarrow> attempt_store \<Rightarrow> attempt_store" where
  "brute_record_success scope identifier s = attempts_clear (brute_key scope identifier) s"

section \<open>Lock durations\<close>

lemma brute_lock_duration_bounds:
  assumes "0 \<le> bt_base th" "0 \<le> bt_factor th" "0 \<le> bt_max th"
  shows "0 \<le> brute_lock_duration n th \<and> brute_lock_duration n th \<le> bt_max th"
  using assms by (auto simp: brute_lock_duration_def Let_def)

lemma brute_lock_duration_mono:
  assumes "0 < bt_base th" "1 \<le> bt_factor th" "0 \<le> bt_max th" "m \<le> n"
  shows "brute_lock_duration m th \<le> brute_lock_duration n th"
proof (cases "m < bt_threshold th")
  case True
  then show ?thesis
    using brute_lock_duration_bounds [of th n] assms by (simp add: brute_lock_duration_def [of m])
next
  case False
  have "bt_factor th ^ (m - bt_threshold th) \<le> bt_factor th ^ (n - bt_threshold th)"
    using assms by (intro power_increasing) auto
  then have "bt_base th * bt_factor th ^ (m - bt_threshold th) \<le> bt_base th * bt_factor th ^ (n - bt_threshold th)"
    using assms(1) by (intro mult_left_mono) auto
  then show ?thesis
    using False assms(4) by (auto simp: brute_lock_duration_def Let_def min_def)
qed

lemma brute_lock_duration_first: "brute_lock_duration (bt_threshold th) th = min (bt_base th) (bt_max th)"
  by (simp add: brute_lock_duration_def)

lemma brute_lock_until_first:
  assumes "0 < bt_base th" "0 < bt_max th"
  shows "brute_lock_until now (bt_threshold th) th = Some (now + min (bt_base th) (bt_max th))"
proof -
  have "min (bt_base th) (bt_max th) \<noteq> 0" using assms by (simp add: min_def)
  then show ?thesis by (simp add: brute_lock_until_def brute_lock_duration_first Let_def)
qed

lemma ceil_seconds_bounds: "ms \<le> ceil_seconds ms * 1000 \<and> ceil_seconds ms * 1000 < ms + 1000"
  unfolding ceil_seconds_def by linarith

section \<open>What a check decides\<close>

text \<open>The part of the decision the attempt store is responsible for.\<close>

definition key_locked_at :: "int \<Rightarrow> brute_scope \<Rightarrow> string \<Rightarrow> attempt_store \<Rightarrow> bool" where
  "key_locked_at now scope identifier s =
     (case at_locked_until (attempts_read s (brute_key scope identifier)) of
        None \<Rightarrow> False | Some u \<Rightarrow> now < u)"

lemma remaining_lock_pos: "0 < remaining_lock_ms now until \<longleftrightarrow> (\<exists>u. until = Some u \<and> now < u)"
  by (auto simp: remaining_lock_ms_def split: option.split)

lemma brute_check_allowed:
  "bd_allowed (fst (brute_check limiter now1 now2 scope ident (s, l))) \<longleftrightarrow>
     \<not> key_locked_at now1 scope ident s \<and>
     (\<forall>rl. limiter = Some rl \<longrightarrow> rlr_allowed (fst (rl_check rl \<lparr>rlk_action = scope_name scope,
         rlk_identifier = js_lower (js_trim ident)\<rparr> l)))"
  by (cases limiter)
    (auto simp: brute_check_def Let_def key_locked_at_def remaining_lock_pos split: prod.splits option.splits)

lemma brute_check_store:
  "fst (snd (brute_check limiter now1 now2 scope ident (s, l))) =
     (case at_locked_until (attempts_read s (brute_key scope ident)) of
        None \<Rightarrow> s
      | Some u \<Rightarrow> (if now1 < u then s else attempts_clear (brute_key scope ident) s))"
  by (cases limiter)
    (auto simp: brute_check_def Let_def remaining_lock_ms_def split: prod.splits option.splits)

section \<open>Attempts one after the other\<close>

text \<open>
  The store as a sequence of guarded attempts leaves it, each one finished before the next: the
  gate is asked, and if it allows, the attempt fails or succeeds. The clock never goes back.
\<close>

inductive brute_run :: "'l rate_limiter option \<Rightarrow> brute_thresholds \<Rightarrow> int \<Rightarrow> attempt_store \<times> 'l \<Rightarrow> bool"
  for limiter th where
  start: "brute_run limiter th t ([], l)"
| tick: "brute_run limiter th t w \<Longrightarrow> t \<le> u \<Longrightarrow> brute_run limiter th u w"
| fails: "brute_run limiter th t w \<Longrightarrow> brute_check limiter t now2 scope ident w = (d, s, l) \<Longrightarrow>
    bd_allowed d \<Longrightarrow> brute_run limiter th t (brute_record_failure th t scope ident s, l)"
| succeeds: "brute_run limiter th t w \<Longrightarrow> brute_check limiter t now2 scope ident w = (d, s, l) \<Longrightarrow>
    bd_allowed d \<Longrightarrow> brute_run limiter th t (brute_record_success scope ident s, l)"
| refused: "brute_run limiter th t w \<Longrightarrow> brute_check limiter t now2 scope ident w = (d, s, l) \<Longrightarrow>
    \<not> bd_allowed d \<Longrightarrow> brute_run limiter th t (s, l)"

definition thresholds_ok :: "brute_thresholds \<Rightarrow> bool" where
  "thresholds_ok th \<longleftrightarrow> 0 < bt_threshold th \<and> 0 < bt_base th \<and> 0 < bt_max th"

text \<open>Below the threshold a key is not locked; at the threshold it is, for the first duration.\<close>

definition attempt_ok :: "brute_thresholds \<Rightarrow> int \<Rightarrow> attempt_record \<Rightarrow> bool" where
  "attempt_ok th t r \<longleftrightarrow>
     (at_locked_until r = None \<and> at_failed r < bt_threshold th) \<or>
     (\<exists>u. at_locked_until r = Some u \<and> at_failed r = bt_threshold th \<and>
        u \<le> t + min (bt_base th) (bt_max th))"

lemma attempt_ok_later: "attempt_ok th t r \<Longrightarrow> t \<le> u \<Longrightarrow> attempt_ok th u r"
  by (auto simp: attempt_ok_def)

lemma attempt_ok_zero: "thresholds_ok th \<Longrightarrow> attempt_ok th t \<lparr>at_failed = 0, at_locked_until = None\<rparr>"
  by (simp add: attempt_ok_def thresholds_ok_def)

lemma attempt_ok_next:
  assumes "thresholds_ok th" "n < bt_threshold th"
  shows "attempt_ok th t \<lparr>at_failed = n + 1, at_locked_until = brute_lock_until t (n + 1) th\<rparr>"
proof (cases "n + 1 < bt_threshold th")
  case True
  then show ?thesis by (simp add: attempt_ok_def brute_lock_until_def brute_lock_duration_def)
next
  case False
  then have n: "n + 1 = bt_threshold th" using assms(2) by simp
  then show ?thesis
    using assms(1) brute_lock_until_first [of th t]
    by (simp add: attempt_ok_def n thresholds_ok_def)
qed

lemma brute_check_reads:
  assumes "brute_check limiter t now2 scope ident (s, l) = (d, s', l')"
  shows "attempts_read s' k = attempts_read s k \<or>
    attempts_read s' k = \<lparr>at_failed = 0, at_locked_until = None\<rparr>"
  using brute_check_store [of limiter t now2 scope ident s l] assms mem_attempts.aread_clear
  by (simp split: option.splits if_splits)

lemma brute_check_allowed_reads:
  assumes "brute_check limiter t now2 scope ident (s, l) = (d, s', l')" "bd_allowed d"
  shows "at_locked_until (attempts_read s' (brute_key scope ident)) = None"
  using brute_check_store [of limiter t now2 scope ident s l] assms mem_attempts.aread_clear
    brute_check_allowed [of limiter t now2 scope ident s l]
  by (auto simp: key_locked_at_def split: option.splits if_splits)

lemma brute_run_ok:
  assumes "brute_run limiter th t w" "thresholds_ok th"
  shows "attempt_ok th t (attempts_read (fst w) k)"
  using assms(1)
proof (induction arbitrary: k rule: brute_run.induct)
  case (start t l)
  then show ?case using attempt_ok_zero [OF assms(2)] by (simp add: attempts_read_def or_default_def)
next
  case (tick t w u)
  then show ?case using attempt_ok_later by blast
next
  case (fails t w now2 scope ident d s l)
  obtain s0 l0 where w: "w = (s0, l0)" by (cases w)
  have ok: "attempt_ok th t (attempts_read s k)" for k
    using brute_check_reads [OF fails.hyps(2) [unfolded w], of k] fails.IH [of k] w
      attempt_ok_zero [OF assms(2)] by auto
  have "at_locked_until (attempts_read s (brute_key scope ident)) = None"
    using brute_check_allowed_reads [OF fails.hyps(2) [unfolded w] fails.hyps(3)] .
  with ok [of "brute_key scope ident"]
  have "at_failed (attempts_read s (brute_key scope ident)) < bt_threshold th"
    by (simp add: attempt_ok_def)
  from attempt_ok_next [OF assms(2) this, of t] ok [of k] show ?case
    by (simp add: brute_record_failure_def Let_def mem_attempts.aread_fail)
next
  case (succeeds t w now2 scope ident d s l)
  obtain s0 l0 where w: "w = (s0, l0)" by (cases w)
  have "attempt_ok th t (attempts_read s k)"
    using brute_check_reads [OF succeeds.hyps(2) [unfolded w], of k] succeeds.IH [of k] w
      attempt_ok_zero [OF assms(2)] by auto
  then show ?case
    using attempt_ok_zero [OF assms(2)] by (simp add: brute_record_success_def mem_attempts.aread_clear)
next
  case (refused t w now2 scope ident d s l)
  obtain s0 l0 where w: "w = (s0, l0)" by (cases w)
  show ?case
    using brute_check_reads [OF refused.hyps(2) [unfolded w], of k] refused.IH [of k] w
      attempt_ok_zero [OF assms(2)] by auto
qed

section \<open>Properties\<close>

text \<open>
  The gate refuses: in any sequence of guarded attempts, once a key has its threshold of
  consecutive failures, every later check of an identifier that is the same after trimming and
  lower-casing is refused until the base duration (or the cap, if smaller) has passed, whatever
  the rate limiter says; and no sequence of attempts that do not overlap ever reaches a longer
  refusal, since a refused attempt is not counted and an elapsed window is forgotten.
\<close>

theorem brute_force_window:
  assumes "brute_run limiter th t w" and "0 < bt_threshold th" "0 < bt_base th" "0 < bt_max th"
    and "brute_check limiter t now2 scope ident w = (d, s, l)" and "bd_allowed d"
    and "at_failed (attempts_read s (brute_key scope ident)) + 1 = bt_threshold th"
    and "js_lower (js_trim ident') = js_lower (js_trim ident)"
  shows "(t \<le> u \<and> u < t + min (bt_base th) (bt_max th) \<longrightarrow>
      \<not> bd_allowed (fst (brute_check limiter u now3 scope ident'
            (brute_record_failure th t scope ident s, l)))) \<and>
    (at_locked_until (attempts_read (fst w) k) = Some v \<longrightarrow>
      at_failed (attempts_read (fst w) k) = bt_threshold th \<and>
      v \<le> t + min (bt_base th) (bt_max th))"
proof (intro conjI impI)
  have ok: "thresholds_ok th" using assms(2-4) by (simp add: thresholds_ok_def)
  assume u: "t \<le> u \<and> u < t + min (bt_base th) (bt_max th)"
  have key: "brute_key scope ident' = brute_key scope ident" using assms(8) by (simp add: brute_key_def)
  have "brute_lock_until t (bt_threshold th) th = Some (t + min (bt_base th) (bt_max th))"
    using assms(3,4) brute_lock_until_first by blast
  then have "key_locked_at u scope ident' (brute_record_failure th t scope ident s)"
    using u assms(7)
    by (simp add: key_locked_at_def key brute_record_failure_def mem_attempts.aread_fail)
  then show "\<not> bd_allowed (fst (brute_check limiter u now3 scope ident'
            (brute_record_failure th t scope ident s, l)))"
    by (simp add: brute_check_allowed)
next
  have ok: "thresholds_ok th" using assms(2-4) by (simp add: thresholds_ok_def)
  assume "at_locked_until (attempts_read (fst w) k) = Some v"
  with brute_run_ok [OF assms(1) ok, of k]
  show "at_failed (attempts_read (fst w) k) = bt_threshold th"
    "v \<le> t + min (bt_base th) (bt_max th)" by (auto simp: attempt_ok_def)
qed

theorem brute_force_window_witness:
  "\<not> bd_allowed (fst (brute_check None 59 0 BfLogin '' Ada@Example.com''
     (brute_record_failure \<lparr>bt_threshold = 1, bt_base = 60, bt_factor = 2, bt_max = 100\<rparr> 0 BfLogin
        ''ada@example.com'' [], ())))"
proof -
  let ?th = "\<lparr>bt_threshold = 1, bt_base = 60, bt_factor = 2, bt_max = 100\<rparr>"
  have c: "brute_check None 0 0 BfLogin ''ada@example.com'' ([], ()) =
      (\<lparr>bd_allowed = True, bd_retry_after = None, bd_source = None\<rparr>, [], ())"
    by code_simp
  have n: "js_lower (js_trim '' Ada@Example.com'') = js_lower (js_trim ''ada@example.com'')"
    by code_simp
  have f: "at_failed (attempts_read [] (brute_key BfLogin ''ada@example.com'')) + 1 = bt_threshold ?th"
    by (simp add: attempts_read_def or_default_def)
  show ?thesis
    using brute_force_window [OF brute_run.start _ _ _ c _ f n, of 59] by simp
qed

end
