(* ===== verification/CredentialFlows.thy ===== *)
theory CredentialFlows
  imports Credentials BruteForce
begin

text \<open>
  The use cases of \<open>packages/credentials/application/use-cases\<close>: login with password, password
  change, the two request/confirm flows of single-use tokens, registration and the clean-up
  after a deleted user. A use case is a function from the world (the repositories, the attempt
  store, the state of the rate limiter, the session store and the mail sent) to its answer and
  the world after it. An answer is \<open>Inl\<close> a thrown \<open>Error\<close> or \<open>Inr\<close> a \<open>Result\<close>. Times, ids,
  salts and raw tokens that the code draws are arguments.
\<close>

section \<open>The world\<close>

record ('l, 'v) cred_world =
  cw_users :: user_store
  cw_credentials :: credential_store
  cw_email_tokens :: token_store
  cw_reset_tokens :: token_store
  cw_attempts :: attempt_store
  cw_limiter :: 'l
  cw_sessions :: 'v
  cw_sent :: "(string \<times> string \<times> int) list"

datatype thrown = RateLimitThrown | ErrorThrown string

type_synonym 'a answer = "thrown + 'a result"

text \<open>The optional brute-force gate: its thresholds and the limiter it composes with.\<close>

type_synonym 'l brute = "(brute_thresholds \<times> 'l rate_limiter option) option"

definition gate_check ::
  "'l brute \<Rightarrow> int \<Rightarrow> int \<Rightarrow> brute_scope \<Rightarrow> string \<Rightarrow> ('l, 'v) cred_world \<Rightarrow> bool \<times> ('l, 'v) cred_world" where
  "gate_check brute t1 t2 scope ident w =
     (case brute of
        None \<Rightarrow> (True, w)
      | Some (th, limiter) \<Rightarrow>
          (case brute_check limiter t1 t2 scope ident (cw_attempts w, cw_limiter w) of
             (d, s, l) \<Rightarrow> (bd_allowed d, w\<lparr>cw_attempts := s, cw_limiter := l\<rparr>)))"

definition gate_failure ::
  "'l brute \<Rightarrow> int \<Rightarrow> brute_scope \<Rightarrow> string \<Rightarrow> ('l, 'v) cred_world \<Rightarrow> ('l, 'v) cred_world" where
  "gate_failure brute now scope ident w =
     (case brute of
        None \<Rightarrow> w
      | Some (th, limiter) \<Rightarrow>
          w\<lparr>cw_attempts := brute_record_failure th now scope ident (cw_attempts w)\<rparr>)"

definition gate_success ::
  "'l brute \<Rightarrow> brute_scope \<Rightarrow> string \<Rightarrow> ('l, 'v) cred_world \<Rightarrow> ('l, 'v) cred_world" where
  "gate_success brute scope ident w =
     (case brute of
        None \<Rightarrow> w
      | Some _ \<Rightarrow> w\<lparr>cw_attempts := brute_record_success scope ident (cw_attempts w)\<rparr>)"

definition limit_check ::
  "'l rate_limiter \<Rightarrow> string \<Rightarrow> string \<Rightarrow> ('l, 'v) cred_world \<Rightarrow> bool \<times> ('l, 'v) cred_world" where
  "limit_check rl action ident w =
     (case rl_check rl \<lparr>rlk_action = action, rlk_identifier = ident\<rparr> (cw_limiter w) of
        (res, l) \<Rightarrow> (rlr_allowed res, w\<lparr>cw_limiter := l\<rparr>))"

definition limit_failure ::
  "'l rate_limiter \<Rightarrow> string \<Rightarrow> string \<Rightarrow> ('l, 'v) cred_world \<Rightarrow> ('l, 'v) cred_world" where
  "limit_failure rl action ident w =
     w\<lparr>cw_limiter := rl_record_failure rl \<lparr>rlk_action = action, rlk_identifier = ident\<rparr> (cw_limiter w)\<rparr>"

definition limit_reset ::
  "'l rate_limiter \<Rightarrow> string \<Rightarrow> string \<Rightarrow> ('l, 'v) cred_world \<Rightarrow> ('l, 'v) cred_world" where
  "limit_reset rl action ident w =
     w\<lparr>cw_limiter := rl_reset rl \<lparr>rlk_action = action, rlk_identifier = ident\<rparr> (cw_limiter w)\<rparr>"

definition save_credential :: "credential \<Rightarrow> ('l, 'v) cred_world \<Rightarrow> ('l, 'v) cred_world" where
  "save_credential c w = w\<lparr>cw_credentials := credentials_save c (cw_credentials w)\<rparr>"

section \<open>AuthenticateWithPassword\<close>

record authenticate_command =
  auc_email :: string
  auc_password :: string

datatype mfa_level = MfaRequired | MfaOptional | MfaDisabled

type_synonym mfa_checker = "((string \<Rightarrow> mfa_level) \<times> (string \<Rightarrow> (string \<times> string) list)) option"

datatype login_status = SignedIn | MfaChallenge "(string \<times> string) list" | EnrollmentRequired

record auth_success =
  as_user :: user
  as_rehashed :: bool
  as_status :: login_status

datatype login_outcome = LoginOk user credential | LoginFailed | LoginLocked

record login_times =
  lt_gate :: int
  lt_limit :: int
  lt_now :: int
  lt_failure :: int
  lt_rehash :: int

definition can_authenticate :: "user_status list" where
  "can_authenticate = [UPending, UActive]"

definition login_transaction ::
  "password_hasher \<Rightarrow> 'l rate_limiter \<Rightarrow> lockout_policy \<Rightarrow> 'l brute \<Rightarrow> login_times \<Rightarrow>
     authenticate_command \<Rightarrow> string \<Rightarrow> ('l, 'v) cred_world \<Rightarrow> login_outcome \<times> ('l, 'v) cred_world" where
  "login_transaction ph rl policy brute tm cmd email w =
     (case users_find_by_email (cw_users w) email of
        None \<Rightarrow> (LoginFailed, gate_failure brute (lt_failure tm) BfLogin (auc_email cmd) w)
      | Some user \<Rightarrow>
          (case credentials_find (cw_credentials w) (u_id user) of
             None \<Rightarrow> (LoginFailed, gate_failure brute (lt_failure tm) BfLogin (auc_email cmd) w)
           | Some c \<Rightarrow>
               (if is_locked_at (lt_now tm) c
                then (LoginLocked, save_credential (record_failed_attempt policy (lt_now tm) c) w)
                else if \<not> ph_verify ph (auc_password cmd) (cr_hash c)
                then (LoginFailed, limit_failure rl ''login'' (auc_email cmd)
                        (save_credential (record_failed_attempt policy (lt_now tm) c) w))
                else if u_status user \<notin> set can_authenticate then (LoginFailed, w)
                else let cleared = record_successful_attempt (lt_now tm) c
                     in (LoginOk user cleared, if cleared \<noteq> c then save_credential cleared w else w))))"

text \<open>
  \<open>upgradeHashIfStale\<close>; \<open>upgrade_throws\<close> says whether the hashing or the write throws, which
  the code swallows.
\<close>

definition upgrade_hash_if_stale ::
  "password_hasher \<Rightarrow> bool \<Rightarrow> string \<Rightarrow> int \<Rightarrow> credential \<Rightarrow> string \<Rightarrow> ('l, 'v) cred_world \<Rightarrow>
     bool \<times> ('l, 'v) cred_world" where
  "upgrade_hash_if_stale ph upgrade_throws salt now c plaintext w =
     (if \<not> ph_needs_rehash ph (cr_hash c) then (False, w)
      else if upgrade_throws then (False, w)
      else (True, save_credential (with_password_hash now (ph_hash ph salt plaintext) c) w))"

definition mfa_status :: "mfa_checker \<Rightarrow> string \<Rightarrow> login_status" where
  "mfa_status mfa user_id =
     (case mfa of
        None \<Rightarrow> SignedIn
      | Some (policy_of, methods_of) \<Rightarrow>
          (let policy = policy_of user_id;
               methods = methods_of user_id
           in if policy = MfaRequired \<and> length methods = 0 then EnrollmentRequired
              else if policy = MfaRequired \<or> (policy = MfaOptional \<and> length methods > 0) \<or> length methods > 0
              then (if length methods > 0 then MfaChallenge methods
                    else if policy = MfaRequired then EnrollmentRequired else SignedIn)
              else SignedIn))"

definition authenticate_execute ::
  "password_hasher \<Rightarrow> 'l rate_limiter \<Rightarrow> lockout_policy \<Rightarrow> mfa_checker \<Rightarrow> 'l brute \<Rightarrow> login_times \<Rightarrow>
     bool \<Rightarrow> string \<Rightarrow> authenticate_command \<Rightarrow> ('l, 'v) cred_world \<Rightarrow>
     auth_success answer \<times> ('l, 'v) cred_world" where
  "authenticate_execute ph rl policy mfa brute tm upgrade_throws salt cmd w0 =
     (case limit_check rl ''login'' (auc_email cmd) w0 of
        (False, w1) \<Rightarrow> (Inl RateLimitThrown, w1)
      | (True, w1) \<Rightarrow>
          (case gate_check brute (lt_gate tm) (lt_limit tm) BfLogin (auc_email cmd) w1 of
             (False, w2) \<Rightarrow> (Inr (Inl AuthenticationError), w2)
           | (True, w2) \<Rightarrow>
               (case email_create (auc_email cmd) of
                  Inl _ \<Rightarrow> (Inr (Inl AuthenticationError), w2)
                | Inr email \<Rightarrow>
                    (case login_transaction ph rl policy brute tm cmd email w2 of
                       (LoginLocked, w3) \<Rightarrow> (Inr (Inl AccountLockedError), w3)
                     | (LoginFailed, w3) \<Rightarrow> (Inr (Inl AuthenticationError), w3)
                     | (LoginOk user c, w3) \<Rightarrow>
                         (let w4 = limit_reset rl ''login'' (auc_email cmd)
                                     (gate_success brute BfLogin (auc_email cmd) w3);
                              (rehashed, w5) = upgrade_hash_if_stale ph upgrade_throws salt
                                     (lt_rehash tm) c (auc_password cmd) w4
                          in (Inr (Inr \<lparr>as_user = user, as_rehashed = rehashed,
                                as_status = mfa_status mfa (u_id user)\<rparr>), w5))))))"

section \<open>ConfirmPasswordReset\<close>

record confirm_reset_command =
  crc_token :: string
  crc_new_password :: string

record reset_times =
  rt_now :: int
  rt_gate :: int
  rt_limit :: int
  rt_updated :: int
  rt_failure :: int

datatype reset_outcome = ResetInvalid | ResetReused | ResetOk user

definition reset_transaction ::
  "(string \<Rightarrow> string) \<Rightarrow> password_hasher \<Rightarrow> nat \<Rightarrow> reset_times \<Rightarrow> string \<Rightarrow> string \<Rightarrow>
     confirm_reset_command \<Rightarrow> ('l, 'v) cred_world \<Rightarrow> reset_outcome \<times> ('l, 'v) cred_world" where
  "reset_transaction digest ph depth tm fresh new_hash cmd w =
     (case tokens_find_by_hash (cw_reset_tokens w) (digest (crc_token cmd)) of
        None \<Rightarrow> (ResetInvalid, w)
      | Some t \<Rightarrow>
          (if \<not> token_matches digest (crc_token cmd) t then (ResetInvalid, w)
           else case reset_token_consume (rt_now tm) t of
             Inl _ \<Rightarrow> (ResetInvalid, w)
           | Inr consumed \<Rightarrow>
               (case users_find_by_id (cw_users w) (ot_user t) of
                  None \<Rightarrow> (ResetInvalid, w)
                | Some user \<Rightarrow>
                    (let w1 = w\<lparr>cw_reset_tokens := tokens_save consumed (cw_reset_tokens w)\<rparr>;
                         existing = credentials_find (cw_credentials w1) (u_id user)
                     in if (case existing of None \<Rightarrow> False
                            | Some c \<Rightarrow> is_password_reused ph (crc_new_password cmd) c)
                        then (ResetReused, w1)
                        else let c = (case existing of
                               None \<Rightarrow> credential_create fresh (rt_updated tm) (u_id user) new_hash
                             | Some old \<Rightarrow> rotate_password (rt_updated tm) new_hash depth old)
                             in (ResetOk user, save_credential c w1)))))"

text \<open>\<open>revoke\<close> is the session revoker, which may throw (\<open>None\<close>).\<close>

definition confirm_reset_execute ::
  "(string \<Rightarrow> string) \<Rightarrow> password_hasher \<Rightarrow> (string \<Rightarrow> 'v \<Rightarrow> 'v option) \<Rightarrow> 'l rate_limiter \<Rightarrow>
     password_policy \<Rightarrow> nat \<Rightarrow> 'l brute \<Rightarrow> reset_times \<Rightarrow> string \<Rightarrow> string \<Rightarrow> confirm_reset_command \<Rightarrow>
     ('l, 'v) cred_world \<Rightarrow> user answer \<times> ('l, 'v) cred_world" where
  "confirm_reset_execute digest ph revoke rl policy depth brute tm fresh salt cmd w0 =
     (case limit_check rl ''password-reset'' (crc_token cmd) w0 of
        (False, w1) \<Rightarrow> (Inl RateLimitThrown, w1)
      | (True, w1) \<Rightarrow>
          (case raw_password_create (crc_new_password cmd) policy of
             Inl e \<Rightarrow> (Inr (Inl e), w1)
           | Inr plaintext \<Rightarrow>
               (let token_hash = digest (crc_token cmd) in
                case gate_check brute (rt_gate tm) (rt_limit tm) BfPasswordReset token_hash w1 of
                  (False, w2) \<Rightarrow> (Inr (Inl (ValidationError [(''token'', [''invalid''])])), w2)
                | (True, w2) \<Rightarrow>
                    (case reset_transaction digest ph depth tm fresh (ph_hash ph salt plaintext) cmd w2 of
                       (ResetInvalid, w3) \<Rightarrow>
                         (Inr (Inl (ValidationError [(''token'', [''invalid''])])),
                          gate_failure brute (rt_failure tm) BfPasswordReset token_hash w3)
                     | (ResetReused, w3) \<Rightarrow>
                         (Inr (Inl (ValidationError [(''password'', [''reused''])])), w3)
                     | (ResetOk user, w3) \<Rightarrow>
                         (let w4 = gate_success brute BfPasswordReset token_hash w3
                          in case revoke (u_id user) (cw_sessions w4) of
                               None \<Rightarrow>
                                 (Inr (Inl (ValidationError [(''sessions'', [''revocation_failed''])])), w4)
                             | Some v \<Rightarrow>
                                 (Inr (Inr user),
                                  limit_reset rl ''password-reset'' (crc_token cmd)
                                    (w4\<lparr>cw_sessions := v\<rparr>)))))))"

section \<open>ChangePassword\<close>

record change_password_command =
  cpc_user_id :: string
  cpc_current :: string
  cpc_new :: string

datatype change_outcome = ChangeUserNotFound | ChangeNoCredential | ChangeWrongCurrent
  | ChangeReused | ChangeOk user

definition change_checks ::
  "password_hasher \<Rightarrow> change_password_command \<Rightarrow> ('l, 'v) cred_world \<Rightarrow> change_outcome" where
  "change_checks ph cmd w =
     (case users_find_by_id (cw_users w) (cpc_user_id cmd) of
        None \<Rightarrow> ChangeUserNotFound
      | Some user \<Rightarrow>
          (case credentials_find (cw_credentials w) (u_id user) of
             None \<Rightarrow> ChangeNoCredential
           | Some c \<Rightarrow>
               (if \<not> ph_verify ph (cpc_current cmd) (cr_hash c) then ChangeWrongCurrent
                else if is_password_reused ph (cpc_new cmd) c then ChangeReused
                else ChangeOk user)))"

definition change_password_execute ::
  "password_hasher \<Rightarrow> password_policy \<Rightarrow> nat \<Rightarrow> int \<Rightarrow> string \<Rightarrow> change_password_command \<Rightarrow>
     ('l, 'v) cred_world \<Rightarrow> user answer \<times> ('l, 'v) cred_world" where
  "change_password_execute ph policy depth now salt cmd w =
     (case raw_password_create (cpc_new cmd) policy of
        Inl e \<Rightarrow> (Inr (Inl e), w)
      | Inr plaintext \<Rightarrow>
          (case change_checks ph cmd w of
             ChangeUserNotFound \<Rightarrow> (Inl (ErrorThrown ''ChangePassword: outcome.kind === user_not_found''), w)
           | ChangeNoCredential \<Rightarrow> (Inl (ErrorThrown ''ChangePassword: outcome.kind === no_credential''), w)
           | ChangeWrongCurrent \<Rightarrow>
               (Inr (Inl (ValidationError [(''currentPassword'', [''incorrect''])])), w)
           | ChangeReused \<Rightarrow> (Inr (Inl (ValidationError [(''password'', [''reused''])])), w)
           | ChangeOk user \<Rightarrow>
               (case credentials_find (cw_credentials w) (u_id user) of
                  None \<Rightarrow>
                    (Inl (ErrorThrown ''ChangePassword: credential vanished during transaction''), w)
                | Some c \<Rightarrow>
                    (Inr (Inr user),
                     save_credential (rotate_password now (ph_hash ph salt plaintext) depth c) w))))"

section \<open>Requesting and confirming tokens\<close>

text \<open>The notifier may throw, which the code swallows; otherwise the mail is recorded.\<close>

definition send_mail ::
  "bool \<Rightarrow> string \<Rightarrow> string \<Rightarrow> int \<Rightarrow> ('l, 'v) cred_world \<Rightarrow> ('l, 'v) cred_world" where
  "send_mail notify_throws email raw expires w =
     (if notify_throws then w else w\<lparr>cw_sent := cw_sent w @ [(email, raw, expires)]\<rparr>)"

definition request_reset_execute ::
  "(string \<Rightarrow> string) \<Rightarrow> 'l rate_limiter \<Rightarrow> int option \<Rightarrow> int \<Rightarrow> string \<Rightarrow> string \<Rightarrow> bool \<Rightarrow> string \<Rightarrow>
     ('l, 'v) cred_world \<Rightarrow> bool answer \<times> ('l, 'v) cred_world" where
  "request_reset_execute digest rl ttl now fresh raw notify_throws email_raw w0 =
     (case limit_check rl ''password-reset'' email_raw w0 of
        (False, w1) \<Rightarrow> (Inl RateLimitThrown, w1)
      | (True, w1) \<Rightarrow>
          (case email_create email_raw of
             Inl _ \<Rightarrow> (Inr (Inr False), w1)
           | Inr email \<Rightarrow>
               (case users_find_by_email (cw_users w1) email of
                  None \<Rightarrow> (Inr (Inr False), w1)
                | Some user \<Rightarrow>
                    (case credentials_find (cw_credentials w1) (u_id user) of
                       None \<Rightarrow> (Inr (Inr False), w1)
                     | Some _ \<Rightarrow>
                         (let retired = tokens_invalidate_outstanding (u_id user) now (cw_reset_tokens w1);
                              (t, raw_token) = reset_token_issue digest fresh raw (u_id user) ttl now;
                              w2 = w1\<lparr>cw_reset_tokens := tokens_save t retired\<rparr>
                          in (Inr (Inr True),
                              limit_reset rl ''password-reset'' email_raw
                                (send_mail notify_throws email raw_token (ot_expires_at t) w2)))))))"

definition request_verification_execute ::
  "(string \<Rightarrow> string) \<Rightarrow> int option \<Rightarrow> int \<Rightarrow> string \<Rightarrow> string \<Rightarrow> bool \<Rightarrow> string \<Rightarrow>
     ('l, 'v) cred_world \<Rightarrow> bool answer \<times> ('l, 'v) cred_world" where
  "request_verification_execute digest ttl now fresh raw notify_throws email_raw w =
     (case email_create email_raw of
        Inl _ \<Rightarrow> (Inr (Inr False), w)
      | Inr email \<Rightarrow>
          (case users_find_by_email (cw_users w) email of
             None \<Rightarrow> (Inr (Inr False), w)
           | Some user \<Rightarrow>
               (if u_status user \<noteq> UPending then (Inr (Inr False), w)
                else let retired = tokens_invalidate_outstanding (u_id user) now (cw_email_tokens w);
                         (t, raw_token) = email_token_issue digest fresh raw (u_id user) ttl now;
                         w2 = w\<lparr>cw_email_tokens := tokens_save t retired\<rparr>
                     in (Inr (Inr True),
                         send_mail notify_throws email raw_token (ot_expires_at t) w2))))"

definition confirm_verification_execute ::
  "(string \<Rightarrow> string) \<Rightarrow> int \<Rightarrow> int \<Rightarrow> string \<Rightarrow> ('l, 'v) cred_world \<Rightarrow> user answer \<times> ('l, 'v) cred_world" where
  "confirm_verification_execute digest now now2 token w =
     (let invalid = Inr (Inl (ValidationError [(''token'', [''invalid''])])) in
      case tokens_find_by_hash (cw_email_tokens w) (digest token) of
        None \<Rightarrow> (invalid, w)
      | Some t \<Rightarrow>
          (if \<not> token_matches digest token t then (invalid, w)
           else case email_token_consume now t of
             Inl e \<Rightarrow> (Inr (Inl e), w)
           | Inr consumed \<Rightarrow>
               (case users_find_by_id (cw_users w) (ot_user t) of
                  None \<Rightarrow> (invalid, w)
                | Some user \<Rightarrow>
                    (let w1 = w\<lparr>cw_email_tokens := tokens_save consumed (cw_email_tokens w)\<rparr>
                     in case user_activate now2 (Some ''email verified'') user of
                          Inl _ \<Rightarrow> (invalid, w1)
                        | Inr activated \<Rightarrow>
                            (Inr (Inr activated), w1\<lparr>cw_users := users_save activated (cw_users w1)\<rparr>)))))"

section \<open>RegisterUserWithPassword and HandleUserDeleted\<close>

record register_password_command =
  rpc_user :: register_user_command
  rpc_password :: string

definition register_with_password_execute ::
  "password_hasher \<Rightarrow> 'l rate_limiter \<Rightarrow> password_policy \<Rightarrow> int \<Rightarrow> string \<Rightarrow> string \<Rightarrow> string \<Rightarrow>
     register_password_command \<Rightarrow> ('l, 'v) cred_world \<Rightarrow> (user \<times> credential) answer \<times> ('l, 'v) cred_world" where
  "register_with_password_execute ph rl policy now fresh_user fresh_credential salt cmd w0 =
     (let u = rpc_user cmd in
      case limit_check rl ''register'' (ruc_email u) w0 of
        (False, w1) \<Rightarrow> (Inl RateLimitThrown, w1)
      | (True, w1) \<Rightarrow>
          (case email_create (ruc_email u) of
             Inl e \<Rightarrow> (Inr (Inl e), w1)
           | Inr email \<Rightarrow>
               (case display_name_create (ruc_display_name u) of
                  Inl e \<Rightarrow> (Inr (Inl e), w1)
                | Inr display \<Rightarrow>
                    (case raw_password_create (rpc_password cmd) policy of
                       Inl e \<Rightarrow> (Inr (Inl e), w1)
                     | Inr plaintext \<Rightarrow>
                         (case optional_person_name (ruc_given u) (ruc_family u) of
                            Inl e \<Rightarrow> (Inr (Inl e), w1)
                          | Inr person \<Rightarrow>
                              (let hash = ph_hash ph salt plaintext in
                               if users_exists_by_email (cw_users w1) email then (Inr (Inl ConflictError), w1)
                               else let user = user_register fresh_user now email display person;
                                        c = credential_create fresh_credential now (u_id user) hash;
                                        w2 = save_credential c (w1\<lparr>cw_users := users_save user (cw_users w1)\<rparr>)
                                    in (Inr (Inr (user, c)),
                                        limit_reset rl ''register'' (ruc_email u) w2)))))))"

definition handle_user_deleted :: "int \<Rightarrow> user_event \<Rightarrow> ('l, 'v) cred_world \<Rightarrow> ('l, 'v) cred_world" where
  "handle_user_deleted now event w =
     (case event of
        UserStatusChanged user _ next_status _ \<Rightarrow>
          (if next_status \<noteq> UDeleted then w
           else case credentials_find (cw_credentials w) user of
             None \<Rightarrow> w
           | Some c \<Rightarrow>
               save_credential (invalidate_for_deleted_user now c)
                 (w\<lparr>cw_email_tokens := tokens_invalidate_outstanding user now (cw_email_tokens w),
                    cw_reset_tokens := tokens_invalidate_outstanding user now (cw_reset_tokens w)\<rparr>))
      | _ \<Rightarrow> w)"

section \<open>Login\<close>

lemma gate_check_keeps [simp]:
  "cw_users (snd (gate_check brute t1 t2 sc i w)) = cw_users w"
  "cw_credentials (snd (gate_check brute t1 t2 sc i w)) = cw_credentials w"
  "cw_reset_tokens (snd (gate_check brute t1 t2 sc i w)) = cw_reset_tokens w"
  "cw_email_tokens (snd (gate_check brute t1 t2 sc i w)) = cw_email_tokens w"
  by (auto simp: gate_check_def split: option.split prod.split)

lemma gate_failure_keeps [simp]:
  "cw_users (gate_failure brute t sc i w) = cw_users w"
  "cw_credentials (gate_failure brute t sc i w) = cw_credentials w"
  "cw_reset_tokens (gate_failure brute t sc i w) = cw_reset_tokens w"
  "cw_email_tokens (gate_failure brute t sc i w) = cw_email_tokens w"
  by (auto simp: gate_failure_def split: option.split)

lemma gate_success_keeps [simp]:
  "cw_users (gate_success brute sc i w) = cw_users w"
  "cw_credentials (gate_success brute sc i w) = cw_credentials w"
  "cw_reset_tokens (gate_success brute sc i w) = cw_reset_tokens w"
  "cw_email_tokens (gate_success brute sc i w) = cw_email_tokens w"
  by (auto simp: gate_success_def split: option.split)

lemma limit_check_keeps [simp]:
  "cw_users (snd (limit_check rl a i w)) = cw_users w"
  "cw_credentials (snd (limit_check rl a i w)) = cw_credentials w"
  "cw_reset_tokens (snd (limit_check rl a i w)) = cw_reset_tokens w"
  "cw_email_tokens (snd (limit_check rl a i w)) = cw_email_tokens w"
  by (auto simp: limit_check_def split: prod.split)

lemma limit_failure_keeps [simp]:
  "cw_users (limit_failure rl a i w) = cw_users w"
  "cw_credentials (limit_failure rl a i w) = cw_credentials w"
  "cw_reset_tokens (limit_failure rl a i w) = cw_reset_tokens w"
  by (simp_all add: limit_failure_def)

lemma limit_reset_keeps [simp]:
  "cw_users (limit_reset rl a i w) = cw_users w"
  "cw_credentials (limit_reset rl a i w) = cw_credentials w"
  "cw_reset_tokens (limit_reset rl a i w) = cw_reset_tokens w"
  by (simp_all add: limit_reset_def)

lemma save_credential_keeps [simp]:
  "cw_users (save_credential c w) = cw_users w"
  "cw_reset_tokens (save_credential c w) = cw_reset_tokens w"
  "cw_credentials (save_credential c w) = credentials_save c (cw_credentials w)"
  by (simp_all add: save_credential_def)

text \<open>The attempt passes the rate limiter and the gate.\<close>

definition login_admitted ::
  "'l rate_limiter \<Rightarrow> 'l brute \<Rightarrow> login_times \<Rightarrow> string \<Rightarrow> ('l, 'v) cred_world \<Rightarrow> bool" where
  "login_admitted rl brute tm email w \<longleftrightarrow> fst (limit_check rl ''login'' email w) \<and>
     fst (gate_check brute (lt_gate tm) (lt_limit tm) BfLogin email (snd (limit_check rl ''login'' email w)))"

definition login_world ::
  "'l rate_limiter \<Rightarrow> 'l brute \<Rightarrow> login_times \<Rightarrow> string \<Rightarrow> ('l, 'v) cred_world \<Rightarrow> ('l, 'v) cred_world" where
  "login_world rl brute tm email w =
     snd (gate_check brute (lt_gate tm) (lt_limit tm) BfLogin email (snd (limit_check rl ''login'' email w)))"

lemma login_world_keeps [simp]:
  "cw_users (login_world rl brute tm email w) = cw_users w"
  "cw_credentials (login_world rl brute tm email w) = cw_credentials w"
  by (simp_all add: login_world_def)

lemma authenticate_cases:
  obtains (thrown) w' where "authenticate_execute ph rl policy mfa brute tm th salt cmd w = (Inl RateLimitThrown, w')"
      "\<not> login_admitted rl brute tm (auc_email cmd) w" "cw_credentials w' = cw_credentials w" "cw_users w' = cw_users w"
  | (gated) w' where "authenticate_execute ph rl policy mfa brute tm th salt cmd w = (Inr (Inl AuthenticationError), w')"
      "\<not> login_admitted rl brute tm (auc_email cmd) w" "cw_credentials w' = cw_credentials w" "cw_users w' = cw_users w"
  | (malformed) e w' where "authenticate_execute ph rl policy mfa brute tm th salt cmd w = (Inr (Inl AuthenticationError), w')"
      "email_create (auc_email cmd) = Inl e" "cw_credentials w' = cw_credentials w" "cw_users w' = cw_users w"
  | (run) email out w3 where "login_admitted rl brute tm (auc_email cmd) w"
      "email_create (auc_email cmd) = Inr email"
      "login_transaction ph rl policy brute tm cmd email (login_world rl brute tm (auc_email cmd) w) = (out, w3)"
      "authenticate_execute ph rl policy mfa brute tm th salt cmd w = (case out of
          LoginLocked \<Rightarrow> (Inr (Inl AccountLockedError), w3)
        | LoginFailed \<Rightarrow> (Inr (Inl AuthenticationError), w3)
        | LoginOk user c \<Rightarrow>
           (let w4 = limit_reset rl ''login'' (auc_email cmd) (gate_success brute BfLogin (auc_email cmd) w3);
                (rehashed, w5) = upgrade_hash_if_stale ph th salt (lt_rehash tm) c (auc_password cmd) w4
            in (Inr (Inr \<lparr>as_user = user, as_rehashed = rehashed, as_status = mfa_status mfa (u_id user)\<rparr>), w5)))"
proof -
  obtain b1 w1 where l: "limit_check rl ''login'' (auc_email cmd) w = (b1, w1)" by fastforce
  obtain b2 w2 where g: "gate_check brute (lt_gate tm) (lt_limit tm) BfLogin (auc_email cmd) w1 = (b2, w2)"
    by fastforce
  have k: "cw_credentials w1 = cw_credentials w" "cw_users w1 = cw_users w"
    "cw_credentials w2 = cw_credentials w" "cw_users w2 = cw_users w"
    using limit_check_keeps [of rl "''login''" "auc_email cmd" w]
      gate_check_keeps [of brute "lt_gate tm" "lt_limit tm" BfLogin "auc_email cmd" w1] l g by auto
  have a: "login_admitted rl brute tm (auc_email cmd) w \<longleftrightarrow> b1 \<and> b2"
    and lw: "login_world rl brute tm (auc_email cmd) w = w2"
    using l g by (auto simp: login_admitted_def login_world_def)
  show ?thesis
  proof (cases b1)
    case False
    then show ?thesis using thrown [of w1] l a k by (simp add: authenticate_execute_def)
  next
    case b1: True
    show ?thesis
    proof (cases b2)
      case False
      then show ?thesis using gated [of w2] l g a k b1 by (simp add: authenticate_execute_def)
    next
      case True
      show ?thesis
      proof (cases "email_create (auc_email cmd)")
        case (Inl e)
        then show ?thesis using malformed [of w2 e] l g k b1 True by (simp add: authenticate_execute_def)
      next
        case (Inr email)
        obtain out w3 where t: "login_transaction ph rl policy brute tm cmd email w2 = (out, w3)" by fastforce
        show ?thesis
          using run [of email out w3] l g a b1 True Inr t lw
          by (cases out) (simp_all add: authenticate_execute_def)
      qed
    qed
  qed
qed

lemma login_transaction_ok_iff:
  "(\<exists>user c. fst (login_transaction ph rl policy brute tm cmd email w) = LoginOk user c) \<longleftrightarrow>
     (\<exists>user c. users_find_by_email (cw_users w) email = Some user \<and>
        credentials_find (cw_credentials w) (u_id user) = Some c \<and> \<not> is_locked_at (lt_now tm) c \<and>
        ph_verify ph (auc_password cmd) (cr_hash c) \<and> u_status user \<in> {UPending, UActive})"
  by (auto simp: login_transaction_def can_authenticate_def Let_def split: option.split)

lemma authenticate_ok_iff:
  "(\<exists>r. fst (authenticate_execute ph rl policy mfa brute tm th salt cmd w) = Inr (Inr r)) \<longleftrightarrow>
     login_admitted rl brute tm (auc_email cmd) w \<and>
     (\<exists>email user c. email_create (auc_email cmd) = Inr email \<and>
        users_find_by_email (cw_users w) email = Some user \<and>
        credentials_find (cw_credentials w) (u_id user) = Some c \<and> \<not> is_locked_at (lt_now tm) c \<and>
        ph_verify ph (auc_password cmd) (cr_hash c) \<and> u_status user \<in> {UPending, UActive})"
proof (cases rule: authenticate_cases [of ph rl policy mfa brute tm th salt cmd w])
  case (run email out w3)
  have "(\<exists>user c. out = LoginOk user c) \<longleftrightarrow>
     (\<exists>user c. users_find_by_email (cw_users w) email = Some user \<and>
        credentials_find (cw_credentials w) (u_id user) = Some c \<and> \<not> is_locked_at (lt_now tm) c \<and>
        ph_verify ph (auc_password cmd) (cr_hash c) \<and> u_status user \<in> {UPending, UActive})"
    using login_transaction_ok_iff [of ph rl policy brute tm cmd email
        "login_world rl brute tm (auc_email cmd) w"] run(3) by simp
  moreover have "(\<exists>r. fst (authenticate_execute ph rl policy mfa brute tm th salt cmd w) = Inr (Inr r)) \<longleftrightarrow>
      (\<exists>user c. out = LoginOk user c)"
    using run(4) by (cases out) (auto simp: Let_def split: prod.split)
  ultimately show ?thesis using run(1,2) by simp
qed auto

lemma authenticate_error:
  "fst (authenticate_execute ph rl policy mfa brute tm th salt cmd w) = Inr (Inl e) \<Longrightarrow>
     e = AuthenticationError \<or> e = AccountLockedError"
proof (cases rule: authenticate_cases [of ph rl policy mfa brute tm th salt cmd w])
  case (run email out w3)
  then show "fst (authenticate_execute ph rl policy mfa brute tm th salt cmd w) = Inr (Inl e) \<Longrightarrow>
     e = AuthenticationError \<or> e = AccountLockedError"
    by (cases out) (auto simp: Let_def split: prod.splits)
qed auto

section \<open>Lockout across logins\<close>

definition credentials_inv :: "credential_store \<Rightarrow> bool" where
  "credentials_inv m \<longleftrightarrow> (\<forall>k c. credentials_find m k = Some c \<longrightarrow> cr_user c = k)"

lemma credentials_find_save [simp]:
  "credentials_find (credentials_save c m) k = (if k = cr_user c then Some c else credentials_find m k)"
  by (simp add: credentials_find_def credentials_save_def)

lemma cr_user_simps [simp]:
  "cr_user (record_failed_attempt policy now c) = cr_user c"
  "cr_user (record_successful_attempt now c) = cr_user c"
  "cr_user (with_password_hash now h c) = cr_user c"
  "cr_user (rotate_password now h depth c) = cr_user c"
  "cr_user (invalidate_for_deleted_user now c) = cr_user c"
  by (simp_all add: record_failed_attempt_def record_successful_attempt_def with_password_hash_def
      rotate_password_def invalidate_for_deleted_user_def Let_def)

text \<open>A login changes at most the credential of the user its email names.\<close>

definition credential_effect ::
  "lockout_policy \<Rightarrow> int \<Rightarrow> credential_store \<Rightarrow> credential_store \<Rightarrow> bool" where
  "credential_effect policy now m m' \<longleftrightarrow>
     (\<forall>k. credentials_find m' k = credentials_find m k) \<or>
     (\<exists>u c c'. credentials_find m u = Some c \<and> cr_user c' = cr_user c \<and>
        (is_locked_at now c \<longrightarrow> c' = record_failed_attempt policy now c) \<and>
        (\<forall>k. credentials_find m' k = (if k = cr_user c then Some c' else credentials_find m k)))"

lemma credential_effect_refl [simp]: "credential_effect policy now m m"
  by (simp add: credential_effect_def)

lemma credential_effectI:
  assumes "credentials_find m u = Some c" "cr_user c' = cr_user c"
    and "is_locked_at now c \<longrightarrow> c' = record_failed_attempt policy now c"
    and "\<And>k. credentials_find m' k = (if k = cr_user c then Some c' else credentials_find m k)"
  shows "credential_effect policy now m m'"
  using assms unfolding credential_effect_def by blast

lemma login_transaction_effect:
  assumes inv: "credentials_inv (cw_credentials w)"
    and run: "login_transaction ph rl policy brute tm cmd email w = (out, w')"
  shows "credential_effect policy (lt_now tm) (cw_credentials w) (cw_credentials w')"
    and "out = LoginOk user c' \<Longrightarrow> \<exists>c. credentials_find (cw_credentials w) (u_id user) = Some c \<and>
      cr_user c = u_id user \<and> cr_user c' = cr_user c \<and> \<not> is_locked_at (lt_now tm) c \<and>
      (\<forall>k. credentials_find (cw_credentials w') k =
         (if k = cr_user c then Some c' else credentials_find (cw_credentials w) k))"
proof -
  have both: "credential_effect policy (lt_now tm) (cw_credentials w) (cw_credentials w') \<and>
      (\<forall>user c'. out = LoginOk user c' \<longrightarrow> (\<exists>c. credentials_find (cw_credentials w) (u_id user) = Some c \<and>
      cr_user c = u_id user \<and> cr_user c' = cr_user c \<and> \<not> is_locked_at (lt_now tm) c \<and>
      (\<forall>k. credentials_find (cw_credentials w') k =
         (if k = cr_user c then Some c' else credentials_find (cw_credentials w) k))))"
  proof (cases "users_find_by_email (cw_users w) email")
    case None
    then show ?thesis using run by (auto simp: login_transaction_def)
  next
    case user: (Some user)
    show ?thesis
    proof (cases "credentials_find (cw_credentials w) (u_id user)")
      case None
      then show ?thesis using run user by (auto simp: login_transaction_def)
    next
      case (Some c)
      have u: "cr_user c = u_id user" using inv Some by (simp add: credentials_inv_def)
      consider (locked) "is_locked_at (lt_now tm) c"
        | (wrong) "\<not> is_locked_at (lt_now tm) c" "\<not> ph_verify ph (auc_password cmd) (cr_hash c)"
        | (status) "\<not> is_locked_at (lt_now tm) c" "ph_verify ph (auc_password cmd) (cr_hash c)"
            "u_status user \<notin> set can_authenticate"
        | (ok) "\<not> is_locked_at (lt_now tm) c" "ph_verify ph (auc_password cmd) (cr_hash c)"
            "u_status user \<in> set can_authenticate"
        by blast
      then show ?thesis
      proof cases
        case locked
        then have "out = LoginLocked"
          "w' = save_credential (record_failed_attempt policy (lt_now tm) c) w"
          using run user Some by (auto simp: login_transaction_def)
        then show ?thesis
          using credential_effectI [OF Some, of "record_failed_attempt policy (lt_now tm) c"] by simp
      next
        case wrong
        then have "out = LoginFailed"
          "w' = limit_failure rl ''login'' (auc_email cmd) (save_credential (record_failed_attempt policy (lt_now tm) c) w)"
          using run user Some by (auto simp: login_transaction_def)
        then show ?thesis
          using credential_effectI [OF Some, of "record_failed_attempt policy (lt_now tm) c"] by simp
      next
        case status
        then show ?thesis using run user Some by (auto simp: login_transaction_def)
      next
        case ok
        let ?cl = "record_successful_attempt (lt_now tm) c"
        have o: "out = LoginOk user ?cl"
          "w' = (if ?cl \<noteq> c then save_credential ?cl w else w)"
          using run user Some ok by (auto simp: login_transaction_def Let_def)
        have f: "credentials_find (cw_credentials w') k =
            (if k = cr_user c then Some ?cl else credentials_find (cw_credentials w) k)" for k
          unfolding o(2) using Some u by auto
        then have "credential_effect policy (lt_now tm) (cw_credentials w) (cw_credentials w')"
          using ok credential_effectI [OF Some, of ?cl] by simp
        then show ?thesis using o(1) f Some u ok by auto
      qed
    qed
  qed
  then show "credential_effect policy (lt_now tm) (cw_credentials w) (cw_credentials w')" by blast
  show "\<exists>c. credentials_find (cw_credentials w) (u_id user) = Some c \<and>
      cr_user c = u_id user \<and> cr_user c' = cr_user c \<and> \<not> is_locked_at (lt_now tm) c \<and>
      (\<forall>k. credentials_find (cw_credentials w') k =
         (if k = cr_user c then Some c' else credentials_find (cw_credentials w) k))"
    if "out = LoginOk user c'" using both that by blast
qed

lemma upgrade_hash_effect:
  "cw_credentials (snd (upgrade_hash_if_stale ph th salt now c pw w)) = cw_credentials w \<or>
   cw_credentials (snd (upgrade_hash_if_stale ph th salt now c pw w)) =
     credentials_save (with_password_hash now (ph_hash ph salt pw) c) (cw_credentials w)"
  by (simp add: upgrade_hash_if_stale_def)

lemma upgrade_hash_users [simp]:
  "cw_users (snd (upgrade_hash_if_stale ph th salt now c pw w)) = cw_users w"
  by (simp add: upgrade_hash_if_stale_def)

lemma login_transaction_users:
  "cw_users (snd (login_transaction ph rl policy brute tm cmd email w)) = cw_users w"
  by (auto simp: login_transaction_def Let_def split: option.split)

lemma authenticate_effect:
  assumes inv: "credentials_inv (cw_credentials w)"
  shows "credential_effect policy (lt_now tm) (cw_credentials w)
      (cw_credentials (snd (authenticate_execute ph rl policy mfa brute tm th salt cmd w)))"
proof (cases rule: authenticate_cases [of ph rl policy mfa brute tm th salt cmd w])
  case (run email out w3)
  have i: "credentials_inv (cw_credentials (login_world rl brute tm (auc_email cmd) w))"
    using inv by simp
  note eff = login_transaction_effect [OF i run(3)]
  show ?thesis
  proof (cases out)
    case (LoginOk user c')
    obtain c where c: "credentials_find (cw_credentials w) (u_id user) = Some c" "cr_user c = u_id user"
      "cr_user c' = cr_user c" "\<not> is_locked_at (lt_now tm) c"
      "\<forall>k. credentials_find (cw_credentials w3) k =
         (if k = cr_user c then Some c' else credentials_find (cw_credentials w) k)"
      using eff(2) [OF LoginOk] by auto
    let ?w4 = "limit_reset rl ''login'' (auc_email cmd) (gate_success brute BfLogin (auc_email cmd) w3)"
    let ?w5 = "snd (upgrade_hash_if_stale ph th salt (lt_rehash tm) c' (auc_password cmd) ?w4)"
    have w5: "snd (authenticate_execute ph rl policy mfa brute tm th salt cmd w) = ?w5"
      using run(4) LoginOk by (simp add: Let_def split: prod.split)
    have "\<exists>c''. cr_user c'' = cr_user c \<and> (\<forall>k. credentials_find (cw_credentials ?w5) k =
        (if k = cr_user c then Some c'' else credentials_find (cw_credentials w) k))"
      using upgrade_hash_effect [of ph th salt "lt_rehash tm" c' "auc_password cmd" ?w4]
    proof
      assume "cw_credentials ?w5 = cw_credentials ?w4"
      then show ?thesis using c(3,5) by (intro exI [of _ c']) simp
    next
      assume "cw_credentials ?w5 = credentials_save (with_password_hash (lt_rehash tm)
          (ph_hash ph salt (auc_password cmd)) c') (cw_credentials ?w4)"
      then show ?thesis
        using c(3,5) by (intro exI [of _ "with_password_hash (lt_rehash tm)
          (ph_hash ph salt (auc_password cmd)) c'"]) simp
    qed
    then obtain c'' where "cr_user c'' = cr_user c" "\<forall>k. credentials_find (cw_credentials ?w5) k =
        (if k = cr_user c then Some c'' else credentials_find (cw_credentials w) k)" by blast
    then show ?thesis unfolding w5 using c(1,4) by (intro credential_effectI) auto
  qed (use eff(1) run(4) in auto)
qed simp_all

lemma authenticate_users:
  "cw_users (snd (authenticate_execute ph rl policy mfa brute tm th salt cmd w)) = cw_users w"
proof (cases rule: authenticate_cases [of ph rl policy mfa brute tm th salt cmd w])
  case (run email out w3)
  have "cw_users w3 = cw_users w"
    using login_transaction_users [of ph rl policy brute tm cmd email
        "login_world rl brute tm (auc_email cmd) w"] run(3) by simp
  then show ?thesis
    using run(4) upgrade_hash_users
    by (cases out) (auto simp: Let_def split: prod.split, metis (no_types, lifting) gate_success_keeps(1)
      limit_reset_keeps(1) snd_conv upgrade_hash_users)
qed simp_all

lemma credential_effect_inv:
  assumes "credential_effect policy now m m'" "credentials_inv m"
  shows "credentials_inv m'"
  unfolding credentials_inv_def
proof (intro allI impI)
  fix k d
  assume d: "credentials_find m' k = Some d"
  from assms(1) [unfolded credential_effect_def] show "cr_user d = k"
  proof
    assume "\<forall>k. credentials_find m' k = credentials_find m k"
    then show ?thesis using d assms(2) by (simp add: credentials_inv_def)
  next
    assume "\<exists>u c c'. credentials_find m u = Some c \<and> cr_user c' = cr_user c \<and>
        (is_locked_at now c \<longrightarrow> c' = record_failed_attempt policy now c) \<and>
        (\<forall>k. credentials_find m' k = (if k = cr_user c then Some c' else credentials_find m k))"
    then obtain u c c' where cc: "cr_user c' = cr_user c" "credentials_find m u = Some c"
      "is_locked_at now c \<longrightarrow> c' = record_failed_attempt policy now c"
      "\<forall>k. credentials_find m' k = (if k = cr_user c then Some c' else credentials_find m k)" by blast
    from spec [OF cc(4), of k] show ?thesis
      using d cc(1) assms(2) by (cases "k = cr_user c") (simp_all add: credentials_inv_def)
  qed
qed

text \<open>A credential locked at least until some time, with its counter at the threshold.\<close>

definition locked_through :: "lockout_policy \<Rightarrow> int \<Rightarrow> credential \<Rightarrow> bool" where
  "locked_through policy l c \<longleftrightarrow> lp_threshold policy \<le> cr_failed c \<and>
     (\<exists>u. cr_locked_until c = Some u \<and> l \<le> u)"

definition policy_ok :: "lockout_policy \<Rightarrow> bool" where
  "policy_ok policy \<longleftrightarrow> 0 < lp_base policy \<and> 1 \<le> lp_factor policy \<and> 0 < lp_max policy"

lemma lock_duration_ms_min:
  assumes "policy_ok policy" "lp_threshold policy \<le> n"
  shows "min (lp_base policy) (lp_max policy) \<le> lock_duration_ms n policy \<and> lock_duration_ms n policy \<noteq> 0"
proof -
  have "lock_duration_ms (lp_threshold policy) policy = min (lp_base policy) (lp_max policy)"
    by (simp add: lock_duration_ms_def)
  then show ?thesis
    using lock_duration_ms_mono [of policy "lp_threshold policy" n] assms lock_duration_ms_pos [of policy n]
    by (simp add: policy_ok_def)
qed

lemma record_failed_attempt_locks:
  assumes "policy_ok policy" "lp_threshold policy \<le> cr_failed c + 1" "l \<le> now + min (lp_base policy) (lp_max policy)"
  shows "locked_through policy l (record_failed_attempt policy now c)"
  using lock_duration_ms_min [OF assms(1,2)] assms(2,3)
  by (simp add: locked_through_def record_failed_attempt_def Let_def)

lemma locked_through_is_locked: "locked_through policy l c \<Longrightarrow> now < l \<Longrightarrow> is_locked_at now c"
  by (auto simp: locked_through_def is_locked_at_def)

text \<open>One login attempt, whoever makes it, cannot shorten a lock while it lasts.\<close>

lemma authenticate_keeps_lock:
  assumes "policy_ok policy" "credentials_inv (cw_credentials w)"
    and "credentials_find (cw_credentials w) u = Some c" "locked_through policy l c"
    and "lt_now tm < l" "l \<le> lt_now tm + min (lp_base policy) (lp_max policy)"
  shows "\<exists>c'. credentials_find (cw_credentials
      (snd (authenticate_execute ph rl policy mfa brute tm th salt cmd w))) u = Some c' \<and>
      locked_through policy l c'"
  using authenticate_effect [OF assms(2), of policy tm ph rl mfa brute th salt cmd]
  unfolding credential_effect_def
proof
  assume "\<forall>k. credentials_find (cw_credentials (snd (authenticate_execute ph rl policy mfa brute tm th salt cmd w))) k
      = credentials_find (cw_credentials w) k"
  then show ?thesis using assms(3,4) by simp
next
  assume "\<exists>v d d'. credentials_find (cw_credentials w) v = Some d \<and> cr_user d' = cr_user d \<and>
      (is_locked_at (lt_now tm) d \<longrightarrow> d' = record_failed_attempt policy (lt_now tm) d) \<and>
      (\<forall>k. credentials_find (cw_credentials (snd (authenticate_execute ph rl policy mfa brute tm th salt cmd w))) k
         = (if k = cr_user d then Some d' else credentials_find (cw_credentials w) k))"
  then obtain v d d' where d: "credentials_find (cw_credentials w) v = Some d" "cr_user d' = cr_user d"
      "is_locked_at (lt_now tm) d \<longrightarrow> d' = record_failed_attempt policy (lt_now tm) d"
      "\<forall>k. credentials_find (cw_credentials (snd (authenticate_execute ph rl policy mfa brute tm th salt cmd w))) k
         = (if k = cr_user d then Some d' else credentials_find (cw_credentials w) k)" by blast
  show ?thesis
  proof (cases "u = cr_user d")
    case False
    then show ?thesis using spec [OF d(4), of u] assms(3,4) by simp
  next
    case True
    have "v = u" using assms(2) d(1) True by (simp add: credentials_inv_def)
    then have "d = c" using d(1) assms(3) by simp
    then have "d' = record_failed_attempt policy (lt_now tm) c"
      using d(3) locked_through_is_locked [OF assms(4,5)] by simp
    moreover have "lp_threshold policy \<le> cr_failed c + 1" using assms(4) by (simp add: locked_through_def)
    ultimately have "locked_through policy l d'"
      using record_failed_attempt_locks [OF assms(1) _ assms(6)] by simp
    then show ?thesis using spec [OF d(4), of u] True by simp
  qed
qed

definition login_step ::
  "password_hasher \<Rightarrow> 'l rate_limiter \<Rightarrow> lockout_policy \<Rightarrow> mfa_checker \<Rightarrow> 'l brute \<Rightarrow>
     login_times \<times> bool \<times> string \<times> authenticate_command \<Rightarrow> ('l, 'v) cred_world \<Rightarrow> ('l, 'v) cred_world" where
  "login_step ph rl policy mfa brute l w =
     (case l of (tm, th, salt, cmd) \<Rightarrow> snd (authenticate_execute ph rl policy mfa brute tm th salt cmd w))"

lemma logins_keep_lock:
  assumes "policy_ok policy" "credentials_inv (cw_credentials w)"
    and "credentials_find (cw_credentials w) u = Some c" "locked_through policy (t + d) c"
    and "d = min (lp_base policy) (lp_max policy)"
    and "\<forall>(tm, th, salt, cmd) \<in> set ls. t \<le> lt_now tm \<and> lt_now tm < t + d"
  shows "cw_users (fold (login_step ph rl policy mfa brute) ls w) = cw_users w \<and>
    credentials_inv (cw_credentials (fold (login_step ph rl policy mfa brute) ls w)) \<and>
    (\<exists>c'. credentials_find (cw_credentials (fold (login_step ph rl policy mfa brute) ls w)) u = Some c' \<and>
      locked_through policy (t + d) c')"
  using assms(2-4,6)
proof (induction ls arbitrary: w c)
  case Nil
  then show ?case by auto
next
  case (Cons l ls)
  obtain tm th salt cmd where l: "l = (tm, th, salt, cmd)" by (cases l)
  have now: "t \<le> lt_now tm" "lt_now tm < t + d" using Cons.prems(4) l by auto
  let ?w = "snd (authenticate_execute ph rl policy mfa brute tm th salt cmd w)"
  have inv: "credentials_inv (cw_credentials ?w)"
    using authenticate_effect [OF Cons.prems(1)] credential_effect_inv Cons.prems(1) by blast
  have le: "t + d \<le> lt_now tm + min (lp_base policy) (lp_max policy)" using now assms(5) by simp
  obtain c' where c': "credentials_find (cw_credentials ?w) u = Some c'" "locked_through policy (t + d) c'"
    using authenticate_keeps_lock [OF assms(1) Cons.prems(1-3) now(2) le] by blast
  from Cons.IH [OF inv c'] Cons.prems(4) l authenticate_users show ?case
    by (simp add: login_step_def)
qed

section \<open>Properties\<close>

lemma authenticate_thrown:
  "fst (authenticate_execute ph rl policy mfa brute tm th salt cmd w) = Inl x \<longleftrightarrow>
     x = RateLimitThrown \<and>
     \<not> rlr_allowed (fst (rl_check rl \<lparr>rlk_action = ''login'', rlk_identifier = auc_email cmd\<rparr> (cw_limiter w)))"
  by (auto simp: authenticate_execute_def limit_check_def Let_def split: prod.split bool.split sum.split login_outcome.split)

text \<open>
  C8: Login: \<open>AuthenticateWithPassword\<close> signs in exactly when the rate limiter and the gate admit
  the attempt, the email is well formed, an account that is not deleted has it and is pending or
  active, its credential is not locked, and the password verifies. It throws exactly when the rate
  limiter refuses the submitted address, and then always the same exception; what it throws does
  not depend on the accounts. Every other answer is one of two errors with the same code and the
  same status, so no refusal says by its code or status whether the account exists.
\<close>

theorem login_answers:
  "((\<exists>r. fst (authenticate_execute ph rl policy mfa brute tm th salt cmd w) = Inr (Inr r)) \<longleftrightarrow>
     login_admitted rl brute tm (auc_email cmd) w \<and>
     (\<exists>email user c. email_create (auc_email cmd) = Inr email \<and>
        users_find_by_email (cw_users w) email = Some user \<and>
        credentials_find (cw_credentials w) (u_id user) = Some c \<and> \<not> is_locked_at (lt_now tm) c \<and>
        ph_verify ph (auc_password cmd) (cr_hash c) \<and> u_status user \<in> {UPending, UActive})) \<and>
   (fst (authenticate_execute ph rl policy mfa brute tm th salt cmd w) = Inl x \<longleftrightarrow>
      x = RateLimitThrown \<and>
      \<not> rlr_allowed (fst (rl_check rl \<lparr>rlk_action = ''login'', rlk_identifier = auc_email cmd\<rparr> (cw_limiter w)))) \<and>
   (fst (authenticate_execute ph rl policy mfa brute tm th salt cmd w) = Inr (Inl e) \<longrightarrow>
      error_code e = ''AUTHENTICATION_FAILED'' \<and> http_status_hint e = 401)"
  using authenticate_ok_iff [of ph rl policy mfa brute tm th salt cmd w]
    authenticate_thrown [of ph rl policy mfa brute tm th salt cmd w x]
    authenticate_error [of ph rl policy mfa brute tm th salt cmd w e]
  by (intro conjI) (blast, blast, auto)

text \<open>
  C9: The lockout holds: once a failed guess brings the counter of a credential to the threshold,
  every login with its email during the base duration (or the cap, if smaller) is refused, the
  correct password included, whatever logins of this or other accounts come in between.
\<close>

theorem lockout_holds:
  assumes "0 < lp_base policy" "1 \<le> lp_factor policy" "0 < lp_max policy"
    and "credentials_inv (cw_credentials w)"
    and "email_create (auc_email cmd) = Inr email" "users_find_by_email (cw_users w) email = Some user"
    and "credentials_find (cw_credentials w) (u_id user) = Some c"
    and "lp_threshold policy \<le> cr_failed c + 1"
    and "login_admitted rl brute tm (auc_email cmd) w"
    and "is_locked_at (lt_now tm) c \<or> \<not> ph_verify ph (auc_password cmd) (cr_hash c)"
    and "\<forall>(tm', th', salt', cmd') \<in> set ls. lt_now tm \<le> lt_now tm' \<and>
        lt_now tm' < lt_now tm + min (lp_base policy) (lp_max policy)"
    and "email_create (auc_email cmd2) = Inr email" "lt_now tm \<le> lt_now tm2"
    and "lt_now tm2 < lt_now tm + min (lp_base policy) (lp_max policy)"
  shows "fst (authenticate_execute ph rl policy mfa brute tm2 th2 salt2 cmd2
      (fold (login_step ph rl policy mfa brute) ls
        (snd (authenticate_execute ph rl policy mfa brute tm th salt cmd w)))) \<noteq> Inr (Inr r)"
proof -
  have ok: "policy_ok policy" using assms(1-3) by (simp add: policy_ok_def)
  let ?w1 = "snd (authenticate_execute ph rl policy mfa brute tm th salt cmd w)"
  let ?d = "min (lp_base policy) (lp_max policy)"
  let ?c1 = "record_failed_attempt policy (lt_now tm) c"
  have u: "cr_user c = u_id user" using assms(4,7) by (simp add: credentials_inv_def)
  have "cw_credentials ?w1 = credentials_save ?c1 (cw_credentials w)"
  proof (cases rule: authenticate_cases [of ph rl policy mfa brute tm th salt cmd w])
    case (run em out w3)
    then have "em = email" using assms(5) by simp
    then have "(out = LoginLocked \<or> out = LoginFailed) \<and> cw_credentials w3 = credentials_save ?c1 (cw_credentials w)"
      using run(3) assms(6,7,10) by (auto simp: login_transaction_def Let_def split: if_splits)
    then show ?thesis using run(4) by auto
  qed (use assms(5,9) in simp_all)
  then have c1: "credentials_find (cw_credentials ?w1) (u_id user) = Some ?c1" using u by simp
  have "locked_through policy (lt_now tm + ?d) ?c1"
    using record_failed_attempt_locks [OF ok assms(8)] by simp
  moreover have "credentials_inv (cw_credentials ?w1)"
    using authenticate_effect [OF assms(4)] credential_effect_inv assms(4) by blast
  ultimately obtain c2 where c2: "credentials_find (cw_credentials (fold (login_step ph rl policy mfa brute) ls ?w1))
      (u_id user) = Some c2" "locked_through policy (lt_now tm + ?d) c2"
    "cw_users (fold (login_step ph rl policy mfa brute) ls ?w1) = cw_users w"
    using logins_keep_lock [OF ok _ c1 _ HOL.refl assms(11)] authenticate_users by metis
  have "is_locked_at (lt_now tm2) c2" using locked_through_is_locked [OF c2(2) assms(14)] .
  with c2(1,3) assms(6,12) show ?thesis
    using authenticate_ok_iff [of ph rl policy mfa brute tm2 th2 salt2 cmd2
        "fold (login_step ph rl policy mfa brute) ls ?w1"] by auto
qed

definition demo_hasher :: password_hasher where
  "demo_hasher = \<lparr>ph_hash = (\<lambda>salt p. salt @ p), ph_verify = (\<lambda>p h. h = ''s'' @ p),
     ph_needs_rehash = (\<lambda>_. False)\<rparr>"

definition demo_world :: "(unit, unit) cred_world" where
  "demo_world = \<lparr>cw_users = [(''u1'', demo_user)],
     cw_credentials = [(''u1'', credential_create ''c1'' 0 ''u1'' ''scorrect horse'')],
     cw_email_tokens = [], cw_reset_tokens = [], cw_attempts = [], cw_limiter = (),
     cw_sessions = (), cw_sent = []\<rparr>"

definition demo_times :: "int \<Rightarrow> login_times" where
  "demo_times now = \<lparr>lt_gate = now, lt_limit = now, lt_now = now, lt_failure = now, lt_rehash = now\<rparr>"

definition demo_login :: "string \<Rightarrow> authenticate_command" where
  "demo_login pw = \<lparr>auc_email = ''ada@example.com'', auc_password = pw\<rparr>"

definition demo_policy :: lockout_policy where
  "demo_policy = \<lparr>lp_threshold = 1, lp_base = 100, lp_factor = 2, lp_max = 1000\<rparr>"

lemma demo_login_facts:
  "email_create (auc_email (demo_login pw)) = Inr ''ada@example.com''"
  "users_find_by_email (cw_users demo_world) ''ada@example.com'' = Some demo_user"
  "credentials_find (cw_credentials demo_world) (u_id demo_user) =
     Some (credential_create ''c1'' 0 ''u1'' ''scorrect horse'')"
  "credentials_inv (cw_credentials demo_world)"
  "login_admitted (noop_rate_limiter 0) None (demo_times t) (auc_email (demo_login pw)) demo_world"
proof -
  show "email_create (auc_email (demo_login pw)) = Inr ''ada@example.com''"
    by (simp add: demo_login_def) code_simp
  show "users_find_by_email (cw_users demo_world) ''ada@example.com'' = Some demo_user"
    "credentials_find (cw_credentials demo_world) (u_id demo_user) =
     Some (credential_create ''c1'' 0 ''u1'' ''scorrect horse'')"
    by code_simp+
  show "credentials_inv (cw_credentials demo_world)"
    by (auto simp: credentials_inv_def credentials_find_def demo_world_def credential_create_def
        split: if_splits)
  show "login_admitted (noop_rate_limiter 0) None (demo_times t) (auc_email (demo_login pw)) demo_world"
    by (simp add: login_admitted_def limit_check_def gate_check_def noop_rate_limiter_def)
qed

theorem login_answers_witness:
  "\<exists>r. fst (authenticate_execute demo_hasher (noop_rate_limiter 0) demo_policy None None (demo_times 5)
     False [] (demo_login ''correct horse'') demo_world) = Inr (Inr r)"
proof -
  have "\<not> is_locked_at (lt_now (demo_times 5)) (credential_create ''c1'' 0 ''u1'' ''scorrect horse'')"
    "ph_verify demo_hasher (auc_password (demo_login ''correct horse''))
      (cr_hash (credential_create ''c1'' 0 ''u1'' ''scorrect horse''))"
    "u_status demo_user \<in> {UPending, UActive}"
    by (simp_all add: is_locked_at_def credential_create_def demo_hasher_def demo_login_def
        demo_user_def user_register_def)
  then show ?thesis
    using login_answers [of demo_hasher "noop_rate_limiter 0" demo_policy None None "demo_times 5"
        False "[]" "demo_login ''correct horse''" demo_world RateLimitThrown AuthenticationError] demo_login_facts
    by blast
qed

theorem lockout_holds_witness:
  "fst (authenticate_execute demo_hasher (noop_rate_limiter 0) demo_policy None None (demo_times 50)
     False [] (demo_login ''correct horse'')
     (snd (authenticate_execute demo_hasher (noop_rate_limiter 0) demo_policy None None (demo_times 0)
        False [] (demo_login ''wrong'') demo_world))) \<noteq>
   Inr (Inr \<lparr>as_user = demo_user, as_rehashed = False, as_status = SignedIn\<rparr>)"
proof -
  have v: "\<not> ph_verify demo_hasher (auc_password (demo_login ''wrong''))
      (cr_hash (credential_create ''c1'' 0 ''u1'' ''scorrect horse''))"
    by (simp add: credential_create_def demo_hasher_def demo_login_def)
  have "fst (authenticate_execute demo_hasher (noop_rate_limiter 0) demo_policy None None (demo_times 50)
     False [] (demo_login ''correct horse'')
     (fold (login_step demo_hasher (noop_rate_limiter 0) demo_policy None None) []
     (snd (authenticate_execute demo_hasher (noop_rate_limiter 0) demo_policy None None (demo_times 0)
        False [] (demo_login ''wrong'') demo_world)))) \<noteq>
   Inr (Inr \<lparr>as_user = demo_user, as_rehashed = False, as_status = SignedIn\<rparr>)"
    by (rule lockout_holds [OF _ _ _ demo_login_facts(4,1,2,3) _ demo_login_facts(5) disjI2 [OF v] _
          demo_login_facts(1)])
      (simp_all add: demo_policy_def demo_times_def credential_create_def)
  then show ?thesis by simp
qed

end
