(* ===== verification/CredentialRuns.thy ===== *)
theory CredentialRuns
  imports CredentialFlows
begin

text \<open>
  Runs of the credential use cases: a call is one use case with what it draws (times, ids,
  salts, raw tokens), the dependencies are the constructor arguments of the use cases, and a
  run is a list of calls. The lemmas say what a call does to the reset tokens and to the
  credential of one user; the properties speak about any run.
\<close>

section \<open>Calls\<close>

record ('l, 'v) cred_deps =
  cd_digest :: "string \<Rightarrow> string"
  cd_hasher :: password_hasher
  cd_limiter :: "'l rate_limiter"
  cd_revoke :: "string \<Rightarrow> 'v \<Rightarrow> 'v option"
  cd_lockout :: lockout_policy
  cd_passwords :: password_policy
  cd_depth :: nat
  cd_ttl :: "int option"
  cd_mfa :: mfa_checker
  cd_brute :: "'l brute"

datatype cred_call =
    Login login_times bool string authenticate_command
  | ConfirmReset reset_times string string confirm_reset_command
  | ChangePw int string change_password_command
  | RequestReset int string string bool string
  | RequestVerification int string string bool string
  | ConfirmVerification int int string
  | Register int string string string register_password_command
  | UserEvent int user_event

definition cred_step :: "('l, 'v) cred_deps \<Rightarrow> cred_call \<Rightarrow> ('l, 'v) cred_world \<Rightarrow> ('l, 'v) cred_world" where
  "cred_step d call w =
     (case call of
        Login tm th salt cmd \<Rightarrow> snd (authenticate_execute (cd_hasher d) (cd_limiter d) (cd_lockout d)
          (cd_mfa d) (cd_brute d) tm th salt cmd w)
      | ConfirmReset tm fresh salt cmd \<Rightarrow> snd (confirm_reset_execute (cd_digest d) (cd_hasher d)
          (cd_revoke d) (cd_limiter d) (cd_passwords d) (cd_depth d) (cd_brute d) tm fresh salt cmd w)
      | ChangePw now salt cmd \<Rightarrow> snd (change_password_execute (cd_hasher d) (cd_passwords d)
          (cd_depth d) now salt cmd w)
      | RequestReset now fresh raw th email \<Rightarrow> snd (request_reset_execute (cd_digest d) (cd_limiter d)
          (cd_ttl d) now fresh raw th email w)
      | RequestVerification now fresh raw th email \<Rightarrow> snd (request_verification_execute (cd_digest d)
          (cd_ttl d) now fresh raw th email w)
      | ConfirmVerification now now2 token \<Rightarrow> snd (confirm_verification_execute (cd_digest d) now now2 token w)
      | Register now user cred salt cmd \<Rightarrow> snd (register_with_password_execute (cd_hasher d)
          (cd_limiter d) (cd_passwords d) now user cred salt cmd w)
      | UserEvent now event \<Rightarrow> handle_user_deleted now event w)"

definition cred_run :: "('l, 'v) cred_deps \<Rightarrow> cred_call list \<Rightarrow> ('l, 'v) cred_world \<Rightarrow> ('l, 'v) cred_world" where
  "cred_run d calls w = fold (cred_step d) calls w"

section \<open>Reset tokens\<close>

text \<open>No outstanding token of the store has this digest.\<close>

definition spent :: "string \<Rightarrow> token_store \<Rightarrow> bool" where
  "spent h m \<longleftrightarrow> (\<forall>t \<in> set (map_values m). ot_hash t = h \<longrightarrow> ot_consumed_at t \<noteq> None)"

lemma map_values_set_subset: "set (map_values (map_set k v m)) \<subseteq> insert v (set (map_values m))"
  by (induction m) (auto simp: map_values_def)

lemma spent_save: "spent h m \<Longrightarrow> ot_hash t \<noteq> h \<or> ot_consumed_at t \<noteq> None \<Longrightarrow> spent h (tokens_save t m)"
  using map_values_set_subset [of "ot_id t" t m] by (auto simp: spent_def tokens_save_def)

lemma spent_retire: "spent h m \<Longrightarrow> spent h (tokens_invalidate_outstanding u now m)"
  by (fastforce simp: spent_def map_values_def tokens_invalidate_outstanding_def token_invalidate_def
      token_is_consumed_def)

lemma login_transaction_tokens:
  "cw_reset_tokens (snd (login_transaction ph rl policy brute tm cmd email w)) = cw_reset_tokens w"
  by (auto simp: login_transaction_def Let_def split: option.split)

lemma upgrade_hash_tokens [simp]:
  "cw_reset_tokens (snd (upgrade_hash_if_stale ph th salt now c pw w)) = cw_reset_tokens w"
  by (simp add: upgrade_hash_if_stale_def)

lemma login_world_tokens [simp]: "cw_reset_tokens (login_world rl brute tm email w) = cw_reset_tokens w"
  by (simp add: login_world_def)

lemma limit_check_eqD:
  assumes "limit_check rl a i w = (b, w1)"
  shows "cw_users w1 = cw_users w" "cw_credentials w1 = cw_credentials w"
    "cw_reset_tokens w1 = cw_reset_tokens w"
  using limit_check_keeps [of rl a i w] assms by simp_all

lemma gate_check_eqD:
  assumes "gate_check brute t1 t2 sc i w = (b, w1)"
  shows "cw_users w1 = cw_users w" "cw_credentials w1 = cw_credentials w"
    "cw_reset_tokens w1 = cw_reset_tokens w"
  using gate_check_keeps [of brute t1 t2 sc i w] assms by simp_all

lemma change_password_tokens:
  "cw_reset_tokens (snd (change_password_execute ph pol depth now salt cmd w)) = cw_reset_tokens w"
  by (auto simp: change_password_execute_def split: sum.split change_outcome.split option.split)

lemma request_verification_tokens:
  "cw_reset_tokens (snd (request_verification_execute digest ttl now fresh raw th email w)) = cw_reset_tokens w"
  by (auto simp: request_verification_execute_def send_mail_def Let_def split: sum.split option.split prod.split)

lemma confirm_verification_tokens:
  "cw_reset_tokens (snd (confirm_verification_execute digest now now2 token w)) = cw_reset_tokens w"
  by (auto simp: confirm_verification_execute_def Let_def split: sum.split option.split)

lemma register_tokens:
  "cw_reset_tokens (snd (register_with_password_execute ph rl pol now u c salt cmd w)) = cw_reset_tokens w"
  by (auto simp: register_with_password_execute_def Let_def limit_check_eqD
      split: sum.split prod.split bool.split)

lemma authenticate_tokens:
  "cw_reset_tokens (snd (authenticate_execute ph rl policy mfa brute tm th salt cmd w)) = cw_reset_tokens w"
proof -
  have t: "cw_reset_tokens w' = cw_reset_tokens v"
    if "login_transaction ph rl policy brute tm cmd email v = (out, w')" for email v out w'
    using login_transaction_tokens [of ph rl policy brute tm cmd email v] that by simp
  have u: "cw_reset_tokens w' = cw_reset_tokens v"
    if "upgrade_hash_if_stale ph th salt t c pw v = (b, w')" for t c pw v b w'
    using upgrade_hash_tokens [of ph th salt t c pw v] that by simp
  show ?thesis
    by (auto simp: authenticate_execute_def Let_def limit_check_eqD gate_check_eqD dest!: t u
        split: sum.split prod.split bool.split login_outcome.split)
qed

lemma request_reset_tokens:
  "cw_reset_tokens (snd (request_reset_execute digest rl ttl now fresh raw th email w)) = cw_reset_tokens w \<or>
   (\<exists>u. cw_reset_tokens (snd (request_reset_execute digest rl ttl now fresh raw th email w)) =
     tokens_save (fst (reset_token_issue digest fresh raw u ttl now))
       (tokens_invalidate_outstanding u now (cw_reset_tokens w)))"
  by (auto simp: request_reset_execute_def send_mail_def Let_def limit_check_eqD reset_token_issue_def
      split: sum.split option.split prod.split bool.split)

lemma user_event_tokens:
  "cw_reset_tokens (handle_user_deleted now e w) = cw_reset_tokens w \<or>
   (\<exists>u. cw_reset_tokens (handle_user_deleted now e w) = tokens_invalidate_outstanding u now (cw_reset_tokens w))"
  by (cases e) (auto simp: handle_user_deleted_def split: option.split)

text \<open>What a confirmation did: nothing to the tokens, or it consumed an outstanding one.\<close>

definition reset_consumed ::
  "(string \<Rightarrow> string) \<Rightarrow> reset_times \<Rightarrow> string \<Rightarrow> token_store \<Rightarrow> token_store \<Rightarrow> bool" where
  "reset_consumed digest tm token m m' \<longleftrightarrow>
     (\<exists>t. tokens_find_by_hash m (digest token) = Some t \<and> token_matches digest token t \<and>
        token_is_usable_at (rt_now tm) t \<and> m' = tokens_save (t\<lparr>ot_consumed_at := Some (rt_now tm)\<rparr>) m)"

lemma reset_transaction_cases:
  assumes "reset_transaction digest ph depth tm fresh h cmd w = (out, w')"
  shows "out = ResetInvalid \<and> w' = w \<or>
    out \<noteq> ResetInvalid \<and> reset_consumed digest tm (crc_token cmd) (cw_reset_tokens w) (cw_reset_tokens w') \<and>
      cw_users w' = cw_users w"
  using assms
  by (auto simp: reset_transaction_def reset_token_consume_def reset_consumed_def token_is_usable_at_def
      Let_def split: option.splits if_splits)

text \<open>The answers given after the token was saved as consumed.\<close>

definition spends :: "user answer \<Rightarrow> bool" where
  "spends r \<longleftrightarrow> (\<exists>u. r = Inr (Inr u)) \<or> r = Inr (Inl (ValidationError [(''password'', [''reused''])])) \<or>
     r = Inr (Inl (ValidationError [(''sessions'', [''revocation_failed''])]))"

lemma spends_simps [simp]:
  "spends (Inr (Inr u))" "\<not> spends (Inl x)"
  "spends (Inr (Inl (ValidationError [(''password'', [''reused''])])))"
  "spends (Inr (Inl (ValidationError [(''sessions'', [''revocation_failed''])])))"
  "\<not> spends (Inr (Inl (ValidationError [(''token'', [''invalid''])])))"
  by (simp_all add: spends_def)

lemma raw_password_not_spends: "raw_password_create p pol = Inl e \<Longrightarrow> \<not> spends (Inr (Inl e))"
  by (auto simp: raw_password_create_def spends_def split: if_splits)

lemma confirm_reset_tokens:
  assumes "confirm_reset_execute digest ph revoke rl pol depth brute tm fresh salt cmd w = (r, w')"
  shows "cw_reset_tokens w' = cw_reset_tokens w \<and> cw_credentials w' = cw_credentials w \<and>
      cw_users w' = cw_users w \<and> \<not> spends r \<or>
    spends r \<and> reset_consumed digest tm (crc_token cmd) (cw_reset_tokens w) (cw_reset_tokens w')"
  using assms
  by (auto simp: confirm_reset_execute_def Let_def limit_check_eqD gate_check_eqD
      dest!: reset_transaction_cases dest: raw_password_not_spends
      split: sum.splits prod.splits bool.splits reset_outcome.splits option.splits)

lemma reset_consumed_spent:
  assumes "tokens_inv m" "reset_consumed digest tm token m m'"
  shows "spent (digest token) m'"
proof -
  obtain t where t: "tokens_find_by_hash m (digest token) = Some t"
    "m' = tokens_save (t\<lparr>ot_consumed_at := Some (rt_now tm)\<rparr>) m"
    using assms(2) by (auto simp: reset_consumed_def)
  note inv = mem_tokens.redeemed_once [OF assms(1) t(1), of "t\<lparr>ot_consumed_at := Some (rt_now tm)\<rparr>"]
  then have f: "tokens_find_by_hash m' (digest token) = Some (t\<lparr>ot_consumed_at := Some (rt_now tm)\<rparr>)"
    "tokens_inv m'" using t(2) by simp_all
  show ?thesis
    unfolding spent_def
  proof (intro ballI impI)
    fix x
    assume x: "x \<in> set (map_values m')" "ot_hash x = digest token"
    then have "tokens_find_by_hash m' (digest token) = Some x"
      using tokens_find_iff [OF f(2)] tokens_values [OF f(2)] by simp
    then show "ot_consumed_at x \<noteq> None" using f(1) by auto
  qed
qed

lemma reset_consumed_keeps_spent: "reset_consumed digest tm token m m' \<Longrightarrow> spent h m \<Longrightarrow> spent h m'"
  by (auto simp: reset_consumed_def intro!: spent_save)

text \<open>Later calls leave a spent link spent, unless one draws a raw token with its digest.\<close>

definition draws_other :: "('l, 'v) cred_deps \<Rightarrow> string \<Rightarrow> cred_call \<Rightarrow> bool" where
  "draws_other d h call = (case call of RequestReset now fresh raw th email \<Rightarrow> cd_digest d raw \<noteq> h | _ \<Rightarrow> True)"

lemma cred_step_spent:
  assumes "spent h (cw_reset_tokens w)" "draws_other d h call"
  shows "spent h (cw_reset_tokens (cred_step d call w))"
proof (cases call)
  case (ConfirmReset tm fresh salt cmd)
  then show ?thesis
    using assms(1) confirm_reset_tokens [OF prod.collapse [symmetric], of "cd_digest d" "cd_hasher d"
        "cd_revoke d" "cd_limiter d" "cd_passwords d" "cd_depth d" "cd_brute d" tm fresh salt cmd w]
    by (auto simp: cred_step_def dest: reset_consumed_keeps_spent)
next
  case (RequestReset now fresh raw th email)
  have "ot_hash (fst (reset_token_issue (cd_digest d) fresh raw u (cd_ttl d) now)) \<noteq> h" for u
    using assms(2) RequestReset by (simp add: draws_other_def reset_token_issue_def)
  then have "spent h (tokens_save (fst (reset_token_issue (cd_digest d) fresh raw u (cd_ttl d) now))
      (tokens_invalidate_outstanding u now (cw_reset_tokens w)))" for u
    using spent_save [OF spent_retire [OF assms(1)]] by blast
  then show ?thesis
    using assms(1) RequestReset request_reset_tokens [of "cd_digest d" "cd_limiter d" "cd_ttl d" now fresh raw th email w]
    by (auto simp: cred_step_def)
next
  case (UserEvent now e)
  then show ?thesis
    using assms(1) user_event_tokens [of now e w] by (auto simp: cred_step_def intro: spent_retire)
qed (use assms(1) in \<open>simp_all add: cred_step_def authenticate_tokens change_password_tokens
    request_verification_tokens confirm_verification_tokens register_tokens\<close>)

lemma cred_run_spent:
  "spent h (cw_reset_tokens w) \<Longrightarrow> \<forall>call \<in> set calls. draws_other d h call \<Longrightarrow>
     spent h (cw_reset_tokens (cred_run d calls w))"
  unfolding cred_run_def by (induction calls arbitrary: w) (auto intro: cred_step_spent)

lemma spent_refused:
  assumes "spent (digest (crc_token cmd)) (cw_reset_tokens w)"
    and "confirm_reset_execute digest ph revoke rl pol depth brute tm fresh salt cmd w = (r, w')"
  shows "\<not> spends r"
proof
  assume "spends r"
  then obtain t where "tokens_find_by_hash (cw_reset_tokens w) (digest (crc_token cmd)) = Some t"
    "token_is_usable_at (rt_now tm) t"
    using confirm_reset_tokens [OF assms(2)] by (auto simp: reset_consumed_def)
  then have "t \<in> set (map_values (cw_reset_tokens w))" "ot_hash t = digest (crc_token cmd)"
    "ot_consumed_at t = None"
    using find_SomeD by (fastforce simp: tokens_find_by_hash_def token_is_usable_at_def token_is_consumed_def)+
  then show False using assms(1) unfolding spent_def by fastforce
qed

section \<open>Password history\<close>

text \<open>The hash is among the current one and the \<^emph>\<open>n\<close> last of the history.\<close>

definition recent :: "string \<Rightarrow> nat \<Rightarrow> credential \<Rightarrow> bool" where
  "recent h n c \<longleftrightarrow> h \<in> set (take (Suc n) (cr_hash c # cr_history c))"

lemma recent_current: "recent (cr_hash c) n c"
  by (simp add: recent_def)

lemma recent_mono: "recent h m c \<Longrightarrow> m \<le> n \<Longrightarrow> recent h n c"
  using set_take_subset_set_take [of "Suc m" "Suc n" "cr_hash c # cr_history c"]
  by (auto simp: recent_def)

lemma recent_rotate: "recent h n c \<Longrightarrow> n < depth \<Longrightarrow> recent h (Suc n) (rotate_password now new depth c)"
  by (simp add: recent_def rotate_password_def min_def)

lemma recent_same:
  "recent h n (record_failed_attempt policy now c) \<longleftrightarrow> recent h n c"
  "recent h n (record_successful_attempt now c) \<longleftrightarrow> recent h n c"
  by (simp_all add: recent_def record_failed_attempt_def record_successful_attempt_def Let_def)

lemma recent_reused: "recent h n c \<Longrightarrow> ph_verify ph p h \<Longrightarrow> is_password_reused ph p c"
  unfolding recent_def is_password_reused_iff using set_take_subset by fastforce

text \<open>What one call does to the credential of a user: nothing, a counter change, or a rotation.\<close>

definition keeps_recent :: "string \<Rightarrow> nat \<Rightarrow> string \<Rightarrow> nat \<Rightarrow> credential_store \<Rightarrow> credential_store \<Rightarrow> bool" where
  "keeps_recent u depth h k m m' \<longleftrightarrow> (\<forall>n c. credentials_find m u = Some c \<longrightarrow> recent h n c \<longrightarrow> n + k \<le> depth \<longrightarrow>
     (\<exists>c'. credentials_find m' u = Some c' \<and> recent h (n + k) c'))"

lemma keeps_recent_refl [simp]: "keeps_recent u depth h k m m"
  unfolding keeps_recent_def using recent_mono by fastforce

lemma keeps_recent_save:
  assumes "cr_user c \<noteq> u \<or> (credentials_find m u = Some c0 \<and>
     (\<forall>n. recent h n c0 \<longrightarrow> n + k \<le> depth \<longrightarrow> recent h (n + k) c))"
  shows "keeps_recent u depth h k m (credentials_save c m)"
  using assms recent_mono unfolding keeps_recent_def by fastforce

text \<open>
  A call rotates when it is a password change or a reset confirmation. A call erases the
  credential of \<^emph>\<open>u\<close> when it is its deletion event or a registration that draws its id.
\<close>

definition rotates :: "cred_call \<Rightarrow> bool" where
  "rotates call = (case call of ConfirmReset _ _ _ _ \<Rightarrow> True | ChangePw _ _ _ \<Rightarrow> True | _ \<Rightarrow> False)"

definition erases :: "string \<Rightarrow> cred_call \<Rightarrow> bool" where
  "erases u call = (case call of
      Register _ user _ _ _ \<Rightarrow> user = u
    | UserEvent _ e \<Rightarrow> (case e of UserStatusChanged v _ _ _ \<Rightarrow> v = u | _ \<Rightarrow> False)
    | _ \<Rightarrow> False)"

lemma keeps_recent_update:
  assumes "credentials_inv m" "credentials_find m v = Some c0" "cr_user c = cr_user c0"
    and "\<And>n. recent h n c0 \<Longrightarrow> n + k \<le> depth \<Longrightarrow> recent h (n + k) c"
  shows "keeps_recent u depth h k m (credentials_save c m)"
proof (rule keeps_recent_save)
  have "cr_user c0 = v" using assms(1,2) by (simp add: credentials_inv_def)
  then show "cr_user c \<noteq> u \<or> (credentials_find m u = Some c0 \<and>
     (\<forall>n. recent h n c0 \<longrightarrow> n + k \<le> depth \<longrightarrow> recent h (n + k) c))"
    using assms(2-4) by auto
qed

lemma keeps_recent_none: "credentials_find m u = None \<Longrightarrow> keeps_recent u depth h k m m'"
  by (simp add: keeps_recent_def)

lemma keeps_recent_rotation:
  assumes "credentials_inv m" "credentials_find m v = Some c"
  shows "keeps_recent u depth h 1 m (credentials_save (rotate_password now new depth c) m)"
  using assms(2) by (intro keeps_recent_update [OF assms(1) assms(2)]) (auto dest: recent_rotate [of _ _ _ depth])

lemma keeps_recent_counter:
  assumes "credentials_inv m" "credentials_find m v = Some c" "\<And>n. recent h n c \<Longrightarrow> recent h n c'" "cr_user c' = cr_user c"
  shows "keeps_recent u depth h 0 m (credentials_save c' m)"
  using assms(3) by (intro keeps_recent_update [OF assms(1,2,4)]) auto

lemma login_transaction_recent:
  assumes "credentials_inv (cw_credentials w)"
    and "login_transaction ph rl policy brute tm cmd email w = (out, w')"
  shows "keeps_recent u depth h 0 (cw_credentials w) (cw_credentials w')"
  using assms(2) keeps_recent_counter [OF assms(1)]
  by (auto simp: login_transaction_def Let_def recent_same split: option.splits if_splits)

lemma authenticate_recent:
  assumes "credentials_inv (cw_credentials w)" "\<And>x. \<not> ph_needs_rehash ph x"
  shows "keeps_recent u depth h 0 (cw_credentials w)
    (cw_credentials (snd (authenticate_execute ph rl policy mfa brute tm th salt cmd w)))"
proof (cases rule: authenticate_cases [of ph rl policy mfa brute tm th salt cmd w])
  case (run email out w3)
  have "keeps_recent u depth h 0 (cw_credentials w) (cw_credentials w3)"
    using login_transaction_recent [OF _ run(3)] assms(1) by simp
  then show ?thesis using run(4) assms(2) by (cases out) (simp_all add: upgrade_hash_if_stale_def)
qed simp_all

lemma reset_transaction_recent:
  assumes "credentials_inv (cw_credentials w)"
    and "reset_transaction digest ph depth tm fresh new cmd w = (out, w')"
  shows "keeps_recent u depth h 1 (cw_credentials w) (cw_credentials w')"
proof -
  have fresh: "keeps_recent u depth h 1 m (credentials_save (credential_create f t v new) m)"
    if "credentials_find m v = None" for m f t v
    using that by (cases "v = u") (auto intro: keeps_recent_none keeps_recent_save simp: credential_create_def)
  show ?thesis
    using assms(2) keeps_recent_rotation [OF assms(1)] fresh
    by (auto simp: reset_transaction_def Let_def split: option.splits sum.splits if_splits)
qed

lemma confirm_reset_recent:
  assumes "credentials_inv (cw_credentials w)"
    and "confirm_reset_execute digest ph revoke rl pol depth brute tm fresh salt cmd w = (r, w')"
  shows "keeps_recent u depth h 1 (cw_credentials w) (cw_credentials w')"
proof -
  have t: "keeps_recent u depth h 1 (cw_credentials w) (cw_credentials w2)"
    if "reset_transaction digest ph depth tm fresh new cmd w1 = (out, w2)"
      "cw_credentials w1 = cw_credentials w" for new w1 out w2
    using reset_transaction_recent [OF _ that(1)] assms(1) that(2) by simp
  show ?thesis
    using assms(2)
    by (auto simp: confirm_reset_execute_def Let_def limit_check_eqD gate_check_eqD
      dest!: t split: sum.splits prod.splits bool.splits reset_outcome.splits option.splits)
qed

lemma change_password_recent:
  assumes "credentials_inv (cw_credentials w)"
  shows "keeps_recent u depth h 1 (cw_credentials w)
    (cw_credentials (snd (change_password_execute ph pol depth now salt cmd w)))"
  using keeps_recent_rotation [OF assms]
  by (auto simp: change_password_execute_def split: sum.split change_outcome.split option.split)

lemma credentials_inv_save: "credentials_inv m \<Longrightarrow> credentials_inv (credentials_save c m)"
  by (simp add: credentials_inv_def)

lemma request_reset_credentials:
  "cw_credentials (snd (request_reset_execute digest rl ttl now fresh raw th email w)) = cw_credentials w"
  by (auto simp: request_reset_execute_def send_mail_def Let_def limit_check_eqD
      split: sum.split option.split prod.split bool.split)

lemma request_verification_credentials:
  "cw_credentials (snd (request_verification_execute digest ttl now fresh raw th email w)) = cw_credentials w"
  by (auto simp: request_verification_execute_def send_mail_def Let_def split: sum.split option.split prod.split)

lemma confirm_verification_credentials:
  "cw_credentials (snd (confirm_verification_execute digest now now2 token w)) = cw_credentials w"
  by (auto simp: confirm_verification_execute_def Let_def split: sum.split option.split)

lemma register_credentials:
  "cw_credentials (snd (register_with_password_execute ph rl pol now u c salt cmd w)) = cw_credentials w \<or>
   (\<exists>hash. cw_credentials (snd (register_with_password_execute ph rl pol now u c salt cmd w)) =
     credentials_save (credential_create c now u hash) (cw_credentials w))"
  by (auto simp: register_with_password_execute_def Let_def limit_check_eqD
      user_register_def split: sum.split prod.split bool.split)

lemma user_event_credentials:
  "cw_credentials (handle_user_deleted now e w) = cw_credentials w \<or>
   (\<exists>u s t a c. e = UserStatusChanged u s t a \<and> credentials_find (cw_credentials w) u = Some c \<and>
     cw_credentials (handle_user_deleted now e w) =
       credentials_save (invalidate_for_deleted_user now c) (cw_credentials w))"
  by (cases e) (auto simp: handle_user_deleted_def save_credential_def split: option.split)

lemma reset_transaction_inv:
  assumes "reset_transaction digest ph depth tm fresh new cmd w = (out, w')" "credentials_inv (cw_credentials w)"
  shows "credentials_inv (cw_credentials w')"
  using assms by (auto simp: reset_transaction_def Let_def credentials_inv_save
      split: option.splits sum.splits if_splits)

lemma confirm_reset_inv:
  assumes "confirm_reset_execute digest ph revoke rl pol depth brute tm fresh salt cmd w = (r, w')"
    and "credentials_inv (cw_credentials w)"
  shows "credentials_inv (cw_credentials w')"
proof -
  have t: "credentials_inv (cw_credentials w2)"
    if "reset_transaction digest ph depth tm fresh new cmd w1 = (out, w2)"
      "cw_credentials w1 = cw_credentials w" for new w1 out w2
    using reset_transaction_inv [OF that(1)] assms(2) that(2) by simp
  show ?thesis
    using assms
    by (auto simp: confirm_reset_execute_def Let_def limit_check_eqD gate_check_eqD
      dest!: t split: sum.splits prod.splits bool.splits reset_outcome.splits option.splits)
qed

lemma change_password_inv:
  "credentials_inv (cw_credentials w) \<Longrightarrow>
     credentials_inv (cw_credentials (snd (change_password_execute ph pol depth now salt cmd w)))"
  by (auto simp: change_password_execute_def credentials_inv_save
      split: sum.split change_outcome.split option.split)

lemma cred_step_inv:
  assumes "credentials_inv (cw_credentials w)"
  shows "credentials_inv (cw_credentials (cred_step d call w))"
proof (cases call)
  case (Login tm th salt cmd)
  then show ?thesis
    using credential_effect_inv [OF authenticate_effect [OF assms] assms] by (simp add: cred_step_def)
next
  case (ConfirmReset tm fresh salt cmd)
  then show ?thesis
    using confirm_reset_inv [OF prod.collapse [symmetric] assms] by (simp add: cred_step_def)
next
  case (Register now u c salt cmd)
  then show ?thesis
    using assms register_credentials [of "cd_hasher d" "cd_limiter d" "cd_passwords d" now u c salt cmd w]
    by (auto simp: cred_step_def credentials_inv_save)
next
  case (UserEvent now e)
  then show ?thesis
    using assms user_event_credentials [of now e w] by (auto simp: cred_step_def credentials_inv_save)
qed (use assms in \<open>simp_all add: cred_step_def change_password_inv request_reset_credentials
    request_verification_credentials confirm_verification_credentials\<close>)

lemma cred_step_recent:
  assumes "credentials_inv (cw_credentials w)" "\<And>x. \<not> ph_needs_rehash (cd_hasher d) x" "\<not> erases u call"
  shows "keeps_recent u (cd_depth d) h (if rotates call then 1 else 0) (cw_credentials w)
    (cw_credentials (cred_step d call w))"
proof (cases call)
  case (ConfirmReset tm fresh salt cmd)
  then show ?thesis
    using confirm_reset_recent [OF assms(1) prod.collapse [symmetric]] by (simp add: cred_step_def rotates_def)
next
  case (Register now v c salt cmd)
  then have "v \<noteq> u" using assms(3) by (simp add: erases_def)
  then show ?thesis
    using Register register_credentials [of "cd_hasher d" "cd_limiter d" "cd_passwords d" now v c salt cmd w]
    by (auto simp: cred_step_def rotates_def credential_create_def intro!: keeps_recent_save)
next
  case (ChangePw now salt cmd)
  then show ?thesis using change_password_recent [OF assms(1)] by (simp add: cred_step_def rotates_def)
next
  case (UserEvent now e)
  then show ?thesis
    using assms(1,3) user_event_credentials [of now e w]
    by (auto simp: cred_step_def rotates_def erases_def credentials_inv_def intro!: keeps_recent_save)
qed (use assms(1,2) in \<open>simp_all add: cred_step_def rotates_def authenticate_recent
    request_reset_credentials request_verification_credentials confirm_verification_credentials\<close>)

lemma cred_run_recent:
  assumes "credentials_inv (cw_credentials w)" "\<And>x. \<not> ph_needs_rehash (cd_hasher d) x"
    and "\<forall>call \<in> set calls. \<not> erases u call"
    and "credentials_find (cw_credentials w) u = Some c" "recent h n c"
    and "n + length (filter rotates calls) \<le> cd_depth d"
  shows "\<exists>c' m. credentials_find (cw_credentials (cred_run d calls w)) u = Some c' \<and> recent h m c'"
  using assms(1,3-6)
proof (induction calls arbitrary: w c n)
  case Nil
  then show ?case by (auto simp: cred_run_def)
next
  case (Cons call calls)
  have "keeps_recent u (cd_depth d) h (if rotates call then 1 else 0) (cw_credentials w)
      (cw_credentials (cred_step d call w))"
    using cred_step_recent [OF Cons.prems(1) assms(2)] Cons.prems(2) by simp
  then obtain c' where "credentials_find (cw_credentials (cred_step d call w)) u = Some c'"
    "recent h (n + (if rotates call then 1 else 0)) c'"
    using Cons.prems(3-5) unfolding keeps_recent_def by (cases "rotates call") force+
  then show ?case
    using Cons.IH [OF cred_step_inv [OF Cons.prems(1)]] Cons.prems(2,5)
    by (auto simp: cred_run_def split: if_splits)
qed

lemma change_password_reused:
  assumes "fst (change_password_execute ph pol depth now salt cmd w) = Inr (Inr user)"
    and "credentials_find (cw_credentials w) (u_id user) = Some c"
  shows "\<not> is_password_reused ph (cpc_new cmd) c"
  using assms by (auto simp: change_password_execute_def change_checks_def
      split: sum.splits change_outcome.splits option.splits if_splits)

lemma reset_transaction_reused:
  assumes "reset_transaction digest ph depth tm fresh new cmd w = (ResetOk user, w')"
    and "credentials_find (cw_credentials w) (u_id user) = Some c"
  shows "\<not> is_password_reused ph (crc_new_password cmd) c"
  using assms by (auto simp: reset_transaction_def Let_def split: option.splits sum.splits if_splits)

lemma confirm_reset_reused:
  assumes "fst (confirm_reset_execute digest ph revoke rl pol depth brute tm fresh salt cmd w) = Inr (Inr user)"
    and "credentials_find (cw_credentials w) (u_id user) = Some c"
  shows "\<not> is_password_reused ph (crc_new_password cmd) c"
proof -
  have t: "credentials_find (cw_credentials w1) (u_id v) \<noteq> Some c \<or> \<not> is_password_reused ph (crc_new_password cmd) c"
    if "reset_transaction digest ph depth tm fresh new cmd w1 = (ResetOk v, w2)" for new w1 v w2
    using reset_transaction_reused [OF that] by blast
  show ?thesis
    using assms
    by (auto simp: confirm_reset_execute_def Let_def limit_check_eqD gate_check_eqD
      dest!: t split: sum.splits prod.splits bool.splits reset_outcome.splits option.splits)
qed

text \<open>A confirmed reset is exactly one call of the session revoker, for its user.\<close>

lemma sessions_kept [simp]:
  "cw_sessions (snd (limit_check rl a i w)) = cw_sessions w"
  "cw_sessions (snd (gate_check brute t1 t2 sc i w)) = cw_sessions w"
  "cw_sessions (gate_success brute sc i w) = cw_sessions w"
  "cw_sessions (limit_reset rl a i w) = cw_sessions w"
  "cw_sessions (snd (reset_transaction digest ph depth tm fresh h cmd w)) = cw_sessions w"
  by (auto simp: limit_check_def gate_check_def gate_success_def limit_reset_def reset_transaction_def
      save_credential_def Let_def split: option.split prod.split sum.split)

lemma confirm_reset_revokes:
  assumes "confirm_reset_execute digest ph revoke rl pol depth brute tm fresh salt cmd w = (Inr (Inr user), w')"
  shows "revoke (u_id user) (cw_sessions w) = Some (cw_sessions w')"
proof -
  have l: "cw_sessions v = cw_sessions w" if "limit_check rl a i w = (b, v)" for a i b v
    using sessions_kept(1) [of rl a i w] that by simp
  have g: "cw_sessions v = cw_sessions x" if "gate_check brute t1 t2 sc i x = (b, v)" for t1 t2 sc i b x v
    using sessions_kept(2) [of brute t1 t2 sc i x] that by simp
  have t: "cw_sessions v = cw_sessions x" if "reset_transaction digest ph depth tm fresh h cmd x = (out, v)" for h x out v
    using sessions_kept(5) [of digest ph depth tm fresh h cmd x] that by simp
  have s: "cw_sessions (limit_reset rl a i x) = cw_sessions x" for a i x
    by (rule sessions_kept)
  show ?thesis
    using assms
    by (auto simp: confirm_reset_execute_def Let_def s
        split: sum.splits prod.splits bool.splits reset_outcome.splits option.splits
        dest!: l g t)
qed

text \<open>A revoker that never throws is never reported as failed.\<close>

lemma confirm_reset_never_fails:
  assumes "\<And>u v. revoke u v \<noteq> None"
    and "confirm_reset_execute digest ph revoke rl pol depth brute tm fresh salt cmd w = (r, w')"
  shows "r \<noteq> Inr (Inl (ValidationError [(''sessions'', [''revocation_failed''])]))"
proof -
  have p: "e \<noteq> ValidationError [(''sessions'', [''revocation_failed''])]" if "raw_password_create x pol = Inl e" for x e
    using that by (auto simp: raw_password_create_def split: if_splits)
  have n: False if "revoke u v = None" for u v using assms(1) that by blast
  show ?thesis
    using assms(2)
    by (auto simp: confirm_reset_execute_def Let_def
        split: sum.splits prod.splits bool.splits reset_outcome.splits option.splits dest: p n)
qed

section \<open>Properties\<close>

text \<open>
  C10: A reset link works once: after a confirmation answered with a changed password, with
  "password was recently used" or with a failed session revocation, no later confirmation with
  the same token succeeds or changes a credential, whatever use cases of the package run in between,
  unless one of them issues a link with the same digest. A recently used password burns the link.
\<close>

theorem reset_link_single_use:
  assumes "tokens_inv (cw_reset_tokens w)"
    and "fst (confirm_reset_execute (cd_digest d) (cd_hasher d) (cd_revoke d) (cd_limiter d)
      (cd_passwords d) (cd_depth d) (cd_brute d) tm fresh salt cmd w) \<in>
      {Inr (Inr user), Inr (Inl (ValidationError [(''password'', [''reused''])])),
       Inr (Inl (ValidationError [(''sessions'', [''revocation_failed''])]))}"
    and "\<forall>call \<in> set calls. draws_other d (cd_digest d (crc_token cmd)) call"
    and "w2 = cred_run d calls (cred_step d (ConfirmReset tm fresh salt cmd) w)"
    and "crc_token cmd2 = crc_token cmd"
  shows "fst (confirm_reset_execute (cd_digest d) (cd_hasher d) (cd_revoke d) (cd_limiter d)
      (cd_passwords d) (cd_depth d) (cd_brute d) tm2 fresh2 salt2 cmd2 w2) \<noteq> Inr (Inr user2) \<and>
    cw_reset_tokens (cred_step d (ConfirmReset tm2 fresh2 salt2 cmd2) w2) = cw_reset_tokens w2 \<and>
    cw_credentials (cred_step d (ConfirmReset tm2 fresh2 salt2 cmd2) w2) = cw_credentials w2"
proof -
  let ?h = "cd_digest d (crc_token cmd)"
  note first = confirm_reset_tokens [OF prod.collapse [symmetric], of "cd_digest d" "cd_hasher d" "cd_revoke d"
      "cd_limiter d" "cd_passwords d" "cd_depth d" "cd_brute d" tm fresh salt cmd w]
  have "spends (fst (confirm_reset_execute (cd_digest d) (cd_hasher d) (cd_revoke d) (cd_limiter d)
      (cd_passwords d) (cd_depth d) (cd_brute d) tm fresh salt cmd w))"
    using assms(2) by (elim insertE emptyE) simp_all
  then have "spent ?h (cw_reset_tokens (cred_step d (ConfirmReset tm fresh salt cmd) w))"
    using first reset_consumed_spent [OF assms(1)] by (simp add: cred_step_def)
  then have "spent (cd_digest d (crc_token cmd2)) (cw_reset_tokens w2)"
    unfolding assms(4,5) using cred_run_spent assms(3) by blast
  then have no: "\<not> spends (fst (confirm_reset_execute (cd_digest d) (cd_hasher d) (cd_revoke d) (cd_limiter d)
      (cd_passwords d) (cd_depth d) (cd_brute d) tm2 fresh2 salt2 cmd2 w2))"
    by (rule spent_refused) (rule prod.collapse [symmetric])
  then have "fst (confirm_reset_execute (cd_digest d) (cd_hasher d) (cd_revoke d) (cd_limiter d)
      (cd_passwords d) (cd_depth d) (cd_brute d) tm2 fresh2 salt2 cmd2 w2) \<noteq> Inr (Inr user2)" by force
  then show ?thesis
    using no confirm_reset_tokens [OF prod.collapse [symmetric], of "cd_digest d" "cd_hasher d" "cd_revoke d"
      "cd_limiter d" "cd_passwords d" "cd_depth d" "cd_brute d" tm2 fresh2 salt2 cmd2 w2]
    by (auto simp: cred_step_def)
qed

text \<open>
  Password history: a password that is current when a run starts cannot be set again by a
  change or a reset as long as at most \<^emph>\<open>depth\<close> calls of the run were changes or resets (whatever
  other use cases it holds, for accounts that are not deleted meanwhile), provided the hasher's parameters are not
  raised (a rehash on login replaces the hash it remembers).
\<close>

theorem no_reuse_within_depth:
  assumes "credentials_inv (cw_credentials w)"
    and "credentials_find (cw_credentials w) u = Some c" "ph_verify (cd_hasher d) p (cr_hash c)"
    and "\<forall>x. \<not> ph_needs_rehash (cd_hasher d) x"
    and "\<forall>call \<in> set calls. \<not> erases u call"
    and "length (filter rotates calls) \<le> cd_depth d"
  shows "(cpc_new change = p \<and> fst (change_password_execute (cd_hasher d) (cd_passwords d) (cd_depth d)
        now salt change (cred_run d calls w)) = Inr (Inr user) \<longrightarrow> u_id user \<noteq> u) \<and>
    (crc_new_password reset = p \<and> fst (confirm_reset_execute (cd_digest d) (cd_hasher d) (cd_revoke d)
        (cd_limiter d) (cd_passwords d) (cd_depth d) (cd_brute d) tm fresh salt reset
        (cred_run d calls w)) = Inr (Inr user) \<longrightarrow> u_id user \<noteq> u)"
proof -
  obtain c' m where c': "credentials_find (cw_credentials (cred_run d calls w)) u = Some c'"
    "recent (cr_hash c) m c'"
    using cred_run_recent [of w d calls u c "cr_hash c" 0] recent_current assms(1,2,4-6) by auto
  from recent_reused [OF c'(2) assms(3)] c'(1) show ?thesis
    by (auto dest: change_password_reused confirm_reset_reused)
qed

text \<open>
  A password-reset request answers the same for every email the limiter admits (a thrown
  rate limit is the only other answer). When it issues a link, it did so for the one live account
  with that email that has a password; the link's token is found by its digest and usable until it expires, every
  other reset token of the account is dead, and the mail carries the raw token that the store
  does not hold unless its digest does.
\<close>

theorem reset_request_reissues:
  assumes "tokens_inv (cw_reset_tokens w)"
    and "request_reset_execute digest rl ttl now fresh raw th email_raw w = (Inr (Inr True), w')"
    and "map_get (cw_reset_tokens w) fresh = None"
    and "\<forall>t \<in> set (map_values (cw_reset_tokens w)). ot_hash t \<noteq> digest raw"
  shows "\<exists>email user t. email_create email_raw = Inr email \<and> users_find_by_email (cw_users w) email = Some user \<and>
      credentials_find (cw_credentials w) (u_id user) \<noteq> None \<and> ot_user t = u_id user \<and>
      tokens_inv (cw_reset_tokens w') \<and> tokens_find_by_hash (cw_reset_tokens w') (digest raw) = Some t \<and>
      (\<forall>later. later < now + or_default ttl reset_token_ttl_ms \<longrightarrow> token_is_usable_at later t) \<and>
      (\<forall>x \<in> set (map_values (cw_reset_tokens w')). ot_user x = u_id user \<longrightarrow> x = t \<or> \<not> token_is_usable_at now x) \<and>
      (\<not> th \<longrightarrow> cw_sent w' = cw_sent w @ [(email, raw, ot_expires_at t)])"
proof -
  obtain email user w1 where w1: "limit_check rl ''password-reset'' email_raw w = (True, w1)"
    and e: "email_create email_raw = Inr email" "users_find_by_email (cw_users w) email = Some user"
      "credentials_find (cw_credentials w) (u_id user) \<noteq> None"
    and w': "cw_reset_tokens w' = tokens_save (fst (reset_token_issue digest fresh raw (u_id user) ttl now))
        (tokens_invalidate_outstanding (u_id user) now (cw_reset_tokens w))"
      "\<not> th \<Longrightarrow> cw_sent w' = cw_sent w1 @ [(email, raw, now + or_default ttl reset_token_ttl_ms)]"
    using assms(2)
    by (auto simp: request_reset_execute_def send_mail_def limit_reset_def Let_def reset_token_issue_def limit_check_eqD
        split: sum.splits option.splits prod.splits bool.splits)
  let ?t = "fst (reset_token_issue digest fresh raw (u_id user) ttl now)"
  have t: "ot_id ?t = fresh" "ot_user ?t = u_id user" "ot_hash ?t = digest raw" "ot_consumed_at ?t = None"
    "ot_expires_at ?t = now + or_default ttl reset_token_ttl_ms"
    by (simp_all add: reset_token_issue_def)
  have "\<forall>i x. tokens_get (cw_reset_tokens w) i = Some x \<longrightarrow> ot_hash x \<noteq> ot_hash ?t"
  proof (intro allI impI)
    fix i x
    assume "tokens_get (cw_reset_tokens w) i = Some x"
    then have "x \<in> set (map_values (cw_reset_tokens w))"
      using assms(1) by (auto simp: tokens_get_def tokens_inv_def map_values_iff)
    then show "ot_hash x \<noteq> ot_hash ?t" unfolding t(3) using assms(4) by blast
  qed
  from mem_tokens.reissued_only [OF assms(1) _ this t(2), of now] assms(3) t(1)
  have inv: "tokens_inv (cw_reset_tokens w')"
    and dead: "\<forall>i x. tokens_get (cw_reset_tokens w') i = Some x \<longrightarrow> ot_user x = u_id user \<longrightarrow> i \<noteq> fresh \<longrightarrow>
      ot_consumed_at x \<noteq> None"
    unfolding w'(1) by (simp_all add: tokens_get_def)
  have get: "map_get (cw_reset_tokens w') fresh = Some ?t" using t(1) by (simp add: w'(1) tokens_save_def)
  have "tokens_find_by_hash (cw_reset_tokens w') (digest raw) = Some ?t"
    using tokens_find_iff [OF inv] t(1,3) get by simp
  moreover have "x = ?t \<or> \<not> token_is_usable_at now x"
    if "x \<in> set (map_values (cw_reset_tokens w'))" "ot_user x = u_id user" for x
    using that dead get tokens_values [OF inv] 
    by (cases "ot_id x = fresh") (auto simp: token_is_usable_at_def token_is_consumed_def tokens_get_def)
  moreover have "token_is_usable_at later ?t" if "later < now + or_default ttl reset_token_ttl_ms" for later
    using that t(4,5) by (simp add: token_is_usable_at_def token_is_consumed_def token_is_expired_at_def)
  moreover have "cw_sent w1 = cw_sent w"
    using w1 by (auto simp: limit_check_def split: prod.splits)
  ultimately show ?thesis using e inv t(2,5) w'(2) by metis
qed

text \<open>
  Registration gives a login: after \<open>RegisterUserWithPassword\<close> accepts an email and a
  password, a login with that email that the limiter and the gate admit succeeds with exactly the passwords that
  the hasher verifies against the stored hash, the chosen one included, and the account is
  pending; a second registration of the email is refused.
\<close>

theorem register_then_login:
  assumes "directory_inv (cw_users w)" "map_get (cw_users w) fresh_user = None"
    and "ph_verify ph (rpc_password cmd) (ph_hash ph salt (rpc_password cmd))"
    and "register_with_password_execute ph rl pol now fresh_user fresh salt cmd w = (Inr (Inr (user, c)), w')"
    and "auc_email login = ruc_email (rpc_user cmd)"
  shows "u_status user = UPending \<and>
    ((\<exists>r. fst (authenticate_execute ph rl policy mfa brute tm th salt2 login w') = Inr (Inr r)) \<longleftrightarrow>
       login_admitted rl brute tm (auc_email login) w' \<and> ph_verify ph (auc_password login) (cr_hash c)) \<and>
    ph_verify ph (rpc_password cmd) (cr_hash c) \<and>
    (ruc_email (rpc_user cmd2) = ruc_email (rpc_user cmd) \<longrightarrow>
       fst (register_with_password_execute ph rl pol now2 u2 f2 salt2 cmd2 w') \<noteq> Inr (Inr r2))"
proof -
  obtain email d pn where e: "email_create (ruc_email (rpc_user cmd)) = Inr email"
    "display_name_create (ruc_display_name (rpc_user cmd)) = Inr d"
    and u: "user = user_register fresh_user now email d pn" "c = credential_create fresh now fresh_user (ph_hash ph salt (rpc_password cmd))"
    and w': "cw_users w' = users_save user (cw_users w)" "cw_credentials w' = credentials_save c (cw_credentials w)"
    and new: "\<not> users_exists_by_email (cw_users w) email"
    using assms(4)
    by (auto simp: register_with_password_execute_def raw_password_create_def Let_def limit_check_eqD user_register_def
        split: sum.splits prod.splits bool.splits if_splits)
  have us: "u_id user = fresh_user" "u_email user = email" "u_status user = UPending"
    by (simp_all add: u(1) user_register_def)
  have "user_wf user" unfolding u(1) using user_register_wf e by blast
  then have inv: "directory_inv (cw_users w')"
    unfolding w'(1) using users_save_fresh assms(1,2) us new by simp
  have get: "map_get (cw_users w') fresh_user = Some user" using us by (simp add: w'(1) users_save_def)
  then have found: "users_find_by_email (cw_users w') email = Some user"
    using users_find_by_email_iff [OF inv] us by simp
  have cred: "credentials_find (cw_credentials w') (u_id user) = Some c" "\<not> is_locked_at t c" for t
    using us by (simp_all add: w'(2) u(2) credential_create_def is_locked_at_def)
  have ok: "ph_verify ph (rpc_password cmd) (cr_hash c)" using assms(3) by (simp add: u(2) credential_create_def)
  have exists: "users_exists_by_email (cw_users w') email"
    using users_exists_by_email_iff [OF inv] get us by blast
  have again: "fst (register_with_password_execute ph rl pol now2 u2 f2 salt2 cmd2 w') \<noteq> Inr (Inr r2)"
    if "ruc_email (rpc_user cmd2) = ruc_email (rpc_user cmd)"
    using that e exists
    by (auto simp: register_with_password_execute_def Let_def limit_check_eqD
        split: sum.splits prod.splits bool.splits)
  have "(\<exists>r. fst (authenticate_execute ph rl policy mfa brute tm th salt2 login w') = Inr (Inr r)) \<longleftrightarrow>
       login_admitted rl brute tm (auc_email login) w' \<and> ph_verify ph (auc_password login) (cr_hash c)"
    using authenticate_ok_iff [of ph rl policy mfa brute tm th salt2 login w'] assms(5) e(1) found cred us(3) by auto
  with us(3) ok again show ?thesis by blast
qed

section \<open>A run\<close>

definition demo_deps :: "(unit, unit) cred_deps" where
  "demo_deps = \<lparr>cd_digest = (\<lambda>s. s), cd_hasher = demo_hasher, cd_limiter = noop_rate_limiter 0,
     cd_revoke = (\<lambda>_ v. Some v), cd_lockout = demo_policy,
     cd_passwords = \<lparr>pp_min_length = 3, pp_max_length = 256\<rparr>, cd_depth = 2, cd_ttl = None,
     cd_mfa = None, cd_brute = None\<rparr>"

definition demo_token :: one_time_token where
  "demo_token = \<lparr>ot_id = ''t1'', ot_user = ''u1'', ot_hash = ''ab'', ot_expires_at = 100,
     ot_consumed_at = None, ot_created_at = 0\<rparr>"

definition demo_reset_world :: "(unit, unit) cred_world" where
  "demo_reset_world = demo_world\<lparr>cw_reset_tokens := [(''t1'', demo_token)]\<rparr>"

definition demo_reset_times :: reset_times where
  "demo_reset_times = \<lparr>rt_now = 10, rt_gate = 10, rt_limit = 10, rt_updated = 10, rt_failure = 10\<rparr>"

definition demo_reset :: "string \<Rightarrow> confirm_reset_command" where
  "demo_reset pw = \<lparr>crc_token = ''ab'', crc_new_password = pw\<rparr>"

definition demo_change :: "string \<Rightarrow> string \<Rightarrow> change_password_command" where
  "demo_change old new = \<lparr>cpc_user_id = ''u1'', cpc_current = old, cpc_new = new\<rparr>"

definition demo_registration :: register_password_command where
  "demo_registration = \<lparr>rpc_user = demo_register, rpc_password = ''correct horse''\<rparr>"

definition demo_empty_world :: "(unit, unit) cred_world" where
  "demo_empty_world = \<lparr>cw_users = [], cw_credentials = [], cw_email_tokens = [], cw_reset_tokens = [],
     cw_attempts = [], cw_limiter = (), cw_sessions = (), cw_sent = []\<rparr>"

lemma demo_reset_reused:
  "fst (confirm_reset_execute (cd_digest demo_deps) (cd_hasher demo_deps) (cd_revoke demo_deps)
      (cd_limiter demo_deps) (cd_passwords demo_deps) (cd_depth demo_deps) (cd_brute demo_deps)
      demo_reset_times ''c2'' ''s'' (demo_reset ''correct horse'') demo_reset_world) =
   Inr (Inl (ValidationError [(''password'', [''reused''])]))"
  by code_simp

lemma demo_tokens_inv: "tokens_inv (cw_reset_tokens demo_reset_world)"
  by (simp add: tokens_inv_def demo_reset_world_def demo_token_def map_wf_def)

theorem reset_link_single_use_witness:
  "fst (confirm_reset_execute (cd_digest demo_deps) (cd_hasher demo_deps) (cd_revoke demo_deps)
      (cd_limiter demo_deps) (cd_passwords demo_deps) (cd_depth demo_deps) (cd_brute demo_deps)
      demo_reset_times ''c3'' ''s'' (demo_reset ''battery staple'')
      (cred_run demo_deps [RequestReset 20 ''t2'' ''cd'' False '' Ada@Example.com'']
        (cred_step demo_deps (ConfirmReset demo_reset_times ''c2'' ''s'' (demo_reset ''correct horse''))
          demo_reset_world))) \<noteq> Inr (Inr demo_user)"
proof -
  have a: "fst (confirm_reset_execute (cd_digest demo_deps) (cd_hasher demo_deps) (cd_revoke demo_deps)
      (cd_limiter demo_deps) (cd_passwords demo_deps) (cd_depth demo_deps) (cd_brute demo_deps)
      demo_reset_times ''c2'' ''s'' (demo_reset ''correct horse'') demo_reset_world) \<in>
      {Inr (Inr demo_user), Inr (Inl (ValidationError [(''password'', [''reused''])])),
       Inr (Inl (ValidationError [(''sessions'', [''revocation_failed''])]))}"
    unfolding demo_reset_reused by blast
  have b: "\<forall>call \<in> set [RequestReset 20 ''t2'' ''cd'' False '' Ada@Example.com''].
      draws_other demo_deps (cd_digest demo_deps (crc_token (demo_reset ''correct horse''))) call"
    by (simp add: draws_other_def demo_deps_def demo_reset_def)
  show ?thesis
    using reset_link_single_use [OF demo_tokens_inv a b HOL.refl,
        of "demo_reset ''battery staple''" demo_reset_times "''c3''" "''s''" demo_user]
    by (simp add: demo_reset_def)
qed

lemma demo_world_inv: "credentials_inv (cw_credentials demo_world)"
  by (rule demo_login_facts)

theorem no_reuse_within_depth_witness:
  "fst (change_password_execute (cd_hasher demo_deps) (cd_passwords demo_deps) (cd_depth demo_deps)
     20 ''s'' (demo_change ''battery staple'' ''correct horse'')
     (cred_run demo_deps [ChangePw 10 ''s'' (demo_change ''correct horse'' ''battery staple'')] demo_world)) \<noteq>
   Inr (Inr demo_user)"
proof -
  have u: "u_id demo_user = ''u1''" by (simp add: demo_user_def user_register_def)
  show ?thesis
    using no_reuse_within_depth [of demo_world "''u1''" "credential_create ''c1'' 0 ''u1'' ''scorrect horse''"
        demo_deps "''correct horse''" "[ChangePw 10 ''s'' (demo_change ''correct horse'' ''battery staple'')]"
        "demo_change ''battery staple'' ''correct horse''" 20 "''s''" demo_user]
      demo_world_inv demo_login_facts(3) u
    by (simp add: demo_deps_def demo_hasher_def demo_change_def erases_def rotates_def credential_create_def)
qed

lemma demo_reset_request:
  "request_reset_execute (\<lambda>s. s) (noop_rate_limiter 0) None 5 ''t2'' ''cd'' False '' Ada@Example.com'' demo_reset_world =
   (Inr (Inr True), snd (request_reset_execute (\<lambda>s. s) (noop_rate_limiter 0) None 5 ''t2'' ''cd'' False
      '' Ada@Example.com'' demo_reset_world))"
  by code_simp

theorem reset_request_reissues_witness:
  "\<exists>t. tokens_find_by_hash (cw_reset_tokens (snd (request_reset_execute (\<lambda>s. s) (noop_rate_limiter 0) None 5
     ''t2'' ''cd'' False '' Ada@Example.com'' demo_reset_world))) ''cd'' = Some t"
proof -
  have "map_get (cw_reset_tokens demo_reset_world) ''t2'' = None"
    "\<forall>t \<in> set (map_values (cw_reset_tokens demo_reset_world)). ot_hash t \<noteq> ''cd''"
    by (simp_all add: demo_reset_world_def map_values_def demo_token_def)
  from reset_request_reissues [OF demo_tokens_inv demo_reset_request this]
  show ?thesis by blast
qed

lemma demo_registration_run:
  "register_with_password_execute demo_hasher (noop_rate_limiter 0) \<lparr>pp_min_length = 3, pp_max_length = 256\<rparr>
     5 ''u1'' ''c1'' ''s'' demo_registration demo_empty_world =
   (Inr (Inr (demo_user, credential_create ''c1'' 5 ''u1'' ''scorrect horse'')),
    snd (register_with_password_execute demo_hasher (noop_rate_limiter 0) \<lparr>pp_min_length = 3, pp_max_length = 256\<rparr>
     5 ''u1'' ''c1'' ''s'' demo_registration demo_empty_world))"
  by code_simp

theorem register_then_login_witness:
  "u_status demo_user = UPending \<and> ph_verify demo_hasher ''correct horse'' ''scorrect horse''"
proof -
  have "directory_inv (cw_users demo_empty_world)" "map_get (cw_users demo_empty_world) ''u1'' = None"
    "ph_verify demo_hasher (rpc_password demo_registration)
      (ph_hash demo_hasher ''s'' (rpc_password demo_registration))"
    "auc_email \<lparr>auc_email = '' Ada@Example.com'', auc_password = ''correct horse''\<rparr> = ruc_email (rpc_user demo_registration)"
    by (simp_all add: demo_empty_world_def demo_hasher_def demo_registration_def demo_register_def)
  from register_then_login [OF this(1-3) demo_registration_run this(4), where brute = None]
  show ?thesis by (simp add: demo_registration_def credential_create_def)
qed

end
