(* ===== verification/Sessions.thy ===== *)
theory Sessions
  imports Identity
begin

text \<open>
  \<open>packages/sessions\<close>: the session expiry policy, the \<open>Session\<close> and \<open>RefreshToken\<close> entities, the
  in-memory repository, revocation list and audit logger, and the use cases that open, refresh,
  list and end sessions. A use case is a function from the session world to its result and the
  world after it. The clock, ids and raw tokens it draws, the digest (SHA-256) and the access-token signer are arguments;
  times and durations are whole milliseconds.
\<close>

section \<open>The expiry policy\<close>

record expiry_policy =
  xp_refresh_ttl :: int
  xp_access_ttl :: int
  xp_lifetime :: int
  xp_idle :: int

text \<open>
  \<^emph>\<open>create\<close> checks the fields in the order of the object literal it is given, which is the
  order of \<open>props\<close> here.
\<close>

definition expiry_policy_create :: "(string \<times> int) list \<Rightarrow> expiry_policy result" where
  "expiry_policy_create props =
     (let get = (\<lambda>f. or_default (map_of props f) 0);
          bad = filter (\<lambda>(f, v). v \<le> 0) props;
          errors = map (\<lambda>(f, v). (f, [''must be a positive number of milliseconds''])) bad;
          errors = (if get ''accessTokenTtlMs'' > get ''refreshTokenTtlMs''
            then map_set ''accessTokenTtlMs''
              (or_default (map_get errors ''accessTokenTtlMs'') [] @ [''must not be longer than refreshTokenTtlMs'']) errors
            else errors)
      in if errors \<noteq> [] then Inl (ValidationError errors)
         else Inr \<lparr>xp_refresh_ttl = get ''refreshTokenTtlMs'', xp_access_ttl = get ''accessTokenTtlMs'',
                xp_lifetime = get ''absoluteLifetimeMs'', xp_idle = get ''idleTimeoutMs''\<rparr>)"

definition default_expiry_policy :: "expiry_policy throwing" where
  "default_expiry_policy =
     (case expiry_policy_create
        [(''accessTokenTtlMs'', 15 * 60 * 1000), (''refreshTokenTtlMs'', 30 * 24 * 60 * 60 * 1000),
         (''absoluteLifetimeMs'', 30 * 24 * 60 * 60 * 1000), (''idleTimeoutMs'', 7 * 24 * 60 * 60 * 1000)] of
        Inl e \<Rightarrow> Inl e
      | Inr p \<Rightarrow> Inr p)"

definition absolute_expiry_from :: "expiry_policy \<Rightarrow> int \<Rightarrow> int" where
  "absolute_expiry_from policy opened = opened + xp_lifetime policy"

definition refresh_expiry_from :: "expiry_policy \<Rightarrow> int \<Rightarrow> int" where
  "refresh_expiry_from policy issued = issued + xp_refresh_ttl policy"

definition is_idle_expired :: "expiry_policy \<Rightarrow> int \<Rightarrow> int \<Rightarrow> bool" where
  "is_idle_expired policy last_seen now \<longleftrightarrow> now - last_seen \<ge> xp_idle policy"

section \<open>Session\<close>

datatype session_event = RefreshTokenReuseDetected string string string

record session =
  ss_id :: string
  ss_user :: string
  ss_created_at :: int
  ss_last_seen :: int
  ss_expires_at :: int
  ss_ip :: "string option"
  ss_agent :: "string option"
  ss_revoked_at :: "int option"
  ss_events :: "session_event list"

definition session_open ::
  "string \<Rightarrow> int \<Rightarrow> string \<Rightarrow> expiry_policy \<Rightarrow> string option \<Rightarrow> string option \<Rightarrow> session" where
  "session_open fresh now user policy ip agent =
     \<lparr>ss_id = fresh, ss_user = user, ss_created_at = now, ss_last_seen = now,
      ss_expires_at = absolute_expiry_from policy now, ss_ip = ip, ss_agent = agent,
      ss_revoked_at = None, ss_events = []\<rparr>"

definition session_reconstitute :: "session \<Rightarrow> session" where
  "session_reconstitute props = props\<lparr>ss_events := []\<rparr>"

definition session_is_revoked :: "session \<Rightarrow> bool" where
  "session_is_revoked s \<longleftrightarrow> ss_revoked_at s \<noteq> None"

definition session_is_active :: "expiry_policy \<Rightarrow> int \<Rightarrow> session \<Rightarrow> bool" where
  "session_is_active policy now s =
     (if session_is_revoked s then False
      else if now \<ge> ss_expires_at s then False
      else \<not> is_idle_expired policy (ss_last_seen s) now)"

definition session_touch :: "int \<Rightarrow> session \<Rightarrow> session" where
  "session_touch now s = s\<lparr>ss_last_seen := now\<rparr>"

definition session_revoke :: "int \<Rightarrow> session \<Rightarrow> session" where
  "session_revoke now s =
     (if session_is_revoked s then s else s\<lparr>ss_revoked_at := Some now, ss_events := []\<rparr>)"

definition session_revoke_reuse :: "string \<Rightarrow> int \<Rightarrow> session \<Rightarrow> session" where
  "session_revoke_reuse token_id now s =
     (if session_is_revoked s then s
      else s\<lparr>ss_revoked_at := Some now,
             ss_events := [RefreshTokenReuseDetected (ss_id s) (ss_user s) token_id]\<rparr>)"

section \<open>RefreshToken\<close>

record refresh_token =
  rf_id :: string
  rf_session :: string
  rf_hash :: string
  rf_created_at :: int
  rf_expires_at :: int
  rf_used_at :: "int option"
  rf_revoked_at :: "int option"

definition refresh_issue ::
  "(string \<Rightarrow> string) \<Rightarrow> string \<Rightarrow> string \<Rightarrow> string \<Rightarrow> int \<Rightarrow> int \<Rightarrow> refresh_token \<times> string" where
  "refresh_issue digest fresh raw session expires now =
     (\<lparr>rf_id = fresh, rf_session = session, rf_hash = digest raw, rf_created_at = now,
       rf_expires_at = expires, rf_used_at = None, rf_revoked_at = None\<rparr>, raw)"

definition refresh_is_expired :: "int \<Rightarrow> refresh_token \<Rightarrow> bool" where
  "refresh_is_expired now t \<longleftrightarrow> now \<ge> rf_expires_at t"

definition refresh_is_used :: "refresh_token \<Rightarrow> bool" where
  "refresh_is_used t \<longleftrightarrow> rf_used_at t \<noteq> None"

definition refresh_is_revoked :: "refresh_token \<Rightarrow> bool" where
  "refresh_is_revoked t \<longleftrightarrow> rf_revoked_at t \<noteq> None"

definition refresh_is_redeemable :: "int \<Rightarrow> refresh_token \<Rightarrow> bool" where
  "refresh_is_redeemable now t \<longleftrightarrow>
     \<not> refresh_is_used t \<and> \<not> refresh_is_revoked t \<and> \<not> refresh_is_expired now t"

definition refresh_mark_used :: "int \<Rightarrow> refresh_token \<Rightarrow> refresh_token" where
  "refresh_mark_used now t = t\<lparr>rf_used_at := Some now\<rparr>"

definition refresh_revoke :: "int \<Rightarrow> refresh_token \<Rightarrow> refresh_token" where
  "refresh_revoke now t = (if refresh_is_revoked t then t else t\<lparr>rf_revoked_at := Some now\<rparr>)"

section \<open>The in-memory adapters\<close>

text \<open>
  The repository keeps sessions by id and refresh tokens by digest, the revocation list a time
  per session id, the audit logger its entries.
\<close>

record session_world =
  sw_sessions :: "(string, session) js_map"
  sw_tokens :: "(string, refresh_token) js_map"
  sw_revoked :: "(string, int) js_map"
  sw_audit :: "(string \<times> string \<times> (string \<times> string) list) list"

definition sessions_save :: "session \<Rightarrow> session_world \<Rightarrow> session_world" where
  "sessions_save s w = w\<lparr>sw_sessions := map_set (ss_id s) s (sw_sessions w)\<rparr>"

definition sessions_find_by_id :: "session_world \<Rightarrow> string \<Rightarrow> session option" where
  "sessions_find_by_id w i = map_get (sw_sessions w) i"

definition sessions_find_active :: "session_world \<Rightarrow> string \<Rightarrow> session list" where
  "sessions_find_active w user =
     sort_key ss_last_seen
       (filter (\<lambda>s. ss_user s = user \<and> \<not> session_is_revoked s) (map_values (sw_sessions w)))"

definition sessions_revoke_all :: "string \<Rightarrow> int \<Rightarrow> session_world \<Rightarrow> session_world" where
  "sessions_revoke_all user now w =
     w\<lparr>sw_sessions := fold (\<lambda>s m. if ss_user s = user then map_set (ss_id s) (session_revoke now s) m else m)
          (map_values (sw_sessions w)) (sw_sessions w)\<rparr>"

definition sessions_save_token :: "refresh_token \<Rightarrow> session_world \<Rightarrow> session_world" where
  "sessions_save_token t w = w\<lparr>sw_tokens := map_set (rf_hash t) t (sw_tokens w)\<rparr>"

definition sessions_find_token :: "session_world \<Rightarrow> string \<Rightarrow> refresh_token option" where
  "sessions_find_token w h = map_get (sw_tokens w) h"

definition revocation_revoke :: "string \<Rightarrow> int \<Rightarrow> session_world \<Rightarrow> session_world" where
  "revocation_revoke sid until w = w\<lparr>sw_revoked := map_set sid until (sw_revoked w)\<rparr>"

definition revocation_is_revoked :: "string \<Rightarrow> int \<Rightarrow> session_world \<Rightarrow> bool \<times> session_world" where
  "revocation_is_revoked sid now w =
     (case map_get (sw_revoked w) sid of
        None \<Rightarrow> (False, w)
      | Some until \<Rightarrow>
          (if until \<le> now then (False, w\<lparr>sw_revoked := map_delete sid (sw_revoked w)\<rparr>)
           else (True, w)))"

definition audit_record ::
  "string \<Rightarrow> string \<Rightarrow> (string \<times> string) list \<Rightarrow> session_world \<Rightarrow> session_world" where
  "audit_record action actor metadata w = w\<lparr>sw_audit := sw_audit w @ [(action, actor, metadata)]\<rparr>"

section \<open>IssueSession\<close>

record access_payload =
  ap_session :: string
  ap_user :: string

type_synonym signer = "access_payload \<Rightarrow> int \<Rightarrow> string"

record issue_command =
  isc_user :: string
  isc_ip :: "string option"
  isc_agent :: "string option"

record issued_session =
  is_session :: string
  is_access :: string
  is_refresh :: string

definition access_ttl_seconds :: "expiry_policy \<Rightarrow> int" where
  "access_ttl_seconds policy = xp_access_ttl policy div 1000"

text \<open>The \<^emph>\<open>for (;;)\<close> loop: \<^emph>\<open>None\<close> is a loop that never ends.\<close>

partial_function (option) evict_oldest ::
  "expiry_policy \<Rightarrow> nat \<Rightarrow> string \<Rightarrow> int \<Rightarrow> session_world \<Rightarrow> session_world option" where
  "evict_oldest policy limit user now w =
     (let active = sessions_find_active w user
      in if length active < limit then Some w
         else let oldest = hd active
              in evict_oldest policy limit user now
                   (audit_record ''session.evicted'' user
                      [(''evictedSessionId'', ss_id oldest), (''reason'', ''concurrent_session_limit'')]
                      (revocation_revoke (ss_id oldest) (now + xp_access_ttl policy)
                        (sessions_save (session_revoke now oldest) w))))"

definition issue_execute ::
  "(string \<Rightarrow> string) \<Rightarrow> signer \<Rightarrow> expiry_policy \<Rightarrow> nat \<Rightarrow> int \<Rightarrow> string \<Rightarrow> string \<Rightarrow> string \<Rightarrow>
     issue_command \<Rightarrow> session_world \<Rightarrow> (issued_session result \<times> session_world) option" where
  "issue_execute digest sign policy limit now fresh fresh_token raw cmd w =
     (if js_trim (isc_user cmd) = [] then
        Some (Inl (ValidationError [(''userId'', [''is required''])]), w)
      else
        case (if limit > 0 then evict_oldest policy limit (isc_user cmd) now w else Some w) of
          None \<Rightarrow> None
        | Some w1 \<Rightarrow>
            (let session = session_open fresh now (isc_user cmd) policy (isc_ip cmd) (isc_agent cmd);
                 (token, raw_token) =
                   refresh_issue digest fresh_token raw (ss_id session) (refresh_expiry_from policy now) now;
                 w2 = sessions_save_token token (sessions_save session w1);
                 access = sign \<lparr>ap_session = ss_id session, ap_user = ss_user session\<rparr> (access_ttl_seconds policy)
             in Some (Inr \<lparr>is_session = ss_id session, is_access = access, is_refresh = raw_token\<rparr>, w2)))"

section \<open>RefreshAccessToken\<close>

record refreshed =
  rd_access :: string
  rd_refresh :: string

definition refresh_execute ::
  "(string \<Rightarrow> string) \<Rightarrow> signer \<Rightarrow> expiry_policy \<Rightarrow> int \<Rightarrow> string \<Rightarrow> string \<Rightarrow> string \<Rightarrow> session_world \<Rightarrow>
     refreshed result \<times> session_world" where
  "refresh_execute digest sign policy now fresh_token raw presented_raw w =
     (case sessions_find_token w (digest presented_raw) of
        None \<Rightarrow> (Inl AuthenticationError, w)
      | Some presented \<Rightarrow>
          (case sessions_find_by_id w (rf_session presented) of
             None \<Rightarrow> (Inl AuthenticationError, w)
           | Some session \<Rightarrow>
               (if refresh_is_used presented then
                  let revoked = session_revoke_reuse (rf_id presented) now session
                  in (Inl AuthenticationError,
                      revocation_revoke (ss_id revoked) (now + xp_access_ttl policy) (sessions_save revoked w))
                else if \<not> refresh_is_redeemable now presented \<or> \<not> session_is_active policy now session
                then (Inl AuthenticationError, w)
                else let used = refresh_mark_used now presented;
                         (next, raw_next) = refresh_issue digest fresh_token raw (ss_id session)
                            (refresh_expiry_from policy now) now;
                         touched = session_touch now session;
                         w1 = sessions_save touched (sessions_save_token next (sessions_save_token used w));
                         access = sign \<lparr>ap_session = ss_id touched, ap_user = ss_user touched\<rparr> (access_ttl_seconds policy)
                     in (Inr \<lparr>rd_access = access, rd_refresh = raw_next\<rparr>, w1))))"

section \<open>Logout, LogoutEverywhere and ListActiveSessions\<close>

definition revocation_window_ms :: int where
  "revocation_window_ms = 24 * 60 * 60 * 1000"

definition logout_execute :: "int \<Rightarrow> string \<Rightarrow> int option \<Rightarrow> session_world \<Rightarrow> unit result \<times> session_world" where
  "logout_execute now sid revoke_until w =
     (if js_trim sid = [] then (Inl (ValidationError [(''sessionId'', [''is required''])]), w)
      else case sessions_find_by_id w sid of
        None \<Rightarrow> (Inr (), w)
      | Some session \<Rightarrow>
          (Inr (), revocation_revoke sid (or_default revoke_until (now + revocation_window_ms))
             (sessions_save (session_revoke now session) w)))"

definition logout_everywhere_execute :: "int \<Rightarrow> string \<Rightarrow> session_world \<Rightarrow> unit result \<times> session_world" where
  "logout_everywhere_execute now user w =
     (if js_trim user = [] then (Inl (ValidationError [(''userId'', [''is required''])]), w)
      else let until = now + revocation_window_ms;
               w1 = fold (\<lambda>s. revocation_revoke (ss_id s) until) (sessions_find_active w user) w
           in (Inr (), sessions_revoke_all user now w1))"

text \<open>
  \<^emph>\<open>SessionsPackageRevoker\<close>, the revoker that the credentials package calls: an error result is
  logged and swallowed, so it never throws.
\<close>

definition package_revoke_all :: "int \<Rightarrow> string \<Rightarrow> session_world \<Rightarrow> session_world option" where
  "package_revoke_all now user w = Some (snd (logout_everywhere_execute now user w))"

record list_sessions_command =
  lsc_requester :: string
  lsc_target :: string
  lsc_admin :: bool

record session_summary =
  sm_id :: string
  sm_created_at :: int
  sm_last_seen :: int
  sm_expires_at :: int
  sm_ip :: "string option"
  sm_agent :: "string option"

definition list_sessions_execute ::
  "expiry_policy \<Rightarrow> int \<Rightarrow> list_sessions_command \<Rightarrow> session_world \<Rightarrow> session_summary list result" where
  "list_sessions_execute policy now cmd w =
     (let errors = (if js_trim (lsc_requester cmd) = [] then [(''requestingUserId'', [''is required''])] else []) @
                   (if js_trim (lsc_target cmd) = [] then [(''targetUserId'', [''is required''])] else [])
      in if errors \<noteq> [] then Inl (ValidationError errors)
         else if lsc_requester cmd \<noteq> lsc_target cmd \<and> \<not> lsc_admin cmd then Inl AuthorizationError
         else Inr (map (\<lambda>s. \<lparr>sm_id = ss_id s, sm_created_at = ss_created_at s, sm_last_seen = ss_last_seen s,
                            sm_expires_at = ss_expires_at s, sm_ip = ss_ip s, sm_agent = ss_agent s\<rparr>)
                 (filter (session_is_active policy now) (sessions_find_active w (lsc_target cmd)))))"

end
