(* ===== verification/SessionRuns.thy ===== *)
theory SessionRuns
  imports Sessions
begin

text \<open>
  Runs of the session use cases: what holds of every session world they reach, and what no later
  call undoes. The deny list is used through the contract of its port.
\<close>

section \<open>The deny list contract\<close>

locale deny_list =
  fixes deny :: "string \<Rightarrow> int \<Rightarrow> 's \<Rightarrow> 's"
    and check :: "string \<Rightarrow> int \<Rightarrow> 's \<Rightarrow> bool \<times> 's"
  assumes check_deny: "fst (check i now (deny j until s)) = (if i = j then now < until else fst (check i now s))"
    and check_keeps: "now \<le> later \<Longrightarrow> fst (check i later (snd (check j now s))) = fst (check i later s)"
begin

text \<open>Blocked at every time before the bound.\<close>

definition blocked :: "string \<Rightarrow> int \<Rightarrow> 's \<Rightarrow> bool" where
  "blocked i bound s \<longleftrightarrow> (\<forall>now. now < bound \<longrightarrow> fst (check i now s))"

lemma blocked_deny: "bound \<le> until \<Longrightarrow> blocked i bound (deny i until s)"
  by (simp add: blocked_def check_deny)

lemma blocked_deny_keeps: "blocked i bound s \<Longrightarrow> (i = j \<longrightarrow> bound \<le> until) \<Longrightarrow> blocked i bound (deny j until s)"
  by (auto simp: blocked_def check_deny)

lemma blocked_fold_deny:
  "blocked i bound s \<Longrightarrow> bound \<le> until \<Longrightarrow> blocked i bound (fold (\<lambda>x. deny (f x) until) xs s)"
  by (induction xs arbitrary: s) (auto intro: blocked_deny_keeps)

lemma blocked_fold_deny_new:
  "x \<in> set xs \<Longrightarrow> bound \<le> until \<Longrightarrow> blocked (f x) bound (fold (\<lambda>x. deny (f x) until) xs s)"
proof (induction xs arbitrary: s)
  case (Cons y ys)
  then show ?case
    by (cases "x \<in> set ys") (auto intro: blocked_fold_deny blocked_deny)
qed simp

end

interpretation mem_deny: deny_list revocation_revoke revocation_is_revoked
proof unfold_locales
  show "fst (revocation_is_revoked i now (revocation_revoke j until s)) =
      (if i = j then now < until else fst (revocation_is_revoked i now s))" for i now j until s
    by (auto simp: revocation_is_revoked_def revocation_revoke_def split: option.split)
  show "fst (revocation_is_revoked i later (snd (revocation_is_revoked j now s))) =
      fst (revocation_is_revoked i later s)" if "now \<le> later" for i j now later s
    using that by (auto simp: revocation_is_revoked_def split: option.splits if_splits)
qed

lemma blocked_iff:
  "mem_deny.blocked i bound w \<longleftrightarrow> (\<exists>u. map_get (sw_revoked w) i = Some u \<and> bound \<le> u)"
proof
  assume "mem_deny.blocked i bound w"
  then have "fst (revocation_is_revoked i (bound - 1) w)" by (simp add: mem_deny.blocked_def)
  then show "\<exists>u. map_get (sw_revoked w) i = Some u \<and> bound \<le> u"
    by (auto simp: revocation_is_revoked_def split: option.splits if_splits)
qed (auto simp: mem_deny.blocked_def revocation_is_revoked_def)

section \<open>Calls and runs\<close>

record session_deps =
  xd_digest :: "string \<Rightarrow> string"
  xd_sign :: signer
  xd_policy :: expiry_policy
  xd_limit :: nat

datatype session_call =
    IssueCall string string string issue_command
  | RefreshCall string string string
  | LogoutCall string "int option"
  | LogoutAllCall string
  | CheckCall string

definition session_step :: "session_deps \<Rightarrow> int \<Rightarrow> session_call \<Rightarrow> session_world \<Rightarrow> session_world option" where
  "session_step d now call w =
     (case call of
        IssueCall fresh fresh_token raw cmd \<Rightarrow>
          map_option snd (issue_execute (xd_digest d) (xd_sign d) (xd_policy d) (xd_limit d) now
            fresh fresh_token raw cmd w)
      | RefreshCall fresh_token raw token \<Rightarrow>
          Some (snd (refresh_execute (xd_digest d) (xd_sign d) (xd_policy d) now fresh_token raw token w))
      | LogoutCall sid until \<Rightarrow> Some (snd (logout_execute now sid until w))
      | LogoutAllCall user \<Rightarrow> Some (snd (logout_everywhere_execute now user w))
      | CheckCall sid \<Rightarrow> Some (snd (revocation_is_revoked sid now w)))"

text \<open>Ids and the digests of raw tokens are drawn fresh.\<close>

definition call_fresh :: "session_deps \<Rightarrow> session_call \<Rightarrow> session_world \<Rightarrow> bool" where
  "call_fresh d call w =
     (case call of
        IssueCall fresh fresh_token raw cmd \<Rightarrow>
          map_get (sw_sessions w) fresh = None \<and> map_get (sw_tokens w) (xd_digest d raw) = None
      | RefreshCall fresh_token raw token \<Rightarrow> map_get (sw_tokens w) (xd_digest d raw) = None
      | _ \<Rightarrow> True)"

text \<open>
  A run from time \<^emph>\<open>t\<close>: the times do not go back and what is drawn is fresh; \<^emph>\<open>None\<close> is a run
  that breaks this (no call runs forever, see the properties).
\<close>

fun session_run :: "session_deps \<Rightarrow> int \<Rightarrow> (int \<times> session_call) list \<Rightarrow> session_world \<Rightarrow> session_world option" where
  "session_run d t [] w = Some w"
| "session_run d t ((now, call) # calls) w =
     (if t \<le> now \<and> call_fresh d call w then
        (case session_step d now call w of None \<Rightarrow> None | Some w' \<Rightarrow> session_run d now calls w')
      else None)"

section \<open>The invariant\<close>

text \<open>
  Sessions and tokens are stored under their own key, a token's session exists, and a session
  has at most one refresh token that was not used.
\<close>

definition sessions_inv :: "session_world \<Rightarrow> bool" where
  "sessions_inv w \<longleftrightarrow> map_wf (sw_sessions w) \<and> map_wf (sw_tokens w) \<and>
     (\<forall>i s. map_get (sw_sessions w) i = Some s \<longrightarrow> ss_id s = i) \<and>
     (\<forall>h t. map_get (sw_tokens w) h = Some t \<longrightarrow> rf_hash t = h \<and> map_get (sw_sessions w) (rf_session t) \<noteq> None) \<and>
     (\<forall>h k t u. map_get (sw_tokens w) h = Some t \<longrightarrow> map_get (sw_tokens w) k = Some u \<longrightarrow>
        rf_session t = rf_session u \<longrightarrow> \<not> refresh_is_used t \<longrightarrow> \<not> refresh_is_used u \<longrightarrow> h = k)"

definition active_ids :: "session_world \<Rightarrow> string \<Rightarrow> string set" where
  "active_ids w user = {i. \<exists>s. map_get (sw_sessions w) i = Some s \<and> ss_user s = user \<and> \<not> session_is_revoked s}"

lemma sessions_invD:
  "sessions_inv w \<Longrightarrow> map_get (sw_sessions w) i = Some s \<Longrightarrow> ss_id s = i"
  by (simp add: sessions_inv_def)

lemma sessions_inv_tokenD:
  "sessions_inv w \<Longrightarrow> map_get (sw_tokens w) h = Some t \<Longrightarrow>
     rf_hash t = h \<and> (\<exists>s. map_get (sw_sessions w) (rf_session t) = Some s)"
  by (simp add: sessions_inv_def)

lemma finite_active_ids [simp]: "finite (active_ids w user)"
proof -
  have "active_ids w user \<subseteq> dom (map_of (sw_sessions w))" by (auto simp: active_ids_def)
  then show ?thesis using finite_dom_map_of finite_subset by blast
qed

lemma set_find_active:
  assumes "sessions_inv w"
  shows "set (sessions_find_active w user) =
    {s. map_get (sw_sessions w) (ss_id s) = Some s \<and> ss_user s = user \<and> \<not> session_is_revoked s}"
  using assms by (auto simp: sessions_find_active_def sessions_inv_def map_values_iff)

lemma distinct_values:
  assumes "map_wf m" "\<forall>i s. map_get m i = Some s \<longrightarrow> ss_id s = i"
  shows "distinct (map ss_id (map_values m))"
proof -
  have "map ss_id (map_values m) = map fst m"
    using assms by (auto simp: map_values_def map_wf_def)
  then show ?thesis using assms(1) by (simp add: map_wf_def)
qed

lemma length_find_active:
  assumes "sessions_inv w"
  shows "length (sessions_find_active w user) = card (active_ids w user)"
proof -
  have d: "distinct (map ss_id (map_values (sw_sessions w)))"
    by (rule distinct_values) (use assms in \<open>auto simp: sessions_inv_def\<close>)
  let ?l = "filter (\<lambda>s. ss_user s = user \<and> \<not> session_is_revoked s) (map_values (sw_sessions w))"
  have "distinct (map ss_id ?l)" using d by (rule distinct_map_filter)
  then have "length ?l = card (ss_id ` set ?l)"
    using distinct_card by fastforce
  moreover have "ss_id ` set (sessions_find_active w user) = active_ids w user"
  proof (intro set_eqI iffI)
    fix i
    assume "i \<in> active_ids w user"
    then obtain s where s: "map_get (sw_sessions w) i = Some s" "ss_user s = user" "\<not> session_is_revoked s"
      by (auto simp: active_ids_def)
    then have "ss_id s = i" using sessions_invD [OF assms] by blast
    with s show "i \<in> ss_id ` set (sessions_find_active w user)"
      unfolding set_find_active [OF assms] by blast
  qed (auto simp: set_find_active [OF assms] active_ids_def)
  then have "ss_id ` set ?l = active_ids w user" by (simp add: sessions_find_active_def)
  ultimately show ?thesis by (simp add: sessions_find_active_def)
qed

lemma find_active_hd:
  assumes "sessions_find_active w user = s # ss" "x \<in> set (s # ss)"
  shows "ss_last_seen s \<le> ss_last_seen x"
proof -
  have "sorted (map ss_last_seen (s # ss))"
    unfolding assms(1) [symmetric] by (simp add: sessions_find_active_def)
  then show ?thesis using assms(2) by auto
qed

section \<open>What a call changes\<close>

lemma session_primitives [simp]:
  "sw_sessions (sessions_save s w) = map_set (ss_id s) s (sw_sessions w)"
  "sw_tokens (sessions_save s w) = sw_tokens w"
  "sw_sessions (sessions_save_token t w) = sw_sessions w"
  "sw_tokens (sessions_save_token t w) = map_set (rf_hash t) t (sw_tokens w)"
  "sw_sessions (revocation_revoke i u w) = sw_sessions w"
  "sw_tokens (revocation_revoke i u w) = sw_tokens w"
  "sw_sessions (audit_record a b c w) = sw_sessions w"
  "sw_tokens (audit_record a b c w) = sw_tokens w"
  "sw_sessions (snd (revocation_is_revoked i u w)) = sw_sessions w"
  "sw_tokens (snd (revocation_is_revoked i u w)) = sw_tokens w"
  by (simp_all add: sessions_save_def sessions_save_token_def revocation_revoke_def audit_record_def
      revocation_is_revoked_def split: option.split)

lemma session_ids [simp]:
  "ss_id (session_revoke now s) = ss_id s" "ss_user (session_revoke now s) = ss_user s"
  "session_is_revoked (session_revoke now s)"
  "ss_last_seen (session_revoke now s) = ss_last_seen s"
  "ss_id (session_revoke_reuse i now s) = ss_id s" "ss_user (session_revoke_reuse i now s) = ss_user s"
  "session_is_revoked (session_revoke_reuse i now s)"
  "ss_id (session_touch now s) = ss_id s" "ss_user (session_touch now s) = ss_user s"
  "session_is_revoked (session_touch now s) = session_is_revoked s"
  by (auto simp: session_revoke_def session_revoke_reuse_def session_touch_def session_is_revoked_def)

lemma sessions_inv_eq:
  "sw_sessions w' = sw_sessions w \<Longrightarrow> sw_tokens w' = sw_tokens w \<Longrightarrow> sessions_inv w' = sessions_inv w"
  by (simp add: sessions_inv_def)

lemma sessions_inv_save: "sessions_inv w \<Longrightarrow> sessions_inv (sessions_save s w)"
  unfolding sessions_inv_def by (simp; blast)

lemma active_ids_eq: "sw_sessions w' = sw_sessions w \<Longrightarrow> active_ids w' u = active_ids w u"
  by (simp add: active_ids_def)

lemma active_ids_save:
  "active_ids (sessions_save s w) u =
     (if ss_user s = u \<and> \<not> session_is_revoked s then insert (ss_id s) (active_ids w u)
      else active_ids w u - {ss_id s})"
  by (auto simp: active_ids_def)

text \<open>Nothing is forgotten: sessions stay, with their user and revocation, tokens stay, used once used.\<close>

definition grows :: "session_world \<Rightarrow> session_world \<Rightarrow> bool" where
  "grows w w' \<longleftrightarrow>
     (\<forall>i s. map_get (sw_sessions w) i = Some s \<longrightarrow> (\<exists>s'. map_get (sw_sessions w') i = Some s' \<and>
        ss_user s' = ss_user s \<and> (session_is_revoked s \<longrightarrow> session_is_revoked s'))) \<and>
     (\<forall>h t. map_get (sw_tokens w) h = Some t \<longrightarrow> (\<exists>t'. map_get (sw_tokens w') h = Some t' \<and>
        rf_session t' = rf_session t \<and> (refresh_is_used t \<longrightarrow> refresh_is_used t')))"

lemma grows_eq: "sw_sessions w' = sw_sessions w \<Longrightarrow> sw_tokens w' = sw_tokens w \<Longrightarrow> grows w w'"
  by (simp add: grows_def)

lemma grows_refl [simp]: "grows w w"
  by (simp add: grows_eq)

lemma grows_trans:
  assumes "grows u v" "grows v w"
  shows "grows u w"
  unfolding grows_def
proof (intro conjI allI impI)
  fix i s
  assume "map_get (sw_sessions u) i = Some s"
  then obtain s' where s': "map_get (sw_sessions v) i = Some s'" "ss_user s' = ss_user s"
    "session_is_revoked s \<longrightarrow> session_is_revoked s'"
    using assms(1) unfolding grows_def by blast
  then obtain s'' where "map_get (sw_sessions w) i = Some s''" "ss_user s'' = ss_user s'"
    "session_is_revoked s' \<longrightarrow> session_is_revoked s''"
    using assms(2) unfolding grows_def by blast
  with s' show "\<exists>s'. map_get (sw_sessions w) i = Some s' \<and> ss_user s' = ss_user s \<and>
      (session_is_revoked s \<longrightarrow> session_is_revoked s')" by auto
next
  fix h t
  assume "map_get (sw_tokens u) h = Some t"
  then obtain t' where t': "map_get (sw_tokens v) h = Some t'" "rf_session t' = rf_session t"
    "refresh_is_used t \<longrightarrow> refresh_is_used t'"
    using assms(1) unfolding grows_def by blast
  then obtain t'' where "map_get (sw_tokens w) h = Some t''" "rf_session t'' = rf_session t'"
    "refresh_is_used t' \<longrightarrow> refresh_is_used t''"
    using assms(2) unfolding grows_def by blast
  with t' show "\<exists>t'. map_get (sw_tokens w) h = Some t' \<and> rf_session t' = rf_session t \<and>
      (refresh_is_used t \<longrightarrow> refresh_is_used t')" by auto
qed

lemma grows_save:
  "map_get (sw_sessions w) (ss_id s) = None \<or>
   (\<exists>s0. map_get (sw_sessions w) (ss_id s) = Some s0 \<and> ss_user s = ss_user s0 \<and>
      (session_is_revoked s0 \<longrightarrow> session_is_revoked s)) \<Longrightarrow> grows w (sessions_save s w)"
  by (auto simp: grows_def)

lemma grows_token:
  "map_get (sw_tokens w) (rf_hash t) = None \<or>
   (\<exists>t0. map_get (sw_tokens w) (rf_hash t) = Some t0 \<and> rf_session t = rf_session t0 \<and>
      (refresh_is_used t0 \<longrightarrow> refresh_is_used t)) \<Longrightarrow> grows w (sessions_save_token t w)"
  by (auto simp: grows_def)

section \<open>Eviction\<close>

lemma evict_step:
  assumes "sessions_inv w" "\<not> length (sessions_find_active w user) < limit" "0 < limit"
  defines "s \<equiv> hd (sessions_find_active w user)"
  shows "map_get (sw_sessions w) (ss_id s) = Some s" "ss_user s = user" "\<not> session_is_revoked s"
    and "\<forall>i x. i \<in> active_ids w user \<longrightarrow> map_get (sw_sessions w) i = Some x \<longrightarrow> ss_last_seen s \<le> ss_last_seen x"
proof -
  have ne: "sessions_find_active w user \<noteq> []" using assms(2,3) by force
  then have "s \<in> set (sessions_find_active w user)" by (simp add: s_def)
  then show "map_get (sw_sessions w) (ss_id s) = Some s" "ss_user s = user" "\<not> session_is_revoked s"
    using set_find_active [OF assms(1)] by auto
  show "\<forall>i x. i \<in> active_ids w user \<longrightarrow> map_get (sw_sessions w) i = Some x \<longrightarrow> ss_last_seen s \<le> ss_last_seen x"
  proof (intro allI impI)
    fix i x
    assume i: "i \<in> active_ids w user" "map_get (sw_sessions w) i = Some x"
    then have "x \<in> set (sessions_find_active w user)"
      using sessions_invD [OF assms(1)] by (auto simp: set_find_active [OF assms(1)] active_ids_def)
    then show "ss_last_seen s \<le> ss_last_seen x"
      using find_active_hd [of w user s "tl (sessions_find_active w user)" x] ne
      by (simp add: s_def)
  qed
qed

text \<open>
  The loop ends, below the limit; it revokes sessions of the user only, the least recently seen
  ones, denies their access tokens, and leaves everything else alone.
\<close>

lemma evict_oldest_spec:
  assumes "sessions_inv w" "0 < limit"
  shows "\<exists>w'. evict_oldest policy limit user now w = Some w' \<and> sessions_inv w' \<and> grows w w' \<and>
    sw_tokens w' = sw_tokens w \<and> card (active_ids w' user) < limit \<and> active_ids w' user \<subseteq> active_ids w user \<and>
    (\<forall>u. u \<noteq> user \<longrightarrow> active_ids w' u = active_ids w u) \<and>
    (\<forall>i. i \<notin> active_ids w user \<or> i \<in> active_ids w' user \<longrightarrow> map_get (sw_sessions w') i = map_get (sw_sessions w) i) \<and>
    (\<forall>i j x y. i \<in> active_ids w user - active_ids w' user \<longrightarrow> j \<in> active_ids w' user \<longrightarrow>
       map_get (sw_sessions w) i = Some x \<longrightarrow> map_get (sw_sessions w) j = Some y \<longrightarrow> ss_last_seen x \<le> ss_last_seen y) \<and>
    (\<forall>i \<in> active_ids w user - active_ids w' user. mem_deny.blocked i (now + xp_access_ttl policy) w') \<and>
    (\<forall>i bound. mem_deny.blocked i bound w \<longrightarrow> bound \<le> now + xp_access_ttl policy \<longrightarrow> mem_deny.blocked i bound w')"
  using assms(1)
proof (induction "card (active_ids w user)" arbitrary: w rule: less_induct)
  case less
  show ?case
  proof (cases "length (sessions_find_active w user) < limit")
    case True
    then show ?thesis
      using less.prems length_find_active [OF less.prems] 
      by (auto simp: evict_oldest.simps [of policy limit user now w] Let_def)
  next
    case False
    define s where "s = hd (sessions_find_active w user)"
    note s = evict_step [OF less.prems False assms(2), folded s_def]
    define v where "v = audit_record ''session.evicted'' user
        [(''evictedSessionId'', ss_id s), (''reason'', ''concurrent_session_limit'')]
        (revocation_revoke (ss_id s) (now + xp_access_ttl policy) (sessions_save (session_revoke now s) w))"
    have run: "evict_oldest policy limit user now w = evict_oldest policy limit user now v"
      by (simp add: evict_oldest.simps [of policy limit user now w] Let_def False v_def s_def)
    have vs: "sw_sessions v = map_set (ss_id s) (session_revoke now s) (sw_sessions w)"
      "sw_tokens v = sw_tokens w" by (simp_all add: v_def)
    have av: "active_ids v u = active_ids w u - (if u = user then {ss_id s} else {})" for u
      using s by (auto simp: active_ids_def vs)
    have mem: "ss_id s \<in> active_ids w user" using s by (auto simp: active_ids_def)
    have inv: "sessions_inv v"
      using sessions_inv_save [OF less.prems, of "session_revoke now s"] sessions_inv_eq [of v "sessions_save (session_revoke now s) w"]
      by (simp add: vs)
    have g: "grows w v"
      using grows_save [of w "session_revoke now s"] s grows_eq [of v "sessions_save (session_revoke now s) w"] grows_trans
      by (fastforce simp: vs)
    have smaller: "card (active_ids v user) < card (active_ids w user)"
      using card_Diff1_less [OF finite_active_ids mem] by (simp add: av)
    have chk: "fst (revocation_is_revoked i t (audit_record a b c u)) = fst (revocation_is_revoked i t u)"
      "fst (revocation_is_revoked i t (sessions_save x u)) = fst (revocation_is_revoked i t u)" for i t a b c u x
      by (simp_all add: revocation_is_revoked_def audit_record_def sessions_save_def split: option.split)
    have bs: "mem_deny.blocked (ss_id s) (now + xp_access_ttl policy) v"
      by (simp add: mem_deny.blocked_def v_def chk mem_deny.check_deny)
    have bk: "mem_deny.blocked i bound v" if "mem_deny.blocked i bound w" "bound \<le> now + xp_access_ttl policy" for i bound
      using that by (auto simp: mem_deny.blocked_def v_def chk mem_deny.check_deny)
    from less.hyps [OF smaller inv] obtain w' where w': "evict_oldest policy limit user now v = Some w'"
      "sessions_inv w'" "grows v w'" "sw_tokens w' = sw_tokens v" "card (active_ids w' user) < limit"
      "active_ids w' user \<subseteq> active_ids v user" "\<forall>u. u \<noteq> user \<longrightarrow> active_ids w' u = active_ids v u"
      "\<forall>i. i \<notin> active_ids v user \<or> i \<in> active_ids w' user \<longrightarrow> map_get (sw_sessions w') i = map_get (sw_sessions v) i"
      "\<forall>i j x y. i \<in> active_ids v user - active_ids w' user \<longrightarrow> j \<in> active_ids w' user \<longrightarrow>
       map_get (sw_sessions v) i = Some x \<longrightarrow> map_get (sw_sessions v) j = Some y \<longrightarrow> ss_last_seen x \<le> ss_last_seen y"
      "\<forall>i \<in> active_ids v user - active_ids w' user. mem_deny.blocked i (now + xp_access_ttl policy) w'"
      "\<forall>i bound. mem_deny.blocked i bound v \<longrightarrow> bound \<le> now + xp_access_ttl policy \<longrightarrow> mem_deny.blocked i bound w'"
      by blast
    have sub: "active_ids w' user \<subseteq> active_ids w user - {ss_id s}" using w'(6) av by simp
    have keep: "map_get (sw_sessions w') i = map_get (sw_sessions w) i"
      if "i \<notin> active_ids w user \<or> i \<in> active_ids w' user" for i
    proof -
      have "i \<noteq> ss_id s" using that mem sub by auto
      then show ?thesis using w'(8) that av by (auto simp: vs)
    qed
    have order: "ss_last_seen x \<le> ss_last_seen y"
      if "i \<in> active_ids w user - active_ids w' user" "j \<in> active_ids w' user"
        "map_get (sw_sessions w) i = Some x" "map_get (sw_sessions w) j = Some y" for i j x y
    proof (cases "i = ss_id s")
      case True
      then have "x = s" using that(3) s(1) by simp
      then show ?thesis using s(4) that(2,4) sub by blast
    next
      case False
      have "j \<noteq> ss_id s" using that(2) sub by blast
      moreover have "i \<in> active_ids v user - active_ids w' user" using that(1) False av by simp
      ultimately show ?thesis
        using w'(9) that(2-4) False by (simp add: vs)
    qed
    have deny: "mem_deny.blocked i (now + xp_access_ttl policy) w'"
      if "i \<in> active_ids w user - active_ids w' user" for i
      using w'(10,11) that bs av by (cases "i = ss_id s") auto
    show ?thesis
      using run w'(1-5,7,11) vs(2) g grows_trans sub av keep order deny bk
      by (intro exI [of _ w']) (auto simp: subset_iff)
  qed
qed

section \<open>Steps\<close>

lemma sessions_inv_used:
  assumes "sessions_inv w" "map_get (sw_tokens w) h = Some t"
  shows "sessions_inv (sessions_save_token (refresh_mark_used now t) w)"
    "grows w (sessions_save_token (refresh_mark_used now t) w)"
proof -
  have t: "rf_hash t = h" using assms by (simp add: sessions_inv_def)
  have s: "rf_hash (refresh_mark_used now t) = h" "rf_session (refresh_mark_used now t) = rf_session t"
    "refresh_is_used (refresh_mark_used now t)"
    using t by (simp_all add: refresh_mark_used_def refresh_is_used_def)
  show "grows w (sessions_save_token (refresh_mark_used now t) w)"
    using s assms(2) by (intro grows_token) auto
  show "sessions_inv (sessions_save_token (refresh_mark_used now t) w)"
    unfolding sessions_inv_def
  proof (intro conjI allI impI)
    show "h1 = k1" if "map_get (sw_tokens (sessions_save_token (refresh_mark_used now t) w)) h1 = Some a"
      "map_get (sw_tokens (sessions_save_token (refresh_mark_used now t) w)) k1 = Some b"
      "rf_session a = rf_session b" "\<not> refresh_is_used a" "\<not> refresh_is_used b" for h1 k1 a b
      using that assms(1) s by (auto simp: sessions_inv_def split: if_splits)
  qed (use assms s in \<open>auto simp: sessions_inv_def split: if_splits\<close>)
qed

lemma sessions_inv_new_token:
  assumes "sessions_inv w" "map_get (sw_tokens w) (rf_hash t) = None"
    and "map_get (sw_sessions w) (rf_session t) \<noteq> None"
    and "\<forall>h u. map_get (sw_tokens w) h = Some u \<longrightarrow> rf_session u = rf_session t \<longrightarrow> refresh_is_used u"
  shows "sessions_inv (sessions_save_token t w)" "grows w (sessions_save_token t w)"
proof -
  show "grows w (sessions_save_token t w)" using assms(2) by (intro grows_token) simp
  show "sessions_inv (sessions_save_token t w)"
    unfolding sessions_inv_def
  proof (intro conjI allI impI)
    show "h = k" if "map_get (sw_tokens (sessions_save_token t w)) h = Some a"
      "map_get (sw_tokens (sessions_save_token t w)) k = Some b"
      "rf_session a = rf_session b" "\<not> refresh_is_used a" "\<not> refresh_is_used b" for h k a b
      using that assms(1,4) by (auto simp: sessions_inv_def split: if_splits)
  qed (use assms(1-3) in \<open>auto simp: sessions_inv_def split: if_splits\<close>)
qed

text \<open>What a call guarantees, together.\<close>

definition step_ok :: "session_deps \<Rightarrow> int \<Rightarrow> session_world \<Rightarrow> session_world \<Rightarrow> bool" where
  "step_ok d now w w' \<longleftrightarrow> sessions_inv w' \<and> grows w w' \<and>
     (0 < xd_limit d \<longrightarrow> (\<forall>u. card (active_ids w' u) \<le> max (card (active_ids w u)) (xd_limit d))) \<and>
     (\<forall>i s s'. map_get (sw_sessions w) i = Some s \<longrightarrow> \<not> session_is_revoked s \<longrightarrow>
        map_get (sw_sessions w') i = Some s' \<longrightarrow> session_is_revoked s' \<longrightarrow>
        mem_deny.blocked i (now + xp_access_ttl (xd_policy d)) w')"

lemma step_ok_refl: "sessions_inv w \<Longrightarrow> step_ok d now w w"
  by (simp add: step_ok_def)

text \<open>What \<open>evictOldestUntilUnderLimit\<close> leaves, when it runs at all.\<close>

definition room_made :: "session_deps \<Rightarrow> string \<Rightarrow> int \<Rightarrow> string \<Rightarrow> session_world \<Rightarrow> session_world \<Rightarrow> bool" where
  "room_made d user now fresh w w1 \<longleftrightarrow>
     sessions_inv w1 \<and> grows w w1 \<and> sw_tokens w1 = sw_tokens w \<and>
     (0 < xd_limit d \<longrightarrow> card (active_ids w1 user) < xd_limit d) \<and> (\<forall>u. active_ids w1 u \<subseteq> active_ids w u) \<and>
     map_get (sw_sessions w1) fresh = None \<and>
     (\<forall>i s s'. map_get (sw_sessions w) i = Some s \<longrightarrow> \<not> session_is_revoked s \<longrightarrow>
        map_get (sw_sessions w1) i = Some s' \<longrightarrow> session_is_revoked s' \<longrightarrow>
        mem_deny.blocked i (now + xp_access_ttl (xd_policy d)) w1)"

lemma room_made_refl:
  "sessions_inv w \<Longrightarrow> map_get (sw_sessions w) fresh = None \<Longrightarrow> xd_limit d = 0 \<Longrightarrow> room_made d user now fresh w w"
  by (simp add: room_made_def)

lemma evict_makes_room:
  assumes "sessions_inv w" "map_get (sw_sessions w) fresh = None" "0 < xd_limit d"
  shows "\<exists>w1. evict_oldest (xd_policy d) (xd_limit d) user now w = Some w1 \<and> room_made d user now fresh w w1"
proof -
  obtain w1 where w1: "evict_oldest (xd_policy d) (xd_limit d) user now w = Some w1" "sessions_inv w1" "grows w w1"
    "sw_tokens w1 = sw_tokens w" "card (active_ids w1 user) < xd_limit d" "active_ids w1 user \<subseteq> active_ids w user"
    "\<forall>u. u \<noteq> user \<longrightarrow> active_ids w1 u = active_ids w u"
    "\<forall>i. i \<notin> active_ids w user \<or> i \<in> active_ids w1 user \<longrightarrow> map_get (sw_sessions w1) i = map_get (sw_sessions w) i"
    "\<forall>i \<in> active_ids w user - active_ids w1 user. mem_deny.blocked i (now + xp_access_ttl (xd_policy d)) w1"
    using evict_oldest_spec [OF assms(1,3), of "xd_policy d" user now] by blast
  have "fresh \<notin> active_ids w user" using assms(2) by (simp add: active_ids_def)
  then have fresh: "map_get (sw_sessions w1) fresh = None" using w1(8) assms(2) by simp
  have sub: "active_ids w1 u \<subseteq> active_ids w u" for u using w1(6,7) by (cases "u = user") auto
  have "mem_deny.blocked i (now + xp_access_ttl (xd_policy d)) w1"
    if "map_get (sw_sessions w) i = Some s" "\<not> session_is_revoked s"
      "map_get (sw_sessions w1) i = Some s'" "session_is_revoked s'" for i s s'
  proof -
    have "s \<noteq> s'" using that by blast
    then have "i \<in> active_ids w user" using w1(8) that by auto
    moreover have "i \<notin> active_ids w1 user" using that(3,4) by (auto simp: active_ids_def)
    ultimately show ?thesis using w1(9) by blast
  qed
  with w1 assms(3) fresh sub show ?thesis by (intro exI [of _ w1]) (simp add: room_made_def)
qed

lemma blocked_saves:
  "mem_deny.blocked i bound (sessions_save_token t (sessions_save s w)) = mem_deny.blocked i bound w"
  "mem_deny.blocked i bound (sessions_save s w) = mem_deny.blocked i bound w"
  by (simp_all add: blocked_iff sessions_save_token_def sessions_save_def)

lemma open_session_ok:
  fixes cmd :: issue_command and ft :: string
  assumes "room_made d (isc_user cmd) now fresh w w1" "map_get (sw_tokens w) (xd_digest d raw) = None"
  defines "s \<equiv> session_open fresh now (isc_user cmd) (xd_policy d) (isc_ip cmd) (isc_agent cmd)"
  defines "t \<equiv> fst (refresh_issue (xd_digest d) ft raw (ss_id s) (refresh_expiry_from (xd_policy d) now) now)"
  shows "step_ok d now w (sessions_save_token t (sessions_save s w1))"
proof -
  let ?u = "isc_user cmd"
  note w1 = assms(1) [unfolded room_made_def, THEN conjunct1]
    assms(1) [unfolded room_made_def, THEN conjunct2, THEN conjunct1]
  have w1': "sw_tokens w1 = sw_tokens w"
    "0 < xd_limit d \<Longrightarrow> card (active_ids w1 ?u) < xd_limit d" "\<forall>u. active_ids w1 u \<subseteq> active_ids w u"
    "map_get (sw_sessions w1) fresh = None"
    using assms(1) by (simp_all add: room_made_def)
  have denied: "mem_deny.blocked i (now + xp_access_ttl (xd_policy d)) w1"
    if "map_get (sw_sessions w) i = Some a" "\<not> session_is_revoked a"
      "map_get (sw_sessions w1) i = Some b" "session_is_revoked b" for i a b
    using assms(1) that unfolding room_made_def by blast
  define w2 where "w2 = sessions_save_token t (sessions_save s w1)"
  have st: "ss_id s = fresh" "ss_user s = ?u" "\<not> session_is_revoked s" "rf_session t = fresh" "rf_hash t = xd_digest d raw"
    by (simp_all add: s_def t_def session_open_def refresh_issue_def session_is_revoked_def)
  have inv1: "sessions_inv (sessions_save s w1)" by (rule sessions_inv_save [OF w1(1)])
  have none: "\<forall>h u. map_get (sw_tokens (sessions_save s w1)) h = Some u \<longrightarrow> rf_session u = rf_session t \<longrightarrow> refresh_is_used u"
  proof (intro allI impI)
    fix h u
    assume h: "map_get (sw_tokens (sessions_save s w1)) h = Some u" "rf_session u = rf_session t"
    then have "\<exists>x. map_get (sw_sessions w1) (rf_session u) = Some x"
      using sessions_inv_tokenD [OF w1(1), of h u] by simp
    then show "refresh_is_used u" using w1'(4) st(4) h(2) by simp
  qed
  have tok: "map_get (sw_tokens (sessions_save s w1)) (rf_hash t) = None"
    using assms(2) w1'(1) st(5) by simp
  have ses: "map_get (sw_sessions (sessions_save s w1)) (rf_session t) \<noteq> None" using st by simp
  note new = sessions_inv_new_token [OF inv1 tok ses none]
  have g1: "grows w1 (sessions_save s w1)" by (rule grows_save) (use w1'(4) st in simp)
  have grow: "grows w w2" unfolding w2_def using grows_trans [OF w1(2) grows_trans [OF g1 new(2)]] .
  have act: "active_ids w2 u = (if u = ?u then insert fresh (active_ids w1 u) else active_ids w1 u)" for u
    using active_ids_save [of s w1 u] st w1'(4) by (auto simp: w2_def active_ids_def)
  have "card (active_ids w2 u) \<le> max (card (active_ids w u)) (xd_limit d)" if "0 < xd_limit d" for u
  proof (cases "u = ?u")
    case True
    then have "card (active_ids w2 u) \<le> Suc (card (active_ids w1 u))" by (simp add: act card_insert_if)
    then show ?thesis using w1'(2) that True by simp
  next
    case False
    then show ?thesis using act w1'(3) card_mono [OF finite_active_ids, of "active_ids w1 u" w u] by (simp add: le_max_iff_disj)
  qed
  moreover have "mem_deny.blocked i (now + xp_access_ttl (xd_policy d)) w2"
    if "map_get (sw_sessions w) i = Some a" "\<not> session_is_revoked a"
      "map_get (sw_sessions w2) i = Some b" "session_is_revoked b" for i a b
    using denied that st by (auto simp: w2_def blocked_saves split: if_splits)
  ultimately show ?thesis
    using new(1) grow by (simp add: step_ok_def w2_def)
qed

lemma issue_ok:
  assumes "sessions_inv w" "call_fresh d (IssueCall fresh ft raw cmd) w"
  shows "\<exists>r w'. issue_execute (xd_digest d) (xd_sign d) (xd_policy d) (xd_limit d) now fresh ft raw cmd w = Some (r, w') \<and>
    step_ok d now w w'"
proof (cases "js_trim (isc_user cmd) = []")
  case True
  then show ?thesis using step_ok_refl assms(1) by (simp add: issue_execute_def)
next
  case False
  have f: "map_get (sw_sessions w) fresh = None" "map_get (sw_tokens w) (xd_digest d raw) = None"
    using assms(2) by (simp_all add: call_fresh_def)
  obtain w1 where w1: "(if 0 < xd_limit d then evict_oldest (xd_policy d) (xd_limit d) (isc_user cmd) now w else Some w) = Some w1"
    "room_made d (isc_user cmd) now fresh w w1"
    using evict_makes_room [OF assms(1) f(1), of d "isc_user cmd" now]
      room_made_refl [OF assms(1) f(1), of d "isc_user cmd" now] by (cases "0 < xd_limit d") auto
  show ?thesis
    using open_session_ok [OF w1(2) f(2), of ft] False w1(1)
    by (simp add: issue_execute_def Let_def split_def)
qed

text \<open>Steps that only revoke sessions, each denied long enough.\<close>

lemma step_ok_save:
  assumes "sessions_inv w" "map_get (sw_sessions w) (ss_id s) = Some s0" "ss_user s = ss_user s0"
    and "session_is_revoked s0 \<longrightarrow> session_is_revoked s"
    and "session_is_revoked s \<longrightarrow> session_is_revoked s0"
  shows "step_ok d now w (sessions_save s w)"
proof -
  have "active_ids (sessions_save s w) u = active_ids w u" for u
    using active_ids_save [of s w u] assms(2-5) by (auto simp: active_ids_def)
  then show ?thesis
    using sessions_inv_save [OF assms(1)] grows_save [of w s] assms(2-5)
    by (auto simp: step_ok_def)
qed

lemma step_ok_revoke:
  assumes "sessions_inv w" "map_get (sw_sessions w) (ss_id s) = Some s0" "ss_user s = ss_user s0"
    and "session_is_revoked s" "now + xp_access_ttl (xd_policy d) \<le> until"
  shows "step_ok d now w (revocation_revoke (ss_id s) until (sessions_save s w))"
proof -
  let ?w = "revocation_revoke (ss_id s) until (sessions_save s w)"
  have eq: "sw_sessions ?w = sw_sessions (sessions_save s w)" "sw_tokens ?w = sw_tokens (sessions_save s w)" by simp_all
  have "active_ids ?w u \<subseteq> active_ids w u" for u
    using assms(4) active_ids_eq [OF eq(1)] active_ids_save [of s w u] by auto
  then have "card (active_ids ?w u) \<le> card (active_ids w u)" for u
    using card_mono [OF finite_active_ids] by blast
  then have c: "card (active_ids ?w u) \<le> max (card (active_ids w u)) (xd_limit d)" for u
    by (simp add: le_max_iff_disj)
  have i: "sessions_inv ?w" using sessions_inv_eq [OF eq] sessions_inv_save [OF assms(1)] by simp
  have g: "grows w ?w"
    using grows_trans [OF grows_save [of w s] grows_eq [OF eq]] assms(2-4) by auto
  have b: "mem_deny.blocked (ss_id s) (now + xp_access_ttl (xd_policy d)) ?w"
    using assms(5) by (rule mem_deny.blocked_deny)
  show ?thesis
    using c i g b assms(2) unfolding step_ok_def by (auto split: if_splits)
qed

lemma refresh_ok:
  assumes "sessions_inv w" "call_fresh d (RefreshCall ft raw token) w"
    and "refresh_execute (xd_digest d) (xd_sign d) (xd_policy d) now ft raw token w = (r, w')"
  shows "step_ok d now w w'"
proof -
  let ?h = "xd_digest d token"
  have unchanged: ?thesis if "w' = w" using that step_ok_refl [OF assms(1)] by simp
  consider (none) "map_get (sw_tokens w) ?h = None"
    | (gone) t where "map_get (sw_tokens w) ?h = Some t" "map_get (sw_sessions w) (rf_session t) = None"
    | (found) t s where "map_get (sw_tokens w) ?h = Some t" "map_get (sw_sessions w) (rf_session t) = Some s"
    by (metis not_None_eq)
  then show ?thesis
  proof cases
    case none
    then show ?thesis using assms(3) unchanged by (simp add: refresh_execute_def sessions_find_token_def)
  next
    case gone
    then show ?thesis
      using assms(3) unchanged by (simp add: refresh_execute_def sessions_find_token_def sessions_find_by_id_def)
  next
    case found
    have sid: "ss_id s = rf_session t" using sessions_invD [OF assms(1) found(2)] .
    consider (reused) "refresh_is_used t"
      | (refused) "\<not> refresh_is_used t" "\<not> refresh_is_redeemable now t \<or> \<not> session_is_active (xd_policy d) now s"
      | (rotated) "\<not> refresh_is_used t" "refresh_is_redeemable now t" "session_is_active (xd_policy d) now s"
      by blast
    then show ?thesis
    proof cases
      case reused
      then have "w' = revocation_revoke (ss_id s) (now + xp_access_ttl (xd_policy d))
          (sessions_save (session_revoke_reuse (rf_id t) now s) w)"
        using assms(3) found by (simp add: refresh_execute_def sessions_find_token_def sessions_find_by_id_def Let_def)
      then show ?thesis
        using step_ok_revoke [OF assms(1), of "session_revoke_reuse (rf_id t) now s" s now d] found(2) sid by simp
    next
      case refused
      then show ?thesis
        using assms(3) found unchanged
        by (auto simp: refresh_execute_def sessions_find_token_def sessions_find_by_id_def)
    next
      case rotated
      define n where "n = fst (refresh_issue (xd_digest d) ft raw (ss_id s) (refresh_expiry_from (xd_policy d) now) now)"
      let ?w1 = "sessions_save_token (refresh_mark_used now t) w"
      have w': "w' = sessions_save (session_touch now s) (sessions_save_token n ?w1)"
        using assms(3) found rotated
        by (simp add: refresh_execute_def sessions_find_token_def sessions_find_by_id_def Let_def n_def split_def)
      have n: "rf_session n = rf_session t" "rf_hash n = xd_digest d raw"
        using sid by (simp_all add: n_def refresh_issue_def)
      have th: "rf_hash t = ?h" using assms(1) found(1) by (simp add: sessions_inv_def)
      have new: "xd_digest d raw \<noteq> ?h" using assms(2) found(1) by (auto simp: call_fresh_def)
      note used = sessions_inv_used [OF assms(1) found(1), of now]
      have alone: "\<forall>h u. map_get (sw_tokens ?w1) h = Some u \<longrightarrow> rf_session u = rf_session n \<longrightarrow> refresh_is_used u"
      proof (intro allI impI)
        fix h u
        assume u: "map_get (sw_tokens ?w1) h = Some u" "rf_session u = rf_session n"
        show "refresh_is_used u"
        proof (cases "h = ?h")
          case True
          then show ?thesis using u(1) th by (auto simp: refresh_mark_used_def refresh_is_used_def)
        next
          case False
          then have "map_get (sw_tokens w) h = Some u" using u(1) th by (simp add: refresh_mark_used_def)
          then show ?thesis
            using assms(1) found(1) rotated(1) u(2) n(1) False unfolding sessions_inv_def by metis
        qed
      qed
      have m: "rf_hash (refresh_mark_used now t) = ?h" using th by (simp add: refresh_mark_used_def)
      have fresh: "map_get (sw_tokens ?w1) (rf_hash n) = None"
        using assms(2) new n(2) m by (simp add: call_fresh_def)
      have ses: "map_get (sw_sessions ?w1) (rf_session n) \<noteq> None" using found(2) n(1) by simp
      note next_ok = sessions_inv_new_token [OF used(1) fresh ses alone]
      have touch: "step_ok d now (sessions_save_token n ?w1) w'"
        unfolding w' by (rule step_ok_save [OF next_ok(1), of "session_touch now s" s]) (use found(2) sid in auto)
      have g: "grows w (sessions_save_token n ?w1)" using grows_trans [OF used(2) next_ok(2)] .
      show ?thesis
        using touch grows_trans [OF g] unfolding step_ok_def by (simp add: active_ids_def)
    qed
  qed
qed

text \<open>A logout denies long enough when it is not told a shorter time.\<close>

definition denies_long :: "session_deps \<Rightarrow> int \<Rightarrow> session_call \<Rightarrow> bool" where
  "denies_long d now call \<longleftrightarrow> xp_access_ttl (xd_policy d) \<le> revocation_window_ms \<and>
     (\<forall>sid until. call = LogoutCall sid (Some until) \<longrightarrow> now + xp_access_ttl (xd_policy d) \<le> until)"

lemma logout_ok:
  assumes "sessions_inv w" "denies_long d now (LogoutCall sid until)"
  shows "step_ok d now w (snd (logout_execute now sid until w))"
proof (cases "map_get (sw_sessions w) sid")
  case None
  then show ?thesis using step_ok_refl [OF assms(1)] by (simp add: logout_execute_def sessions_find_by_id_def)
next
  case (Some s)
  have sid: "ss_id s = sid" using sessions_invD [OF assms(1) Some] .
  have "now + xp_access_ttl (xd_policy d) \<le> or_default until (now + revocation_window_ms)"
    using assms(2) by (cases until) (auto simp: denies_long_def or_default_def)
  then have "step_ok d now w (revocation_revoke (ss_id (session_revoke now s)) (or_default until (now + revocation_window_ms))
      (sessions_save (session_revoke now s) w))"
    using step_ok_revoke [OF assms(1), of "session_revoke now s" s] Some sid by simp
  then show ?thesis
    using Some sid step_ok_refl [OF assms(1)] by (simp add: logout_execute_def sessions_find_by_id_def)
qed

lemma revoke_fold_get:
  assumes "\<forall>s \<in> set ss. map_get m (ss_id s) = Some s" "distinct (map ss_id ss)"
  shows "map_get (fold (\<lambda>s m. if ss_user s = user then map_set (ss_id s) (session_revoke now s) m else m) ss m) i =
    (if \<exists>s \<in> set ss. ss_id s = i \<and> ss_user s = user then map_option (session_revoke now) (map_get m i) else map_get m i)"
  using assms
proof (induction ss arbitrary: m)
  case (Cons s ss)
  let ?m = "if ss_user s = user then map_set (ss_id s) (session_revoke now s) m else m"
  have other: "ss_id x \<noteq> ss_id s" if "x \<in> set ss" for x
    using Cons.prems(2) that by (auto simp: image_iff)
  have "\<forall>x \<in> set ss. map_get ?m (ss_id x) = Some x" using Cons.prems(1) other by simp
  from Cons.IH [OF this] Cons.prems other show ?case by auto
qed simp

lemma revoke_fold_wf:
  "map_wf m \<Longrightarrow> map_wf (fold (\<lambda>s m. if ss_user s = user then map_set (ss_id s) (session_revoke now s) m else m) ss m)"
  by (induction ss arbitrary: m) auto

lemma revoke_all_get:
  assumes "sessions_inv w"
  shows "map_get (sw_sessions (sessions_revoke_all user now w)) i =
    (case map_get (sw_sessions w) i of None \<Rightarrow> None
     | Some s \<Rightarrow> Some (if ss_user s = user then session_revoke now s else s))"
proof -
  have wf: "map_wf (sw_sessions w)" "\<forall>i s. map_get (sw_sessions w) i = Some s \<longrightarrow> ss_id s = i"
    using assms by (simp_all add: sessions_inv_def)
  have vals: "\<forall>s \<in> set (map_values (sw_sessions w)). map_get (sw_sessions w) (ss_id s) = Some s"
    using wf by (auto simp: map_values_iff)
  have mem: "(\<exists>s \<in> set (map_values (sw_sessions w)). ss_id s = i \<and> ss_user s = user) \<longleftrightarrow>
      (\<exists>s. map_get (sw_sessions w) i = Some s \<and> ss_user s = user)"
    using wf map_values_iff [OF wf(1)] by blast
  show ?thesis
    using revoke_fold_get [OF vals distinct_values [OF wf], of user now i]
    by (simp add: sessions_revoke_all_def mem split: option.split)
qed

lemma fold_deny_keeps [simp]:
  "sw_sessions (fold (\<lambda>s. revocation_revoke (f s) until) ss w) = sw_sessions w"
  "sw_tokens (fold (\<lambda>s. revocation_revoke (f s) until) ss w) = sw_tokens w"
  by (induction ss arbitrary: w) simp_all

lemma logout_everywhere_ok:
  assumes "sessions_inv w" "denies_long d now (LogoutAllCall user)"
  shows "step_ok d now w (snd (logout_everywhere_execute now user w))"
proof (cases "js_trim user = []")
  case True
  then show ?thesis using step_ok_refl [OF assms(1)] by (simp add: logout_everywhere_execute_def)
next
  case False
  let ?until = "now + revocation_window_ms"
  define w1 where "w1 = fold (\<lambda>s. revocation_revoke (ss_id s) ?until) (sessions_find_active w user) w"
  define w2 where "w2 = sessions_revoke_all user now w1"
  have eq: "sw_sessions w1 = sw_sessions w" "sw_tokens w1 = sw_tokens w" by (simp_all add: w1_def)
  have inv1: "sessions_inv w1" using sessions_inv_eq [OF eq] assms(1) by simp
  note get = revoke_all_get [OF inv1, of user now, folded w2_def, unfolded eq]
  have tok: "sw_tokens w2 = sw_tokens w" by (simp add: w2_def sessions_revoke_all_def eq)
  have inv: "sessions_inv w2"
  proof -
    have "map_wf (sw_sessions w2)"
      using inv1 revoke_fold_wf by (simp add: w2_def sessions_revoke_all_def sessions_inv_def)
    moreover have "ss_id s = i" if "map_get (sw_sessions w2) i = Some s" for i s
      using that sessions_invD [OF assms(1)] unfolding get by (auto split: option.splits if_splits)
    moreover have "\<exists>s. map_get (sw_sessions w2) (rf_session t) = Some s" if "map_get (sw_tokens w) h = Some t" for h t
      using sessions_inv_tokenD [OF assms(1) that] unfolding get by auto
    ultimately show ?thesis using assms(1) unfolding sessions_inv_def tok by simp
  qed
  have g: "grows w w2" unfolding grows_def tok get by auto
  have sub: "active_ids w2 u \<subseteq> active_ids w u" for u
    unfolding active_ids_def get by (auto split: option.splits if_splits)
  have "mem_deny.blocked i (now + xp_access_ttl (xd_policy d)) w2"
    if "map_get (sw_sessions w) i = Some a" "\<not> session_is_revoked a"
      "map_get (sw_sessions w2) i = Some b" "session_is_revoked b" for i a b
  proof -
    have u: "ss_user a = user" using that get by (auto split: if_splits)
    have sid: "ss_id a = i" using sessions_invD [OF assms(1) that(1)] .
    have "a \<in> set (sessions_find_active w user)"
      using set_find_active [OF assms(1)] that(1,2) u sid by simp
    then have "mem_deny.blocked (ss_id a) (now + xp_access_ttl (xd_policy d)) w1"
      unfolding w1_def using assms(2) by (intro mem_deny.blocked_fold_deny_new) (auto simp: denies_long_def)
    then show ?thesis
      by (simp add: sid w2_def blocked_iff sessions_revoke_all_def)
  qed
  moreover have "card (active_ids w2 u) \<le> max (card (active_ids w u)) (xd_limit d)" for u
    using card_mono [OF finite_active_ids sub] by (simp add: le_max_iff_disj)
  ultimately have "step_ok d now w w2" using inv g by (simp add: step_ok_def)
  then show ?thesis using False by (simp add: logout_everywhere_execute_def w2_def w1_def Let_def)
qed

lemma session_step_ok:
  assumes "sessions_inv w" "call_fresh d call w" "denies_long d now call"
  shows "\<exists>w'. session_step d now call w = Some w' \<and> step_ok d now w w'"
proof (cases call)
  case (IssueCall fresh ft raw cmd)
  then show ?thesis using issue_ok [OF assms(1), of d fresh ft raw cmd now] assms(2) by (auto simp: session_step_def)
next
  case (RefreshCall ft raw token)
  then show ?thesis
    using refresh_ok [OF assms(1) _ prod.collapse [symmetric]] assms(2) by (simp add: session_step_def)
next
  case (LogoutCall sid until)
  then show ?thesis using logout_ok [OF assms(1)] assms(3) by (simp add: session_step_def)
next
  case (LogoutAllCall user)
  then show ?thesis using logout_everywhere_ok [OF assms(1)] assms(3) by (simp add: session_step_def)
next
  case (CheckCall sid)
  let ?w = "snd (revocation_is_revoked sid now w)"
  have eq: "sw_sessions ?w = sw_sessions w" "sw_tokens ?w = sw_tokens w" by simp_all
  have "step_ok d now w ?w"
    using sessions_inv_eq [OF eq] assms(1) grows_eq [OF eq] active_ids_eq [OF eq(1)]
    by (simp add: step_ok_def)
  then show ?thesis using CheckCall by (simp add: session_step_def)
qed

text \<open>Deny-list entries are kept while they matter.\<close>

lemma blocked_evict:
  assumes "sessions_inv w" "0 < limit" "mem_deny.blocked i bound w" "bound \<le> now + xp_access_ttl policy"
    and "evict_oldest policy limit user now w = Some w'"
  shows "mem_deny.blocked i bound w'"
  using evict_oldest_spec [OF assms(1,2), of policy user now] assms(3-5) by auto

lemma session_step_blocked:
  assumes "sessions_inv w" "denies_long d now call" "session_step d now call w = Some w'"
    and "mem_deny.blocked i bound w" "bound \<le> now + xp_access_ttl (xd_policy d)" "now < bound"
  shows "mem_deny.blocked i bound w'"
proof (cases call)
  case (IssueCall fresh ft raw cmd)
  obtain r where r: "issue_execute (xd_digest d) (xd_sign d) (xd_policy d) (xd_limit d) now fresh ft raw cmd w = Some (r, w')"
    using assms(3) IssueCall by (auto simp: session_step_def)
  then show ?thesis
    using assms(4) blocked_evict [OF assms(1) _ assms(4,5)]
    by (auto simp: issue_execute_def Let_def split_def blocked_saves split: if_splits option.splits)
next
  case (RefreshCall ft raw token)
  have deny: "mem_deny.blocked i bound (revocation_revoke j (now + xp_access_ttl (xd_policy d)) (sessions_save s w))" for j s
    using assms(4,5) by (intro mem_deny.blocked_deny_keeps) (simp_all add: blocked_saves)
  have tok: "mem_deny.blocked i bound (sessions_save_token t v) = mem_deny.blocked i bound v" for t v
    by (simp add: blocked_iff sessions_save_token_def)
  show ?thesis
    using assms(3,4) RefreshCall deny
    by (auto simp: session_step_def refresh_execute_def Let_def split_def blocked_saves tok split: option.splits if_splits)
next
  case (LogoutCall sid until)
  then have "bound \<le> or_default until (now + revocation_window_ms)"
    using assms(2,5) by (cases until) (auto simp: denies_long_def or_default_def)
  then have "mem_deny.blocked i bound (revocation_revoke sid (or_default until (now + revocation_window_ms)) (sessions_save s w))" for s
    using assms(4) by (intro mem_deny.blocked_deny_keeps) (simp_all add: blocked_saves)
  then show ?thesis
    using assms(3,4) LogoutCall by (auto simp: session_step_def logout_execute_def split: option.splits if_splits)
next
  case (LogoutAllCall user)
  have "bound \<le> now + revocation_window_ms" using assms(2,5) by (simp add: denies_long_def)
  from mem_deny.blocked_fold_deny [OF assms(4) this, of ss_id "sessions_find_active w user"]
  show ?thesis
    using assms(3,4) LogoutAllCall
    by (auto simp: session_step_def logout_everywhere_execute_def Let_def sessions_revoke_all_def blocked_iff split: if_splits)
next
  case (CheckCall sid)
  then show ?thesis
    using assms(3,4,6) by (auto simp: session_step_def blocked_iff revocation_is_revoked_def split: option.splits if_splits)
qed

text \<open>A run keeps what its steps keep.\<close>

lemma session_run_ok:
  assumes "sessions_inv w" "\<forall>(now, call) \<in> set calls. denies_long d now call" "session_run d t calls w = Some w'"
  shows "sessions_inv w' \<and> grows w w' \<and>
    (0 < xd_limit d \<longrightarrow> (\<forall>u. card (active_ids w' u) \<le> max (card (active_ids w u)) (xd_limit d)))"
  using assms
proof (induction calls arbitrary: t w)
  case (Cons c calls)
  obtain now call where c: "c = (now, call)" by (cases c)
  with Cons.prems(3) have f: "t \<le> now" "call_fresh d call w" by (auto split: if_splits)
  have dl: "denies_long d now call" using Cons.prems(2) c by auto
  obtain v where v: "session_step d now call w = Some v" "step_ok d now w v"
    using session_step_ok [OF Cons.prems(1) f(2) dl] by blast
  have inv: "sessions_inv v" using v(2) by (simp add: step_ok_def)
  have rest: "\<forall>(now, call) \<in> set calls. denies_long d now call" using Cons.prems(2) by auto
  have run: "session_run d now calls v = Some w'" using Cons.prems(3) c f v(1) by simp
  note ih = Cons.IH [OF inv rest run]
  have g: "grows w w'" using grows_trans v(2) ih unfolding step_ok_def by blast
  have "card (active_ids w' u) \<le> max (card (active_ids w u)) (xd_limit d)" if "0 < xd_limit d" for u
  proof -
    have "card (active_ids w' u) \<le> max (card (active_ids v u)) (xd_limit d)"
      "card (active_ids v u) \<le> max (card (active_ids w u)) (xd_limit d)"
      using that ih v(2) unfolding step_ok_def by auto
    then show ?thesis by linarith
  qed
  with ih g show ?case by blast
qed simp

lemma session_run_blocked:
  assumes "sessions_inv w" "mem_deny.blocked i bound w" "bound \<le> t + xp_access_ttl (xd_policy d)"
    and "\<forall>(now, call) \<in> set calls. denies_long d now call \<and> now < bound"
    and "session_run d t calls w = Some w'"
  shows "mem_deny.blocked i bound w'"
  using assms
proof (induction calls arbitrary: t w)
  case (Cons c calls)
  obtain now call where c: "c = (now, call)" by (cases c)
  with Cons.prems(5) have f: "t \<le> now" "call_fresh d call w" by (auto split: if_splits)
  have dl: "denies_long d now call" "now < bound" using Cons.prems(4) c by auto
  obtain v where v: "session_step d now call w = Some v" "step_ok d now w v"
    using session_step_ok [OF Cons.prems(1) f(2) dl(1)] by blast
  have le: "bound \<le> now + xp_access_ttl (xd_policy d)" using Cons.prems(3) f(1) by simp
  have "mem_deny.blocked i bound v"
    using session_step_blocked [OF Cons.prems(1) dl(1) v(1) Cons.prems(2) le dl(2)] .
  moreover have "sessions_inv v" using v(2) by (simp add: step_ok_def)
  ultimately show ?case
    using Cons.IH [of v now] le Cons.prems(4,5) c f v(1) by simp
qed simp

lemma refresh_ok_iff:
  "(\<exists>r. fst (refresh_execute digest sign policy now ft raw token w) = Inr r) \<longleftrightarrow>
     (\<exists>t s. map_get (sw_tokens w) (digest token) = Some t \<and> map_get (sw_sessions w) (rf_session t) = Some s \<and>
        refresh_is_redeemable now t \<and> session_is_active policy now s)"
  by (auto simp: refresh_execute_def sessions_find_token_def sessions_find_by_id_def Let_def
      refresh_is_redeemable_def refresh_issue_def split: option.split)

lemma refresh_error:
  "fst (refresh_execute digest sign policy now ft raw token w) = Inl e \<Longrightarrow> e = AuthenticationError"
  by (auto simp: refresh_execute_def Let_def split_def split: option.splits if_splits)

lemma refresh_refused:
  assumes "\<forall>r. fst (refresh_execute digest sign policy now ft raw token w) \<noteq> Inr r"
  shows "fst (refresh_execute digest sign policy now ft raw token w) = Inl AuthenticationError"
  using assms refresh_error by (metis sum.exhaust)

text \<open>A token of a revoked session, or a used one, is refused; later too.\<close>

lemma refresh_dead:
  assumes "map_get (sw_tokens w) (digest token) = Some t"
    and "refresh_is_used t \<or> (\<exists>s. map_get (sw_sessions w) (rf_session t) = Some s \<and> session_is_revoked s)"
  shows "fst (refresh_execute digest sign policy now ft raw token w) = Inl AuthenticationError"
proof (rule refresh_refused)
  show "\<forall>r. fst (refresh_execute digest sign policy now ft raw token w) \<noteq> Inr r"
    using refresh_ok_iff [of digest sign policy now ft raw token w] assms
    by (auto simp: refresh_is_redeemable_def session_is_active_def)
qed

lemma grows_token_get:
  "grows w w' \<Longrightarrow> map_get (sw_tokens w) h = Some t \<Longrightarrow>
     \<exists>t'. map_get (sw_tokens w') h = Some t' \<and> rf_session t' = rf_session t \<and> (refresh_is_used t \<longrightarrow> refresh_is_used t')"
  unfolding grows_def by blast

lemma grows_session_get:
  "grows w w' \<Longrightarrow> map_get (sw_sessions w) i = Some s \<Longrightarrow>
     \<exists>s'. map_get (sw_sessions w') i = Some s' \<and> ss_user s' = ss_user s \<and> (session_is_revoked s \<longrightarrow> session_is_revoked s')"
  unfolding grows_def by blast

lemma refresh_marks_used:
  assumes "sessions_inv w" "fst (refresh_execute digest sign policy now ft raw token w) = Inr r"
    and "map_get (sw_tokens w) (digest raw) = None"
  shows "\<exists>t. map_get (sw_tokens (snd (refresh_execute digest sign policy now ft raw token w))) (digest token) = Some t \<and>
    refresh_is_used t"
proof -
  obtain t s where t: "map_get (sw_tokens w) (digest token) = Some t" "map_get (sw_sessions w) (rf_session t) = Some s"
    "refresh_is_redeemable now t" "session_is_active policy now s"
    using refresh_ok_iff [of digest sign policy now ft raw token w] assms(2) by blast
  have h: "rf_hash t = digest token" using sessions_inv_tokenD [OF assms(1) t(1)] by simp
  have "digest raw \<noteq> digest token" using t(1) assms(3) by auto
  then show ?thesis
    using t h by (auto simp: refresh_execute_def sessions_find_token_def sessions_find_by_id_def Let_def
      refresh_issue_def refresh_mark_used_def refresh_is_redeemable_def refresh_is_used_def)
qed

text \<open>Presenting a used token revokes its session and denies its access tokens.\<close>

lemma refresh_reuse:
  assumes "sessions_inv w" "map_get (sw_tokens w) (digest token) = Some t" "refresh_is_used t"
  shows "\<exists>s. map_get (sw_sessions (snd (refresh_execute digest sign policy now ft raw token w))) (rf_session t) = Some s \<and>
      session_is_revoked s \<and>
      mem_deny.blocked (rf_session t) (now + xp_access_ttl policy) (snd (refresh_execute digest sign policy now ft raw token w))"
proof -
  obtain s where s: "map_get (sw_sessions w) (rf_session t) = Some s"
    using sessions_inv_tokenD [OF assms(1,2)] by blast
  have sid: "ss_id s = rf_session t" using sessions_invD [OF assms(1) s] .
  show ?thesis
    using assms(2,3) s sid mem_deny.blocked_deny [of "now + xp_access_ttl policy" "now + xp_access_ttl policy" "rf_session t"]
    by (auto simp: refresh_execute_def sessions_find_token_def sessions_find_by_id_def Let_def)
qed

section \<open>Properties\<close>

text \<open>
  What a step keeps whatever time a logout names: the store and the growth of it do not depend on
  the deny list.
\<close>

lemma session_step_grows:
  assumes "sessions_inv w" "call_fresh d call w"
  shows "\<exists>w'. session_step d now call w = Some w' \<and> sessions_inv w' \<and> grows w w'"
proof -
  define short where "short ttl = d\<lparr>xd_policy := (xd_policy d)\<lparr>xp_access_ttl := ttl\<rparr>\<rparr>" for ttl
  show ?thesis
  proof (cases call)
    case (LogoutCall sid until)
    have "denies_long (short (min revocation_window_ms (or_default until 0 - now))) now (LogoutCall sid until)"
      by (auto simp: denies_long_def short_def)
    from logout_ok [OF assms(1) this] show ?thesis
      by (simp add: LogoutCall session_step_def step_ok_def)
  next
    case (LogoutAllCall user)
    have "denies_long (short revocation_window_ms) now (LogoutAllCall user)"
      by (simp add: denies_long_def short_def)
    from logout_everywhere_ok [OF assms(1) this] show ?thesis
      by (simp add: LogoutAllCall session_step_def step_ok_def)
  next
    case (IssueCall fresh ft raw cmd)
    then show ?thesis
      using issue_ok [OF assms(1), of d fresh ft raw cmd now] assms(2)
      by (auto simp: session_step_def step_ok_def)
  next
    case (RefreshCall ft raw token)
    then show ?thesis
      using refresh_ok [OF assms(1) _ prod.collapse [symmetric]] assms(2)
      by (simp add: session_step_def step_ok_def)
  next
    case (CheckCall sid)
    have eq: "sw_sessions (snd (revocation_is_revoked sid now w)) = sw_sessions w"
      "sw_tokens (snd (revocation_is_revoked sid now w)) = sw_tokens w" by simp_all
    then show ?thesis
      using CheckCall sessions_inv_eq [OF eq] assms(1) grows_eq [OF eq] by (simp add: session_step_def)
  qed
qed

lemma session_run_grows:
  "sessions_inv w \<Longrightarrow> session_run d t calls w = Some w' \<Longrightarrow> sessions_inv w' \<and> grows w w'"
proof (induction calls arbitrary: t w)
  case (Cons c calls)
  obtain now call where c: "c = (now, call)" by (cases c)
  with Cons.prems(2) have f: "t \<le> now" "call_fresh d call w" by (auto split: if_splits)
  obtain v where v: "session_step d now call w = Some v" "sessions_inv v" "grows w v"
    using session_step_grows [OF Cons.prems(1) f(2)] by blast
  have "session_run d now calls v = Some w'" using Cons.prems(2) c f v(1) by simp
  from Cons.IH [OF v(2) this] v(3) show ?case using grows_trans by blast
qed (use grows_eq in auto)

text \<open>
  C12: A refresh token is redeemed once: from a well-formed store (as the empty one is, and every run
  keeps it), after a refresh that succeeds with a token, whatever session calls come in between (logins, refreshes, logouts with any deny time, checks; fresh ids
  and tokens, a clock that does not run back), presenting the same token again is refused with the
  error every other failure gets, revokes the token's session, puts it on the deny list for the
  lifetime of an access token, and whatever calls follow, no refresh token of that session is
  redeemed any more.
\<close>

theorem refresh_token_redeemed_once:
  assumes "sessions_inv w"
    and "fst (refresh_execute (xd_digest d) (xd_sign d) (xd_policy d) t1 ft1 raw1 token w) = Inr r"
    and "session_run d t0 ((t1, RefreshCall ft1 raw1 token) # calls) w = Some w2"
    and "refresh_execute (xd_digest d) (xd_sign d) (xd_policy d) t2 ft2 raw2 token w2 = (r2, w3)"
    and "call_fresh d (RefreshCall ft2 raw2 token) w2"
  shows "r2 = Inl AuthenticationError \<and>
    (\<exists>t s. map_get (sw_tokens w2) (xd_digest d token) = Some t \<and>
       map_get (sw_sessions w3) (rf_session t) = Some s \<and> session_is_revoked s \<and>
       (\<forall>u. u < t2 + xp_access_ttl (xd_policy d) \<longrightarrow> fst (revocation_is_revoked (rf_session t) u w3)) \<and>
       (\<forall>t3 w4 other x t4 ft4 raw4. session_run d t3 calls2 w3 = Some w4 \<longrightarrow>
          map_get (sw_tokens w4) (xd_digest d other) = Some x \<longrightarrow> rf_session x = rf_session t \<longrightarrow>
          fst (refresh_execute (xd_digest d) (xd_sign d) (xd_policy d) t4 ft4 raw4 other w4) = Inl AuthenticationError))"
proof -
  have f: "call_fresh d (RefreshCall ft1 raw1 token) w" using assms(3) by (auto split: if_splits)
  define w1 where "w1 = snd (refresh_execute (xd_digest d) (xd_sign d) (xd_policy d) t1 ft1 raw1 token w)"
  obtain t where t: "map_get (sw_tokens w1) (xd_digest d token) = Some t" "refresh_is_used t"
    using refresh_marks_used [OF assms(1,2)] f by (auto simp: w1_def call_fresh_def)
  have inv1: "sessions_inv w1"
    using refresh_ok [OF assms(1) f prod.collapse [symmetric]] by (simp add: w1_def step_ok_def)
  have run: "session_run d t1 calls w1 = Some w2"
    using assms(3) f by (auto simp: session_step_def w1_def split: if_splits)
  note two = session_run_grows [OF inv1 run]
  obtain t' where t': "map_get (sw_tokens w2) (xd_digest d token) = Some t'" "rf_session t' = rf_session t" "refresh_is_used t'"
    using grows_token_get [of w1 w2] two t by blast
  have inv2: "sessions_inv w2" using two by blast
  have w3: "w3 = snd (refresh_execute (xd_digest d) (xd_sign d) (xd_policy d) t2 ft2 raw2 token w2)"
    and r2: "r2 = fst (refresh_execute (xd_digest d) (xd_sign d) (xd_policy d) t2 ft2 raw2 token w2)"
    by (simp_all add: assms(4))
  have inv3: "sessions_inv w3" using refresh_ok [OF inv2 assms(5,4)] by (simp add: step_ok_def)
  obtain s where s: "map_get (sw_sessions w3) (rf_session t') = Some s" "session_is_revoked s"
    "mem_deny.blocked (rf_session t') (t2 + xp_access_ttl (xd_policy d)) w3"
    using refresh_reuse [where digest = "xd_digest d" and token = token, OF inv2 t'(1,3)] unfolding w3 by blast
  have dead: "fst (refresh_execute (xd_digest d) (xd_sign d) (xd_policy d) t4 ft4 raw4 other w4) = Inl AuthenticationError"
    if "session_run d t3 calls2 w3 = Some w4" "map_get (sw_tokens w4) (xd_digest d other) = Some x" "rf_session x = rf_session t'"
    for t3 w4 other x t4 ft4 raw4
  proof -
    have "grows w3 w4" using session_run_grows [OF inv3 that(1)] by blast
    from grows_session_get [OF this s(1)] s(2) that(3) show ?thesis
      by (intro refresh_dead [where digest = "xd_digest d" and token = other, OF that(2)]) auto
  qed
  have "r2 = Inl AuthenticationError"
    unfolding r2 using refresh_dead [of w2 "xd_digest d" token t'] t' by blast
  with t'(1) s dead show ?thesis unfolding mem_deny.blocked_def by blast
qed

text \<open>
  Revocation is final and immediate: when any call (a logout, a logout everywhere, an eviction
  by a new login, a detected reuse) revokes a session, the session stays revoked, the deny list
  refuses it during the lifetime of every access token signed for it so far, and none of its
  refresh tokens is redeemed, whatever calls follow. The access-token lifetime must be within
  the deny window of a logout, and a caller that sets the window must cover it.
\<close>

theorem revoked_session_stays_dead:
  assumes "sessions_inv w" "denies_long d now call" "call_fresh d call w"
    and "session_step d now call w = Some w1"
    and "map_get (sw_sessions w) sid = Some s" "ss_revoked_at s = None"
    and "map_get (sw_sessions w1) sid = Some s1" "ss_revoked_at s1 \<noteq> None"
    and "session_run d now calls w1 = Some w2"
    and "\<forall>(t, c) \<in> set calls. denies_long d t c \<and> t < now + xp_access_ttl (xd_policy d)"
  shows "(\<exists>s2. map_get (sw_sessions w2) sid = Some s2 \<and> ss_revoked_at s2 \<noteq> None) \<and>
    (\<forall>u. u < now + xp_access_ttl (xd_policy d) \<longrightarrow> fst (revocation_is_revoked sid u w2)) \<and>
    (map_get (sw_tokens w2) (xd_digest d token) = Some t \<longrightarrow> rf_session t = sid \<longrightarrow>
       fst (refresh_execute (xd_digest d) (xd_sign d) (xd_policy d) u ft raw token w2) = Inl AuthenticationError)"
proof -
  have ok: "step_ok d now w w1" using session_step_ok [OF assms(1,3,2)] assms(4) by simp
  have inv: "sessions_inv w1" using ok by (simp add: step_ok_def)
  have b: "mem_deny.blocked sid (now + xp_access_ttl (xd_policy d)) w1"
    using ok assms(5-8) unfolding step_ok_def session_is_revoked_def by blast
  have calls: "\<forall>(t, c) \<in> set calls. denies_long d t c" using assms(10) by auto
  have b2: "mem_deny.blocked sid (now + xp_access_ttl (xd_policy d)) w2"
    using session_run_blocked [OF inv b order_refl assms(10,9)] .
  have "grows w1 w2" using session_run_ok [OF inv calls assms(9)] by blast
  then obtain s2 where s2: "map_get (sw_sessions w2) sid = Some s2" "session_is_revoked s2"
    using grows_session_get [OF _ assms(7)] assms(8) by (auto simp: session_is_revoked_def)
  then have "fst (refresh_execute (xd_digest d) (xd_sign d) (xd_policy d) u ft raw token w2) = Inl AuthenticationError"
    if "map_get (sw_tokens w2) (xd_digest d token) = Some t" "rf_session t = sid"
    using refresh_dead [where digest = "xd_digest d" and token = token, OF that(1)] that(2) by blast
  then show ?thesis using s2 b2 unfolding mem_deny.blocked_def session_is_revoked_def by blast
qed

text \<open>
  C13: Opening a session for a user id that is not blank, in a well-formed store and with ids that
  are fresh, returns: the eviction loop ends for every limit, and with a positive limit the user has at most that many sessions that are not revoked afterwards. The sessions it
  evicted were seen no later than the ones it kept; no session of another user is changed in any
  field, added or lost; and but for the new one and the evicted ones, every session of the user is
  what it was.
\<close>

theorem issue_session_returns:
  assumes "sessions_inv w" "call_fresh d (IssueCall fresh ft raw cmd) w" "js_trim (isc_user cmd) \<noteq> []"
  shows "\<exists>r w'. issue_execute (xd_digest d) (xd_sign d) (xd_policy d) (xd_limit d) now fresh ft raw cmd w = Some (Inr r, w') \<and>
    (0 < xd_limit d \<longrightarrow> length (sessions_find_active w' (isc_user cmd)) \<le> xd_limit d) \<and>
    (\<forall>i s. ss_user s \<noteq> isc_user cmd \<longrightarrow>
       (map_get (sw_sessions w') i = Some s \<longleftrightarrow> map_get (sw_sessions w) i = Some s)) \<and>
    (\<forall>i. i \<noteq> fresh \<longrightarrow> i \<notin> active_ids w (isc_user cmd) - active_ids w' (isc_user cmd) \<longrightarrow>
       map_get (sw_sessions w') i = map_get (sw_sessions w) i) \<and>
    (\<forall>i j x y. i \<in> active_ids w (isc_user cmd) - active_ids w' (isc_user cmd) \<longrightarrow>
       j \<in> active_ids w (isc_user cmd) \<inter> active_ids w' (isc_user cmd) \<longrightarrow>
       map_get (sw_sessions w) i = Some x \<longrightarrow> map_get (sw_sessions w) j = Some y \<longrightarrow> ss_last_seen x \<le> ss_last_seen y)"
proof -
  let ?u = "isc_user cmd"
  obtain r w' where run: "issue_execute (xd_digest d) (xd_sign d) (xd_policy d) (xd_limit d) now fresh ft raw cmd w = Some (r, w')"
    and ok: "step_ok d now w w'" using issue_ok [OF assms(1,2)] by blast
  obtain w1 where w1: "(if 0 < xd_limit d then evict_oldest (xd_policy d) (xd_limit d) ?u now w else Some w) = Some w1"
    and r: "\<exists>v. r = Inr v" and w': "sw_sessions w' = map_set fresh (session_open fresh now ?u (xd_policy d) (isc_ip cmd) (isc_agent cmd)) (sw_sessions w1)"
    using run assms(3)
    by (auto simp: issue_execute_def Let_def refresh_issue_def session_open_def split: option.splits if_splits)
  have fr: "map_get (sw_sessions w) fresh = None" using assms(2) by (simp add: call_fresh_def)
  have act: "active_ids w' u = (if u = ?u then insert fresh (active_ids w1 u) else active_ids w1 u - {fresh})" for u
    by (auto simp: active_ids_def w' session_open_def session_is_revoked_def)
  have nf: "fresh \<notin> active_ids w u" for u using fr by (simp add: active_ids_def)
  have spec: "(0 < xd_limit d \<longrightarrow> card (active_ids w1 ?u) < xd_limit d) \<and> active_ids w1 ?u \<subseteq> active_ids w ?u \<and>
      grows w w1 \<and>
      (\<forall>i. i \<notin> active_ids w ?u \<or> i \<in> active_ids w1 ?u \<longrightarrow> map_get (sw_sessions w1) i = map_get (sw_sessions w) i) \<and>
      (\<forall>i j x y. i \<in> active_ids w ?u - active_ids w1 ?u \<longrightarrow> j \<in> active_ids w1 ?u \<longrightarrow>
       map_get (sw_sessions w) i = Some x \<longrightarrow> map_get (sw_sessions w) j = Some y \<longrightarrow> ss_last_seen x \<le> ss_last_seen y)"
  proof (cases "0 < xd_limit d")
    case True
    then show ?thesis using evict_oldest_spec [OF assms(1) True, of "xd_policy d" ?u now] w1 by auto
  next
    case False
    then show ?thesis using w1 by simp
  qed
  have limit: "length (sessions_find_active w' ?u) \<le> xd_limit d" if "0 < xd_limit d"
  proof -
    have "sessions_inv w'" using ok by (simp add: step_ok_def)
    then have "length (sessions_find_active w' ?u) = card (insert fresh (active_ids w1 ?u))"
      using length_find_active act by simp
    then show ?thesis using spec that by (simp add: card_insert_if)
  qed
  have kept: "map_get (sw_sessions w') i = map_get (sw_sessions w) i"
    if "i \<noteq> fresh" "i \<notin> active_ids w ?u - active_ids w' ?u" for i
    using spec that act [of ?u] by (auto simp: w')
  have others: "map_get (sw_sessions w') i = Some s \<longleftrightarrow> map_get (sw_sessions w) i = Some s"
    if u: "ss_user s \<noteq> ?u" for i s
  proof (cases "i = fresh")
    case True
    then show ?thesis using fr u by (auto simp: w' session_open_def)
  next
    case False
    show ?thesis
    proof (cases "i \<in> active_ids w ?u - active_ids w' ?u")
      case True
      then obtain a where a: "map_get (sw_sessions w) i = Some a" "ss_user a = ?u" by (auto simp: active_ids_def)
      then obtain b where "map_get (sw_sessions w1) i = Some b" "ss_user b = ?u"
        using spec grows_session_get by metis
      then show ?thesis using a u False by (auto simp: w')
    qed (use kept False in simp)
  qed
  have "active_ids w ?u \<inter> active_ids w' ?u \<subseteq> active_ids w1 ?u" using act [of ?u] nf by auto
  moreover have "active_ids w ?u - active_ids w' ?u \<subseteq> active_ids w ?u - active_ids w1 ?u" using act [of ?u] by auto
  ultimately have oldest: "ss_last_seen x \<le> ss_last_seen y"
    if "i \<in> active_ids w ?u - active_ids w' ?u" "j \<in> active_ids w ?u \<inter> active_ids w' ?u"
      "map_get (sw_sessions w) i = Some x" "map_get (sw_sessions w) j = Some y" for i j x y
    using spec that by blast
  obtain v where "r = Inr v" using r ..
  with run limit others kept oldest show ?thesis by (intro exI [of _ v] exI [of _ w']) simp
qed

text \<open>
  The session store stays well formed: in every run from a well-formed store (the empty one for
  instance) sessions and tokens stay under their own keys, no session, user of a session,
  revocation or use of a token is forgotten, and a session never has two refresh tokens that can
  still be redeemed.
\<close>

theorem session_store_well_formed:
  assumes "sessions_inv w" "\<forall>(now, call) \<in> set calls. denies_long d now call" "session_run d t calls w = Some w'"
  shows "sessions_inv w' \<and>
    (map_get (sw_sessions w) i = Some s \<longrightarrow> (\<exists>s'. map_get (sw_sessions w') i = Some s' \<and> ss_id s' = i \<and>
       ss_user s' = ss_user s \<and> (session_is_revoked s \<longrightarrow> session_is_revoked s'))) \<and>
    (map_get (sw_tokens w') h = Some x \<longrightarrow> map_get (sw_tokens w') k = Some y \<longrightarrow> rf_session x = rf_session y \<longrightarrow>
       refresh_is_redeemable u x \<longrightarrow> refresh_is_redeemable u y \<longrightarrow> h = k)"
proof -
  note run = session_run_ok [OF assms]
  have "\<exists>s'. map_get (sw_sessions w') i = Some s' \<and> ss_id s' = i \<and>
       ss_user s' = ss_user s \<and> (session_is_revoked s \<longrightarrow> session_is_revoked s')" if "map_get (sw_sessions w) i = Some s"
    using grows_session_get [of w w' i s] run that sessions_invD [of w'] by blast
  moreover have "h = k" if "map_get (sw_tokens w') h = Some x" "map_get (sw_tokens w') k = Some y" "rf_session x = rf_session y"
    "refresh_is_redeemable u x" "refresh_is_redeemable u y"
    using run that unfolding sessions_inv_def refresh_is_redeemable_def by blast
  ultimately show ?thesis using run by blast
qed

section \<open>A run\<close>

definition demo_session_policy :: expiry_policy where
  "demo_session_policy = \<lparr>xp_refresh_ttl = 1000, xp_access_ttl = 100, xp_lifetime = 5000, xp_idle = 800\<rparr>"

definition demo_session_deps :: session_deps where
  "demo_session_deps = \<lparr>xd_digest = (\<lambda>s. s), xd_sign = (\<lambda>p ttl. ap_session p), xd_policy = demo_session_policy, xd_limit = 2\<rparr>"

definition demo_issue :: issue_command where
  "demo_issue = \<lparr>isc_user = ''u1'', isc_ip = None, isc_agent = None\<rparr>"

definition empty_sessions :: session_world where
  "empty_sessions = \<lparr>sw_sessions = [], sw_tokens = [], sw_revoked = [], sw_audit = []\<rparr>"

text \<open>The world after one login at time 0, whose refresh token is \<^emph>\<open>a\<close>.\<close>

definition demo_sessions :: session_world where
  "demo_sessions = empty_sessions
     \<lparr>sw_sessions := [(''s1'', session_open ''s1'' 0 ''u1'' demo_session_policy None None)],
      sw_tokens := [(''a'', fst (refresh_issue (\<lambda>s. s) ''r1'' ''a'' ''s1'' 1000 0))]\<rparr>"

lemma empty_sessions_inv: "sessions_inv empty_sessions"
  by (simp add: sessions_inv_def empty_sessions_def)

lemma demo_sessions_inv: "sessions_inv demo_sessions"
  by (auto simp: sessions_inv_def demo_sessions_def empty_sessions_def session_open_def refresh_issue_def map_wf_def
      split: if_splits)

lemma demo_denies: "(\<forall>sid u. call \<noteq> LogoutCall sid u) \<or> (\<exists>sid. call = LogoutCall sid None) \<Longrightarrow> denies_long demo_session_deps t call"
  by (auto simp: denies_long_def demo_session_deps_def demo_session_policy_def revocation_window_ms_def)

definition demo_refreshed :: session_world where
  "demo_refreshed = snd (refresh_execute (xd_digest demo_session_deps) (xd_sign demo_session_deps)
     (xd_policy demo_session_deps) 10 ''r2'' ''b'' ''a'' demo_sessions)"

definition demo_logged_out :: session_world where
  "demo_logged_out = snd (logout_execute 10 ''s1'' None demo_sessions)"

lemma demo_refresh_ok:
  "fst (refresh_execute (xd_digest demo_session_deps) (xd_sign demo_session_deps) (xd_policy demo_session_deps)
     10 ''r2'' ''b'' ''a'' demo_sessions) = Inr \<lparr>rd_access = ''s1'', rd_refresh = ''b''\<rparr>"
  by code_simp

lemma demo_refresh_run:
  "session_run demo_session_deps 0 [(10, RefreshCall ''r2'' ''b'' ''a'')] demo_sessions = Some demo_refreshed"
proof -
  have "map_get (sw_tokens demo_sessions) (xd_digest demo_session_deps ''b'') = None" by code_simp
  then show ?thesis by (simp add: call_fresh_def session_step_def demo_refreshed_def)
qed

lemma demo_refreshed_fresh: "call_fresh demo_session_deps (RefreshCall ''r3'' ''c'' ''a'') demo_refreshed"
  by code_simp

theorem refresh_token_redeemed_once_witness:
  "fst (refresh_execute (xd_digest demo_session_deps) (xd_sign demo_session_deps) (xd_policy demo_session_deps)
     20 ''r3'' ''c'' ''a'' demo_refreshed) = Inl AuthenticationError"
proof -
  show ?thesis
    using refresh_token_redeemed_once [OF demo_sessions_inv demo_refresh_ok demo_refresh_run
        prod.collapse [symmetric] demo_refreshed_fresh] by blast
qed

theorem revoked_session_stays_dead_witness: "fst (revocation_is_revoked ''s1'' 50 demo_logged_out)"
proof -
  have step: "session_step demo_session_deps 10 (LogoutCall ''s1'' None) demo_sessions = Some demo_logged_out"
    by (simp add: session_step_def demo_logged_out_def)
  have "map_get (sw_sessions demo_sessions) ''s1'' = Some (session_open ''s1'' 0 ''u1'' demo_session_policy None None)"
    "ss_revoked_at (session_open ''s1'' 0 ''u1'' demo_session_policy None None) = None"
    "map_get (sw_sessions demo_logged_out) ''s1'' =
       Some (session_revoke 10 (session_open ''s1'' 0 ''u1'' demo_session_policy None None))"
    "ss_revoked_at (session_revoke 10 (session_open ''s1'' 0 ''u1'' demo_session_policy None None)) \<noteq> None"
    by code_simp+
  from revoked_session_stays_dead [OF demo_sessions_inv _ _ step this, of "[]" demo_logged_out] demo_denies
  show ?thesis by (simp add: call_fresh_def demo_session_deps_def demo_session_policy_def)
qed

theorem issue_session_returns_witness:
  "\<exists>r w'. issue_execute (xd_digest demo_session_deps) (xd_sign demo_session_deps) (xd_policy demo_session_deps)
     (xd_limit demo_session_deps) 20 ''s2'' ''r2'' ''b'' demo_issue demo_sessions = Some (Inr r, w') \<and>
     length (sessions_find_active w' ''u1'') \<le> 2"
proof -
  have f: "call_fresh demo_session_deps (IssueCall ''s2'' ''r2'' ''b'' demo_issue) demo_sessions" by code_simp
  have u: "js_trim (isc_user demo_issue) \<noteq> []" by code_simp
  have l: "isc_user demo_issue = ''u1''" "xd_limit demo_session_deps = 2"
    by (simp_all add: demo_issue_def demo_session_deps_def)
  show ?thesis
    using issue_session_returns [OF demo_sessions_inv f u, of 20] unfolding l by auto
qed

theorem session_store_well_formed_witness: "sessions_inv demo_refreshed"
proof -
  have "\<forall>(now, call) \<in> set [(10, RefreshCall ''r2'' ''b'' ''a'')]. denies_long demo_session_deps now call"
    using demo_denies by simp
  from session_store_well_formed [OF demo_sessions_inv this demo_refresh_run] show ?thesis by blast
qed

end
