(* ===== verification/AuditMetadata.thy ===== *)
theory AuditMetadata
  imports JsValues TextForms "HOL-Library.List_Lexorder"
begin

text \<open>
  \<open>packages/audit/domain/value-objects/audit-metadata.ts\<close>: the bounds on a metadata bag, the bag
  recorded in place of a rejected one, the self-delimiting form the chain hash is computed over,
  and the escapes that make a value safe in a log line, a JSON line or a spreadsheet cell. A bag
  is the list of its own properties in the order of \<open>Object.keys\<close>; the value of a bag arriving
  from outside is a JSON value. Assigning \<open>values["__proto__"]\<close> a string does nothing
  (\<open>bag_assign\<close>), as in the language.
\<close>

section \<open>Bounds\<close>

type_synonym metadata_bag = "(string, string) js_map"

datatype metadata_rejection_reason =
  TooManyFields | EmptyKey | KeyTooLong | NonStringValue | ValueTooLong | Unclassified

fun rejection_text :: "metadata_rejection_reason \<Rightarrow> string" where
  "rejection_text TooManyFields = ''too_many_fields''"
| "rejection_text EmptyKey = ''empty_key''"
| "rejection_text KeyTooLong = ''key_too_long''"
| "rejection_text NonStringValue = ''non_string_value''"
| "rejection_text ValueTooLong = ''value_too_long''"
| "rejection_text Unclassified = ''unclassified''"

definition metadata_rejected_key :: string where
  "metadata_rejected_key = ''metadataRejected''"

definition max_metadata_entries :: nat where
  "max_metadata_entries = 32"

definition max_metadata_key_length :: nat where
  "max_metadata_key_length = 64"

definition max_metadata_value_length :: nat where
  "max_metadata_value_length = 1024"

definition metadata_error :: "metadata_rejection_reason \<Rightarrow> domain_error" where
  "metadata_error r = ValidationError [(''metadata'', [rejection_text r])]"

definition rejection_reason_of :: "domain_error \<Rightarrow> metadata_rejection_reason" where
  "rejection_reason_of e =
     (case e of
        ValidationError fields \<Rightarrow>
          (case or_default (map_get fields ''metadata'') [] of
             [] \<Rightarrow> Unclassified
           | reason # _ \<Rightarrow> or_default (find (\<lambda>r. rejection_text r = reason)
               [TooManyFields, EmptyKey, KeyTooLong, NonStringValue, ValueTooLong]) Unclassified)
      | _ \<Rightarrow> Unclassified)"

definition bag_assign :: "string \<Rightarrow> string \<Rightarrow> metadata_bag \<Rightarrow> metadata_bag" where
  "bag_assign k v vals = (if k = ''__proto__'' then vals else map_set k v vals)"

fun metadata_collect :: "(string \<times> json) list \<Rightarrow> metadata_bag \<Rightarrow> metadata_bag result" where
  "metadata_collect [] vals = Inr vals"
| "metadata_collect ((key, x) # rest) vals =
     (if length key = 0 then Inl (metadata_error EmptyKey)
      else if length key > max_metadata_key_length then Inl (metadata_error KeyTooLong)
      else (case x of
              JStr s \<Rightarrow>
                if length s > max_metadata_value_length then Inl (metadata_error ValueTooLong)
                else metadata_collect rest (bag_assign key s vals)
            | _ \<Rightarrow> Inl (metadata_error NonStringValue)))"

definition metadata_create :: "(string, json) js_map \<Rightarrow> metadata_bag result" where
  "metadata_create input =
     (if length input > max_metadata_entries then Inl (metadata_error TooManyFields)
      else metadata_collect input [])"

definition metadata_rejected :: "metadata_rejection_reason \<Rightarrow> metadata_bag" where
  "metadata_rejected r = [(metadata_rejected_key, rejection_text r)]"

definition bag_within_bounds :: "metadata_bag \<Rightarrow> bool" where
  "bag_within_bounds m \<longleftrightarrow> map_wf m \<and> length m \<le> max_metadata_entries \<and>
     (\<forall>(k, v) \<in> set m. k \<noteq> [] \<and> length k \<le> max_metadata_key_length \<and> length v \<le> max_metadata_value_length)"

lemma rejection_reason_of_metadata_error [simp]: "rejection_reason_of (metadata_error r) = r"
  by (cases r) (simp_all add: rejection_reason_of_def metadata_error_def)

lemma length_map_set: "length (map_set k v m) \<le> Suc (length m)"
  by (induction m) auto

lemma set_map_set: "set (map_set k v m) \<subseteq> insert (k, v) (set m)"
  by (induction m) auto

lemma map_set_new: "k \<notin> fst ` set m \<Longrightarrow> map_set k v m = m @ [(k, v)]"
  by (induction m) auto

lemma metadata_collect_Inr:
  "metadata_collect input vals = Inr m \<Longrightarrow> map_wf vals \<Longrightarrow>
     map_wf m \<and> length m \<le> length vals + length input \<and>
     (\<forall>(k, v) \<in> set m. (k, v) \<in> set vals \<or>
        k \<noteq> [] \<and> length k \<le> max_metadata_key_length \<and> length v \<le> max_metadata_value_length)"
proof (induction input vals rule: metadata_collect.induct)
  case (2 key x rest vals)
  then obtain s where s: "x = JStr s" "key \<noteq> []" "length key \<le> max_metadata_key_length"
    "length s \<le> max_metadata_value_length" "metadata_collect rest (bag_assign key s vals) = Inr m"
    by (auto split: if_splits json.splits)
  have wf: "map_wf (bag_assign key s vals)" using "2.prems"(2) by (simp add: bag_assign_def)
  have "length (bag_assign key s vals) \<le> Suc (length vals)"
    using length_map_set [of key s vals] by (simp add: bag_assign_def)
  moreover have "set (bag_assign key s vals) \<subseteq> insert (key, s) (set vals)"
    using set_map_set [of key s vals] by (auto simp: bag_assign_def)
  ultimately show ?case
    using "2.IH" [OF _ _ s(1) _ s(5) wf] s by (fastforce split: prod.splits)
qed auto

lemma metadata_create_bounds: "metadata_create input = Inr m \<Longrightarrow> bag_within_bounds m"
  using metadata_collect_Inr [of input "[]" m]
  by (fastforce simp: metadata_create_def bag_within_bounds_def split: if_splits)

lemma metadata_rejected_bounds: "bag_within_bounds (metadata_rejected r)"
  by (cases r)
    (simp_all add: bag_within_bounds_def metadata_rejected_def metadata_rejected_key_def map_wf_def
      max_metadata_entries_def max_metadata_key_length_def max_metadata_value_length_def)

text \<open>An accepted bag is recorded as supplied, up to a field named \<open>__proto__\<close>.\<close>

lemma metadata_collect_map:
  "(\<forall>(k, s) \<in> set fields. k \<noteq> [] \<and> length k \<le> max_metadata_key_length \<and> length s \<le> max_metadata_value_length) \<Longrightarrow>
   metadata_collect (map (apsnd JStr) fields) vals = Inr (fold (\<lambda>(k, s). bag_assign k s) fields vals)"
  by (induction fields arbitrary: vals) auto

lemma fold_bag_assign:
  "distinct (map fst fields) \<Longrightarrow> fst ` set fields \<inter> fst ` set vals = {} \<Longrightarrow>
   fold (\<lambda>(k, s). bag_assign k s) fields vals = vals @ filter (\<lambda>(k, s). k \<noteq> ''__proto__'') fields"
proof (induction fields arbitrary: vals)
  case (Cons f fields)
  obtain k s where f: "f = (k, s)" by (cases f)
  have "k \<notin> fst ` set vals" using Cons.prems(2) f by auto
  then have "map_set k s vals = vals @ [(k, s)]" by (rule map_set_new)
  then show ?case using Cons f by (auto simp: bag_assign_def)
qed simp

lemma metadata_create_accepts:
  assumes "bag_within_bounds m"
  shows "metadata_create (map (apsnd JStr) m) = Inr (filter (\<lambda>(k, s). k \<noteq> ''__proto__'') m)"
proof -
  have "metadata_collect (map (apsnd JStr) m) [] = Inr (fold (\<lambda>(k, s). bag_assign k s) m [])"
    using assms by (intro metadata_collect_map) (auto simp: bag_within_bounds_def)
  then show ?thesis
    using assms fold_bag_assign [of m "[]"] by (simp add: metadata_create_def bag_within_bounds_def map_wf_def)
qed

section \<open>The hash pre-image of a bag\<close>

definition framed_pair :: "string \<times> string \<Rightarrow> string" where
  "framed_pair = (\<lambda>(k, v). frame k @ ''='' @ frame v)"

definition sorted_pairs :: "metadata_bag \<Rightarrow> (string \<times> string) list" where
  "sorted_pairs m = map (\<lambda>k. (k, or_default (map_get m k) [])) (sort (map fst m))"

definition canonical_form :: "metadata_bag \<Rightarrow> string" where
  "canonical_form m =
     js_join '';'' (show_nat (length (sort (map fst m))) # map framed_pair (sorted_pairs m))"

lemma js_join_Cons: "js_join d (w # ws) = w @ concat (map (\<lambda>v. d @ v) ws)"
  by (induction ws arbitrary: w) auto

lemma delimited_prefix:
  assumes "a @ x = b @ y" "d \<notin> set a" "d \<notin> set b" "x = [] \<or> hd x = d" "y = [] \<or> hd y = d"
  shows "a = b \<and> x = y"
proof -
  have "takeWhile (\<lambda>c. c \<noteq> d) (u @ z) = u" if "d \<notin> set u" "z = [] \<or> hd z = d" for u z
    using that by (cases z) (auto simp: takeWhile_append)
  from this [OF assms(2,4)] this [OF assms(3,5)] have "a = b" using assms(1) by simp
  with assms(1) show ?thesis by simp
qed

lemma framed_pairs_inject:
  "length ps = length qs \<Longrightarrow>
   concat (map (\<lambda>v. d @ v) (map framed_pair ps)) = concat (map (\<lambda>v. d @ v) (map framed_pair qs)) \<longleftrightarrow> ps = qs"
proof (induction ps qs rule: list_induct2)
  case (Cons p ps q qs)
  then show ?case by (cases p; cases q) (auto simp: framed_pair_def)
qed simp

lemma map_get_tabulate: "map_get (map (\<lambda>k. (k, f k)) ks) k = (if k \<in> set ks then Some (f k) else None)"
  by (induction ks) auto

lemma map_get_sorted_pairs: "map_get (sorted_pairs m) = map_get m"
proof
  fix k
  show "map_get (sorted_pairs m) k = map_get m k"
    using map_of_eq_None_iff [of m k] unfolding sorted_pairs_def map_get_tabulate set_sort set_map
    by (cases "map_get m k") (metis, metis option.simps(3) or_default_simps(2))
qed

lemma sorted_pairs_map_of: "sorted_pairs m = sorted_pairs m' \<Longrightarrow> map_get m = map_get m'"
  by (metis map_get_sorted_pairs)

text \<open>Two bags with the same pre-image have the same fields.\<close>

lemma canonical_form_inject:
  assumes "canonical_form m = canonical_form m'"
  shows "map_get m = map_get m'"
proof -
  let ?c = "\<lambda>m. concat (map (\<lambda>v. '';'' @ v) (map framed_pair (sorted_pairs m)))"
  have c: "canonical_form b = show_nat (length b) @ ?c b" for b
    by (simp add: canonical_form_def js_join_Cons)
  have h: "?c b = [] \<or> hd (?c b) = CHR '';''" for b
    by (cases "sorted_pairs b") auto
  have "show_nat (length m) @ ?c m = show_nat (length m') @ ?c m'" using assms by (simp only: c)
  from delimited_prefix [OF this show_nat_not_minus(2) show_nat_not_minus(2) h h]
  have "length m = length m'" "?c m = ?c m'" by (simp_all only: show_nat_inject)
  moreover have "length (sorted_pairs b) = length b" for b by (simp add: sorted_pairs_def)
  ultimately have len: "length (sorted_pairs m) = length (sorted_pairs m')" by simp
  have "sorted_pairs m = sorted_pairs m'"
    using \<open>?c m = ?c m'\<close> by (rule iffD1 [OF framed_pairs_inject [OF len]])
  then show ?thesis by (rule sorted_pairs_map_of)
qed

section \<open>Escapes at the textual boundaries\<close>

definition hex_digit :: "nat \<Rightarrow> char" where
  "hex_digit n = (if n < 10 then char_of (48 + n) else char_of (87 + n))"

text \<open>\<open>`\\u${code.toString(16).padStart(4, "0")}`\<close> of a code below 256.\<close>

definition unicode_escape :: "char \<Rightarrow> string" where
  "unicode_escape c =
     [CHR 0x5C, CHR ''u'', CHR ''0'', CHR ''0'', hex_digit (of_char c div 16), hex_digit (of_char c mod 16)]"

definition text_unsafe :: "char \<Rightarrow> bool" where
  "text_unsafe c \<longleftrightarrow> c = CHR 0x5C \<or> (of_char c :: nat) < 32 \<or> 127 \<le> (of_char c :: nat) \<and> (of_char c :: nat) < 160"

definition escape_char :: "char \<Rightarrow> string" where
  "escape_char c =
     (if \<not> text_unsafe c then [c]
      else if c = CHR 0x5C then [CHR 0x5C, CHR 0x5C]
      else if c = CHR 0x0A then [CHR 0x5C, CHR ''n'']
      else if c = CHR 0x0D then [CHR 0x5C, CHR ''r'']
      else if c = CHR 0x09 then [CHR 0x5C, CHR ''t'']
      else unicode_escape c)"

definition escape_for_text :: "string \<Rightarrow> string" where
  "escape_for_text s = concat (map escape_char s)"

definition escape_json_line_terminators :: "string \<Rightarrow> string" where
  "escape_json_line_terminators s = concat (map (\<lambda>c. if c = CHR 0x85 then unicode_escape c else [c]) s)"

definition formula_character :: "char \<Rightarrow> bool" where
  "formula_character c \<longleftrightarrow> c \<in> {CHR ''='', CHR ''+'', CHR ''-'', CHR ''@'', CHR 0x09, CHR 0x0D}"

definition neutralize_formula_prefix :: "string \<Rightarrow> string" where
  "neutralize_formula_prefix s = (if s \<noteq> [] \<and> formula_character (hd s) then CHR 0x27 # s else s)"

definition metadata_log_fields :: "metadata_bag \<Rightarrow> metadata_bag" where
  "metadata_log_fields m =
     fold (\<lambda>(k, v). map_set k v) (map (map_prod escape_for_text escape_for_text) m) []"

text \<open>Reading an escaped value back.\<close>

definition hex_value :: "char \<Rightarrow> nat" where
  "hex_value c = (let n = of_char c in if n < 58 then n - 48 else n - 87)"

fun unescape_text :: "string \<Rightarrow> string" where
  "unescape_text [] = []"
| "unescape_text [c] = [c]"
| "unescape_text (c # d # s) =
     (if c \<noteq> CHR 0x5C then c # unescape_text (d # s)
      else if d = CHR 0x5C then c # unescape_text s
      else if d = CHR ''n'' then CHR 0x0A # unescape_text s
      else if d = CHR ''r'' then CHR 0x0D # unescape_text s
      else if d = CHR ''t'' then CHR 0x09 # unescape_text s
      else (case s of
              _ # _ # h # l # r \<Rightarrow> char_of (16 * hex_value h + hex_value l) # unescape_text r
            | _ \<Rightarrow> c # d # s))"

lemma char_code_less: "(of_char c :: nat) < 256"
  by (rule nat_of_char_less_256)

lemma hex_value_digit: "n < 16 \<Longrightarrow> hex_value (hex_digit n) = n"
  by (auto simp: hex_value_def hex_digit_def)

lemma unescape_unicode_escape: "unescape_text (unicode_escape c @ s) = c # unescape_text s"
proof -
  have "(of_char c :: nat) < 256" by (rule char_code_less)
  then have "(of_char c :: nat) div 16 < 16" "(of_char c :: nat) mod 16 < 16"
    by (simp_all add: less_mult_imp_div_less)
  then have "16 * hex_value (hex_digit (of_char c div 16)) + hex_value (hex_digit (of_char c mod 16)) = of_char c"
    by (simp add: hex_value_digit)
  then show ?thesis by (simp add: unicode_escape_def)
qed

lemma unescape_escape_char: "unescape_text (escape_char c @ s) = c # unescape_text s"
proof (cases "text_unsafe c")
  case False
  then have "c \<noteq> CHR 0x5C" by (auto simp: text_unsafe_def)
  then show ?thesis using False by (cases s) (simp_all add: escape_char_def)
next
  case True
  then show ?thesis using unescape_unicode_escape by (simp add: escape_char_def)
qed

lemma unescape_escape [simp]: "unescape_text (escape_for_text s) = s"
  by (induction s) (simp_all add: escape_for_text_def unescape_escape_char)

lemma escape_for_text_inject [simp]: "escape_for_text s = escape_for_text t \<longleftrightarrow> s = t"
  by (metis unescape_escape)

text \<open>What a line-oriented or terminal sink may print as it is.\<close>

definition printable :: "char \<Rightarrow> bool" where
  "printable c \<longleftrightarrow> 32 \<le> (of_char c :: nat) \<and> \<not> (127 \<le> (of_char c :: nat) \<and> (of_char c :: nat) < 160)"

lemma printable_hex_digit: "n < 16 \<Longrightarrow> printable (hex_digit n)"
  by (auto simp: printable_def hex_digit_def)

lemma printable_unicode_escape: "x \<in> set (unicode_escape c) \<Longrightarrow> printable x"
proof -
  have "(of_char c :: nat) < 256" by (rule char_code_less)
  then have "(of_char c :: nat) div 16 < 16" "(of_char c :: nat) mod 16 < 16"
    by (simp_all add: less_mult_imp_div_less)
  then show "x \<in> set (unicode_escape c) \<Longrightarrow> printable x"
    by (auto simp: unicode_escape_def printable_hex_digit) (simp_all add: printable_def)
qed

lemma printable_escape: "x \<in> set (escape_for_text s) \<Longrightarrow> printable x"
proof -
  have "x \<in> set (escape_char c) \<Longrightarrow> printable x" for c
    using printable_unicode_escape
    by (auto simp: escape_char_def split: if_splits) (auto simp: printable_def text_unsafe_def)
  then show "x \<in> set (escape_for_text s) \<Longrightarrow> printable x" by (auto simp: escape_for_text_def)
qed

end
