(* ===== verification/AuditLog.thy ===== *)
theory AuditLog
  imports AuditMetadata
begin

text \<open>
  \<open>packages/audit/domain/entities/audit-log-entry.ts\<close>, the repository port and its in-memory
  adapter, and the writers of \<open>application/use-cases/record-audit-event.ts\<close>: hash-chained entries,
  the compare-and-set append, verification of a run of entries, and the two ways of recording.
  \<open>sha\<close> is the hex SHA-256 of \<open>node:crypto\<close>, a parameter: what is proved of the chain assumes at
  most that the digests of the entries at hand do not collide. Entry ids and the clock are
  arguments. \<open>None\<close> of \<open>entry_append\<close> is the \<open>RangeError\<close> of \<open>toISOString\<close> on an Invalid Date.
\<close>

section \<open>Entries\<close>

datatype audit_action =
    ActUserRegistered | ActUserEmailVerified | ActUserPasswordChanged | ActUserStatusChanged | ActUserProfileUpdated
  | ActOrganizationInvitationCreated | ActUserLoginSucceeded | ActUserLoginFailed | ActUserLockedOut
  | ActUserPasswordResetRequested | ActUserPasswordResetCompleted | ActAuditQueried | ActAuditExported
  | ActAuditAccessDenied | ActApiKeyCreated

fun audit_action_text :: "audit_action \<Rightarrow> string" where
  "audit_action_text ActUserRegistered = ''user.registered''"
| "audit_action_text ActUserEmailVerified = ''user.email_verified''"
| "audit_action_text ActUserPasswordChanged = ''user.password_changed''"
| "audit_action_text ActUserStatusChanged = ''user.status_changed''"
| "audit_action_text ActUserProfileUpdated = ''user.profile_updated''"
| "audit_action_text ActOrganizationInvitationCreated = ''organization.invitation_created''"
| "audit_action_text ActUserLoginSucceeded = ''user.login_succeeded''"
| "audit_action_text ActUserLoginFailed = ''user.login_failed''"
| "audit_action_text ActUserLockedOut = ''user.locked_out''"
| "audit_action_text ActUserPasswordResetRequested = ''user.password_reset_requested''"
| "audit_action_text ActUserPasswordResetCompleted = ''user.password_reset_completed''"
| "audit_action_text ActAuditQueried = ''audit.queried''"
| "audit_action_text ActAuditExported = ''audit.exported''"
| "audit_action_text ActAuditAccessDenied = ''audit.access_denied''"
| "audit_action_text ActApiKeyCreated = ''api_key.created''"

lemma audit_action_text_inject [simp]: "audit_action_text a = audit_action_text b \<longleftrightarrow> a = b"
  by (cases a; cases b) simp_all

definition genesis_hash :: string where
  "genesis_hash = replicate 64 (CHR ''0'')"

record audit_body =
  al_sequence :: int
  al_action :: audit_action
  al_actor :: "string option"
  al_subject :: "string option"
  al_metadata :: metadata_bag
  al_occurred_at :: int
  al_previous_hash :: string

record audit_log_entry = audit_body +
  al_id :: string
  al_hash :: string

definition canonical_fields :: "'a audit_body_scheme \<Rightarrow> string list" where
  "canonical_fields b =
     [show_int (al_sequence b), audit_action_text (al_action b), or_default (al_actor b) [],
      or_default (al_subject b) [], to_iso_string (al_occurred_at b), al_previous_hash b,
      canonical_form (al_metadata b)]"

definition canonicalize :: "'a audit_body_scheme \<Rightarrow> string" where
  "canonicalize b =
     ''verixa-audit-v2 '' @ show_nat (length (canonical_fields b)) @ '' '' @
     js_join ''|'' (map frame (canonical_fields b))"

definition compute_hash :: "(string \<Rightarrow> string) \<Rightarrow> 'a audit_body_scheme \<Rightarrow> string" where
  "compute_hash sha b = sha (canonicalize b)"

definition recomputed_hash :: "(string \<Rightarrow> string) \<Rightarrow> audit_log_entry \<Rightarrow> string" where
  "recomputed_hash sha e = compute_hash sha e"

definition has_valid_hash :: "(string \<Rightarrow> string) \<Rightarrow> audit_log_entry \<Rightarrow> bool" where
  "has_valid_hash sha e \<longleftrightarrow> al_hash e = recomputed_hash sha e"

record record_command =
  rc_action :: audit_action
  rc_actor :: "string option"
  rc_subject :: "string option"
  rc_metadata :: "metadata_bag option"
  rc_occurred_at :: "date option"

definition entry_append ::
  "(string \<Rightarrow> string) \<Rightarrow> string \<Rightarrow> int \<Rightarrow> record_command \<Rightarrow> metadata_bag option \<Rightarrow> audit_log_entry option \<Rightarrow>
   audit_log_entry option" where
  "entry_append sha fresh_id now cmd metadata previous =
     (case or_default (rc_occurred_at cmd) (Some now) of
        None \<Rightarrow> None
      | Some occurred \<Rightarrow>
          let body = \<lparr>al_sequence = (case previous of None \<Rightarrow> 1 | Some p \<Rightarrow> al_sequence p + 1),
                      al_action = rc_action cmd, al_actor = rc_actor cmd, al_subject = rc_subject cmd,
                      al_metadata = or_default metadata [], al_occurred_at = occurred,
                      al_previous_hash = (case previous of None \<Rightarrow> genesis_hash | Some p \<Rightarrow> al_hash p)\<rparr>
          in Some (audit_body.extend body (audit_log_entry.fields fresh_id (compute_hash sha body))))"

section \<open>Verification of a run of entries\<close>

datatype break_reason = ContentAltered | LinkBroken | SequenceGap

record chain_break =
  cb_sequence :: int
  cb_reason :: break_reason

definition link_hash :: "audit_log_entry option \<Rightarrow> string" where
  "link_hash previous = (case previous of None \<Rightarrow> genesis_hash | Some p \<Rightarrow> al_hash p)"

definition next_sequence :: "audit_log_entry option \<Rightarrow> int" where
  "next_sequence previous = (case previous of None \<Rightarrow> 1 | Some p \<Rightarrow> al_sequence p + 1)"

fun verify_chain_from ::
  "(string \<Rightarrow> string) \<Rightarrow> audit_log_entry option \<Rightarrow> audit_log_entry list \<Rightarrow> chain_break option" where
  "verify_chain_from sha predecessor [] = None"
| "verify_chain_from sha predecessor (e # es) =
     (if \<not> has_valid_hash sha e then Some \<lparr>cb_sequence = al_sequence e, cb_reason = ContentAltered\<rparr>
      else if al_previous_hash e \<noteq> link_hash predecessor
        then Some \<lparr>cb_sequence = al_sequence e, cb_reason = LinkBroken\<rparr>
      else if al_sequence e \<noteq> next_sequence predecessor
        then Some \<lparr>cb_sequence = al_sequence e, cb_reason = SequenceGap\<rparr>
      else verify_chain_from sha (Some e) es)"

definition verify_chain :: "(string \<Rightarrow> string) \<Rightarrow> audit_log_entry list \<Rightarrow> chain_break option" where
  "verify_chain sha entries = verify_chain_from sha None entries"

definition last_opt :: "'a list \<Rightarrow> 'a option" where
  "last_opt xs = (if xs = [] then None else Some (last xs))"

definition last_or :: "'a option \<Rightarrow> 'a list \<Rightarrow> 'a option" where
  "last_or p xs = (if xs = [] then p else Some (last xs))"

lemma last_or_simps [simp]: "last_or p [] = p" "last_or p (xs @ [x]) = Some x" "last_or p (x # xs) = last_or (Some x) xs"
  by (simp_all add: last_or_def)

lemma last_or_append: "last_or p (xs @ ys) = last_or (last_or p xs) ys"
  by (simp add: last_or_def)

lemma last_opt_last_or: "last_opt xs = last_or None xs"
  by (simp add: last_opt_def last_or_def)

lemma verify_chain_from_append:
  "verify_chain_from sha p (xs @ ys) = None \<longleftrightarrow>
     verify_chain_from sha p xs = None \<and> verify_chain_from sha (last_or p xs) ys = None"
  by (induction xs arbitrary: p) auto

lemma entry_append_links:
  assumes "entry_append sha i now cmd md p = Some e"
  shows "has_valid_hash sha e" "al_previous_hash e = link_hash p" "al_sequence e = next_sequence p"
    "al_metadata e = or_default md []" "al_action e = rc_action cmd" "al_actor e = rc_actor cmd"
    "al_subject e = rc_subject cmd" "verify_chain_from sha p [e] = None"
  using assms
  by (auto simp: entry_append_def Let_def has_valid_hash_def recomputed_hash_def compute_hash_def canonicalize_def
      canonical_fields_def link_hash_def next_sequence_def audit_body.defs audit_log_entry.defs split: option.splits)

lemma verify_chain_snoc:
  "verify_chain sha (es @ [e]) = None \<longleftrightarrow>
     verify_chain sha es = None \<and> al_hash e = sha (canonicalize e) \<and>
     al_previous_hash e = link_hash (last_opt es) \<and> al_sequence e = next_sequence (last_opt es)"
  by (simp add: verify_chain_def verify_chain_from_append last_opt_last_or has_valid_hash_def
      recomputed_hash_def compute_hash_def)

text \<open>A verified run numbers its entries without a gap.\<close>

lemma verify_chain_from_sequences:
  "verify_chain_from sha p es = None \<Longrightarrow>
   map al_sequence es = map (\<lambda>i. next_sequence p + int i) [0..<length es]"
proof (induction es arbitrary: p)
  case (Cons e es)
  then have h: "al_sequence e = next_sequence p" "verify_chain_from sha (Some e) es = None"
    by (auto split: if_splits)
  have "map (\<lambda>i. next_sequence p + int i) [0..<length (e # es)] =
      next_sequence p # map (\<lambda>i. next_sequence p + int (Suc i)) [0..<length es]"
    by (simp add: upt_conv_Cons map_Suc_upt [symmetric] del: upt_Suc)
  then show ?case using Cons.IH [OF h(2)] h(1) by (simp add: next_sequence_def algebra_simps)
qed simp

lemma verify_chain_sequence_nth:
  assumes "verify_chain sha es = None" "i < length es"
  shows "al_sequence (es ! i) = int i + 1"
proof -
  have "map al_sequence es ! i = map (\<lambda>i. next_sequence None + int i) [0..<length es] ! i"
    using verify_chain_from_sequences [of sha None es] assms by (simp add: verify_chain_def)
  then show ?thesis using assms(2) by (simp add: next_sequence_def)
qed

lemma next_sequence_verified:
  assumes "verify_chain sha es = None"
  shows "next_sequence (last_opt es) = int (length es) + 1"
proof (cases "es = []")
  case True
  then show ?thesis by (simp add: last_opt_def next_sequence_def)
next
  case False
  then have "al_sequence (last es) = int (length es - 1) + 1"
    using verify_chain_sequence_nth [OF assms, of "length es - 1"] by (simp add: last_conv_nth)
  then show ?thesis using False by (simp add: last_opt_def next_sequence_def of_nat_diff Suc_leI)
qed

section \<open>What an entry's hash commits to\<close>

record hashed_content =
  hc_sequence :: int
  hc_action :: audit_action
  hc_actor :: string
  hc_subject :: string
  hc_occurred_at :: int
  hc_previous_hash :: string
  hc_metadata :: "string \<Rightarrow> string option"

definition hashed_content :: "'a audit_body_scheme \<Rightarrow> hashed_content" where
  "hashed_content b =
     \<lparr>hc_sequence = al_sequence b, hc_action = al_action b, hc_actor = or_default (al_actor b) [],
      hc_subject = or_default (al_subject b) [], hc_occurred_at = al_occurred_at b,
      hc_previous_hash = al_previous_hash b, hc_metadata = map_get (al_metadata b)\<rparr>"

lemma canonicalize_inject:
  assumes "canonicalize a = canonicalize b"
  shows "hashed_content a = hashed_content b"
proof -
  have "js_join ''|'' (map frame (canonical_fields a)) = js_join ''|'' (map frame (canonical_fields b))"
    using assms by (simp add: canonicalize_def canonical_fields_def)
  then have "canonical_fields a = canonical_fields b"
    by (subst (asm) join_frames_inject) (simp_all add: canonical_fields_def)
  then show ?thesis
    using canonical_form_inject [of "al_metadata a" "al_metadata b"]
    by (simp add: canonical_fields_def hashed_content_def)
qed

text \<open>
  With a collision-free digest on the entries at hand, two verified chains that end in the same
  hash record the same facts.
\<close>

lemma same_head_same_chain:
  assumes "verify_chain sha xs = None" "verify_chain sha ys = None" "xs \<noteq> []" "ys \<noteq> []"
    and "al_hash (last xs) = al_hash (last ys)" "inj_on sha (canonicalize ` (set xs \<union> set ys))"
  shows "map hashed_content xs = map hashed_content ys"
  using assms
proof (induction xs arbitrary: ys rule: rev_induct)
  case (snoc a xs)
  obtain b zs where ys: "ys = zs @ [b]" using snoc.prems(4) by (metis rev_exhaust)
  have vx: "verify_chain sha xs = None" "al_previous_hash a = link_hash (last_opt xs)"
      "al_sequence a = next_sequence (last_opt xs)" "al_hash a = sha (canonicalize a)"
    and vy: "verify_chain sha zs = None" "al_previous_hash b = link_hash (last_opt zs)"
      "al_sequence b = next_sequence (last_opt zs)" "al_hash b = sha (canonicalize b)"
    using snoc.prems(1,2) by (simp_all only: ys verify_chain_snoc)
  have "sha (canonicalize a) = sha (canonicalize b)" using snoc.prems(5) vx(4) vy(4) by (simp add: ys)
  then have "canonicalize a = canonicalize b"
    by (rule inj_onD [OF snoc.prems(6)]) (simp_all add: ys)
  then have ab: "hashed_content a = hashed_content b" by (rule canonicalize_inject)
  then have prev: "link_hash (last_opt xs) = link_hash (last_opt zs)" "length xs = length zs"
    using vx(2,3) vy(2,3) next_sequence_verified [OF vx(1)] next_sequence_verified [OF vy(1)]
    by (auto simp: hashed_content_def)
  show ?case
  proof (cases "xs = []")
    case True
    then show ?thesis using ab prev(2) by (simp add: ys)
  next
    case False
    then have "zs \<noteq> []" "al_hash (last xs) = al_hash (last zs)"
      using prev by (auto simp: last_opt_def link_hash_def)
    moreover have "inj_on sha (canonicalize ` (set xs \<union> set zs))"
      using snoc.prems(6) by (rule inj_on_subset) (auto simp: ys)
    ultimately show ?thesis using snoc.IH [OF vx(1) vy(1) False] ab by (simp add: ys)
  qed
qed simp

section \<open>The repository port and the in-memory adapter\<close>

datatype chain_conflict = ChainConflict string string

definition head_hash :: "audit_log_entry list \<Rightarrow> string" where
  "head_hash chain = link_hash (last_opt chain)"

record 's audit_repo_ops =
  ar_find_latest :: "'s \<Rightarrow> audit_log_entry option"
  ar_append_many :: "audit_log_entry list \<Rightarrow> string \<Rightarrow> 's \<Rightarrow> (chain_conflict + unit) \<times> 's"
  ar_find_from :: "int \<Rightarrow> nat \<Rightarrow> 's \<Rightarrow> audit_log_entry list"

fun check_links :: "string \<Rightarrow> audit_log_entry list \<Rightarrow> chain_conflict option" where
  "check_links expected [] = None"
| "check_links expected (e # es) =
     (if al_previous_hash e \<noteq> expected then Some (ChainConflict expected (al_previous_hash e))
      else check_links (al_hash e) es)"

definition mem_audit_append_many ::
  "audit_log_entry list \<Rightarrow> string \<Rightarrow> audit_log_entry list \<Rightarrow> (chain_conflict + unit) \<times> audit_log_entry list" where
  "mem_audit_append_many new expected chain =
     (if new = [] then (Inr (), chain)
      else if head_hash chain \<noteq> expected then (Inl (ChainConflict expected (head_hash chain)), chain)
      else (case find (\<lambda>e. \<exists>x \<in> set chain. al_sequence x = al_sequence e) new of
              Some e \<Rightarrow> (Inl (ChainConflict (al_previous_hash e) (head_hash chain)), chain)
            | None \<Rightarrow>
                (case check_links expected new of
                   Some c \<Rightarrow> (Inl c, chain)
                 | None \<Rightarrow> (Inr (), chain @ new))))"

definition mem_audit_find_from :: "int \<Rightarrow> nat \<Rightarrow> audit_log_entry list \<Rightarrow> audit_log_entry list" where
  "mem_audit_find_from from_sequence limit chain =
     take limit (filter (\<lambda>e. from_sequence \<le> al_sequence e) chain)"

definition mem_audit_ops :: "audit_log_entry list audit_repo_ops" where
  "mem_audit_ops = \<lparr>ar_find_latest = last_opt, ar_append_many = mem_audit_append_many,
     ar_find_from = mem_audit_find_from\<rparr>"

definition mem_audit_count :: "audit_log_entry list \<Rightarrow> nat" where
  "mem_audit_count chain = length chain"

record audit_log_filters =
  af_actor :: "string option"
  af_subject :: "string option"
  af_organization :: "string option"
  af_action :: "string option"
  af_from :: "date option"
  af_to :: "date option"

text \<open>A filter given as the empty string is no filter (\<open>if (params.filters.actorId)\<close>).\<close>

definition string_filter :: "string option \<Rightarrow> (string \<Rightarrow> bool) \<Rightarrow> bool" where
  "string_filter f P = (case f of None \<Rightarrow> True | Some s \<Rightarrow> s = [] \<or> P s)"

definition mem_audit_find_with_filters ::
  "audit_log_filters \<Rightarrow> int \<Rightarrow> nat \<Rightarrow> audit_log_entry list \<Rightarrow> audit_log_entry list" where
  "mem_audit_find_with_filters f from_sequence limit chain =
     take limit (filter (\<lambda>e. from_sequence \<le> al_sequence e \<and>
       string_filter (af_actor f) (\<lambda>s. al_actor e = Some s) \<and>
       string_filter (af_subject f) (\<lambda>s. al_subject e = Some s) \<and>
       string_filter (af_action f) (\<lambda>s. audit_action_text (al_action e) = s) \<and>
       string_filter (af_organization f) (\<lambda>s. map_get (al_metadata e) ''organizationId'' = Some s) \<and>
       (case af_from f of None \<Rightarrow> True | Some d \<Rightarrow> date_ge (Some (al_occurred_at e)) d) \<and>
       (case af_to f of None \<Rightarrow> True | Some d \<Rightarrow> date_ge d (Some (al_occurred_at e)))) chain)"

record anchor_record =
  an_sequence :: int
  an_chain_hash :: string
  an_anchor_ref :: string
  an_network :: string
  an_anchored_at :: date

definition mem_anchor_save :: "anchor_record \<Rightarrow> anchor_record list \<Rightarrow> anchor_record list" where
  "mem_anchor_save r rs = rs @ [r]"

definition mem_anchor_find_latest :: "anchor_record list \<Rightarrow> anchor_record option" where
  "mem_anchor_find_latest rs = last_opt rs"

definition mem_anchor_find_all :: "nat \<Rightarrow> anchor_record list \<Rightarrow> anchor_record list" where
  "mem_anchor_find_all limit rs = take limit (rev rs)"

text \<open>The contract of the port: an append lands as a whole, on the head it names, or not at all.\<close>

locale audit_log_store =
  fixes ops :: "'s audit_repo_ops" and contents :: "'s \<Rightarrow> audit_log_entry list"
  assumes find_latest: "ar_find_latest ops s = last_opt (contents s)"
    and append_empty: "ar_append_many ops [] h s = (Inr (), s)"
    and append_lands: "ar_append_many ops es h s = (Inr u, s') \<Longrightarrow> es \<noteq> [] \<Longrightarrow>
      h = head_hash (contents s) \<and> contents s' = contents s @ es \<and>
      (\<forall>e \<in> set es. \<forall>x \<in> set (contents s). al_sequence x \<noteq> al_sequence e)"
    and append_refused: "ar_append_many ops es h s = (Inl c, s') \<Longrightarrow> s' = s"
    and append_accepts: "h = head_hash (contents s) \<Longrightarrow> check_links h es = None \<Longrightarrow>
      \<forall>e \<in> set es. \<forall>x \<in> set (contents s). al_sequence x \<noteq> al_sequence e \<Longrightarrow>
      \<exists>s'. ar_append_many ops es h s = (Inr (), s')"
    and find_from: "ar_find_from ops k n s = take n (filter (\<lambda>e. k \<le> al_sequence e) (contents s))"

interpretation mem_audit: audit_log_store mem_audit_ops "\<lambda>chain. chain"
proof unfold_locales
  fix es h and s s' :: "audit_log_entry list" and u
  assume "ar_append_many mem_audit_ops es h s = (Inr u, s')" "es \<noteq> []"
  then show "h = head_hash s \<and> s' = s @ es \<and> (\<forall>e \<in> set es. \<forall>x \<in> set s. al_sequence x \<noteq> al_sequence e)"
    by (auto simp: mem_audit_ops_def mem_audit_append_many_def find_None_iff split: if_splits option.splits)
next
  fix es h and s :: "audit_log_entry list"
  assume "h = head_hash s" "check_links h es = None"
    "\<forall>e \<in> set es. \<forall>x \<in> set s. al_sequence x \<noteq> al_sequence e"
  moreover from this(3) have "find (\<lambda>e. \<exists>x \<in> set s. al_sequence x = al_sequence e) es = None"
    by (simp add: find_None_iff)
  ultimately show "\<exists>s'. ar_append_many mem_audit_ops es h s = (Inr (), s')"
    by (auto simp: mem_audit_ops_def mem_audit_append_many_def)
qed (auto simp: mem_audit_ops_def mem_audit_append_many_def mem_audit_find_from_def
    split: if_splits option.splits)

text \<open>A verified run is linked the way the append checks it.\<close>

lemma verified_links: "verify_chain_from sha p es = None \<Longrightarrow> check_links (link_hash p) es = None"
proof (induction es arbitrary: p)
  case (Cons e es)
  then have "check_links (link_hash (Some e)) es = None" by (auto split: if_splits)
  then show ?case using Cons.prems by (auto simp: link_hash_def split: if_splits)
qed simp

section \<open>Recording one event, and a batch\<close>

definition metadata_for :: "record_command \<Rightarrow> metadata_bag" where
  "metadata_for cmd =
     (case metadata_create (map (apsnd JStr) (or_default (rc_metadata cmd) [])) of
        Inr m \<Rightarrow> m
      | Inl e \<Rightarrow> metadata_rejected (rejection_reason_of e))"

definition default_record_attempts :: nat where
  "default_record_attempts = 3"

text \<open>
  The retry loop, \<open>n\<close> attempts left: \<open>env n\<close> is what other writers do to the store between the
  read of the head and the append of that attempt.
\<close>

fun record_attempts ::
  "'s audit_repo_ops \<Rightarrow> (string \<Rightarrow> string) \<Rightarrow> (nat \<Rightarrow> string) \<Rightarrow> (nat \<Rightarrow> int) \<Rightarrow> (nat \<Rightarrow> 's \<Rightarrow> 's) \<Rightarrow> record_command \<Rightarrow>
   nat \<Rightarrow> 's \<Rightarrow> audit_log_entry option \<times> 's" where
  "record_attempts ops sha ids now env cmd 0 s = (None, s)"
| "record_attempts ops sha ids now env cmd (Suc n) s =
     (let previous = ar_find_latest ops s
      in case entry_append sha (ids n) (now n) cmd (Some (metadata_for cmd)) previous of
           None \<Rightarrow> (None, s)
         | Some e \<Rightarrow>
             (case ar_append_many ops [e] (link_hash previous) (env n s) of
                (Inr _, s') \<Rightarrow> (Some e, s')
              | (Inl _, s') \<Rightarrow> record_attempts ops sha ids now env cmd n s'))"

definition record_execute ::
  "'s audit_repo_ops \<Rightarrow> (string \<Rightarrow> string) \<Rightarrow> (nat \<Rightarrow> string) \<Rightarrow> (nat \<Rightarrow> int) \<Rightarrow> (nat \<Rightarrow> 's \<Rightarrow> 's) \<Rightarrow> nat \<Rightarrow> record_command \<Rightarrow>
   's \<Rightarrow> audit_log_entry option \<times> 's" where
  "record_execute ops sha ids now env max_attempts cmd s = record_attempts ops sha ids now env cmd max_attempts s"

text \<open>The entries of a batch, each linked to the one before, from the head that was read.\<close>

fun link_commands ::
  "(string \<Rightarrow> string) \<Rightarrow> int \<Rightarrow> (string \<times> record_command) list \<Rightarrow> audit_log_entry option \<Rightarrow> audit_log_entry list option" where
  "link_commands sha now [] tail = Some []"
| "link_commands sha now ((fresh_id, cmd) # cmds) tail =
     (case entry_append sha fresh_id now cmd (rc_metadata cmd) tail of
        None \<Rightarrow> None
      | Some e \<Rightarrow> map_option (\<lambda>es. e # es) (link_commands sha now cmds (Some e)))"

definition record_batch ::
  "'s audit_repo_ops \<Rightarrow> (string \<Rightarrow> string) \<Rightarrow> int \<Rightarrow> ('s \<Rightarrow> 's) \<Rightarrow> (string \<times> record_command) list \<Rightarrow> 's \<Rightarrow>
   audit_log_entry list \<times> 's" where
  "record_batch ops sha now env cmds s =
     (if cmds = [] then ([], s)
      else let previous = ar_find_latest ops s
           in case link_commands sha now cmds previous of
                None \<Rightarrow> ([], s)
              | Some es \<Rightarrow>
                  (case ar_append_many ops es (link_hash previous) (env s) of
                     (Inr _, s') \<Rightarrow> (es, s')
                   | (Inl _, s') \<Rightarrow> ([], s')))"

lemma metadata_for_bounds: "bag_within_bounds (metadata_for cmd)"
  by (auto simp: metadata_for_def metadata_rejected_bounds dest: metadata_create_bounds split: sum.split)

lemma link_commands_verified:
  "link_commands sha now cmds tail = Some es \<Longrightarrow>
   verify_chain_from sha tail es = None \<and> length es = length cmds"
proof (induction cmds arbitrary: tail es)
  case (Cons c cmds)
  obtain i cmd where c: "c = (i, cmd)" by (cases c)
  with Cons.prems obtain e fs where e: "entry_append sha i now cmd (rc_metadata cmd) tail = Some e"
      "link_commands sha now cmds (Some e) = Some fs" "es = e # fs"
    by (auto split: option.splits)
  show ?case using Cons.IH [OF e(2)] entry_append_links(1-3) [OF e(1)] by (simp add: e(3) c)
qed simp

text \<open>Other writers only ever extend the chain, and keep it verifiable.\<close>

definition extends_chain :: "(string \<Rightarrow> string) \<Rightarrow> ('s \<Rightarrow> audit_log_entry list) \<Rightarrow> ('s \<Rightarrow> 's) \<Rightarrow> bool" where
  "extends_chain sha contents f \<longleftrightarrow>
     (\<forall>s. verify_chain sha (contents s) = None \<longrightarrow>
        verify_chain sha (contents (f s)) = None \<and> (\<exists>t. contents (f s) = contents s @ t))"

context audit_log_store begin

text \<open>
  An append of entries linked to an earlier head either lands on the present head or is refused:
  sequence numbers are unique in the store, so a draft made from a head that has moved finds its
  number taken.
\<close>

lemma commit_keeps_chain:
  assumes v: "verify_chain sha (contents s) = None" and s: "contents s = p @ q"
    and d: "verify_chain_from sha (last_opt p) es = None"
    and a: "ar_append_many ops es (head_hash p) s = (r, s')"
  shows "verify_chain sha (contents s') = None \<and> (\<exists>t. contents s' = contents s @ t)"
    and "r = Inr () \<Longrightarrow> contents s' = contents s @ es"
proof -
  have *: "verify_chain sha (contents s @ es) = None \<and> contents s' = contents s @ es"
    if "r = Inr ()" "es \<noteq> []"
  proof -
    from a that have ok: "contents s' = contents s @ es"
        "\<forall>e \<in> set es. \<forall>x \<in> set (contents s). al_sequence x \<noteq> al_sequence e"
      using append_lands by blast+
    have vp: "verify_chain sha p = None"
      using v unfolding s verify_chain_def verify_chain_from_append by simp
    have "q = []"
    proof (rule ccontr)
      assume "q \<noteq> []"
      then have "length p < length (contents s)" by (simp add: s)
      then have "al_sequence (contents s ! length p) = int (length p) + 1"
        by (rule verify_chain_sequence_nth [OF v])
      moreover obtain e fs where es: "es = e # fs" using \<open>es \<noteq> []\<close> by (cases es) auto
      then have "al_sequence e = int (length p) + 1"
        using d next_sequence_verified [OF vp] by (auto split: if_splits)
      ultimately show False using ok(2) es \<open>length p < length (contents s)\<close> by (metis list.set_intros(1) nth_mem)
    qed
    then show ?thesis
      using v d ok(1) by (simp add: s verify_chain_def verify_chain_from_append last_opt_last_or)
  qed
  show "verify_chain sha (contents s') = None \<and> (\<exists>t. contents s' = contents s @ t)"
  proof (cases r)
    case (Inl c)
    then have "s' = s" using a append_refused by simp
    then show ?thesis using v by simp
  next
    case (Inr u)
    show ?thesis
    proof (cases "es = []")
      case True
      then have "s' = s" using a append_empty by simp
      then show ?thesis using v by simp
    next
      case False
      then show ?thesis using * Inr by simp
    qed
  qed
  show "r = Inr () \<Longrightarrow> contents s' = contents s @ es"
    using * a append_empty by (cases "es = []") auto
qed

lemma record_attempts_step:
  assumes v: "verify_chain sha (contents s) = None" and env: "extends_chain sha contents (env n)"
    and e: "entry_append sha i now cmd md (ar_find_latest ops s) = Some e"
    and a: "ar_append_many ops [e] (link_hash (ar_find_latest ops s)) (env n s) = (r, s')"
  shows "verify_chain sha (contents s') = None" "\<exists>t. contents s' = contents s @ t"
    "r = Inr () \<Longrightarrow> last_opt (contents s') = Some e"
proof -
  from env v obtain t where t: "verify_chain sha (contents (env n s)) = None" "contents (env n s) = contents s @ t"
    unfolding extends_chain_def by blast
  have d: "verify_chain_from sha (last_opt (contents s)) [e] = None"
    using entry_append_links(8) [OF e] by (simp add: find_latest)
  have a': "ar_append_many ops [e] (head_hash (contents s)) (env n s) = (r, s')"
    using a by (simp add: find_latest head_hash_def)
  note c = commit_keeps_chain [OF t d a']
  show "verify_chain sha (contents s') = None" "\<exists>t. contents s' = contents s @ t"
    using c(1) t(2) by auto
  show "r = Inr () \<Longrightarrow> last_opt (contents s') = Some e"
    using c(2) by (simp add: last_opt_def)
qed

lemma record_attempts_spec:
  assumes "verify_chain sha (contents s) = None" "\<forall>k < n. extends_chain sha contents (env k)"
    and "record_attempts ops sha ids now env cmd n s = (r, s')"
  shows "verify_chain sha (contents s') = None \<and> (\<exists>t. contents s' = contents s @ t) \<and>
    (\<forall>e. r = Some e \<longrightarrow> last_opt (contents s') = Some e \<and> al_metadata e = metadata_for cmd \<and>
       al_action e = rc_action cmd \<and> al_actor e = rc_actor cmd \<and> al_subject e = rc_subject cmd)"
  using assms
proof (induction n arbitrary: s)
  case (Suc n)
  show ?case
  proof (cases "entry_append sha (ids n) (now n) cmd (Some (metadata_for cmd)) (ar_find_latest ops s)")
    case None
    then show ?thesis using Suc.prems by simp
  next
    case (Some e)
    obtain o' s1 where a: "ar_append_many ops [e] (link_hash (ar_find_latest ops s)) (env n s) = (o', s1)"
      by (cases "ar_append_many ops [e] (link_hash (ar_find_latest ops s)) (env n s)")
    have env: "extends_chain sha contents (env n)" using Suc.prems(2) by simp
    note st = record_attempts_step [where env = env and n = n, OF Suc.prems(1) env Some a]
    show ?thesis
    proof (cases o')
      case (Inl c)
      then have "record_attempts ops sha ids now env cmd n s1 = (r, s')"
        using Suc.prems(3) Some a by simp
      from Suc.IH [OF st(1) _ this] Suc.prems(2) st(2) show ?thesis by (auto simp: less_Suc_eq)
    next
      case (Inr u)
      then have "r = Some e" "s' = s1" using Suc.prems(3) Some a by simp_all
      then show ?thesis using st Inr entry_append_links(4-7) [OF Some] by simp
    qed
  qed
qed simp

text \<open>An attempt that no other writer disturbs lands.\<close>

lemma append_own_head:
  assumes "verify_chain sha (contents s) = None"
    and "verify_chain_from sha (last_opt (contents s)) es = None"
  shows "\<exists>s'. ar_append_many ops es (head_hash (contents s)) s = (Inr (), s')"
proof (rule append_accepts)
  show "check_links (head_hash (contents s)) es = None"
    using verified_links [OF assms(2)] by (simp add: head_hash_def)
  have "verify_chain sha (contents s @ es) = None"
    using assms by (simp add: verify_chain_def verify_chain_from_append last_opt_last_or)
  note seq = verify_chain_sequence_nth [OF this]
  show "\<forall>e \<in> set es. \<forall>x \<in> set (contents s). al_sequence x \<noteq> al_sequence e"
  proof (intro ballI)
    fix e x assume "e \<in> set es" "x \<in> set (contents s)"
    then obtain i j where "i < length es" "e = es ! i" "j < length (contents s)" "x = contents s ! j"
      by (metis in_set_conv_nth)
    then show "al_sequence x \<noteq> al_sequence e"
      using seq [of j] seq [of "length (contents s) + i"] by (simp add: nth_append)
  qed
qed simp

lemma record_attempts_undisturbed:
  assumes "verify_chain sha (contents s) = None" "env n = (\<lambda>s. s)" "rc_occurred_at cmd \<noteq> Some None"
  shows "\<exists>e. fst (record_attempts ops sha ids now env cmd (Suc n) s) = Some e"
proof -
  obtain e where e: "entry_append sha (ids n) (now n) cmd (Some (metadata_for cmd)) (ar_find_latest ops s) = Some e"
    using assms(3) by (cases "rc_occurred_at cmd") (auto simp: entry_append_def Let_def split: option.split)
  have "verify_chain_from sha (last_opt (contents s)) [e] = None"
    using entry_append_links(8) [OF e] by (simp add: find_latest)
  from append_own_head [OF assms(1) this] e show ?thesis
    by (auto simp: assms(2) find_latest head_hash_def)
qed

lemma record_batch_spec:
  assumes v: "verify_chain sha (contents s) = None" and env: "extends_chain sha contents env"
    and r: "record_batch ops sha now env cmds s = (es, s')"
  shows "verify_chain sha (contents s') = None" "\<exists>t. contents s' = contents s @ t"
    "es \<noteq> [] \<Longrightarrow> length es = length cmds \<and> (\<exists>t. contents s' = t @ es)"
proof -
  from env v obtain t where t: "verify_chain sha (contents (env s)) = None" "contents (env s) = contents s @ t"
    unfolding extends_chain_def by blast
  have "verify_chain sha (contents s') = None \<and> (\<exists>t. contents s' = contents s @ t) \<and>
    (es \<noteq> [] \<longrightarrow> length es = length cmds \<and> (\<exists>t. contents s' = t @ es))"
  proof (cases "cmds = [] \<or> link_commands sha now cmds (ar_find_latest ops s) = None")
    case True
    then have "es = [] \<and> s' = s" using r by (auto simp: record_batch_def Let_def split: if_splits)
    then show ?thesis using v by simp
  next
    case False
    then obtain fs where fs: "link_commands sha now cmds (ar_find_latest ops s) = Some fs" "cmds \<noteq> []" by auto
    obtain o' s1 where a: "ar_append_many ops fs (head_hash (contents s)) (env s) = (o', s1)"
      by (cases "ar_append_many ops fs (head_hash (contents s)) (env s)")
    have d: "verify_chain_from sha (last_opt (contents s)) fs = None"
      using link_commands_verified [OF fs(1)] by (simp add: find_latest)
    note c = commit_keeps_chain [OF t d a]
    have "s' = s1 \<and> (es = [] \<or> es = fs \<and> o' = Inr ())"
      using r fs a by (auto simp: record_batch_def find_latest head_hash_def Let_def split: sum.splits)
    then show ?thesis using c t(2) link_commands_verified [OF fs(1)] by auto
  qed
  then show "verify_chain sha (contents s') = None" "\<exists>t. contents s' = contents s @ t"
    "es \<noteq> [] \<Longrightarrow> length es = length cmds \<and> (\<exists>t. contents s' = t @ es)" by auto
qed

end

end
