(* ===== verification/AuditVerify.thy ===== *)
theory AuditVerify
  imports AuditLog
begin

text \<open>
  \<open>packages/audit/application/use-cases/verify-audit-chain.ts\<close> and \<open>anchor-audit-log.ts\<close>: the
  batched walk over the stored chain, the checks of anchor receipts against it, and the anchoring
  of the head. The loop of the walk is a \<open>partial_function\<close> on \<open>option\<close>, so that a walk that
  does not return is \<open>None\<close>; the ledger is the pair of functions \<open>hash_anchor\<close> and \<open>verifier\<close>.
  Every page is read from one state of the store.
\<close>

section \<open>The walk\<close>

definition default_verify_batch_size :: int where
  "default_verify_batch_size = 500"

definition max_verify_batch_size :: int where
  "max_verify_batch_size = 5000"

definition default_max_anchor_checks :: nat where
  "default_max_anchor_checks = 20"

record verify_command =
  vc_from :: "int option"
  vc_to :: "int option"
  vc_organization :: "string option"
  vc_batch_size :: "int option"
  vc_check_anchors :: bool
  vc_max_anchor_checks :: "nat option"

definition validate_command :: "verify_command \<Rightarrow> domain_error option" where
  "validate_command cmd =
     (let from_sequence = or_default (vc_from cmd) 1; batch_size = or_default (vc_batch_size cmd) default_verify_batch_size
      in if from_sequence < 1 then Some (ValidationError [(''fromSequence'', [''must be >= 1''])])
         else if (case vc_to cmd of None \<Rightarrow> False | Some t \<Rightarrow> t < from_sequence)
           then Some (ValidationError [(''toSequence'', [''must be >= fromSequence''])])
         else if batch_size < 1 \<or> max_verify_batch_size < batch_size
           then Some (ValidationError [(''batchSize'', [''must be between 1 and 5000''])])
         else None)"

text \<open>What the walk counts and keeps of the entries it has inspected.\<close>

record walk_tally =
  wt_checked :: nat
  wt_organization :: nat
  wt_hashes :: "(int, string) js_map"

definition inspect_entry ::
  "(string \<Rightarrow> string) \<Rightarrow> string option \<Rightarrow> int list \<Rightarrow> audit_log_entry \<Rightarrow> walk_tally \<Rightarrow> walk_tally" where
  "inspect_entry sha organization wanted e t =
     t\<lparr>wt_checked := wt_checked t + 1,
       wt_organization := wt_organization t +
         (if organization \<noteq> None \<and> map_get (al_metadata e) ''organizationId'' = organization then 1 else 0),
       wt_hashes := (if al_sequence e \<in> set wanted
                     then map_set (al_sequence e) (recomputed_hash sha e) (wt_hashes t) else wt_hashes t)\<rparr>"

definition inspected_entries :: "chain_break option \<Rightarrow> audit_log_entry list \<Rightarrow> audit_log_entry list" where
  "inspected_entries brk page =
     (case brk of None \<Rightarrow> page | Some b \<Rightarrow> filter (\<lambda>e. al_sequence e \<le> cb_sequence b) page)"

record chain_walk =
  wk_tally :: walk_tally
  wk_previous :: "audit_log_entry option"
  wk_cursor :: int
  wk_break :: "chain_break option"

definition page_limit :: "nat \<Rightarrow> int option \<Rightarrow> nat" where
  "page_limit batch_size remaining = (case remaining of None \<Rightarrow> batch_size | Some r \<Rightarrow> min batch_size (nat r))"

definition walk_page ::
  "(string \<Rightarrow> string) \<Rightarrow> string option \<Rightarrow> int list \<Rightarrow> audit_log_entry list \<Rightarrow> chain_walk \<Rightarrow> chain_walk" where
  "walk_page sha organization wanted page w =
     (let brk = verify_chain_from sha (wk_previous w) page
      in \<lparr>wk_tally = fold (inspect_entry sha organization wanted) (inspected_entries brk page) (wk_tally w),
          wk_previous = Some (last page), wk_cursor = al_sequence (last page) + 1, wk_break = brk\<rparr>)"

partial_function (option) walk_loop ::
  "'s audit_repo_ops \<Rightarrow> (string \<Rightarrow> string) \<Rightarrow> int option \<Rightarrow> nat \<Rightarrow> string option \<Rightarrow> int list \<Rightarrow> 's \<Rightarrow> chain_walk \<Rightarrow>
   chain_walk option" where
  "walk_loop ops sha to_sequence batch_size organization wanted s w =
     (if wk_break w \<noteq> None then Some w
      else let remaining = map_option (\<lambda>t. t - wk_cursor w + 1) to_sequence
           in if (case remaining of None \<Rightarrow> False | Some r \<Rightarrow> r < 1) then Some w
              else let limit = page_limit batch_size remaining; page = ar_find_from ops (wk_cursor w) limit s
                   in if page = [] then Some w
                      else if length page < limit then Some (walk_page sha organization wanted page w)
                      else walk_loop ops sha to_sequence batch_size organization wanted s
                             (walk_page sha organization wanted page w))"

definition walk_seed :: "'s audit_repo_ops \<Rightarrow> int \<Rightarrow> 's \<Rightarrow> audit_log_entry option" where
  "walk_seed ops from_sequence s =
     (if 1 < from_sequence
      then (case ar_find_from ops (from_sequence - 1) 1 s of [] \<Rightarrow> None | e # _ \<Rightarrow> Some e)
      else None)"

definition walk_start :: "'s audit_repo_ops \<Rightarrow> int \<Rightarrow> 's \<Rightarrow> chain_walk" where
  "walk_start ops from_sequence s =
     \<lparr>wk_tally = \<lparr>wt_checked = 0, wt_organization = 0, wt_hashes = []\<rparr>,
      wk_previous = walk_seed ops from_sequence s, wk_cursor = from_sequence, wk_break = None\<rparr>"

definition chain_walk_run ::
  "'s audit_repo_ops \<Rightarrow> (string \<Rightarrow> string) \<Rightarrow> int \<Rightarrow> int option \<Rightarrow> nat \<Rightarrow> string option \<Rightarrow> anchor_record list \<Rightarrow> 's \<Rightarrow>
   chain_walk option" where
  "chain_walk_run ops sha from_sequence to_sequence batch_size organization records s =
     walk_loop ops sha to_sequence batch_size organization (set_of_list (map an_sequence records)) s
       (walk_start ops from_sequence s)"

section \<open>Anchor checks and the whole verification\<close>

record anchor_check =
  ac_sequence :: int
  ac_chain_hash :: string
  ac_anchor_ref :: string
  ac_network :: string
  ac_matches_database :: "bool option"
  ac_matches_ledger :: "bool option"
  ac_ledger_error :: "string option"

definition check_anchor ::
  "(string \<Rightarrow> string \<Rightarrow> string + bool) option \<Rightarrow> (int, string) js_map \<Rightarrow> anchor_record \<Rightarrow> anchor_check" where
  "check_anchor verifier hashes r =
     (let database_hash = map_get hashes (an_sequence r);
          ledger = (case (verifier, database_hash) of
                      (Some v, Some _) \<Rightarrow> Some (v (an_chain_hash r) (an_anchor_ref r))
                    | _ \<Rightarrow> None)
      in \<lparr>ac_sequence = an_sequence r, ac_chain_hash = an_chain_hash r, ac_anchor_ref = an_anchor_ref r,
          ac_network = an_network r,
          ac_matches_database = map_option (\<lambda>h. h = an_chain_hash r) database_hash,
          ac_matches_ledger = (case ledger of Some (Inr b) \<Rightarrow> Some b | _ \<Rightarrow> None),
          ac_ledger_error = (case ledger of Some (Inl m) \<Rightarrow> Some m | _ \<Rightarrow> None)\<rparr>)"

record verify_result =
  vr_valid :: bool
  vr_from :: int
  vr_to :: "int option"
  vr_checked :: nat
  vr_organization_count :: nat
  vr_head_hash :: "string option"
  vr_first_break :: "chain_break option"
  vr_seeded :: bool
  vr_organization :: "string option"
  vr_anchor_checks :: "anchor_check list"
  vr_anchors_skipped :: bool

definition verify_execute ::
  "'s audit_repo_ops \<Rightarrow> (string \<Rightarrow> string) \<Rightarrow> anchor_record list option \<Rightarrow> (string \<Rightarrow> string \<Rightarrow> string + bool) option \<Rightarrow>
   verify_command \<Rightarrow> 's \<Rightarrow> verify_result result option" where
  "verify_execute ops sha anchors verifier cmd s =
     (case validate_command cmd of
        Some e \<Rightarrow> Some (Inl e)
      | None \<Rightarrow>
          let from_sequence = or_default (vc_from cmd) 1;
              batch_size = nat (or_default (vc_batch_size cmd) default_verify_batch_size);
              records = (case anchors of
                  Some rs \<Rightarrow> if vc_check_anchors cmd
                             then mem_anchor_find_all (or_default (vc_max_anchor_checks cmd) default_max_anchor_checks) rs
                             else []
                | None \<Rightarrow> [])
          in map_option (\<lambda>w. Inr
               \<lparr>vr_valid = (wk_break w = None), vr_from = from_sequence,
                vr_to = map_option al_sequence (wk_previous w), vr_checked = wt_checked (wk_tally w),
                vr_organization_count = wt_organization (wk_tally w),
                vr_head_hash = map_option al_hash (wk_previous w), vr_first_break = wk_break w,
                vr_seeded = (1 < from_sequence), vr_organization = vc_organization cmd,
                vr_anchor_checks = (if vc_check_anchors cmd
                  then map (check_anchor verifier (wt_hashes (wk_tally w))) records else []),
                vr_anchors_skipped = (vc_check_anchors cmd \<and> \<not> (anchors \<noteq> None \<and> verifier \<noteq> None))\<rparr>)
             (chain_walk_run ops sha from_sequence (vc_to cmd) batch_size (vc_organization cmd) records s))"

section \<open>Anchoring the head\<close>

datatype anchor_error = AnchorInvalid domain_error | AnchorFailed string

record anchor_receipt =
  rp_hash :: string
  rp_anchor_ref :: string
  rp_anchored_at :: date
  rp_network :: string

definition anchor_execute ::
  "'s audit_repo_ops \<Rightarrow> (string \<Rightarrow> string + anchor_receipt) \<Rightarrow> 's \<Rightarrow> anchor_record list \<Rightarrow>
   (anchor_error + anchor_record \<times> int) \<times> anchor_record list" where
  "anchor_execute ops hash_anchor s anchors =
     (case ar_find_latest ops s of
        None \<Rightarrow> (Inl (AnchorInvalid (ValidationError [(''auditLog'', [''empty''])])), anchors)
      | Some head \<Rightarrow>
          let previous = mem_anchor_find_latest anchors
          in if map_option an_chain_hash previous = Some (al_hash head)
             then (Inl (AnchorInvalid (ValidationError [(''auditLog'', [''already_anchored''])])), anchors)
             else (case hash_anchor (al_hash head) of
                     Inl m \<Rightarrow> (Inl (AnchorFailed m), anchors)
                   | Inr receipt \<Rightarrow>
                       let r = \<lparr>an_sequence = al_sequence head, an_chain_hash = al_hash head,
                                an_anchor_ref = rp_anchor_ref receipt, an_network = rp_network receipt,
                                an_anchored_at = rp_anchored_at receipt\<rparr>
                       in (Inr (r, al_sequence head - or_default (map_option an_sequence previous) 0),
                           mem_anchor_save r anchors)))"

section \<open>The walk checks exactly its window\<close>

lemma verify_chain_from_cases:
  "verify_chain_from sha p (xs @ ys) =
     (case verify_chain_from sha p xs of Some b \<Rightarrow> Some b | None \<Rightarrow> verify_chain_from sha (last_or p xs) ys)"
  by (induction xs arbitrary: p) (simp_all split: option.split)

lemma verify_break_sequence:
  "verify_chain_from sha p es = Some b \<Longrightarrow> cb_sequence b \<in> al_sequence ` set es"
  by (induction es arbitrary: p) (auto split: if_splits)

definition verify_window :: "int \<Rightarrow> int option \<Rightarrow> audit_log_entry list \<Rightarrow> audit_log_entry list" where
  "verify_window from_sequence to_sequence es =
     (let rest = filter (\<lambda>e. from_sequence \<le> al_sequence e) es
      in case to_sequence of None \<Rightarrow> rest | Some t \<Rightarrow> take (nat (t - from_sequence + 1)) rest)"

abbreviation ascending :: "audit_log_entry list \<Rightarrow> bool" where
  "ascending es \<equiv> sorted_wrt (<) (map al_sequence es)"

lemma inspected_entries_append:
  assumes "ascending (xs @ ys)"
  shows "cb_sequence b \<in> al_sequence ` set xs \<Longrightarrow> inspected_entries (Some b) (xs @ ys) = inspected_entries (Some b) xs"
    and "cb_sequence b \<in> al_sequence ` set ys \<Longrightarrow> inspected_entries (Some b) (xs @ ys) = xs @ inspected_entries (Some b) ys"
proof -
  have less: "al_sequence x < al_sequence y" if "x \<in> set xs" "y \<in> set ys" for x y
    using assms that by (auto simp: sorted_wrt_append)
  show "cb_sequence b \<in> al_sequence ` set xs \<Longrightarrow> inspected_entries (Some b) (xs @ ys) = inspected_entries (Some b) xs"
  proof -
    assume "cb_sequence b \<in> al_sequence ` set xs"
    then have "\<not> al_sequence y \<le> cb_sequence b" if "y \<in> set ys" for y
      using less that by (metis imageE linorder_not_less)
    then show ?thesis by (simp add: inspected_entries_def)
  qed
  show "cb_sequence b \<in> al_sequence ` set ys \<Longrightarrow> inspected_entries (Some b) (xs @ ys) = xs @ inspected_entries (Some b) ys"
  proof -
    assume "cb_sequence b \<in> al_sequence ` set ys"
    then have "al_sequence x \<le> cb_sequence b" if "x \<in> set xs" for x
      using less that by (metis imageE less_le)
    then show ?thesis by (simp add: inspected_entries_def)
  qed
qed

lemma filter_after_last:
  assumes "ascending (ps @ [x] @ d)"
  shows "filter (\<lambda>e. al_sequence x + 1 \<le> al_sequence e) (ps @ [x] @ d) = d"
proof -
  have "\<forall>e \<in> set ps. \<not> al_sequence x + 1 \<le> al_sequence e" "\<forall>e \<in> set d. al_sequence x + 1 \<le> al_sequence e"
    using assms by (auto simp: sorted_wrt_append)
  then have "filter (\<lambda>e. al_sequence x + 1 \<le> al_sequence e) ps = []"
    "filter (\<lambda>e. al_sequence x + 1 \<le> al_sequence e) d = d"
    unfolding filter_empty_conv filter_id_conv .
  then show ?thesis by simp
qed

lemma filter_after_page:
  assumes asc: "ascending es" and c: "c \<le> al_sequence x"
    and page: "page = take l (filter (\<lambda>e. c \<le> al_sequence e) es)" "page \<noteq> []" "x = last page"
  shows "filter (\<lambda>e. al_sequence x + 1 \<le> al_sequence e) es = drop l (filter (\<lambda>e. c \<le> al_sequence e) es)"
proof -
  define rest where "rest = filter (\<lambda>e. c \<le> al_sequence e) es"
  have "page = butlast page @ [x]" using page(2,3) by simp
  moreover have "rest = page @ drop l rest" unfolding page(1) rest_def append_take_drop_id ..
  ultimately have rest: "rest = butlast page @ [x] @ drop l rest" by (metis append.assoc)
  have "ascending rest" unfolding rest_def using asc by (simp add: sorted_wrt_map sorted_wrt_filter)
  then have "ascending (butlast page @ [x] @ drop l rest)" unfolding rest [symmetric] .
  from filter_after_last [OF this] have "filter (\<lambda>e. al_sequence x + 1 \<le> al_sequence e) rest = drop l rest"
    unfolding rest [symmetric] .
  moreover have "filter (\<lambda>e. al_sequence x + 1 \<le> al_sequence e) rest = filter (\<lambda>e. al_sequence x + 1 \<le> al_sequence e) es"
    unfolding rest_def filter_filter by (rule filter_cong) (use c in auto)
  ultimately show ?thesis by (simp only: rest_def)
qed

context audit_log_store begin

lemma walk_loop_spec:
  assumes "ascending (contents s)" "0 < batch_size" "wk_break w = None"
    and "\<And>e. e \<in> set (take 1 (filter (\<lambda>e. wk_cursor w \<le> al_sequence e) (contents s))) \<Longrightarrow>
      verify_chain_from sha (wk_previous w) [e] = None \<Longrightarrow> next_sequence (wk_previous w) = wk_cursor w"
  shows "\<exists>w'. walk_loop ops sha to_sequence batch_size organization wanted s w = Some w' \<and>
    wk_break w' = verify_chain_from sha (wk_previous w) (verify_window (wk_cursor w) to_sequence (contents s)) \<and>
    wk_tally w' = fold (inspect_entry sha organization wanted)
      (inspected_entries (wk_break w') (verify_window (wk_cursor w) to_sequence (contents s))) (wk_tally w)"
  using assms
proof (induction "length (filter (\<lambda>e. wk_cursor w \<le> al_sequence e) (contents s))" arbitrary: w rule: less_induct)
  case less
  let ?rest = "filter (\<lambda>e. wk_cursor w \<le> al_sequence e) (contents s)"
  let ?W = "verify_window (wk_cursor w) to_sequence (contents s)"
  define remaining where "remaining = map_option (\<lambda>t. t - wk_cursor w + 1) to_sequence"
  define limit where "limit = page_limit batch_size remaining"
  define page where "page = take limit ?rest"
  have read: "ar_find_from ops (wk_cursor w) limit s = page" by (simp add: find_from page_def)
  have loop: "walk_loop ops sha to_sequence batch_size organization wanted s w =
      (if (case remaining of None \<Rightarrow> False | Some r \<Rightarrow> r < 1) then Some w
       else if page = [] then Some w
       else if length page < limit then Some (walk_page sha organization wanted page w)
       else walk_loop ops sha to_sequence batch_size organization wanted s (walk_page sha organization wanted page w))"
    by (subst walk_loop.simps) (simp add: less.prems(3) remaining_def [symmetric] limit_def [symmetric] Let_def read)
  have W: "?W = (case remaining of None \<Rightarrow> ?rest | Some r \<Rightarrow> take (nat r) ?rest)"
    by (simp add: verify_window_def remaining_def Let_def split: option.split)
  show ?case
  proof (cases "(case remaining of None \<Rightarrow> False | Some r \<Rightarrow> r < 1) \<or> page = []")
    case True
    then have "?W = []"
    proof
      assume "case remaining of None \<Rightarrow> False | Some r \<Rightarrow> r < 1"
      then show ?thesis by (auto simp: W split: option.splits)
    next
      assume "page = []"
      moreover have "0 < limit \<or> (case remaining of None \<Rightarrow> False | Some r \<Rightarrow> r < 1)"
        using less.prems(2) by (auto simp: limit_def page_limit_def split: option.split)
      ultimately have "?rest = [] \<or> (case remaining of None \<Rightarrow> False | Some r \<Rightarrow> r < 1)" by (auto simp: page_def)
      then show ?thesis unfolding W by (elim disjE) (auto split: option.splits)
    qed
    with True loop show ?thesis using less.prems(3) by (auto simp: inspected_entries_def)
  next
    case False
    then have r: "\<not> (case remaining of None \<Rightarrow> False | Some r \<Rightarrow> r < 1)" "page \<noteq> []" by auto
    have pW: "page = take limit ?W"
      by (auto simp: page_def limit_def W page_limit_def min_def split: option.split)
    have ascW: "ascending ?W"
    proof -
      have "ascending ?rest" using less.prems(1) by (simp add: sorted_wrt_map sorted_wrt_filter)
      then show ?thesis unfolding W by (auto simp: take_map [symmetric] sorted_wrt_take split: option.split)
    qed
    define D where "D = drop limit ?W"
    have Wsplit: "?W = page @ D" unfolding D_def pW append_take_drop_id ..
    then have ascPD: "ascending (page @ D)" using ascW by simp
    show ?thesis
    proof (cases "verify_chain_from sha (wk_previous w) page")
      case (Some b)
      have brk: "wk_break (walk_page sha organization wanted page w) = Some b"
        by (simp add: walk_page_def Let_def Some)
      then have "walk_loop ops sha to_sequence batch_size organization wanted s w =
          Some (walk_page sha organization wanted page w)"
        using loop r by (simp add: walk_loop.simps [of _ _ _ _ _ _ _ "walk_page sha organization wanted page w"])
      moreover have vW: "verify_chain_from sha (wk_previous w) ?W = Some b"
        unfolding Wsplit by (simp add: verify_chain_from_cases Some)
      moreover have "inspected_entries (Some b) ?W = inspected_entries (Some b) page"
        unfolding Wsplit by (rule inspected_entries_append(1) [OF ascPD verify_break_sequence [OF Some]])
      ultimately show ?thesis by (simp add: walk_page_def Let_def Some)
    next
      case None
      show ?thesis
      proof (cases "length page < limit")
        case True
        moreover have "length page = min (length ?W) limit" by (subst pW) simp
        ultimately have "D = []" by (simp add: D_def)
        then have "?W = page" using Wsplit by simp
        then show ?thesis
          using loop r True None by (simp add: walk_page_def Let_def inspected_entries_def)
      next
        case False
        define w1 where "w1 = walk_page sha organization wanted page w"
        define x where "x = last page"
        have w1: "wk_break w1 = None" "wk_cursor w1 = al_sequence x + 1" "wk_previous w1 = Some x"
          "wk_tally w1 = fold (inspect_entry sha organization wanted) page (wk_tally w)"
          by (simp_all add: w1_def walk_page_def Let_def None x_def inspected_entries_def)
        have xp: "x \<in> set page" using r(2) by (simp add: x_def)
        then have "x \<in> set ?rest" unfolding page_def by (rule in_set_takeD)
        then have cx: "wk_cursor w \<le> al_sequence x" by simp
        have rest1: "filter (\<lambda>e. wk_cursor w1 \<le> al_sequence e) (contents s) = drop limit ?rest"
          unfolding w1 by (rule filter_after_page [OF less.prems(1) cx page_def r(2) x_def])
        have len: "length page = limit" using False by (simp add: page_def)
        have "0 < limit" using r(2) len by auto
        then have small: "length (filter (\<lambda>e. wk_cursor w1 \<le> al_sequence e) (contents s)) < length ?rest"
          unfolding rest1 using r(2) by (auto simp: page_def)
        have next_w: "next_sequence (wk_previous w) = wk_cursor w"
        proof -
          obtain e es where e: "page = e # es" using r(2) by (cases page) auto
          then have "e \<in> set (take 1 ?rest)" unfolding page_def by (cases ?rest; cases limit) auto
          moreover have "verify_chain_from sha (wk_previous w) [e] = None" using None e by (auto split: if_splits)
          ultimately show ?thesis by (rule less.prems(4))
        qed
        have "al_sequence x = wk_cursor w + int limit - 1"
        proof -
          have "map al_sequence page ! (limit - 1) = wk_cursor w + int (limit - 1)"
            unfolding verify_chain_from_sequences [OF None] using len \<open>0 < limit\<close> next_w by simp
          then show ?thesis using len r(2) \<open>0 < limit\<close> by (simp add: x_def last_conv_nth of_nat_diff)
        qed
        then have cut: "nat (t - wk_cursor w1 + 1) = nat (t - wk_cursor w + 1) - limit" for t
          unfolding w1(2) by linarith
        have W1: "verify_window (wk_cursor w1) to_sequence (contents s) = D"
          unfolding D_def verify_window_def Let_def rest1
          by (cases to_sequence) (simp_all only: option.case cut drop_take)
        obtain w' where w': "walk_loop ops sha to_sequence batch_size organization wanted s w1 = Some w'"
            "wk_break w' = verify_chain_from sha (Some x) D"
            "wk_tally w' = fold (inspect_entry sha organization wanted)
               (inspected_entries (wk_break w') D) (wk_tally w1)"
          using less.hyps [OF small less.prems(1,2) w1(1)] unfolding w1(3) W1 by (auto simp: next_sequence_def w1(2))
        have vW: "verify_chain_from sha (wk_previous w) ?W = wk_break w'"
          unfolding Wsplit by (simp add: verify_chain_from_cases None w'(2) last_or_def r(2) x_def)
        have iW: "inspected_entries (wk_break w') ?W = page @ inspected_entries (wk_break w') D"
        proof (cases "wk_break w'")
          case None
          then show ?thesis using Wsplit by (simp add: inspected_entries_def)
        next
          case (Some b)
          have "verify_chain_from sha (Some x) D = Some b" using w'(2) Some by simp
          then show ?thesis unfolding Some Wsplit
            by (intro inspected_entries_append(2) [OF ascPD] verify_break_sequence)
        qed
        have "walk_loop ops sha to_sequence batch_size organization wanted s w = Some w'"
          using loop r False w'(1) by (simp add: w1_def)
        then show ?thesis using vW iW w'(3) by (simp add: w1(4))
      qed
    qed
  qed
qed

end

context audit_log_store begin

lemma walk_seed_links:
  assumes "1 \<le> from_sequence" and e: "e \<in> set (take 1 (filter (\<lambda>e. from_sequence \<le> al_sequence e) (contents s)))"
    and v: "verify_chain_from sha (walk_seed ops from_sequence s) [e] = None"
  shows "next_sequence (walk_seed ops from_sequence s) = from_sequence"
proof (cases "1 < from_sequence")
  case False
  then show ?thesis using assms(1) by (simp add: walk_seed_def next_sequence_def)
next
  case True
  let ?before = "filter (\<lambda>e. from_sequence - 1 \<le> al_sequence e) (contents s)"
  have rest: "filter (\<lambda>e. from_sequence \<le> al_sequence e) (contents s) = filter (\<lambda>e. from_sequence \<le> al_sequence e) ?before"
    unfolding filter_filter by (rule filter_cong) auto
  have "e \<in> set ?before" using in_set_takeD [OF e] by auto
  then obtain d ds where d: "?before = d # ds" by (cases ?before) auto
  then have seed: "walk_seed ops from_sequence s = Some d"
    using True by (simp add: walk_seed_def find_from)
  then have "al_sequence e = al_sequence d + 1" using v by (auto simp: next_sequence_def split: if_splits)
  moreover have "e = d" if "from_sequence \<le> al_sequence d"
    using e that unfolding rest d by simp
  moreover have "d \<in> set ?before" using d by simp
  then have "from_sequence - 1 \<le> al_sequence d" by simp
  ultimately show ?thesis unfolding seed next_sequence_def by fastforce
qed

lemma chain_walk_run_spec:
  assumes "ascending (contents s)" "1 \<le> from_sequence" "0 < batch_size"
  shows "\<exists>w. chain_walk_run ops sha from_sequence to_sequence batch_size organization records s = Some w \<and>
    wk_break w = verify_chain_from sha (walk_seed ops from_sequence s)
      (verify_window from_sequence to_sequence (contents s)) \<and>
    wk_tally w = fold (inspect_entry sha organization (set_of_list (map an_sequence records)))
      (inspected_entries (wk_break w) (verify_window from_sequence to_sequence (contents s)))
      \<lparr>wt_checked = 0, wt_organization = 0, wt_hashes = []\<rparr>"
proof -
  let ?w = "walk_start ops from_sequence s"
  have w: "wk_break ?w = None" "wk_previous ?w = walk_seed ops from_sequence s" "wk_cursor ?w = from_sequence"
    "wk_tally ?w = \<lparr>wt_checked = 0, wt_organization = 0, wt_hashes = []\<rparr>"
    by (simp_all add: walk_start_def)
  have "\<exists>w'. walk_loop ops sha to_sequence batch_size organization (set_of_list (map an_sequence records)) s ?w = Some w' \<and>
    wk_break w' = verify_chain_from sha (wk_previous ?w) (verify_window (wk_cursor ?w) to_sequence (contents s)) \<and>
    wk_tally w' = fold (inspect_entry sha organization (set_of_list (map an_sequence records)))
      (inspected_entries (wk_break w') (verify_window (wk_cursor ?w) to_sequence (contents s))) (wk_tally ?w)"
    by (rule walk_loop_spec [OF assms(1,3) w(1)]) (use walk_seed_links [OF assms(2)] in \<open>auto simp: w\<close>)
  then show ?thesis unfolding chain_walk_run_def w .
qed

end

lemma fold_inspect_checked:
  "wt_checked (fold (inspect_entry sha organization wanted) es t) = wt_checked t + length es"
  by (induction es arbitrary: t) (simp_all add: inspect_entry_def)

lemma fold_inspect_hashes:
  "map_get (wt_hashes (fold (inspect_entry sha organization wanted) es t)) k = Some h \<Longrightarrow>
   map_get (wt_hashes t) k = Some h \<or> (\<exists>e \<in> set es. al_sequence e = k \<and> recomputed_hash sha e = h)"
proof (induction es arbitrary: t)
  case (Cons e es)
  from Cons.IH [of "inspect_entry sha organization wanted e t"] Cons.prems show ?case
    by (auto simp: inspect_entry_def split: if_splits)
qed simp

section \<open>From a hash to a prefix\<close>

lemma verify_whole_window: "\<forall>e \<in> set es. 1 \<le> al_sequence e \<Longrightarrow> verify_window 1 None es = es"
  by (simp add: verify_window_def Let_def filter_id_conv)

lemma verified_prefix_of_anchor:
  assumes xs: "verify_chain sha xs = None" "xs \<noteq> []" and ys: "verify_chain sha ys = None"
    and e: "e \<in> set ys" "recomputed_hash sha e = al_hash (last xs)"
    and inj: "inj_on sha (canonicalize ` (set xs \<union> set ys))"
  shows "map hashed_content xs = map hashed_content (take (length xs) ys)"
proof -
  obtain p q where split: "ys = (p @ [e]) @ q" using e(1) by (metis append.assoc append_Cons append_Nil split_list)
  then have v: "verify_chain sha (p @ [e]) = None"
    using ys unfolding verify_chain_def by (simp only: verify_chain_from_append)
  then have "al_hash e = recomputed_hash sha e"
    by (simp only: verify_chain_snoc recomputed_hash_def compute_hash_def)
  then have "al_hash (last xs) = al_hash (last (p @ [e]))" using e(2) by simp
  moreover have "inj_on sha (canonicalize ` (set xs \<union> set (p @ [e])))"
    using inj by (rule inj_on_subset) (auto simp: split)
  ultimately have same: "map hashed_content xs = map hashed_content (p @ [e])"
    using same_head_same_chain [OF xs(1) v xs(2)] by simp
  then have "length xs = length (p @ [e])" by (metis length_map)
  then show ?thesis using same by (simp add: split)
qed

end
