(* ===== verification/AuditRuns.thy ===== *)
theory AuditRuns
  imports AuditVerify
begin

text \<open>
  What the audit log guarantees over time: entries recorded by any interleaving of writers, the
  commitment of an anchored head to the whole history before it, and concrete runs that witness
  the properties of the audit theories.
\<close>

section \<open>Concurrent writers\<close>

text \<open>
  A writer reads the head and links its draft to it (\<open>read\<close>), and appends the draft later with the
  head it read as the expected one (\<open>commit\<close>); between the two any other writer may act. The drafts
  of \<open>RecordAuditEvent\<close> hold one entry, those of \<open>recordAuditEventBatch\<close> and of the queue a batch.
\<close>

record audit_system =
  as_chain :: "audit_log_entry list"
  as_drafts :: "(nat, audit_log_entry list \<times> string) js_map"

definition draft_execute ::
  "(string \<Rightarrow> string) \<Rightarrow> nat \<Rightarrow> string \<Rightarrow> int \<Rightarrow> record_command \<Rightarrow> audit_system \<Rightarrow> audit_system" where
  "draft_execute sha writer fresh_id now cmd st =
     (let previous = last_opt (as_chain st)
      in case entry_append sha fresh_id now cmd (Some (metadata_for cmd)) previous of
           None \<Rightarrow> st
         | Some e \<Rightarrow> st\<lparr>as_drafts := map_set writer ([e], link_hash previous) (as_drafts st)\<rparr>)"

definition draft_batch ::
  "(string \<Rightarrow> string) \<Rightarrow> nat \<Rightarrow> int \<Rightarrow> (string \<times> record_command) list \<Rightarrow> audit_system \<Rightarrow> audit_system" where
  "draft_batch sha writer now cmds st =
     (let previous = last_opt (as_chain st)
      in case link_commands sha now cmds previous of
           None \<Rightarrow> st
         | Some es \<Rightarrow> st\<lparr>as_drafts := map_set writer (es, link_hash previous) (as_drafts st)\<rparr>)"

definition commit_draft :: "nat \<Rightarrow> audit_system \<Rightarrow> audit_system" where
  "commit_draft writer st =
     (case map_get (as_drafts st) writer of
        None \<Rightarrow> st
      | Some (es, expected) \<Rightarrow>
          st\<lparr>as_chain := snd (mem_audit_append_many es expected (as_chain st)),
             as_drafts := map_delete writer (as_drafts st)\<rparr>)"

inductive audit_step :: "(string \<Rightarrow> string) \<Rightarrow> audit_system \<Rightarrow> audit_system \<Rightarrow> bool" for sha where
  read_one: "audit_step sha st (draft_execute sha writer fresh_id now cmd st)"
| read_batch: "audit_step sha st (draft_batch sha writer now cmds st)"
| commit: "audit_step sha st (commit_draft writer st)"

inductive audit_steps :: "(string \<Rightarrow> string) \<Rightarrow> audit_system \<Rightarrow> audit_system \<Rightarrow> bool" for sha where
  none: "audit_steps sha st st"
| more: "audit_steps sha st st' \<Longrightarrow> audit_step sha st' st'' \<Longrightarrow> audit_steps sha st st''"

definition empty_audit_system :: audit_system where
  "empty_audit_system = \<lparr>as_chain = [], as_drafts = []\<rparr>"

text \<open>Every draft hangs on some earlier head of the chain.\<close>

definition audit_inv :: "(string \<Rightarrow> string) \<Rightarrow> audit_system \<Rightarrow> bool" where
  "audit_inv sha st \<longleftrightarrow> verify_chain sha (as_chain st) = None \<and>
     (\<forall>writer es expected. map_get (as_drafts st) writer = Some (es, expected) \<longrightarrow>
        (\<exists>p q. as_chain st = p @ q \<and> expected = head_hash p \<and> verify_chain_from sha (last_opt p) es = None))"

lemma audit_inv_draft:
  assumes "audit_inv sha st" "verify_chain_from sha (last_opt (as_chain st)) es = None"
  shows "audit_inv sha (st\<lparr>as_drafts := map_set writer (es, link_hash (last_opt (as_chain st))) (as_drafts st)\<rparr>)"
  unfolding audit_inv_def
proof (intro conjI allI impI)
  show "verify_chain sha (as_chain (st\<lparr>as_drafts := map_set writer (es, link_hash (last_opt (as_chain st))) (as_drafts st)\<rparr>)) = None"
    using assms(1) by (simp add: audit_inv_def)
next
  fix w fs expected
  assume "map_get (as_drafts (st\<lparr>as_drafts := map_set writer (es, link_hash (last_opt (as_chain st))) (as_drafts st)\<rparr>)) w = Some (fs, expected)"
  then have "w = writer \<and> fs = es \<and> expected = head_hash (as_chain st) \<or> map_get (as_drafts st) w = Some (fs, expected)"
    by (auto simp: head_hash_def split: if_splits)
  then show "\<exists>p q. as_chain (st\<lparr>as_drafts := map_set writer (es, link_hash (last_opt (as_chain st))) (as_drafts st)\<rparr>) = p @ q \<and>
      expected = head_hash p \<and> verify_chain_from sha (last_opt p) fs = None"
  proof
    assume "w = writer \<and> fs = es \<and> expected = head_hash (as_chain st)"
    then show ?thesis using assms(2) by (intro exI [of _ "as_chain st"] exI [of _ "[]"]) simp
  next
    assume "map_get (as_drafts st) w = Some (fs, expected)"
    then show ?thesis using assms(1) by (simp add: audit_inv_def)
  qed
qed

lemma audit_inv_commit:
  assumes inv: "audit_inv sha st"
  shows "audit_inv sha (commit_draft writer st) \<and> (\<exists>t. as_chain (commit_draft writer st) = as_chain st @ t)"
proof (cases "map_get (as_drafts st) writer")
  case None
  then show ?thesis using inv by (simp add: commit_draft_def)
next
  case (Some d)
  obtain es expected where d: "d = (es, expected)" by (cases d)
  obtain p q where pq: "as_chain st = p @ q" "expected = head_hash p" "verify_chain_from sha (last_opt p) es = None"
    using inv Some d unfolding audit_inv_def by blast
  obtain r c where a: "mem_audit_append_many es (head_hash p) (as_chain st) = (r, c)"
    by (cases "mem_audit_append_many es (head_hash p) (as_chain st)")
  have v: "verify_chain sha (as_chain st) = None" using inv by (simp add: audit_inv_def)
  have "ar_append_many mem_audit_ops es (head_hash p) (as_chain st) = (r, c)"
    using a by (simp add: mem_audit_ops_def)
  from mem_audit.commit_keeps_chain(1) [OF v pq(1,3) this]
  obtain t where c: "verify_chain sha c = None" "c = as_chain st @ t" by blast
  have run: "commit_draft writer st = st\<lparr>as_chain := c, as_drafts := map_delete writer (as_drafts st)\<rparr>"
    using Some a pq(2) by (simp add: commit_draft_def d)
  have "\<exists>p' q'. c = p' @ q' \<and> h = head_hash p' \<and> verify_chain_from sha (last_opt p') fs = None"
    if g: "map_get (as_drafts st) w = Some (fs, h)" for w fs h
  proof -
    obtain p' q' where "as_chain st = p' @ q'" "h = head_hash p'" "verify_chain_from sha (last_opt p') fs = None"
      using inv g unfolding audit_inv_def by blast
    then show ?thesis using c(2) by (intro exI [of _ p'] exI [of _ "q' @ t"]) simp
  qed
  then show ?thesis unfolding run audit_inv_def using c by auto
qed

lemma audit_inv_step: "audit_step sha st st' \<Longrightarrow> audit_inv sha st \<Longrightarrow>
  audit_inv sha st' \<and> (\<exists>t. as_chain st' = as_chain st @ t)"
proof (induction rule: audit_step.induct)
  case (read_one st writer fresh_id now cmd)
  then show ?case
    by (auto simp: draft_execute_def Let_def entry_append_links(1-3) intro!: audit_inv_draft split: option.split)
next
  case (read_batch st writer now cmds)
  then show ?case
    by (auto simp: draft_batch_def Let_def link_commands_verified intro!: audit_inv_draft split: option.split)
next
  case (commit st writer)
  then show ?case by (rule audit_inv_commit)
qed

lemma audit_inv_steps: "audit_steps sha st st' \<Longrightarrow> audit_inv sha st \<Longrightarrow>
  audit_inv sha st' \<and> (\<exists>t. as_chain st' = as_chain st @ t)"
proof (induction rule: audit_steps.induct)
  case (more st st' st'')
  then show ?case using audit_inv_step [OF more.hyps(2)] by (metis append.assoc)
qed simp

lemma audit_inv_empty: "audit_inv sha empty_audit_system"
  by (simp add: audit_inv_def empty_audit_system_def verify_chain_def)

text \<open>
  C14: Concurrent writers never fork the log: from the empty log, whatever the interleaving of head
  reads, single appends and batch appends of any number of writers, the chain verifies from
  genesis, its entries are numbered 1, 2, 3, ... without a gap, and nothing appended is ever changed.
\<close>

theorem concurrent_appends_never_fork:
  assumes "audit_steps sha empty_audit_system st" "audit_steps sha st st'"
  shows "verify_chain sha (as_chain st) = None \<and>
    map al_sequence (as_chain st) = map (\<lambda>i. int i + 1) [0..<length (as_chain st)] \<and>
    (\<exists>t. as_chain st' = as_chain st @ t)"
proof -
  have inv: "audit_inv sha st" using audit_inv_steps [OF assms(1) audit_inv_empty] by blast
  then have v: "verify_chain_from sha None (as_chain st) = None"
    by (simp add: audit_inv_def verify_chain_def)
  have "map al_sequence (as_chain st) = map (\<lambda>i. int i + 1) [0..<length (as_chain st)]"
    using verify_chain_from_sequences [OF v] by (simp add: next_sequence_def add.commute)
  then show ?thesis using v audit_inv_steps [OF assms(2) inv] by (simp add: verify_chain_def)
qed

section \<open>Recording\<close>

text \<open>
  What recording one event does, however other writers move the head during its attempts: the
  chain still verifies and has only grown; when an entry is returned it is the new head and carries
  the command's action, actor and subject with a bag of at most 32 fields of bounded size; and an
  attempt that nobody disturbs, for a valid date, succeeds.
\<close>

theorem record_execute_bounded:
  assumes "verify_chain sha es = None" "\<forall>k < attempts. extends_chain sha (\<lambda>c. c) (env k)"
    and "record_execute mem_audit_ops sha ids now env attempts cmd es = (r, es')"
  shows "verify_chain sha es' = None \<and> (\<exists>t. es' = es @ t) \<and>
    (\<forall>e. r = Some e \<longrightarrow> last_opt es' = Some e \<and> al_action e = rc_action cmd \<and> al_actor e = rc_actor cmd \<and>
       al_subject e = rc_subject cmd \<and> length (al_metadata e) \<le> 32 \<and>
       (\<forall>(k, v) \<in> set (al_metadata e). 1 \<le> length k \<and> length k \<le> 64 \<and> length v \<le> 1024)) \<and>
    (0 < attempts \<longrightarrow> env (attempts - 1) = (\<lambda>c. c) \<longrightarrow> rc_occurred_at cmd \<noteq> Some None \<longrightarrow> (\<exists>e. r = Some e))"
proof -
  have run: "record_attempts mem_audit_ops sha ids now env cmd attempts es = (r, es')"
    using assms(3) by (simp add: record_execute_def)
  note spec = mem_audit.record_attempts_spec [OF assms(1,2) run]
  have bounds: "length (metadata_for cmd) \<le> 32 \<and>
      (\<forall>(k, v) \<in> set (metadata_for cmd). 1 \<le> length k \<and> length k \<le> 64 \<and> length v \<le> 1024)"
    using metadata_for_bounds [of cmd]
    by (auto simp: bag_within_bounds_def max_metadata_entries_def max_metadata_key_length_def
        max_metadata_value_length_def Suc_le_eq)
  have "\<exists>e. r = Some e" if "0 < attempts" "env (attempts - 1) = (\<lambda>c. c)" "rc_occurred_at cmd \<noteq> Some None"
  proof -
    define n where "n = attempts - 1"
    then have n: "attempts = Suc n" using that(1) by simp
    have "env n = (\<lambda>c. c)" using that(2) n by simp
    from mem_audit.record_attempts_undisturbed [where n = n and env = env, OF assms(1) this that(3)] run
    show ?thesis unfolding n by (metis fst_conv)
  qed
  then show ?thesis using spec bounds by auto
qed

section \<open>Batched verification\<close>

text \<open>
  C16: Batched verification is the one-pass check: on any store that yields its entries by ascending
  sequence, whatever the page size, the loop of \<^emph>\<open>VerifyAuditChain\<close> returns, finds the
  first break that \<^emph>\<open>verifyChainFrom\<close> finds on the requested window seeded with the entry
  before it, and tallies exactly the entries up to that break.
\<close>

theorem batched_walk_equals_one_pass:
  assumes "sorted_wrt (<) (map al_sequence es)" "1 \<le> from_sequence" "0 < batch_size"
  shows "\<exists>w. chain_walk_run mem_audit_ops sha from_sequence to_sequence batch_size organization records es = Some w \<and>
    wk_break w = verify_chain_from sha (walk_seed mem_audit_ops from_sequence es)
      (verify_window from_sequence to_sequence es) \<and>
    wk_tally w = fold (inspect_entry sha organization (set_of_list (map an_sequence records)))
      (inspected_entries (wk_break w) (verify_window from_sequence to_sequence es))
      \<lparr>wt_checked = 0, wt_organization = 0, wt_hashes = []\<rparr>"
  by (rule mem_audit.chain_walk_run_spec [OF assms])

section \<open>Anchored history\<close>

lemma anchor_execute_Inr:
  assumes "anchor_execute mem_audit_ops hash_anchor xs anchors = (Inr (r, covered), anchors')"
  shows "xs \<noteq> []" "an_chain_hash r = al_hash (last xs)" "an_sequence r = al_sequence (last xs)" "anchors' = anchors @ [r]"
  using assms
  by (auto simp: anchor_execute_def mem_audit_ops_def last_opt_def mem_anchor_save_def Let_def split: if_splits sum.splits)

text \<open>
  C15: Anchoring fixes the past: once the head of a verified log was anchored, a later verification
  from the first entry that answers \<open>valid\<close> and finds the receipt's hash in the database proves that
  every entry up to the anchored head still records what it did then, provided SHA-256 does not
  collide on the entries at hand.
\<close>

theorem anchored_history_immutable:
  assumes "verify_chain sha xs = None" "anchor_execute mem_audit_ops hash_anchor xs anchors = (Inr (r, covered), anchors')"
    and "verify_execute mem_audit_ops sha (Some receipts) verifier cmd ys = Some (Inr res)" "vc_from cmd = None"
    and "vr_valid res" "c \<in> set (vr_anchor_checks res)" "ac_chain_hash c = an_chain_hash r" "ac_matches_database c = Some True"
    and "sorted_wrt (<) (map al_sequence ys)" "inj_on sha (canonicalize ` (set xs \<union> set ys))"
  shows "map hashed_content xs = map hashed_content (take (length xs) (filter (\<lambda>e. 1 \<le> al_sequence e) ys))"
proof -
  note anchored = anchor_execute_Inr [OF assms(2)]
  define records where "records = (if vc_check_anchors cmd
    then mem_anchor_find_all (or_default (vc_max_anchor_checks cmd) default_max_anchor_checks) receipts else [])"
  define batch_size where "batch_size = nat (or_default (vc_batch_size cmd) default_verify_batch_size)"
  have cmd: "validate_command cmd = None"
    using assms(3) by (auto simp: verify_execute_def split: option.splits)
  then have batch: "0 < batch_size"
    by (auto simp: validate_command_def Let_def batch_size_def assms(4) split: if_splits)
  let ?W = "verify_window 1 (vc_to cmd) ys"
  obtain w where w: "chain_walk_run mem_audit_ops sha 1 (vc_to cmd) batch_size (vc_organization cmd) records ys = Some w"
      "wk_break w = verify_chain_from sha (walk_seed mem_audit_ops 1 ys) ?W"
      "wk_tally w = fold (inspect_entry sha (vc_organization cmd) (set_of_list (map an_sequence records)))
         (inspected_entries (wk_break w) ?W) \<lparr>wt_checked = 0, wt_organization = 0, wt_hashes = []\<rparr>"
    using mem_audit.chain_walk_run_spec [OF assms(9) order_refl batch] by blast
  have res: "vr_valid res \<longleftrightarrow> wk_break w = None"
    "vr_anchor_checks res = (if vc_check_anchors cmd then map (check_anchor verifier (wt_hashes (wk_tally w))) records else [])"
    using assms(3) cmd w(1) unfolding verify_execute_def
    by (auto simp: assms(4) Let_def batch_size_def [symmetric] records_def [symmetric])
  have v: "verify_chain sha ?W = None"
    using w(2) assms(5) res(1) by (simp add: verify_chain_def walk_seed_def)
  obtain k h where "map_get (wt_hashes (wk_tally w)) k = Some h" "h = ac_chain_hash c"
    using assms(6,8) res(2) by (auto simp: check_anchor_def Let_def split: if_splits)
  then obtain e where e: "e \<in> set ?W" "recomputed_hash sha e = al_hash (last xs)"
    using fold_inspect_hashes [of sha "vc_organization cmd" "set_of_list (map an_sequence records)"
        "inspected_entries (wk_break w) ?W" "\<lparr>wt_checked = 0, wt_organization = 0, wt_hashes = []\<rparr>" k h]
      assms(5,7) res(1) anchored(2)
    unfolding w(3) by (auto simp: inspected_entries_def)
  have sub: "set ?W \<subseteq> set ys"
    by (auto simp: verify_window_def Let_def split: option.splits dest: in_set_takeD)
  have "map hashed_content xs = map hashed_content (take (length xs) ?W)"
    by (rule verified_prefix_of_anchor [OF assms(1) anchored(1) v e])
      (use assms(10) sub in \<open>auto intro: inj_on_subset\<close>)
  moreover from this have "length xs \<le> length ?W" by (metis length_map length_take min.cobounded1)
  then have "take (length xs) ?W = take (length xs) (filter (\<lambda>e. 1 \<le> al_sequence e) ys)"
    by (auto simp: verify_window_def Let_def min.absorb1 split: option.splits)
  ultimately show ?thesis by simp
qed

text \<open>Conversely, a log that was only extended since passes its anchor checks.\<close>

lemma verified_ascending:
  assumes "verify_chain sha es = None"
  shows "ascending es" "\<forall>e \<in> set es. 1 \<le> al_sequence e"
proof -
  have "map al_sequence es = map (\<lambda>i. next_sequence None + int i) [0..<length es]"
    using verify_chain_from_sequences [of sha None es] assms by (simp add: verify_chain_def)
  then have m: "map al_sequence es = map (\<lambda>i. 1 + int i) [0..<length es]" by (simp add: next_sequence_def)
  show "ascending es" unfolding m by (simp add: sorted_wrt_map)
  have "1 \<le> x" if "x \<in> set (map al_sequence es)" for x using that unfolding m by auto
  then show "\<forall>e \<in> set es. 1 \<le> al_sequence e" by simp
qed

lemma fold_inspect_hashes_found:
  "ascending es \<Longrightarrow> e \<in> set es \<Longrightarrow> al_sequence e \<in> set wanted \<Longrightarrow>
   map_get (wt_hashes (fold (inspect_entry sha organization wanted) es t)) (al_sequence e) = Some (recomputed_hash sha e)"
proof (induction es arbitrary: t rule: rev_induct)
  case (snoc x es)
  then show ?case by (auto simp: inspect_entry_def sorted_wrt_append)
qed simp

lemma untouched_log_passes:
  assumes v: "verify_chain sha ys = None" and x: "x \<in> set ys" "an_sequence r = al_sequence x" "an_chain_hash r = al_hash x"
    and cmd: "validate_command cmd = None" "vc_from cmd = None" "vc_to cmd = None" "vc_check_anchors cmd"
    and r: "r \<in> set (mem_anchor_find_all (or_default (vc_max_anchor_checks cmd) default_max_anchor_checks) receipts)"
  shows "\<exists>res. verify_execute mem_audit_ops sha (Some receipts) verifier cmd ys = Some (Inr res) \<and> vr_valid res \<and>
    (\<exists>c \<in> set (vr_anchor_checks res). ac_chain_hash c = an_chain_hash r \<and> ac_matches_database c = Some True)"
proof -
  define records where "records = mem_anchor_find_all (or_default (vc_max_anchor_checks cmd) default_max_anchor_checks) receipts"
  define batch_size where "batch_size = nat (or_default (vc_batch_size cmd) default_verify_batch_size)"
  have batch: "0 < batch_size"
    using cmd(1) by (auto simp: validate_command_def Let_def batch_size_def cmd(2,3) split: if_splits)
  note asc = verified_ascending [OF v]
  have W: "verify_window 1 None ys = ys" by (rule verify_whole_window [OF asc(2)])
  obtain w where w: "chain_walk_run mem_audit_ops sha 1 None batch_size (vc_organization cmd) records ys = Some w"
      "wk_break w = verify_chain_from sha (walk_seed mem_audit_ops 1 ys) ys"
      "wk_tally w = fold (inspect_entry sha (vc_organization cmd) (set_of_list (map an_sequence records)))
         (inspected_entries (wk_break w) ys) \<lparr>wt_checked = 0, wt_organization = 0, wt_hashes = []\<rparr>"
    using mem_audit.chain_walk_run_spec [OF asc(1) order_refl batch, where to_sequence = None] unfolding W by blast
  have brk: "wk_break w = None" using w(2) v by (simp add: walk_seed_def verify_chain_def)
  have valid: "al_hash x = recomputed_hash sha x"
  proof -
    obtain p q where split: "ys = (p @ [x]) @ q" using x(1) by (metis append.assoc append_Cons append_Nil split_list)
    then have "verify_chain sha (p @ [x]) = None"
      using v unfolding verify_chain_def by (simp only: verify_chain_from_append)
    then show ?thesis by (simp only: verify_chain_snoc recomputed_hash_def compute_hash_def)
  qed
  have "al_sequence x \<in> set (set_of_list (map an_sequence records))"
    using r x(2) by (auto simp: records_def image_iff intro!: bexI [of _ r])
  then have hash: "map_get (wt_hashes (wk_tally w)) (an_sequence r) = Some (an_chain_hash r)"
    using fold_inspect_hashes_found [OF asc(1) x(1)] valid x(2,3) unfolding w(3) brk
    by (simp add: inspected_entries_def)
  have "check_anchor verifier (wt_hashes (wk_tally w)) r \<in> set (map (check_anchor verifier (wt_hashes (wk_tally w))) records)"
    using r by (simp add: records_def)
  moreover have "ac_chain_hash (check_anchor verifier (wt_hashes (wk_tally w)) r) = an_chain_hash r"
    "ac_matches_database (check_anchor verifier (wt_hashes (wk_tally w)) r) = Some True"
    by (simp_all add: check_anchor_def Let_def hash)
  ultimately show ?thesis
    using w(1) cmd brk unfolding verify_execute_def
    by (auto simp: Let_def records_def [symmetric] batch_size_def [symmetric])
qed

section \<open>Witnesses\<close>

definition demo_command :: record_command where
  "demo_command = \<lparr>rc_action = ActUserLoginFailed, rc_actor = None, rc_subject = Some ''u'',
     rc_metadata = Some [(''k'', ''v'')], rc_occurred_at = None\<rparr>"

definition demo_sha :: "string \<Rightarrow> string" where
  "demo_sha s = s"

definition demo_chain :: "audit_log_entry list" where
  "demo_chain = the (link_commands demo_sha 5 [(''a'', demo_command), (''b'', demo_command)] None)"

definition demo_longer_chain :: "audit_log_entry list" where
  "demo_longer_chain = demo_chain @ [the (entry_append demo_sha ''c'' 9 demo_command None (last_opt demo_chain))]"

lemma demo_chain_verified: "verify_chain demo_sha demo_chain = None" "length demo_chain = 2"
proof -
  have "link_commands demo_sha 5 [(''a'', demo_command), (''b'', demo_command)] None = Some demo_chain"
    by (simp add: demo_chain_def entry_append_def demo_command_def Let_def)
  from link_commands_verified [OF this]
  show "verify_chain demo_sha demo_chain = None" "length demo_chain = 2" by (simp_all add: verify_chain_def)
qed

lemma demo_longer_verified: "verify_chain demo_sha demo_longer_chain = None"
proof -
  obtain e where "entry_append demo_sha ''c'' 9 demo_command None (last_opt demo_chain) = Some e"
    by (simp add: entry_append_def demo_command_def Let_def)
  with entry_append_links(8) [OF this] show ?thesis
    using demo_chain_verified(1)
    by (simp add: demo_longer_chain_def verify_chain_def verify_chain_from_append last_opt_last_or del: verify_chain_from.simps)
qed

theorem concurrent_appends_never_fork_witness:
  "verify_chain demo_sha (as_chain (commit_draft 2 (commit_draft 1 (draft_execute demo_sha 2 ''b'' 7 demo_command
     (draft_execute demo_sha 1 ''a'' 5 demo_command empty_audit_system))))) = None"
proof -
  have "audit_steps demo_sha empty_audit_system (commit_draft 2 (commit_draft 1 (draft_execute demo_sha 2 ''b'' 7 demo_command
     (draft_execute demo_sha 1 ''a'' 5 demo_command empty_audit_system))))"
    by (rule audit_steps.more [OF audit_steps.more [OF audit_steps.more [OF audit_steps.more
        [OF audit_steps.none read_one] read_one] commit] commit])
  from concurrent_appends_never_fork [OF this audit_steps.none] show ?thesis by blast
qed

theorem record_execute_bounded_witness:
  "\<exists>e. fst (record_execute mem_audit_ops demo_sha (\<lambda>_. ''c'') (\<lambda>_. 9) (\<lambda>_ c. c) 3 demo_command demo_chain) = Some e \<and>
     length (al_metadata e) \<le> 32"
proof -
  let ?run = "record_execute mem_audit_ops demo_sha (\<lambda>_. ''c'') (\<lambda>_. 9) (\<lambda>_ c. c) 3 demo_command demo_chain"
  have env: "\<forall>k < 3. extends_chain demo_sha (\<lambda>c. c) ((\<lambda>_ c. c) k)" by (simp add: extends_chain_def)
  have "rc_occurred_at demo_command \<noteq> Some None" by (simp add: demo_command_def)
  with record_execute_bounded [OF demo_chain_verified(1) env prod.collapse [symmetric, of ?run]]
  show ?thesis by auto
qed

definition demo_receipt :: "string \<Rightarrow> string + anchor_receipt" where
  "demo_receipt h = Inr \<lparr>rp_hash = h, rp_anchor_ref = ''tx'', rp_anchored_at = Some 6, rp_network = ''testnet''\<rparr>"

definition demo_verify :: verify_command where
  "demo_verify = \<lparr>vc_from = None, vc_to = None, vc_organization = None, vc_batch_size = Some 1,
     vc_check_anchors = True, vc_max_anchor_checks = None\<rparr>"

theorem batched_walk_equals_one_pass_witness:
  "\<exists>w. chain_walk_run mem_audit_ops demo_sha 1 None 1 None [] demo_longer_chain = Some w \<and> wk_break w = None"
proof -
  have one: "(1 :: int) \<le> 1" "0 < (1 :: nat)" by simp_all
  have W: "verify_window 1 None demo_longer_chain = demo_longer_chain"
    by (rule verify_whole_window [OF verified_ascending(2) [OF demo_longer_verified]])
  have "walk_seed mem_audit_ops 1 demo_longer_chain = None" by (simp add: walk_seed_def)
  with batched_walk_equals_one_pass [OF verified_ascending(1) [OF demo_longer_verified] one, of demo_sha None None "[]"]
  show ?thesis using demo_longer_verified unfolding W by (auto simp: verify_chain_def)
qed

theorem anchored_history_immutable_witness:
  "map hashed_content demo_chain = map hashed_content (take 2 (filter (\<lambda>e. 1 \<le> al_sequence e) demo_longer_chain))"
proof -
  have ne: "demo_chain \<noteq> []" using demo_chain_verified(2) by auto
  obtain r covered anchors where a: "anchor_execute mem_audit_ops demo_receipt demo_chain [] = (Inr (r, covered), anchors)"
    using ne by (auto simp: anchor_execute_def mem_audit_ops_def last_opt_def mem_anchor_find_latest_def Let_def demo_receipt_def)
  note r = anchor_execute_Inr [OF a]
  have cmd: "validate_command demo_verify = None" "vc_from demo_verify = None" "vc_to demo_verify = None" "vc_check_anchors demo_verify"
    by (simp_all add: demo_verify_def validate_command_def max_verify_batch_size_def)
  have "r \<in> set (mem_anchor_find_all (or_default (vc_max_anchor_checks demo_verify) default_max_anchor_checks) [r])"
    by (simp add: demo_verify_def mem_anchor_find_all_def default_max_anchor_checks_def)
  moreover have "last demo_chain \<in> set demo_longer_chain" using ne by (simp add: demo_longer_chain_def)
  ultimately obtain res c where res: "verify_execute mem_audit_ops demo_sha (Some [r]) None demo_verify demo_longer_chain = Some (Inr res)"
      "vr_valid res" "c \<in> set (vr_anchor_checks res)" "ac_chain_hash c = an_chain_hash r" "ac_matches_database c = Some True"
    using untouched_log_passes [OF demo_longer_verified _ r(3,2) cmd] by blast
  have "inj_on demo_sha (canonicalize ` (set demo_chain \<union> set demo_longer_chain))"
    by (simp add: inj_on_def demo_sha_def)
  from anchored_history_immutable [OF demo_chain_verified(1) a res(1) cmd(2) res(2-5) verified_ascending(1) [OF demo_longer_verified] this]
  show ?thesis unfolding demo_chain_verified(2) .
qed

end
