(* ===== verification/AuditWriter.thy ===== *)
theory AuditWriter
  imports AuditRuns "HOL-Library.Sublist"
begin

text \<open>
  \<open>packages/audit/infrastructure/persistence/batched-audit-writer.ts\<close>: the bounded queue in front of
  the audit log. A flush in progress (\<open>bw_flight\<close>: the batch and the attempts made) is a state of its
  own, since commands may be offered between its attempts; \<open>flush_attempt\<close> is one turn of the loop in
  \<open>drainOnce\<close>, its \<open>env\<close> what other writers do between the read of the head and the append. The
  reports handed to \<open>onOverflow\<close> and \<open>onBatchFailure\<close> are kept in the state.
\<close>

section \<open>State and operations\<close>

record writer_options =
  wo_max_batch :: nat
  wo_max_queue :: nat
  wo_max_attempts :: nat

definition default_writer_options :: writer_options where
  "default_writer_options = \<lparr>wo_max_batch = 100, wo_max_queue = 10000, wo_max_attempts = 3\<rparr>"

record batched_writer =
  bw_queue :: "record_command list"
  bw_flight :: "(record_command list \<times> nat) option"
  bw_enqueued :: nat
  bw_written :: nat
  bw_batches :: nat
  bw_conflicts :: nat
  bw_overflowed :: nat
  bw_largest_batch :: nat
  bw_failed_batches :: nat
  bw_overflow_reports :: "record_command list"
  bw_failure_reports :: "record_command list list"

definition batched_writer_new :: batched_writer where
  "batched_writer_new = \<lparr>bw_queue = [], bw_flight = None, bw_enqueued = 0, bw_written = 0, bw_batches = 0,
     bw_conflicts = 0, bw_overflowed = 0, bw_largest_batch = 0, bw_failed_batches = 0,
     bw_overflow_reports = [], bw_failure_reports = []\<rparr>"

definition flush_begin :: "writer_options \<Rightarrow> batched_writer \<Rightarrow> batched_writer" where
  "flush_begin o' w =
     (if bw_flight w \<noteq> None then w
      else if bw_queue w = [] then w
      else w\<lparr>bw_flight := Some (take (wo_max_batch o') (bw_queue w), 0)\<rparr>)"

definition writer_record :: "writer_options \<Rightarrow> record_command \<Rightarrow> batched_writer \<Rightarrow> bool \<times> batched_writer" where
  "writer_record o' cmd w =
     (if length (bw_queue w) \<ge> wo_max_queue o'
      then (False, w\<lparr>bw_overflowed := bw_overflowed w + 1, bw_overflow_reports := bw_overflow_reports w @ [cmd]\<rparr>)
      else let w' = w\<lparr>bw_queue := bw_queue w @ [cmd], bw_enqueued := bw_enqueued w + 1\<rparr>
           in (True, if length (bw_queue w') \<ge> wo_max_batch o' then flush_begin o' w' else w'))"

definition flush_failed :: "record_command list \<Rightarrow> batched_writer \<Rightarrow> batched_writer" where
  "flush_failed batch w =
     w\<lparr>bw_queue := drop (length batch) (bw_queue w), bw_flight := None,
       bw_failed_batches := bw_failed_batches w + 1, bw_failure_reports := bw_failure_reports w @ [batch]\<rparr>"

definition flush_written :: "record_command list \<Rightarrow> audit_log_entry list \<Rightarrow> batched_writer \<Rightarrow> batched_writer" where
  "flush_written batch es w =
     w\<lparr>bw_queue := drop (length batch) (bw_queue w), bw_flight := None,
       bw_written := bw_written w + length es, bw_batches := bw_batches w + 1,
       bw_largest_batch := max (bw_largest_batch w) (length es)\<rparr>"

text \<open>The result also says which batch left the queue in this turn, and as which entries.\<close>

type_synonym resolved_batch = "record_command list \<times> audit_log_entry list option"

definition flush_attempt ::
  "writer_options \<Rightarrow> 's audit_repo_ops \<Rightarrow> (string \<Rightarrow> string) \<Rightarrow> (nat \<Rightarrow> string) \<Rightarrow> int \<Rightarrow> ('s \<Rightarrow> 's) \<Rightarrow> batched_writer \<times> 's \<Rightarrow>
   (batched_writer \<times> 's) \<times> resolved_batch option" where
  "flush_attempt o' ops sha ids now env ws =
     (let (w, s) = ws in
      case bw_flight w of
        None \<Rightarrow> ((w, s), None)
      | Some (batch, n) \<Rightarrow>
          if n \<ge> wo_max_attempts o' then ((flush_failed batch w, s), Some (batch, None))
          else let previous = ar_find_latest ops s
               in case link_commands sha now (zip (map ids [0..<length batch]) batch) previous of
                    None \<Rightarrow> ((w\<lparr>bw_flight := Some (batch, n + 1)\<rparr>, s), None)
                  | Some es \<Rightarrow>
                      (case ar_append_many ops es (link_hash previous) (env s) of
                         (Inr _, s') \<Rightarrow> ((flush_written batch es w, s'), Some (batch, Some es))
                       | (Inl _, s') \<Rightarrow>
                           ((w\<lparr>bw_flight := Some (batch, n + 1), bw_conflicts := bw_conflicts w + 1\<rparr>, s'), None)))"

section \<open>Runs\<close>

datatype 's writer_event =
    Offer record_command
  | Flush
  | Attempt "nat \<Rightarrow> string" int "'s \<Rightarrow> 's"

record 's writer_run =
  wr_writer :: batched_writer
  wr_store :: 's
  wr_accepted :: "record_command list"
  wr_resolved :: "resolved_batch list"

definition writer_event_step ::
  "writer_options \<Rightarrow> 's audit_repo_ops \<Rightarrow> (string \<Rightarrow> string) \<Rightarrow> 's writer_event \<Rightarrow> 's writer_run \<Rightarrow> 's writer_run" where
  "writer_event_step o' ops sha ev r =
     (case ev of
        Offer cmd \<Rightarrow>
          (let (ok, w) = writer_record o' cmd (wr_writer r)
           in r\<lparr>wr_writer := w, wr_accepted := (if ok then wr_accepted r @ [cmd] else wr_accepted r)\<rparr>)
      | Flush \<Rightarrow> r\<lparr>wr_writer := flush_begin o' (wr_writer r)\<rparr>
      | Attempt ids now env \<Rightarrow>
          (let ((w, s), out) = flush_attempt o' ops sha ids now env (wr_writer r, wr_store r)
           in r\<lparr>wr_writer := w, wr_store := s,
                wr_resolved := (case out of None \<Rightarrow> wr_resolved r | Some b \<Rightarrow> wr_resolved r @ [b])\<rparr>))"

definition writer_run_from :: "'s \<Rightarrow> 's writer_run" where
  "writer_run_from s = \<lparr>wr_writer = batched_writer_new, wr_store = s, wr_accepted = [], wr_resolved = []\<rparr>"

definition written_entries :: "resolved_batch list \<Rightarrow> audit_log_entry list" where
  "written_entries bs = concat (map (\<lambda>b. case snd b of None \<Rightarrow> [] | Some es \<Rightarrow> es) bs)"

definition failed_commands :: "resolved_batch list \<Rightarrow> record_command list list" where
  "failed_commands bs = map fst (filter (\<lambda>b. snd b = None) bs)"

text \<open>What holds of a run: the queue is bounded, a flight is a prefix of it, and nothing is lost.\<close>

definition writer_inv :: "writer_options \<Rightarrow> 's writer_run \<Rightarrow> bool" where
  "writer_inv o' r \<longleftrightarrow>
     length (bw_queue (wr_writer r)) \<le> wo_max_queue o' \<and>
     (\<forall>batch n. bw_flight (wr_writer r) = Some (batch, n) \<longrightarrow>
        length batch \<le> wo_max_batch o' \<and> (\<exists>rest. bw_queue (wr_writer r) = batch @ rest)) \<and>
     wr_accepted r = concat (map fst (wr_resolved r)) @ bw_queue (wr_writer r) \<and>
     bw_enqueued (wr_writer r) = length (wr_accepted r) \<and>
     bw_written (wr_writer r) = length (written_entries (wr_resolved r)) \<and>
     bw_failure_reports (wr_writer r) = failed_commands (wr_resolved r) \<and>
     bw_failed_batches (wr_writer r) = length (failed_commands (wr_resolved r)) \<and>
     (\<forall>(batch, out) \<in> set (wr_resolved r). \<forall>es. out = Some es \<longrightarrow> length es = length batch)"

lemma writer_inv_start: "writer_inv o' (writer_run_from s)"
  by (simp add: writer_inv_def writer_run_from_def batched_writer_new_def written_entries_def failed_commands_def)

lemma flush_begin_fields [simp]:
  "bw_queue (flush_begin o' w) = bw_queue w" "bw_enqueued (flush_begin o' w) = bw_enqueued w"
  "bw_written (flush_begin o' w) = bw_written w" "bw_failure_reports (flush_begin o' w) = bw_failure_reports w"
  "bw_failed_batches (flush_begin o' w) = bw_failed_batches w" "bw_overflowed (flush_begin o' w) = bw_overflowed w"
  "bw_overflow_reports (flush_begin o' w) = bw_overflow_reports w"
  by (simp_all add: flush_begin_def)

lemma flush_begin_flight:
  "bw_flight (flush_begin o' w) = Some (batch, n) \<Longrightarrow>
   bw_flight w = Some (batch, n) \<or> batch = take (wo_max_batch o') (bw_queue w)"
  by (auto simp: flush_begin_def split: if_splits)

lemma writer_inv_flush:
  assumes "writer_inv o' r"
  shows "writer_inv o' (r\<lparr>wr_writer := flush_begin o' (wr_writer r)\<rparr>)"
proof -
  have "length batch \<le> wo_max_batch o' \<and> (\<exists>rest. bw_queue (wr_writer r) = batch @ rest)"
    if "bw_flight (flush_begin o' (wr_writer r)) = Some (batch, n)" for batch n
    using flush_begin_flight [OF that] assms
    by (auto simp: writer_inv_def intro: append_take_drop_id [symmetric])
  then show ?thesis using assms by (simp add: writer_inv_def)
qed

lemma writer_inv_offer:
  assumes inv: "writer_inv o' r" and rec: "writer_record o' cmd (wr_writer r) = (ok, w)"
  shows "writer_inv o' (r\<lparr>wr_writer := w, wr_accepted := (if ok then wr_accepted r @ [cmd] else wr_accepted r)\<rparr>)"
proof (cases "length (bw_queue (wr_writer r)) \<ge> wo_max_queue o'")
  case True
  then have "ok = False" "w = (wr_writer r)\<lparr>bw_overflowed := bw_overflowed (wr_writer r) + 1,
      bw_overflow_reports := bw_overflow_reports (wr_writer r) @ [cmd]\<rparr>"
    using rec by (simp_all add: writer_record_def)
  then show ?thesis using inv by (simp add: writer_inv_def)
next
  case False
  let ?w = "(wr_writer r)\<lparr>bw_queue := bw_queue (wr_writer r) @ [cmd], bw_enqueued := bw_enqueued (wr_writer r) + 1\<rparr>"
  let ?r = "r\<lparr>wr_writer := ?w, wr_accepted := wr_accepted r @ [cmd]\<rparr>"
  have ok: "ok" and w: "w = ?w \<or> w = flush_begin o' ?w"
    using rec False by (auto simp: writer_record_def Let_def split: if_splits)
  have r: "writer_inv o' ?r" using inv False by (fastforce simp: writer_inv_def)
  from writer_inv_flush [OF this] r w ok show ?thesis by (auto simp: writer_inv_def)
qed

lemma flush_attempt_cases:
  assumes "flush_attempt o' ops sha ids now env (w, s) = ((w', s'), out)"
  obtains (idle) "bw_flight w = None" "w' = w" "s' = s" "out = None"
  | (failed) batch n where "bw_flight w = Some (batch, n)" "w' = flush_failed batch w" "s' = s" "out = Some (batch, None)"
  | (written) batch n es u where "bw_flight w = Some (batch, n)" "w' = flush_written batch es w"
      "link_commands sha now (zip (map ids [0..<length batch]) batch) (ar_find_latest ops s) = Some es"
      "ar_append_many ops es (link_hash (ar_find_latest ops s)) (env s) = (Inr u, s')" "out = Some (batch, Some es)"
  | (retry) batch n where "bw_flight w = Some (batch, n)" "out = None" "s' = s"
      "w' = w\<lparr>bw_flight := Some (batch, n + 1)\<rparr>" "n < wo_max_attempts o'"
  | (conflict) batch n es c where "bw_flight w = Some (batch, n)" "out = None"
      "link_commands sha now (zip (map ids [0..<length batch]) batch) (ar_find_latest ops s) = Some es"
      "ar_append_many ops es (link_hash (ar_find_latest ops s)) (env s) = (Inl c, s')"
      "w' = w\<lparr>bw_flight := Some (batch, n + 1), bw_conflicts := bw_conflicts w + 1\<rparr>" "n < wo_max_attempts o'"
  using assms
  by (fastforce simp: flush_attempt_def Let_def split: option.splits prod.splits if_splits sum.splits)

lemma link_commands_length:
  "link_commands sha now (zip (map ids [0..<length batch]) batch) p = Some es \<Longrightarrow> length es = length batch"
  using link_commands_verified by fastforce

lemma writer_inv_attempt:
  assumes inv: "writer_inv o' r"
    and att: "flush_attempt o' ops sha ids now env (wr_writer r, wr_store r) = ((w, s), out)"
  shows "writer_inv o' (r\<lparr>wr_writer := w, wr_store := s,
    wr_resolved := (case out of None \<Rightarrow> wr_resolved r | Some b \<Rightarrow> wr_resolved r @ [b])\<rparr>)"
  using att
proof (cases rule: flush_attempt_cases)
  case idle
  then show ?thesis using inv by (simp add: writer_inv_def)
next
  case (failed batch n)
  obtain rest where "bw_queue (wr_writer r) = batch @ rest"
    using inv failed(1) by (auto simp: writer_inv_def)
  with inv failed show ?thesis
    by (auto simp: writer_inv_def flush_failed_def written_entries_def failed_commands_def)
next
  case (written batch n es u)
  obtain rest where "bw_queue (wr_writer r) = batch @ rest"
    using inv written(1) by (auto simp: writer_inv_def)
  moreover have "length es = length batch" by (rule link_commands_length [OF written(3)])
  ultimately show ?thesis using inv written
    by (auto simp: writer_inv_def flush_written_def written_entries_def failed_commands_def)
next
  case (retry batch n)
  then show ?thesis using inv by (auto simp: writer_inv_def)
next
  case (conflict batch n es c)
  then show ?thesis using inv by (auto simp: writer_inv_def)
qed

lemma writer_inv_event: "writer_inv o' r \<Longrightarrow> writer_inv o' (writer_event_step o' ops sha ev r)"
proof (cases ev)
  case (Offer cmd)
  assume inv: "writer_inv o' r"
  obtain ok w where rec: "writer_record o' cmd (wr_writer r) = (ok, w)" by fastforce
  from writer_inv_offer [OF inv rec] show ?thesis by (simp add: Offer writer_event_step_def rec)
next
  case Flush
  assume "writer_inv o' r"
  from writer_inv_flush [OF this] show ?thesis by (simp add: Flush writer_event_step_def)
next
  case (Attempt ids now env)
  assume inv: "writer_inv o' r"
  obtain w s out where att: "flush_attempt o' ops sha ids now env (wr_writer r, wr_store r) = ((w, s), out)"
    by (metis prod.exhaust)
  from writer_inv_attempt [OF inv att] show ?thesis by (simp add: Attempt writer_event_step_def att)
qed

lemma writer_inv_run: "writer_inv o' r \<Longrightarrow> writer_inv o' (fold (writer_event_step o' ops sha) evs r)"
  by (induction evs arbitrary: r) (auto simp: writer_inv_event)

context audit_log_store begin

lemma flush_attempt_chain:
  assumes "flush_attempt o' ops sha ids now env (w, s) = ((w', s'), out)"
    and v: "verify_chain sha (contents s) = None" and env: "extends_chain sha contents env"
  shows "verify_chain sha (contents s') = None"
    and "\<exists>t. contents s' = contents s @ t @ (case out of Some (_, Some es) \<Rightarrow> es | _ \<Rightarrow> [])"
proof -
  from env v obtain t where t: "verify_chain sha (contents (env s)) = None" "contents (env s) = contents s @ t"
    unfolding extends_chain_def by blast
  have commit: "verify_chain sha (contents s') = None \<and> (\<exists>t. contents s' = contents s @ t)"
      "q = Inr () \<Longrightarrow> contents s' = contents s @ t @ es"
    if l: "link_commands sha now cs (ar_find_latest ops s) = Some es"
      and a: "ar_append_many ops es (link_hash (ar_find_latest ops s)) (env s) = (q, s')" for cs es q
  proof -
    have d: "verify_chain_from sha (last_opt (contents s)) es = None"
      using link_commands_verified [OF l] by (simp add: find_latest)
    have a': "ar_append_many ops es (head_hash (contents s)) (env s) = (q, s')"
      using a by (simp add: find_latest head_hash_def)
    from commit_keeps_chain [OF t d a'] t(2)
    show "verify_chain sha (contents s') = None \<and> (\<exists>t. contents s' = contents s @ t)"
      "q = Inr () \<Longrightarrow> contents s' = contents s @ t @ es" by auto
  qed
  have "verify_chain sha (contents s') = None \<and>
    (\<exists>t. contents s' = contents s @ t @ (case out of Some (_, Some es) \<Rightarrow> es | _ \<Rightarrow> []))"
    using assms(1)
  proof (cases rule: flush_attempt_cases)
    case (written batch n es u)
    from commit [OF written(3), of "Inr u"] written(4,5) show ?thesis by simp
  next
    case (conflict batch n es c)
    from commit(1) [OF conflict(3,4)] conflict(2) show ?thesis by simp
  qed (use v in simp_all)
  then show "verify_chain sha (contents s') = None"
    "\<exists>t. contents s' = contents s @ t @ (case out of Some (_, Some es) \<Rightarrow> es | _ \<Rightarrow> [])" by blast+
qed

end

section \<open>Shutdown\<close>

text \<open>
  One \<open>drainOnce\<close>: turns of the loop until the batch has left the queue; it takes at most one more
  turn than there are attempts. \<open>settle\<close> flushes until the queue is empty or a pass removed nothing.
\<close>

type_synonym 's flush_turn = "(nat \<Rightarrow> string) \<times> int \<times> ('s \<Rightarrow> 's)"

fun drain_turns ::
  "writer_options \<Rightarrow> 's audit_repo_ops \<Rightarrow> (string \<Rightarrow> string) \<Rightarrow> (nat \<Rightarrow> 's flush_turn) \<Rightarrow> nat \<Rightarrow> batched_writer \<times> 's \<Rightarrow>
   batched_writer \<times> 's" where
  "drain_turns o' ops sha turn 0 ws = ws"
| "drain_turns o' ops sha turn (Suc k) ws =
     (if bw_flight (fst ws) = None then ws
      else let (ids, now, env) = turn k
           in drain_turns o' ops sha turn k (fst (flush_attempt o' ops sha ids now env ws)))"

definition writer_flush ::
  "writer_options \<Rightarrow> 's audit_repo_ops \<Rightarrow> (string \<Rightarrow> string) \<Rightarrow> (nat \<Rightarrow> 's flush_turn) \<Rightarrow> batched_writer \<times> 's \<Rightarrow>
   batched_writer \<times> 's" where
  "writer_flush o' ops sha turn ws =
     drain_turns o' ops sha turn (wo_max_attempts o' + 1) (flush_begin o' (fst ws), snd ws)"

partial_function (option) writer_settle ::
  "writer_options \<Rightarrow> 's audit_repo_ops \<Rightarrow> (string \<Rightarrow> string) \<Rightarrow> (nat \<Rightarrow> 's flush_turn) \<Rightarrow> batched_writer \<times> 's \<Rightarrow>
   (batched_writer \<times> 's) option" where
  "writer_settle o' ops sha turn ws =
     (if bw_queue (fst ws) = [] then Some ws
      else let ws' = writer_flush o' ops sha turn ws
           in if length (bw_queue (fst ws')) \<ge> length (bw_queue (fst ws)) then Some ws'
              else writer_settle o' ops sha turn ws')"

definition flight_ok :: "writer_options \<Rightarrow> batched_writer \<Rightarrow> bool" where
  "flight_ok o' w \<longleftrightarrow> (\<forall>batch n. bw_flight w = Some (batch, n) \<longrightarrow>
     batch \<noteq> [] \<and> n \<le> wo_max_attempts o' \<and> (\<exists>rest. bw_queue w = batch @ rest))"

lemma drain_turns_idle: "bw_flight (fst ws) = None \<Longrightarrow> drain_turns o' ops sha turn k ws = ws"
  by (cases k) simp_all

lemma drain_turns_finish:
  "bw_flight w = Some (batch, n) \<Longrightarrow> n \<le> wo_max_attempts o' \<Longrightarrow> wo_max_attempts o' < n + k \<Longrightarrow>
   \<exists>w' s'. drain_turns o' ops sha turn k (w, s) = (w', s') \<and> bw_flight w' = None \<and>
     bw_queue w' = drop (length batch) (bw_queue w)"
proof (induction k arbitrary: w s n)
  case (Suc k)
  obtain ids now env where turn: "turn k = (ids, now, env)" by (cases "turn k")
  obtain w1 s1 out where att: "flush_attempt o' ops sha ids now env (w, s) = ((w1, s1), out)"
    by (metis prod.exhaust)
  have step: "drain_turns o' ops sha turn (Suc k) (w, s) = drain_turns o' ops sha turn k (w1, s1)"
    using Suc.prems(1) by (simp add: turn att)
  from att show ?case
  proof (cases rule: flush_attempt_cases)
    case idle
    then show ?thesis using Suc.prems(1) by simp
  next
    case (failed b m)
    then show ?thesis using Suc.prems(1) unfolding step
      by (simp add: flush_failed_def drain_turns_idle)
  next
    case (written b m es u)
    then show ?thesis using Suc.prems(1) unfolding step
      by (simp add: flush_written_def drain_turns_idle)
  next
    case (retry b m)
    then have "bw_flight w1 = Some (batch, n + 1)" "n + 1 \<le> wo_max_attempts o'" "wo_max_attempts o' < (n + 1) + k"
      "bw_queue w1 = bw_queue w"
      using Suc.prems by auto
    with Suc.IH [OF this(1-3), of s1] show ?thesis unfolding step by simp
  next
    case (conflict b m es c)
    then have "bw_flight w1 = Some (batch, n + 1)" "n + 1 \<le> wo_max_attempts o'" "wo_max_attempts o' < (n + 1) + k"
      "bw_queue w1 = bw_queue w"
      using Suc.prems by auto
    with Suc.IH [OF this(1-3), of s1] show ?thesis unfolding step by simp
  qed
qed simp

lemma writer_flush_progress:
  assumes "flight_ok o' w" "bw_queue w \<noteq> []" "0 < wo_max_batch o'"
  obtains w' s' where "writer_flush o' ops sha turn (w, s) = (w', s')" "bw_flight w' = None"
    "length (bw_queue w') < length (bw_queue w)"
proof -
  obtain batch n rest where f: "bw_flight (flush_begin o' w) = Some (batch, n)" "n \<le> wo_max_attempts o'"
      "batch \<noteq> []" "bw_queue w = batch @ rest"
  proof (cases "bw_flight w")
    case None
    have "bw_queue w = take (wo_max_batch o') (bw_queue w) @ drop (wo_max_batch o') (bw_queue w)" by simp
    moreover have "take (wo_max_batch o') (bw_queue w) \<noteq> []" using assms(2,3) by simp
    ultimately show ?thesis using None assms(2) by (intro that [of "take (wo_max_batch o') (bw_queue w)" 0 "drop (wo_max_batch o') (bw_queue w)"]) (auto simp: flush_begin_def)
  next
    case (Some f)
    then show ?thesis using assms(1) that by (cases f) (auto simp: flush_begin_def flight_ok_def)
  qed
  have "wo_max_attempts o' < n + (wo_max_attempts o' + 1)" by simp
  from drain_turns_finish [OF f(1,2) this, of ops sha turn s]
  show ?thesis using that f(3,4) by (auto simp: writer_flush_def)
qed

text \<open>
  Stopping the writer terminates: with a positive batch size, whatever the ledger and the other
  writers do, draining the queue for shutdown returns, and returns with an empty queue and no flush
  left in progress.
\<close>

theorem writer_settle_returns:
  assumes "0 < wo_max_batch o'" "flight_ok o' w" "bw_queue w = [] \<longrightarrow> bw_flight w = None"
  shows "\<exists>w' s'. writer_settle o' ops sha turn (w, s) = Some (w', s') \<and> bw_queue w' = [] \<and> bw_flight w' = None"
  using assms(2,3)
proof (induction "length (bw_queue w)" arbitrary: w s rule: less_induct)
  case less
  show ?case
  proof (cases "bw_queue w = []")
    case True
    then show ?thesis using less.prems(2) by (subst writer_settle.simps) simp
  next
    case False
    obtain w' s' where w': "writer_flush o' ops sha turn (w, s) = (w', s')" "bw_flight w' = None"
        "length (bw_queue w') < length (bw_queue w)"
      using writer_flush_progress [OF less.prems(1) False assms(1)] .
    have "flight_ok o' w'" using w'(2) by (simp add: flight_ok_def)
    from less.hyps [OF w'(3) this] w' False show ?thesis
      by (subst writer_settle.simps) (auto simp: Let_def)
  qed
qed

text \<open>
  The queue in front of the log accounts for every command, through any sequence of offers,
  flushes and attempts with other writers in between: it never holds more than its limit, the
  accepted commands are, in order, those of the batches that left it followed by those still
  waiting, each batch was either written whole or reported as failed, the counters agree, and the
  entries of the written batches stand in the verified chain in the order they were accepted.
\<close>

theorem batched_writer_accounts:
  assumes "verify_chain sha es = None"
    and "\<forall>ids now env. Attempt ids now env \<in> set evs \<longrightarrow> extends_chain sha (\<lambda>c. c) env"
    and "r = fold (writer_event_step o' mem_audit_ops sha) evs (writer_run_from es)"
  shows "length (bw_queue (wr_writer r)) \<le> wo_max_queue o' \<and>
    wr_accepted r = concat (map fst (wr_resolved r)) @ bw_queue (wr_writer r) \<and>
    bw_enqueued (wr_writer r) = length (wr_accepted r) \<and>
    bw_written (wr_writer r) = length (written_entries (wr_resolved r)) \<and>
    bw_failure_reports (wr_writer r) = failed_commands (wr_resolved r) \<and>
    (\<forall>(batch, out) \<in> set (wr_resolved r). \<forall>fs. out = Some fs \<longrightarrow> length fs = length batch) \<and>
    verify_chain sha (wr_store r) = None \<and> subseq (written_entries (wr_resolved r)) (wr_store r)"
proof -
  have inv: "writer_inv o' r" unfolding assms(3) by (rule writer_inv_run [OF writer_inv_start])
  define good where "good = (\<lambda>r :: audit_log_entry list writer_run. verify_chain sha (wr_store r) = None \<and>
    subseq (written_entries (wr_resolved r)) (wr_store r))"
  have step: "good (writer_event_step o' mem_audit_ops sha ev q)"
    if "good q" "\<forall>ids now env. ev = Attempt ids now env \<longrightarrow> extends_chain sha (\<lambda>c. c) env" for ev q
  proof (cases ev)
    case (Offer cmd)
    then show ?thesis using that(1) by (simp add: writer_event_step_def good_def split: prod.split)
  next
    case Flush
    then show ?thesis using that(1) by (simp add: writer_event_step_def good_def)
  next
    case (Attempt ids now env)
    obtain w s out where a: "flush_attempt o' mem_audit_ops sha ids now env (wr_writer q, wr_store q) = ((w, s), out)"
      by (metis prod.exhaust)
    have v: "verify_chain sha (wr_store q) = None" and sub: "subseq (written_entries (wr_resolved q)) (wr_store q)"
      using that(1) by (simp_all add: good_def)
    have env: "extends_chain sha (\<lambda>c. c) env" using that(2) Attempt by blast
    note c = mem_audit.flush_attempt_chain [OF a v env]
    obtain t where t: "s = wr_store q @ t @ (case out of Some (_, Some fs) \<Rightarrow> fs | _ \<Rightarrow> [])" using c(2) by blast
    have "subseq (written_entries (wr_resolved q) @ (case out of Some (_, Some fs) \<Rightarrow> fs | _ \<Rightarrow> [])) s"
      unfolding t by (intro list_emb_append_mono sub) (simp add: subseq_drop_many)
    then have "subseq (written_entries (case out of None \<Rightarrow> wr_resolved q | Some b \<Rightarrow> wr_resolved q @ [b])) s"
      by (auto simp: written_entries_def split: option.splits prod.splits)
    then show ?thesis using c(1) a Attempt by (simp add: writer_event_step_def good_def)
  qed
  have "good (fold (writer_event_step o' mem_audit_ops sha) evs q)"
    if "good q" "\<forall>ids now env. Attempt ids now env \<in> set evs \<longrightarrow> extends_chain sha (\<lambda>c. c) env" for evs q
    using that
  proof (induction evs arbitrary: q)
    case (Cons ev evs)
    have "good (writer_event_step o' mem_audit_ops sha ev q)"
      using Cons.prems by (intro step) auto
    then show ?case using Cons.IH Cons.prems(2) by simp
  qed simp
  moreover have "good (writer_run_from es)"
    using assms(1) by (simp add: good_def writer_run_from_def written_entries_def)
  ultimately have "good r" unfolding assms(3) using assms(2) by blast
  then show ?thesis using inv unfolding writer_inv_def good_def by blast
qed

text \<open>
  A command with an Invalid Date never gets an entry, and takes its whole batch with it: the loop
  fails on it in every attempt, and the batch is reported and dropped.
\<close>

lemma link_commands_invalid_date:
  "(i, cmd) \<in> set cmds \<Longrightarrow> rc_occurred_at cmd = Some None \<Longrightarrow> link_commands sha now cmds p = None"
  by (induction cmds arbitrary: p) (auto simp: entry_append_def split: option.splits)

section \<open>Witnesses\<close>

definition demo_writer_run :: "audit_log_entry list writer_run" where
  "demo_writer_run = fold (writer_event_step \<lparr>wo_max_batch = 2, wo_max_queue = 2, wo_max_attempts = 1\<rparr> mem_audit_ops demo_sha)
     [Offer demo_command, Offer demo_command, Offer demo_command, Attempt (\<lambda>_. ''i'') 4 (\<lambda>c. c)] (writer_run_from demo_chain)"

theorem batched_writer_accounts_witness:
  "verify_chain demo_sha (wr_store demo_writer_run) = None \<and> length (bw_queue (wr_writer demo_writer_run)) \<le> 2"
proof -
  have "\<forall>ids now env. Attempt ids now env \<in> set [Offer demo_command, Offer demo_command, Offer demo_command,
      Attempt (\<lambda>_. ''i'') 4 (\<lambda>c. c)] \<longrightarrow> extends_chain demo_sha (\<lambda>c. c) env"
    by (simp add: extends_chain_def)
  from batched_writer_accounts [OF demo_chain_verified(1) this demo_writer_run_def] show ?thesis by simp
qed

theorem writer_settle_returns_witness:
  "\<exists>w' s'. writer_settle default_writer_options mem_audit_ops demo_sha (\<lambda>_. (\<lambda>_. ''i'', 4, \<lambda>c. c))
     (snd (writer_record default_writer_options demo_command batched_writer_new), demo_chain) = Some (w', s') \<and> bw_queue w' = []"
proof -
  let ?w = "snd (writer_record default_writer_options demo_command batched_writer_new)"
  have w: "bw_flight ?w = None"
    by (simp add: writer_record_def default_writer_options_def batched_writer_new_def Let_def)
  have "0 < wo_max_batch default_writer_options" by (simp add: default_writer_options_def)
  moreover have "flight_ok default_writer_options ?w" using w by (simp add: flight_ok_def)
  moreover have "bw_queue ?w = [] \<longrightarrow> bw_flight ?w = None" using w by simp
  ultimately show ?thesis
    using writer_settle_returns [of default_writer_options ?w mem_audit_ops demo_sha "\<lambda>_. (\<lambda>_. ''i'', 4, \<lambda>c. c)" demo_chain]
    by blast
qed

end
