(* ===== verification/AuditSubscribers.thy ===== *)
theory AuditSubscribers
  imports AuditRuns
begin

text \<open>
  From domain events to audit entries: the in-process publisher of the shared kernel, the session and
  RBAC subscribers, the identity and credentials subscriber, and the registry the API composes
  (\<open>apps/api/src/composition/register-audit-subscribers.ts\<close>). A handler maps an event to a command
  for the recorder; handlers run in subscription order.
\<close>

section \<open>Events and publisher\<close>

record domain_event =
  ev_name :: string
  ev_aggregate :: string
  ev_fields :: "(string, json) js_map"

text \<open>A property of the event that is a non-empty string (\<open>if (event.ipAddress)\<close>), and any string property.\<close>

definition event_string :: "domain_event \<Rightarrow> string \<Rightarrow> string option" where
  "event_string e k = (case map_get (ev_fields e) k of Some (JStr s) \<Rightarrow> Some s | _ \<Rightarrow> None)"

definition event_text :: "domain_event \<Rightarrow> string \<Rightarrow> string" where
  "event_text e k = or_default (event_string e k) []"

definition truthy_field :: "domain_event \<Rightarrow> string \<Rightarrow> metadata_bag" where
  "truthy_field e k = (case event_string e k of Some s \<Rightarrow> if s = [] then [] else [(k, s)] | None \<Rightarrow> [])"

type_synonym 's event_publisher = "(string, (domain_event \<Rightarrow> 's \<Rightarrow> 's) list) js_map"

definition publisher_subscribe ::
  "string \<Rightarrow> (domain_event \<Rightarrow> 's \<Rightarrow> 's) \<Rightarrow> 's event_publisher \<Rightarrow> 's event_publisher" where
  "publisher_subscribe name handler p = map_set name (or_default (map_get p name) [] @ [handler]) p"

definition publisher_publish :: "'s event_publisher \<Rightarrow> domain_event \<Rightarrow> 's \<Rightarrow> 's" where
  "publisher_publish p e s = fold (\<lambda>handler. handler e) (or_default (map_get p (ev_name e)) []) s"

section \<open>Subscribers\<close>

definition audit_command :: "audit_action \<Rightarrow> string option \<Rightarrow> string \<Rightarrow> metadata_bag \<Rightarrow> record_command" where
  "audit_command action actor subject metadata =
     \<lparr>rc_action = action, rc_actor = actor, rc_subject = Some subject, rc_metadata = Some metadata, rc_occurred_at = None\<rparr>"

definition session_created_command :: "domain_event \<Rightarrow> record_command" where
  "session_created_command e =
     audit_command ActUserLoginSucceeded (Some (event_text e ''userId'')) (event_text e ''userId'')
       ((''sessionId'', event_text e ''sessionId'') # truthy_field e ''ipAddress'' @ truthy_field e ''userAgent'')"

definition session_revoked_command :: "domain_event \<Rightarrow> record_command" where
  "session_revoked_command e =
     audit_command ActUserLoginSucceeded (Some (event_text e ''userId'')) (event_text e ''userId'')
       ((''sessionId'', event_text e ''sessionId'') # truthy_field e ''reason'')"

definition role_assigned_command :: "domain_event \<Rightarrow> record_command" where
  "role_assigned_command e =
     audit_command ActUserRegistered (Some (event_text e ''assignedBy'')) (event_text e ''userId'')
       ([(''roleId'', event_text e ''roleId''), (''roleName'', event_text e ''roleName'')] @
        truthy_field e ''organizationId'')"

definition permission_granted_command :: "domain_event \<Rightarrow> record_command" where
  "permission_granted_command e =
     audit_command ActUserRegistered (Some (event_text e ''grantedBy'')) (event_text e ''userId'')
       ((''permission'', event_text e ''permission'') # truthy_field e ''resourceType'' @
        truthy_field e ''resourceId'' @ truthy_field e ''organizationId'')"

text \<open>\<open>AuditEventSubscriber.handle\<close>: what the recorder answers is dropped.\<close>

definition subscriber_handle ::
  "(record_command \<Rightarrow> 's \<Rightarrow> audit_log_entry option \<times> 's) \<Rightarrow> (domain_event \<Rightarrow> record_command) \<Rightarrow> domain_event \<Rightarrow> 's \<Rightarrow> 's" where
  "subscriber_handle recorder to_command e s = snd (recorder (to_command e) s)"

section \<open>The identity and credentials subscriber\<close>

definition credential_event_actions :: "(string \<times> audit_action) list" where
  "credential_event_actions =
     [(''credentials.user.email_verified'', ActUserEmailVerified),
      (''credentials.user.password_changed'', ActUserPasswordChanged),
      (''credentials.user.account_locked'', ActUserLockedOut),
      (''credentials.email_verified'', ActUserEmailVerified),
      (''credentials.password_changed'', ActUserPasswordChanged),
      (''credentials.account_locked'', ActUserLockedOut)]"

definition string_metadata :: "domain_event \<Rightarrow> string list \<Rightarrow> metadata_bag" where
  "string_metadata e ks =
     fold (\<lambda>k m. case event_string e k of Some s \<Rightarrow> map_set k s m | None \<Rightarrow> m) ks []"

definition to_audit_command :: "domain_event \<Rightarrow> record_command option" where
  "to_audit_command e =
     (if ev_name e = ''identity.user.registered''
        then Some (audit_command ActUserRegistered None (ev_aggregate e) (string_metadata e [''email'']))
      else if ev_name e = ''identity.user.status_changed''
        then Some (audit_command ActUserStatusChanged None (ev_aggregate e)
               (string_metadata e [''previousStatus'', ''newStatus'', ''reason'']))
      else if ev_name e = ''identity.user.profile_updated''
        then Some (audit_command ActUserProfileUpdated None (ev_aggregate e) [])
      else if ev_name e = ''identity.organization_invitation.created''
        then Some (audit_command ActOrganizationInvitationCreated None (ev_aggregate e)
               (string_metadata e [''organizationId'', ''email'']))
      else if ev_name e = ''identity.api_key.created''
        then Some (audit_command ActApiKeyCreated None (ev_aggregate e)
               (string_metadata e [''organizationId'', ''name'', ''keyPreview'']))
      else map_option (\<lambda>action. audit_command action None (ev_aggregate e)
               (string_metadata e [''reason'', ''method'']))
             (map_get credential_event_actions (ev_name e)))"

definition identity_event_names :: "string list" where
  "identity_event_names =
     [''identity.user.registered'', ''identity.user.status_changed'', ''identity.user.profile_updated'',
      ''identity.organization_invitation.created'', ''identity.api_key.created''] @
     map fst credential_event_actions"

definition identity_handle ::
  "(record_command \<Rightarrow> 's \<Rightarrow> audit_log_entry option \<times> 's) \<Rightarrow> domain_event \<Rightarrow> 's \<Rightarrow> 's" where
  "identity_handle recorder e s =
     (case to_audit_command e of None \<Rightarrow> s | Some cmd \<Rightarrow> snd (recorder cmd s))"

definition identity_subscribe ::
  "(record_command \<Rightarrow> 's \<Rightarrow> audit_log_entry option \<times> 's) \<Rightarrow> 's event_publisher \<Rightarrow> 's event_publisher" where
  "identity_subscribe recorder p =
     fold (\<lambda>name. publisher_subscribe name (identity_handle recorder)) identity_event_names p"

section \<open>The registry\<close>

definition register_audit_subscribers ::
  "(record_command \<Rightarrow> 's \<Rightarrow> audit_log_entry option \<times> 's) \<Rightarrow> 's event_publisher \<Rightarrow> 's event_publisher" where
  "register_audit_subscribers recorder p =
     publisher_subscribe ''rbac.permission.granted'' (subscriber_handle recorder permission_granted_command)
       (publisher_subscribe ''rbac.role.assigned'' (subscriber_handle recorder role_assigned_command)
         (publisher_subscribe ''sessions.session.revoked'' (subscriber_handle recorder session_revoked_command)
           (publisher_subscribe ''sessions.session.created'' (subscriber_handle recorder session_created_command) p)))"

text \<open>The command a publication leads to in the composed container, if any.\<close>

definition audited_as :: "domain_event \<Rightarrow> record_command option" where
  "audited_as e =
     (if ev_name e = ''sessions.session.created'' then Some (session_created_command e)
      else if ev_name e = ''sessions.session.revoked'' then Some (session_revoked_command e)
      else if ev_name e = ''rbac.role.assigned'' then Some (role_assigned_command e)
      else if ev_name e = ''rbac.permission.granted'' then Some (permission_granted_command e)
      else None)"

lemma identity_names_not_registered:
  "''sessions.session.created'' \<notin> set identity_event_names" "''sessions.session.revoked'' \<notin> set identity_event_names"
  "''rbac.role.assigned'' \<notin> set identity_event_names" "''rbac.permission.granted'' \<notin> set identity_event_names"
  by code_simp+

lemma publish_subscribe:
  "publisher_publish (publisher_subscribe name handler p) e s =
     (if ev_name e = name then handler e (publisher_publish p e s) else publisher_publish p e s)"
  by (simp add: publisher_publish_def publisher_subscribe_def)

lemma publish_registered:
  "publisher_publish (register_audit_subscribers recorder []) e s =
     (case audited_as e of None \<Rightarrow> s | Some cmd \<Rightarrow> snd (recorder cmd s))"
proof -
  have "publisher_publish [] e s = s" by (simp add: publisher_publish_def)
  then show ?thesis
    by (simp add: register_audit_subscribers_def publish_subscribe audited_as_def subscriber_handle_def)
qed

text \<open>
  What the composed container audits: publishing an event appends exactly one entry, with the
  action, actor and subject its subscriber maps it to, when its name is one of the four the registry
  subscribes, and leaves the log unchanged otherwise; in particular nothing records the events of the
  identity context, a revoked session is recorded as a successful login, and an assigned role as a
  registration.
\<close>

theorem published_events_audited:
  assumes "verify_chain sha es = None" "0 < attempts"
    and "recorder = record_execute mem_audit_ops sha ids now (\<lambda>_ c. c) attempts"
    and "es' = publisher_publish (register_audit_subscribers recorder []) e es"
  shows "(case audited_as e of
       None \<Rightarrow> es' = es
     | Some cmd \<Rightarrow> \<exists>x. es' = es @ [x] \<and> al_action x = rc_action cmd \<and> al_actor x = rc_actor cmd \<and>
         al_subject x = rc_subject cmd \<and> al_metadata x = metadata_for cmd) \<and>
    (ev_name e \<in> set identity_event_names \<longrightarrow> es' = es) \<and>
    (ev_name e = ''sessions.session.revoked'' \<longrightarrow> (\<exists>x. es' = es @ [x] \<and> al_action x = ActUserLoginSucceeded)) \<and>
    (ev_name e = ''rbac.role.assigned'' \<longrightarrow> (\<exists>x. es' = es @ [x] \<and> al_action x = ActUserRegistered))"
proof -
  have recorded: "\<exists>x. snd (recorder cmd es) = es @ [x] \<and> al_action x = rc_action cmd \<and> al_actor x = rc_actor cmd \<and>
      al_subject x = rc_subject cmd \<and> al_metadata x = metadata_for cmd" if d: "rc_occurred_at cmd = None" for cmd
  proof -
    define n where "n = attempts - 1"
    then have n: "attempts = Suc n" using assms(2) by simp
    obtain x where x: "entry_append sha (ids n) (now n) cmd (Some (metadata_for cmd)) (last_opt es) = Some x"
      using d by (simp add: entry_append_def Let_def)
    note links = entry_append_links [OF x]
    obtain s' where a: "ar_append_many mem_audit_ops [x] (head_hash es) es = (Inr (), s')"
      using mem_audit.append_own_head [OF assms(1) links(8)] by blast
    have "s' = es @ [x]" using mem_audit.append_lands [OF a] by simp
    then have "snd (recorder cmd es) = es @ [x]"
      using a x by (simp add: assms(3) record_execute_def n mem_audit.find_latest head_hash_def)
    then show ?thesis using links(4-7) by simp
  qed
  have es': "es' = (case audited_as e of None \<Rightarrow> es | Some cmd \<Rightarrow> snd (recorder cmd es))"
    unfolding assms(4) by (rule publish_registered)
  have date: "audited_as e = Some cmd \<Longrightarrow> rc_occurred_at cmd = None" for cmd
    by (auto simp: audited_as_def audit_command_def session_created_command_def session_revoked_command_def
        role_assigned_command_def permission_granted_command_def split: if_splits)
  have identity: "ev_name e \<in> set identity_event_names \<Longrightarrow> audited_as e = None"
    using identity_names_not_registered by (auto simp: audited_as_def)
  have revoked: "ev_name e = ''sessions.session.revoked'' \<Longrightarrow> audited_as e = Some (session_revoked_command e)"
    "rc_action (session_revoked_command e) = ActUserLoginSucceeded"
    "ev_name e = ''rbac.role.assigned'' \<Longrightarrow> audited_as e = Some (role_assigned_command e)"
    "rc_action (role_assigned_command e) = ActUserRegistered"
    by (simp_all add: audited_as_def session_revoked_command_def role_assigned_command_def audit_command_def)
  have one: "\<exists>x. es' = es @ [x] \<and> al_action x = rc_action cmd \<and> al_actor x = rc_actor cmd \<and>
      al_subject x = rc_subject cmd \<and> al_metadata x = metadata_for cmd" if "audited_as e = Some cmd" for cmd
    using recorded [OF date [OF that]] that es' by simp
  show ?thesis
  proof (intro conjI impI)
    show "case audited_as e of None \<Rightarrow> es' = es
      | Some cmd \<Rightarrow> \<exists>x. es' = es @ [x] \<and> al_action x = rc_action cmd \<and> al_actor x = rc_actor cmd \<and>
          al_subject x = rc_subject cmd \<and> al_metadata x = metadata_for cmd"
      using one es' by (cases "audited_as e") simp_all
    show "ev_name e \<in> set identity_event_names \<Longrightarrow> es' = es" using identity es' by simp
    show "ev_name e = ''sessions.session.revoked'' \<Longrightarrow> \<exists>x. es' = es @ [x] \<and> al_action x = ActUserLoginSucceeded"
      using one revoked(1,2) by metis
    show "ev_name e = ''rbac.role.assigned'' \<Longrightarrow> \<exists>x. es' = es @ [x] \<and> al_action x = ActUserRegistered"
      using one revoked(3,4) by metis
  qed
qed

definition demo_revocation :: domain_event where
  "demo_revocation = \<lparr>ev_name = ''sessions.session.revoked'', ev_aggregate = ''s1'',
     ev_fields = [(''userId'', JStr ''u''), (''sessionId'', JStr ''s1'')]\<rparr>"

theorem published_events_audited_witness:
  "\<exists>x. publisher_publish (register_audit_subscribers (record_execute mem_audit_ops demo_sha (\<lambda>_. ''n'') (\<lambda>_. 3) (\<lambda>_ c. c) 3) [])
     demo_revocation demo_chain = demo_chain @ [x] \<and> al_action x = ActUserLoginSucceeded"
proof -
  have "ev_name demo_revocation = ''sessions.session.revoked''" by (simp add: demo_revocation_def)
  moreover have "0 < (3 :: nat)" by simp
  ultimately show ?thesis
    using published_events_audited [OF demo_chain_verified(1) _ HOL.refl HOL.refl, of 3] by blast
qed

end
