(* ===== verification/Verification.thy ===== *)
theory Verification
  imports JsValues
begin

text \<open>
  \<open>packages/verification\<close>: the value objects, the \<open>Evidence\<close> entity, the \<open>ReviewAssignment\<close> lease
  and the \<open>VerificationRequest\<close> aggregate with its state machine, the provider results, and the
  mapping between the aggregate and its database row. A \<open>Date\<close> a caller passes in may be invalid
  (\<open>None\<close>); \<open>createdAt\<close>, which only \<open>new Date()\<close> or the database sets, is an \<open>int\<close>. A \<open>new Date()\<close>
  the code takes itself is the argument \<open>clock\<close>, a drawn id the argument \<open>fresh\<close>.
\<close>

section \<open>Value objects\<close>

datatype verification_status =
  PendingEvidence | Submitted | InReview | NeedsMoreInfo | Approved | Rejected

definition all_statuses :: "verification_status list" where
  "all_statuses = [PendingEvidence, Submitted, InReview, NeedsMoreInfo, Approved, Rejected]"

fun status_text :: "verification_status \<Rightarrow> string" where
  "status_text PendingEvidence = ''pending_evidence''"
| "status_text Submitted = ''submitted''"
| "status_text InReview = ''in_review''"
| "status_text NeedsMoreInfo = ''needs_more_info''"
| "status_text Approved = ''approved''"
| "status_text Rejected = ''rejected''"

fun allowed_transitions :: "verification_status \<Rightarrow> verification_status list" where
  "allowed_transitions PendingEvidence = [Submitted]"
| "allowed_transitions Submitted = [InReview]"
| "allowed_transitions InReview = [Approved, Rejected, NeedsMoreInfo]"
| "allowed_transitions NeedsMoreInfo = [PendingEvidence]"
| "allowed_transitions Approved = []"
| "allowed_transitions Rejected = []"

definition terminal_statuses :: "verification_status list" where
  "terminal_statuses = [Approved, Rejected]"

definition is_verification_status :: "string \<Rightarrow> bool" where
  "is_verification_status value' \<longleftrightarrow> value' \<in> set (map status_text all_statuses)"

definition verification_status_create :: "string \<Rightarrow> verification_status result" where
  "verification_status_create raw =
     (case find (\<lambda>s. status_text s = raw) all_statuses of
        None \<Rightarrow> Inl (ValidationError [(''status'', [''unsupported''])])
      | Some s \<Rightarrow> Inr s)"

definition can_transition_to :: "verification_status \<Rightarrow> verification_status \<Rightarrow> bool" where
  "can_transition_to this next' \<longleftrightarrow> next' \<in> set (allowed_transitions this)"

definition is_terminal :: "verification_status \<Rightarrow> bool" where
  "is_terminal this \<longleftrightarrow> length (allowed_transitions this) = 0"

datatype verification_type = IdentityDocument | Address | Liveness

definition verification_types :: "verification_type list" where
  "verification_types = [IdentityDocument, Address, Liveness]"

fun verification_type_text :: "verification_type \<Rightarrow> string" where
  "verification_type_text IdentityDocument = ''identity-document''"
| "verification_type_text Address = ''address''"
| "verification_type_text Liveness = ''liveness''"

definition verification_type_create :: "string \<Rightarrow> verification_type result" where
  "verification_type_create raw =
     (case find (\<lambda>t. verification_type_text t = raw) verification_types of
        None \<Rightarrow> Inl (ValidationError [(''verificationType'', [''unsupported''])])
      | Some t \<Rightarrow> Inr t)"

datatype evidence_type = GovernmentIdFront | GovernmentIdBack | Selfie | ProofOfAddress

definition evidence_types :: "evidence_type list" where
  "evidence_types = [GovernmentIdFront, GovernmentIdBack, Selfie, ProofOfAddress]"

fun evidence_type_text :: "evidence_type \<Rightarrow> string" where
  "evidence_type_text GovernmentIdFront = ''government-id-front''"
| "evidence_type_text GovernmentIdBack = ''government-id-back''"
| "evidence_type_text Selfie = ''selfie''"
| "evidence_type_text ProofOfAddress = ''proof-of-address''"

fun required_evidence_types_for :: "verification_type \<Rightarrow> evidence_type list" where
  "required_evidence_types_for IdentityDocument = [GovernmentIdFront, GovernmentIdBack]"
| "required_evidence_types_for Address = [ProofOfAddress]"
| "required_evidence_types_for Liveness = [Selfie]"

definition evidence_type_create :: "string \<Rightarrow> evidence_type result" where
  "evidence_type_create raw =
     (case find (\<lambda>t. evidence_type_text t = raw) evidence_types of
        None \<Rightarrow> Inl (ValidationError [(''evidenceType'', [''unsupported''])])
      | Some t \<Rightarrow> Inr t)"

definition is_valid_for :: "evidence_type \<Rightarrow> verification_type \<Rightarrow> bool" where
  "is_valid_for this type' \<longleftrightarrow> this \<in> set (required_evidence_types_for type')"

section \<open>Evidence\<close>

record evidence =
  ev_id :: string
  ev_request_id :: string
  ev_type :: evidence_type
  ev_storage_ref :: string
  ev_checksum :: string
  ev_uploaded_at :: int

definition is_valid_sha256_hex :: "string \<Rightarrow> bool" where
  "is_valid_sha256_hex s \<longleftrightarrow> length s = 64 \<and> list_all (\<lambda>c. c \<in> set ''0123456789abcdef'') s"

definition max_storage_ref_length :: nat where
  "max_storage_ref_length = 1024"

definition evidence_attach ::
  "string \<Rightarrow> int \<Rightarrow> string \<Rightarrow> verification_type \<Rightarrow> string \<Rightarrow> string \<Rightarrow> string \<Rightarrow> evidence result" where
  "evidence_attach fresh clock request_id verification_type raw_type raw_ref checksum =
     (case evidence_type_create raw_type of
        Inl e \<Rightarrow> Inl e
      | Inr type' \<Rightarrow>
          (if \<not> is_valid_for type' verification_type
           then Inl (ValidationError [(''evidenceType'', [''invalid_for_verification_type''])])
           else
             let storage_ref = js_trim raw_ref;
                 ref_errors =
                   (if length storage_ref = 0 then [(''storageRef'', [''required''])]
                    else if length storage_ref > max_storage_ref_length \<or> take 5 storage_ref = ''data:''
                    then [(''storageRef'', [''not_a_reference''])] else []);
                 sum_errors =
                   (if \<not> is_valid_sha256_hex checksum then [(''checksum'', [''invalid_sha256''])] else []);
                 field_errors = ref_errors @ sum_errors
             in if length field_errors > 0 then Inl (ValidationError field_errors)
                else Inr \<lparr>ev_id = fresh, ev_request_id = request_id, ev_type = type',
                       ev_storage_ref = storage_ref, ev_checksum = checksum, ev_uploaded_at = clock\<rparr>))"

definition evidence_belongs_to :: "evidence \<Rightarrow> string \<Rightarrow> bool" where
  "evidence_belongs_to this request_id \<longleftrightarrow> ev_request_id this = request_id"

section \<open>The review lease\<close>

record review_assignment =
  ra_request_id :: string
  ra_reviewer :: string
  ra_assigned_at :: date
  ra_expires_at :: date

definition default_claim_ttl_ms :: jsnum where
  "default_claim_ttl_ms = JFin (15 * 60 * 1000)"

text \<open>
  \<open>new Date(t)\<close> for a number \<open>t\<close>: truncated toward zero, and the Invalid Date outside of the
  8.64e15 milliseconds around the epoch.
\<close>

definition new_date :: "rat \<Rightarrow> date" where
  "new_date t =
     (let n = (if t \<ge> 0 then \<lfloor>t\<rfloor> else \<lceil>t\<rceil>)
      in if abs n \<le> 8640000000000000 then Some n else None)"

fun date_plus :: "date \<Rightarrow> rat \<Rightarrow> date" where
  "date_plus None ms = None"
| "date_plus (Some t) ms = new_date (of_int t + ms)"

definition assignment_claim ::
  "string \<Rightarrow> string \<Rightarrow> date \<Rightarrow> jsnum option \<Rightarrow> review_assignment result" where
  "assignment_claim request_id reviewer assigned_at ttl =
     (let ttl_ms = or_default ttl default_claim_ttl_ms
      in case ttl_ms of
           JFin ms \<Rightarrow>
             (if ms \<le> 0 then Inl (ValidationError [(''claimTtlMs'', [''invalid''])])
              else Inr \<lparr>ra_request_id = request_id, ra_reviewer = reviewer,
                     ra_assigned_at = assigned_at, ra_expires_at = date_plus assigned_at ms\<rparr>)
         | _ \<Rightarrow> Inl (ValidationError [(''claimTtlMs'', [''invalid''])]))"

definition assignment_active_at :: "review_assignment \<Rightarrow> date \<Rightarrow> bool" where
  "assignment_active_at this now \<longleftrightarrow> date_gt (ra_expires_at this) now"

definition assignment_expired_at :: "review_assignment \<Rightarrow> date \<Rightarrow> bool" where
  "assignment_expired_at this now \<longleftrightarrow> \<not> assignment_active_at this now"

definition assignment_held_by :: "review_assignment \<Rightarrow> string \<Rightarrow> bool" where
  "assignment_held_by this reviewer \<longleftrightarrow> ra_reviewer this = reviewer"

section \<open>Errors and events\<close>

datatype verification_error =
    VerificationFailed domain_error
  | InvalidStatusTransition verification_status verification_status
  | ReviewClaimConflict string string
  | ReviewDecisionNotPermitted string

fun verification_error_code :: "verification_error \<Rightarrow> string" where
  "verification_error_code (VerificationFailed e) = error_code e"
| "verification_error_code (InvalidStatusTransition _ _) = ''INVALID_STATUS_TRANSITION''"
| "verification_error_code (ReviewClaimConflict _ _) = ''REVIEW_CLAIM_CONFLICT''"
| "verification_error_code (ReviewDecisionNotPermitted _) = ''REVIEW_DECISION_NOT_PERMITTED''"

fun verification_http_status :: "verification_error \<Rightarrow> nat" where
  "verification_http_status (VerificationFailed e) = http_status_hint e"
| "verification_http_status (InvalidStatusTransition _ _) = 409"
| "verification_http_status (ReviewClaimConflict _ _) = 409"
| "verification_http_status (ReviewDecisionNotPermitted _) = 403"

record verification_decision =
  vd_decided_by :: string
  vd_decided_at :: date
  vd_note :: string

record verification_decided =
  vde_request_id :: string
  vde_subject :: string
  vde_organization :: string
  vde_type :: verification_type
  vde_decision :: verification_status
  vde_decided_by :: string
  vde_decided_at :: date
  vde_note :: string

section \<open>The VerificationRequest aggregate\<close>

record verification_request =
  vr_id :: string
  vr_subject :: string
  vr_organization :: string
  vr_type :: verification_type
  vr_status :: verification_status
  vr_assignment :: "review_assignment option"
  vr_decision :: "verification_decision option"
  vr_note :: "string option"
  vr_created_at :: int
  vr_updated_at :: date
  vr_events :: "verification_decided list"

definition verification_request_new ::
  "string \<Rightarrow> int \<Rightarrow> string \<Rightarrow> string \<Rightarrow> verification_type \<Rightarrow> verification_request" where
  "verification_request_new fresh clock subject organization type' =
     \<lparr>vr_id = fresh, vr_subject = subject, vr_organization = organization, vr_type = type',
      vr_status = PendingEvidence, vr_assignment = None, vr_decision = None, vr_note = None,
      vr_created_at = clock, vr_updated_at = Some clock, vr_events = []\<rparr>"

datatype review_state_error = DecisionInconsistent | NoteInconsistent | AssignmentInconsistent

text \<open>\<open>reconstitute\<close>; \<open>Inl\<close> is the thrown data-integrity error.\<close>

definition request_reconstitute :: "verification_request \<Rightarrow> review_state_error + verification_request" where
  "request_reconstitute props =
     (let is_terminal' = vr_status props \<in> set terminal_statuses
      in if is_terminal' \<noteq> (vr_decision props \<noteq> None) then Inl DecisionInconsistent
         else if (vr_status props = NeedsMoreInfo) \<noteq> (vr_note props \<noteq> None) then Inl NoteInconsistent
         else if vr_assignment props \<noteq> None \<and> vr_status props \<noteq> InReview then Inl AssignmentInconsistent
         else Inr (props\<lparr>vr_events := []\<rparr>))"

definition is_claimable_at :: "verification_request \<Rightarrow> date \<Rightarrow> bool" where
  "is_claimable_at this now =
     (if vr_status this \<noteq> InReview then False
      else case vr_assignment this of None \<Rightarrow> True | Some a \<Rightarrow> assignment_expired_at a now)"

text \<open>
  The overrides of \<open>copy\<close>: \<open>None\<close> is an absent key, so an optional field that is set to
  \<open>undefined\<close> is \<open>Some None\<close>.
\<close>

record request_overrides =
  ov_status :: "verification_status option"
  ov_assignment :: "review_assignment option option"
  ov_decision :: "verification_decision option option"
  ov_note :: "string option option"
  ov_updated_at :: "date option"
  ov_events :: "verification_decided list option"

definition no_overrides :: request_overrides where
  "no_overrides = \<lparr>ov_status = None, ov_assignment = None, ov_decision = None, ov_note = None,
     ov_updated_at = None, ov_events = None\<rparr>"

definition request_copy :: "date \<Rightarrow> request_overrides \<Rightarrow> verification_request \<Rightarrow> verification_request" where
  "request_copy clock ov this =
     \<lparr>vr_id = vr_id this, vr_subject = vr_subject this, vr_organization = vr_organization this,
      vr_type = vr_type this,
      vr_status = or_default (ov_status ov) (vr_status this),
      vr_assignment = or_default (ov_assignment ov) (vr_assignment this),
      vr_decision = or_default (ov_decision ov) (vr_decision this),
      vr_note = or_default (ov_note ov) (vr_note this),
      vr_created_at = vr_created_at this,
      vr_updated_at = or_default (ov_updated_at ov) clock,
      vr_events = or_default (ov_events ov) []\<rparr>"

definition transition_to ::
  "date \<Rightarrow> verification_status \<Rightarrow> verification_request \<Rightarrow> verification_error + verification_request" where
  "transition_to clock next' this =
     (if \<not> can_transition_to (vr_status this) next'
      then Inl (InvalidStatusTransition (vr_status this) next')
      else Inr (request_copy clock (no_overrides\<lparr>ov_status := Some next'\<rparr>) this))"

definition request_submit :: "date \<Rightarrow> verification_request \<Rightarrow> verification_error + verification_request" where
  "request_submit clock this = transition_to clock Submitted this"

definition start_review :: "date \<Rightarrow> verification_request \<Rightarrow> verification_error + verification_request" where
  "start_review clock this = transition_to clock InReview this"

definition reopen_for_evidence ::
  "date \<Rightarrow> date \<Rightarrow> verification_request \<Rightarrow> verification_error + verification_request" where
  "reopen_for_evidence clock clock' this =
     (case transition_to clock PendingEvidence this of
        Inl e \<Rightarrow> Inl e
      | Inr transitioned \<Rightarrow> Inr (request_copy clock' (no_overrides\<lparr>ov_note := Some None\<rparr>) transitioned))"

definition claim_by ::
  "string \<Rightarrow> date \<Rightarrow> jsnum option \<Rightarrow> verification_request \<Rightarrow> verification_error + verification_request" where
  "claim_by reviewer now ttl this =
     (if vr_status this \<noteq> InReview then Inl (InvalidStatusTransition (vr_status this) InReview)
      else case (case vr_assignment this of
             None \<Rightarrow> None
           | Some existing \<Rightarrow> (if assignment_active_at existing now then Some existing else None)) of
        Some existing \<Rightarrow> Inl (ReviewClaimConflict (vr_id this) (ra_reviewer existing))
      | None \<Rightarrow>
          (case assignment_claim (vr_id this) reviewer now ttl of
             Inl e \<Rightarrow> Inl (VerificationFailed e)
           | Inr claim \<Rightarrow>
               Inr (request_copy now
                 (no_overrides\<lparr>ov_assignment := Some (Some claim), ov_updated_at := Some now\<rparr>) this)))"

definition decision_not_permitted ::
  "string \<Rightarrow> date \<Rightarrow> verification_request \<Rightarrow> verification_error option" where
  "decision_not_permitted reviewer now this =
     (case vr_assignment this of
        None \<Rightarrow> Some (ReviewDecisionNotPermitted (vr_id this))
      | Some claim \<Rightarrow>
          (if \<not> assignment_active_at claim now \<or> \<not> assignment_held_by claim reviewer
           then Some (ReviewDecisionNotPermitted (vr_id this)) else None))"

definition request_decide ::
  "verification_status \<Rightarrow> string \<Rightarrow> string \<Rightarrow> date \<Rightarrow> verification_request
     \<Rightarrow> verification_error + verification_request" where
  "request_decide outcome reviewer note now this =
     (if \<not> can_transition_to (vr_status this) outcome
      then Inl (InvalidStatusTransition (vr_status this) outcome)
      else case decision_not_permitted reviewer now this of
        Some e \<Rightarrow> Inl e
      | None \<Rightarrow>
          Inr (request_copy now
            \<lparr>ov_status = Some outcome, ov_assignment = Some None,
             ov_decision = Some (Some \<lparr>vd_decided_by = reviewer, vd_decided_at = now, vd_note = note\<rparr>),
             ov_note = None, ov_updated_at = Some now,
             ov_events = Some [\<lparr>vde_request_id = vr_id this, vde_subject = vr_subject this,
               vde_organization = vr_organization this, vde_type = vr_type this,
               vde_decision = outcome, vde_decided_by = reviewer, vde_decided_at = now,
               vde_note = note\<rparr>]\<rparr> this))"

definition request_approve ::
  "string \<Rightarrow> string \<Rightarrow> date \<Rightarrow> verification_request \<Rightarrow> verification_error + verification_request" where
  "request_approve reviewer note now this = request_decide Approved reviewer note now this"

definition request_reject ::
  "string \<Rightarrow> string \<Rightarrow> date \<Rightarrow> verification_request \<Rightarrow> verification_error + verification_request" where
  "request_reject reviewer note now this = request_decide Rejected reviewer note now this"

definition request_more_information ::
  "string \<Rightarrow> string \<Rightarrow> date \<Rightarrow> verification_request \<Rightarrow> verification_error + verification_request" where
  "request_more_information reviewer note now this =
     (if \<not> can_transition_to (vr_status this) NeedsMoreInfo
      then Inl (InvalidStatusTransition (vr_status this) NeedsMoreInfo)
      else case decision_not_permitted reviewer now this of
        Some e \<Rightarrow> Inl e
      | None \<Rightarrow>
          Inr (request_copy now
            (no_overrides\<lparr>ov_status := Some NeedsMoreInfo, ov_assignment := Some None,
               ov_note := Some (Some note), ov_updated_at := Some now\<rparr>) this))"

section \<open>Provider results\<close>

datatype provider_outcome = Passed | Failed | Inconclusive | OtherOutcome string

record provider_check_result =
  pc_outcome :: provider_outcome
  pc_confidence :: jsnum
  pc_raw_ref :: "string option"

definition max_confidence_score :: jsnum where
  "max_confidence_score = JFin 1"

definition provider_passed :: "string option \<Rightarrow> jsnum \<Rightarrow> provider_check_result" where
  "provider_passed ref score = \<lparr>pc_outcome = Passed, pc_confidence = score, pc_raw_ref = ref\<rparr>"

definition provider_failed :: "string option \<Rightarrow> jsnum \<Rightarrow> provider_check_result" where
  "provider_failed ref score = \<lparr>pc_outcome = Failed, pc_confidence = score, pc_raw_ref = ref\<rparr>"

definition provider_inconclusive :: "string option \<Rightarrow> provider_check_result" where
  "provider_inconclusive ref = \<lparr>pc_outcome = Inconclusive, pc_confidence = JFin 0, pc_raw_ref = ref\<rparr>"

definition provider_result_valid :: "provider_check_result \<Rightarrow> bool" where
  "provider_result_valid r \<longleftrightarrow>
     (pc_outcome r = Passed \<or> pc_outcome r = Failed \<or> pc_outcome r = Inconclusive) \<and>
     num_finite (pc_confidence r) \<and> num_le (JFin 0) (pc_confidence r) \<and>
     num_le (pc_confidence r) max_confidence_score"

text \<open>
  The \<open>VerificationProvider\<close> port: a check answers or throws (\<open>None\<close>). \<open>ManualReviewProvider\<close> is
  the shipped default.
\<close>

record verification_provider =
  vp_check_document :: "evidence \<Rightarrow> provider_check_result option"
  vp_check_liveness :: "evidence \<Rightarrow> provider_check_result option"

definition manual_review_provider :: verification_provider where
  "manual_review_provider =
     \<lparr>vp_check_document = (\<lambda>_. Some (provider_inconclusive None)),
      vp_check_liveness = (\<lambda>_. Some (provider_inconclusive None))\<rparr>"


section \<open>The database row\<close>

record verification_row =
  vw_id :: string
  vw_subject :: string
  vw_organization :: string
  vw_type :: string
  vw_status :: string
  vw_reviewer :: "string option"
  vw_assigned_at :: "date option"
  vw_expires_at :: "date option"
  vw_decided_by :: "string option"
  vw_decided_at :: "date option"
  vw_decision :: "string option"
  vw_decision_note :: "string option"
  vw_note :: "string option"
  vw_created_at :: int
  vw_updated_at :: date

datatype row_error =
    UnknownStatus string
  | UnknownType string string
  | RowInconsistent review_state_error

definition db_verification_types :: "(verification_type \<times> string) list" where
  "db_verification_types =
     [(IdentityDocument, ''identity_document''), (Address, ''address''), (Liveness, ''liveness'')]"

definition to_db_verification_type :: "verification_type \<Rightarrow> string option" where
  "to_db_verification_type value' = map_of db_verification_types value'"

definition from_db_verification_type :: "string \<Rightarrow> verification_type option" where
  "from_db_verification_type value' =
     map_of (map (\<lambda>(t, s). (s, t)) db_verification_types) value'"

definition decision_of :: "verification_status \<Rightarrow> string option" where
  "decision_of status = (if status = Approved \<or> status = Rejected then Some (status_text status) else None)"

definition request_to_row :: "verification_request \<Rightarrow> verification_row option" where
  "request_to_row r =
     (case to_db_verification_type (vr_type r) of
        None \<Rightarrow> None
      | Some t \<Rightarrow> Some \<lparr>
          vw_id = vr_id r, vw_subject = vr_subject r, vw_organization = vr_organization r,
          vw_type = t, vw_status = status_text (vr_status r),
          vw_reviewer = map_option ra_reviewer (vr_assignment r),
          vw_assigned_at = map_option ra_assigned_at (vr_assignment r),
          vw_expires_at = map_option ra_expires_at (vr_assignment r),
          vw_decided_by = map_option vd_decided_by (vr_decision r),
          vw_decided_at = map_option vd_decided_at (vr_decision r),
          vw_decision = decision_of (vr_status r),
          vw_decision_note = map_option vd_note (vr_decision r),
          vw_note = vr_note r, vw_created_at = vr_created_at r, vw_updated_at = vr_updated_at r\<rparr>)"

definition request_to_domain :: "verification_row \<Rightarrow> row_error + verification_request" where
  "request_to_domain row =
     (if \<not> is_verification_status (vw_status row) then Inl (UnknownStatus (vw_id row))
      else
        let assignment =
              (case (vw_reviewer row, vw_assigned_at row, vw_expires_at row) of
                 (Some reviewer, Some assigned, Some expires) \<Rightarrow>
                   Some \<lparr>ra_request_id = vw_id row, ra_reviewer = reviewer,
                     ra_assigned_at = assigned, ra_expires_at = expires\<rparr>
               | _ \<Rightarrow> None);
            decision =
              (case (vw_decided_by row, vw_decided_at row, vw_decision_note row) of
                 (Some by', Some at', Some note) \<Rightarrow>
                   Some \<lparr>vd_decided_by = by', vd_decided_at = at', vd_note = note\<rparr>
               | _ \<Rightarrow> None)
        in case (from_db_verification_type (vw_type row), verification_status_create (vw_status row)) of
             (Some type', Inr status) \<Rightarrow>
               (case request_reconstitute
                  \<lparr>vr_id = vw_id row, vr_subject = vw_subject row, vr_organization = vw_organization row,
                   vr_type = type', vr_status = status, vr_assignment = assignment,
                   vr_decision = decision, vr_note = vw_note row, vr_created_at = vw_created_at row,
                   vr_updated_at = vw_updated_at row, vr_events = []\<rparr> of
                  Inl e \<Rightarrow> Inl (RowInconsistent e)
                | Inr r \<Rightarrow> Inr r)
           | _ \<Rightarrow> Inl (UnknownType (vw_id row) (vw_type row)))"

section \<open>The state machine\<close>

lemma verification_status_create_text [simp]: "verification_status_create (status_text s) = Inr s"
  by (cases s) (simp_all add: verification_status_create_def all_statuses_def)

lemma is_verification_status_text [simp]: "is_verification_status (status_text s)"
  by (cases s) (simp_all add: is_verification_status_def all_statuses_def)

lemma verification_status_create_Inr:
  "verification_status_create raw = Inr s \<longleftrightarrow> raw = status_text s"
proof
  assume "verification_status_create raw = Inr s"
  then show "raw = status_text s"
    by (auto simp: verification_status_create_def split: option.splits dest!: find_SomeD)
qed simp

lemma is_terminal_iff: "is_terminal s \<longleftrightarrow> s \<in> set terminal_statuses"
  by (cases s) (simp_all add: is_terminal_def terminal_statuses_def)

lemma can_transition_not_terminal: "can_transition_to s t \<Longrightarrow> \<not> is_terminal s"
  by (cases s) (simp_all add: can_transition_to_def is_terminal_def)

lemma can_transition_simps [simp]:
  "can_transition_to s Approved \<longleftrightarrow> s = InReview"
  "can_transition_to s Rejected \<longleftrightarrow> s = InReview"
  "can_transition_to s NeedsMoreInfo \<longleftrightarrow> s = InReview"
  "can_transition_to s InReview \<longleftrightarrow> s = Submitted"
  "can_transition_to s Submitted \<longleftrightarrow> s = PendingEvidence"
  "can_transition_to s PendingEvidence \<longleftrightarrow> s = NeedsMoreInfo"
  by (cases s; simp add: can_transition_to_def)+

section \<open>Consistent requests\<close>

definition request_ok :: "verification_request \<Rightarrow> bool" where
  "request_ok r \<longleftrightarrow>
     (is_terminal (vr_status r) \<longleftrightarrow> vr_decision r \<noteq> None) \<and>
     (vr_status r = NeedsMoreInfo \<longleftrightarrow> vr_note r \<noteq> None) \<and>
     (vr_assignment r \<noteq> None \<longrightarrow> vr_status r = InReview) \<and>
     (\<forall>a. vr_assignment r = Some a \<longrightarrow> ra_request_id a = vr_id r)"

lemma request_reconstitute_ok: "request_ok r \<Longrightarrow> request_reconstitute r = Inr (r\<lparr>vr_events := []\<rparr>)"
  by (auto simp: request_ok_def request_reconstitute_def Let_def is_terminal_iff)

lemma request_reconstitute_Inr_iff:
  "request_reconstitute r = Inr r' \<longleftrightarrow>
     r' = r\<lparr>vr_events := []\<rparr> \<and> (is_terminal (vr_status r) \<longleftrightarrow> vr_decision r \<noteq> None) \<and>
     (vr_status r = NeedsMoreInfo \<longleftrightarrow> vr_note r \<noteq> None) \<and>
     (vr_assignment r \<noteq> None \<longrightarrow> vr_status r = InReview)"
  by (auto simp: request_reconstitute_def Let_def is_terminal_iff)

lemma request_copy_simps [simp]:
  "vr_id (request_copy clock ov r) = vr_id r"
  "vr_subject (request_copy clock ov r) = vr_subject r"
  "vr_organization (request_copy clock ov r) = vr_organization r"
  "vr_type (request_copy clock ov r) = vr_type r"
  "vr_created_at (request_copy clock ov r) = vr_created_at r"
  "vr_status (request_copy clock ov r) = or_default (ov_status ov) (vr_status r)"
  "vr_assignment (request_copy clock ov r) = or_default (ov_assignment ov) (vr_assignment r)"
  "vr_decision (request_copy clock ov r) = or_default (ov_decision ov) (vr_decision r)"
  "vr_note (request_copy clock ov r) = or_default (ov_note ov) (vr_note r)"
  "vr_updated_at (request_copy clock ov r) = or_default (ov_updated_at ov) clock"
  "vr_events (request_copy clock ov r) = or_default (ov_events ov) []"
  by (simp_all add: request_copy_def)

lemma no_overrides_simps [simp]:
  "ov_status no_overrides = None" "ov_assignment no_overrides = None"
  "ov_decision no_overrides = None" "ov_note no_overrides = None"
  "ov_updated_at no_overrides = None" "ov_events no_overrides = None"
  by (simp_all add: no_overrides_def)

lemma assignment_claim_Inr:
  "assignment_claim i reviewer now ttl = Inr a \<longleftrightarrow>
     (\<exists>ms. or_default ttl default_claim_ttl_ms = JFin ms \<and> 0 < ms \<and>
        a = \<lparr>ra_request_id = i, ra_reviewer = reviewer, ra_assigned_at = now,
             ra_expires_at = date_plus now ms\<rparr>)"
  by (auto simp: assignment_claim_def Let_def split: jsnum.splits)

lemma transition_to_Inr:
  "transition_to clock s r = Inr r' \<longleftrightarrow>
     can_transition_to (vr_status r) s \<and> r' = request_copy clock (no_overrides\<lparr>ov_status := Some s\<rparr>) r"
  by (auto simp: transition_to_def)

lemma decision_permitted_iff:
  "decision_not_permitted reviewer now r = None \<longleftrightarrow>
     (\<exists>a. vr_assignment r = Some a \<and> assignment_active_at a now \<and> assignment_held_by a reviewer)"
  by (auto simp: decision_not_permitted_def split: option.splits)

text \<open>What each operation needs, and what it leaves behind.\<close>

lemma claim_by_Inr:
  "claim_by reviewer now ttl r = Inr r' \<longleftrightarrow>
     is_claimable_at r now \<and>
     (\<exists>a. assignment_claim (vr_id r) reviewer now ttl = Inr a \<and>
        r' = request_copy now (no_overrides\<lparr>ov_assignment := Some (Some a), ov_updated_at := Some now\<rparr>) r)"
  by (auto simp: claim_by_def is_claimable_at_def assignment_expired_at_def
      split: option.splits sum.splits if_splits)

lemma request_decide_Inr:
  assumes "outcome = Approved \<or> outcome = Rejected"
  shows "request_decide outcome reviewer note now r = Inr r' \<Longrightarrow>
     vr_status r = InReview \<and>
     (\<exists>a. vr_assignment r = Some a \<and> assignment_active_at a now \<and> ra_reviewer a = reviewer) \<and>
     vr_status r' = outcome \<and> vr_assignment r' = None \<and>
     vr_decision r' = Some \<lparr>vd_decided_by = reviewer, vd_decided_at = now, vd_note = note\<rparr> \<and>
     vr_note r' = vr_note r \<and> vr_id r' = vr_id r"
  using assms
  by (auto simp: request_decide_def decision_permitted_iff assignment_held_by_def
      split: option.splits if_splits)

lemma request_more_information_Inr:
  "request_more_information reviewer note now r = Inr r' \<Longrightarrow>
     vr_status r = InReview \<and>
     (\<exists>a. vr_assignment r = Some a \<and> assignment_active_at a now \<and> ra_reviewer a = reviewer) \<and>
     vr_status r' = NeedsMoreInfo \<and> vr_assignment r' = None \<and> vr_decision r' = vr_decision r \<and>
     vr_note r' = Some note \<and> vr_id r' = vr_id r"
  by (auto simp: request_more_information_def decision_permitted_iff assignment_held_by_def
      split: option.splits if_splits)

lemma request_new_ok [wf_intros]: "request_ok (verification_request_new fresh clock subject org t)"
  by (simp add: verification_request_new_def request_ok_def is_terminal_def)

lemma request_submit_ok [wf_intros]: "request_ok r \<Longrightarrow> request_submit clock r = Inr r' \<Longrightarrow> request_ok r'"
  by (auto simp: request_submit_def transition_to_Inr request_ok_def is_terminal_def)

lemma start_review_ok [wf_intros]: "request_ok r \<Longrightarrow> start_review clock r = Inr r' \<Longrightarrow> request_ok r'"
  by (auto simp: start_review_def transition_to_Inr request_ok_def is_terminal_def)

lemma reopen_ok [wf_intros]:
  "request_ok r \<Longrightarrow> reopen_for_evidence clock clock' r = Inr r' \<Longrightarrow> request_ok r'"
  by (auto simp: reopen_for_evidence_def transition_to_Inr request_ok_def is_terminal_def
      split: sum.splits)

lemma claim_by_ok [wf_intros]: "request_ok r \<Longrightarrow> claim_by reviewer now ttl r = Inr r' \<Longrightarrow> request_ok r'"
  by (auto simp: claim_by_Inr assignment_claim_Inr request_ok_def is_claimable_at_def split: if_splits)

lemma request_decide_ok [wf_intros]:
  assumes "request_ok r" "outcome = Approved \<or> outcome = Rejected"
    "request_decide outcome reviewer note now r = Inr r'"
  shows "request_ok r'"
  using request_decide_Inr [OF assms(2,3)] assms(1,2) by (auto simp: request_ok_def is_terminal_def)

lemma request_more_information_ok [wf_intros]:
  assumes "request_ok r" "request_more_information reviewer note now r = Inr r'"
  shows "request_ok r'"
  using request_more_information_Inr [OF assms(2)] assms(1) by (auto simp: request_ok_def is_terminal_def)

section \<open>Round trip through the database row\<close>

lemma db_type_round_trip:
  "\<exists>s. to_db_verification_type t = Some s \<and> from_db_verification_type s = Some t"
  by (cases t) (simp_all add: to_db_verification_type_def from_db_verification_type_def
      db_verification_types_def)

lemma request_row_round_trip:
  assumes "request_ok r"
  obtains row where "request_to_row r = Some row" "request_to_domain row = Inr (r\<lparr>vr_events := []\<rparr>)"
proof -
  obtain t where t: "to_db_verification_type (vr_type r) = Some t"
    "from_db_verification_type t = Some (vr_type r)" using db_type_round_trip by blast
  have a: "ra_request_id a = vr_id r" if "vr_assignment r = Some a" for a
    using assms that by (auto simp: request_ok_def)
  have da: "\<lparr>vd_decided_by = vd_decided_by d, vd_decided_at = vd_decided_at d, vd_note = vd_note d\<rparr> = d"
    for d by simp
  have aa: "\<lparr>ra_request_id = ra_request_id a, ra_reviewer = ra_reviewer a,
      ra_assigned_at = ra_assigned_at a, ra_expires_at = ra_expires_at a\<rparr> = a" for a
    by simp
  have "request_ok (r\<lparr>vr_events := []\<rparr>)" using assms by (simp add: request_ok_def)
  then have rec: "request_reconstitute (r\<lparr>vr_events := []\<rparr>) = Inr (r\<lparr>vr_events := []\<rparr>)"
    by (simp add: request_reconstitute_ok)
  obtain row where row: "request_to_row r = Some row" using t by (simp add: request_to_row_def)
  have "request_to_domain row = Inr (r\<lparr>vr_events := []\<rparr>)"
    using row t a rec
    by (cases r; cases "vr_assignment r"; cases "vr_decision r")
      (auto simp: request_to_row_def request_to_domain_def da aa simp del: not_None_eq)
  with row show ?thesis by (rule that)
qed

end
