(* ===== verification/VerificationFlows.thy ===== *)
theory VerificationFlows
  imports Verification
begin

text \<open>
  The use cases of \<open>packages/verification\<close> over the \<open>VerificationRequestRepository\<close> port: a record
  of operations with its contract as the locale \<open>verification_store\<close>, interpreted on the in-memory
  repository of \<open>infrastructure/testing\<close>. A use case is a function from the store to its result and
  the store after it; \<open>command.now ?? new Date()\<close> is the argument \<open>now\<close>.
\<close>

section \<open>The repository port\<close>

datatype queue_assignment = AnyAssignment | Assigned | Unassigned

record queue_options =
  qo_statuses :: "verification_status list option"
  qo_type :: "verification_type option"
  qo_assignment :: "queue_assignment option"
  qo_now :: "date option"
  qo_limit :: "int option"
  qo_offset :: "int option"

record claim_next_params =
  cn_reviewer :: string
  cn_now :: date
  cn_ttl :: jsnum
  cn_one_at_a_time :: bool

datatype claim_next_outcome = Claimed verification_request | NoneToClaim | AlreadyClaiming

record 's verification_repo =
  vq_save :: "verification_request \<Rightarrow> 's \<Rightarrow> 's"
  vq_find :: "'s \<Rightarrow> string \<Rightarrow> verification_request option"
  vq_find_by_subject :: "'s \<Rightarrow> string \<Rightarrow> verification_request list"
  vq_candidates :: "date \<Rightarrow> 's \<Rightarrow> queue_options \<Rightarrow> verification_request list"
  vq_active_claim :: "'s \<Rightarrow> string \<Rightarrow> date \<Rightarrow> verification_request option"
  vq_claim_next :: "claim_next_params \<Rightarrow> 's \<Rightarrow> claim_next_outcome \<times> 's"

section \<open>The in-memory repository\<close>

type_synonym mem_requests = "(string, verification_request) js_map"

definition mem_request_save :: "verification_request \<Rightarrow> mem_requests \<Rightarrow> mem_requests" where
  "mem_request_save request m = map_set (vr_id request) request m"

definition mem_request_find :: "mem_requests \<Rightarrow> string \<Rightarrow> verification_request option" where
  "mem_request_find m i = map_get m i"

text \<open>\<open>sort(byCreatedAt)\<close>: the array sort of the language is stable.\<close>

definition mem_request_find_by_subject :: "mem_requests \<Rightarrow> string \<Rightarrow> verification_request list" where
  "mem_request_find_by_subject m subject =
     sort_key vr_created_at (filter (\<lambda>r. vr_subject r = subject) (map_values m))"

definition matches_assignment :: "verification_request \<Rightarrow> queue_assignment \<Rightarrow> date \<Rightarrow> bool" where
  "matches_assignment request filter' now =
     (if filter' = AnyAssignment then True
      else
        let assigned = (case vr_assignment request of None \<Rightarrow> False | Some c \<Rightarrow> assignment_active_at c now)
        in if filter' = Assigned then assigned else \<not> assigned)"

definition js_slice_to :: "int \<Rightarrow> 'a list \<Rightarrow> 'a list" where
  "js_slice_to n xs = (if n \<ge> 0 then take (nat n) xs else take (length xs - nat (- n)) xs)"

definition queue_matches :: "date \<Rightarrow> queue_options \<Rightarrow> verification_request \<Rightarrow> bool" where
  "queue_matches now options request \<longleftrightarrow>
     (case qo_statuses options of None \<Rightarrow> True | Some ss \<Rightarrow> vr_status request \<in> set ss) \<and>
     (case qo_type options of None \<Rightarrow> True | Some t \<Rightarrow> vr_type request = t) \<and>
     matches_assignment request (or_default (qo_assignment options) AnyAssignment) now"

definition mem_request_candidates :: "date \<Rightarrow> mem_requests \<Rightarrow> queue_options \<Rightarrow> verification_request list" where
  "mem_request_candidates clock m options =
     (let offset = or_default (qo_offset options) 0;
          now = or_default (qo_now options) clock;
          rows = sort_key vr_created_at (filter (queue_matches now options) (map_values m));
          rows = (if offset > 0 then drop (nat offset) rows else rows)
      in case qo_limit options of None \<Rightarrow> rows | Some limit \<Rightarrow> js_slice_to limit rows)"

definition holds_active_claim :: "string \<Rightarrow> date \<Rightarrow> verification_request \<Rightarrow> bool" where
  "holds_active_claim reviewer now request \<longleftrightarrow>
     (case vr_assignment request of None \<Rightarrow> False
      | Some a \<Rightarrow> assignment_active_at a now \<and> assignment_held_by a reviewer)"

definition mem_active_claim_of :: "mem_requests \<Rightarrow> string \<Rightarrow> date \<Rightarrow> verification_request option" where
  "mem_active_claim_of m reviewer now = find (holds_active_claim reviewer now) (map_values m)"

definition mem_claim_next :: "claim_next_params \<Rightarrow> mem_requests \<Rightarrow> claim_next_outcome \<times> mem_requests" where
  "mem_claim_next params m =
     (if cn_one_at_a_time params \<and> mem_active_claim_of m (cn_reviewer params) (cn_now params) \<noteq> None
      then (AlreadyClaiming, m)
      else case sort_key vr_created_at (filter (\<lambda>r. is_claimable_at r (cn_now params)) (map_values m)) of
        [] \<Rightarrow> (NoneToClaim, m)
      | candidate # _ \<Rightarrow>
          (case claim_by (cn_reviewer params) (cn_now params) (Some (cn_ttl params)) candidate of
             Inl _ \<Rightarrow> (NoneToClaim, m)
           | Inr claimed \<Rightarrow> (Claimed claimed, map_set (vr_id claimed) claimed m)))"

definition mem_verification_repo :: "mem_requests verification_repo" where
  "mem_verification_repo =
     \<lparr>vq_save = mem_request_save, vq_find = mem_request_find,
      vq_find_by_subject = mem_request_find_by_subject,
      vq_candidates = mem_request_candidates, vq_active_claim = mem_active_claim_of,
      vq_claim_next = mem_claim_next\<rparr>"

section \<open>The use cases\<close>

record decide_command =
  dc_request_id :: string
  dc_reviewer :: string
  dc_note :: string

text \<open>\<open>ApproveVerification\<close>.\<close>

definition approve_execute ::
  "'s verification_repo \<Rightarrow> date \<Rightarrow> decide_command \<Rightarrow> 's \<Rightarrow> (verification_error + verification_request) \<times> 's" where
  "approve_execute repo now command s =
     (let note = js_trim (dc_note command)
      in if length note = 0 then (Inl (VerificationFailed (ValidationError [(''note'', [''required''])])), s)
         else case vq_find repo s (dc_request_id command) of
           None \<Rightarrow> (Inl (VerificationFailed NotFoundError), s)
         | Some request \<Rightarrow>
             (case request_approve (dc_reviewer command) note now request of
                Inl e \<Rightarrow> (Inl e, s)
              | Inr approved \<Rightarrow> (Inr approved, vq_save repo approved s)))"

text \<open>\<open>RejectVerification\<close>.\<close>

definition reject_execute ::
  "'s verification_repo \<Rightarrow> date \<Rightarrow> decide_command \<Rightarrow> 's \<Rightarrow> (verification_error + verification_request) \<times> 's" where
  "reject_execute repo now command s =
     (let note = js_trim (dc_note command)
      in if length note = 0 then (Inl (VerificationFailed (ValidationError [(''note'', [''required''])])), s)
         else case vq_find repo s (dc_request_id command) of
           None \<Rightarrow> (Inl (VerificationFailed NotFoundError), s)
         | Some request \<Rightarrow>
             (case request_reject (dc_reviewer command) note now request of
                Inl e \<Rightarrow> (Inl e, s)
              | Inr rejected \<Rightarrow> (Inr rejected, vq_save repo rejected s)))"

text \<open>\<open>RequestMoreInformation\<close>.\<close>

definition more_information_execute ::
  "'s verification_repo \<Rightarrow> date \<Rightarrow> decide_command \<Rightarrow> 's \<Rightarrow> (verification_error + verification_request) \<times> 's" where
  "more_information_execute repo now command s =
     (let note = js_trim (dc_note command)
      in if length note = 0 then (Inl (VerificationFailed (ValidationError [(''note'', [''required''])])), s)
         else case vq_find repo s (dc_request_id command) of
           None \<Rightarrow> (Inl (VerificationFailed NotFoundError), s)
         | Some request \<Rightarrow>
             (case request_more_information (dc_reviewer command) note now request of
                Inl e \<Rightarrow> (Inl e, s)
              | Inr updated \<Rightarrow> (Inr updated, vq_save repo updated s)))"

text \<open>\<open>ClaimNextReviewCase\<close> with its queue policy.\<close>

record claim_policy =
  cp_ttl :: "jsnum option"
  cp_one_at_a_time :: "bool option"

definition claim_next_execute ::
  "'s verification_repo \<Rightarrow> claim_policy \<Rightarrow> date \<Rightarrow> string \<Rightarrow> 's \<Rightarrow> claim_next_outcome \<times> 's" where
  "claim_next_execute repo policy now reviewer s =
     vq_claim_next repo \<lparr>cn_reviewer = reviewer, cn_now = now,
       cn_ttl = or_default (cp_ttl policy) default_claim_ttl_ms,
       cn_one_at_a_time = or_default (cp_one_at_a_time policy) True\<rparr> s"

text \<open>\<open>RunAutomatedCheck\<close>; a check that throws counts as inconclusive.\<close>

definition automated_check :: "verification_provider \<Rightarrow> evidence \<Rightarrow> provider_check_result" where
  "automated_check provider item =
     (case (if ev_type item = Selfie then vp_check_liveness provider item
            else vp_check_document provider item) of
        None \<Rightarrow> provider_inconclusive None
      | Some r \<Rightarrow> (if provider_result_valid r then r else provider_inconclusive None))"

definition run_automated_check ::
  "'s verification_repo \<Rightarrow> verification_provider \<Rightarrow> date \<Rightarrow> string \<Rightarrow> evidence list \<Rightarrow> 's
     \<Rightarrow> (verification_error + verification_request \<times> (string \<times> provider_check_result) list) \<times> 's" where
  "run_automated_check repo provider clock request_id items s =
     (case vq_find repo s request_id of
        None \<Rightarrow> (Inl (VerificationFailed NotFoundError), s)
      | Some request \<Rightarrow>
          (if \<not> list_all (\<lambda>item. evidence_belongs_to item (vr_id request)) items
           then (Inl (VerificationFailed (ValidationError [(''evidence'', [''mismatched_request''])])), s)
           else
             let results = map (\<lambda>item. (ev_id item, automated_check provider item)) items
             in case start_review clock request of
                  Inl e \<Rightarrow> (Inl e, s)
                | Inr reviewed \<Rightarrow> (Inr (reviewed, results), vq_save repo reviewed s)))"

text \<open>\<open>ListReviewQueue\<close>.\<close>

definition reviewable_statuses :: "verification_status list" where
  "reviewable_statuses = [Submitted, InReview]"

record review_queue_query =
  rq_status :: "verification_status option"
  rq_type :: "verification_type option"
  rq_assignment :: "queue_assignment option"
  rq_limit :: "jsnum option"
  rq_offset :: "jsnum option"

record review_queue_claim =
  rc_reviewer :: string
  rc_claimed_at :: date
  rc_expires_at :: date

record review_queue_item =
  ri_request_id :: string
  ri_subject :: string
  ri_organization :: string
  ri_type :: verification_type
  ri_status :: verification_status
  ri_created_at :: int
  ri_updated_at :: date
  ri_claim :: "review_queue_claim option"

record review_queue_page =
  rp_items :: "review_queue_item list"
  rp_limit :: int
  rp_offset :: int
  rp_has_more :: bool

definition default_queue_page_size :: jsnum where
  "default_queue_page_size = JFin 25"

definition max_queue_page_size :: int where
  "max_queue_page_size = 100"

text \<open>\<open>Number.isInteger\<close>, with the integer.\<close>

fun num_integer :: "jsnum \<Rightarrow> int option" where
  "num_integer (JFin q) = (if of_int \<lfloor>q\<rfloor> = q then Some \<lfloor>q\<rfloor> else None)"
| "num_integer _ = None"

definition resolve_statuses ::
  "verification_status option \<Rightarrow> (string \<times> string list) list
     \<Rightarrow> verification_status list option \<times> (string \<times> string list) list" where
  "resolve_statuses status errors =
     (case status of
        None \<Rightarrow> (Some reviewable_statuses, errors)
      | Some s \<Rightarrow> (if s \<notin> set reviewable_statuses then (None, errors @ [(''status'', [''not_reviewable''])])
                  else (Some [s], errors)))"

definition to_queue_item :: "verification_request \<Rightarrow> date \<Rightarrow> review_queue_item" where
  "to_queue_item request now =
     \<lparr>ri_request_id = vr_id request, ri_subject = vr_subject request,
      ri_organization = vr_organization request, ri_type = vr_type request,
      ri_status = vr_status request, ri_created_at = vr_created_at request,
      ri_updated_at = vr_updated_at request,
      ri_claim = (case vr_assignment request of None \<Rightarrow> None
        | Some claim \<Rightarrow>
            (if \<not> assignment_active_at claim now then None
             else Some \<lparr>rc_reviewer = ra_reviewer claim, rc_claimed_at = ra_assigned_at claim,
                    rc_expires_at = ra_expires_at claim\<rparr>))\<rparr>"

definition list_review_queue ::
  "'s verification_repo \<Rightarrow> date \<Rightarrow> review_queue_query \<Rightarrow> 's \<Rightarrow> review_queue_page result" where
  "list_review_queue repo now query s =
     (let (statuses, errors) = resolve_statuses (rq_status query) [];
          limit = num_integer (or_default (rq_limit query) default_queue_page_size);
          limit_ok = (case limit of None \<Rightarrow> False | Some n \<Rightarrow> \<not> (n < 1 \<or> n > max_queue_page_size));
          errors = (if limit_ok then errors
            else errors @ [(''limit'', [''must be an integer between 1 and 100''])]);
          offset = num_integer (or_default (rq_offset query) (JFin 0));
          offset_ok = (case offset of None \<Rightarrow> False | Some n \<Rightarrow> \<not> n < 0);
          errors = (if offset_ok then errors
            else errors @ [(''offset'', [''must be a non-negative integer''])])
      in if length errors > 0 then Inl (ValidationError errors)
         else
           let rows = vq_candidates repo now s
                 \<lparr>qo_statuses = statuses, qo_type = rq_type query, qo_assignment = rq_assignment query,
                  qo_now = Some now, qo_limit = Some (the limit + 1), qo_offset = offset\<rparr>;
               has_more = int (length rows) > the limit;
               items = map (\<lambda>r. to_queue_item r now) (if has_more then js_slice_to (the limit) rows else rows)
           in Inr \<lparr>rp_items = items, rp_limit = the limit, rp_offset = the offset, rp_has_more = has_more\<rparr>)"

section \<open>The contract of the repository\<close>

locale verification_store =
  fixes repo :: "'s verification_repo"
    and ok :: "'s \<Rightarrow> bool"
  assumes ok_save: "ok s \<Longrightarrow> ok (vq_save repo r s)"
    and find_save:
      "ok s \<Longrightarrow> vq_find repo (vq_save repo r s) i = (if i = vr_id r then Some r else vq_find repo s i)"
    and find_id: "ok s \<Longrightarrow> vq_find repo s i = Some r \<Longrightarrow> vr_id r = i"
    and ok_claim: "ok s \<Longrightarrow> vq_claim_next repo p s = (outcome, s') \<Longrightarrow> ok s'"
    and claim_claimed:
      "ok s \<Longrightarrow> vq_claim_next repo p s = (Claimed r', s') \<Longrightarrow>
       \<exists>r. vq_find repo s (vr_id r) = Some r \<and>
         claim_by (cn_reviewer p) (cn_now p) (Some (cn_ttl p)) r = Inr r' \<and>
         (\<forall>i q. vq_find repo s i = Some q \<longrightarrow> is_claimable_at q (cn_now p) \<longrightarrow>
            vr_created_at r \<le> vr_created_at q) \<and>
         (cn_one_at_a_time p \<longrightarrow> (\<forall>i q. vq_find repo s i = Some q \<longrightarrow>
            \<not> holds_active_claim (cn_reviewer p) (cn_now p) q)) \<and>
         (\<forall>i. vq_find repo s' i = (if i = vr_id r then Some r' else vq_find repo s i))"
    and claim_refused: "vq_claim_next repo p s = (outcome, s') \<Longrightarrow> (\<forall>r. outcome \<noteq> Claimed r) \<Longrightarrow> s' = s"
    and claim_none:
      "ok s \<Longrightarrow> vq_claim_next repo p s = (NoneToClaim, s') \<Longrightarrow> cn_ttl p = JFin ms \<Longrightarrow> 0 < ms \<Longrightarrow>
       vq_find repo s i = Some q \<Longrightarrow> \<not> is_claimable_at q (cn_now p)"
    and claim_already:
      "ok s \<Longrightarrow> vq_claim_next repo p s = (AlreadyClaiming, s') \<Longrightarrow>
       cn_one_at_a_time p \<and>
       (\<exists>i q. vq_find repo s i = Some q \<and> holds_active_claim (cn_reviewer p) (cn_now p) q)"
    and candidates:
      "ok s \<Longrightarrow> \<exists>rows. distinct (map vr_id rows) \<and> sorted (map vr_created_at rows) \<and>
         set rows = {r. \<exists>i. vq_find repo s i = Some r \<and>
           queue_matches now \<lparr>qo_statuses = ss, qo_type = t, qo_assignment = a, qo_now = Some now,
             qo_limit = None, qo_offset = None\<rparr> r} \<and>
         (\<forall>limit offset. 0 \<le> limit \<longrightarrow> 0 \<le> offset \<longrightarrow>
           vq_candidates repo clock s \<lparr>qo_statuses = ss, qo_type = t, qo_assignment = a,
             qo_now = Some now, qo_limit = Some limit, qo_offset = Some offset\<rparr>
           = take (nat limit) (drop (nat offset) rows))"

section \<open>The in-memory repository meets it\<close>

definition mem_requests_ok :: "mem_requests \<Rightarrow> bool" where
  "mem_requests_ok m \<longleftrightarrow> map_wf m \<and> list_all (\<lambda>(i, r). vr_id r = i) m"

lemma mem_requests_ok_id: "mem_requests_ok m \<Longrightarrow> map_get m i = Some r \<Longrightarrow> vr_id r = i"
  by (auto simp: mem_requests_ok_def list_all_iff dest: map_of_SomeD)

lemma list_all_update: "list_all P m \<Longrightarrow> P (k, v) \<Longrightarrow> list_all P (map_set k v m)"
  by (induction m) auto

lemma mem_requests_ok_set: "mem_requests_ok m \<Longrightarrow> mem_requests_ok (map_set (vr_id r) r m)"
  by (simp add: mem_requests_ok_def list_all_update map_wf_set)

lemma mem_requests_values_iff:
  assumes "mem_requests_ok m"
  shows "r \<in> set (map_values m) \<longleftrightarrow> map_get m (vr_id r) = Some r"
proof -
  have "r \<in> set (map_values m) \<longleftrightarrow> (\<exists>k. map_get m k = Some r)"
    using assms by (simp add: mem_requests_ok_def map_values_iff)
  then show ?thesis using mem_requests_ok_id [OF assms] by metis
qed

lemma mem_requests_values_ids:
  assumes "mem_requests_ok m"
  shows "map vr_id (map_values m) = map fst m"
  using assms by (auto simp: mem_requests_ok_def list_all_iff map_values_def)

lemma mem_active_claim_None:
  "mem_active_claim_of m reviewer now = None \<longleftrightarrow>
     (\<forall>r \<in> set (map_values m). \<not> holds_active_claim reviewer now r)"
  by (auto simp: mem_active_claim_of_def find_None_iff)

lemma mem_active_claim_Some:
  assumes "mem_requests_ok m"
  shows "mem_active_claim_of m reviewer now \<noteq> None \<longleftrightarrow>
     (\<exists>i q. map_get m i = Some q \<and> holds_active_claim reviewer now q)"
  using mem_active_claim_None [of m reviewer now] assms
  by (metis map_values_iff mem_requests_ok_def)

lemma sort_key_Cons_minimal:
  assumes "sort_key k xs = y # ys"
  shows "y \<in> set xs" "\<forall>x \<in> set xs. k y \<le> k x"
proof -
  have "set (sort_key k xs) = set xs" "sorted (map k (sort_key k xs))" by simp_all
  with assms show "y \<in> set xs" "\<forall>x \<in> set xs. k y \<le> k x" by auto
qed

lemma sort_key_Nil_iff: "sort_key k xs = [] \<longleftrightarrow> xs = []"
  by (metis length_0_conv length_sort)

lemma mem_claim_next_cases:
  obtains (already) "mem_claim_next p m = (AlreadyClaiming, m)" "cn_one_at_a_time p"
      "mem_active_claim_of m (cn_reviewer p) (cn_now p) \<noteq> None"
  | (none) "mem_claim_next p m = (NoneToClaim, m)"
      "filter (\<lambda>r. is_claimable_at r (cn_now p)) (map_values m) = []"
  | (failed) r e where "mem_claim_next p m = (NoneToClaim, m)" "r \<in> set (map_values m)"
      "is_claimable_at r (cn_now p)"
      "claim_by (cn_reviewer p) (cn_now p) (Some (cn_ttl p)) r = Inl e"
  | (claimed) r r' where "mem_claim_next p m = (Claimed r', map_set (vr_id r') r' m)"
      "r \<in> set (map_values m)" "is_claimable_at r (cn_now p)"
      "claim_by (cn_reviewer p) (cn_now p) (Some (cn_ttl p)) r = Inr r'"
      "\<forall>q \<in> set (map_values m). is_claimable_at q (cn_now p) \<longrightarrow> vr_created_at r \<le> vr_created_at q"
      "cn_one_at_a_time p \<longrightarrow> mem_active_claim_of m (cn_reviewer p) (cn_now p) = None"
proof (cases "cn_one_at_a_time p \<and> mem_active_claim_of m (cn_reviewer p) (cn_now p) \<noteq> None")
  case True
  then show ?thesis using already by (simp add: mem_claim_next_def)
next
  case free: False
  let ?free = "filter (\<lambda>r. is_claimable_at r (cn_now p)) (map_values m)"
  show ?thesis
  proof (cases "sort_key vr_created_at ?free")
    case Nil
    then show ?thesis using free none by (auto simp: mem_claim_next_def sort_key_Nil_iff)
  next
    case (Cons r rs)
    then have r: "r \<in> set (map_values m)" "is_claimable_at r (cn_now p)"
      "\<forall>q \<in> set (map_values m). is_claimable_at q (cn_now p) \<longrightarrow> vr_created_at r \<le> vr_created_at q"
      using sort_key_Cons_minimal [OF Cons] by auto
    show ?thesis
    proof (cases "claim_by (cn_reviewer p) (cn_now p) (Some (cn_ttl p)) r")
      case (Inl e)
      then show ?thesis using failed r Cons free by (simp add: mem_claim_next_def)
    next
      case (Inr r')
      then show ?thesis using claimed r Cons free by (simp add: mem_claim_next_def)
    qed
  qed
qed

lemma claim_by_id: "claim_by reviewer now ttl r = Inr r' \<Longrightarrow> vr_id r' = vr_id r"
  by (auto simp: claim_by_Inr)

lemma claim_by_not_failed:
  "is_claimable_at r now \<Longrightarrow> ttl = JFin ms \<Longrightarrow> 0 < ms \<Longrightarrow> claim_by reviewer now (Some ttl) r \<noteq> Inl e"
  by (auto simp: claim_by_def is_claimable_at_def assignment_expired_at_def assignment_claim_def
      split: option.splits)

lemma mem_candidates_page:
  assumes "0 \<le> limit" "0 \<le> offset"
  shows "mem_request_candidates clock m \<lparr>qo_statuses = ss, qo_type = t, qo_assignment = a,
      qo_now = Some now, qo_limit = Some limit, qo_offset = Some offset\<rparr> =
    take (nat limit) (drop (nat offset) (sort_key vr_created_at
      (filter (queue_matches now \<lparr>qo_statuses = ss, qo_type = t, qo_assignment = a,
         qo_now = Some now, qo_limit = None, qo_offset = None\<rparr>) (map_values m))))"
proof -
  have "queue_matches now \<lparr>qo_statuses = ss, qo_type = t, qo_assignment = a, qo_now = Some now,
      qo_limit = Some limit, qo_offset = Some offset\<rparr> =
    queue_matches now \<lparr>qo_statuses = ss, qo_type = t, qo_assignment = a, qo_now = Some now,
      qo_limit = None, qo_offset = None\<rparr>"
    by (rule ext) (simp add: queue_matches_def)
  then show ?thesis using assms by (auto simp: mem_request_candidates_def js_slice_to_def Let_def)
qed

interpretation mem_verification: verification_store mem_verification_repo mem_requests_ok
proof
  fix m :: mem_requests and r r' q i p outcome m' ms
  show "mem_requests_ok m \<Longrightarrow> mem_requests_ok (vq_save mem_verification_repo r m)"
    by (simp add: mem_verification_repo_def mem_request_save_def mem_requests_ok_set)
  show "mem_requests_ok m \<Longrightarrow> vq_find mem_verification_repo (vq_save mem_verification_repo r m) i =
      (if i = vr_id r then Some r else vq_find mem_verification_repo m i)"
    by (simp add: mem_verification_repo_def mem_request_save_def mem_request_find_def)
  show "mem_requests_ok m \<Longrightarrow> vq_find mem_verification_repo m i = Some r \<Longrightarrow> vr_id r = i"
    by (simp add: mem_verification_repo_def mem_request_find_def mem_requests_ok_id)
  show "mem_requests_ok m \<Longrightarrow> vq_claim_next mem_verification_repo p m = (outcome, m') \<Longrightarrow>
      mem_requests_ok m'"
    by (cases rule: mem_claim_next_cases [of p m])
      (auto simp: mem_verification_repo_def mem_requests_ok_set)
  show "vq_claim_next mem_verification_repo p m = (outcome, m') \<Longrightarrow> (\<forall>r. outcome \<noteq> Claimed r) \<Longrightarrow> m' = m"
    by (cases rule: mem_claim_next_cases [of p m]) (auto simp: mem_verification_repo_def)
  show "mem_requests_ok m \<Longrightarrow> vq_claim_next mem_verification_repo p m = (NoneToClaim, m') \<Longrightarrow>
      cn_ttl p = JFin ms \<Longrightarrow> 0 < ms \<Longrightarrow> vq_find mem_verification_repo m i = Some q \<Longrightarrow>
      \<not> is_claimable_at q (cn_now p)"
    using mem_requests_values_iff [of m q] mem_requests_ok_id [of m i q]
    by (cases rule: mem_claim_next_cases [of p m])
      (auto simp: mem_verification_repo_def mem_request_find_def filter_empty_conv
        dest: claim_by_not_failed)
  show "mem_requests_ok m \<Longrightarrow> vq_claim_next mem_verification_repo p m = (AlreadyClaiming, m') \<Longrightarrow>
      cn_one_at_a_time p \<and> (\<exists>i q. vq_find mem_verification_repo m i = Some q \<and>
        holds_active_claim (cn_reviewer p) (cn_now p) q)"
    by (cases rule: mem_claim_next_cases [of p m])
      (simp_all add: mem_verification_repo_def mem_request_find_def mem_active_claim_Some
        del: not_None_eq)
next
  fix m :: mem_requests and p r' m'
  assume ok: "mem_requests_ok m"
    and "vq_claim_next mem_verification_repo p m = (Claimed r', m')"
  then have c: "mem_claim_next p m = (Claimed r', m')" by (simp add: mem_verification_repo_def)
  then show "\<exists>r. vq_find mem_verification_repo m (vr_id r) = Some r \<and>
      claim_by (cn_reviewer p) (cn_now p) (Some (cn_ttl p)) r = Inr r' \<and>
      (\<forall>i q. vq_find mem_verification_repo m i = Some q \<longrightarrow> is_claimable_at q (cn_now p) \<longrightarrow>
         vr_created_at r \<le> vr_created_at q) \<and>
      (cn_one_at_a_time p \<longrightarrow> (\<forall>i q. vq_find mem_verification_repo m i = Some q \<longrightarrow>
         \<not> holds_active_claim (cn_reviewer p) (cn_now p) q)) \<and>
      (\<forall>i. vq_find mem_verification_repo m' i =
         (if i = vr_id r then Some r' else vq_find mem_verification_repo m i))"
  proof (cases rule: mem_claim_next_cases [of p m])
    case (claimed r r'')
    have vals: "q \<in> set (map_values m)" if "map_get m i = Some q" for i q
      using ok that by (auto simp: mem_requests_ok_def map_values_iff)
    have "r'' = r'" "m' = map_set (vr_id r') r' m" using c claimed(1) by auto
    moreover have "vr_id r' = vr_id r" using claimed(4) calculation by (auto dest: claim_by_id)
    ultimately show ?thesis
      using claimed vals mem_requests_values_iff [OF ok, of r]
      by (intro exI [of _ r])
        (auto simp: mem_verification_repo_def mem_request_find_def mem_active_claim_None)
  qed (use c in auto)
next
  fix m :: mem_requests and now ss t a clock
  assume ok: "mem_requests_ok m"
  let ?match = "queue_matches now \<lparr>qo_statuses = ss, qo_type = t, qo_assignment = a,
     qo_now = Some now, qo_limit = None, qo_offset = None\<rparr>"
  let ?rows = "sort_key vr_created_at (filter ?match (map_values m))"
  have "distinct (map vr_id (map_values m))"
    using ok by (simp add: mem_requests_values_ids) (simp add: mem_requests_ok_def map_wf_def)
  then have "distinct (map vr_id ?rows)"
    by (auto simp: distinct_map intro: inj_on_subset)
  moreover have "set ?rows = {r. \<exists>i. map_get m i = Some r \<and> ?match r}"
    using mem_requests_ok_id [OF ok] by (auto simp: mem_requests_values_iff [OF ok]) 
  ultimately show "\<exists>rows. distinct (map vr_id rows) \<and> sorted (map vr_created_at rows) \<and>
      set rows = {r. \<exists>i. vq_find mem_verification_repo m i = Some r \<and> ?match r} \<and>
      (\<forall>limit offset. 0 \<le> limit \<longrightarrow> 0 \<le> offset \<longrightarrow>
        vq_candidates mem_verification_repo clock m \<lparr>qo_statuses = ss, qo_type = t,
          qo_assignment = a, qo_now = Some now, qo_limit = Some limit, qo_offset = Some offset\<rparr>
        = take (nat limit) (drop (nat offset) rows))"
    by (intro exI [of _ ?rows] conjI)
      (simp_all add: mem_verification_repo_def mem_request_find_def mem_candidates_page)
qed

section \<open>What the use cases do to a store\<close>

context verification_store begin

lemma claim_execute_cases:
  assumes "ok s" "claim_next_execute repo policy now reviewer s = (outcome, s')"
  obtains (unchanged) "s' = s" "\<forall>r. outcome \<noteq> Claimed r"
  | (claimed) r r' where "outcome = Claimed r'" "vq_find repo s (vr_id r) = Some r"
      "claim_by reviewer now (Some (or_default (cp_ttl policy) default_claim_ttl_ms)) r = Inr r'"
      "\<forall>i q. vq_find repo s i = Some q \<longrightarrow> is_claimable_at q now \<longrightarrow> vr_created_at r \<le> vr_created_at q"
      "or_default (cp_one_at_a_time policy) True \<longrightarrow>
         (\<forall>i q. vq_find repo s i = Some q \<longrightarrow> \<not> holds_active_claim reviewer now q)"
      "\<forall>i. vq_find repo s' i = (if i = vr_id r then Some r' else vq_find repo s i)"
proof (cases "\<exists>r. outcome = Claimed r")
  case True
  then obtain r' where r': "outcome = Claimed r'" by blast
  from claim_claimed [OF assms(1) assms(2) [unfolded claim_next_execute_def r']]
  show ?thesis using claimed r' by auto
next
  case False
  with claim_refused [OF assms(2) [unfolded claim_next_execute_def]] show ?thesis using unchanged by auto
qed

lemma approve_execute_Inr:
  assumes "ok s"
  shows "approve_execute repo now c s = (Inr r', s') \<longleftrightarrow>
     (\<exists>r. js_trim (dc_note c) \<noteq> [] \<and> vq_find repo s (dc_request_id c) = Some r \<and>
        request_approve (dc_reviewer c) (js_trim (dc_note c)) now r = Inr r' \<and>
        s' = vq_save repo r' s)"
  by (auto simp: approve_execute_def Let_def split: option.splits sum.splits)

lemma reject_execute_Inr:
  assumes "ok s"
  shows "reject_execute repo now c s = (Inr r', s') \<longleftrightarrow>
     (\<exists>r. js_trim (dc_note c) \<noteq> [] \<and> vq_find repo s (dc_request_id c) = Some r \<and>
        request_reject (dc_reviewer c) (js_trim (dc_note c)) now r = Inr r' \<and>
        s' = vq_save repo r' s)"
  by (auto simp: reject_execute_def Let_def split: option.splits sum.splits)

lemma more_information_execute_Inr:
  assumes "ok s"
  shows "more_information_execute repo now c s = (Inr r', s') \<longleftrightarrow>
     (\<exists>r. js_trim (dc_note c) \<noteq> [] \<and> vq_find repo s (dc_request_id c) = Some r \<and>
        request_more_information (dc_reviewer c) (js_trim (dc_note c)) now r = Inr r' \<and>
        s' = vq_save repo r' s)"
  by (auto simp: more_information_execute_def Let_def split: option.splits sum.splits)

lemma run_automated_check_Inr:
  "run_automated_check repo provider clock i items s = (Inr (r', results), s') \<Longrightarrow>
     \<exists>r. vq_find repo s i = Some r \<and> list_all (\<lambda>e. evidence_belongs_to e (vr_id r)) items \<and>
       results = map (\<lambda>e. (ev_id e, automated_check provider e)) items \<and>
       start_review clock r = Inr r' \<and> s' = vq_save repo r' s"
  by (auto simp: run_automated_check_def Let_def split: option.splits sum.splits if_splits)

end

lemma approve_execute_err: "approve_execute repo now c s = (Inl e, s') \<Longrightarrow> s' = s"
  by (auto simp: approve_execute_def Let_def split: option.splits sum.splits if_splits)

lemma reject_execute_err: "reject_execute repo now c s = (Inl e, s') \<Longrightarrow> s' = s"
  by (auto simp: reject_execute_def Let_def split: option.splits sum.splits if_splits)

lemma more_information_execute_err: "more_information_execute repo now c s = (Inl e, s') \<Longrightarrow> s' = s"
  by (auto simp: more_information_execute_def Let_def split: option.splits sum.splits if_splits)

lemma run_automated_check_err: "run_automated_check repo provider clock i items s = (Inl e, s') \<Longrightarrow> s' = s"
  by (auto simp: run_automated_check_def Let_def split: option.splits sum.splits if_splits)

lemma automated_check_valid: "provider_result_valid (automated_check provider e)"
  by (auto simp: automated_check_def provider_inconclusive_def provider_result_valid_def
      max_confidence_score_def num_le_def num_eq_def split: option.splits)

end
