(* ===== verification/VerificationRuns.thy ===== *)
theory VerificationRuns
  imports VerificationFlows
begin

text \<open>
  Runs of the verification package: a request moves only along the aggregate's own operations
  (\<open>request_move\<close>), a system step is one complete call against the store at a clock that never
  goes back (\<open>review_step\<close>), and two decisions of one case may interleave at their \<open>await\<close>
  (\<open>decision_turn\<close>).
\<close>

section \<open>Calls\<close>

datatype review_call =
    OpenRequest string string string verification_type
  | SubmitEvidence string
  | ReopenForEvidence string
  | AutomatedCheck string "evidence list"
  | ClaimNext string
  | ApproveCase decide_command
  | RejectCase decide_command
  | AskForMore decide_command

text \<open>
  The evidence flow loads a request, applies \<open>submit\<close> or \<open>reopenForEvidence\<close>, and saves the result
  if the transition is legal.
\<close>

definition transition_stored ::
  "'s verification_repo \<Rightarrow> (verification_request \<Rightarrow> verification_error + verification_request)
     \<Rightarrow> string \<Rightarrow> 's \<Rightarrow> 's" where
  "transition_stored repo f i s =
     (case vq_find repo s i of None \<Rightarrow> s
      | Some r \<Rightarrow> (case f r of Inl e \<Rightarrow> s | Inr r' \<Rightarrow> vq_save repo r' s))"

fun review_run ::
  "'s verification_repo \<Rightarrow> claim_policy \<Rightarrow> verification_provider \<Rightarrow> int \<Rightarrow> review_call \<Rightarrow> 's \<Rightarrow> 's" where
  "review_run repo policy provider now (OpenRequest fresh subject organization t) s =
     vq_save repo (verification_request_new fresh now subject organization t) s"
| "review_run repo policy provider now (SubmitEvidence i) s =
     transition_stored repo (request_submit (Some now)) i s"
| "review_run repo policy provider now (ReopenForEvidence i) s =
     transition_stored repo (reopen_for_evidence (Some now) (Some now)) i s"
| "review_run repo policy provider now (AutomatedCheck i items) s =
     snd (run_automated_check repo provider (Some now) i items s)"
| "review_run repo policy provider now (ClaimNext reviewer) s =
     snd (claim_next_execute repo policy (Some now) reviewer s)"
| "review_run repo policy provider now (ApproveCase c) s = snd (approve_execute repo (Some now) c s)"
| "review_run repo policy provider now (RejectCase c) s = snd (reject_execute repo (Some now) c s)"
| "review_run repo policy provider now (AskForMore c) s = snd (more_information_execute repo (Some now) c s)"

fun call_fresh :: "'s verification_repo \<Rightarrow> 's \<Rightarrow> review_call \<Rightarrow> bool" where
  "call_fresh repo s (OpenRequest fresh _ _ _) = (vq_find repo s fresh = None)"
| "call_fresh repo s _ = True"

inductive review_step ::
  "'s verification_repo \<Rightarrow> claim_policy \<Rightarrow> verification_provider \<Rightarrow> int \<times> 's \<Rightarrow> int \<times> 's \<Rightarrow> bool"
  for repo policy provider where
  call: "t \<le> now \<Longrightarrow> call_fresh repo s c \<Longrightarrow>
    review_step repo policy provider (t, s) (now, review_run repo policy provider now c s)"

abbreviation review_steps ::
  "'s verification_repo \<Rightarrow> claim_policy \<Rightarrow> verification_provider \<Rightarrow> int \<times> 's \<Rightarrow> int \<times> 's \<Rightarrow> bool" where
  "review_steps repo policy provider \<equiv> (review_step repo policy provider)\<^sup>*\<^sup>*"

inductive_cases review_stepE: "review_step repo policy provider (t, s) (t', s')"

text \<open>A checked run of a list of calls, for concrete histories.\<close>

fun review_history ::
  "'s verification_repo \<Rightarrow> claim_policy \<Rightarrow> verification_provider \<Rightarrow> (int \<times> review_call) list
     \<Rightarrow> int \<times> 's \<Rightarrow> (int \<times> 's) option" where
  "review_history repo policy provider [] ts = Some ts"
| "review_history repo policy provider ((now, c) # cs) (t, s) =
     (if t \<le> now \<and> call_fresh repo s c
      then review_history repo policy provider cs (now, review_run repo policy provider now c s)
      else None)"

lemma review_history_steps:
  "review_history repo policy provider cs ts = Some ts' \<Longrightarrow> review_steps repo policy provider ts ts'"
proof (induction cs arbitrary: ts)
  case (Cons nc cs)
  obtain now c t s where [simp]: "nc = (now, c)" "ts = (t, s)" by (cases nc, cases ts)
  from Cons.prems have "review_step repo policy provider ts (now, review_run repo policy provider now c s)"
    by (auto intro: review_step.call split: if_splits)
  with Cons show ?case by (auto split: if_splits intro: converse_rtranclp_into_rtranclp)
qed simp

section \<open>Moves of one request\<close>

text \<open>\<open>free reviewer\<close>: what the queue policy asks of the reviewer before a claim.\<close>

inductive request_move ::
  "int \<Rightarrow> (string \<Rightarrow> bool) \<Rightarrow> verification_request option \<Rightarrow> verification_request \<Rightarrow> bool"
  for now free where
  opened: "request_move now free None (verification_request_new fresh now subject organization t)"
| submitted: "request_submit (Some now) r = Inr r' \<Longrightarrow> request_move now free (Some r) r'"
| reopened: "reopen_for_evidence (Some now) (Some now) r = Inr r' \<Longrightarrow> request_move now free (Some r) r'"
| checked: "start_review (Some now) r = Inr r' \<Longrightarrow> request_move now free (Some r) r'"
| claimed: "claim_by reviewer (Some now) ttl r = Inr r' \<Longrightarrow> free reviewer \<Longrightarrow>
    request_move now free (Some r) r'"
| decided: "outcome = Approved \<or> outcome = Rejected \<Longrightarrow>
    request_decide outcome reviewer note (Some now) r = Inr r' \<Longrightarrow> js_trim note \<noteq> [] \<Longrightarrow>
    request_move now free (Some r) r'"
| asked: "request_more_information reviewer note (Some now) r = Inr r' \<Longrightarrow>
    request_move now free (Some r) r'"

lemma request_submit_Inr:
  "request_submit clock r = Inr r' \<Longrightarrow> vr_status r = PendingEvidence \<and> vr_assignment r' = vr_assignment r \<and>
     vr_decision r' = vr_decision r \<and> vr_status r' = Submitted \<and> vr_id r' = vr_id r"
  by (auto simp: request_submit_def transition_to_Inr)

lemma start_review_Inr:
  "start_review clock r = Inr r' \<Longrightarrow> vr_status r = Submitted \<and> vr_assignment r' = vr_assignment r \<and>
     vr_decision r' = vr_decision r \<and> vr_status r' = InReview \<and> vr_id r' = vr_id r"
  by (auto simp: start_review_def transition_to_Inr)

lemma reopen_Inr:
  "reopen_for_evidence clock clock' r = Inr r' \<Longrightarrow> vr_status r = NeedsMoreInfo \<and>
     vr_assignment r' = vr_assignment r \<and> vr_decision r' = vr_decision r \<and>
     vr_status r' = PendingEvidence \<and> vr_id r' = vr_id r"
  by (auto simp: reopen_for_evidence_def transition_to_Inr split: sum.splits)

lemma claim_by_fields:
  "claim_by reviewer now ttl r = Inr r' \<Longrightarrow> vr_status r = InReview \<and> vr_status r' = InReview \<and>
     vr_decision r' = vr_decision r \<and> vr_id r' = vr_id r \<and>
     (\<exists>a. vr_assignment r' = Some a \<and> ra_reviewer a = reviewer)"
  by (auto simp: claim_by_Inr assignment_claim_Inr is_claimable_at_def split: if_splits)

lemmas request_effects = request_submit_Inr start_review_Inr reopen_Inr claim_by_fields
  request_more_information_Inr request_decide_Inr [OF disjI1 [OF refl]]
  request_decide_Inr [OF disjI2 [OF refl]]

lemma request_move_not_terminal:
  "request_move now free (Some r) r' \<Longrightarrow> \<not> is_terminal (vr_status r)"
  by (cases rule: request_move.cases, assumption)
    (auto simp: is_terminal_def dest: request_effects)

lemma request_move_id: "request_move now free (Some r) r' \<Longrightarrow> vr_id r' = vr_id r"
  by (cases rule: request_move.cases, assumption) (auto dest: request_effects)

lemma request_move_ok: "request_move now free ro r' \<Longrightarrow> (\<forall>r. ro = Some r \<longrightarrow> request_ok r) \<Longrightarrow> request_ok r'"
  by (cases rule: request_move.cases, assumption)
    (auto intro: request_new_ok request_submit_ok start_review_ok reopen_ok claim_by_ok
      request_decide_ok request_more_information_ok)

lemma request_move_claims:
  assumes "request_move now free ro r'"
  shows "vr_assignment r' = None \<or> (\<exists>r. ro = Some r \<and> vr_assignment r' = vr_assignment r) \<or>
    (\<exists>reviewer a. free reviewer \<and> vr_assignment r' = Some a \<and> ra_reviewer a = reviewer)"
  using assms
proof cases
  case (claimed reviewer ttl r)
  then show ?thesis using claim_by_fields by metis
next
  case (decided outcome reviewer reason r)
  then show ?thesis using request_decide_Inr by metis
qed (auto simp: verification_request_new_def dest: request_effects)

section \<open>Every call is at most one move\<close>

context verification_store begin

lemma save_moves:
  assumes "ok s" "vq_find repo s i = Some r" "request_move now free (Some r) r'"
  shows "request_move now free (vq_find repo s (vr_id r')) r'"
    "vq_find repo (vq_save repo r' s) j = (if j = vr_id r' then Some r' else vq_find repo s j)"
  using assms request_move_id [OF assms(3)] find_id [OF assms(1,2)] by (simp_all add: find_save)

lemma transition_stored_moves:
  assumes "ok s" "\<And>r r'. f r = Inr r' \<Longrightarrow> request_move now free (Some r) r'"
  shows "transition_stored repo f i s = s \<or>
    (\<exists>r'. request_move now free (vq_find repo s (vr_id r')) r' \<and>
       (\<forall>j. vq_find repo (transition_stored repo f i s) j =
          (if j = vr_id r' then Some r' else vq_find repo s j)))"
proof (cases "\<exists>r r'. vq_find repo s i = Some r \<and> f r = Inr r'")
  case True
  then obtain r r' where r: "vq_find repo s i = Some r" "f r = Inr r'" by blast
  then have "transition_stored repo f i s = vq_save repo r' s" by (simp add: transition_stored_def)
  with save_moves [OF assms(1) r(1) assms(2) [OF r(2)]] show ?thesis by auto
next
  case False
  then show ?thesis by (auto simp: transition_stored_def split: option.split sum.split)
qed

definition free_reviewer :: "claim_policy \<Rightarrow> int \<Rightarrow> 's \<Rightarrow> string \<Rightarrow> bool" where
  "free_reviewer policy now s reviewer \<longleftrightarrow>
     (or_default (cp_one_at_a_time policy) True \<longrightarrow>
        (\<forall>i q. vq_find repo s i = Some q \<longrightarrow> \<not> holds_active_claim reviewer (Some now) q))"

lemma review_run_moves:
  assumes "ok s" "call_fresh repo s c" "s' = review_run repo policy provider now c s"
  shows "s' = s \<or>
    (\<exists>r'. request_move now (free_reviewer policy now s) (vq_find repo s (vr_id r')) r' \<and>
       (\<forall>j. vq_find repo s' j = (if j = vr_id r' then Some r' else vq_find repo s j)))"
proof -
  note stored = transition_stored_moves [OF assms(1)]
  have saved: ?thesis
    if "vq_find repo s i = Some r" "request_move now (free_reviewer policy now s) (Some r) r'"
      "s' = vq_save repo r' s" for i r r'
    using save_moves [OF assms(1) that(1,2)] unfolding that(3) by blast
  show ?thesis
  proof (cases c)
    case (OpenRequest fresh subject organization t)
    let ?r = "verification_request_new fresh now subject organization t"
    have "vr_id ?r = fresh" by (simp add: verification_request_new_def)
    then show ?thesis using assms OpenRequest
      by (intro disjI2 exI [of _ ?r]) (simp add: find_save request_move.opened)
  next
    case (SubmitEvidence i)
    then show ?thesis
      using stored [OF request_move.submitted] assms(3) by simp
  next
    case (ReopenForEvidence i)
    then show ?thesis
      using stored [OF request_move.reopened] assms(3) by simp
  next
    case (AutomatedCheck i items)
    obtain res s'' where e: "run_automated_check repo provider (Some now) i items s = (res, s'')" by fastforce
    show ?thesis
    proof (cases res)
      case (Inl e')
      then have "s'' = s" using e by (simp add: run_automated_check_err)
      then show ?thesis using e AutomatedCheck assms(3) by simp
    next
      case (Inr p)
      obtain r' results where "p = (r', results)" by fastforce
      with Inr e have "run_automated_check repo provider (Some now) i items s = (Inr (r', results), s'')"
        by simp
      from run_automated_check_Inr [OF this] obtain r where r: "vq_find repo s i = Some r"
        "start_review (Some now) r = Inr r'" "s'' = vq_save repo r' s" by blast
      show ?thesis by (rule saved [OF r(1) request_move.checked [OF r(2)]]) (use e r AutomatedCheck assms in simp)
    qed
  next
    case (ClaimNext reviewer)
    obtain outcome s'' where e: "claim_next_execute repo policy (Some now) reviewer s = (outcome, s'')"
      by fastforce
    show ?thesis
    proof (cases rule: claim_execute_cases [OF assms(1) e])
      case 1
      then show ?thesis using e ClaimNext assms(3) by simp
    next
      case claimed: (2 r r')
      have "vr_id r' = vr_id r" using claimed(3) by (rule claim_by_id)
      moreover have "free_reviewer policy now s reviewer"
        using claimed(5) by (simp add: free_reviewer_def)
      moreover have "s'' = s'" using e ClaimNext assms(3) by simp
      ultimately show ?thesis
        using claimed(2,6) request_move.claimed [OF claimed(3)] by (intro disjI2 exI [of _ r']) simp
    qed
  next
    case (ApproveCase d)
    obtain res s'' where e: "approve_execute repo (Some now) d s = (res, s'')" by fastforce
    show ?thesis
    proof (cases res)
      case (Inl e')
      then have "s'' = s" using e by (simp add: approve_execute_err)
      then show ?thesis using e ApproveCase assms(3) by simp
    next
      case (Inr r')
      with e obtain r where r: "js_trim (dc_note d) \<noteq> []" "vq_find repo s (dc_request_id d) = Some r"
        "request_decide Approved (dc_reviewer d) (js_trim (dc_note d)) (Some now) r = Inr r'"
        "s'' = vq_save repo r' s" by (auto simp: approve_execute_Inr [OF assms(1)] request_approve_def)
      show ?thesis
        by (rule saved [OF r(2) request_move.decided [OF _ r(3)]]) (use e r ApproveCase assms in simp_all)
    qed
  next
    case (RejectCase d)
    obtain res s'' where e: "reject_execute repo (Some now) d s = (res, s'')" by fastforce
    show ?thesis
    proof (cases res)
      case (Inl e')
      then have "s'' = s" using e by (simp add: reject_execute_err)
      then show ?thesis using e RejectCase assms(3) by simp
    next
      case (Inr r')
      with e obtain r where r: "js_trim (dc_note d) \<noteq> []" "vq_find repo s (dc_request_id d) = Some r"
        "request_decide Rejected (dc_reviewer d) (js_trim (dc_note d)) (Some now) r = Inr r'"
        "s'' = vq_save repo r' s" by (auto simp: reject_execute_Inr [OF assms(1)] request_reject_def)
      show ?thesis
        by (rule saved [OF r(2) request_move.decided [OF _ r(3)]]) (use e r RejectCase assms in simp_all)
    qed
  next
    case (AskForMore d)
    obtain res s'' where e: "more_information_execute repo (Some now) d s = (res, s'')" by fastforce
    show ?thesis
    proof (cases res)
      case (Inl e')
      then have "s'' = s" using e by (simp add: more_information_execute_err)
      then show ?thesis using e AskForMore assms(3) by simp
    next
      case (Inr r')
      with e obtain r where r: "vq_find repo s (dc_request_id d) = Some r"
        "request_more_information (dc_reviewer d) (js_trim (dc_note d)) (Some now) r = Inr r'"
        "s'' = vq_save repo r' s" by (auto simp: more_information_execute_Inr [OF assms(1)])
      show ?thesis by (rule saved [OF r(1) request_move.asked [OF r(2)]]) (use e r AskForMore assms in simp)
    qed
  qed
qed

end

section \<open>Invariants of a run\<close>

context verification_store begin

lemma ok_transition_stored: "ok s \<Longrightarrow> ok (transition_stored repo f i s)"
  by (simp add: transition_stored_def ok_save split: option.split sum.split)

lemma review_run_ok: "ok s \<Longrightarrow> ok (review_run repo policy provider now c s)"
proof (cases c)
  case (ClaimNext reviewer)
  then show "ok s \<Longrightarrow> ?thesis" by (cases "vq_claim_next repo \<lparr>cn_reviewer = reviewer, cn_now = Some now,
      cn_ttl = or_default (cp_ttl policy) default_claim_ttl_ms,
      cn_one_at_a_time = or_default (cp_one_at_a_time policy) True\<rparr> s")
    (auto simp: claim_next_execute_def dest: ok_claim)
qed (simp_all add: ok_save ok_transition_stored run_automated_check_def approve_execute_def
    reject_execute_def more_information_execute_def Let_def split: option.split sum.split)

lemma review_step_moves:
  assumes "review_step repo policy provider (t, s) (t', s')" "ok s"
  obtains "ok s'" "t \<le> t'" "s' = s"
  | r' where "ok s'" "t \<le> t'" "request_move t' (free_reviewer policy t' s) (vq_find repo s (vr_id r')) r'"
      "\<forall>j. vq_find repo s' j = (if j = vr_id r' then Some r' else vq_find repo s j)"
proof -
  from assms(1) obtain c where c: "t \<le> t'" "call_fresh repo s c"
    "s' = review_run repo policy provider t' c s" by (auto elim: review_stepE)
  then have "ok s'" using assms(2) by (simp add: review_run_ok)
  with review_run_moves [OF assms(2) c(2,3)] c(1) that show ?thesis by blast
qed

definition store_consistent :: "'s \<Rightarrow> bool" where
  "store_consistent s \<longleftrightarrow> (\<forall>i r. vq_find repo s i = Some r \<longrightarrow> request_ok r)"

definition claims_exclusive :: "int \<Rightarrow> 's \<Rightarrow> bool" where
  "claims_exclusive t s \<longleftrightarrow>
     (\<forall>reviewer i j p q. vq_find repo s i = Some p \<longrightarrow> vq_find repo s j = Some q \<longrightarrow>
        holds_active_claim reviewer (Some t) p \<longrightarrow> holds_active_claim reviewer (Some t) q \<longrightarrow> i = j)"

lemma holds_active_claim_earlier:
  "holds_active_claim reviewer (Some t') r \<Longrightarrow> t \<le> t' \<Longrightarrow> holds_active_claim reviewer (Some t) r"
  by (cases "vr_assignment r"; cases "ra_expires_at (the (vr_assignment r))")
    (auto simp: holds_active_claim_def assignment_active_at_def)

lemma step_consistent:
  assumes "review_step repo policy provider (t, s) (t', s')" "ok s" "store_consistent s"
  shows "store_consistent s'"
  using assms(1,2)
proof (cases rule: review_step_moves)
  case (2 r')
  then have "request_ok r'" using assms(3) request_move_ok by (fastforce simp: store_consistent_def)
  with 2 assms(3) show ?thesis by (simp add: store_consistent_def)
qed (use assms in simp)

lemma step_terminal:
  assumes "review_step repo policy provider (t, s) (t', s')" "ok s"
    "vq_find repo s i = Some r" "is_terminal (vr_status r)"
  shows "vq_find repo s' i = Some r"
  using assms(1,2)
proof (cases rule: review_step_moves)
  case (2 r')
  then show ?thesis using assms(3,4) request_move_not_terminal by auto
qed (use assms in simp)

lemma step_exclusive:
  assumes one: "or_default (cp_one_at_a_time policy) True"
    and step: "review_step repo policy provider (t, s) (t', s')" "ok s" "claims_exclusive t s"
  shows "claims_exclusive t' s'"
proof -
  have later: "claims_exclusive t' s" if "t \<le> t'"
    using step(3) holds_active_claim_earlier [OF _ that] unfolding claims_exclusive_def by meson
  from step(1,2) show ?thesis
  proof (cases rule: review_step_moves)
    case 1
    then show ?thesis using later by simp
  next
    case (2 r')
    note excl = later [OF 2(2)]

    have main: "i = vr_id r'"
      if p: "holds_active_claim reviewer (Some t') r'" and
        q: "i \<noteq> vr_id r'" "vq_find repo s i = Some q" "holds_active_claim reviewer (Some t') q"
      for reviewer i q
    proof -
      from request_move_claims [OF 2(3)] consider "vr_assignment r' = None"
        | r where "vq_find repo s (vr_id r') = Some r" "vr_assignment r' = vr_assignment r"
        | a where "free_reviewer policy t' s (ra_reviewer a)" "vr_assignment r' = Some a" by metis
      then show ?thesis
      proof cases
        case 1
        then show ?thesis using p by (simp add: holds_active_claim_def)
      next
        case (2 r)
        then have "holds_active_claim reviewer (Some t') r" using p by (simp add: holds_active_claim_def)
        then show ?thesis using excl q 2 unfolding claims_exclusive_def by blast
      next
        case (3 a)
        then have "ra_reviewer a = reviewer"
          using p by (simp add: holds_active_claim_def assignment_held_by_def)
        then show ?thesis using 3 q one by (auto simp: free_reviewer_def)
      qed
    qed
    have "i = j" if "vq_find repo s' i = Some p" "vq_find repo s' j = Some q"
      "holds_active_claim reviewer (Some t') p" "holds_active_claim reviewer (Some t') q"
      for reviewer i j p q
      using that main excl unfolding claims_exclusive_def 2(4) [rule_format]
      by (metis option.inject)
    then show ?thesis unfolding claims_exclusive_def by blast
  qed
qed

lemma steps_invariant:
  assumes "review_steps repo policy provider (t, s) (t', s')" "ok s" "P t s"
    "\<And>t s t' s'. review_step repo policy provider (t, s) (t', s') \<Longrightarrow> ok s \<Longrightarrow> P t s \<Longrightarrow> P t' s'"
  shows "ok s' \<and> P t' s'"
  using assms(1)
proof (induction rule: rtranclp_induct2)
  case refl
  then show ?case using assms(2,3) by simp
next
  case (step t1 s1 t2 s2)
  then show ?case using assms(4) by (blast elim: review_step_moves)
qed

lemma steps_consistent:
  "review_steps repo policy provider (t, s) (t', s') \<Longrightarrow> ok s \<Longrightarrow> store_consistent s \<Longrightarrow>
     ok s' \<and> store_consistent s'"
  by (rule steps_invariant) (auto intro: step_consistent)

lemma steps_terminal:
  "review_steps repo policy provider (t, s) (t', s') \<Longrightarrow> ok s \<Longrightarrow> vq_find repo s i = Some r \<Longrightarrow>
     is_terminal (vr_status r) \<Longrightarrow> vq_find repo s' i = Some r"
  using steps_invariant [where P = "\<lambda>_ s. vq_find repo s i = Some r"] step_terminal by blast

lemma steps_exclusive:
  "or_default (cp_one_at_a_time policy) True \<Longrightarrow> review_steps repo policy provider (t, s) (t', s') \<Longrightarrow>
     ok s \<Longrightarrow> claims_exclusive t s \<Longrightarrow> claims_exclusive t' s'"
  using steps_invariant [where P = claims_exclusive] step_exclusive by blast

end

section \<open>Properties of runs on the in-memory store\<close>

lemma mem_verification_simps [simp]:
  "vq_find mem_verification_repo = mem_request_find" "vq_save mem_verification_repo = mem_request_save"
  "vq_claim_next mem_verification_repo = mem_claim_next"
  "vq_candidates mem_verification_repo = mem_request_candidates"
  by (simp_all add: mem_verification_repo_def)

lemma mem_requests_ok_Nil [simp]: "mem_requests_ok []"
  by (simp add: mem_requests_ok_def)

text \<open>
  A concrete history: a request is opened, submitted, checked, claimed, sent back for more
  information, reopened, submitted and checked again, claimed and approved; a second request is in
  review under another reviewer's claim.
\<close>

definition demo_open :: review_call where
  "demo_open = OpenRequest ''q1'' ''alice'' ''acme'' IdentityDocument"

definition demo_decision :: decide_command where
  "demo_decision = \<lparr>dc_request_id = ''q1'', dc_reviewer = ''rev'', dc_note = '' ok ''\<rparr>"

definition demo_policy :: claim_policy where
  "demo_policy = \<lparr>cp_ttl = None, cp_one_at_a_time = None\<rparr>"

definition demo_review_calls :: "(int \<times> review_call) list" where
  "demo_review_calls =
     [(10, demo_open), (20, SubmitEvidence ''q1''), (30, AutomatedCheck ''q1'' []),
      (40, ClaimNext ''rev''), (50, AskForMore demo_decision), (60, ReopenForEvidence ''q1''),
      (70, SubmitEvidence ''q1''), (80, AutomatedCheck ''q1'' []), (90, ClaimNext ''rev'')]"

definition demo_claimed_store :: mem_requests where
  "demo_claimed_store =
     snd (the (review_history mem_verification_repo demo_policy manual_review_provider
       demo_review_calls (0, [])))"

definition demo_decided_store :: mem_requests where
  "demo_decided_store =
     snd (the (review_history mem_verification_repo demo_policy manual_review_provider
       [(100, ApproveCase demo_decision)] (90, demo_claimed_store)))"

definition demo_assignment :: review_assignment where
  "demo_assignment = \<lparr>ra_request_id = ''q1'', ra_reviewer = ''rev'', ra_assigned_at = Some 90,
     ra_expires_at = Some 900090\<rparr>"

definition demo_request :: verification_request where
  "demo_request = \<lparr>vr_id = ''q1'', vr_subject = ''alice'', vr_organization = ''acme'',
     vr_type = IdentityDocument, vr_status = InReview, vr_assignment = Some demo_assignment,
     vr_decision = None, vr_note = None, vr_created_at = 10, vr_updated_at = Some 90, vr_events = []\<rparr>"

lemma demo_history:
  "review_history mem_verification_repo demo_policy manual_review_provider demo_review_calls (0, []) =
     Some (90, [(''q1'', demo_request)])"
  by code_simp

lemma demo_decided_history:
  "review_history mem_verification_repo demo_policy manual_review_provider
     [(100, ApproveCase demo_decision)] (90, [(''q1'', demo_request)]) =
   Some (100, demo_decided_store)"
  by code_simp

section \<open>Properties\<close>

text \<open>
  C18: a decided request is final: whatever calls follow, at whatever later times, the stored
  request that was approved or rejected stays exactly as the decision left it.
\<close>

theorem decided_requests_final:
  assumes "mem_requests_ok m"
    and "review_steps mem_verification_repo policy provider (t, m) (t', m')"
    and "mem_request_find m i = Some r" and "is_terminal (vr_status r)"
  shows "mem_request_find m' i = Some r"
  using mem_verification.steps_terminal [OF assms(2,1)] assms(3,4) by simp

text \<open>
  C20: every request a run leaves in the store is one \<open>reconstitute\<close> accepts (decision exactly when
  terminal, note exactly when more information is asked for, claim only in review), and writing it
  to its database row and reading it back gives the request without its events.
\<close>

theorem stored_requests_consistent:
  assumes "review_steps mem_verification_repo policy provider (t, []) (t', m)"
    and "mem_request_find m i = Some r"
  shows "request_reconstitute r = Inr (r\<lparr>vr_events := []\<rparr>) \<and>
    (\<exists>row. request_to_row r = Some row \<and> request_to_domain row = Inr (r\<lparr>vr_events := []\<rparr>))"
proof -
  have "mem_verification.store_consistent m"
    using mem_verification.steps_consistent [OF assms(1)]
    by (simp add: mem_verification.store_consistent_def mem_request_find_def)
  then have "request_ok r" using assms(2) by (simp add: mem_verification.store_consistent_def)
  then show ?thesis using request_reconstitute_ok request_row_round_trip by metis
qed

text \<open>
  under the one-at-a-time policy (the default) a reviewer never holds two live claims, at the
  end of any run from the empty store and at any later time.
\<close>

theorem one_live_claim_per_reviewer:
  assumes "or_default (cp_one_at_a_time policy) True"
    and "review_steps mem_verification_repo policy provider (t0, []) (t, m)" and "t \<le> now"
    and "mem_request_find m i = Some p" and "holds_active_claim reviewer (Some now) p"
    and "mem_request_find m j = Some q" and "holds_active_claim reviewer (Some now) q"
  shows "i = j"
proof -
  have "mem_verification.claims_exclusive t m"
    using mem_verification.steps_exclusive [OF assms(1,2)]
    by (simp add: mem_verification.claims_exclusive_def mem_request_find_def)
  moreover note mem_verification.holds_active_claim_earlier [OF assms(5,3)]
    mem_verification.holds_active_claim_earlier [OF assms(7,3)]
  ultimately show ?thesis using assms(4,6) unfolding mem_verification.claims_exclusive_def by auto
qed

text \<open>
  an approval succeeds exactly when it has a rationale and the stored request is in review
  under a claim this reviewer holds and that is still live; what is then stored is the approved
  request with the trimmed rationale, no claim and one event, every other request is untouched,
  and a refused approval changes nothing.
\<close>

theorem approval_needs_live_claim:
  assumes "approve_execute mem_verification_repo now c m = (res, m')"
  shows "(is_ok res \<longleftrightarrow>
      js_trim (dc_note c) \<noteq> [] \<and>
      (\<exists>r. mem_request_find m (dc_request_id c) = Some r \<and> vr_status r = InReview \<and>
         holds_active_claim (dc_reviewer c) now r)) \<and>
    (case res of Inl e \<Rightarrow> m' = m
     | Inr r' \<Rightarrow> m' = mem_request_save r' m \<and> vr_status r' = Approved \<and> vr_assignment r' = None \<and>
         vr_decision r' = Some \<lparr>vd_decided_by = dc_reviewer c, vd_decided_at = now,
           vd_note = js_trim (dc_note c)\<rparr> \<and> length (vr_events r') = 1)"
proof -
  have permitted: "decision_not_permitted reviewer now r = None \<longleftrightarrow> holds_active_claim reviewer now r"
    for reviewer r by (auto simp: decision_permitted_iff holds_active_claim_def split: option.splits)
  show ?thesis
  proof (cases res)
    case (Inl e)
    with assms show ?thesis
      by (auto simp: approve_execute_def request_approve_def request_decide_def Let_def
          permitted [symmetric] split: option.splits sum.splits if_splits)
  next
    case (Inr r')
    with assms show ?thesis
      by (auto simp: approve_execute_def request_approve_def request_decide_def Let_def
          permitted [symmetric] split: option.splits sum.splits if_splits)
  qed
qed

lemma demo_steps:
  "review_steps mem_verification_repo demo_policy manual_review_provider (0, []) (90, [(''q1'', demo_request)])"
  by (rule review_history_steps [OF demo_history])

lemma demo_decision_steps:
  "review_steps mem_verification_repo demo_policy manual_review_provider
     (90, [(''q1'', demo_request)]) (100, demo_decided_store)"
  by (rule review_history_steps [OF demo_decided_history])

lemma demo_decided_eval:
  "map (\<lambda>(i, r). (vr_status r, vr_assignment r, map_option vd_note (vr_decision r))) demo_decided_store =
     [(Approved, None, Some ''ok'')]"
  by code_simp

lemma demo_decided_find:
  "mem_requests_ok demo_decided_store"
  "mem_request_find demo_decided_store ''q1'' = Some (snd (hd demo_decided_store))"
  "is_terminal (vr_status (snd (hd demo_decided_store)))"
  by code_simp+

theorem decided_requests_final_witness:
  "mem_request_find (review_run mem_verification_repo demo_policy manual_review_provider 110
       (RejectCase demo_decision) demo_decided_store) ''q1'' =
     Some (snd (hd demo_decided_store))"
proof -
  have "review_steps mem_verification_repo demo_policy manual_review_provider (100, demo_decided_store)
      (110, review_run mem_verification_repo demo_policy manual_review_provider 110
        (RejectCase demo_decision) demo_decided_store)"
    by (intro r_into_rtranclp review_step.call) simp_all
  from decided_requests_final [OF demo_decided_find(1) this demo_decided_find(2,3)] show ?thesis .
qed

theorem stored_requests_consistent_witness:
  "request_reconstitute demo_request = Inr (demo_request\<lparr>vr_events := []\<rparr>)"
  using stored_requests_consistent [OF demo_steps, of "''q1''" demo_request]
  by (simp add: mem_request_find_def)

theorem one_live_claim_per_reviewer_witness:
  "holds_active_claim ''rev'' (Some 500) demo_request \<and> (''q1'' :: string) = ''q1''"
proof -
  have h: "holds_active_claim ''rev'' (Some 500) demo_request" by code_simp
  have "(''q1'' :: string) = ''q1''"
    by (rule one_live_claim_per_reviewer [OF _ demo_steps _ _ h _ h])
      (simp_all add: demo_policy_def mem_request_find_def)
  with h show ?thesis by simp
qed

theorem approval_needs_live_claim_witness:
  "is_ok (fst (approve_execute mem_verification_repo (Some 100) demo_decision [(''q1'', demo_request)]))"
  using approval_needs_live_claim [of "Some 100" demo_decision "[(''q1'', demo_request)]"
      "fst (approve_execute mem_verification_repo (Some 100) demo_decision [(''q1'', demo_request)])"
      "snd (approve_execute mem_verification_repo (Some 100) demo_decision [(''q1'', demo_request)])"]
  by (simp add: demo_decision_def demo_request_def demo_assignment_def mem_request_find_def
      holds_active_claim_def assignment_active_at_def assignment_held_by_def
      js_trim_def trim_start_def trim_end_def js_ws_def)

section \<open>The automated check\<close>

text \<open>
  on a submitted request and its own evidence the automated check always completes and always
  hands the case to a human: whatever the provider answers or throws, the request ends in review
  with its decision and claim as before, and each item of evidence gets, in order, one result with
  a known outcome and a confidence between 0 and 1.
\<close>

theorem automated_check_never_decides:
  assumes "mem_request_find m i = Some r" and "vr_status r = Submitted"
    and "list_all (\<lambda>e. evidence_belongs_to e (vr_id r)) items"
  shows "\<exists>r' results. run_automated_check mem_verification_repo provider clock i items m =
      (Inr (r', results), mem_request_save r' m) \<and>
    vr_status r' = InReview \<and> vr_decision r' = vr_decision r \<and> vr_assignment r' = vr_assignment r \<and>
    map fst results = map ev_id items \<and> list_all (provider_result_valid \<circ> snd) results"
proof -
  have "start_review clock r = Inr (request_copy clock (no_overrides\<lparr>ov_status := Some InReview\<rparr>) r)"
    using assms(2) by (simp add: start_review_def transition_to_def)
  then show ?thesis using assms
    by (auto simp: run_automated_check_def Let_def comp_def list_all_iff automated_check_valid)
qed

definition demo_evidence :: evidence where
  "demo_evidence = \<lparr>ev_id = ''e1'', ev_request_id = ''q1'', ev_type = Selfie,
     ev_storage_ref = ''s3'', ev_checksum = [], ev_uploaded_at = 0\<rparr>"

definition demo_bad_provider :: verification_provider where
  "demo_bad_provider = \<lparr>vp_check_document = (\<lambda>_. None),
     vp_check_liveness = (\<lambda>_. Some (provider_passed None (JFin 2)))\<rparr>"

theorem automated_check_never_decides_witness:
  "list_all (provider_result_valid \<circ> snd) [(''e1'', automated_check demo_bad_provider demo_evidence)] \<and>
   is_ok (fst (run_automated_check mem_verification_repo demo_bad_provider (Some 5) ''q1''
     [demo_evidence] [(''q1'', demo_request\<lparr>vr_status := Submitted, vr_assignment := None\<rparr>)]))"
proof -
  let ?r = "demo_request\<lparr>vr_status := Submitted, vr_assignment := None\<rparr>"
  have "\<exists>r' results. run_automated_check mem_verification_repo demo_bad_provider (Some 5) ''q1''
      [demo_evidence] [(''q1'', ?r)] = (Inr (r', results), mem_request_save r' [(''q1'', ?r)]) \<and>
    vr_status r' = InReview \<and> vr_decision r' = vr_decision ?r \<and> vr_assignment r' = vr_assignment ?r \<and>
    map fst results = map ev_id [demo_evidence] \<and> list_all (provider_result_valid \<circ> snd) results"
    by (rule automated_check_never_decides)
      (simp_all add: mem_request_find_def demo_request_def demo_evidence_def evidence_belongs_to_def)
  then show ?thesis by (auto simp: automated_check_valid)
qed

end
