(* ===== verification/VerificationQueue.thy ===== *)
theory VerificationQueue
  imports VerificationRuns
begin

text \<open>
  The reviewer queue as its readers see it: claiming drains it oldest first and loses no case, a
  listing is one page of the whole ordered queue, and what happens when two decisions of one case
  interleave at their \<open>await\<close>.
\<close>

section \<open>Claims drain the queue\<close>

fun claim_each ::
  "'s verification_repo \<Rightarrow> claim_policy \<Rightarrow> date \<Rightarrow> string list \<Rightarrow> 's \<Rightarrow> claim_next_outcome list \<times> 's" where
  "claim_each repo policy now [] s = ([], s)"
| "claim_each repo policy now (reviewer # rs) s =
     (let (outcome, s') = claim_next_execute repo policy now reviewer s;
          (outcomes, s'') = claim_each repo policy now rs s'
      in (outcome # outcomes, s''))"

fun claimed_id :: "claim_next_outcome \<Rightarrow> string option" where
  "claimed_id (Claimed r) = Some (vr_id r)"
| "claimed_id _ = None"

definition claimable_queue :: "date \<Rightarrow> mem_requests \<Rightarrow> verification_request list" where
  "claimable_queue now m = sort_key vr_created_at (filter (\<lambda>r. is_claimable_at r now) (map_values m))"

text \<open>A lease that is live at the moment it is taken.\<close>

definition lease_live :: "claim_policy \<Rightarrow> date \<Rightarrow> bool" where
  "lease_live policy now \<longleftrightarrow>
     (case or_default (cp_ttl policy) default_claim_ttl_ms of
        JFin ms \<Rightarrow> 0 < ms \<and> date_gt (date_plus now ms) now | _ \<Rightarrow> False)"

lemma map_values_set_existing:
  assumes "mem_requests_ok m" "map_get m i = Some r" "vr_id r' = i"
  shows "map_values (map_set i r' m) = map (\<lambda>q. if vr_id q = i then r' else q) (map_values m)"
  using assms
proof (induction m)
  case (Cons kv m)
  obtain k v where [simp]: "kv = (k, v)" by (cases kv)
  have ok: "mem_requests_ok m" "vr_id v = k" "k \<notin> fst ` set m"
    using Cons.prems(1) by (auto simp: mem_requests_ok_def map_wf_def)
  show ?case
  proof (cases "k = i")
    case True
    have "vr_id b \<noteq> i" if "(a, b) \<in> set m" for a b
      using ok True that by (force simp: mem_requests_ok_def list_all_iff)
    then have "map (\<lambda>q. if vr_id q = i then r' else q) (map snd m) = map snd m"
      by (intro map_idI) fastforce
    then show ?thesis using True ok by (simp add: map_values_def)
  next
    case False
    then show ?thesis using Cons.IH [OF ok(1)] Cons.prems ok by (simp add: map_values_def)
  qed
qed simp

lemma claimable_queue_set:
  assumes "mem_requests_ok m" "map_get m i = Some r" "vr_id r' = i" "\<not> is_claimable_at r' now"
  shows "claimable_queue now (map_set i r' m) = filter (\<lambda>q. vr_id q \<noteq> i) (claimable_queue now m)"
proof -
  have replace: "filter P (map (\<lambda>q. if vr_id q = i then r' else q) qs) = filter (\<lambda>q. vr_id q \<noteq> i) (filter P qs)"
    if "\<not> P r'" for P qs
    using that by (induction qs) auto
  have "filter (\<lambda>r. is_claimable_at r now) (map_values (map_set i r' m)) =
      filter (\<lambda>q. vr_id q \<noteq> i) (filter (\<lambda>r. is_claimable_at r now) (map_values m))"
    using assms(4) replace unfolding map_values_set_existing [OF assms(1-3)] by simp
  then show ?thesis by (simp add: claimable_queue_def filter_sort)
qed

lemma distinct_claimable_queue: "mem_requests_ok m \<Longrightarrow> distinct (map vr_id (claimable_queue now m))"
proof -
  assume "mem_requests_ok m"
  then have "distinct (map vr_id (map_values m))"
    by (simp add: mem_requests_values_ids) (simp add: mem_requests_ok_def map_wf_def)
  then show ?thesis by (auto simp: claimable_queue_def distinct_map intro: inj_on_subset)
qed

lemma claim_head:
  assumes ok: "mem_requests_ok m" and live: "lease_live policy now"
    and free: "\<forall>q \<in> set (map_values m). \<not> holds_active_claim reviewer now q"
    and queue: "claimable_queue now m = r # rest"
  obtains r' m' where
    "claim_next_execute mem_verification_repo policy now reviewer m = (Claimed r', m')"
    "vr_id r' = vr_id r" "mem_requests_ok m'" "claimable_queue now m' = rest"
    "\<And>other q. other \<noteq> reviewer \<Longrightarrow> q \<in> set (map_values m') \<Longrightarrow> holds_active_claim other now q \<Longrightarrow>
       q \<in> set (map_values m)"
proof -
  obtain ms where ms: "or_default (cp_ttl policy) default_claim_ttl_ms = JFin ms" "0 < ms"
    "date_gt (date_plus now ms) now" using live by (auto simp: lease_live_def split: jsnum.splits)
  let ?a = "\<lparr>ra_request_id = vr_id r, ra_reviewer = reviewer, ra_assigned_at = now,
    ra_expires_at = date_plus now ms\<rparr>"
  let ?r' = "request_copy now (no_overrides\<lparr>ov_assignment := Some (Some ?a), ov_updated_at := Some now\<rparr>) r"
  have "r \<in> set (claimable_queue now m)" using queue by simp
  then have r: "r \<in> set (map_values m)" "is_claimable_at r now" by (simp_all add: claimable_queue_def)
  then have stored: "map_get m (vr_id r) = Some r" using mem_requests_values_iff [OF ok] by simp
  have claim: "claim_by reviewer now (Some (JFin ms)) r = Inr ?r'"
    using r(2) ms(2) by (simp add: claim_by_Inr assignment_claim_Inr)
  have taken: "\<not> is_claimable_at ?r' now"
    using ms(3) by (simp add: is_claimable_at_def assignment_expired_at_def assignment_active_at_def)
  let ?m' = "map_set (vr_id r) ?r' m"
  have none: "mem_active_claim_of m reviewer now = None"
    using free by (simp add: mem_active_claim_None)
  have "claim_next_execute mem_verification_repo policy now reviewer m = (Claimed ?r', ?m')"
    using queue claim none
    by (simp add: claim_next_execute_def mem_claim_next_def claimable_queue_def ms(1))
  moreover have "\<forall>x \<in> set rest. vr_id x \<noteq> vr_id r"
    using distinct_claimable_queue [OF ok, of now] queue by (auto simp: image_iff)
  then have "claimable_queue now ?m' = rest"
    using claimable_queue_set [OF ok stored _ taken] queue by simp
  moreover have "mem_requests_ok ?m'" using mem_requests_ok_set [OF ok, of ?r'] by simp
  moreover have "q \<in> set (map_values m)"
    if "other \<noteq> reviewer" "q \<in> set (map_values ?m')" "holds_active_claim other now q" for other q
    using that map_values_set_existing [OF ok stored, of ?r']
    by (auto simp: holds_active_claim_def assignment_held_by_def split: if_splits)
  ultimately show ?thesis by (intro that [of ?r' ?m']) simp_all
qed

lemma claim_empty:
  assumes "claimable_queue now m = []"
    and "\<forall>q \<in> set (map_values m). \<not> holds_active_claim reviewer now q"
  shows "claim_next_execute mem_verification_repo policy now reviewer m = (NoneToClaim, m)"
  using assms mem_active_claim_None [of m reviewer now]
  by (simp add: claim_next_execute_def mem_claim_next_def claimable_queue_def)

text \<open>
  C19: reviewers who hold no live claim and ask one after the other at the same instant are handed
  the claimable cases oldest first, each case once, and nobody is turned away while a claimable
  case is left; a case whose earlier claim has lapsed is claimable again, so no case is stuck
  behind a vanished reviewer.
\<close>

theorem claims_drain_queue:
  assumes "mem_requests_ok m" and "lease_live policy now" and "distinct reviewers"
    and "\<forall>reviewer \<in> set reviewers. \<forall>q \<in> set (map_values m). \<not> holds_active_claim reviewer now q"
  shows "map claimed_id (fst (claim_each mem_verification_repo policy now reviewers m)) =
    map Some (take (length reviewers) (map vr_id (claimable_queue now m))) @
    replicate (length reviewers - length (claimable_queue now m)) None"
  using assms(1,3,4)
proof (induction reviewers arbitrary: m)
  case (Cons reviewer rs)
  show ?case
  proof (cases "claimable_queue now m")
    case Nil
    then have "claim_next_execute mem_verification_repo policy now reviewer m = (NoneToClaim, m)"
      using Cons.prems(3) by (intro claim_empty) simp_all
    with Cons Nil show ?thesis by (simp add: case_prod_beta)
  next
    case queue: (Cons r rest)
    have free: "\<forall>q \<in> set (map_values m). \<not> holds_active_claim reviewer now q" using Cons.prems(3) by simp
    from claim_head [OF Cons.prems(1) assms(2) free queue] obtain r' m' where m':
      "claim_next_execute mem_verification_repo policy now reviewer m = (Claimed r', m')"
      "vr_id r' = vr_id r" "mem_requests_ok m'" "claimable_queue now m' = rest"
      "\<And>other q. other \<noteq> reviewer \<Longrightarrow> q \<in> set (map_values m') \<Longrightarrow> holds_active_claim other now q \<Longrightarrow>
         q \<in> set (map_values m)" by metis
    have "\<forall>other \<in> set rs. \<forall>q \<in> set (map_values m'). \<not> holds_active_claim other now q"
      using m'(5) Cons.prems(2,3) by (metis distinct.simps(2) list.set_intros(2))
    with Cons.IH [OF m'(3)] Cons.prems(2) queue m' show ?thesis by (simp add: case_prod_beta)
  qed
qed simp

definition demo_waiting :: "string \<Rightarrow> int \<Rightarrow> review_assignment option \<Rightarrow> verification_request" where
  "demo_waiting i created claim = \<lparr>vr_id = i, vr_subject = ''s'', vr_organization = ''o'',
     vr_type = Liveness, vr_status = InReview, vr_assignment = claim, vr_decision = None,
     vr_note = None, vr_created_at = created, vr_updated_at = Some created, vr_events = []\<rparr>"

definition demo_lapsed :: review_assignment where
  "demo_lapsed = \<lparr>ra_request_id = ''b'', ra_reviewer = ''gone'', ra_assigned_at = Some 0,
     ra_expires_at = Some 100\<rparr>"

definition demo_queue :: mem_requests where
  "demo_queue = [(''a'', demo_waiting ''a'' 30 None), (''b'', demo_waiting ''b'' 20 (Some demo_lapsed))]"

theorem claims_drain_queue_witness:
  "map claimed_id (fst (claim_each mem_verification_repo demo_policy (Some 100)
     [''x'', ''y'', ''z''] demo_queue)) = [Some ''b'', Some ''a'', None]"
proof -
  have q: "map vr_id (claimable_queue (Some 100) demo_queue) = [''b'', ''a'']"
    "length (claimable_queue (Some 100) demo_queue) = 2" by code_simp+
  have free: "\<forall>reviewer \<in> set [''x'', ''y'', ''z'']. \<forall>q \<in> set (map_values demo_queue).
      \<not> holds_active_claim reviewer (Some 100) q"
    by (simp add: demo_queue_def map_values_def demo_waiting_def demo_lapsed_def
        holds_active_claim_def assignment_active_at_def)
  have "mem_requests_ok demo_queue" "lease_live demo_policy (Some 100)" by code_simp+
  from claims_drain_queue [OF this _ free] q show ?thesis by simp
qed

section \<open>Pages of the queue\<close>

definition reviewable_rows :: "date \<Rightarrow> review_queue_query \<Rightarrow> mem_requests \<Rightarrow> verification_request list" where
  "reviewable_rows now query m = sort_key vr_created_at (filter (queue_matches now
     \<lparr>qo_statuses = fst (resolve_statuses (rq_status query) []), qo_type = rq_type query,
      qo_assignment = rq_assignment query, qo_now = Some now, qo_limit = None, qo_offset = None\<rparr>)
     (map_values m))"

text \<open>
  a queue query is answered exactly when its status is reviewable, its limit an integer from
  1 to 100 and its offset a non-negative integer; the page is then the rows from \<open>offset\<close> on, at
  most \<open>limit\<close> of them, of all the matching requests oldest first, and \<open>hasMore\<close> says truthfully
  whether a row follows the page.
\<close>

theorem queue_page_spec:
  "(is_ok (list_review_queue mem_verification_repo now query m) \<longleftrightarrow>
      (case rq_status query of None \<Rightarrow> True | Some s \<Rightarrow> s = Submitted \<or> s = InReview) \<and>
      (\<exists>l. num_integer (or_default (rq_limit query) (JFin 25)) = Some l \<and> 1 \<le> l \<and> l \<le> 100) \<and>
      (\<exists>k. num_integer (or_default (rq_offset query) (JFin 0)) = Some k \<and> 0 \<le> k)) \<and>
   (case list_review_queue mem_verification_repo now query m of Inl e \<Rightarrow> True
    | Inr page \<Rightarrow>
        rp_items page = map (\<lambda>r. to_queue_item r now)
          (take (nat (rp_limit page)) (drop (nat (rp_offset page)) (reviewable_rows now query m))) \<and>
        rp_has_more page =
          (nat (rp_offset page) + nat (rp_limit page) < length (reviewable_rows now query m)))"
proof -
  define ss where "ss = resolve_statuses (rq_status query) []"
  define l where "l = num_integer (or_default (rq_limit query) (JFin 25))"
  define k where "k = num_integer (or_default (rq_offset query) (JFin 0))"
  define status_ok where "status_ok \<longleftrightarrow> (case rq_status query of None \<Rightarrow> True | Some s \<Rightarrow> s = Submitted \<or> s = InReview)"
  have ss: "snd ss = [] \<longleftrightarrow> status_ok"
    by (auto simp: ss_def status_ok_def resolve_statuses_def reviewable_statuses_def split: option.split)
  show ?thesis
  proof (cases "status_ok \<and> (\<exists>n. l = Some n \<and> 1 \<le> n \<and> n \<le> 100) \<and> (\<exists>n. k = Some n \<and> 0 \<le> n)")
    case True
    then obtain ln kn where n: "l = Some ln" "1 \<le> ln" "ln \<le> 100" "k = Some kn" "0 \<le> kn" "snd ss = []"
      using ss by blast
    let ?all = "reviewable_rows now query m"
    define rs where "rs = take (nat (ln + 1)) (drop (nat kn) ?all)"
    have rows: "mem_request_candidates now m \<lparr>qo_statuses = fst ss, qo_type = rq_type query,
        qo_assignment = rq_assignment query, qo_now = Some now, qo_limit = Some (ln + 1),
        qo_offset = Some kn\<rparr> = rs"
      using n by (simp add: mem_candidates_page reviewable_rows_def ss_def rs_def)
    have more: "(int (length rs) > ln) = (nat kn + nat ln < length ?all)"
      using n by (auto simp: rs_def)
    have page: "(if nat kn + nat ln < length ?all then js_slice_to ln rs else rs) =
        take (nat ln) (drop (nat kn) ?all)"
      using n by (auto simp: js_slice_to_def min_def rs_def)
    have "list_review_queue mem_verification_repo now query m =
        Inr \<lparr>rp_items = map (\<lambda>r. to_queue_item r now) (take (nat ln) (drop (nat kn) ?all)),
          rp_limit = ln, rp_offset = kn, rp_has_more = (nat kn + nat ln < length ?all)\<rparr>"
      using n page unfolding l_def k_def
      by (simp add: list_review_queue_def default_queue_page_size_def max_queue_page_size_def
          ss_def [symmetric] case_prod_beta Let_def rows more split: if_splits)
    then show ?thesis using True by (simp add: l_def k_def status_ok_def)
  next
    case False
    have "is_err (list_review_queue mem_verification_repo now query m)"
      using False ss unfolding l_def k_def
      by (auto simp: list_review_queue_def default_queue_page_size_def max_queue_page_size_def
          ss_def [symmetric] case_prod_beta Let_def not_less split: option.splits)
    then show ?thesis using False
      by (cases "list_review_queue mem_verification_repo now query m")
        (auto simp: l_def k_def status_ok_def)
  qed
qed

section \<open>Two decisions at once\<close>

text \<open>
  A decision use case gives up control between \<open>findById\<close> and \<open>save\<close>: its first turn validates the
  rationale and loads the request, its second decides on what it loaded and saves.
\<close>

datatype decision_turn_state = NotStarted | Loaded verification_request | Done "verification_error + verification_request"

definition decision_turn ::
  "verification_status \<Rightarrow> date \<Rightarrow> decide_command \<Rightarrow> decision_turn_state \<times> mem_requests
     \<Rightarrow> decision_turn_state \<times> mem_requests" where
  "decision_turn outcome now command pm =
     (case pm of (phase, m) \<Rightarrow>
        (case phase of
           NotStarted \<Rightarrow>
             (let note = js_trim (dc_note command)
              in if length note = 0
                 then (Done (Inl (VerificationFailed (ValidationError [(''note'', [''required''])]))), m)
                 else case mem_request_find m (dc_request_id command) of
                   None \<Rightarrow> (Done (Inl (VerificationFailed NotFoundError)), m)
                 | Some request \<Rightarrow> (Loaded request, m))
         | Loaded request \<Rightarrow>
             (case request_decide outcome (dc_reviewer command) (js_trim (dc_note command)) now request of
                Inl e \<Rightarrow> (Done (Inl e), m)
              | Inr decided \<Rightarrow> (Done (Inr decided), mem_request_save decided m))
         | Done r \<Rightarrow> (Done r, m)))"

text \<open>Both turns in a row are the use case.\<close>

lemma decision_turns_approve:
  "decision_turn Approved now c (decision_turn Approved now c (NotStarted, m)) =
     (case approve_execute mem_verification_repo now c m of (res, m') \<Rightarrow> (Done res, m'))"
  by (auto simp: decision_turn_def approve_execute_def request_approve_def Let_def
      split: option.split sum.split)

lemma decision_turns_reject:
  "decision_turn Rejected now c (decision_turn Rejected now c (NotStarted, m)) =
     (case reject_execute mem_verification_repo now c m of (res, m') \<Rightarrow> (Done res, m'))"
  by (auto simp: decision_turn_def reject_execute_def request_reject_def Let_def
      split: option.split sum.split)

definition decision_race ::
  "date \<Rightarrow> decide_command \<Rightarrow> decide_command \<Rightarrow> mem_requests
     \<Rightarrow> decision_turn_state \<times> decision_turn_state \<times> mem_requests" where
  "decision_race now c d m =
     (let (p, m) = decision_turn Approved now c (NotStarted, m);
          (q, m) = decision_turn Rejected now d (NotStarted, m);
          (p, m) = decision_turn Approved now c (p, m);
          (q, m) = decision_turn Rejected now d (q, m)
      in (p, q, m))"

text \<open>
  two decisions that overlap both succeed, and the second overwrites the first: when a
  reviewer's approval and rejection of the case they hold both load it before either saves, both
  are answered with success, and the stored request is the rejected one, although the same two
  calls one after the other leave the approval in force and refuse the rejection.
\<close>

theorem overlapping_decisions_overwrite:
  assumes "mem_request_find m i = Some r" and "vr_status r = InReview"
    and "holds_active_claim reviewer now r"
    and "js_trim n \<noteq> []" and "js_trim n' \<noteq> []" and "vr_id r = i"
  shows "let c = \<lparr>dc_request_id = i, dc_reviewer = reviewer, dc_note = n\<rparr>;
             d = \<lparr>dc_request_id = i, dc_reviewer = reviewer, dc_note = n'\<rparr>
    in (\<exists>a b m'. decision_race now c d m = (Done (Inr a), Done (Inr b), m') \<and>
          vr_status a = Approved \<and> vr_status b = Rejected \<and> mem_request_find m' i = Some b) \<and>
       (\<exists>a m'. approve_execute mem_verification_repo now c m = (Inr a, m') \<and>
          reject_execute mem_verification_repo now d m' =
            (Inl (InvalidStatusTransition Approved Rejected), m') \<and>
          mem_request_find m' i = Some a)"
proof -
  have free: "decision_not_permitted reviewer now r = None"
    using assms(3) by (auto simp: decision_permitted_iff holds_active_claim_def split: option.splits)
  obtain a where a: "request_decide Approved reviewer (js_trim n) now r = Inr a"
    using assms(2) free by (simp add: request_decide_def)
  obtain b where b: "request_decide Rejected reviewer (js_trim n') now r = Inr b"
    using assms(2) free by (simp add: request_decide_def)
  have ab: "vr_status a = Approved" "vr_id a = i" "vr_status b = Rejected" "vr_id b = i"
    using request_decide_Inr [OF _ a] request_decide_Inr [OF _ b] assms(6) by simp_all
  have again: "request_decide Rejected reviewer (js_trim n') now a = Inl (InvalidStatusTransition Approved Rejected)"
    using ab by (simp add: request_decide_def)
  show ?thesis
    using assms(1,4,5) a b ab again
    by (simp add: Let_def decision_race_def decision_turn_def approve_execute_def reject_execute_def
        request_approve_def request_reject_def mem_request_find_def mem_request_save_def)
qed

theorem overlapping_decisions_overwrite_witness:
  "\<exists>a b m'. decision_race (Some 100) demo_decision (demo_decision\<lparr>dc_note := ''no''\<rparr>)
     [(''q1'', demo_request)] = (Done (Inr a), Done (Inr b), m') \<and> vr_status b = Rejected"
  using overlapping_decisions_overwrite [of "[(''q1'', demo_request)]" "''q1''" demo_request "''rev''"
      "Some 100" "'' ok ''" "''no''"]
  by (auto simp: Let_def demo_decision_def demo_request_def demo_assignment_def mem_request_find_def
      holds_active_claim_def assignment_active_at_def assignment_held_by_def
      js_trim_def trim_start_def trim_end_def js_ws_def)

end
