(* ===== verification/Utf8.thy ===== *)
theory Utf8
  imports Prelude
begin

text \<open>
  \<open>TextEncoder\<close> and \<open>TextDecoder\<close> for UTF-8, as the WebAuthn code of \<open>packages/mfa\<close> uses them. A text
  is the list of its UTF-16 code units and a byte a \<open>nat\<close> below 256. The encoder replaces an
  unpaired surrogate by U+FFFD; the decoder, the state machine of the Encoding standard, replaces
  every malformed sequence by U+FFFD and drops a leading byte order mark.
\<close>

section \<open>Code units and scalar values\<close>

type_synonym js_text = "nat list"

definition text_of :: "string \<Rightarrow> js_text" where
  "text_of s = map of_char s"

definition high_surrogate :: "nat \<Rightarrow> bool" where
  "high_surrogate u \<longleftrightarrow> 0xD800 \<le> u \<and> u < 0xDC00"

definition low_surrogate :: "nat \<Rightarrow> bool" where
  "low_surrogate u \<longleftrightarrow> 0xDC00 \<le> u \<and> u < 0xE000"

definition replacement :: nat where "replacement = 0xFFFD"

fun scalar_values :: "js_text \<Rightarrow> nat list" where
  "scalar_values [] = []"
| "scalar_values [u] = [if high_surrogate u \<or> low_surrogate u then replacement else u]"
| "scalar_values (u # v # us) =
     (if high_surrogate u \<and> low_surrogate v
      then (0x10000 + (u - 0xD800) * 0x400 + (v - 0xDC00)) # scalar_values us
      else (if high_surrogate u \<or> low_surrogate u then replacement else u) # scalar_values (v # us))"

definition utf16_units :: "nat \<Rightarrow> js_text" where
  "utf16_units c =
     (if c < 0x10000 then [c]
      else [0xD800 + (c - 0x10000) div 0x400, 0xDC00 + (c - 0x10000) mod 0x400])"

section \<open>The encoder\<close>

definition utf8_bytes :: "nat \<Rightarrow> nat list" where
  "utf8_bytes c =
     (if c < 0x80 then [c]
      else if c < 0x800 then [0xC0 + c div 64, 0x80 + c mod 64]
      else if c < 0x10000 then [0xE0 + c div 4096, 0x80 + c div 64 mod 64, 0x80 + c mod 64]
      else [0xF0 + c div 262144, 0x80 + c div 4096 mod 64, 0x80 + c div 64 mod 64, 0x80 + c mod 64])"

definition text_encode :: "js_text \<Rightarrow> nat list" where
  "text_encode t = concat (map utf8_bytes (scalar_values t))"

section \<open>The decoder\<close>

text \<open>The state: the code point so far, the bytes still needed and the bounds of the next one.\<close>

record utf8_state =
  us_point :: nat
  us_needed :: nat
  us_lower :: nat
  us_upper :: nat

definition utf8_initial :: utf8_state where
  "utf8_initial = \<lparr>us_point = 0, us_needed = 0, us_lower = 0x80, us_upper = 0xBF\<rparr>"

definition utf8_lead :: "nat \<Rightarrow> nat list \<times> utf8_state" where
  "utf8_lead b =
     (if b \<le> 0x7F then ([b], utf8_initial)
      else if 0xC2 \<le> b \<and> b \<le> 0xDF then ([], utf8_initial\<lparr>us_needed := 1, us_point := b mod 32\<rparr>)
      else if 0xE0 \<le> b \<and> b \<le> 0xEF then
        ([], \<lparr>us_point = b mod 16, us_needed = 2, us_lower = (if b = 0xE0 then 0xA0 else 0x80),
              us_upper = (if b = 0xED then 0x9F else 0xBF)\<rparr>)
      else if 0xF0 \<le> b \<and> b \<le> 0xF4 then
        ([], \<lparr>us_point = b mod 8, us_needed = 3, us_lower = (if b = 0xF0 then 0x90 else 0x80),
              us_upper = (if b = 0xF4 then 0x8F else 0xBF)\<rparr>)
      else ([replacement], utf8_initial))"

text \<open>A byte out of bounds ends the sequence before it and is read again as a lead byte.\<close>

fun utf8_decode :: "utf8_state \<Rightarrow> nat list \<Rightarrow> nat list" where
  "utf8_decode st [] = (if us_needed st = 0 then [] else [replacement])"
| "utf8_decode st (b # bs) =
     (if us_needed st = 0 then (case utf8_lead b of (out, st') \<Rightarrow> out @ utf8_decode st' bs)
      else if b < us_lower st \<or> us_upper st < b
      then (case utf8_lead b of (out, st') \<Rightarrow> replacement # out @ utf8_decode st' bs)
      else
        let c = us_point st * 64 + b mod 64
        in if us_needed st = 1 then c # utf8_decode utf8_initial bs
           else utf8_decode \<lparr>us_point = c, us_needed = us_needed st - 1, us_lower = 0x80, us_upper = 0xBF\<rparr> bs)"

definition text_decode :: "nat list \<Rightarrow> js_text" where
  "text_decode bs =
     (let points = utf8_decode utf8_initial bs
      in concat (map utf16_units (if points \<noteq> [] \<and> hd points = 0xFEFF then tl points else points)))"

section \<open>Reading what was written\<close>

definition scalar_value :: "nat \<Rightarrow> bool" where
  "scalar_value c \<longleftrightarrow> c < 0xD800 \<or> 0xE000 \<le> c \<and> c < 0x110000"

lemma mod_64_offset: "(128 + k mod 64) mod 64 = k mod (64 :: nat)"
  by (simp add: mod_add_left_eq [symmetric, of 128])

lemma mod_64_le: "\<not> 63 < k mod (64 :: nat)"
  using mod_less_divisor [of 64 k] by linarith

lemma utf8_join_3: "(c div 4096 * 64 + c div 64 mod 64) * 64 + c mod 64 = (c :: nat)"
proof -
  have "c div 4096 = c div 64 div 64" by (simp add: div_mult2_eq [symmetric])
  then show ?thesis by simp
qed

lemma utf8_join_4:
  "((c div 262144 * 64 + c div 4096 mod 64) * 64 + c div 64 mod 64) * 64 + c mod 64 = (c :: nat)"
proof -
  have "c div 262144 = c div 4096 div 64" by (simp add: div_mult2_eq [symmetric])
  then have "c div 262144 * 64 + c div 4096 mod 64 = c div 4096" by simp
  then show ?thesis by (simp only: utf8_join_3)
qed

lemma utf8_decode_bytes:
  assumes "scalar_value c"
  shows "utf8_decode utf8_initial (utf8_bytes c @ bs) = c # utf8_decode utf8_initial bs"
proof -
  consider (one) "c < 0x80" | (two) "0x80 \<le> c" "c < 0x800"
    | (three) "0x800 \<le> c" "c < 0x10000" | (four) "0x10000 \<le> c" "c < 0x110000"
    using assms by (fastforce simp: scalar_value_def)
  then show ?thesis
  proof cases
    case one
    then show ?thesis by (simp add: utf8_bytes_def utf8_lead_def utf8_initial_def)
  next
    case two
    then have b: "0xC2 \<le> 0xC0 + c div 64" "0xC0 + c div 64 \<le> 0xDF" by auto
    have p: "(0xC0 + c div 64) mod 32 = c div 64"
      using two by (simp add: mod_add_left_eq [symmetric, of 192] less_mult_imp_div_less)
    have "c div 64 * 64 + (0x80 + c mod 64) mod 64 = c"
      by (simp add: mod_64_offset)
    then show ?thesis using two b p
      by (simp add: utf8_bytes_def utf8_lead_def utf8_initial_def Let_def)
  next
    case three
    define h where "h = c div 4096"
    define m where "m = c div 64 mod 64"
    have bytes: "utf8_bytes c = [0xE0 + h, 0x80 + m, 0x80 + c mod 64]"
      using three by (simp add: utf8_bytes_def h_def m_def)
    have h: "h < 16" using three by (simp add: less_mult_imp_div_less h_def)
    then have hmod: "(0xE0 + h) mod 16 = h" by (simp add: mod_add_left_eq [symmetric, of 224])
    have m: "m < 64" "m mod 64 = m" by (simp_all add: m_def)
    have split: "c div 64 = h * 64 + m"
      using div_mult_mod_eq [of "c div 64" 64] by (simp add: div_mult2_eq [symmetric] h_def m_def)
    have "32 \<le> m" if "h = 0" using that three split by linarith
    moreover have "m < 32" if "h = 13"
    proof -
      have "c < 0xE000" using that h_def by linarith
      then have "c < 0xD800" using assms by (auto simp: scalar_value_def)
      then show ?thesis using that split by linarith
    qed
    moreover define l u :: nat where "l = (if h = 0 then 0xA0 else 0x80)" and "u = (if h = 13 then 0x9F else 0xBF)"
    ultimately have "l \<le> 0x80 + m" "0x80 + m \<le> u" using m(1) by (simp, force)
    moreover have lead: "utf8_lead (0xE0 + h) =
        ([], \<lparr>us_point = h, us_needed = 2, us_lower = l, us_upper = u\<rparr>)"
      using h hmod by (simp add: utf8_lead_def l_def u_def)
    ultimately show ?thesis
      using utf8_join_3 [of c] mod_64_offset [of m] m(2) mod_64_le [of c] mod_64_le [of "c div 64"]
      by (simp add: bytes utf8_initial_def lead Let_def mod_64_offset h_def [symmetric] m_def [symmetric])
  next
    case four
    define h where "h = c div 262144"
    define m where "m = c div 4096 mod 64"
    have bytes: "utf8_bytes c = [0xF0 + h, 0x80 + m, 0x80 + c div 64 mod 64, 0x80 + c mod 64]"
      using four by (simp add: utf8_bytes_def h_def m_def)
    have h: "h < 5" using four by (simp add: less_mult_imp_div_less h_def)
    then have hmod: "(0xF0 + h) mod 8 = h" by (simp add: mod_add_left_eq [symmetric, of 240])
    have m: "m < 64" "m mod 64 = m" by (simp_all add: m_def)
    have split: "c div 4096 = h * 64 + m"
      using div_mult_mod_eq [of "c div 4096" 64] by (simp add: div_mult2_eq [symmetric] h_def m_def)
    have "16 \<le> m" if "h = 0" using that four split by linarith
    moreover have "m < 16" if "h = 4" using that four split by linarith
    moreover define l u :: nat where "l = (if h = 0 then 0x90 else 0x80)" and "u = (if h = 4 then 0x8F else 0xBF)"
    ultimately have "l \<le> 0x80 + m" "0x80 + m \<le> u" using m(1) by (simp, force)
    moreover have lead: "utf8_lead (0xF0 + h) =
        ([], \<lparr>us_point = h, us_needed = 3, us_lower = l, us_upper = u\<rparr>)"
      using h hmod by (simp add: utf8_lead_def l_def u_def)
    ultimately show ?thesis
      using utf8_join_4 [of c] mod_64_offset [of m] m(2) mod_64_le [of c] mod_64_le [of "c div 64"]
      by (simp add: bytes utf8_initial_def lead Let_def mod_64_offset h_def [symmetric] m_def [symmetric])
  qed
qed

text \<open>A text of whole characters: every surrogate belongs to a pair.\<close>

fun well_formed_text :: "js_text \<Rightarrow> bool" where
  "well_formed_text [] = True"
| "well_formed_text [u] = (\<not> high_surrogate u \<and> \<not> low_surrogate u \<and> u < 0x10000)"
| "well_formed_text (u # v # us) =
     (if high_surrogate u then low_surrogate v \<and> well_formed_text us
      else \<not> low_surrogate u \<and> u < 0x10000 \<and> well_formed_text (v # us))"

lemma surrogate_pair:
  assumes "high_surrogate u" "low_surrogate v"
  shows "scalar_value (0x10000 + (u - 0xD800) * 0x400 + (v - 0xDC00))"
    and "utf16_units (0x10000 + (u - 0xD800) * 0x400 + (v - 0xDC00)) = [u, v]"
proof -
  define a b where "a = u - 0xD800" and "b = v - 0xDC00"
  then have ab: "u = 0xD800 + a" "v = 0xDC00 + b" "a < 0x400" "b < 0x400"
    using assms by (auto simp: high_surrogate_def low_surrogate_def)
  then have "(a * 0x400 + b) div 0x400 = a" "(a * 0x400 + b) mod 0x400 = b" by simp_all
  then show "utf16_units (0x10000 + (u - 0xD800) * 0x400 + (v - 0xDC00)) = [u, v]"
    using ab by (simp add: utf16_units_def add.assoc)
  show "scalar_value (0x10000 + (u - 0xD800) * 0x400 + (v - 0xDC00))"
    using ab by (simp add: scalar_value_def)
qed

lemma plain_unit:
  assumes "\<not> high_surrogate u" "\<not> low_surrogate u" "u < 0x10000"
  shows "scalar_value u" "utf16_units u = [u]"
  using assms by (auto simp: scalar_value_def utf16_units_def high_surrogate_def low_surrogate_def)

lemma well_formed_scalars:
  "well_formed_text t \<Longrightarrow> list_all scalar_value (scalar_values t) \<and> concat (map utf16_units (scalar_values t)) = t"
  by (induction t rule: well_formed_text.induct)
    (auto simp: surrogate_pair plain_unit split: if_splits)

lemma utf8_decode_encoded:
  "list_all scalar_value cs \<Longrightarrow> utf8_decode utf8_initial (concat (map utf8_bytes cs)) = cs"
  by (induction cs) (simp_all add: utf8_decode_bytes, simp add: utf8_initial_def)

lemma scalar_values_bom:
  "well_formed_text t \<Longrightarrow> scalar_values t \<noteq> [] \<Longrightarrow> hd (scalar_values t) = 0xFEFF \<longleftrightarrow> t \<noteq> [] \<and> hd t = 0xFEFF"
  by (induction t rule: well_formed_text.induct)
    (auto simp: high_surrogate_def low_surrogate_def split: if_splits)

lemma text_round_trip:
  assumes "well_formed_text t" "take 1 t \<noteq> [0xFEFF]"
  shows "text_decode (text_encode t) = t"
proof -
  have "\<not> (scalar_values t \<noteq> [] \<and> hd (scalar_values t) = 0xFEFF)"
    using assms scalar_values_bom [OF assms(1)] by (cases t) auto
  then show ?thesis
    using well_formed_scalars [OF assms(1)]
    unfolding text_decode_def text_encode_def Let_def by (auto simp: utf8_decode_encoded)
qed

text \<open>A leading byte order mark is written and not read back.\<close>

lemma text_decode_drops_bom:
  assumes "well_formed_text t"
  shows "text_decode (text_encode (0xFEFF # t)) = t"
proof -
  have scalars: "scalar_values (0xFEFF # t) = 0xFEFF # scalar_values t"
    by (cases t) (simp_all add: high_surrogate_def low_surrogate_def)
  have "list_all scalar_value (0xFEFF # scalar_values t)"
    using well_formed_scalars [OF assms] by (simp add: scalar_value_def)
  from utf8_decode_encoded [OF this]
  have "utf8_decode utf8_initial (text_encode (0xFEFF # t)) = 0xFEFF # scalar_values t"
    unfolding text_encode_def scalars .
  then show ?thesis using well_formed_scalars [OF assms] by (simp add: text_decode_def)
qed

lemma utf8_bytes_below: "scalar_value c \<Longrightarrow> list_all (\<lambda>b. b < 256) (utf8_bytes c)"
  by (auto simp: utf8_bytes_def scalar_value_def less_mult_imp_div_less)

lemma well_formed_latin: "well_formed_text (text_of s)"
proof (induction s)
  case (Cons c s)
  have small: "\<not> 0xD800 \<le> (of_char d :: nat)" "\<not> 0xDC00 \<le> (of_char d :: nat)" "(of_char d :: nat) < 0x10000" for d :: char
    using nat_of_char_less_256 [of d] by linarith+
  then show ?case using Cons
    by (cases s) (simp_all add: text_of_def high_surrogate_def low_surrogate_def)
qed (simp add: text_of_def)

end
