(* ===== verification/Cbor.thy ===== *)
theory Cbor
  imports Utf8
begin

text \<open>
  \<open>packages/mfa/infrastructure/webauthn/cbor.ts\<close>: the CBOR reader and writer of the WebAuthn code.
  A byte is a \<open>nat\<close> below 256. A value is what the reader can return (an integral number, a
  \<open>bigint\<close>, bytes, text, an array, a \<open>Map\<close> with its entries in insertion order, a boolean, null or
  undefined) or what only the writer meets: a plain object, and a number that is not integral.
  \<open>None\<close> is a thrown error; the depth of nesting the engine's call stack allows is not modelled.
\<close>

section \<open>Values\<close>

datatype cbor =
    CNumber int
  | CBigInt nat
  | CBytes "nat list"
  | CText js_text
  | CArray "cbor list"
  | CMap "(cbor \<times> cbor) list"
  | CBool bool
  | CNull
  | CUndefined
  | CObject "(js_text \<times> cbor) list"
  | CFraction

text \<open>Key equality of a \<open>Map\<close>: arrays, byte strings and maps are distinct objects.\<close>

fun same_key :: "cbor \<Rightarrow> cbor \<Rightarrow> bool" where
  "same_key (CNumber m) (CNumber n) = (m = n)"
| "same_key (CBigInt m) (CBigInt n) = (m = n)"
| "same_key (CText s) (CText t) = (s = t)"
| "same_key (CBool a) (CBool b) = (a = b)"
| "same_key CNull CNull = True"
| "same_key CUndefined CUndefined = True"
| "same_key _ _ = False"

fun cmap_set :: "cbor \<Rightarrow> cbor \<Rightarrow> (cbor \<times> cbor) list \<Rightarrow> (cbor \<times> cbor) list" where
  "cmap_set k v [] = [(k, v)]"
| "cmap_set k v ((k', v') # es) = (if same_key k k' then (k', v) # es else (k', v') # cmap_set k v es)"

fun cmap_get :: "(cbor \<times> cbor) list \<Rightarrow> cbor \<Rightarrow> cbor" where
  "cmap_get [] k = CUndefined"
| "cmap_get ((k', v) # es) k = (if same_key k k' then v else cmap_get es k)"

section \<open>The reader\<close>

definition max_safe_integer :: nat where "max_safe_integer = 2 ^ 53 - 1"

text \<open>Big-endian bytes: \<open>getUint32\<close>, \<open>getBigUint64\<close> and the two-byte case.\<close>

definition from_bytes :: "nat list \<Rightarrow> nat" where
  "from_bytes bs = foldl (\<lambda>n b. n * 256 + b) 0 bs"

definition take_uint :: "nat \<Rightarrow> nat list \<Rightarrow> (nat \<times> nat list) option" where
  "take_uint k bs = (if k \<le> length bs then Some (from_bytes (take k bs), drop k bs) else None)"

text \<open>\<open>readLengthOrValue\<close>; a result above \<open>MAX_SAFE_INTEGER\<close> is a \<open>bigint\<close>.\<close>

definition read_head :: "nat \<Rightarrow> nat list \<Rightarrow> (nat \<times> nat list) option" where
  "read_head info bs =
     (if info < 24 then Some (info, bs)
      else if info = 24 then take_uint 1 bs
      else if info = 25 then take_uint 2 bs
      else if info = 26 then take_uint 4 bs
      else if info = 27 then take_uint 8 bs
      else None)"

definition head_value :: "nat \<Rightarrow> cbor" where
  "head_value n = (if n \<le> max_safe_integer then CNumber (int n) else CBigInt n)"

text \<open>\<open>Number(n)\<close> for a \<open>bigint\<close> below \<open>2 ^ 64\<close>: the nearest double, ties to even.\<close>

definition to_number :: "nat \<Rightarrow> nat" where
  "to_number n =
     (let step = (if n < 2 ^ 53 then 1 else 2 ^ (length (filter (\<lambda>k. 2 ^ k \<le> n) [53..<64])));
          q = n div step; r = n mod step
      in (if 2 * r > step \<or> 2 * r = step \<and> odd q then q + 1 else q) * step)"

definition negative_value :: "nat \<Rightarrow> cbor" where
  "negative_value n = CNumber (- int (to_number (to_number n + 1)))"

text \<open>
  \<open>read\<close>, with the depth of nesting as fuel: an item inside another starts at least one byte later,
  so a depth above the number of bytes is never used up (\<open>cbor_read_depth\<close>).
\<close>

function (sequential) cbor_read :: "nat \<Rightarrow> nat list \<Rightarrow> (cbor \<times> nat list) option"
  and cbor_items :: "nat \<Rightarrow> nat \<Rightarrow> nat list \<Rightarrow> (cbor list \<times> nat list) option"
  and cbor_entries :: "nat \<Rightarrow> nat \<Rightarrow> (cbor \<times> cbor) list \<Rightarrow> nat list \<Rightarrow> ((cbor \<times> cbor) list \<times> nat list) option" where
  "cbor_read 0 bs = None"
| "cbor_read (Suc d) [] = None"
| "cbor_read (Suc d) (b # bs) =
     (let major = b div 32; info = b mod 32
      in case read_head info bs of
        None \<Rightarrow> None
      | Some (n, rest) \<Rightarrow>
          (if major = 0 then Some (head_value n, rest)
           else if major = 1 then Some (negative_value n, rest)
           else if major = 2 then (if to_number n > length rest then None
             else Some (CBytes (take (to_number n) rest), drop (to_number n) rest))
           else if major = 3 then (if to_number n > length rest then None
             else Some (CText (text_decode (take (to_number n) rest)), drop (to_number n) rest))
           else if major = 4 then map_option (apfst CArray) (cbor_items d (to_number n) rest)
           else if major = 5 then map_option (apfst CMap) (cbor_entries d (to_number n) [] rest)
           else if major = 6 then cbor_read d rest
           else if info = 20 then Some (CBool False, rest)
           else if info = 21 then Some (CBool True, rest)
           else if info = 22 then Some (CNull, rest)
           else if info = 23 then Some (CUndefined, rest)
           else Some (head_value n, rest)))"
| "cbor_items d n bs =
     (if n = 0 then Some ([], bs)
      else case cbor_read d bs of
        None \<Rightarrow> None
      | Some (v, rest) \<Rightarrow> map_option (apfst ((#) v)) (cbor_items d (n - 1) rest))"
| "cbor_entries d n acc bs =
     (if n = 0 then Some (acc, bs)
      else case cbor_read d bs of
        None \<Rightarrow> None
      | Some (k, rest) \<Rightarrow>
          (case cbor_read d rest of
             None \<Rightarrow> None
           | Some (v, rest') \<Rightarrow> cbor_entries d (n - 1) (cmap_set k v acc) rest'))"
  by pat_completeness auto
termination
  by (relation "measures [\<lambda>x. case x of Inl (d, _) \<Rightarrow> d | Inr (Inl (d, _, _)) \<Rightarrow> d | Inr (Inr (d, _, _, _)) \<Rightarrow> d,
      \<lambda>x. case x of Inl _ \<Rightarrow> 0 | Inr (Inl (_, n, _)) \<Rightarrow> Suc n | Inr (Inr (_, n, _, _)) \<Rightarrow> Suc n]") auto

definition decode_cbor :: "nat list \<Rightarrow> cbor option" where
  "decode_cbor bs = map_option fst (cbor_read (Suc (length bs)) bs)"

declare cbor_items.simps [simp del] cbor_entries.simps [simp del]

section \<open>The writer\<close>

text \<open>\<open>writeUint\<close>: what exceeds 32 bits is cut off by \<open>num >> 24\<close>, which reads a number modulo \<open>2 ^ 32\<close>.\<close>

definition write_uint :: "nat \<Rightarrow> nat \<Rightarrow> nat list" where
  "write_uint major n =
     (if n < 24 then [major * 32 + n]
      else if n < 256 then [major * 32 + 24, n]
      else if n < 65536 then [major * 32 + 25, n div 256 mod 256, n mod 256]
      else [major * 32 + 26, n div 2 ^ 24 mod 256, n div 2 ^ 16 mod 256, n div 2 ^ 8 mod 256, n mod 256])"

function (sequential) cbor_write :: "cbor \<Rightarrow> nat list option"
  and cbor_write_items :: "cbor list \<Rightarrow> nat list option"
  and cbor_write_entries :: "(cbor \<times> cbor) list \<Rightarrow> nat list option"
  and cbor_write_fields :: "(js_text \<times> cbor) list \<Rightarrow> nat list option" where
  "cbor_write (CBool b) = Some [if b then 0xF5 else 0xF4]"
| "cbor_write CNull = Some [0xF6]"
| "cbor_write CUndefined = Some [0xF7]"
| "cbor_write (CNumber i) = Some (if i \<ge> 0 then write_uint 0 (nat i) else write_uint 1 (nat (- 1 - i)))"
| "cbor_write (CText t) = Some (write_uint 3 (length (text_encode t)) @ text_encode t)"
| "cbor_write (CBytes bs) = Some (write_uint 2 (length bs) @ bs)"
| "cbor_write (CArray vs) = map_option (\<lambda>bs. write_uint 4 (length vs) @ bs) (cbor_write_items vs)"
| "cbor_write (CMap es) = map_option (\<lambda>bs. write_uint 5 (length es) @ bs) (cbor_write_entries es)"
| "cbor_write (CObject fs) = map_option (\<lambda>bs. write_uint 5 (length fs) @ bs) (cbor_write_fields fs)"
| "cbor_write CFraction = None"
| "cbor_write (CBigInt n) = None"
| "cbor_write_items [] = Some []"
| "cbor_write_items (v # vs) =
     (case (cbor_write v, cbor_write_items vs) of (Some a, Some b) \<Rightarrow> Some (a @ b) | _ \<Rightarrow> None)"
| "cbor_write_entries [] = Some []"
| "cbor_write_entries ((k, v) # es) =
     (case (cbor_write k, cbor_write v, cbor_write_entries es) of
        (Some a, Some b, Some c) \<Rightarrow> Some (a @ b @ c) | _ \<Rightarrow> None)"
| "cbor_write_fields [] = Some []"
| "cbor_write_fields ((k, v) # fs) =
     (case (cbor_write v, cbor_write_fields fs) of
        (Some a, Some b) \<Rightarrow> Some (write_uint 3 (length (text_encode k)) @ text_encode k @ a @ b) | _ \<Rightarrow> None)"
  by pat_completeness auto
termination
  by (relation "measure (case_sum (case_sum size (size_list size))
      (case_sum (size_list (size_prod size size)) (size_list (size_prod (\<lambda>_. 0) size))))") auto

section \<open>The reader consumes what it reads\<close>

lemma take_uint_length: "take_uint k bs = Some (n, rest) \<Longrightarrow> length rest \<le> length bs"
  by (auto simp: take_uint_def split: if_splits)

lemma read_head_length: "read_head info bs = Some (n, rest) \<Longrightarrow> length rest \<le> length bs"
  by (auto simp: read_head_def dest: take_uint_length split: if_splits)

lemma cbor_items_Some_iff:
  "cbor_items d n bs = Some (vs, rest) \<longleftrightarrow>
     (if n = 0 then vs = [] \<and> rest = bs
      else \<exists>v vs' r. cbor_read d bs = Some (v, r) \<and> cbor_items d (n - 1) r = Some (vs', rest) \<and> vs = v # vs')"
  by (subst cbor_items.simps) (auto split: option.split)

lemma cbor_entries_Some_iff:
  "cbor_entries d n acc bs = Some (es, rest) \<longleftrightarrow>
     (if n = 0 then es = acc \<and> rest = bs
      else \<exists>k r v r'. cbor_read d bs = Some (k, r) \<and> cbor_read d r = Some (v, r') \<and>
        cbor_entries d (n - 1) (cmap_set k v acc) r' = Some (es, rest))"
  by (subst cbor_entries.simps) (auto split: option.split)

lemma cbor_read_shorter:
  "cbor_read d bs = Some (v, rest) \<Longrightarrow> length rest < length bs"
  "cbor_items d n bs = Some (vs, rest) \<Longrightarrow> length rest \<le> length bs"
  "cbor_entries d n acc bs = Some (es, rest) \<Longrightarrow> length rest \<le> length bs"
proof (induction d bs and d n bs and d n acc bs arbitrary: v rest and vs rest and es rest
    rule: cbor_read_cbor_items_cbor_entries.induct)
  case (3 d b bs)
  obtain n r where h: "read_head (b mod 32) bs = Some (n, r)"
    using "3.prems" by (auto simp: Let_def split: option.splits)
  note le = read_head_length [OF h]
  have "length rest \<le> length r"
    using "3.prems" "3.IH" [OF refl refl h refl] h
    by (auto simp: Let_def split: if_splits dest!: less_imp_le)
  then show ?case using le by simp
next
  case (4 d n bs)
  show ?case
  proof (cases "n = 0")
    case True
    then show ?thesis using "4.prems" by (simp add: cbor_items_Some_iff)
  next
    case False
    then obtain v vs' r where r: "cbor_read d bs = Some (v, r)" "cbor_items d (n - 1) r = Some (vs', rest)"
      using "4.prems" by (auto simp: cbor_items_Some_iff [of d n])
    have "length r < length bs" by (rule "4.IH"(1) [OF False r(1)])
    moreover have "length rest \<le> length r" by (rule "4.IH"(2) [OF False r(1) refl r(2)])
    ultimately show ?thesis by simp
  qed
next
  case (5 d n acc bs)
  show ?case
  proof (cases "n = 0")
    case True
    then show ?thesis using "5.prems" by (simp add: cbor_entries_Some_iff)
  next
    case False
    then obtain k r v r' where r: "cbor_read d bs = Some (k, r)" "cbor_read d r = Some (v, r')"
      "cbor_entries d (n - 1) (cmap_set k v acc) r' = Some (es, rest)"
      using "5.prems" by (auto simp: cbor_entries_Some_iff [of d n])
    have "length r < length bs" by (rule "5.IH"(1) [OF False r(1)])
    moreover have "length r' < length r" by (rule "5.IH"(2) [OF False r(1) refl r(2)])
    moreover have "length rest \<le> length r'" by (rule "5.IH"(3) [OF False r(1) refl r(2) refl r(3)])
    ultimately show ?thesis by simp
  qed
qed simp_all

text \<open>Any depth above the number of bytes gives the same result.\<close>

lemma cbor_read_depth:
  "length bs < d \<Longrightarrow> length bs < d' \<Longrightarrow> cbor_read d bs = cbor_read d' bs"
  "length bs < d \<Longrightarrow> length bs < d' \<Longrightarrow> cbor_items d n bs = cbor_items d' n bs"
  "length bs < d \<Longrightarrow> length bs < d' \<Longrightarrow> cbor_entries d n acc bs = cbor_entries d' n acc bs"
proof (induction d bs and d n bs and d n acc bs arbitrary: d' and d' and d'
    rule: cbor_read_cbor_items_cbor_entries.induct)
  case (3 d b bs)
  obtain e where d': "d' = Suc e" using "3.prems" by (cases d') auto
  show ?case
  proof (cases "read_head (b mod 32) bs")
    case None
    then show ?thesis by (simp add: d' Let_def)
  next
    case (Some p)
    obtain n r where h: "read_head (b mod 32) bs = Some (n, r)" using Some by (cases p) simp
    have len: "length r < d" "length r < e" using read_head_length [OF h] "3.prems" d' by simp_all
    have "b div 32 = 4 \<Longrightarrow> cbor_items d (to_number n) r = cbor_items e (to_number n) r"
      by (rule "3.IH"(1) [OF refl refl h refl _ _ _ _ _ len]) simp_all
    moreover have "b div 32 = 5 \<Longrightarrow> cbor_entries d (to_number n) [] r = cbor_entries e (to_number n) [] r"
      by (rule "3.IH"(2) [OF refl refl h refl _ _ _ _ _ _ len]) simp_all
    moreover have "b div 32 = 6 \<Longrightarrow> cbor_read d r = cbor_read e r"
      by (rule "3.IH"(3) [OF refl refl h refl _ _ _ _ _ _ _ len]) simp_all
    ultimately show ?thesis by (simp add: d' h Let_def)
  qed
next
  case (4 d n bs)
  show ?case
  proof (cases "n = 0 \<or> cbor_read d bs = None")
    case True
    then show ?thesis using "4.IH"(1) [OF _ "4.prems"] by (subst (1 2) cbor_items.simps) auto
  next
    case False
    then obtain v r where r: "n \<noteq> 0" "cbor_read d bs = Some (v, r)" by auto
    have "cbor_read d' bs = Some (v, r)" using "4.IH"(1) [OF r(1) "4.prems"] r(2) by simp
    moreover have "cbor_items d (n - 1) r = cbor_items d' (n - 1) r"
      using cbor_read_shorter(1) [OF r(2)] "4.prems" by (intro "4.IH"(2) [OF r refl]) simp_all
    ultimately show ?thesis using r by (subst (1 2) cbor_items.simps) simp
  qed
next
  case (5 d n acc bs)
  show ?case
  proof (cases "n = 0 \<or> cbor_read d bs = None")
    case True
    then show ?thesis using "5.IH"(1) [OF _ "5.prems"] by (subst (1 2) cbor_entries.simps) auto
  next
    case False
    then obtain k r where r: "n \<noteq> 0" "cbor_read d bs = Some (k, r)" by auto
    have r': "cbor_read d' bs = Some (k, r)" using "5.IH"(1) [OF r(1) "5.prems"] r(2) by simp
    have len: "length r < d" "length r < d'" using cbor_read_shorter(1) [OF r(2)] "5.prems" by simp_all
    have second: "cbor_read d r = cbor_read d' r" by (rule "5.IH"(2) [OF r refl len])
    show ?thesis
    proof (cases "cbor_read d r")
      case None
      then show ?thesis using r r' second by (subst (1 2) cbor_entries.simps) simp
    next
      case (Some p)
      obtain v q where p: "cbor_read d r = Some (v, q)" using Some by (cases p) simp
      have "cbor_entries d (n - 1) (cmap_set k v acc) q = cbor_entries d' (n - 1) (cmap_set k v acc) q"
        using cbor_read_shorter(1) [OF p] len by (intro "5.IH"(3) [OF r refl p refl]) simp_all
      moreover have "cbor_read d' r = Some (v, q)" using p second by simp
      ultimately show ?thesis using r r' p by (subst (1 2) cbor_entries.simps) simp
    qed
  qed
next
  case (2 d)
  then show ?case by (cases d') simp_all
qed simp_all

lemma decode_cbor_depth: "length bs < d \<Longrightarrow> decode_cbor bs = map_option fst (cbor_read d bs)"
  using cbor_read_depth(1) [of bs "Suc (length bs)" d] by (simp add: decode_cbor_def)

section \<open>Reading what was written\<close>

text \<open>
  The values that come back: numbers and lengths that fit the writer's 32 bits, well-formed text
  without a leading byte order mark, and no \<open>bigint\<close>. The keys of a \<open>Map\<close> are distinct.
\<close>

fun distinct_keys :: "(cbor \<times> cbor) list \<Rightarrow> bool" where
  "distinct_keys [] = True"
| "distinct_keys ((k, v) # es) = (list_all (\<lambda>(k', _). \<not> same_key k' k) es \<and> distinct_keys es)"

function (sequential) cbor_plain :: "cbor \<Rightarrow> bool"
  and plain_items :: "cbor list \<Rightarrow> bool"
  and plain_entries :: "(cbor \<times> cbor) list \<Rightarrow> bool" where
  "cbor_plain (CNumber i) = (- (2 ^ 32) \<le> i \<and> i < 2 ^ 32)"
| "cbor_plain (CBytes bs) = (length bs < 2 ^ 32)"
| "cbor_plain (CText t) = (well_formed_text t \<and> take 1 t \<noteq> [0xFEFF] \<and> length (text_encode t) < 2 ^ 32)"
| "cbor_plain (CArray vs) = (length vs < 2 ^ 32 \<and> plain_items vs)"
| "cbor_plain (CMap es) = (length es < 2 ^ 32 \<and> distinct_keys es \<and> plain_entries es)"
| "cbor_plain (CObject fs) = False"
| "cbor_plain CFraction = False"
| "cbor_plain (CBigInt n) = False"
| "cbor_plain _ = True"
| "plain_items [] = True"
| "plain_items (v # vs) = (cbor_plain v \<and> plain_items vs)"
| "plain_entries [] = True"
| "plain_entries ((k, v) # es) = (cbor_plain k \<and> cbor_plain v \<and> plain_entries es)"
  by pat_completeness auto
termination
  by (relation "measure (case_sum size (case_sum (size_list size) (size_list (size_prod size size))))") auto

lemma to_number_small: "n < 2 ^ 53 \<Longrightarrow> to_number n = n"
  by (simp add: to_number_def Let_def)

lemma from_bytes_4: "n < 2 ^ 32 \<Longrightarrow>
    from_bytes [n div 2 ^ 24 mod 256, n div 2 ^ 16 mod 256, n div 2 ^ 8 mod 256, n mod 256] = n"
proof -
  assume n: "n < 2 ^ 32"
  have top: "n div 2 ^ 24 mod 256 = n div 2 ^ 24" using n by simp
  have "n div 2 ^ 24 * 256 + n div 2 ^ 16 mod 256 = n div 2 ^ 16"
    using div_mult_mod_eq [of "n div 2 ^ 16" 256] by (simp add: div_mult2_eq [symmetric])
  moreover have "n div 2 ^ 16 * 256 + n div 2 ^ 8 mod 256 = n div 2 ^ 8"
    using div_mult_mod_eq [of "n div 2 ^ 8" 256] by (simp add: div_mult2_eq [symmetric])
  moreover have "n div 2 ^ 8 * 256 + n mod 256 = n" using div_mult_mod_eq [of n 256] by simp
  ultimately show ?thesis using top by (simp add: from_bytes_def)
qed

lemma write_uint_read:
  assumes "n < 2 ^ 32"
  obtains b bs where "write_uint major n = b # bs" "b div 32 = major"
    "\<forall>rest. read_head (b mod 32) (bs @ rest) = Some (n, rest)"
proof -
  consider (a) "n < 24" | (b) "24 \<le> n" "n < 256" | (c) "256 \<le> n" "n < 65536" | (d) "65536 \<le> n" by linarith
  then show thesis
  proof cases
    case a
    then show thesis by (intro that [of "major * 32 + n" "[]"]) (simp_all add: write_uint_def read_head_def)
  next
    case b
    then show thesis
      by (intro that [of "major * 32 + 24" "[n]"])
        (simp_all add: write_uint_def read_head_def take_uint_def from_bytes_def)
  next
    case c
    then have "n div 256 mod 256 * 256 + n mod 256 = n" using div_mult_mod_eq [of n 256] by simp
    then show thesis using c
      by (intro that [of "major * 32 + 25" "[n div 256 mod 256, n mod 256]"])
        (simp_all add: write_uint_def read_head_def take_uint_def from_bytes_def)
  next
    case d
    then show thesis using from_bytes_4 [OF assms]
      by (intro that [of "major * 32 + 26" "[n div 2 ^ 24 mod 256, n div 2 ^ 16 mod 256, n div 2 ^ 8 mod 256, n mod 256]"])
        (simp_all add: write_uint_def read_head_def take_uint_def)
  qed
qed

lemma cmap_set_new: "list_all (\<lambda>(k', _). \<not> same_key k k') acc \<Longrightarrow> cmap_set k v acc = acc @ [(k, v)]"
  by (induction acc) auto

lemma same_key_sym: "same_key k k' = same_key k' k"
  by (cases k; cases k') auto

text \<open>What \<open>read\<close> does with a header that was written.\<close>

lemma cbor_read_written:
  assumes "n < 2 ^ 32" "major < 7"
  shows "cbor_read (Suc d) (write_uint major n @ rest) =
     (if major = 0 then Some (CNumber (int n), rest)
      else if major = 1 then Some (CNumber (- int n - 1), rest)
      else if major = 2 then (if n > length rest then None else Some (CBytes (take n rest), drop n rest))
      else if major = 3 then (if n > length rest then None
        else Some (CText (text_decode (take n rest)), drop n rest))
      else if major = 4 then map_option (apfst CArray) (cbor_items d n rest)
      else if major = 5 then map_option (apfst CMap) (cbor_entries d n [] rest)
      else cbor_read d rest)"
proof -
  obtain b bs where w: "write_uint major n = b # bs" "b div 32 = major"
    "\<forall>rest. read_head (b mod 32) (bs @ rest) = Some (n, rest)" by (rule write_uint_read [OF assms(1), of major])
  have "to_number n = n" "to_number (n + 1) = n + 1" "n \<le> max_safe_integer"
    using assms(1) by (simp_all add: to_number_small max_safe_integer_def)
  then show ?thesis using assms(2) w
    by (simp add: Let_def head_value_def negative_value_def)
qed

lemma cbor_write_read:
  "cbor_plain v \<Longrightarrow> cbor_write v = Some bs \<Longrightarrow> length (bs @ rest) < d \<Longrightarrow> cbor_read d (bs @ rest) = Some (v, rest)"
  "plain_items vs \<Longrightarrow> cbor_write_items vs = Some bs \<Longrightarrow> length (bs @ rest) < d \<Longrightarrow>
     cbor_items d (length vs) (bs @ rest) = Some (vs, rest)"
  "plain_entries es \<Longrightarrow> cbor_write_entries es = Some bs \<Longrightarrow> length (bs @ rest) < d \<Longrightarrow>
     distinct_keys es \<Longrightarrow> list_all (\<lambda>(k, _). list_all (\<lambda>(k', _). \<not> same_key k k') acc) es \<Longrightarrow>
     cbor_entries d (length es) acc (bs @ rest) = Some (acc @ es, rest)"
  "(fs :: (js_text \<times> cbor) list) = fs"
proof (induction v and vs and es and fs arbitrary: bs rest d and bs rest d and bs rest d acc
    rule: cbor_write_cbor_write_items_cbor_write_entries_cbor_write_fields.induct)
  case (1 b)
  then show ?case by (cases d) (auto simp: read_head_def)
next
  case 2
  then show ?case by (cases d) (auto simp: read_head_def)
next
  case 3
  then show ?case by (cases d) (auto simp: read_head_def)
next
  case (4 i)
  obtain e where d: "d = Suc e" using "4.prems" by (cases d) auto
  show ?case
  proof (cases "i \<ge> 0")
    case True
    then show ?thesis using 4 d cbor_read_written [of "nat i" 0 e rest] by auto
  next
    case False
    then show ?thesis using 4 d cbor_read_written [of "nat (- 1 - i)" 1 e rest] by auto
  qed
next
  case (5 t)
  obtain e where d: "d = Suc e" using "5.prems" by (cases d) auto
  show ?case using 5 d cbor_read_written [of "length (text_encode t)" 3 e "text_encode t @ rest"]
    by (auto simp: text_round_trip)
next
  case (6 xs)
  obtain e where d: "d = Suc e" using "6.prems" by (cases d) auto
  show ?case using 6 d cbor_read_written [of "length xs" 2 e "xs @ rest"] by auto
next
  case (7 vs)
  obtain e where d: "d = Suc e" using "7.prems" by (cases d) auto
  obtain cs where cs: "cbor_write_items vs = Some cs" "bs = write_uint 4 (length vs) @ cs"
    using "7.prems" by auto
  have "cbor_items e (length vs) (cs @ rest) = Some (vs, rest)"
    using "7.prems" cs d by (intro "7.IH" [OF _ cs(1)]) (auto simp: write_uint_def split: if_splits)
  then show ?case using 7 d cs cbor_read_written [of "length vs" 4 e "cs @ rest"] by auto
next
  case (8 es)
  obtain e where d: "d = Suc e" using "8.prems" by (cases d) auto
  obtain cs where cs: "cbor_write_entries es = Some cs" "bs = write_uint 5 (length es) @ cs"
    using "8.prems" by auto
  have "cbor_entries e (length es) [] (cs @ rest) = Some ([] @ es, rest)"
    using "8.prems" cs d
    by (intro "8.IH" [OF _ cs(1)]) (auto simp: write_uint_def list_all_iff split: if_splits)
  then show ?case using 8 d cs cbor_read_written [of "length es" 5 e "cs @ rest"] by auto
next
  case (13 v vs)
  obtain a b where ab: "cbor_write v = Some a" "cbor_write_items vs = Some b" "bs = a @ b"
    using "13.prems" by (auto split: option.splits)
  have "cbor_read d (a @ b @ rest) = Some (v, b @ rest)"
    using "13.prems" ab by (intro "13.IH"(1) [OF _ ab(1)]) auto
  moreover have "cbor_items d (length vs) (b @ rest) = Some (vs, rest)"
    using "13.prems" ab by (intro "13.IH"(2) [OF _ ab(2)]) auto
  ultimately show ?case by (simp add: cbor_items.simps [of d "Suc (length vs)"] ab)
next
  case (15 k v es)
  obtain a b c where abc: "cbor_write k = Some a" "cbor_write v = Some b" "cbor_write_entries es = Some c"
    "bs = a @ b @ c" using "15.prems" by (auto split: option.splits)
  have "cbor_read d (a @ b @ c @ rest) = Some (k, b @ c @ rest)"
    using "15.prems" abc by (intro "15.IH"(1) [OF _ abc(1)]) auto
  moreover have "cbor_read d (b @ c @ rest) = Some (v, c @ rest)"
    using "15.prems" abc by (intro "15.IH"(2) [OF _ abc(2)]) auto
  moreover have "cmap_set k v acc = acc @ [(k, v)]"
    using "15.prems" by (intro cmap_set_new) auto
  moreover have "cbor_entries d (length es) (acc @ [(k, v)]) (c @ rest) = Some ((acc @ [(k, v)]) @ es, rest)"
    using "15.prems" abc by (intro "15.IH"(3) [OF _ abc(3)]) (auto simp: list_all_iff)
  ultimately show ?case by (simp add: cbor_entries.simps [of d "Suc (length es)"] abc)
qed (simp_all add: cbor_items.simps cbor_entries.simps)

lemma cbor_write_plain:
  "cbor_plain v \<Longrightarrow> cbor_write v \<noteq> None"
  "plain_items vs \<Longrightarrow> cbor_write_items vs \<noteq> None"
  "plain_entries es \<Longrightarrow> cbor_write_entries es \<noteq> None"
  "(fs :: (js_text \<times> cbor) list) = fs"
  by (induction v and vs and es and fs
      rule: cbor_write_cbor_write_items_cbor_write_entries_cbor_write_fields.induct) auto

text \<open>
  C25: A plain value comes back: a nesting of numbers, bytes, text, arrays and maps is written
  without an error, and \<open>decodeCbor\<close> reads the same value from the bytes; read in front of other
  data, as the public key behind the attested credential is, it leaves exactly that data. Plain
  means: integers from \<open>- 2 ^ 32\<close> to below \<open>2 ^ 32\<close>, lengths below \<open>2 ^ 32\<close>, maps with distinct keys (a
  plain object would come back as a map), and texts in which every surrogate has its partner and
  that do not begin with a byte order mark: such a mark is written, and the decoder drops it.
\<close>

theorem cbor_round_trip:
  assumes "cbor_plain v"
  shows "(\<exists>bs. cbor_write v = Some bs \<and> decode_cbor bs = Some v \<and>
      (\<forall>rest. cbor_read (Suc (length (bs @ rest))) (bs @ rest) = Some (v, rest))) \<and>
    (well_formed_text t \<and> length (text_encode (0xFEFF # t)) < 2 ^ 32 \<longrightarrow>
      (\<exists>bs. cbor_write (CText (0xFEFF # t)) = Some bs \<and> decode_cbor bs = Some (CText t)))"
proof (intro conjI impI)
  obtain bs where bs: "cbor_write v = Some bs" using cbor_write_plain(1) [OF assms] by auto
  have read: "cbor_read (Suc (length (bs @ rest))) (bs @ rest) = Some (v, rest)" for rest
    by (rule cbor_write_read(1) [OF assms bs]) simp
  from read [of "[]"] have "decode_cbor bs = Some v" by (simp add: decode_cbor_def)
  with bs read show "\<exists>bs. cbor_write v = Some bs \<and> decode_cbor bs = Some v \<and>
      (\<forall>rest. cbor_read (Suc (length (bs @ rest))) (bs @ rest) = Some (v, rest))" by blast
next
  assume t: "well_formed_text t \<and> length (text_encode (0xFEFF # t)) < 2 ^ 32"
  let ?e = "text_encode (0xFEFF # t)"
  have "cbor_read (Suc d) (write_uint 3 (length ?e) @ ?e) = Some (CText t, [])" for d
    using t cbor_read_written [of "length ?e" 3 d ?e] by (simp add: text_decode_drops_bom)
  then show "\<exists>bs. cbor_write (CText (0xFEFF # t)) = Some bs \<and> decode_cbor bs = Some (CText t)"
    by (simp add: decode_cbor_def)
qed

theorem cbor_round_trip_witness:
  "\<exists>bs. cbor_write (CMap [(CText (text_of ''fmt''), CText (text_of ''none'')),
       (CText (text_of ''authData''), CBytes [1, 2, 255]), (CNumber (-7), CArray [CNull, CNumber 65536])]) = Some bs \<and>
     decode_cbor bs = Some (CMap [(CText (text_of ''fmt''), CText (text_of ''none'')),
       (CText (text_of ''authData''), CBytes [1, 2, 255]), (CNumber (-7), CArray [CNull, CNumber 65536])])"
proof -
  have "cbor_plain (CMap [(CText (text_of ''fmt''), CText (text_of ''none'')),
       (CText (text_of ''authData''), CBytes [1, 2, 255]), (CNumber (-7), CArray [CNull, CNumber 65536])])"
    by (simp add: text_of_def text_encode_def utf8_bytes_def high_surrogate_def low_surrogate_def)
  from cbor_round_trip [OF this] show ?thesis by blast
qed

text \<open>An integer of more than 32 bits is written modulo \<open>2 ^ 32\<close>.\<close>

lemma cbor_write_cuts: "map_option decode_cbor (cbor_write (CNumber (2 ^ 32))) = Some (Some (CNumber 0))"
  by (simp add: write_uint_def decode_cbor_def read_head_def take_uint_def from_bytes_def head_value_def
      max_safe_integer_def)

end
