(* ===== verification/JsonParse.thy ===== *)
theory JsonParse
  imports Utf8
begin

text \<open>
  \<open>JSON.parse\<close> on a text of UTF-16 code units, after the grammar of ECMA-404: \<open>None\<close> is the thrown
  \<open>SyntaxError\<close>. A number keeps its literal. An object keeps one entry per key, the last one
  written; \<open>json_prop\<close> is a property read of the parsed value.
\<close>

datatype json_data =
    JNull
  | JBool bool
  | JNumber js_text
  | JString js_text
  | JArray "json_data list"
  | JObject "(js_text \<times> json_data) list"

section \<open>Lexical grammar\<close>

definition js_skip :: "js_text \<Rightarrow> js_text" where
  "js_skip = dropWhile (\<lambda>u. u = 32 \<or> u = 9 \<or> u = 10 \<or> u = 13)"

definition hex_unit :: "nat \<Rightarrow> nat option" where
  "hex_unit u =
     (if 48 \<le> u \<and> u \<le> 57 then Some (u - 48)
      else if 65 \<le> u \<and> u \<le> 70 then Some (u - 55)
      else if 97 \<le> u \<and> u \<le> 102 then Some (u - 87) else None)"

definition escape_unit :: "nat \<Rightarrow> nat option" where
  "escape_unit u = map_of [(34, 34), (92, 92), (47, 47), (98, 8), (102, 12), (110, 10), (114, 13), (116, 9)] u"

text \<open>The rest of a string literal after its opening quote.\<close>

fun jp_string :: "js_text \<Rightarrow> (js_text \<times> js_text) option" where
  "jp_string [] = None"
| "jp_string (u # r) =
     (if u = 34 then Some ([], r)
      else if u < 32 then None
      else if u \<noteq> 92 then map_option (apfst ((#) u)) (jp_string r)
      else case r of
        [] \<Rightarrow> None
      | e # r' \<Rightarrow>
          (if e = 117
           then (case r' of
               a # b # c # d # r'' \<Rightarrow>
                 (case (hex_unit a, hex_unit b, hex_unit c, hex_unit d) of
                    (Some w, Some x, Some y, Some z) \<Rightarrow>
                      map_option (apfst ((#) (((w * 16 + x) * 16 + y) * 16 + z))) (jp_string r'')
                  | _ \<Rightarrow> None)
             | _ \<Rightarrow> None)
           else case escape_unit e of
             None \<Rightarrow> None
           | Some v \<Rightarrow> map_option (apfst ((#) v)) (jp_string r')))"

definition is_digit :: "nat \<Rightarrow> bool" where "is_digit u \<longleftrightarrow> 48 \<le> u \<and> u \<le> 57"

definition jp_digits :: "js_text \<Rightarrow> (js_text \<times> js_text) option" where
  "jp_digits s =
     (if takeWhile is_digit s = [] then None else Some (takeWhile is_digit s, dropWhile is_digit s))"

definition jp_fraction :: "js_text \<Rightarrow> (js_text \<times> js_text) option" where
  "jp_fraction s =
     (case s of u # r \<Rightarrow> (if u = 46 then map_option (apfst ((#) u)) (jp_digits r) else Some ([], s))
      | [] \<Rightarrow> Some ([], []))"

definition jp_exponent :: "js_text \<Rightarrow> (js_text \<times> js_text) option" where
  "jp_exponent s =
     (case s of
        [] \<Rightarrow> Some ([], [])
      | u # r \<Rightarrow>
          (if u \<noteq> 101 \<and> u \<noteq> 69 then Some ([], s)
           else case r of
             [] \<Rightarrow> None
           | sign # r' \<Rightarrow>
               (if sign = 43 \<or> sign = 45 then map_option (apfst (\<lambda>ds. u # sign # ds)) (jp_digits r')
                else map_option (apfst ((#) u)) (jp_digits r))))"

definition jp_number :: "js_text \<Rightarrow> (js_text \<times> js_text) option" where
  "jp_number s =
     (let (minus, s1) = (case s of u # r \<Rightarrow> (if u = 45 then ([u], r) else ([], s)) | [] \<Rightarrow> ([], []))
      in case jp_digits s1 of
        None \<Rightarrow> None
      | Some (ds, s2) \<Rightarrow>
          (let (whole, s2) = (if hd ds = 48 then ([48], tl s1) else (ds, s2))
           in case jp_fraction s2 of
                None \<Rightarrow> None
              | Some (fraction, s3) \<Rightarrow>
                  (case jp_exponent s3 of
                     None \<Rightarrow> None
                   | Some (exponent, s4) \<Rightarrow> Some (minus @ whole @ fraction @ exponent, s4))))"

definition strip_word :: "js_text \<Rightarrow> js_text \<Rightarrow> js_text option" where
  "strip_word w s = (if take (length w) s = w then Some (drop (length w) s) else None)"

section \<open>Values\<close>

fun jobj_set :: "js_text \<Rightarrow> json_data \<Rightarrow> (js_text \<times> json_data) list \<Rightarrow> (js_text \<times> json_data) list" where
  "jobj_set k v [] = [(k, v)]"
| "jobj_set k v ((k', v') # es) = (if k = k' then (k', v) # es else (k', v') # jobj_set k v es)"

text \<open>
  The first argument bounds the number of nested calls; twice the length of the text is enough
  (\<open>json_text_depth\<close>), since every second call has consumed a code unit.
\<close>

fun jp_value :: "nat \<Rightarrow> js_text \<Rightarrow> (json_data \<times> js_text) option"
  and jp_elements :: "nat \<Rightarrow> js_text \<Rightarrow> (json_data list \<times> js_text) option"
  and jp_members :: "nat \<Rightarrow> (js_text \<times> json_data) list \<Rightarrow> js_text
    \<Rightarrow> ((js_text \<times> json_data) list \<times> js_text) option" where
  "jp_value 0 s = None"
| "jp_value (Suc f) s =
     (case js_skip s of
        [] \<Rightarrow> None
      | u # r \<Rightarrow>
          (if u = 34 then map_option (apfst JString) (jp_string r)
           else if u = 91 then
             (if take 1 (js_skip r) = [93] then Some (JArray [], tl (js_skip r))
              else map_option (apfst JArray) (jp_elements f r))
           else if u = 123 then
             (if take 1 (js_skip r) = [125] then Some (JObject [], tl (js_skip r))
              else map_option (apfst JObject) (jp_members f [] r))
           else case strip_word (text_of ''null'') (u # r) of
             Some r' \<Rightarrow> Some (JNull, r')
           | None \<Rightarrow>
               (case strip_word (text_of ''true'') (u # r) of
                  Some r' \<Rightarrow> Some (JBool True, r')
                | None \<Rightarrow>
                    (case strip_word (text_of ''false'') (u # r) of
                       Some r' \<Rightarrow> Some (JBool False, r')
                     | None \<Rightarrow> map_option (apfst JNumber) (jp_number (u # r))))))"
| "jp_elements 0 s = None"
| "jp_elements (Suc f) s =
     (case jp_value f s of
        None \<Rightarrow> None
      | Some (v, r) \<Rightarrow>
          (case js_skip r of
             [] \<Rightarrow> None
           | u # r' \<Rightarrow>
               (if u = 93 then Some ([v], r')
                else if u = 44 then map_option (apfst ((#) v)) (jp_elements f r')
                else None)))"
| "jp_members 0 acc s = None"
| "jp_members (Suc f) acc s =
     (case js_skip s of
        [] \<Rightarrow> None
      | q # r \<Rightarrow>
          (if q \<noteq> 34 then None
           else case jp_string r of
             None \<Rightarrow> None
           | Some (k, r1) \<Rightarrow>
               (case js_skip r1 of
                  [] \<Rightarrow> None
                | c # r2 \<Rightarrow>
                    (if c \<noteq> 58 then None
                     else case jp_value f r2 of
                       None \<Rightarrow> None
                     | Some (v, r3) \<Rightarrow>
                         (case js_skip r3 of
                            [] \<Rightarrow> None
                          | u # r4 \<Rightarrow>
                              (if u = 125 then Some (jobj_set k v acc, r4)
                               else if u = 44 then jp_members f (jobj_set k v acc) r4
                               else None))))))"

definition json_parse :: "js_text \<Rightarrow> json_data option" where
  "json_parse s =
     (case jp_value (2 * length s + 2) s of
        None \<Rightarrow> None
      | Some (v, r) \<Rightarrow> (if js_skip r = [] then Some v else None))"

text \<open>A property read: \<open>None\<close> is the \<open>TypeError\<close> on null, \<open>Some None\<close> is undefined.\<close>

definition json_prop :: "json_data \<Rightarrow> string \<Rightarrow> json_data option option" where
  "json_prop v k =
     (case v of JNull \<Rightarrow> None | JObject es \<Rightarrow> Some (map_of es (text_of k)) | _ \<Rightarrow> Some None)"

section \<open>The bound is never reached\<close>

lemma jp_string_shorter: "jp_string s = Some (x, r) \<Longrightarrow> length r < length s"
proof (induction s arbitrary: x r rule: jp_string.induct)
  case (2 u s)
  consider "u = 34" | (plain) "u \<noteq> 34" "\<not> u < 32" "u \<noteq> 92" | (escape) "u \<noteq> 34" "\<not> u < 32" "u = 92"
    | "u \<noteq> 34" "u < 32" by blast
  then show ?case
  proof cases
    case plain
    then show ?thesis using 2 by (fastforce simp: less_SucI)
  next
    case escape
    then obtain e s' where s: "s = e # s'" using 2 by (cases s) auto
    show ?thesis
    proof (cases "e = 117")
      case True
      then obtain a b c d s'' where s': "s' = a # b # c # d # s''"
        using 2 escape s by (auto split: list.splits)
      obtain w1 w2 w3 w4 where "hex_unit a = Some w1" "hex_unit b = Some w2"
        "hex_unit c = Some w3" "hex_unit d = Some w4"
        using 2 escape s s' True by (auto split: option.splits)
      with 2 escape s s' True show ?thesis by fastforce
    next
      case False
      then obtain v where "escape_unit e = Some v" using 2 escape s by (auto split: option.splits)
      with 2 escape s False show ?thesis by fastforce
    qed
  qed (use 2 in auto)
qed simp

lemma length_js_skip: "length (js_skip s) \<le> length s"
  by (simp add: js_skip_def length_dropWhile_le)

lemma js_skip_ConsD: "js_skip s = u # r \<Longrightarrow> length r < length s"
  using length_js_skip [of s] by simp

lemma jp_digits_shorter: "jp_digits s = Some (x, r) \<Longrightarrow> length r < length s \<and> x \<noteq> []"
  by (cases s) (auto simp: jp_digits_def le_imp_less_Suc length_dropWhile_le split: if_splits)

lemma jp_fraction_length: "jp_fraction s = Some (x, r) \<Longrightarrow> length r \<le> length s"
  by (auto simp: jp_fraction_def dest!: jp_digits_shorter split: list.splits if_splits)

lemma jp_exponent_length: "jp_exponent s = Some (x, r) \<Longrightarrow> length r \<le> length s"
  by (auto simp: jp_exponent_def dest!: jp_digits_shorter split: list.splits if_splits)

lemma jp_number_shorter: "jp_number s = Some (x, r) \<Longrightarrow> length r < length s"
  by (cases s)
    (auto simp: jp_number_def Let_def dest!: jp_digits_shorter jp_fraction_length jp_exponent_length
      split: option.splits if_splits prod.splits)

lemma strip_word_shorter: "strip_word w s = Some r \<Longrightarrow> w \<noteq> [] \<Longrightarrow> length r < length s"
  by (cases w; cases s) (auto simp: strip_word_def split: if_splits)

lemma jp_shorter:
  "jp_value f s = Some (v, r) \<Longrightarrow> length r < length s"
  "jp_elements f s = Some (vs, r) \<Longrightarrow> length r < length s"
  "jp_members f acc s = Some (es, r) \<Longrightarrow> length r < length s"
proof (induction f s and f s and f acc s arbitrary: v r and vs r and es r
    rule: jp_value_jp_elements_jp_members.induct)
  case (2 f s)
  obtain u q where s: "js_skip s = u # q" using "2.prems" by (auto split: list.splits)
  have q: "length q < length s" by (rule js_skip_ConsD [OF s])
  consider (str) "u = 34" | (arr) "u = 91" | (obj) "u = 123" | (other) "u \<noteq> 34" "u \<noteq> 91" "u \<noteq> 123" by blast
  then show ?case
  proof cases
    case str
    then show ?thesis using "2.prems" s q by (auto dest!: jp_string_shorter)
  next
    case arr
    show ?thesis
    proof (cases "take 1 (js_skip q) = [93]")
      case True
      then show ?thesis using "2.prems" s q arr length_js_skip [of q] by auto
    next
      case False
      then obtain vs where "jp_elements f q = Some (vs, r)" using "2.prems" s arr by auto
      then have "length r < length q" using "2.IH"(1) [OF s _ arr False] arr by simp
      then show ?thesis using q by simp
    qed
  next
    case obj
    show ?thesis
    proof (cases "take 1 (js_skip q) = [125]")
      case True
      then show ?thesis using "2.prems" s q obj length_js_skip [of q] by auto
    next
      case False
      then obtain es where "jp_members f [] q = Some (es, r)" using "2.prems" s obj by auto
      then have "length r < length q" using "2.IH"(2) [OF s _ _ obj False] obj by simp
      then show ?thesis using q by simp
    qed
  next
    case other
    have len: "length (u # q) \<le> length s" using q by simp
    have "length r < length (u # q)"
      using "2.prems" s other
      by (auto dest!: jp_number_shorter strip_word_shorter simp: text_of_def simp del: length_Cons
          split: option.splits)
    then show ?thesis using len by linarith
  qed
next
  case (4 f s)
  obtain v q u q' where v: "jp_value f s = Some (v, q)" "js_skip q = u # q'"
    using "4.prems" by (auto split: option.splits list.splits)
  have "length q' < length s" using "4.IH"(1) [OF v(1)] js_skip_ConsD [OF v(2)] by simp
  then show ?case using "4.prems" v "4.IH"(2) [OF v(1) refl v(2)]
    by (fastforce split: if_splits)
next
  case (6 f acc s)
  obtain q where q: "js_skip s = 34 # q" using "6.prems" by (auto split: list.splits if_splits)
  obtain k r1 where k: "jp_string q = Some (k, r1)" using "6.prems" q by (auto split: option.splits)
  obtain r2 where r2: "js_skip r1 = 58 # r2" using "6.prems" q k by (auto split: list.splits if_splits)
  obtain v r3 where v: "jp_value f r2 = Some (v, r3)" using "6.prems" q k r2 by (auto split: option.splits)
  obtain u r4 where u: "js_skip r3 = u # r4" using "6.prems" q k r2 v by (auto split: list.splits)
  have "length r3 < length r2" by (rule "6.IH"(1) [OF q _ k refl r2 _ v]) simp_all
  then have len: "length r4 < length s"
    using js_skip_ConsD [OF q] jp_string_shorter [OF k] js_skip_ConsD [OF r2] js_skip_ConsD [OF u] by simp
  show ?case
  proof (cases "u = 125")
    case True
    then show ?thesis using "6.prems" q k r2 v u len by simp
  next
    case False
    then have "u = 44" and rest: "jp_members f (jobj_set k v acc) r4 = Some (es, r)"
      using "6.prems" q k r2 v u by (auto split: if_splits)
    have "length r < length r4"
      by (rule "6.IH"(2) [OF q _ k refl r2 _ v refl u _ _ rest]) (simp_all add: \<open>u = 44\<close>)
    then show ?thesis using len by simp
  qed
qed simp_all

text \<open>Any bound from twice the length of the text on gives the same result.\<close>

lemma jp_depth:
  "2 * length s + 1 \<le> f \<Longrightarrow> 2 * length s + 1 \<le> f' \<Longrightarrow> jp_value f s = jp_value f' s"
  "2 * length s + 2 \<le> f \<Longrightarrow> 2 * length s + 2 \<le> f' \<Longrightarrow> jp_elements f s = jp_elements f' s"
  "2 * length s + 2 \<le> f \<Longrightarrow> 2 * length s + 2 \<le> f' \<Longrightarrow> jp_members f acc s = jp_members f' acc s"
proof (induction f s and f s and f acc s arbitrary: f' and f' and f'
    rule: jp_value_jp_elements_jp_members.induct)
  case (2 f s)
  obtain g where f': "f' = Suc g" using "2.prems" by (cases f') auto
  show ?case
  proof (cases "js_skip s")
    case (Cons u q)
    have "2 * length q + 2 \<le> f" "2 * length q + 2 \<le> g"
      using js_skip_ConsD [OF Cons] "2.prems" f' by simp_all
    note IH = "2.IH"(1) [OF Cons _ _ _ this] "2.IH"(2) [OF Cons _ _ _ _ this]
    consider (arr) "u = 91" "take 1 (js_skip q) \<noteq> [93]" | (obj) "u = 123" "take 1 (js_skip q) \<noteq> [125]"
      | (other) "\<not> (u = 91 \<and> take 1 (js_skip q) \<noteq> [93])" "\<not> (u = 123 \<and> take 1 (js_skip q) \<noteq> [125])" by blast
    then show ?thesis
    proof cases
      case arr
      then have "jp_elements f q = jp_elements g q" by (intro IH(1)) simp_all
      then show ?thesis using arr by (simp add: f' Cons)
    next
      case obj
      then have "jp_members f [] q = jp_members g [] q" by (intro IH(2)) simp_all
      then show ?thesis using obj by (simp add: f' Cons)
    next
      case other
      then show ?thesis by (auto simp: f' Cons)
    qed
  qed (simp add: f')
next
  case (4 f s)
  obtain g where f': "f' = Suc g" using "4.prems" by (cases f') auto
  have same: "jp_value f s = jp_value g s" using "4.prems" f' by (intro "4.IH"(1)) simp_all
  show ?case
  proof (cases "jp_value f s")
    case (Some p)
    obtain v q where v: "jp_value f s = Some (v, q)" using Some by (cases p) simp
    show ?thesis
    proof (cases "js_skip q")
      case (Cons u q')
      have "2 * length q' + 2 \<le> f" "2 * length q' + 2 \<le> g"
        using js_skip_ConsD [OF Cons] jp_shorter(1) [OF v] "4.prems" f' by simp_all
      then have "u \<noteq> 93 \<Longrightarrow> u = 44 \<Longrightarrow> jp_elements f q' = jp_elements g q'"
        by (intro "4.IH"(2) [OF v refl Cons])
      then show ?thesis using v same by (simp add: f' Cons)
    qed (use v same in \<open>simp add: f'\<close>)
  qed (use same in \<open>simp add: f'\<close>)
next
  case (6 f acc s)
  obtain g where f': "f' = Suc g" using "6.prems" by (cases f') auto
  show ?case
  proof (cases "\<exists>q k r1 r2. js_skip s = 34 # q \<and> jp_string q = Some (k, r1) \<and> js_skip r1 = 58 # r2")
    case False
    then show ?thesis by (auto simp: f' split: list.splits option.splits)
  next
    case True
    then obtain q k r1 r2 where q: "js_skip s = 34 # q" "jp_string q = Some (k, r1)" "js_skip r1 = 58 # r2"
      by blast
    have len: "2 * length r2 + 6 \<le> f" "2 * length r2 + 6 \<le> g"
      using js_skip_ConsD [OF q(1)] jp_string_shorter [OF q(2)] js_skip_ConsD [OF q(3)] "6.prems" f' by simp_all
    then have same: "jp_value f r2 = jp_value g r2"
      by (intro "6.IH"(1) [OF q(1) _ q(2) refl q(3)]) simp_all
    show ?thesis
    proof (cases "jp_value f r2")
      case None
      then show ?thesis using q same by (simp add: f')
    next
      case (Some p)
      obtain v r3 where v: "jp_value f r2 = Some (v, r3)" using Some by (cases p) simp
      then have same: "jp_value g r2 = Some (v, r3)" using same by simp
      show ?thesis
      proof (cases "js_skip r3")
        case Nil
        then show ?thesis using q same v by (simp add: f')
      next
        case (Cons u r4)
        have "2 * length r4 + 2 \<le> f" "2 * length r4 + 2 \<le> g"
          using js_skip_ConsD [OF Cons] jp_shorter(1) [OF v] len by simp_all
        then have "u \<noteq> 125 \<Longrightarrow> u = 44 \<Longrightarrow> jp_members f (jobj_set k v acc) r4 = jp_members g (jobj_set k v acc) r4"
          by (intro "6.IH"(2) [OF q(1) _ q(2) refl q(3) _ v refl Cons]) simp_all
        then show ?thesis using q same v Cons by (simp add: f')
      qed
    qed
  qed
qed simp_all

lemma json_text_depth:
  "2 * length s + 2 \<le> f \<Longrightarrow> json_parse s =
     (case jp_value f s of None \<Rightarrow> None | Some (v, r) \<Rightarrow> (if js_skip r = [] then Some v else None))"
  using jp_depth(1) [of s "2 * length s + 2" f] by (simp add: json_parse_def)

end
