(* ===== verification/Base32.thy ===== *)
theory Base32
  imports Prelude "HOL-Library.Word"
begin

text \<open>
  \<open>packages/mfa/domain/services/base32.ts\<close>: the RFC 4648 base32 text form of a TOTP secret. The
  accumulator \<open>value\<close> is a JavaScript number used with \<open><<\<close>, \<open>|\<close> and \<open>>>>\<close>, that is a 32-bit word
  that wraps; old bits run off its top end while the low \<open>bits\<close> bits are always the pending ones.
  A byte is a \<open>nat\<close> below 256.
\<close>

unbundle bit_operations_syntax

section \<open>Encoding\<close>

definition base32_alphabet :: string where
  "base32_alphabet = ''ABCDEFGHIJKLMNOPQRSTUVWXYZ234567''"

text \<open>The inner loop \<open>while (bits >= 5)\<close>, with the character codes it appends.\<close>

function emit_quintets :: "nat \<Rightarrow> 32 word \<Rightarrow> nat list \<Rightarrow> nat list \<times> nat" where
  "emit_quintets bits value' output =
     (if bits \<ge> 5
      then emit_quintets (bits - 5) value' (output @ [unat (drop_bit (bits - 5) value' AND 31)])
      else (output, bits))"
  by pat_completeness auto
termination by (relation "measure (\<lambda>(bits, _, _). bits)") auto

declare emit_quintets.simps [simp del]

fun encode_loop :: "nat list \<Rightarrow> nat \<Rightarrow> 32 word \<Rightarrow> nat list \<Rightarrow> nat list \<times> nat \<times> 32 word" where
  "encode_loop [] bits value' output = (output, bits, value')"
| "encode_loop (b # bs) bits value' output =
     (let value'' = push_bit 8 value' OR of_nat b;
          (output', bits') = emit_quintets (bits + 8) value'' output
      in encode_loop bs bits' value'' output')"

definition base32_encode :: "nat list \<Rightarrow> string" where
  "base32_encode buffer =
     (let (output, bits, value') = encode_loop buffer 0 0 [];
          output = (if bits > 0 then output @ [unat (push_bit (5 - bits) value' AND 31)] else output)
      in map (\<lambda>i. base32_alphabet ! i) output)"

section \<open>Decoding\<close>

text \<open>
  \<open>toUpperCase\<close> on code units below 256: the sharp s becomes two letters; the micro sign and y with
  diaeresis become characters outside of the range, which the alphabet does not hold either.
\<close>

definition upper_char :: "char \<Rightarrow> string" where
  "upper_char c =
     (let n = of_char c :: nat
      in if 97 \<le> n \<and> n \<le> 122 \<or> 224 \<le> n \<and> n \<le> 254 \<and> n \<noteq> 247 then [char_of (n - 32)]
         else if n = 223 then ''SS'' else [c])"

definition js_upper :: "string \<Rightarrow> string" where
  "js_upper s = concat (map upper_char s)"

text \<open>\<open>replace(/=+$/, "")\<close>.\<close>

definition strip_padding :: "string \<Rightarrow> string" where
  "strip_padding s = rev (dropWhile (\<lambda>c. c = CHR ''='') (rev s))"

fun index_of :: "char \<Rightarrow> string \<Rightarrow> nat option" where
  "index_of c [] = None"
| "index_of c (d # ds) = (if c = d then Some 0 else map_option Suc (index_of c ds))"

text \<open>
  The loop over the cleaned characters, writing into the pre-allocated buffer; \<open>None\<close> is the thrown
  error. A write past the end of a \<open>Buffer\<close> has no effect, as a list update has none.
\<close>

fun decode_loop :: "string \<Rightarrow> nat \<Rightarrow> 32 word \<Rightarrow> nat \<Rightarrow> nat list \<Rightarrow> nat list option" where
  "decode_loop [] bits value' index output = Some output"
| "decode_loop (c # cs) bits value' index output =
     (case index_of c base32_alphabet of
        None \<Rightarrow> None
      | Some v \<Rightarrow>
          (let value'' = push_bit 5 value' OR of_nat v; bits' = bits + 5
           in if bits' \<ge> 8
              then decode_loop cs (bits' - 8) value'' (index + 1)
                (output[index := unat (drop_bit (bits' - 8) value'' AND 255)])
              else decode_loop cs bits' value'' index output))"

definition base32_decode :: "string \<Rightarrow> nat list option" where
  "base32_decode input =
     (let cleaned = strip_padding (js_upper input)
      in decode_loop cleaned 0 0 0 (replicate (length cleaned * 5 div 8) 0))"

section \<open>Bit streams\<close>

text \<open>The low \<open>n\<close> bits of a word, most significant first.\<close>

definition low_bits :: "nat \<Rightarrow> 32 word \<Rightarrow> bool list" where
  "low_bits n w = map (bit w) (rev [0..<n])"

lemma length_low_bits [simp]: "length (low_bits n w) = n"
  by (simp add: low_bits_def)

lemma low_bits_0 [simp]: "low_bits 0 w = []"
  by (simp add: low_bits_def)

lemma nth_low_bits: "i < n \<Longrightarrow> low_bits n w ! i = bit w (n - Suc i)"
  by (simp add: low_bits_def rev_nth)

lemma low_bits_push:
  assumes "k + n \<le> 32" "b < 2 ^ n"
  shows "low_bits (k + n) (push_bit n w OR of_nat b) = low_bits k w @ low_bits n (of_nat b)"
proof (rule nth_equalityI)
  fix i assume "i < length (low_bits (k + n) (push_bit n w OR of_nat b))"
  then have i: "i < k + n" by simp
  have small: "\<not> bit (of_nat b :: 32 word) j" if "n \<le> j" for j
  proof
    assume "bit (of_nat b :: 32 word) j"
    then have "odd (b div 2 ^ j)" by (simp add: bit_of_nat_iff flip: bit_iff_odd)
    moreover have "b < 2 ^ j"
      using assms(2) that by (meson less_le_trans one_le_numeral power_increasing)
    ultimately show False by simp
  qed
  show "low_bits (k + n) (push_bit n w OR of_nat b) ! i = (low_bits k w @ low_bits n (of_nat b)) ! i"
  proof (cases "i < k")
    case True
    then have "k + n - Suc i - n = k - Suc i" "n \<le> k + n - Suc i" "k + n - Suc i < 32"
      using assms(1) by auto
    then show ?thesis using True i small
      by (simp add: nth_low_bits nth_append bit_or_iff bit_push_bit_iff)
  next
    case False
    then have "k + n - Suc i < n" "k + n - Suc i = n - Suc (i - k)" using i by auto
    then show ?thesis using False i
      by (simp add: nth_low_bits nth_append bit_or_iff bit_push_bit_iff)
  qed
qed simp

lemma low_bits_split:
  assumes "n + k \<le> 32"
  shows "low_bits (n + k) w = low_bits n (drop_bit k w) @ low_bits k w"
proof (rule nth_equalityI)
  fix i assume "i < length (low_bits (n + k) w)"
  then show "low_bits (n + k) w ! i = (low_bits n (drop_bit k w) @ low_bits k w) ! i"
    by (cases "i < n") (auto simp: nth_low_bits nth_append bit_drop_bit_eq add.commute)
qed simp

lemma low_bits_and_31: "low_bits 5 (w AND 31) = low_bits 5 w"
proof -
  have "w AND 31 = take_bit 5 w" by (simp add: take_bit_eq_mask mask_numeral)
  then show ?thesis by (auto simp: low_bits_def bit_take_bit_iff)
qed

lemma low_bits_and_255: "low_bits 8 (w AND 255) = low_bits 8 w"
proof -
  have "w AND 255 = take_bit 8 w" by (simp add: take_bit_eq_mask mask_numeral)
  then show ?thesis by (auto simp: low_bits_def bit_take_bit_iff)
qed

lemma unat_and_31: "unat (w AND 31 :: 32 word) < 32"
  using word_and_le1 [of w 31] by (simp add: word_le_nat_alt)

lemma unat_and_255: "unat (w AND 255 :: 32 word) < 256"
  using word_and_le1 [of w 255] by (simp add: word_le_nat_alt)

lemma low_bits_zero: "low_bits n 0 = replicate n False"
  by (rule nth_equalityI) (simp_all add: nth_low_bits)

definition stream :: "nat \<Rightarrow> nat list \<Rightarrow> bool list" where
  "stream n xs = concat (map (\<lambda>x. low_bits n (of_nat x)) xs)"

lemma stream_simps [simp]:
  "stream n [] = []" "stream n (x # xs) = low_bits n (of_nat x) @ stream n xs"
  "stream n (xs @ ys) = stream n xs @ stream n ys"
  by (simp_all add: stream_def)

lemma length_stream [simp]: "length (stream n xs) = n * length xs"
  by (induction xs) simp_all

lemma low_bits_inject:
  assumes "low_bits n (of_nat a) = low_bits n (of_nat b)" "a < 2 ^ n" "b < 2 ^ n" "n \<le> 32"
  shows "a = b"
proof (rule bit_eqI)
  fix k
  show "bit a k = bit b k"
  proof (cases "k < n")
    case True
    then have "low_bits n (of_nat a) ! (n - Suc k) = low_bits n (of_nat b) ! (n - Suc k)"
      using assms(1) by simp
    moreover have "n - Suc k < n" "n - Suc (n - Suc k) = k" using True by auto
    ultimately show ?thesis using True assms(4) by (simp add: nth_low_bits bit_of_nat_iff)
  next
    case False
    then have "a < 2 ^ k" "b < 2 ^ k"
      using assms(2,3) by (meson less_le_trans not_less one_le_numeral power_increasing)+
    then show ?thesis by (simp add: bit_iff_odd)
  qed
qed

lemma stream_inject:
  assumes "stream n xs @ us = stream n ys @ vs" "length us < n" "length vs < n"
    "\<forall>x \<in> set xs. x < 2 ^ n" "\<forall>y \<in> set ys. y < 2 ^ n" "n \<le> 32"
  shows "xs = ys"
  using assms(1,4,5)
proof (induction xs arbitrary: ys)
  case Nil
  then have "n * length ys < n" using assms(2)
    by (metis append_Nil length_append length_stream not_add_less1 not_less_iff_gr_or_eq stream_simps(1)
        trans_less_add1 linorder_neqE_nat)
  then show ?case by (cases ys) auto
next
  case (Cons x xs)
  have "n * length (x # xs) \<le> n * length ys + length vs"
    using arg_cong [OF Cons.prems(1), of length] by simp
  then have "ys \<noteq> []" using assms(3) by auto
  then obtain y ys' where [simp]: "ys = y # ys'" by (cases ys) auto
  have "low_bits n (of_nat x) = low_bits n (of_nat y)" "stream n xs @ us = stream n ys' @ vs"
    using Cons.prems(1) by simp_all
  with Cons assms(6) show ?case by (auto dest: low_bits_inject)
qed

section \<open>What the two loops do to the stream\<close>

lemma emit_quintets_stream:
  "emit_quintets bits v outs = (outs', bits') \<Longrightarrow> bits \<le> 32 \<Longrightarrow>
     \<exists>new. outs' = outs @ new \<and> stream 5 new @ low_bits bits' v = low_bits bits v \<and> bits' < 5 \<and>
       (\<forall>x \<in> set new. x < 32)"
proof (induction bits arbitrary: outs rule: less_induct)
  case (less bits)
  show ?case
  proof (cases "bits \<ge> 5")
    case True
    let ?q = "unat (drop_bit (bits - 5) v AND 31)"
    have "emit_quintets (bits - 5) v (outs @ [?q]) = (outs', bits')"
      using less.prems(1) True by (simp add: emit_quintets.simps [of bits])
    moreover have "bits - 5 < bits" "bits - 5 \<le> 32" using True less.prems(2) by auto
    ultimately obtain new where new: "outs' = (outs @ [?q]) @ new"
      "stream 5 new @ low_bits bits' v = low_bits (bits - 5) v" "bits' < 5" "\<forall>x \<in> set new. x < 32"
      using less.IH by blast
    have "low_bits bits v = low_bits 5 (drop_bit (bits - 5) v) @ low_bits (bits - 5) v"
      using low_bits_split [of 5 "bits - 5" v] True less.prems(2) by simp
    then have "stream 5 (?q # new) @ low_bits bits' v = low_bits bits v"
      using new(2) by (simp add: low_bits_and_31)
    then show ?thesis using new by (intro exI [of _ "?q # new"]) (simp add: unat_and_31)
  next
    case False
    then show ?thesis using less.prems(1) by (simp add: emit_quintets.simps [of bits])
  qed
qed

lemma encode_loop_stream:
  "encode_loop bs bits v outs = (outs', bits', v') \<Longrightarrow> bits < 5 \<Longrightarrow> \<forall>b \<in> set bs. b < 256 \<Longrightarrow>
     \<exists>new. outs' = outs @ new \<and> stream 5 new @ low_bits bits' v' = low_bits bits v @ stream 8 bs \<and>
       bits' < 5 \<and> (\<forall>x \<in> set new. x < 32)"
proof (induction bs arbitrary: bits v outs)
  case (Cons b bs)
  let ?v = "push_bit 8 v OR of_nat b :: 32 word"
  obtain out2 bits2 where e: "emit_quintets (bits + 8) ?v outs = (out2, bits2)" by fastforce
  have "bits + 8 \<le> 32" using Cons.prems(2) by simp
  from emit_quintets_stream [OF e this] obtain new where new: "out2 = outs @ new"
    "stream 5 new @ low_bits bits2 ?v = low_bits (bits + 8) ?v" "bits2 < 5" "\<forall>x \<in> set new. x < 32" by blast
  have "encode_loop bs bits2 ?v out2 = (outs', bits', v')" using Cons.prems(1) e by (simp add: Let_def)
  moreover have "\<forall>b \<in> set bs. b < 256" using Cons.prems(3) by simp
  ultimately obtain rest where rest: "outs' = out2 @ rest"
    "stream 5 rest @ low_bits bits' v' = low_bits bits2 ?v @ stream 8 bs" "bits' < 5"
    "\<forall>x \<in> set rest. x < 32" using Cons.IH [of bits2 ?v out2] new(3) by blast
  have "low_bits (bits + 8) ?v = low_bits bits v @ low_bits 8 (of_nat b)"
    using Cons.prems(2,3) by (intro low_bits_push) simp_all
  then have "stream 5 (new @ rest) @ low_bits bits' v' = low_bits bits v @ stream 8 (b # bs)"
    using new(2) rest(2) by simp
  then show ?case using new rest by (intro exI [of _ "new @ rest"]) auto
qed simp

lemma base32_checks:
  "list_all (\<lambda>i. index_of (base32_alphabet ! i) base32_alphabet = Some i \<and>
     upper_char (base32_alphabet ! i) = [base32_alphabet ! i] \<and> base32_alphabet ! i \<noteq> CHR ''='') [0..<32]"
  by code_simp

lemma base32_index: "i < 32 \<Longrightarrow> index_of (base32_alphabet ! i) base32_alphabet = Some i"
  and base32_upper: "i < 32 \<Longrightarrow> upper_char (base32_alphabet ! i) = [base32_alphabet ! i]"
  and base32_no_padding: "i < 32 \<Longrightarrow> base32_alphabet ! i \<noteq> CHR ''=''"
  using base32_checks by (simp_all add: list_all_iff)

lemma decode_loop_stream:
  "bits < 8 \<Longrightarrow> \<forall>q \<in> set qs. q < 32 \<Longrightarrow> index + (bits + 5 * length qs) div 8 \<le> length outs \<Longrightarrow>
     \<exists>new v' bits'. decode_loop (map (\<lambda>i. base32_alphabet ! i) qs) bits v index outs =
         Some (take index outs @ new @ drop (index + length new) outs) \<and>
       stream 8 new @ low_bits bits' v' = low_bits bits v @ stream 5 qs \<and> bits' < 8 \<and>
       (\<forall>x \<in> set new. x < 256)"
proof (induction qs arbitrary: bits v index outs)
  case Nil
  then show ?case by (intro exI [of _ "[]"] exI [of _ v] exI [of _ bits]) simp
next
  case (Cons q qs)
  let ?v = "push_bit 5 v OR of_nat q :: 32 word"
  have q: "index_of (base32_alphabet ! q) base32_alphabet = Some q"
    using Cons.prems(2) base32_index by simp
  have low: "low_bits (bits + 5) ?v = low_bits bits v @ low_bits 5 (of_nat q)"
    using Cons.prems(1,2) by (intro low_bits_push) simp_all
  show ?case
  proof (cases "bits + 5 \<ge> 8")
    case True
    let ?b = "unat (drop_bit (bits + 5 - 8) ?v AND 255)"
    have fits: "index + 1 + (bits + 5 - 8 + 5 * length qs) div 8 \<le> length (outs[index := ?b])"
    proof -
      have "bits + 5 * length (q # qs) = 8 + (bits + 5 - 8 + 5 * length qs)" using True by simp
      then have "(bits + 5 * length (q # qs)) div 8 = 1 + (bits + 5 - 8 + 5 * length qs) div 8"
        by (metis add.commute div_add_self2 zero_neq_numeral Suc_eq_plus1)
      then show ?thesis using Cons.prems(3) by simp
    qed
    have small: "bits + 5 - 8 < 8" "\<forall>q \<in> set qs. q < 32" using Cons.prems(1,2) by auto
    obtain new v' bits' where IH:
      "decode_loop (map (\<lambda>i. base32_alphabet ! i) qs) (bits + 5 - 8) ?v (index + 1) (outs[index := ?b]) =
         Some (take (index + 1) (outs[index := ?b]) @ new @ drop (index + 1 + length new) (outs[index := ?b]))"
      "stream 8 new @ low_bits bits' v' = low_bits (bits + 5 - 8) ?v @ stream 5 qs" "bits' < 8"
      "\<forall>x \<in> set new. x < 256"
      using Cons.IH [OF small fits] by blast
    have in_range: "index < length outs" using fits by simp
    have "low_bits (bits + 5) ?v = low_bits 8 (drop_bit (bits + 5 - 8) ?v) @ low_bits (bits + 5 - 8) ?v"
      using low_bits_split [of 8 "bits + 5 - 8" ?v] True Cons.prems(1) by (simp add: add.commute)
    then have "stream 8 (?b # new) @ low_bits bits' v' = low_bits bits v @ stream 5 (q # qs)"
      using IH(2) low by (simp add: low_bits_and_255)
    moreover have "take (index + 1) (outs[index := ?b]) @ new @ drop (index + 1 + length new) (outs[index := ?b]) =
        take index outs @ (?b # new) @ drop (index + length (?b # new)) outs"
      using in_range by (simp add: take_Suc_conv_app_nth)
    ultimately show ?thesis using IH True q
      by (intro exI [of _ "?b # new"] exI [of _ v'] exI [of _ bits']) (simp add: Let_def unat_and_255)
  next
    case False
    have fits: "index + (bits + 5 + 5 * length qs) div 8 \<le> length outs" using Cons.prems(3) by (simp add: add.assoc)
    have small: "bits + 5 < 8" "\<forall>q \<in> set qs. q < 32" using False Cons.prems(2) by auto
    obtain new v' bits' where IH:
      "decode_loop (map (\<lambda>i. base32_alphabet ! i) qs) (bits + 5) ?v index outs =
         Some (take index outs @ new @ drop (index + length new) outs)"
      "stream 8 new @ low_bits bits' v' = low_bits (bits + 5) ?v @ stream 5 qs" "bits' < 8"
      "\<forall>x \<in> set new. x < 256"
      using Cons.IH [OF small fits] by blast
    then show ?thesis using False q low
      by (intro exI [of _ new] exI [of _ v'] exI [of _ bits']) (simp add: Let_def)
  qed
qed

lemma base32_cleaned:
  assumes "\<forall>q \<in> set qs. q < 32"
  shows "strip_padding (js_upper (map (\<lambda>i. base32_alphabet ! i) qs)) = map (\<lambda>i. base32_alphabet ! i) qs"
proof -
  have upper: "js_upper (map (\<lambda>i. base32_alphabet ! i) qs) = map (\<lambda>i. base32_alphabet ! i) qs"
    using assms base32_upper by (induction qs) (simp_all add: js_upper_def)
  have "dropWhile (\<lambda>c. c = CHR ''='') (rev (map (\<lambda>i. base32_alphabet ! i) qs)) =
      rev (map (\<lambda>i. base32_alphabet ! i) qs)"
  proof (cases qs rule: rev_cases)
    case (snoc qs' q)
    then show ?thesis using assms base32_no_padding by simp
  qed simp
  with upper show ?thesis by (simp add: strip_padding_def)
qed

section \<open>The round trip\<close>

text \<open>
  decoding an encoded secret gives back its bytes, and the encoded text is as long as the bytes
  need, five bits to a letter of the alphabet: nothing of the secret is lost to the wrap-around of
  the 32-bit accumulator.
\<close>

theorem base32_round_trip:
  assumes "\<forall>b \<in> set bytes. b < 256"
  shows "base32_decode (base32_encode bytes) = Some bytes \<and>
    length (base32_encode bytes) = (8 * length bytes + 4) div 5 \<and>
    set (base32_encode bytes) \<subseteq> set base32_alphabet"
proof -
  obtain outs bits v where e: "encode_loop bytes 0 0 [] = (outs, bits, v)" by (cases "encode_loop bytes 0 0 []")
  with encode_loop_stream [OF e _ assms] have outs: "stream 5 outs @ low_bits bits v = stream 8 bytes"
    "bits < 5" "\<forall>x \<in> set outs. x < 32" by auto
  define qs where "qs = (if bits > 0 then outs @ [unat (push_bit (5 - bits) v AND 31)] else outs)"
  define z where "z = (if bits > 0 then 5 - bits else 0)"
  have enc: "base32_encode bytes = map (\<lambda>i. base32_alphabet ! i) qs"
    by (simp add: base32_encode_def e qs_def)
  have qs: "\<forall>q \<in> set qs. q < 32" using outs(3) by (auto simp: qs_def unat_and_31)
  have tail: "low_bits 5 (push_bit (5 - bits) v) = low_bits bits v @ replicate (5 - bits) False"
    using low_bits_push [of bits "5 - bits" 0 v] outs(2) by (simp add: low_bits_zero)
  have stream: "stream 5 qs = stream 8 bytes @ replicate z False" "z < 5"
    using outs tail by (auto simp: qs_def z_def low_bits_and_31)
  have len: "5 * length qs = 8 * length bytes + z"
    using arg_cong [OF stream(1), of length] by simp
  then have dlen: "length qs * 5 div 8 = length bytes" using stream(2) by simp
  let ?buf = "replicate (length bytes) (0 :: nat)"
  have fits: "0 + (0 + 5 * length qs) div 8 \<le> length ?buf" using dlen by (simp add: mult.commute)
  obtain new v' bits' where d: "decode_loop (map (\<lambda>i. base32_alphabet ! i) qs) 0 0 0 ?buf =
      Some (take 0 ?buf @ new @ drop (0 + length new) ?buf)"
    "stream 8 new @ low_bits bits' v' = low_bits 0 0 @ stream 5 qs" "bits' < 8" "\<forall>x \<in> set new. x < 256"
    using decode_loop_stream [OF _ qs fits, of 0] by auto
  have "stream 8 new @ low_bits bits' v' = stream 8 bytes @ replicate z False"
    using d(2) stream(1) by simp
  from stream_inject [OF this] have "new = bytes" using d(3,4) assms stream(2) by simp
  then have "base32_decode (base32_encode bytes) = Some bytes"
    using d(1) dlen by (simp add: base32_decode_def enc base32_cleaned [OF qs] Let_def)
  moreover have "length (base32_encode bytes) = (8 * length bytes + 4) div 5"
    using len stream(2) enc by simp
  moreover have "set (base32_encode bytes) \<subseteq> set base32_alphabet"
  proof -
    have "length base32_alphabet = 32" by (simp add: base32_alphabet_def)
    then show ?thesis using qs enc nth_mem [of _ base32_alphabet] by auto
  qed
  ultimately show ?thesis by blast
qed

theorem base32_round_trip_witness:
  "base32_encode [72, 101, 108, 108, 111, 33] = ''JBSWY3DPEE'' \<and>
   base32_decode (base32_encode [72, 101, 108, 108, 111, 33]) = Some [72, 101, 108, 108, 111, 33]"
proof -
  have "base32_encode [72, 101, 108, 108, 111, 33] = ''JBSWY3DPEE''" by code_simp
  moreover have "\<forall>b \<in> set [72, 101, 108, 108, 111, 33 :: nat]. b < 256" by simp
  ultimately show ?thesis using base32_round_trip by blast
qed

end
