(* ===== verification/JsonText.thy ===== *)
theory JsonText
  imports AuditMetadata
begin

text \<open>
  The JSON text of an array of strings, as \<open>JSON.stringify\<close> writes it and as \<open>JSON.parse\<close> followed
  by the shape check of \<open>parseStoredHashes\<close> (\<open>packages/mfa\<close>) reads it: a text that is not JSON and a
  JSON text of another shape are both \<open>None\<close>. Escapes of code units above 255 lie outside of the
  strings modelled and are read as \<open>None\<close> too.
\<close>

section \<open>Writing\<close>

definition json_char :: "char \<Rightarrow> string" where
  "json_char c =
     (if c = CHR 0x22 \<or> c = CHR 0x5C then [CHR 0x5C, c]
      else if c = CHR 0x08 then [CHR 0x5C, CHR ''b'']
      else if c = CHR 0x0C then [CHR 0x5C, CHR ''f'']
      else if c = CHR 0x0A then [CHR 0x5C, CHR ''n'']
      else if c = CHR 0x0D then [CHR 0x5C, CHR ''r'']
      else if c = CHR 0x09 then [CHR 0x5C, CHR ''t'']
      else if (of_char c :: nat) < 32 then unicode_escape c
      else [c])"

definition json_quote :: "string \<Rightarrow> string" where
  "json_quote s = CHR 0x22 # concat (map json_char s) @ [CHR 0x22]"

definition json_string_array :: "string list \<Rightarrow> string" where
  "json_string_array xs = CHR ''['' # js_join '','' (map json_quote xs) @ '']''"

section \<open>Reading\<close>

definition json_ws :: "char \<Rightarrow> bool" where
  "json_ws c \<longleftrightarrow> c \<in> {CHR '' '', CHR 0x09, CHR 0x0A, CHR 0x0D}"

definition skip_ws :: "string \<Rightarrow> string" where
  "skip_ws s = dropWhile json_ws s"

definition hex_char :: "char \<Rightarrow> nat option" where
  "hex_char c =
     (let n = of_char c
      in if 48 \<le> n \<and> n \<le> 57 then Some (n - 48)
         else if 97 \<le> n \<and> n \<le> 102 then Some (n - 87)
         else if 65 \<le> n \<and> n \<le> 70 then Some (n - 55) else None)"

definition simple_escape :: "char \<Rightarrow> char option" where
  "simple_escape c =
     (if c = CHR 0x22 \<or> c = CHR 0x5C \<or> c = CHR ''/'' then Some c
      else if c = CHR ''b'' then Some (CHR 0x08) else if c = CHR ''f'' then Some (CHR 0x0C)
      else if c = CHR ''n'' then Some (CHR 0x0A) else if c = CHR ''r'' then Some (CHR 0x0D)
      else if c = CHR ''t'' then Some (CHR 0x09) else None)"

text \<open>One character of a string literal, with the rest of the text.\<close>

definition json_next :: "string \<Rightarrow> (char \<times> string) option" where
  "json_next s =
     (case s of
        [] \<Rightarrow> None
      | c # r \<Rightarrow>
          (if c \<noteq> CHR 0x5C then (if (of_char c :: nat) < 32 then None else Some (c, r))
           else case r of
             [] \<Rightarrow> None
           | e # r' \<Rightarrow>
               (case simple_escape e of
                  Some d \<Rightarrow> Some (d, r')
                | None \<Rightarrow>
                    (if e \<noteq> CHR ''u'' then None
                     else case r' of
                       h1 # h2 # h3 # h4 # r'' \<Rightarrow>
                         (case (hex_char h1, hex_char h2, hex_char h3, hex_char h4) of
                            (Some a, Some b, Some x, Some y) \<Rightarrow>
                              (if a = 0 \<and> b = 0 then Some (char_of (16 * x + y), r'') else None)
                          | _ \<Rightarrow> None)
                     | _ \<Rightarrow> None))))"

lemma json_next_shorter: "json_next s = Some (c, r) \<Longrightarrow> length r < length s"
  by (auto simp: json_next_def split: list.splits option.splits if_splits)

text \<open>The rest of a string literal after its opening quote.\<close>

function json_literal :: "string \<Rightarrow> (string \<times> string) option" where
  "json_literal s =
     (if s \<noteq> [] \<and> hd s = CHR 0x22 then Some ([], tl s)
      else case json_next s of
        None \<Rightarrow> None
      | Some (c, r) \<Rightarrow> (case json_literal r of None \<Rightarrow> None | Some (cs, rest) \<Rightarrow> Some (c # cs, rest)))"
  by pat_completeness auto
termination by (relation "measure length") (auto dest: json_next_shorter)

declare json_literal.simps [simp del]

lemma json_literal_end [simp]: "json_literal (CHR 0x22 # r) = Some ([], r)"
  by (simp add: json_literal.simps)

lemma json_literal_shorter: "json_literal s = Some (cs, r) \<Longrightarrow> length r < length s"
proof (induction s arbitrary: cs r rule: json_literal.induct)
  case (1 s)
  show ?case
  proof (cases "s \<noteq> [] \<and> hd s = CHR 0x22")
    case True
    then show ?thesis using 1(2) by (cases s) auto
  next
    case False
    then obtain c s' where n: "json_next s = Some (c, s')"
      using 1(2) by (auto simp: json_literal.simps [of s] split: option.splits)
    with False 1(2) obtain cs' where "json_literal s' = Some (cs', r)"
      by (auto simp: json_literal.simps [of s] split: option.splits)
    with 1(1) [OF False n] json_next_shorter [OF n] show ?thesis by fastforce
  qed
qed

lemma length_skip_ws: "length (skip_ws s) \<le> length s"
  by (simp add: skip_ws_def length_dropWhile_le)

text \<open>The elements of an array after its bracket or a comma.\<close>

function json_elements :: "string \<Rightarrow> (string list \<times> string) option" where
  "json_elements s =
     (case skip_ws s of
        [] \<Rightarrow> None
      | q # r \<Rightarrow>
          (if q \<noteq> CHR 0x22 then None
           else case json_literal r of
             None \<Rightarrow> None
           | Some (x, rest) \<Rightarrow>
               (case skip_ws rest of
                  [] \<Rightarrow> None
                | d # rest' \<Rightarrow>
                    (if d = CHR '']'' then Some ([x], rest')
                     else if d = CHR '','' then
                       (case json_elements rest' of None \<Rightarrow> None | Some (xs, r') \<Rightarrow> Some (x # xs, r'))
                     else None))))"
  by pat_completeness auto
termination
proof (relation "measure length")
  fix s q r x2 x rest d rest'
  assume "skip_ws s = q # r" "json_literal r = Some x2" "(x, rest) = x2" "skip_ws rest = d # rest'"
  then have "length (q # r) \<le> length s" "length rest < length r" "length (d # rest') \<le> length rest"
    using length_skip_ws [of s] length_skip_ws [of rest] json_literal_shorter by auto
  then show "(rest', s) \<in> measure length" by simp
qed simp

declare json_elements.simps [simp del]

definition parse_string_array :: "string \<Rightarrow> string list option" where
  "parse_string_array s =
     (case skip_ws s of
        [] \<Rightarrow> None
      | b # r \<Rightarrow>
          (if b \<noteq> CHR ''['' then None
           else if skip_ws r \<noteq> [] \<and> hd (skip_ws r) = CHR '']''
           then (if skip_ws (tl (skip_ws r)) = [] then Some [] else None)
           else case json_elements r of
             None \<Rightarrow> None
           | Some (xs, rest) \<Rightarrow> (if skip_ws rest = [] then Some xs else None)))"

section \<open>Reading what was written\<close>

lemma hex_char_digit: "n < 16 \<Longrightarrow> hex_char (hex_digit n) = Some n"
  by (auto simp: hex_char_def hex_digit_def Let_def)

lemma json_next_escape: "json_next (unicode_escape c @ s) = Some (c, s)"
proof -
  have "(of_char c :: nat) < 256" by (rule char_code_less)
  then have "(of_char c :: nat) div 16 < 16" "(of_char c :: nat) mod 16 < 16"
    by (simp_all add: less_mult_imp_div_less)
  moreover have "hex_char (CHR ''0'') = Some 0" by (simp add: hex_char_def)
  moreover have "simple_escape (CHR ''u'') = None" by (simp add: simple_escape_def)
  ultimately show ?thesis by (simp add: json_next_def unicode_escape_def hex_char_digit)
qed

lemma json_next_simple:
  "simple_escape e = Some c \<Longrightarrow> json_next ([CHR 0x5C, e] @ s) = Some (c, s)"
  by (simp add: json_next_def)

lemma json_next_plain:
  "c \<noteq> CHR 0x5C \<Longrightarrow> \<not> (of_char c :: nat) < 32 \<Longrightarrow> json_next ([c] @ s) = Some (c, s)"
  by (simp add: json_next_def)

lemma json_next_char: "json_next (json_char c @ s) = Some (c, s)"
proof -
  consider "c = CHR 0x22 \<or> c = CHR 0x5C" | "c = CHR 0x08" | "c = CHR 0x0C" | "c = CHR 0x0A"
    | "c = CHR 0x0D" | "c = CHR 0x09"
    | (control) "c \<notin> {CHR 0x22, CHR 0x5C, CHR 0x08, CHR 0x0C, CHR 0x0A, CHR 0x0D, CHR 0x09}"
        "(of_char c :: nat) < 32"
    | (plain) "c \<notin> {CHR 0x22, CHR 0x5C, CHR 0x08, CHR 0x0C, CHR 0x0A, CHR 0x0D, CHR 0x09}"
        "\<not> (of_char c :: nat) < 32"
    by blast
  then show ?thesis
  proof cases
    case control
    then have "json_char c = unicode_escape c" by (simp add: json_char_def)
    then show ?thesis by (simp add: json_next_escape)
  next
    case plain
    then have "json_char c = [c]" by (simp add: json_char_def)
    then show ?thesis using json_next_plain plain by simp
  qed (auto simp: json_char_def json_next_def simple_escape_def)
qed

lemma json_char_not_quote: "json_char c \<noteq> [] \<and> hd (json_char c) \<noteq> CHR 0x22"
  by (simp add: json_char_def unicode_escape_def)

lemma json_literal_quoted: "json_literal (concat (map json_char x) @ CHR 0x22 # s) = Some (x, s)"
proof (induction x)
  case Nil
  then show ?case by (simp add: json_literal.simps)
next
  case (Cons c x)
  have "concat (map json_char (c # x)) @ CHR 0x22 # s =
      json_char c @ concat (map json_char x) @ CHR 0x22 # s" by simp
  then show ?case
    using Cons json_char_not_quote [of c] json_next_char [of c "concat (map json_char x) @ CHR 0x22 # s"]
    by (subst json_literal.simps) (simp add: hd_append)
qed

lemma skip_ws_quote [simp]: "skip_ws (CHR 0x22 # s) = CHR 0x22 # s"
  by (simp add: skip_ws_def json_ws_def)

lemma json_elements_quoted:
  "xs \<noteq> [] \<Longrightarrow> json_elements (js_join '','' (map json_quote xs) @ CHR '']'' # s) = Some (xs, s)"
proof (induction xs)
  case (Cons x xs)
  show ?case
  proof (cases xs)
    case Nil
    then show ?thesis
      by (subst json_elements.simps)
        (simp add: json_quote_def json_literal_quoted skip_ws_def json_ws_def)
  next
    case (Cons y ys)
    then show ?thesis using Cons.IH
      by (subst json_elements.simps)
        (simp add: json_quote_def [of x] json_literal_quoted skip_ws_def json_ws_def)
  qed
qed simp

theorem parse_string_array_round_trip: "parse_string_array (json_string_array xs) = Some xs"
proof (cases xs)
  case Nil
  then show ?thesis
    by (simp add: parse_string_array_def json_string_array_def skip_ws_def json_ws_def)
next
  case (Cons y ys)
  have "js_join '','' (map json_quote xs) @ '']'' \<noteq> []" "hd (js_join '','' (map json_quote xs) @ '']'') = CHR 0x22"
    using Cons by (cases ys; simp add: json_quote_def)+
  then show ?thesis
    using json_elements_quoted [of xs "[]"] Cons
    by (cases "js_join '','' (map json_quote xs) @ '']''")
      (simp_all add: parse_string_array_def json_string_array_def skip_ws_def json_ws_def)
qed

end
