(* ===== verification/Mfa.thy ===== *)
theory Mfa
  imports Base32 JsonText
begin

text \<open>
  \<open>packages/mfa/domain\<close>: the enforcement policy, the \<open>MfaMethod\<close> aggregate with its lockout and
  replay protection, the login challenge, the step-up assertion, the RFC 6238 code and the backup
  codes. HMAC-SHA1 and argon2 are parameters; the clock, ids and random bytes a call draws are its
  arguments, times are whole milliseconds. A mutator returns the object after the call, or \<open>None\<close>
  where it throws, which leaves the object as it was.
\<close>

section \<open>The enforcement policy\<close>

datatype mfa_method_type = Totp | Webauthn | BackupCodes

datatype enforcement_level = Required | OptionalLevel | Disabled

record enforcement_override =
  eo_level :: "enforcement_level option"
  eo_allowed :: "mfa_method_type list option"

record enforcement_input =
  ei_global :: "enforcement_level option"
  ei_allowed :: "mfa_method_type list option"
  ei_organization :: "enforcement_override option"
  ei_role :: "enforcement_override option"
  ei_user :: "enforcement_override option"
  ei_enrolled :: "mfa_method_type list option"

record enforcement_decision =
  ed_level :: enforcement_level
  ed_allowed :: "mfa_method_type list"
  ed_enrolled_allowed :: "mfa_method_type list"
  ed_requires_enrollment :: bool
  ed_blocked :: bool

definition all_mfa_methods :: "mfa_method_type list" where
  "all_mfa_methods = [Totp, Webauthn, BackupCodes]"

text \<open>\<open>a?.f ?? b?.f ?? ...\<close>: the first scope that sets the knob.\<close>

fun first_set :: "('a \<Rightarrow> 'b option) \<Rightarrow> 'a option list \<Rightarrow> 'b option \<Rightarrow> 'b option" where
  "first_set f [] fallback = fallback"
| "first_set f (None # scopes) fallback = first_set f scopes fallback"
| "first_set f (Some o' # scopes) fallback =
     (case f o' of Some v \<Rightarrow> Some v | None \<Rightarrow> first_set f scopes fallback)"

definition resolve_enforcement :: "enforcement_input \<Rightarrow> enforcement_decision" where
  "resolve_enforcement input =
     (let scopes = [ei_user input, ei_role input, ei_organization input];
          level = or_default (first_set eo_level scopes (ei_global input)) OptionalLevel;
          allowed = or_default (first_set eo_allowed scopes (ei_allowed input)) all_mfa_methods;
          enrolled = or_default (ei_enrolled input) [];
          enrolled_allowed = filter (\<lambda>m. m \<in> set allowed) enrolled;
          requires = (level = Required \<and> length enrolled_allowed = 0)
      in \<lparr>ed_level = level, ed_allowed = allowed, ed_enrolled_allowed = enrolled_allowed,
          ed_requires_enrollment = requires, ed_blocked = requires\<rparr>)"

section \<open>MfaMethod\<close>

datatype mfa_status = MfaPending | MfaActive | MfaDisabled

record mfa_method =
  mm_id :: string
  mm_user :: string
  mm_type :: mfa_method_type
  mm_status :: mfa_status
  mm_secret :: "string option"
  mm_last_used_at :: "int option"
  mm_created_at :: int
  mm_updated_at :: int
  mm_failed :: nat
  mm_locked_until :: "int option"
  mm_last_step :: "int option"

definition lockout_threshold :: nat where "lockout_threshold = 5"
definition lockout_base_ms :: int where "lockout_base_ms = 60 * 1000"
definition max_lockout_ms :: int where "max_lockout_ms = 60 * 60 * 1000"

definition method_create :: "string \<Rightarrow> string \<Rightarrow> mfa_method_type \<Rightarrow> string option \<Rightarrow> int \<Rightarrow> mfa_method" where
  "method_create fresh user type' secret now =
     \<lparr>mm_id = fresh, mm_user = user, mm_type = type', mm_status = MfaPending, mm_secret = secret,
      mm_last_used_at = None, mm_created_at = now, mm_updated_at = now, mm_failed = 0,
      mm_locked_until = None, mm_last_step = None\<rparr>"

definition create_pending_totp :: "string \<Rightarrow> string \<Rightarrow> string \<Rightarrow> int \<Rightarrow> mfa_method" where
  "create_pending_totp fresh user secret now = method_create fresh user Totp (Some secret) now"

definition create_active :: "string \<Rightarrow> string \<Rightarrow> mfa_method_type \<Rightarrow> int \<Rightarrow> mfa_method" where
  "create_active fresh user type' now =
     \<lparr>mm_id = fresh, mm_user = user, mm_type = type', mm_status = MfaActive, mm_secret = None,
      mm_last_used_at = None, mm_created_at = now, mm_updated_at = now, mm_failed = 0,
      mm_locked_until = None, mm_last_step = None\<rparr>"

definition method_activate :: "int \<Rightarrow> mfa_method \<Rightarrow> mfa_method option" where
  "method_activate now m =
     (if mm_status m = MfaActive then None
      else Some (m\<lparr>mm_status := MfaActive, mm_failed := 0, mm_locked_until := None, mm_updated_at := now\<rparr>))"

definition method_disable :: "int \<Rightarrow> mfa_method \<Rightarrow> mfa_method option" where
  "method_disable now m =
     (if mm_status m = MfaDisabled then None
      else Some (m\<lparr>mm_status := MfaDisabled, mm_updated_at := now\<rparr>))"

definition update_secret :: "string \<Rightarrow> int \<Rightarrow> mfa_method \<Rightarrow> mfa_method" where
  "update_secret secret now m = m\<lparr>mm_secret := Some secret, mm_updated_at := now\<rparr>"

definition clear_secret :: "int \<Rightarrow> mfa_method \<Rightarrow> mfa_method" where
  "clear_secret now m = m\<lparr>mm_secret := None, mm_updated_at := now\<rparr>"

definition method_locked_at :: "int \<Rightarrow> mfa_method \<Rightarrow> bool" where
  "method_locked_at now m \<longleftrightarrow> (case mm_locked_until m of None \<Rightarrow> False | Some t \<Rightarrow> now < t)"

definition method_failed_attempt :: "int \<Rightarrow> mfa_method \<Rightarrow> mfa_method" where
  "method_failed_attempt now m =
     (let attempts = mm_failed m + 1;
          locked = (if attempts \<ge> lockout_threshold
            then Some (now + min (lockout_base_ms * 2 ^ (attempts - lockout_threshold)) max_lockout_ms)
            else None)
      in m\<lparr>mm_failed := attempts, mm_locked_until := locked, mm_updated_at := now\<rparr>)"

definition record_use :: "int \<Rightarrow> mfa_method \<Rightarrow> mfa_method option" where
  "record_use now m =
     (if mm_status m \<noteq> MfaActive then None
      else Some (m\<lparr>mm_last_used_at := Some now, mm_failed := 0, mm_locked_until := None, mm_updated_at := now\<rparr>))"

definition record_totp_use :: "int \<Rightarrow> int \<Rightarrow> mfa_method \<Rightarrow> mfa_method option" where
  "record_totp_use step now m =
     (if mm_status m \<noteq> MfaActive then None
      else if (case mm_last_step m of None \<Rightarrow> False | Some last_step \<Rightarrow> step \<le> last_step) then None
      else map_option (\<lambda>m'. m'\<lparr>mm_last_step := Some step\<rparr>) (record_use now m))"

section \<open>MfaChallenge and StepUpAssertion\<close>

record mfa_challenge =
  mc_id :: string
  mc_user :: string
  mc_expires_at :: int
  mc_consumed_at :: "int option"
  mc_created_at :: int

definition challenge_create :: "string \<Rightarrow> string \<Rightarrow> int option \<Rightarrow> int \<Rightarrow> mfa_challenge" where
  "challenge_create fresh user expires now =
     \<lparr>mc_id = fresh, mc_user = user, mc_expires_at = or_default expires (now + 5 * 60 * 1000),
      mc_consumed_at = None, mc_created_at = now\<rparr>"

definition challenge_expired :: "int \<Rightarrow> mfa_challenge \<Rightarrow> bool" where
  "challenge_expired now c \<longleftrightarrow> now \<ge> mc_expires_at c"

definition challenge_consumed :: "mfa_challenge \<Rightarrow> bool" where
  "challenge_consumed c \<longleftrightarrow> mc_consumed_at c \<noteq> None"

definition challenge_valid :: "int \<Rightarrow> mfa_challenge \<Rightarrow> bool" where
  "challenge_valid now c \<longleftrightarrow> \<not> challenge_consumed c \<and> \<not> challenge_expired now c"

definition challenge_consume :: "int \<Rightarrow> mfa_challenge \<Rightarrow> mfa_challenge option" where
  "challenge_consume now c =
     (if challenge_consumed c then None
      else if challenge_expired now c then None
      else Some (c\<lparr>mc_consumed_at := Some now\<rparr>))"

record step_up_assertion =
  su_user :: string
  su_type :: mfa_method_type
  su_verified_at :: int
  su_expires_at :: int

definition assertion_issue :: "string \<Rightarrow> mfa_method_type \<Rightarrow> int \<Rightarrow> int \<Rightarrow> step_up_assertion" where
  "assertion_issue user type' max_age_seconds now =
     \<lparr>su_user = user, su_type = type', su_verified_at = now,
      su_expires_at = now + max_age_seconds * 1000\<rparr>"

definition assertion_fresh_at :: "int \<Rightarrow> step_up_assertion \<Rightarrow> bool" where
  "assertion_fresh_at now a \<longleftrightarrow> now < su_expires_at a"

section \<open>TOTP\<close>

text \<open>\<open>TotpSecret.generate\<close> and \<open>fromString\<close>.\<close>

definition totp_secret_generate :: "nat list \<Rightarrow> string" where
  "totp_secret_generate random_bytes = base32_encode random_bytes"

definition totp_secret_from_string :: "string \<Rightarrow> string result" where
  "totp_secret_from_string secret =
     (case base32_decode secret of
        Some _ \<Rightarrow> Inr secret
      | None \<Rightarrow> Inl (ValidationError [(''secret'', [''invalid_base32''])]))"

definition period_seconds :: int where "period_seconds = 30"
definition totp_digits :: nat where "totp_digits = 6"

definition time_step :: "int \<Rightarrow> int" where
  "time_step timestamp = timestamp div (1000 * period_seconds)"

text \<open>
  The eight counter bytes. \<open>writeUInt32BE\<close> throws on a negative value; \<open>timeStep & 0xffffffff\<close> is a
  signed 32-bit number, so it throws for steps from 2 ^ 31 on as well.
\<close>

definition uint32_bytes :: "int \<Rightarrow> nat list option" where
  "uint32_bytes n =
     (if n < 0 \<or> n \<ge> 2 ^ 32 then None
      else Some (map (\<lambda>k. nat (n div 2 ^ k mod 256)) [24, 16, 8, 0]))"

definition counter_bytes :: "int \<Rightarrow> nat list option" where
  "counter_bytes step =
     (let high = step div 2 ^ 32; low = sint (word_of_int step :: 32 word)
      in case (uint32_bytes high, uint32_bytes low) of
           (Some h, Some l) \<Rightarrow> Some (h @ l) | _ \<Rightarrow> None)"

definition byte_at :: "nat list \<Rightarrow> nat \<Rightarrow> 32 word" where
  "byte_at bs i = (if i < length bs then of_nat (bs ! i) else 0)"

definition truncate_code :: "nat list \<Rightarrow> nat" where
  "truncate_code hmac =
     (let offset = unat (byte_at hmac (length hmac - 1) AND 0xF)
      in unat (push_bit 24 (byte_at hmac offset AND 0x7F) OR push_bit 16 (byte_at hmac (offset + 1) AND 0xFF) OR
           push_bit 8 (byte_at hmac (offset + 2) AND 0xFF) OR (byte_at hmac (offset + 3) AND 0xFF)))"

definition pad_start_zero :: "nat \<Rightarrow> string \<Rightarrow> string" where
  "pad_start_zero n s = replicate (n - length s) (CHR ''0'') @ s"

definition totp_generate :: "(nat list \<Rightarrow> nat list \<Rightarrow> nat list) \<Rightarrow> string \<Rightarrow> int \<Rightarrow> string option" where
  "totp_generate hmac_sha1 secret timestamp =
     (case counter_bytes (time_step timestamp) of
        None \<Rightarrow> None
      | Some buffer \<Rightarrow>
          (case base32_decode secret of
             None \<Rightarrow> None
           | Some key \<Rightarrow>
               Some (pad_start_zero totp_digits
                 (show_nat (truncate_code (hmac_sha1 key buffer) mod 10 ^ totp_digits)))))"

text \<open>
  \<open>verifySync\<close>: the first step of the drift window whose code matches. The outer option is a throw
  of \<open>generate\<close>, the inner one the \<open>null\<close> of no match.
\<close>

fun totp_search :: "(int \<Rightarrow> string option) \<Rightarrow> int \<Rightarrow> string \<Rightarrow> int list \<Rightarrow> int option option" where
  "totp_search gen now code [] = Some None"
| "totp_search gen now code (d # ds) =
     (let timestamp = now + d * period_seconds * 1000
      in case gen timestamp of
           None \<Rightarrow> None
         | Some c \<Rightarrow> (if c = code then Some (Some (time_step timestamp)) else totp_search gen now code ds))"

definition totp_verify ::
  "(nat list \<Rightarrow> nat list \<Rightarrow> nat list) \<Rightarrow> int \<Rightarrow> string \<Rightarrow> string \<Rightarrow> int \<Rightarrow> int option option" where
  "totp_verify hmac_sha1 now secret code drift =
     (case totp_secret_from_string secret of
        Inl _ \<Rightarrow> Some None
      | Inr s \<Rightarrow> totp_search (totp_generate hmac_sha1 s) now code [- drift..drift])"

section \<open>Backup codes\<close>

definition code_count :: nat where "code_count = 10"
definition code_length :: nat where "code_length = 10"

definition backup_charset :: string where
  "backup_charset = ''23456789ABCDEFGHJKLMNPQRSTUVWXYZ''"

text \<open>The code drawn from ten random bytes.\<close>

definition single_code :: "nat list \<Rightarrow> string" where
  "single_code random_bytes =
     (let code = map (\<lambda>b. backup_charset ! (b mod length backup_charset)) (take code_length random_bytes)
      in take 5 code @ ''-'' @ drop 5 code)"

definition generate_codes ::
  "(string \<Rightarrow> string \<Rightarrow> string) \<Rightarrow> (nat list \<times> string) list \<Rightarrow> string list \<times> string list" where
  "generate_codes argon2_hash draws =
     (let raw = map (\<lambda>(bytes, salt). single_code bytes) draws
      in (raw, map2 (\<lambda>(bytes, salt) code. argon2_hash salt code) draws raw))"

definition normalize_code :: "string \<Rightarrow> string" where
  "normalize_code raw =
     (let n = filter (\<lambda>c. (65 \<le> (of_char c :: nat) \<and> (of_char c :: nat) \<le> 90) \<or>
            (48 \<le> (of_char c :: nat) \<and> (of_char c :: nat) \<le> 57)) (js_upper raw)
      in take 5 n @ ''-'' @ drop 5 n)"

definition verify_code :: "(string \<Rightarrow> string \<Rightarrow> bool) \<Rightarrow> string \<Rightarrow> string \<Rightarrow> bool" where
  "verify_code argon2_verify raw hash = argon2_verify hash (normalize_code raw)"

end
