(* ===== verification/MfaFlows.thy ===== *)
theory MfaFlows
  imports Mfa
begin

text \<open>
  The use cases of \<open>packages/mfa/application\<close> over the in-memory method repository, the audit log,
  the challenge store and the step-up assertions, as functions from the world to an outcome and the
  world after it. \<open>None\<close> as the outcome is a call that throws. The TOTP algorithm, argon2, the
  recovery authorizer, the session revoker and the session issuer are arguments.
\<close>

section \<open>The world\<close>

record mfa_world =
  mw_methods :: "(string, mfa_method) js_map"
  mw_audit :: "(string \<times> string \<times> (string \<times> string) list) list"
  mw_challenges :: "(string, mfa_challenge) js_map"
  mw_assertions :: "(string, step_up_assertion) js_map"

datatype mfa_error = MfaInvalid domain_error | MfaLocked | MfaRefused string

definition methods_save :: "mfa_method \<Rightarrow> mfa_world \<Rightarrow> mfa_world" where
  "methods_save m w = w\<lparr>mw_methods := map_set (mm_id m) m (mw_methods w)\<rparr>"

definition methods_find_by_id :: "mfa_world \<Rightarrow> string \<Rightarrow> mfa_method option" where
  "methods_find_by_id w i = map_get (mw_methods w) i"

definition methods_by_user :: "mfa_world \<Rightarrow> string \<Rightarrow> mfa_method list" where
  "methods_by_user w user = filter (\<lambda>m. mm_user m = user) (map_values (mw_methods w))"

definition methods_active :: "mfa_world \<Rightarrow> string \<Rightarrow> mfa_method list" where
  "methods_active w user = filter (\<lambda>m. mm_status m = MfaActive) (methods_by_user w user)"

definition methods_pending :: "mfa_world \<Rightarrow> string \<Rightarrow> mfa_method list" where
  "methods_pending w user = filter (\<lambda>m. mm_status m = MfaPending) (methods_by_user w user)"

definition methods_delete :: "string \<Rightarrow> mfa_world \<Rightarrow> mfa_world" where
  "methods_delete i w = w\<lparr>mw_methods := map_delete i (mw_methods w)\<rparr>"

definition audit_record :: "string \<Rightarrow> string \<Rightarrow> (string \<times> string) list \<Rightarrow> mfa_world \<Rightarrow> mfa_world" where
  "audit_record action actor metadata w = w\<lparr>mw_audit := mw_audit w @ [(action, actor, metadata)]\<rparr>"

text \<open>The \<open>TotpAlgorithm\<close> port: \<open>verify\<close> takes the clock it reads, the secret, the code and the drift.\<close>

record totp_algorithm =
  ta_generate :: "string \<Rightarrow> string \<times> string"
  ta_verify :: "int \<Rightarrow> string \<Rightarrow> string \<Rightarrow> int \<Rightarrow> int option option"

text \<open>The shipped algorithm.\<close>

definition rfc6238 :: "(nat list \<Rightarrow> nat list \<Rightarrow> nat list) \<Rightarrow> (string \<Rightarrow> string \<times> string) \<Rightarrow> totp_algorithm" where
  "rfc6238 hmac_sha1 generate = \<lparr>ta_generate = generate, ta_verify = totp_verify hmac_sha1\<rparr>"

section \<open>TOTP use cases\<close>

definition enroll_totp ::
  "totp_algorithm \<Rightarrow> string \<Rightarrow> int \<Rightarrow> string \<Rightarrow> string \<Rightarrow> mfa_world \<Rightarrow> (string \<times> string \<times> string) \<times> mfa_world" where
  "enroll_totp totp fresh now user account w =
     (let (secret, uri) = ta_generate totp account;
          m = create_pending_totp fresh user secret now
      in ((mm_id m, secret, uri), methods_save m w))"

definition confirm_totp_enrollment ::
  "totp_algorithm \<Rightarrow> int \<Rightarrow> string \<Rightarrow> string \<Rightarrow> mfa_world \<Rightarrow> (mfa_error + unit) option \<times> mfa_world" where
  "confirm_totp_enrollment totp now method_id code w =
     (if length code \<noteq> 6 then (Some (Inl (MfaInvalid (ValidationError []))), w)
      else case methods_find_by_id w method_id of
        None \<Rightarrow> (Some (Inl (MfaRefused ''MFA method not found.'')), w)
      | Some m \<Rightarrow>
          (if mm_status m \<noteq> MfaPending then (Some (Inl (MfaRefused ''Method is not in a pending state.'')), w)
           else if method_locked_at now m then (Some (Inl MfaLocked), w)
           else if mm_secret m = None \<or> mm_secret m = Some []
           then (Some (Inl (MfaRefused ''MFA method is missing its secret.'')), w)
           else case ta_verify totp now (the (mm_secret m)) code 1 of
             None \<Rightarrow> (None, w)
           | Some None \<Rightarrow>
               (Some (Inl (MfaRefused ''Invalid TOTP code.'')), methods_save (method_failed_attempt now m) w)
           | Some (Some step) \<Rightarrow>
               (case method_activate now m of
                  None \<Rightarrow> (None, w)
                | Some m' \<Rightarrow> (Some (Inr ()), methods_save m' w))))"

definition verify_totp_challenge ::
  "totp_algorithm \<Rightarrow> int \<Rightarrow> string \<Rightarrow> string \<Rightarrow> mfa_world \<Rightarrow> (mfa_error + unit) option \<times> mfa_world" where
  "verify_totp_challenge totp now method_id code w =
     (if length code \<noteq> 6 then (Some (Inl (MfaInvalid (ValidationError []))), w)
      else case methods_find_by_id w method_id of
        None \<Rightarrow> (Some (Inl (MfaRefused ''MFA method not found.'')), w)
      | Some m \<Rightarrow>
          (if mm_status m \<noteq> MfaActive then (Some (Inl (MfaRefused ''Method is not active.'')), w)
           else if method_locked_at now m then (Some (Inl MfaLocked), w)
           else if mm_secret m = None \<or> mm_secret m = Some []
           then (Some (Inl (MfaRefused ''MFA method is missing its secret.'')), w)
           else case ta_verify totp now (the (mm_secret m)) code 1 of
             None \<Rightarrow> (None, w)
           | Some None \<Rightarrow>
               (Some (Inl (MfaRefused ''Invalid TOTP code.'')), methods_save (method_failed_attempt now m) w)
           | Some (Some step) \<Rightarrow>
               (case record_totp_use step now m of
                  Some m' \<Rightarrow> (Some (Inr ()), methods_save m' w)
                | None \<Rightarrow>
                    (Some (Inl (MfaRefused ''Code has already been used.'')),
                     methods_save (method_failed_attempt now m) w))))"

section \<open>Backup code use cases\<close>

definition generate_backup_codes ::
  "(string \<Rightarrow> string \<Rightarrow> string) \<Rightarrow> (nat list \<times> string) list \<Rightarrow> string \<Rightarrow> int \<Rightarrow> string \<Rightarrow> mfa_world
     \<Rightarrow> (string list \<times> string list) \<times> mfa_world" where
  "generate_backup_codes argon2_hash draws fresh now user w =
     (let (raw, hashed) = generate_codes argon2_hash draws;
          existing = filter (\<lambda>m. mm_type m = BackupCodes) (methods_active w user @ methods_pending w user);
          w1 = fold (\<lambda>m. methods_delete (mm_id m)) existing w;
          m = method_create fresh user BackupCodes (Some (json_string_array hashed)) now;
          w2 = methods_save (or_default (method_activate now m) m) w1
      in ((raw, hashed), audit_record ''backup_codes.generated'' user
            [(''count'', show_nat (length hashed))] w2))"

datatype backup_outcome = BackupOk nat | BackupExhausted | BackupFailed

text \<open>\<open>hashes.splice(i, 1)\<close>.\<close>

definition splice_one :: "nat \<Rightarrow> 'a list \<Rightarrow> 'a list" where
  "splice_one i xs = take i xs @ drop (Suc i) xs"

fun find_index :: "('a \<Rightarrow> bool) \<Rightarrow> 'a list \<Rightarrow> nat option" where
  "find_index P [] = None"
| "find_index P (x # xs) = (if P x then Some 0 else map_option Suc (find_index P xs))"

definition consume_backup_code ::
  "(string \<Rightarrow> string \<Rightarrow> bool) \<Rightarrow> int \<Rightarrow> string \<Rightarrow> string \<Rightarrow> mfa_world \<Rightarrow> backup_outcome \<times> mfa_world" where
  "consume_backup_code argon2_verify now user code w =
     (case find (\<lambda>m. mm_type m = BackupCodes) (methods_active w user) of
        None \<Rightarrow> (BackupFailed, w)
      | Some m \<Rightarrow>
          (if mm_secret m = None \<or> mm_secret m = Some [] then (BackupFailed, w)
           else case parse_string_array (the (mm_secret m)) of
             None \<Rightarrow> (BackupFailed, w)
           | Some hashes \<Rightarrow>
               (case find_index (verify_code argon2_verify code) hashes of
                  None \<Rightarrow> (BackupFailed, audit_record ''backup_code.failed'' user [] w)
                | Some i \<Rightarrow>
                    (let rest = splice_one i hashes;
                         w1 = methods_save (update_secret (json_string_array rest) now m) w;
                         w2 = audit_record ''backup_code.consumed'' user
                           [(''remaining'', show_nat (length rest))] w1
                     in (if length rest = 0 then BackupExhausted else BackupOk (length rest), w2)))))"

section \<open>Recovery\<close>

definition recover_mfa_access ::
  "(string \<Rightarrow> bool) \<Rightarrow> (string \<Rightarrow> nat) \<Rightarrow> string \<Rightarrow> string \<Rightarrow> string \<Rightarrow> mfa_world
     \<Rightarrow> (mfa_error + nat \<times> nat) \<times> mfa_world" where
  "recover_mfa_access can_recover revoke_all target actor reason w =
     (if actor = target then (Inl (MfaRefused ''MFA recovery cannot be self-triggered.''), w)
      else if \<not> can_recover actor then (Inl (MfaRefused ''Actor is not authorized to recover MFA access.''), w)
      else
        let methods = methods_by_user w target;
            w1 = fold (\<lambda>m. methods_delete (mm_id m)) methods w;
            revoked = revoke_all target;
            w2 = audit_record ''mfa.recovery.performed'' actor
              [(''targetUserId'', target), (''reason'', reason),
               (''methodsCleared'', show_nat (length methods)), (''sessionsRevoked'', show_nat revoked)] w1
        in (Inr (length methods, revoked), w2))"

section \<open>Step-up authentication\<close>

datatype step_up_method = StepTotp string string | StepBackup string

definition default_max_age_seconds :: int where
  "default_max_age_seconds = 5 * 60"

definition step_verify_totp ::
  "totp_algorithm \<Rightarrow> int \<Rightarrow> string \<Rightarrow> string \<Rightarrow> string \<Rightarrow> mfa_world \<Rightarrow> (mfa_error + unit) option \<times> mfa_world" where
  "step_verify_totp totp now user method_id code w =
     (case methods_find_by_id w method_id of
        None \<Rightarrow> (Some (Inl (MfaRefused ''No active MFA method for this user.'')), w)
      | Some m \<Rightarrow>
          (if mm_user m \<noteq> user \<or> mm_status m \<noteq> MfaActive
           then (Some (Inl (MfaRefused ''No active MFA method for this user.'')), w)
           else verify_totp_challenge totp now method_id code w))"

definition step_verify_backup ::
  "(string \<Rightarrow> string \<Rightarrow> bool) \<Rightarrow> int \<Rightarrow> string \<Rightarrow> string \<Rightarrow> mfa_world \<Rightarrow> (mfa_error + unit) option \<times> mfa_world" where
  "step_verify_backup argon2_verify now user code w =
     (case consume_backup_code argon2_verify now user code w of
        (BackupFailed, w') \<Rightarrow> (Some (Inl (MfaRefused ''Invalid backup code.'')), w')
      | (_, w') \<Rightarrow> (Some (Inr ()), w'))"

definition step_up_execute ::
  "totp_algorithm \<Rightarrow> (string \<Rightarrow> string \<Rightarrow> bool) \<Rightarrow> int option \<Rightarrow> int \<Rightarrow> string \<Rightarrow> step_up_method \<Rightarrow> mfa_world
     \<Rightarrow> (mfa_error + step_up_assertion) option \<times> mfa_world" where
  "step_up_execute totp argon2_verify max_age now user method w =
     (case (case method of
              StepTotp i code \<Rightarrow> step_verify_totp totp now user i code w
            | StepBackup code \<Rightarrow> step_verify_backup argon2_verify now user code w) of
        (None, w') \<Rightarrow> (None, w')
      | (Some (Inl e), w') \<Rightarrow> (Some (Inl e), w')
      | (Some (Inr _), w') \<Rightarrow>
          (let a = assertion_issue user (case method of StepTotp _ _ \<Rightarrow> Totp | StepBackup _ \<Rightarrow> BackupCodes)
                 (or_default max_age default_max_age_seconds) now;
               w'' = w'\<lparr>mw_assertions := map_set user a (mw_assertions w')\<rparr>
           in (Some (Inr a), audit_record ''mfa.step_up'' user
                 [(''method'', (case su_type a of Totp \<Rightarrow> ''totp'' | Webauthn \<Rightarrow> ''webauthn''
                    | BackupCodes \<Rightarrow> ''backup_codes''))] w'')))"

definition require_fresh :: "int \<Rightarrow> string \<Rightarrow> mfa_world \<Rightarrow> mfa_error + step_up_assertion" where
  "require_fresh now user w =
     (case map_get (mw_assertions w) user of
        None \<Rightarrow> Inl (MfaRefused ''No step-up verification on record.'')
      | Some a \<Rightarrow>
          (if \<not> assertion_fresh_at now a then Inl (MfaRefused ''Step-up verification has expired.'')
           else Inr a))"

section \<open>Exchanging a challenge for a session\<close>

datatype challenge_error = ChallengeNotFound | ChallengeExpired | ChallengeAlreadyConsumed

text \<open>
  The turns of \<open>ConsumeMfaChallenge.execute\<close> between its \<open>await\<close>s: load, then check and save, then
  issue. \<open>issue\<close> is the session issuer with its own state.
\<close>

definition challenge_check ::
  "int \<Rightarrow> mfa_challenge option \<Rightarrow> challenge_error + mfa_challenge" where
  "challenge_check now found =
     (case found of
        None \<Rightarrow> Inl ChallengeNotFound
      | Some c \<Rightarrow>
          (if challenge_expired now c then Inl ChallengeExpired
           else if challenge_consumed c then Inl ChallengeAlreadyConsumed
           else case challenge_consume now c of None \<Rightarrow> Inl ChallengeAlreadyConsumed | Some c' \<Rightarrow> Inr c'))"

definition consume_mfa_challenge ::
  "('s \<Rightarrow> 'r \<times> 's) \<Rightarrow> int \<Rightarrow> string \<Rightarrow> mfa_world \<times> 's \<Rightarrow> (challenge_error + 'r) \<times> mfa_world \<times> 's" where
  "consume_mfa_challenge issue now challenge_id ws =
     (let (w, s) = ws
      in case challenge_check now (map_get (mw_challenges w) challenge_id) of
           Inl e \<Rightarrow> (Inl e, w, s)
         | Inr c \<Rightarrow>
             (let w' = w\<lparr>mw_challenges := map_set (mc_id c) c (mw_challenges w)\<rparr>;
                  (r, s') = issue s
              in (Inr r, w', s')))"

end
