(* ===== verification/WebAuthn.thy ===== *)
theory WebAuthn
  imports Cbor JsonParse MfaFlows
begin

text \<open>
  The domain and the verifiers of WebAuthn in \<open>packages/mfa\<close>: credentials and challenges with their
  in-memory stores, \<open>WebAuthnAttestationVerifier\<close> and \<open>WebAuthnAssertionVerifier\<close>. SHA-256, the key
  import and signature check of \<open>node:crypto\<close> and base64 are the record \<open>crypto\<close>; ids and challenges
  are strings, what comes from the browser is a JavaScript text or bytes. All the refusals of the
  verifiers are \<open>ValidationError\<close>s without fields; \<open>None\<close> is a \<open>TypeError\<close> that escapes \<open>verify\<close>.
\<close>

section \<open>Credentials and challenges\<close>

datatype authenticator_transport = Usb | Nfc | Ble | SmartCard | Hybrid | Internal

record webauthn_credential =
  wc_id :: string
  wc_credential_id :: string
  wc_user :: string
  wc_method :: string
  wc_public_key :: string
  wc_sign_counter :: nat
  wc_transports :: "authenticator_transport list"
  wc_attestation_type :: js_text
  wc_aaguid :: "string option"
  wc_device_name :: "string option"
  wc_created_at :: int
  wc_last_used_at :: "int option"

definition credential_create ::
  "string \<Rightarrow> string \<Rightarrow> string \<Rightarrow> string \<Rightarrow> string \<Rightarrow> nat option \<Rightarrow> authenticator_transport list option \<Rightarrow> js_text
     \<Rightarrow> string option \<Rightarrow> string option \<Rightarrow> int \<Rightarrow> webauthn_credential" where
  "credential_create fresh credential_id user method_id public_key sign_counter transports attestation aaguid device now =
     \<lparr>wc_id = fresh, wc_credential_id = credential_id, wc_user = user, wc_method = method_id,
      wc_public_key = public_key, wc_sign_counter = (case sign_counter of None \<Rightarrow> 0 | Some n \<Rightarrow> n),
      wc_transports = (case transports of None \<Rightarrow> [] | Some ts \<Rightarrow> ts), wc_attestation_type = attestation,
      wc_aaguid = aaguid, wc_device_name = device, wc_created_at = now, wc_last_used_at = None\<rparr>"

definition update_sign_counter :: "nat \<Rightarrow> int \<Rightarrow> webauthn_credential \<Rightarrow> webauthn_credential" where
  "update_sign_counter n now c = c\<lparr>wc_sign_counter := n, wc_last_used_at := Some now\<rparr>"

datatype ceremony_type = Registration | Authentication

record webauthn_challenge =
  wh_id :: string
  wh_user :: string
  wh_challenge :: string
  wh_ceremony :: ceremony_type
  wh_created_at :: int
  wh_expires_at :: int
  wh_used :: bool

definition webauthn_challenge_create ::
  "string \<Rightarrow> string \<Rightarrow> string \<Rightarrow> ceremony_type \<Rightarrow> int option \<Rightarrow> int \<Rightarrow> webauthn_challenge" where
  "webauthn_challenge_create fresh user challenge ceremony ttl now =
     \<lparr>wh_id = fresh, wh_user = user, wh_challenge = challenge, wh_ceremony = ceremony,
      wh_created_at = now, wh_expires_at = now + (case ttl of None \<Rightarrow> 5 * 60 * 1000 | Some t \<Rightarrow> t),
      wh_used = False\<rparr>"

definition webauthn_challenge_expired :: "int \<Rightarrow> webauthn_challenge \<Rightarrow> bool" where
  "webauthn_challenge_expired now c \<longleftrightarrow> now > wh_expires_at c"

definition webauthn_challenge_consume :: "webauthn_challenge \<Rightarrow> webauthn_challenge option" where
  "webauthn_challenge_consume c = (if wh_used c then None else Some (c\<lparr>wh_used := True\<rparr>))"

record webauthn_clone_suspected =
  cs_credential_id :: string
  cs_user :: string
  cs_previous :: nat
  cs_presented :: nat

section \<open>Stores\<close>

type_synonym challenge_store = "(string, webauthn_challenge) js_map"
type_synonym credential_store = "(string, webauthn_credential) js_map"

definition challenges_save :: "webauthn_challenge \<Rightarrow> challenge_store \<Rightarrow> challenge_store" where
  "challenges_save c s = map_set (wh_challenge c) c s"

definition find_by_challenge :: "challenge_store \<Rightarrow> string \<Rightarrow> webauthn_challenge option" where
  "find_by_challenge s challenge = map_get s challenge"

definition challenges_consume :: "string \<Rightarrow> challenge_store \<Rightarrow> bool \<times> challenge_store" where
  "challenges_consume challenge s =
     (case map_get s challenge of
        None \<Rightarrow> (False, s)
      | Some c \<Rightarrow>
          (if wh_used c then (False, s)
           else case webauthn_challenge_consume c of
             None \<Rightarrow> (False, s)
           | Some c' \<Rightarrow> (True, map_set challenge c' s)))"

definition credentials_save :: "webauthn_credential \<Rightarrow> credential_store \<Rightarrow> credential_store" where
  "credentials_save c s = map_set (wc_credential_id c) c s"

definition find_by_credential_id :: "credential_store \<Rightarrow> string \<Rightarrow> webauthn_credential option" where
  "find_by_credential_id s i = map_get s i"

definition credentials_of_user :: "credential_store \<Rightarrow> string \<Rightarrow> webauthn_credential list" where
  "credentials_of_user s user = filter (\<lambda>c. wc_user c = user) (map_values s)"

definition credential_of_method :: "credential_store \<Rightarrow> string \<Rightarrow> webauthn_credential option" where
  "credential_of_method s i = find (\<lambda>c. wc_method c = i) (map_values s)"

section \<open>What a browser sends\<close>

datatype binary_input = TextInput js_text | BytesInput "nat list"

text \<open>\<open>String.prototype.trim\<close> and \<open>startsWith\<close>.\<close>

definition js_space :: "nat \<Rightarrow> bool" where
  "js_space u \<longleftrightarrow> u \<in> {9, 10, 11, 12, 13, 32, 0xA0, 0x1680, 0x2028, 0x2029, 0x202F, 0x205F, 0x3000, 0xFEFF} \<or>
     0x2000 \<le> u \<and> u \<le> 0x200A"

definition text_trim :: "js_text \<Rightarrow> js_text" where
  "text_trim t = rev (dropWhile js_space (rev (dropWhile js_space t)))"

definition starts_with :: "string \<Rightarrow> js_text \<Rightarrow> bool" where
  "starts_with p t \<longleftrightarrow> take (length p) t = text_of p"

text \<open>A public key as handed to \<open>createPublicKey\<close>.\<close>

datatype key_source = PemKey js_text | P256Key "nat list" "nat list" | SpkiKey "nat list"

record 'key crypto =
  cr_sha256 :: "nat list \<Rightarrow> nat list"
  cr_base64 :: "js_text \<Rightarrow> nat list"
  cr_base64url :: "nat list \<Rightarrow> string"
  cr_public_key :: "key_source \<Rightarrow> 'key option"
  cr_verify :: "nat list \<Rightarrow> 'key \<Rightarrow> nat list \<Rightarrow> bool option"

definition unurl :: "nat \<Rightarrow> nat" where
  "unurl u = (if u = 45 then 43 else if u = 95 then 47 else u)"

definition to_bytes :: "'key crypto \<Rightarrow> binary_input \<Rightarrow> nat list" where
  "to_bytes cr input =
     (case input of
        BytesInput bs \<Rightarrow> bs
      | TextInput t \<Rightarrow>
          (let trimmed = text_trim t
           in if starts_with ''{'' trimmed \<or> starts_with ''['' trimmed then text_encode t
              else
                let base64 = map unurl trimmed; pad = (4 - length base64 mod 4) mod 4
                in cr_base64 cr (base64 @ replicate pad 61)))"

text \<open>Client data as text and as the bytes that are hashed.\<close>

definition client_data_text :: "'key crypto \<Rightarrow> binary_input \<Rightarrow> js_text" where
  "client_data_text cr input =
     (case input of
        TextInput t \<Rightarrow> (if starts_with ''{'' (text_trim t) then t else text_decode (to_bytes cr input))
      | BytesInput bs \<Rightarrow> text_decode (to_bytes cr input))"

definition client_data_bytes :: "'key crypto \<Rightarrow> binary_input \<Rightarrow> nat list" where
  "client_data_bytes cr input =
     (case input of
        TextInput t \<Rightarrow> (if starts_with ''{'' (text_trim t) then text_encode t else to_bytes cr input)
      | BytesInput bs \<Rightarrow> to_bytes cr input)"

text \<open>
  The checks both verifiers start with: JSON, type, challenge and origin. \<open>None\<close> is the \<open>TypeError\<close>
  of reading a property of null.
\<close>

definition check_client_data :: "js_text \<Rightarrow> string \<Rightarrow> string \<Rightarrow> string \<Rightarrow> unit result option" where
  "check_client_data t type' challenge origin =
     (case json_parse t of
        None \<Rightarrow> Some (Inl (ValidationError []))
      | Some v \<Rightarrow>
          (case json_prop v ''type'' of
             None \<Rightarrow> None
           | Some ty \<Rightarrow>
               (if ty \<noteq> Some (JString (text_of type')) then Some (Inl (ValidationError []))
                else if json_prop v ''challenge'' \<noteq> Some (Some (JString (text_of challenge)))
                then Some (Inl (ValidationError []))
                else if json_prop v ''origin'' \<noteq> Some (Some (JString (text_of origin)))
                then Some (Inl (ValidationError []))
                else Some (Inr ()))))"

section \<open>The attestation verifier\<close>

record verified_attestation =
  va_credential_id :: string
  va_public_key :: string
  va_sign_counter :: nat
  va_aaguid :: string
  va_attestation_type :: js_text
  va_rp_id :: string
  va_origin :: string

definition buffer_to_hex :: "nat list \<Rightarrow> string" where
  "buffer_to_hex bs = concat (map (\<lambda>b. [hex_digit (b div 16), hex_digit (b mod 16)]) bs)"

definition format_aaguid :: "nat list \<Rightarrow> string" where
  "format_aaguid bs =
     (let hex = buffer_to_hex bs
      in take 8 hex @ ''-'' @ take 4 (drop 8 hex) @ ''-'' @ take 4 (drop 12 hex) @ ''-'' @
         take 4 (drop 16 hex) @ ''-'' @ drop 20 hex)"

text \<open>
  Whether an attestation statement counts as empty: a map by its size, a falsy value, and any other
  by its own enumerable properties.
\<close>

fun statement_empty :: "cbor \<Rightarrow> bool" where
  "statement_empty (CMap es) = (es = [])"
| "statement_empty (CText t) = (t = [])"
| "statement_empty (CBytes bs) = (bs = [])"
| "statement_empty (CArray vs) = (vs = [])"
| "statement_empty _ = True"

definition flag_set :: "nat \<Rightarrow> nat \<Rightarrow> bool" where
  "flag_set k flags \<longleftrightarrow> odd (flags div 2 ^ k)"

text \<open>The part of \<open>verify\<close> that reads \<open>authData\<close>.\<close>

definition parse_attested ::
  "'key crypto \<Rightarrow> js_text \<Rightarrow> cbor \<Rightarrow> nat list \<Rightarrow> string \<Rightarrow> string \<Rightarrow> verified_attestation result" where
  "parse_attested cr fmt statement auth rp_id origin =
     (let invalid = Inl (ValidationError []);
          sign_counter = from_bytes (take 4 (drop 33 auth));
          aaguid = format_aaguid (take 16 (drop 37 auth));
          id_length = from_bytes (take 2 (drop 53 auth));
          credential_id = cr_base64url cr (take id_length (drop 55 auth));
          key_bytes = drop (55 + id_length) auth
      in if length auth < 37 then invalid
         else if take 32 auth \<noteq> cr_sha256 cr (text_encode (text_of rp_id)) then invalid
         else if \<not> flag_set 0 (auth ! 32) then invalid
         else if \<not> flag_set 6 (auth ! 32) then invalid
         else if length auth < 55 then invalid
         else if length auth < 55 + id_length then invalid
         else if key_bytes = [] then invalid
         else if fmt = text_of ''none'' \<and> \<not> statement_empty statement then invalid
         else Inr \<lparr>va_credential_id = credential_id, va_public_key = cr_base64url cr key_bytes,
                    va_sign_counter = sign_counter, va_aaguid = aaguid, va_attestation_type = fmt,
                    va_rp_id = rp_id, va_origin = origin\<rparr>)"

definition verify_attestation ::
  "'key crypto \<Rightarrow> binary_input \<Rightarrow> binary_input \<Rightarrow> string \<Rightarrow> string \<Rightarrow> string \<Rightarrow> verified_attestation result option" where
  "verify_attestation cr client_data attestation_object challenge origin rp_id =
     (let invalid = Some (Inl (ValidationError []))
      in case check_client_data (client_data_text cr client_data) ''webauthn.create'' challenge origin of
        None \<Rightarrow> None
      | Some (Inl e) \<Rightarrow> Some (Inl e)
      | Some (Inr _) \<Rightarrow>
          (case decode_cbor (to_bytes cr attestation_object) of
             Some (CMap es) \<Rightarrow>
               (case (cmap_get es (CText (text_of ''fmt'')), cmap_get es (CText (text_of ''authData''))) of
                  (CText fmt, CBytes auth) \<Rightarrow>
                    Some (parse_attested cr fmt (cmap_get es (CText (text_of ''attStmt''))) auth rp_id origin)
                | _ \<Rightarrow> invalid)
           | _ \<Rightarrow> invalid))"

section \<open>The assertion verifier\<close>

record verified_assertion =
  vs_credential_id :: string
  vs_sign_counter :: nat
  vs_user_present :: bool
  vs_user_verified :: bool
  vs_rp_id :: string
  vs_origin :: string

definition parse_cose_key :: "'key crypto \<Rightarrow> nat list \<Rightarrow> 'key option" where
  "parse_cose_key cr key_bytes =
     (let der = cr_public_key cr (SpkiKey key_bytes)
      in case decode_cbor key_bytes of
        Some (CMap es) \<Rightarrow>
          (if cmap_get es (CNumber 1) = CNumber 2
           then (case (cmap_get es (CNumber (-2)), cmap_get es (CNumber (-3))) of
               (CBytes x, CBytes y) \<Rightarrow>
                 (case cr_public_key cr (P256Key x y) of Some k \<Rightarrow> Some k | None \<Rightarrow> der)
             | _ \<Rightarrow> der)
           else der)
      | _ \<Rightarrow> der)"

definition import_public_key :: "'key crypto \<Rightarrow> string \<Rightarrow> 'key option" where
  "import_public_key cr key_input =
     (let trimmed = text_trim (text_of key_input)
      in if starts_with ''-----BEGIN'' trimmed then cr_public_key cr (PemKey trimmed)
         else parse_cose_key cr (to_bytes cr (TextInput trimmed)))"

definition verify_assertion ::
  "'key crypto \<Rightarrow> string \<Rightarrow> binary_input \<Rightarrow> binary_input \<Rightarrow> binary_input \<Rightarrow> string \<Rightarrow> string \<Rightarrow> string \<Rightarrow> string
     \<Rightarrow> verified_assertion result option" where
  "verify_assertion cr credential_id client_data authenticator_data signature public_key challenge origin rp_id =
     (let invalid = Some (Inl (ValidationError []));
          bytes = client_data_bytes cr client_data;
          auth = to_bytes cr authenticator_data
      in case check_client_data (client_data_text cr client_data) ''webauthn.get'' challenge origin of
        None \<Rightarrow> None
      | Some (Inl e) \<Rightarrow> Some (Inl e)
      | Some (Inr _) \<Rightarrow>
          (if length auth < 37 then invalid
           else if cr_sha256 cr (text_encode (text_of rp_id)) \<noteq> take 32 auth then invalid
           else if \<not> flag_set 0 (auth ! 32) then invalid
           else case import_public_key cr public_key of
             None \<Rightarrow> invalid
           | Some key \<Rightarrow>
               (case cr_verify cr (auth @ cr_sha256 cr bytes) key (to_bytes cr signature) of
                  Some True \<Rightarrow>
                    Some (Inr \<lparr>vs_credential_id = credential_id,
                      vs_sign_counter = from_bytes (take 4 (drop 33 auth)),
                      vs_user_present = flag_set 0 (auth ! 32), vs_user_verified = flag_set 2 (auth ! 32),
                      vs_rp_id = rp_id, vs_origin = origin\<rparr>)
                | _ \<Rightarrow> invalid)))"

section \<open>What an accepted ceremony is bound to\<close>

lemma json_prop_some: "json_prop v k = Some (Some x) \<longleftrightarrow> (\<exists>es. v = JObject es \<and> map_of es (text_of k) = Some x)"
  by (cases v) (simp_all add: json_prop_def)

lemma check_client_data_ok:
  "check_client_data t type' challenge origin = Some (Inr ()) \<longleftrightarrow>
     (\<exists>es. json_parse t = Some (JObject es) \<and>
       map_of es (text_of ''type'') = Some (JString (text_of type')) \<and>
       map_of es (text_of ''challenge'') = Some (JString (text_of challenge)) \<and>
       map_of es (text_of ''origin'') = Some (JString (text_of origin)))"
  by (auto simp: check_client_data_def json_prop_def split: option.splits json_data.splits if_splits)

lemma verify_assertion_ok:
  "verify_assertion cr credential_id client_data authenticator_data signature public_key challenge origin rp_id =
      Some (Inr v) \<longleftrightarrow>
     (let auth = to_bytes cr authenticator_data
      in check_client_data (client_data_text cr client_data) ''webauthn.get'' challenge origin = Some (Inr ()) \<and>
         37 \<le> length auth \<and> take 32 auth = cr_sha256 cr (text_encode (text_of rp_id)) \<and>
         flag_set 0 (auth ! 32) \<and>
         (\<exists>key. import_public_key cr public_key = Some key \<and>
           cr_verify cr (auth @ cr_sha256 cr (client_data_bytes cr client_data)) key (to_bytes cr signature) =
             Some True) \<and>
         v = \<lparr>vs_credential_id = credential_id, vs_sign_counter = from_bytes (take 4 (drop 33 auth)),
              vs_user_present = True, vs_user_verified = flag_set 2 (auth ! 32), vs_rp_id = rp_id,
              vs_origin = origin\<rparr>)"
  by (auto simp: verify_assertion_def Let_def not_less split: option.splits sum.splits if_splits bool.splits)

end
