(* ===== verification/WebAuthnFlows.thy ===== *)
theory WebAuthnFlows
  imports WebAuthn
begin

text \<open>
  \<open>RegisterWebAuthnCredential\<close> and \<open>VerifyWebAuthnAssertion\<close> of \<open>packages/mfa\<close>: the two ceremonies over
  the MFA methods, the credential and challenge stores and the events published. The verifiers are
  arguments, so that what holds of the ceremonies holds of any verifier; \<open>None\<close> is an exception that
  escapes \<open>execute\<close>, with the state it leaves. The clock and what is drawn are arguments.
\<close>

record webauthn_world =
  wo_mfa :: mfa_world
  wo_credentials :: credential_store
  wo_challenges :: challenge_store
  wo_events :: "webauthn_clone_suspected list"

text \<open>\<open>issueChallenge\<close> of both ceremonies; \<open>random\<close> is the base64url text of 32 random bytes.\<close>

definition issue_webauthn_challenge ::
  "ceremony_type \<Rightarrow> int \<Rightarrow> string \<Rightarrow> string \<Rightarrow> int \<Rightarrow> string \<Rightarrow> webauthn_world
     \<Rightarrow> (string \<times> int) result \<times> webauthn_world" where
  "issue_webauthn_challenge ceremony ttl fresh random now user w =
     (if js_trim user = [] then (Inl (ValidationError []), w)
      else
        let c = webauthn_challenge_create fresh user random ceremony (Some ttl) now
        in (Inr (wh_challenge c, wh_expires_at c),
            w\<lparr>wo_challenges := challenges_save c (wo_challenges w)\<rparr>))"

definition empty_input :: "binary_input \<Rightarrow> bool" where
  "empty_input input \<longleftrightarrow> input = TextInput []"

text \<open>
  Steps 2 to 4 of both ceremonies, with the store the challenge was loaded from and the store at the
  time it is consumed.
\<close>

definition claim_challenge ::
  "ceremony_type \<Rightarrow> int \<Rightarrow> string \<Rightarrow> string \<Rightarrow> challenge_store \<Rightarrow> challenge_store \<Rightarrow> unit result \<times> challenge_store" where
  "claim_challenge ceremony now user challenge loaded s =
     (let refused = (Inl (ValidationError []), s)
      in case find_by_challenge loaded challenge of
        None \<Rightarrow> refused
      | Some c \<Rightarrow>
          (if wh_user c \<noteq> user \<or> wh_ceremony c \<noteq> ceremony then refused
           else if webauthn_challenge_expired now c then refused
           else if wh_used c then refused
           else case challenges_consume challenge s of
             (False, s') \<Rightarrow> (Inl (ValidationError []), s')
           | (True, s') \<Rightarrow> (Inr (), s')))"

section \<open>Registration\<close>

record registration_command =
  rg_user :: string
  rg_challenge :: string
  rg_client_data :: binary_input
  rg_attestation :: binary_input
  rg_transports :: "authenticator_transport list option"
  rg_device :: "string option"

type_synonym attestation_verifier =
  "binary_input \<Rightarrow> binary_input \<Rightarrow> string \<Rightarrow> verified_attestation result option"

definition register_webauthn ::
  "attestation_verifier \<Rightarrow> int \<Rightarrow> string \<Rightarrow> string \<Rightarrow> registration_command \<Rightarrow> webauthn_world
     \<Rightarrow> (mfa_method \<times> webauthn_credential) result option \<times> webauthn_world" where
  "register_webauthn verify now fresh_method fresh_credential cmd w =
     (let invalid = Some (Inl (ValidationError []))
      in if js_trim (rg_user cmd) = [] then (invalid, w)
         else if js_trim (rg_challenge cmd) = [] then (invalid, w)
         else if empty_input (rg_client_data cmd) then (invalid, w)
         else if empty_input (rg_attestation cmd) then (invalid, w)
         else case claim_challenge Registration now (rg_user cmd) (rg_challenge cmd)
                (wo_challenges w) (wo_challenges w) of
           (Inl e, s) \<Rightarrow> (Some (Inl e), w\<lparr>wo_challenges := s\<rparr>)
         | (Inr _, s) \<Rightarrow>
             (let w1 = w\<lparr>wo_challenges := s\<rparr>
              in case verify (rg_client_data cmd) (rg_attestation cmd) (rg_challenge cmd) of
                None \<Rightarrow> (None, w1)
              | Some (Inl e) \<Rightarrow> (Some (Inl e), w1)
              | Some (Inr v) \<Rightarrow>
                  (if find_by_credential_id (wo_credentials w1) (va_credential_id v) \<noteq> None
                   then (Some (Inl ConflictError), w1)
                   else
                     let m = create_active fresh_method (rg_user cmd) Webauthn now;
                         c = credential_create fresh_credential (va_credential_id v) (rg_user cmd) (mm_id m)
                           (va_public_key v) (Some (va_sign_counter v)) (rg_transports cmd)
                           (va_attestation_type v) (Some (va_aaguid v)) (rg_device cmd) now
                     in (Some (Inr (m, c)),
                         w1\<lparr>wo_mfa := methods_save m (wo_mfa w1),
                            wo_credentials := credentials_save c (wo_credentials w1)\<rparr>))))"

section \<open>Authentication\<close>

record assertion_command =
  as_user :: string
  as_credential :: string
  as_challenge :: string
  as_client_data :: binary_input
  as_authenticator_data :: binary_input
  as_signature :: binary_input

type_synonym assertion_verifier =
  "assertion_command \<Rightarrow> string \<Rightarrow> verified_assertion result option"

definition failed_attempt :: "int \<Rightarrow> mfa_method \<Rightarrow> webauthn_world \<Rightarrow> webauthn_world" where
  "failed_attempt now m w = w\<lparr>wo_mfa := methods_save (method_failed_attempt now m) (wo_mfa w)\<rparr>"

text \<open>
  The last part of \<open>execute\<close>, from the credential and the method it has loaded: verification, clone
  detection and the advance of the counter.
\<close>

definition finish_assertion ::
  "assertion_verifier \<Rightarrow> int \<Rightarrow> assertion_command \<Rightarrow> webauthn_credential \<Rightarrow> mfa_method \<Rightarrow> webauthn_world
     \<Rightarrow> (webauthn_credential \<times> mfa_method) result option \<times> webauthn_world" where
  "finish_assertion verify now cmd c m w =
     (case verify cmd (wc_public_key c) of
        None \<Rightarrow> (None, w)
      | Some (Inl e) \<Rightarrow> (Some (Inl e), failed_attempt now m w)
      | Some (Inr v) \<Rightarrow>
          (if wc_sign_counter c > 0 \<and> vs_sign_counter v \<le> wc_sign_counter c
           then (Some (Inl (ValidationError [])),
             failed_attempt now m (w\<lparr>wo_events := wo_events w @
               [\<lparr>cs_credential_id = wc_credential_id c, cs_user = as_user cmd,
                 cs_previous = wc_sign_counter c, cs_presented = vs_sign_counter v\<rparr>]\<rparr>))
           else
             let c' = update_sign_counter (vs_sign_counter v) now c;
                 w1 = w\<lparr>wo_credentials := credentials_save c' (wo_credentials w)\<rparr>
             in case record_use now m of
                  None \<Rightarrow> (None, w1)
                | Some m' \<Rightarrow> (Some (Inr (c', m')), w1\<lparr>wo_mfa := methods_save m' (wo_mfa w1)\<rparr>)))"

definition load_credential ::
  "int \<Rightarrow> assertion_command \<Rightarrow> webauthn_world \<Rightarrow> (webauthn_credential \<times> mfa_method) result" where
  "load_credential now cmd w =
     (case find_by_credential_id (wo_credentials w) (as_credential cmd) of
        None \<Rightarrow> Inl (ValidationError [])
      | Some c \<Rightarrow>
          (if wc_user c \<noteq> as_user cmd then Inl (ValidationError [])
           else case methods_find_by_id (wo_mfa w) (wc_method c) of
             None \<Rightarrow> Inl (ValidationError [])
           | Some m \<Rightarrow>
               (if mm_status m \<noteq> MfaActive then Inl (ValidationError [])
                else if method_locked_at now m then Inl AccountLockedError
                else Inr (c, m))))"

definition verify_webauthn ::
  "assertion_verifier \<Rightarrow> int \<Rightarrow> assertion_command \<Rightarrow> webauthn_world
     \<Rightarrow> (webauthn_credential \<times> mfa_method) result option \<times> webauthn_world" where
  "verify_webauthn verify now cmd w =
     (let invalid = Some (Inl (ValidationError []))
      in if js_trim (as_user cmd) = [] then (invalid, w)
         else if js_trim (as_credential cmd) = [] then (invalid, w)
         else if js_trim (as_challenge cmd) = [] then (invalid, w)
         else if empty_input (as_client_data cmd) then (invalid, w)
         else if empty_input (as_authenticator_data cmd) then (invalid, w)
         else if empty_input (as_signature cmd) then (invalid, w)
         else case claim_challenge Authentication now (as_user cmd) (as_challenge cmd)
                (wo_challenges w) (wo_challenges w) of
           (Inl e, s) \<Rightarrow> (Some (Inl e), w\<lparr>wo_challenges := s\<rparr>)
         | (Inr _, s) \<Rightarrow>
             (let w1 = w\<lparr>wo_challenges := s\<rparr>
              in case load_credential now cmd w1 of
                Inl e \<Rightarrow> (Some (Inl e), w1)
              | Inr (c, m) \<Rightarrow> finish_assertion verify now cmd c m w1))"

end
