(* ===== verification/MfaRuns.thy ===== *)
theory MfaRuns
  imports MfaFlows
begin

text \<open>
  Runs of the MFA use cases: a backup code works once, a TOTP step is consumed once, recovery
  clears every factor, and what two overlapping exchanges of one login challenge do. An id that was
  handed out is never drawn again (\<open>taken\<close>).
\<close>

section \<open>The system\<close>

record mfa_deps =
  md_totp :: totp_algorithm
  md_hash :: "string \<Rightarrow> string \<Rightarrow> string"
  md_verify :: "string \<Rightarrow> string \<Rightarrow> bool"
  md_can_recover :: "string \<Rightarrow> bool"
  md_revoke_all :: "string \<Rightarrow> nat"
  md_max_age :: "int option"

datatype mfa_call =
    EnrollCall string string string
  | ConfirmCall string string
  | VerifyCall string string
  | GenerateCall string string "(nat list \<times> string) list"
  | ConsumeCall string string
  | RecoverCall string string string
  | StepUpCall string step_up_method

fun mfa_run :: "mfa_deps \<Rightarrow> int \<Rightarrow> mfa_call \<Rightarrow> mfa_world \<Rightarrow> mfa_world" where
  "mfa_run d now (EnrollCall fresh user account) w = snd (enroll_totp (md_totp d) fresh now user account w)"
| "mfa_run d now (ConfirmCall i code) w = snd (confirm_totp_enrollment (md_totp d) now i code w)"
| "mfa_run d now (VerifyCall i code) w = snd (verify_totp_challenge (md_totp d) now i code w)"
| "mfa_run d now (GenerateCall fresh user draws) w = snd (generate_backup_codes (md_hash d) draws fresh now user w)"
| "mfa_run d now (ConsumeCall user code) w = snd (consume_backup_code (md_verify d) now user code w)"
| "mfa_run d now (RecoverCall target actor reason) w =
     snd (recover_mfa_access (md_can_recover d) (md_revoke_all d) target actor reason w)"
| "mfa_run d now (StepUpCall user method) w =
     snd (step_up_execute (md_totp d) (md_verify d) (md_max_age d) now user method w)"

fun mfa_call_fresh :: "string list \<Rightarrow> mfa_world \<Rightarrow> mfa_call \<Rightarrow> bool" where
  "mfa_call_fresh taken w (EnrollCall fresh _ _) = (fresh \<notin> set taken \<and> map_get (mw_methods w) fresh = None)"
| "mfa_call_fresh taken w (GenerateCall fresh _ _) = (fresh \<notin> set taken \<and> map_get (mw_methods w) fresh = None)"
| "mfa_call_fresh taken w _ = True"

text \<open>Calls the run may contain: \<open>allowed\<close>.\<close>

inductive mfa_step :: "mfa_deps \<Rightarrow> string list \<Rightarrow> (mfa_call \<Rightarrow> bool) \<Rightarrow> mfa_world \<Rightarrow> mfa_world \<Rightarrow> bool"
  for d taken allowed where
  call: "mfa_call_fresh taken w c \<Longrightarrow> allowed c \<Longrightarrow> mfa_step d taken allowed w (mfa_run d now c w)"

abbreviation mfa_steps :: "mfa_deps \<Rightarrow> string list \<Rightarrow> (mfa_call \<Rightarrow> bool) \<Rightarrow> mfa_world \<Rightarrow> mfa_world \<Rightarrow> bool" where
  "mfa_steps d taken allowed \<equiv> (mfa_step d taken allowed)\<^sup>*\<^sup>*"

section \<open>What a call does to the methods\<close>

definition methods_ok :: "mfa_world \<Rightarrow> bool" where
  "methods_ok w \<longleftrightarrow> map_wf (mw_methods w) \<and> list_all (\<lambda>(i, m). mm_id m = i) (mw_methods w)"

lemma methods_ok_id: "methods_ok w \<Longrightarrow> map_get (mw_methods w) i = Some m \<Longrightarrow> mm_id m = i"
  by (auto simp: methods_ok_def list_all_iff dest: map_of_SomeD)

lemma list_all_map_set: "list_all P m \<Longrightarrow> P (k, v) \<Longrightarrow> list_all P (map_set k v m)"
  by (induction m) auto

lemma list_all_map_delete: "list_all P m \<Longrightarrow> list_all P (map_delete k m)"
  by (induction m) auto

lemma methods_ok_save [wf_intros]: "methods_ok w \<Longrightarrow> methods_ok (methods_save m w)"
  by (simp add: methods_ok_def methods_save_def list_all_map_set map_wf_set)

lemma methods_ok_delete [wf_intros]: "methods_ok w \<Longrightarrow> methods_ok (methods_delete i w)"
  by (simp add: methods_ok_def methods_delete_def list_all_map_delete map_wf_delete)

lemma methods_ok_audit [simp]: "methods_ok (audit_record a u md w) = methods_ok w"
  by (simp add: methods_ok_def audit_record_def)

lemma mw_methods_audit [simp]: "mw_methods (audit_record a u md w) = mw_methods w"
  by (simp add: audit_record_def)

lemma mw_methods_save [simp]: "mw_methods (methods_save m w) = map_set (mm_id m) m (mw_methods w)"
  by (simp add: methods_save_def)

lemma mw_methods_delete [simp]: "mw_methods (methods_delete i w) = map_delete i (mw_methods w)"
  by (simp add: methods_delete_def)

lemma methods_by_user_member:
  "methods_ok w \<Longrightarrow> m \<in> set (methods_by_user w user) \<Longrightarrow> map_get (mw_methods w) (mm_id m) = Some m \<and> mm_user m = user"
  using map_values_iff [of "mw_methods w" m] methods_ok_id [of w _ m]
  by (auto simp: methods_by_user_def methods_ok_def)

text \<open>
  Every change is a deletion or a save of one of these successors of a stored method, or of a new
  pending TOTP method or a new set of backup codes.
\<close>

inductive method_move :: "mfa_deps \<Rightarrow> int \<Rightarrow> mfa_method \<Rightarrow> mfa_method \<Rightarrow> bool" for d now where
  failed: "method_move d now m (method_failed_attempt now m)"
| activated: "mm_status m = MfaPending \<Longrightarrow> method_activate now m = Some m' \<Longrightarrow> method_move d now m m'"
| used: "ta_verify (md_totp d) now s code 1 = Some (Some step) \<Longrightarrow> record_totp_use step now m = Some m' \<Longrightarrow>
    method_move d now m m'"
| consumed: "mm_type m = BackupCodes \<Longrightarrow> mm_secret m = Some s \<Longrightarrow> parse_string_array s = Some hashes \<Longrightarrow>
    find_index P hashes = Some i \<Longrightarrow>
    method_move d now m (update_secret (json_string_array (splice_one i hashes)) now m)"

inductive world_move :: "mfa_deps \<Rightarrow> int \<Rightarrow> mfa_world \<Rightarrow> mfa_world \<Rightarrow> bool" for d now where
  same: "mw_methods w' = mw_methods w \<Longrightarrow> world_move d now w w'"
| saved: "map_get (mw_methods w) (mm_id m) = Some m \<Longrightarrow> method_move d now m m' \<Longrightarrow>
    mw_methods w' = map_set (mm_id m) m' (mw_methods w) \<Longrightarrow> world_move d now w w'"

lemma method_move_fields:
  "method_move d now m m' \<Longrightarrow> mm_id m' = mm_id m \<and> mm_user m' = mm_user m \<and> mm_type m' = mm_type m"
  by (cases rule: method_move.cases, assumption)
    (auto simp: method_failed_attempt_def Let_def method_activate_def record_totp_use_def
      record_use_def update_secret_def split: if_splits option.splits)

lemma verify_totp_world_move:
  assumes "methods_ok w"
  shows "world_move d now w (snd (verify_totp_challenge (md_totp d) now i code w))"
proof -
  have saved: "world_move d now w (methods_save m' w)"
    if "map_get (mw_methods w) i = Some m" "method_move d now m m'" for m m'
    using that methods_ok_id [OF assms that(1)] method_move_fields [OF that(2)]
    by (intro world_move.saved [of w m d now m']) simp_all
  show ?thesis
    by (auto simp: verify_totp_challenge_def methods_find_by_id_def split: option.split
        intro: world_move.same saved method_move.failed method_move.used)
qed

lemma confirm_totp_world_move:
  assumes "methods_ok w"
  shows "world_move d now w (snd (confirm_totp_enrollment (md_totp d) now i code w))"
proof -
  have saved: "world_move d now w (methods_save m' w)"
    if "map_get (mw_methods w) i = Some m" "method_move d now m m'" for m m'
    using that methods_ok_id [OF assms that(1)] method_move_fields [OF that(2)]
    by (intro world_move.saved [of w m d now m']) simp_all
  show ?thesis
    by (auto simp: confirm_totp_enrollment_def methods_find_by_id_def split: option.split
        intro: world_move.same saved method_move.failed method_move.activated)
qed

lemma consume_world_move:
  assumes "methods_ok w"
  shows "world_move d now w (snd (consume_backup_code v now user code w))"
proof -
  have saved: "world_move d now w w'"
    if "find (\<lambda>m. mm_type m = BackupCodes) (methods_active w user) = Some m" "method_move d now m m'"
      "mw_methods w' = map_set (mm_id m) m' (mw_methods w)" for m m' w'
    using methods_by_user_member [OF assms] find_SomeD [OF that(1)] that
    by (intro world_move.saved [of w m d now m']) (auto simp: methods_active_def)
  show ?thesis
    using saved
    by (fastforce simp: consume_backup_code_def Let_def update_secret_def split: option.split
        intro: world_move.same method_move.consumed [unfolded update_secret_def] dest: find_SomeD)
qed

lemma world_move_cong: "world_move d now w w' \<Longrightarrow> mw_methods w'' = mw_methods w' \<Longrightarrow> world_move d now w w''"
  by (cases rule: world_move.cases, assumption) (auto intro: world_move.intros)

lemma step_up_world_move:
  assumes "methods_ok w"
  shows "world_move d now w (snd (step_up_execute (md_totp d) v max_age now user how w))"
proof -
  let ?verify = "case how of StepTotp i code \<Rightarrow> step_verify_totp (md_totp d) now user i code w
    | StepBackup code \<Rightarrow> step_verify_backup v now user code w"
  have consumed: "world_move d now w w'" if "consume_backup_code v now user code w = (res, w')"
    for code res w'
    using consume_world_move [OF assms, of d now v user code] that by simp
  have "world_move d now w (snd ?verify)"
    using verify_totp_world_move [OF assms] consumed
    by (cases how) (auto simp: step_verify_totp_def step_verify_backup_def world_move.same
        split: option.split prod.split backup_outcome.split)
  moreover have "mw_methods (snd (step_up_execute (md_totp d) v max_age now user how w)) =
      mw_methods (snd ?verify)"
    by (auto simp: step_up_execute_def Let_def split: prod.split option.split sum.split)
  ultimately show ?thesis by (rule world_move_cong)
qed

lemma fold_delete_methods:
  "mw_methods (fold (\<lambda>m. methods_delete (mm_id m)) ms w) = fold (\<lambda>m. map_delete (mm_id m)) ms (mw_methods w)"
  by (induction ms arbitrary: w) simp_all

lemma map_get_fold_delete:
  "map_get (fold (\<lambda>m. map_delete (mm_id m)) ms xs) i =
     (if i \<in> mm_id ` set ms then None else map_get xs i)"
  by (induction ms arbitrary: xs) auto

lemma methods_ok_fold_delete: "methods_ok w \<Longrightarrow> methods_ok (fold (\<lambda>m. methods_delete (mm_id m)) ms w)"
  by (induction ms arbitrary: w) (simp_all add: methods_ok_delete)

text \<open>The four ways a call can end.\<close>

lemma mfa_run_cases:
  assumes "methods_ok w" "mfa_call_fresh taken w c"
  obtains (move) "world_move d now w (mfa_run d now c w)" "\<forall>f u a. c \<noteq> EnrollCall f u a"
      "\<forall>f u ds. c \<noteq> GenerateCall f u ds"
  | (enrolled) fresh user account secret where "c = EnrollCall fresh user account" "fresh \<notin> set taken"
      "map_get (mw_methods w) fresh = None"
      "mw_methods (mfa_run d now c w) =
         map_set fresh (create_pending_totp fresh user secret now) (mw_methods w)"
  | (generated) fresh user draws and ms :: "mfa_method list" and m where "c = GenerateCall fresh user draws" "fresh \<notin> set taken"
      "map_get (mw_methods w) fresh = None"
      "mw_methods (mfa_run d now c w) =
         map_set fresh m (fold (\<lambda>m. map_delete (mm_id m)) ms (mw_methods w))"
      "mm_id m = fresh" "mm_user m = user" "mm_type m = BackupCodes" "mm_last_step m = None"
  | (recovered) ms :: "mfa_method list" where "mw_methods (mfa_run d now c w) =
      fold (\<lambda>m. map_delete (mm_id m)) ms (mw_methods w)"
proof (cases c)
  case (EnrollCall fresh user account)
  then show ?thesis using assms(2)
    by (intro enrolled [of fresh user account "fst (ta_generate (md_totp d) account)"])
      (simp_all add: enroll_totp_def create_pending_totp_def method_create_def case_prod_beta)
next
  case (ConfirmCall i code)
  then show ?thesis using move confirm_totp_world_move [OF assms(1)] by simp
next
  case (VerifyCall i code)
  then show ?thesis using move verify_totp_world_move [OF assms(1)] by simp
next
  case (GenerateCall fresh user draws)
  let ?m = "method_create fresh user BackupCodes
    (Some (json_string_array (snd (generate_codes (md_hash d) draws)))) now"
  let ?ms = "filter (\<lambda>m. mm_type m = BackupCodes) (methods_active w user @ methods_pending w user)"
  have "method_activate now ?m = Some (?m\<lparr>mm_status := MfaActive\<rparr>)"
    by (simp add: method_activate_def method_create_def)
  then show ?thesis using assms(2) GenerateCall
    by (intro generated [of fresh user draws "?m\<lparr>mm_status := MfaActive\<rparr>" ?ms])
      (simp_all add: generate_backup_codes_def case_prod_beta Let_def fold_delete_methods method_create_def)
next
  case (ConsumeCall user code)
  then show ?thesis using move consume_world_move [OF assms(1)] by simp
next
  case (RecoverCall target actor reason)
  show ?thesis
  proof (cases "actor = target \<or> \<not> md_can_recover d actor")
    case True
    then show ?thesis using RecoverCall
      by (intro recovered [of "[]"]) (auto simp: recover_mfa_access_def)
  next
    case False
    then show ?thesis using RecoverCall
      by (intro recovered [of "methods_by_user w target"])
        (simp add: recover_mfa_access_def Let_def fold_delete_methods)
  qed
next
  case (StepUpCall user how)
  then show ?thesis using move step_up_world_move [OF assms(1)] by simp
qed

lemma methods_ok_world_move:
  assumes "methods_ok w" "world_move d now w w'"
  shows "methods_ok w'"
  using assms(2)
proof cases
  case same
  then show ?thesis using assms(1) by (simp add: methods_ok_def)
next
  case (saved m m')
  then have "mm_id m' = mm_id m" using method_move_fields by blast
  with saved assms(1) show ?thesis by (simp add: methods_ok_def list_all_map_set map_wf_set)
qed

lemma list_all_fold_delete:
  "list_all P xs \<Longrightarrow> list_all P (fold (\<lambda>m. map_delete (mm_id m)) ms xs)"
  by (induction ms arbitrary: xs) (simp_all add: list_all_map_delete)

lemma map_wf_fold_delete: "map_wf xs \<Longrightarrow> map_wf (fold (\<lambda>m. map_delete (mm_id m)) ms xs)"
  by (induction ms arbitrary: xs) (simp_all add: map_wf_delete)

lemma mfa_run_ok:
  assumes "methods_ok w" "mfa_call_fresh taken w c"
  shows "methods_ok (mfa_run d now c w)"
  using assms
proof (cases rule: mfa_run_cases [where d = d and now = now])
  case move
  then show ?thesis using assms(1) methods_ok_world_move by blast
qed (use assms(1) in \<open>auto simp: methods_ok_def list_all_map_set list_all_fold_delete map_wf_fold_delete
  map_wf_set create_pending_totp_def method_create_def\<close>)

section \<open>Counting the uses a code has left\<close>

definition total_of :: "(mfa_method \<Rightarrow> nat) \<Rightarrow> mfa_world \<Rightarrow> nat" where
  "total_of f w = sum_list (map f (map_values (mw_methods w)))"

lemma sum_map_set_existing:
  "map_wf m \<Longrightarrow> map_get m k = Some v \<Longrightarrow>
     sum_list (map f (map_values (map_set k v' m))) + f v = sum_list (map f (map_values m)) + (f v' :: nat)"
  by (induction m) (auto simp: map_values_def map_wf_def)

lemma sum_map_set_new:
  "map_get m k = None \<Longrightarrow>
     sum_list (map f (map_values (map_set k v' m))) = sum_list (map f (map_values m)) + (f v' :: nat)"
  by (induction m) (auto simp: map_values_def split: if_splits)

lemma sum_map_delete:
  "sum_list (map f (map_values (map_delete k m))) \<le> (sum_list (map f (map_values m)) :: nat)"
  by (induction m) (auto simp: map_values_def)

lemma sum_fold_delete:
  "sum_list (map f (map_values (fold (\<lambda>m. map_delete (mm_id m)) ms xs))) \<le> (sum_list (map f (map_values xs)) :: nat)"
proof (induction ms arbitrary: xs)
  case (Cons m ms)
  then show ?case using sum_map_delete [of f "mm_id m" xs] by (simp, meson le_trans)
qed simp

definition stored_hashes :: "mfa_method \<Rightarrow> string list" where
  "stored_hashes m =
     (case mm_secret m of None \<Rightarrow> [] | Some s \<Rightarrow> or_default (parse_string_array s) [])"

definition code_uses :: "(string \<Rightarrow> string \<Rightarrow> bool) \<Rightarrow> string \<Rightarrow> string \<Rightarrow> mfa_method \<Rightarrow> nat" where
  "code_uses v user code m =
     (if mm_user m = user \<and> mm_type m = BackupCodes \<and> mm_status m \<noteq> MfaDisabled
      then length (filter (verify_code v code) (stored_hashes m)) else 0)"

lemma find_index_SomeD: "find_index P xs = Some i \<Longrightarrow> i < length xs \<and> P (xs ! i)"
  by (induction xs arbitrary: i) (auto split: if_splits)

lemma find_index_None_iff: "find_index P xs = None \<longleftrightarrow> (\<forall>x \<in> set xs. \<not> P x)"
  by (induction xs) auto

lemma splice_filter:
  assumes "i < length xs"
  shows "length (filter P xs) = length (filter P (splice_one i xs)) + (if P (xs ! i) then 1 else 0)"
proof -
  have "xs = take i xs @ xs ! i # drop (Suc i) xs" using assms by (rule id_take_nth_drop)
  then have "length (filter P xs) = length (filter P (take i xs @ xs ! i # drop (Suc i) xs))" by simp
  then show ?thesis by (simp add: splice_one_def)
qed

lemma same_secret_uses:
  "mm_secret m' = mm_secret m \<Longrightarrow> mm_user m' = mm_user m \<Longrightarrow> mm_type m' = mm_type m \<Longrightarrow>
     mm_status m' = MfaDisabled \<longleftrightarrow> mm_status m = MfaDisabled \<Longrightarrow> code_uses v user code m' = code_uses v user code m"
  by (simp add: code_uses_def stored_hashes_def)

lemma record_totp_use_Some:
  assumes "record_totp_use step now m = Some m'"
  shows "mm_status m = MfaActive \<and> (\<forall>k. mm_last_step m = Some k \<longrightarrow> k < step) \<and>
     m' = m\<lparr>mm_last_used_at := Some now, mm_failed := 0, mm_locked_until := None,
            mm_updated_at := now, mm_last_step := Some step\<rparr>"
proof -
  have active: "mm_status m = MfaActive"
  proof (rule ccontr)
    assume "mm_status m \<noteq> MfaActive"
    then have "record_totp_use step now m = None" by (simp add: record_totp_use_def)
    with assms show False by simp
  qed
  have fresh: "\<not> (case mm_last_step m of None \<Rightarrow> False | Some k \<Rightarrow> step \<le> k)"
  proof
    assume "case mm_last_step m of None \<Rightarrow> False | Some k \<Rightarrow> step \<le> k"
    then have "record_totp_use step now m = None" by (simp add: record_totp_use_def)
    with assms show False by simp
  qed
  have "record_totp_use step now m = Some (m\<lparr>mm_last_used_at := Some now, mm_failed := 0,
      mm_locked_until := None, mm_updated_at := now, mm_last_step := Some step\<rparr>)"
    using active fresh by (simp add: record_totp_use_def record_use_def)
  with assms have "m' = m\<lparr>mm_last_used_at := Some now, mm_failed := 0,
      mm_locked_until := None, mm_updated_at := now, mm_last_step := Some step\<rparr>"
    by (simp only: option.inject)
  with active fresh show ?thesis by (simp split: option.splits)
qed

lemma method_move_uses:
  assumes "method_move d now m m'"
  shows "code_uses v user code m' \<le> code_uses v user code m"
  using assms
proof cases
  case failed
  then show ?thesis by (intro eq_refl same_secret_uses) (simp_all add: method_failed_attempt_def Let_def)
next
  case activated
  then have "mm_status m = MfaPending" "method_activate now m =
      Some (m\<lparr>mm_status := MfaActive, mm_failed := 0, mm_locked_until := None, mm_updated_at := now\<rparr>)"
    by (simp_all add: method_activate_def)
  with activated have "mm_status m = MfaPending"
    "m' = m\<lparr>mm_status := MfaActive, mm_failed := 0, mm_locked_until := None, mm_updated_at := now\<rparr>"
    by (simp_all only: option.inject)
  then show ?thesis by (intro eq_refl same_secret_uses) simp_all
next
  case (used s step)
  then show ?thesis using record_totp_use_Some [OF used(2)] by (intro eq_refl same_secret_uses) simp_all
next
  case (consumed s hashes P i)
  then have "length (filter Q (splice_one i hashes)) \<le> length (filter Q hashes)" for Q
    using find_index_SomeD [OF consumed(5)] splice_filter [of i hashes Q] by simp
  then show ?thesis using consumed
    by (simp add: code_uses_def stored_hashes_def update_secret_def parse_string_array_round_trip)
qed

lemma world_move_uses:
  assumes "methods_ok w" "world_move d now w w'"
  shows "total_of (code_uses v user code) w' \<le> total_of (code_uses v user code) w"
  using assms(2)
proof cases
  case (saved m m')
  then show ?thesis
    using sum_map_set_existing [OF _ saved(1), of "code_uses v user code" m'] assms(1)
      method_move_uses [OF saved(2), of v user code]
    by (simp add: total_of_def methods_ok_def)
qed (simp add: total_of_def)

text \<open>Every call but a regeneration of this user's codes keeps the count from growing.\<close>

lemma mfa_run_uses:
  assumes "methods_ok w" "mfa_call_fresh taken w c" "\<forall>fresh draws. c \<noteq> GenerateCall fresh user draws"
  shows "total_of (code_uses v user code) (mfa_run d now c w) \<le> total_of (code_uses v user code) w"
  using assms(1,2)
proof (cases rule: mfa_run_cases [where d = d and now = now])
  case move
  then show ?thesis using world_move_uses assms(1) by blast
next
  case (enrolled fresh user' account secret)
  have "code_uses v user code (create_pending_totp fresh user' secret now) = 0"
    by (simp add: code_uses_def create_pending_totp_def method_create_def)
  then show ?thesis using enrolled by (simp add: total_of_def sum_map_set_new)
next
  case (generated fresh user' draws ms m)
  then have "code_uses v user code m = 0" using assms(3) by (auto simp: code_uses_def)
  moreover have "map_get (fold (\<lambda>m. map_delete (mm_id m)) ms (mw_methods w)) fresh = None"
    using generated by (simp add: map_get_fold_delete)
  ultimately show ?thesis using generated(4) sum_fold_delete by (simp add: total_of_def sum_map_set_new)
next
  case (recovered ms)
  then show ?thesis using sum_fold_delete by (simp add: total_of_def)
qed

lemma mfa_steps_uses:
  assumes "mfa_steps d taken (\<lambda>c. \<forall>fresh draws. c \<noteq> GenerateCall fresh user draws) w w'" "methods_ok w"
  shows "methods_ok w' \<and> total_of (code_uses v user code) w' \<le> total_of (code_uses v user code) w"
  using assms(1)
proof (induction rule: rtranclp_induct)
  case (step w1 w2)
  from step(2) obtain c now where "w2 = mfa_run d now c w1" "mfa_call_fresh taken w1 c"
    "\<forall>fresh draws. c \<noteq> GenerateCall fresh user draws" by (auto elim: mfa_step.cases)
  with step(3) mfa_run_uses mfa_run_ok show ?case by (meson le_trans)
qed (simp add: assms(2))

section \<open>Backup codes work once\<close>

lemma consume_success:
  assumes "methods_ok w" "consume_backup_code v now user code w = (res, w')" "res \<noteq> BackupFailed"
  shows "total_of (code_uses v user code) w = Suc (total_of (code_uses v user code) w')"
proof -
  from assms(2,3) obtain m s hashes i where m: "find (\<lambda>m. mm_type m = BackupCodes) (methods_active w user) = Some m"
    "mm_secret m = Some s" "parse_string_array s = Some hashes"
    "find_index (verify_code v code) hashes = Some i"
    "mw_methods w' = map_set (mm_id m) (update_secret (json_string_array (splice_one i hashes)) now m) (mw_methods w)"
    by (auto simp: consume_backup_code_def Let_def update_secret_def split: option.splits if_splits)
  let ?m = "update_secret (json_string_array (splice_one i hashes)) now m"
  have mem: "m \<in> set (methods_active w user)" "mm_type m = BackupCodes" using find_SomeD [OF m(1)] by auto
  then have stored: "map_get (mw_methods w) (mm_id m) = Some m" "mm_user m = user" "mm_status m = MfaActive"
    using methods_by_user_member [OF assms(1)] by (auto simp: methods_active_def)
  have "code_uses v user code m = Suc (code_uses v user code ?m)"
    using m(2-4) mem stored splice_filter [of i hashes "verify_code v code"] find_index_SomeD [OF m(4)]
    by (simp add: code_uses_def stored_hashes_def update_secret_def parse_string_array_round_trip)
  then show ?thesis
    using sum_map_set_existing [OF _ stored(1), of "code_uses v user code" ?m] assms(1) m(5)
    by (simp add: total_of_def methods_ok_def)
qed

lemma consume_spent:
  assumes "methods_ok w" "total_of (code_uses v user code) w = 0"
  shows "fst (consume_backup_code v now user code w) = BackupFailed"
  using consume_success [OF assms(1), of v now user code "fst (consume_backup_code v now user code w)"
      "snd (consume_backup_code v now user code w)"] assms(2) by fastforce

lemma charset_checks: "list_all (\<lambda>c. upper_char c = [c] \<and> c \<noteq> CHR ''-'' \<and>
    (65 \<le> (of_char c :: nat) \<and> (of_char c :: nat) \<le> 90 \<or> 48 \<le> (of_char c :: nat) \<and> (of_char c :: nat) \<le> 57))
  backup_charset"
  by code_simp

text \<open>A drawn code is its own normal form.\<close>

lemma normalize_single_code:
  assumes "length bytes \<ge> 10"
  shows "normalize_code (single_code bytes) = single_code bytes"
proof -
  define cs where "cs = map (\<lambda>b. backup_charset ! (b mod length backup_charset)) (take code_length bytes)"
  have len: "length cs = 10" using assms by (simp add: cs_def code_length_def)
  have "backup_charset \<noteq> []" by (simp add: backup_charset_def)
  then have "\<forall>c \<in> set cs. c \<in> set backup_charset" by (auto simp: cs_def intro!: nth_mem)
  then have ok: "upper_char c = [c]" "c \<noteq> CHR ''-''"
    "65 \<le> (of_char c :: nat) \<and> (of_char c :: nat) \<le> 90 \<or> 48 \<le> (of_char c :: nat) \<and> (of_char c :: nat) \<le> 57"
    if "c \<in> set cs" for c using charset_checks that by (auto simp: list_all_iff)
  have upper: "js_upper xs = xs" if "set xs \<subseteq> set cs" for xs
    using that ok(1) by (induction xs) (simp_all add: js_upper_def)
  have "js_upper (take 5 cs @ ''-'' @ drop 5 cs) = take 5 cs @ ''-'' @ drop 5 cs"
    using upper [of "take 5 cs"] upper [of "drop 5 cs"] set_take_subset [of 5 cs] set_drop_subset [of 5 cs]
    by (simp add: js_upper_def upper_char_def Let_def)
  moreover have "filter (\<lambda>c. 65 \<le> (of_char c :: nat) \<and> (of_char c :: nat) \<le> 90 \<or>
      48 \<le> (of_char c :: nat) \<and> (of_char c :: nat) \<le> 57) (take 5 cs @ ''-'' @ drop 5 cs) = cs"
  proof -
    have keep: "filter (\<lambda>c. 65 \<le> (of_char c :: nat) \<and> (of_char c :: nat) \<le> 90 \<or>
      48 \<le> (of_char c :: nat) \<and> (of_char c :: nat) \<le> 57) xs = xs" if "set xs \<subseteq> set cs" for xs
      using that ok(3) by (intro filter_True) auto
    show ?thesis
      using keep [of "take 5 cs"] keep [of "drop 5 cs"] set_take_subset [of 5 cs] set_drop_subset [of 5 cs]
      by simp
  qed
  ultimately show ?thesis by (simp add: normalize_code_def single_code_def Let_def cs_def [symmetric])
qed

lemma length_filter_one: "distinct xs \<Longrightarrow> x \<in> set xs \<Longrightarrow> length (filter (\<lambda>y. y = x) xs) = 1"
  by (induction xs) (auto simp: filter_empty_conv)

lemma generate_codes_hashes:
  "snd (generate_codes h draws) = map (\<lambda>(bytes, salt). h salt (single_code bytes)) draws"
  by (simp add: generate_codes_def Let_def, induction draws) auto

lemma generate_uses:
  assumes ok: "methods_ok w" and fresh: "map_get (mw_methods w) fresh = None"
    and gen: "generate_backup_codes h draws fresh now user w = ((raw, hashed), w')"
    and argon2: "\<forall>salt c c'. v (h salt c) c' = (c = c')"
    and draws: "\<forall>(bytes, salt) \<in> set draws. length bytes \<ge> 10" "distinct raw" and code: "code \<in> set raw"
  shows "total_of (code_uses v user code) w' = 1 \<and>
    (\<exists>m. map_get (mw_methods w') fresh = Some m \<and> mm_user m = user \<and> mm_type m = BackupCodes \<and>
       mm_status m = MfaActive \<and> mm_secret m = Some (json_string_array hashed) \<and>
       (\<exists>h \<in> set hashed. verify_code v code h) \<and>
       find (\<lambda>m. mm_type m = BackupCodes) (methods_active w' user) = Some m)"
proof -
  define ms where "ms = filter (\<lambda>m. mm_type m = BackupCodes) (methods_active w user @ methods_pending w user)"
  define m where "m = (method_create fresh user BackupCodes (Some (json_string_array hashed)) now)\<lparr>mm_status := MfaActive\<rparr>"
  have rh: "raw = map (\<lambda>(bytes, salt). single_code bytes) draws"
    "hashed = map (\<lambda>(bytes, salt). h salt (single_code bytes)) draws"
    using gen generate_codes_hashes [of h draws]
    by (auto simp: generate_backup_codes_def case_prod_beta Let_def generate_codes_def)
  have w': "mw_methods w' = map_set fresh m (fold (\<lambda>m. map_delete (mm_id m)) ms (mw_methods w))"
    using gen by (auto simp: generate_backup_codes_def case_prod_beta Let_def fold_delete_methods ms_def m_def
        method_create_def method_activate_def)
  have m: "mm_user m = user" "mm_type m = BackupCodes" "mm_status m = MfaActive"
    "mm_secret m = Some (json_string_array hashed)" "stored_hashes m = hashed"
    by (simp_all add: m_def method_create_def stored_hashes_def parse_string_array_round_trip)
  have verify: "verify_code v code (h salt (single_code bytes)) = (single_code bytes = code)" for salt bytes
  proof -
    obtain b s where "(b, s) \<in> set draws" "code = single_code b" using code rh by auto
    then have "normalize_code code = code" using draws(1) normalize_single_code by fastforce
    then show ?thesis using argon2 by (simp add: verify_code_def)
  qed
  have some: "\<exists>h \<in> set hashed. verify_code v code h"
    using code verify unfolding rh by (auto simp: case_prod_beta)
  have "length (filter (verify_code v code) hashed) = length (filter (\<lambda>c. c = code) raw)"
    unfolding rh by (simp add: filter_map comp_def case_prod_beta verify)
  also have "... = 1" using draws(2) code
    by (rule length_filter_one)
  finally have one: "code_uses v user code m = 1" using m by (simp add: code_uses_def)
  let ?rest = "fold (\<lambda>m. map_delete (mm_id m)) ms (mw_methods w)"
  have rest_wf: "map_wf ?rest" using ok by (simp add: methods_ok_def map_wf_fold_delete)
  have others: "\<not> (mm_user q = user \<and> mm_type q = BackupCodes \<and> mm_status q \<noteq> MfaDisabled)"
    if "q \<in> set (map_values ?rest)" for q
  proof -
    from rest_wf have "map_wf ?rest" .
    from map_values_iff [OF this, of q] that obtain k where "map_get ?rest k = Some q" by auto
    then have q: "map_get (mw_methods w) k = Some q" "k \<notin> mm_id ` set ms"
      by (auto simp: map_get_fold_delete split: if_splits)
    have wf: "map_wf (mw_methods w)" using ok by (simp add: methods_ok_def)
    have stored: "q \<in> set (map_values (mw_methods w))" using map_values_iff [OF wf, of q] q(1) by blast
    have "mm_id q = k" by (rule methods_ok_id [OF ok q(1)])
    with q(2) have gone: "q \<notin> set ms" by auto
    show ?thesis
    proof
      assume q': "mm_user q = user \<and> mm_type q = BackupCodes \<and> mm_status q \<noteq> MfaDisabled"
      then have "q \<in> set (methods_by_user w user)" using stored by (simp add: methods_by_user_def)
      with q' have "q \<in> set ms"
        by (cases "mm_status q") (simp_all add: ms_def methods_active_def methods_pending_def)
      with gone show False by contradiction
    qed
  qed
  have "code_uses v user code q = 0" if "q \<in> set (map_values ?rest)" for q
    using others [OF that] unfolding code_uses_def by argo
  then have "sum_list (map (code_uses v user code) (map_values ?rest)) = 0" by (simp add: sum_list_eq_0_iff)
  moreover have "map_get ?rest fresh = None" using fresh by (simp add: map_get_fold_delete)
  ultimately have "total_of (code_uses v user code) w' = 1" using one w' by (simp add: total_of_def sum_map_set_new)
  moreover have "find (\<lambda>m. mm_type m = BackupCodes) (methods_active w' user) = Some m"
  proof -
    have only: "q = m" if "q \<in> set (methods_active w' user)" "mm_type q = BackupCodes" for q
    proof -
      have "q \<in> set (map_values (map_set fresh m ?rest))" "mm_user q = user" "mm_status q = MfaActive"
        using that(1) w' by (simp_all add: methods_active_def methods_by_user_def)
      note here = this
      show ?thesis
      proof (rule ccontr)
        assume "q \<noteq> m"
        with here(1) map_values_set [OF rest_wf, of q fresh m] obtain k' where "map_get ?rest k' = Some q"
          by blast
        then have "q \<in> set (map_values ?rest)" using map_values_iff [OF rest_wf, of q] by blast
        from others [OF this] here(2,3) that(2) show False by simp
      qed
    qed
    have "m \<in> set (map_values (map_set fresh m ?rest))" using map_values_set [OF rest_wf, of m fresh m] by simp
    then have here: "m \<in> set (methods_active w' user)"
      using m w' by (simp add: methods_active_def methods_by_user_def)
    obtain q where "find (\<lambda>m. mm_type m = BackupCodes) (methods_active w' user) = Some q"
      using find_exists [OF here, of "\<lambda>m. mm_type m = BackupCodes"] m(2) by blast
    with find_SomeD [OF this] only show ?thesis by simp
  qed
  ultimately show ?thesis using m w' some by simp
qed

lemma consume_accepts:
  assumes "methods_ok w" "\<exists>h \<in> set hashes. verify_code v code h"
    "find (\<lambda>m. mm_type m = BackupCodes) (methods_active w user) = Some m"
    "mm_secret m = Some (json_string_array hashes)"
  shows "fst (consume_backup_code v now user code w) \<noteq> BackupFailed"
proof -
  obtain i where "find_index (verify_code v code) hashes = Some i"
    using assms(2) find_index_None_iff [of "verify_code v code" hashes] by fastforce
  moreover have "json_string_array hashes \<noteq> []" by (simp add: json_string_array_def)
  ultimately show ?thesis using assms(3,4)
    by (simp add: consume_backup_code_def Let_def parse_string_array_round_trip)
qed

text \<open>
  C21: a backup code works once. When codes are generated, from draws of at least ten bytes each and
  under a fresh method id in a well-formed store, and come out distinct, each of them is accepted
  at once, at any time; and after any run in which the user's codes are not regenerated, if it is
  accepted then, it is refused for good after that, whatever else is enrolled, consumed, recovered
  or stepped up in between. argon2 is assumed to verify exactly the text that was hashed.
\<close>

theorem backup_code_works_once:
  assumes "methods_ok w" and "map_get (mw_methods w) fresh = None"
    and "generate_backup_codes (md_hash d) draws fresh now user w = ((raw, hashed), w1)"
    and argon2: "\<forall>salt c c'. md_verify d (md_hash d salt c) c' = (c = c')"
    and "\<forall>(bytes, salt) \<in> set draws. length bytes \<ge> 10" and "distinct raw" and "code \<in> set raw"
  shows "fst (consume_backup_code (md_verify d) t user code w1) \<noteq> BackupFailed \<and>
    (\<forall>w2 t2 res w3 w4 t4.
       mfa_steps d taken (\<lambda>c. \<forall>f ds. c \<noteq> GenerateCall f user ds) w1 w2 \<longrightarrow>
       consume_backup_code (md_verify d) t2 user code w2 = (res, w3) \<longrightarrow> res \<noteq> BackupFailed \<longrightarrow>
       mfa_steps d taken (\<lambda>c. \<forall>f ds. c \<noteq> GenerateCall f user ds) w3 w4 \<longrightarrow>
       fst (consume_backup_code (md_verify d) t4 user code w4) = BackupFailed)"
proof -
  from generate_uses [OF assms(1-3) argon2 assms(5-7)] obtain m where
    one: "total_of (code_uses (md_verify d) user code) w1 = 1"
    and m: "mm_secret m = Some (json_string_array hashed)" "\<exists>h \<in> set hashed. verify_code (md_verify d) code h"
      "find (\<lambda>m. mm_type m = BackupCodes) (methods_active w1 user) = Some m" by blast
  have ok: "methods_ok w1"
    using mfa_run_ok [OF assms(1), of "[]" "GenerateCall fresh user draws" d now] assms(2,3) by simp
  have "fst (consume_backup_code (md_verify d) t4 user code w4) = BackupFailed"
    if "mfa_steps d taken (\<lambda>c. \<forall>f ds. c \<noteq> GenerateCall f user ds) w1 w2"
      "consume_backup_code (md_verify d) t2 user code w2 = (res, w3)" "res \<noteq> BackupFailed"
      "mfa_steps d taken (\<lambda>c. \<forall>f ds. c \<noteq> GenerateCall f user ds) w3 w4" for w2 t2 res w3 w4 t4
  proof -
    from mfa_steps_uses [OF that(1) ok, of "md_verify d" code] one
    have w2: "methods_ok w2" "total_of (code_uses (md_verify d) user code) w2 \<le> 1" by auto
    have "total_of (code_uses (md_verify d) user code) w3 = 0"
      using consume_success [OF w2(1) that(2,3)] w2(2) by simp
    moreover have "methods_ok w3"
      using mfa_run_ok [OF w2(1), of taken "ConsumeCall user code" d t2] that(2) by simp
    ultimately show ?thesis
      using mfa_steps_uses [OF that(4), of "md_verify d" code] consume_spent by simp
  qed
  then show ?thesis using consume_accepts [OF ok m(2,3,1)] by blast
qed

text \<open>A concrete deployment: argon2 stands as the pair of the salt and the text.\<close>

definition demo_hash :: "string \<Rightarrow> string \<Rightarrow> string" where
  "demo_hash salt code = code"

definition demo_verify :: "string \<Rightarrow> string \<Rightarrow> bool" where
  "demo_verify hash code \<longleftrightarrow> hash = code"

definition demo_totp :: totp_algorithm where
  "demo_totp = \<lparr>ta_generate = (\<lambda>_. (''SECRET'', ''otpauth:'')),
     ta_verify = (\<lambda>now secret code drift. if code = ''123456'' then Some (Some (now div 30000)) else Some None)\<rparr>"

definition demo_deps :: mfa_deps where
  "demo_deps = \<lparr>md_totp = demo_totp, md_hash = demo_hash, md_verify = demo_verify,
     md_can_recover = (\<lambda>a. a = ''root''), md_revoke_all = (\<lambda>_. 2), md_max_age = None\<rparr>"

definition empty_mfa :: mfa_world where
  "empty_mfa = \<lparr>mw_methods = [], mw_audit = [], mw_challenges = [], mw_assertions = []\<rparr>"

definition demo_draws :: "(nat list \<times> string) list" where
  "demo_draws = [([0, 1, 2, 3, 4, 5, 6, 7, 8, 9], ''s''), ([9, 8, 7, 6, 5, 4, 3, 2, 1, 0], ''t'')]"

definition demo_codes_world :: mfa_world where
  "demo_codes_world = snd (generate_backup_codes demo_hash demo_draws ''b1'' 5 ''u'' empty_mfa)"

definition demo_spent_world :: mfa_world where
  "demo_spent_world = snd (consume_backup_code demo_verify 6 ''u'' ''23456-789AB'' demo_codes_world)"

lemma demo_generation:
  "fst (generate_backup_codes demo_hash demo_draws ''b1'' 5 ''u'' empty_mfa) =
     ([''23456-789AB'', ''BA987-65432''], [''23456-789AB'', ''BA987-65432''])"
  "fst (consume_backup_code demo_verify 6 ''u'' ''23456-789AB'' demo_codes_world) = BackupOk 1"
  by code_simp+

theorem backup_code_works_once_witness:
  "fst (consume_backup_code demo_verify 6 ''u'' ''23456-789AB'' demo_codes_world) = BackupOk 1 \<and>
   fst (consume_backup_code demo_verify 9 ''u'' ''23456-789AB'' demo_spent_world) = BackupFailed"
proof -
  let ?gen = "generate_backup_codes demo_hash demo_draws ''b1'' 5 ''u'' empty_mfa"
  have ok: "methods_ok empty_mfa" "map_get (mw_methods empty_mfa) ''b1'' = None"
    by (simp_all add: methods_ok_def empty_mfa_def)
  have gen: "generate_backup_codes (md_hash demo_deps) demo_draws ''b1'' 5 ''u'' empty_mfa =
      ((fst (fst ?gen), snd (fst ?gen)), demo_codes_world)"
    by (simp add: demo_deps_def demo_codes_world_def)
  have argon2: "\<forall>salt c c'. md_verify demo_deps (md_hash demo_deps salt c) c' = (c = c')"
    by (simp add: demo_deps_def demo_hash_def demo_verify_def)
  have bytes: "\<forall>(bytes, salt) \<in> set demo_draws. length bytes \<ge> 10" by (simp add: demo_draws_def)
  have codes: "distinct (fst (fst ?gen))" "''23456-789AB'' \<in> set (fst (fst ?gen))"
    by (simp_all add: demo_generation)
  have consumed: "consume_backup_code (md_verify demo_deps) 6 ''u'' ''23456-789AB'' demo_codes_world =
      (BackupOk 1, demo_spent_world)"
    using demo_generation(2) by (simp add: demo_deps_def demo_spent_world_def prod_eq_iff)
  have "mfa_steps demo_deps [] (\<lambda>c. \<forall>f ds. c \<noteq> GenerateCall f ''u'' ds) v v" for v by simp
  with backup_code_works_once [OF ok gen argon2 bytes codes, of 6 "[]"] consumed
  have "fst (consume_backup_code (md_verify demo_deps) 9 ''u'' ''23456-789AB'' demo_spent_world) = BackupFailed"
    by blast
  then show ?thesis using demo_generation(2) by (simp add: demo_deps_def)
qed

section \<open>TOTP steps are consumed once\<close>

definition step_at_least :: "string \<Rightarrow> int \<Rightarrow> mfa_world \<Rightarrow> bool" where
  "step_at_least i n w \<longleftrightarrow>
     (\<forall>m. map_get (mw_methods w) i = Some m \<longrightarrow> (\<exists>k. mm_last_step m = Some k \<and> n \<le> k))"

lemma method_move_step:
  assumes "method_move d now m m'" "mm_last_step m = Some k"
  shows "\<exists>k'. mm_last_step m' = Some k' \<and> k \<le> k'"
  using assms(1)
proof cases
  case failed
  then show ?thesis using assms(2) by (simp add: method_failed_attempt_def Let_def)
next
  case activated
  then have "method_activate now m =
      Some (m\<lparr>mm_status := MfaActive, mm_failed := 0, mm_locked_until := None, mm_updated_at := now\<rparr>)"
    by (simp add: method_activate_def)
  with activated have
    "m' = m\<lparr>mm_status := MfaActive, mm_failed := 0, mm_locked_until := None, mm_updated_at := now\<rparr>"
    by (simp only: option.inject)
  then show ?thesis using assms(2) by simp
next
  case (used s code step)
  from record_totp_use_Some [OF used(2)] have "mm_last_step m' = Some step" "k < step"
    using assms(2) by simp_all
  then show ?thesis by simp
next
  case consumed
  then show ?thesis using assms(2) by (simp add: update_secret_def)
qed

lemma mfa_run_step_at_least:
  assumes "methods_ok w" "mfa_call_fresh taken w c" "i \<in> set taken" "step_at_least i n w"
  shows "step_at_least i n (mfa_run d now c w)"
  using assms(1,2)
proof (cases rule: mfa_run_cases [where d = d and now = now])
  case move
  from move(1) show ?thesis
  proof cases
    case (saved m m')
    show ?thesis
    proof (cases "mm_id m = i")
      case True
      then obtain k where "mm_last_step m = Some k" "n \<le> k" using assms(4) saved(1) by (auto simp: step_at_least_def)
      moreover from method_move_step [OF saved(2) this(1)] obtain k' where "mm_last_step m' = Some k'" "k \<le> k'" by blast
      ultimately show ?thesis using True saved(3) by (simp add: step_at_least_def)
    next
      case False
      then show ?thesis using assms(4) saved(3) by (simp add: step_at_least_def)
    qed
  qed (use assms(4) in \<open>simp add: step_at_least_def\<close>)
next
  case (enrolled fresh user account secret)
  then have "fresh \<noteq> i" using assms(3) by auto
  then show ?thesis using enrolled(4) assms(4) by (simp add: step_at_least_def)
next
  case (generated fresh user draws ms m)
  then have "fresh \<noteq> i" using assms(3) by auto
  then show ?thesis using generated(4) assms(4) by (simp add: step_at_least_def map_get_fold_delete)
next
  case (recovered ms)
  then show ?thesis using assms(4) by (simp add: step_at_least_def map_get_fold_delete)
qed

lemma mfa_steps_step_at_least:
  assumes "mfa_steps d taken allowed w w'" "methods_ok w" "i \<in> set taken" "step_at_least i n w"
  shows "methods_ok w' \<and> step_at_least i n w'"
  using assms(1)
proof (induction rule: rtranclp_induct)
  case (step w1 w2)
  from step(2) obtain c now where "w2 = mfa_run d now c w1" "mfa_call_fresh taken w1 c"
    by (auto elim: mfa_step.cases)
  with step(3) mfa_run_step_at_least [OF _ _ assms(3)] mfa_run_ok show ?case by blast
qed (use assms in simp)

lemma verify_totp_accepts:
  "verify_totp_challenge totp now i code w = (Some (Inr ()), w') \<longleftrightarrow>
     (\<exists>m s step m'. length code = 6 \<and> map_get (mw_methods w) i = Some m \<and> mm_status m = MfaActive \<and>
        \<not> method_locked_at now m \<and> mm_secret m = Some s \<and> s \<noteq> [] \<and>
        ta_verify totp now s code 1 = Some (Some step) \<and> record_totp_use step now m = Some m' \<and>
        w' = methods_save m' w)"
  by (auto simp: verify_totp_challenge_def methods_find_by_id_def split: option.splits)

text \<open>
  C22: a time step is consumed at most once: of two codes a TOTP method accepts, with any run of
  calls in between, the second always matches a strictly later time step than the first, so a code
  seen over the user's shoulder cannot be replayed.
\<close>

theorem totp_step_consumed_once:
  assumes "methods_ok w" and "i \<in> set taken"
    and "verify_totp_challenge (md_totp d) t1 i code w = (Some (Inr ()), w1)"
    and "mfa_steps d taken allowed w1 w2"
    and "verify_totp_challenge (md_totp d) t2 i code' w2 = (Some (Inr ()), w3)"
  shows "\<exists>m s1 m' s2. map_get (mw_methods w) i = Some m \<and>
    ta_verify (md_totp d) t1 (the (mm_secret m)) code 1 = Some (Some s1) \<and>
    map_get (mw_methods w2) i = Some m' \<and>
    ta_verify (md_totp d) t2 (the (mm_secret m')) code' 1 = Some (Some s2) \<and> s1 < s2"
proof -
  from assms(3) obtain m s s1 m1 where m: "map_get (mw_methods w) i = Some m" "mm_secret m = Some s"
    "ta_verify (md_totp d) t1 s code 1 = Some (Some s1)" "record_totp_use s1 t1 m = Some m1"
    "w1 = methods_save m1 w" by (auto simp: verify_totp_accepts)
  have m1: "mm_id m1 = i" "mm_last_step m1 = Some s1"
    using record_totp_use_Some [OF m(4)] methods_ok_id [OF assms(1) m(1)] by simp_all
  then have "methods_ok w1" "step_at_least i s1 w1"
    using m(5) assms(1) by (simp_all add: methods_ok_save step_at_least_def)
  from mfa_steps_step_at_least [OF assms(4) this(1) assms(2) this(2)]
  have w2: "step_at_least i s1 w2" by simp
  from assms(5) obtain m' s' s2 m2 where m': "map_get (mw_methods w2) i = Some m'" "mm_secret m' = Some s'"
    "ta_verify (md_totp d) t2 s' code' 1 = Some (Some s2)" "record_totp_use s2 t2 m' = Some m2"
    by (auto simp: verify_totp_accepts)
  obtain k where "mm_last_step m' = Some k" "s1 \<le> k" using w2 m'(1) by (auto simp: step_at_least_def)
  then have "s1 < s2" using record_totp_use_Some [OF m'(4)] by auto
  then show ?thesis using m m' by (intro exI [of _ m] exI [of _ s1] exI [of _ m'] exI [of _ s2]) simp
qed

definition demo_totp_method :: mfa_method where
  "demo_totp_method = (create_pending_totp ''m1'' ''u'' ''SECRET'' 0)\<lparr>mm_status := MfaActive\<rparr>"

definition demo_totp_world :: mfa_world where
  "demo_totp_world = empty_mfa\<lparr>mw_methods := [(''m1'', demo_totp_method)]\<rparr>"

definition demo_used_world :: mfa_world where
  "demo_used_world = snd (verify_totp_challenge demo_totp 60000 ''m1'' ''123456'' demo_totp_world)"

lemma demo_totp_verified:
  "verify_totp_challenge demo_totp 60000 ''m1'' ''123456'' demo_totp_world = (Some (Inr ()), demo_used_world)"
  "fst (verify_totp_challenge demo_totp 61000 ''m1'' ''123456'' demo_used_world) =
     Some (Inl (MfaRefused ''Code has already been used.''))"
  "fst (verify_totp_challenge demo_totp 120000 ''m1'' ''123456'' demo_used_world) = Some (Inr ())"
  by code_simp+

theorem totp_step_consumed_once_witness:
  "\<exists>s1 s2. ta_verify demo_totp 60000 ''SECRET'' ''123456'' 1 = Some (Some s1) \<and>
     ta_verify demo_totp 120000 (the (mm_secret (the (map_get (mw_methods demo_used_world) ''m1''))))
       ''123456'' 1 = Some (Some s2) \<and> s1 < s2"
proof -
  have ok: "methods_ok demo_totp_world"
    by (simp add: methods_ok_def demo_totp_world_def empty_mfa_def demo_totp_method_def
        create_pending_totp_def method_create_def map_wf_def)
  have first: "verify_totp_challenge (md_totp demo_deps) 60000 ''m1'' ''123456'' demo_totp_world =
      (Some (Inr ()), demo_used_world)"
    using demo_totp_verified(1) by (simp add: demo_deps_def)
  have again: "verify_totp_challenge (md_totp demo_deps) 120000 ''m1'' ''123456'' demo_used_world =
      (Some (Inr ()), snd (verify_totp_challenge demo_totp 120000 ''m1'' ''123456'' demo_used_world))"
    using demo_totp_verified(3) by (simp add: demo_deps_def prod_eq_iff)
  have run: "mfa_steps demo_deps [''m1''] (\<lambda>_. True) demo_used_world demo_used_world" by simp
  have secret: "map_get (mw_methods demo_totp_world) ''m1'' = Some demo_totp_method"
    "mm_secret demo_totp_method = Some ''SECRET''"
    by (simp_all add: demo_totp_world_def demo_totp_method_def create_pending_totp_def method_create_def)
  from totp_step_consumed_once [OF ok _ first run again] obtain m s1 m' s2 where h:
    "map_get (mw_methods demo_totp_world) ''m1'' = Some m"
    "ta_verify (md_totp demo_deps) 60000 (the (mm_secret m)) ''123456'' 1 = Some (Some s1)"
    "map_get (mw_methods demo_used_world) ''m1'' = Some m'"
    "ta_verify (md_totp demo_deps) 120000 (the (mm_secret m')) ''123456'' 1 = Some (Some s2)" "s1 < s2" by auto
  have m: "m = demo_totp_method" using h(1) secret(1) by simp
  have totp: "md_totp demo_deps = demo_totp" by (simp add: demo_deps_def)
  show ?thesis using h(2,4,5) unfolding m totp h(3) secret(2) option.sel by blast
qed

section \<open>The code that confirms an enrolment\<close>

text \<open>
  confirming an enrolment does not consume the time step of the code it accepts: as long as the
  algorithm still matches the code, the first login challenge accepts the same code again, within
  the same step included.
\<close>

theorem confirming_code_accepted_again:
  assumes "methods_ok w"
    and "confirm_totp_enrollment totp t1 i code w = (Some (Inr ()), w1)"
    and "map_get (mw_methods w) i = Some m" and "mm_last_step m = None"
    and "ta_verify totp t2 (the (mm_secret m)) code 1 = Some (Some step)"
  shows "fst (verify_totp_challenge totp t2 i code w1) = Some (Inr ())"
proof -
  from assms(2,3) obtain m1 where m1: "length code = 6" "mm_status m = MfaPending"
    "mm_secret m \<noteq> None" "mm_secret m \<noteq> Some []" "method_activate t1 m = Some m1" "w1 = methods_save m1 w"
    by (auto simp: confirm_totp_enrollment_def methods_find_by_id_def split: option.splits if_splits)
  have "method_activate t1 m = Some (m\<lparr>mm_status := MfaActive, mm_failed := 0, mm_locked_until := None,
      mm_updated_at := t1\<rparr>)" using m1(2) by (simp add: method_activate_def)
  with m1(5) have active: "m1 = m\<lparr>mm_status := MfaActive, mm_failed := 0, mm_locked_until := None,
      mm_updated_at := t1\<rparr>" by (simp only: option.inject)
  have "mm_id m = i" by (rule methods_ok_id [OF assms(1,3)])
  then have "methods_find_by_id w1 i = Some m1"
    using m1(6) active by (simp add: methods_find_by_id_def)
  moreover have "record_totp_use step t2 m1 \<noteq> None"
    using active assms(4) by (simp add: record_totp_use_def record_use_def)
  ultimately show ?thesis
    using m1(1,3,4) active assms(5)
    by (auto simp: verify_totp_challenge_def method_locked_at_def)
qed

theorem confirming_code_accepted_again_witness:
  "fst (verify_totp_challenge demo_totp 1000 ''m1'' ''123456''
     (snd (confirm_totp_enrollment demo_totp 500 ''m1'' ''123456''
       (empty_mfa\<lparr>mw_methods := [(''m1'', create_pending_totp ''m1'' ''u'' ''SECRET'' 0)]\<rparr>)))) = Some (Inr ())"
proof -
  let ?w = "empty_mfa\<lparr>mw_methods := [(''m1'', create_pending_totp ''m1'' ''u'' ''SECRET'' 0)]\<rparr>"
  have ok: "methods_ok ?w"
    by (simp add: methods_ok_def create_pending_totp_def method_create_def map_wf_def)
  have "fst (confirm_totp_enrollment demo_totp 500 ''m1'' ''123456'' ?w) = Some (Inr ())" by code_simp
  then have "confirm_totp_enrollment demo_totp 500 ''m1'' ''123456'' ?w =
      (Some (Inr ()), snd (confirm_totp_enrollment demo_totp 500 ''m1'' ''123456'' ?w))"
    by (simp add: prod_eq_iff)
  from confirming_code_accepted_again [OF ok this, of "create_pending_totp ''m1'' ''u'' ''SECRET'' 0" 1000 0]
  show ?thesis by (simp add: create_pending_totp_def method_create_def demo_totp_def)
qed

section \<open>Recovery\<close>

text \<open>
  recovery succeeds exactly for another, authorized actor; it then leaves the user no method at
  all and everybody else's methods as they were, writes one audit entry, and any policy that
  requires a second factor of the user sends them to enrolment, so recovery never leaves less
  protection than before. A refused recovery changes nothing.
\<close>

theorem recovery_forces_enrollment:
  assumes "methods_ok w"
    and "recover_mfa_access can_recover revoke_all target actor reason w = (res, w')"
  shows "(is_ok res \<longleftrightarrow> actor \<noteq> target \<and> can_recover actor) \<and> (is_err res \<longrightarrow> w' = w) \<and>
    (is_ok res \<longrightarrow>
       res = Inr (length (methods_by_user w target), revoke_all target) \<and>
       methods_by_user w' target = [] \<and>
       (\<forall>i m. mm_user m \<noteq> target \<longrightarrow>
          (map_get (mw_methods w') i = Some m \<longleftrightarrow> map_get (mw_methods w) i = Some m)) \<and>
       length (mw_audit w') = length (mw_audit w) + 1 \<and>
       (\<forall>policy. ei_enrolled policy = Some (map mm_type (methods_active w' target)) \<longrightarrow>
          ed_level (resolve_enforcement policy) = Required \<longrightarrow>
          ed_requires_enrollment (resolve_enforcement policy) \<and> ed_blocked (resolve_enforcement policy)))"
proof (cases "actor \<noteq> target \<and> can_recover actor")
  case False
  then have "is_err (fst (recover_mfa_access can_recover revoke_all target actor reason w)) \<and>
      snd (recover_mfa_access can_recover revoke_all target actor reason w) = w"
    by (cases "actor = target") (simp_all add: recover_mfa_access_def)
  then have "is_err res" "w' = w" unfolding assms(2) by simp_all
  then show ?thesis using False by (cases res) auto
next
  case True
  let ?ms = "methods_by_user w target"
  have res: "res = Inr (length ?ms, revoke_all target)"
    "mw_methods w' = fold (\<lambda>m. map_delete (mm_id m)) ?ms (mw_methods w)"
    using assms(2) True by (auto simp: recover_mfa_access_def Let_def fold_delete_methods)
  have audit: "length (mw_audit w') = length (mw_audit w) + 1"
  proof -
    have same: "mw_audit (fold (\<lambda>m. methods_delete (mm_id m)) ms v) = mw_audit v" for ms v
      by (induction ms arbitrary: v) (simp_all add: methods_delete_def)
    show ?thesis using assms(2) True
      by (auto simp: recover_mfa_access_def Let_def audit_record_def same)
  qed
  have wf: "map_wf (mw_methods w)" "map_wf (mw_methods w')"
    using assms(1) res(2) by (simp_all add: methods_ok_def map_wf_fold_delete)
  have stays: "i \<notin> mm_id ` set ?ms" if "map_get (mw_methods w) i = Some m" "mm_user m \<noteq> target" for i m
  proof
    assume "i \<in> mm_id ` set ?ms"
    then obtain q where "q \<in> set ?ms" "mm_id q = i" by auto
    with methods_by_user_member [OF assms(1)] that show False by fastforce
  qed
  have none: "mm_user m \<noteq> target" if "map_get (mw_methods w') i = Some m" for i m
  proof
    assume "mm_user m = target"
    moreover from that res(2) have "map_get (mw_methods w) i = Some m" "i \<notin> mm_id ` set ?ms"
      by (auto simp: map_get_fold_delete split: if_splits)
    moreover have "m \<in> set (map_values (mw_methods w))"
      using map_values_iff [OF wf(1), of m] calculation(2) by blast
    moreover have "mm_id m = i" by (rule methods_ok_id [OF assms(1) calculation(2)])
    ultimately show False by (auto simp: methods_by_user_def)
  qed
  have empty: "methods_by_user w' target = []"
    by (auto simp: methods_by_user_def filter_empty_conv map_values_iff [OF wf(2)] dest: none)
  have kept: "map_get (mw_methods w') i = Some m \<longleftrightarrow> map_get (mw_methods w) i = Some m"
    if "mm_user m \<noteq> target" for i m
    using stays that by (auto simp: res(2) map_get_fold_delete)
  have enrol: "ed_requires_enrollment (resolve_enforcement policy) \<and> ed_blocked (resolve_enforcement policy)"
    if "ei_enrolled policy = Some (map mm_type (methods_active w' target))"
      "ed_level (resolve_enforcement policy) = Required" for policy
    using that empty by (simp add: resolve_enforcement_def Let_def methods_active_def)
  show ?thesis using True res(1) empty kept audit enrol by simp
qed

theorem recovery_forces_enrollment_witness:
  "methods_by_user (snd (recover_mfa_access (\<lambda>a. a = ''root'') (\<lambda>_. 2) ''u'' ''root'' ''lost phone''
     demo_totp_world)) ''u'' = []"
proof -
  have ok: "methods_ok demo_totp_world"
    by (simp add: methods_ok_def demo_totp_world_def empty_mfa_def demo_totp_method_def
        create_pending_totp_def method_create_def map_wf_def)
  show ?thesis
    using recovery_forces_enrollment [OF ok, of "\<lambda>a. a = ''root''" "\<lambda>_. 2" "''u''" "''root''" "''lost phone''"
        "fst (recover_mfa_access (\<lambda>a. a = ''root'') (\<lambda>_. 2) ''u'' ''root'' ''lost phone'' demo_totp_world)"
        "snd (recover_mfa_access (\<lambda>a. a = ''root'') (\<lambda>_. 2) ''u'' ''root'' ''lost phone'' demo_totp_world)"]
    by simp
qed

section \<open>Exchanging a challenge\<close>

text \<open>
  Two calls of \<open>ConsumeMfaChallenge\<close> whose loads both happen before either save; each call's check
  and save run in one turn.
\<close>

definition challenge_race ::
  "('s \<Rightarrow> 'r \<times> 's) \<Rightarrow> int \<Rightarrow> int \<Rightarrow> string \<Rightarrow> mfa_world \<times> 's
     \<Rightarrow> (challenge_error + 'r) \<times> (challenge_error + 'r) \<times> mfa_world \<times> 's" where
  "challenge_race issue t1 t2 i ws =
     (let (w, s) = ws; found1 = map_get (mw_challenges w) i; found2 = map_get (mw_challenges w) i;
          finish = (\<lambda>now found (w, s). case challenge_check now found of
            Inl e \<Rightarrow> (Inl e, w, s)
          | Inr c \<Rightarrow> (let (r, s') = issue s
                     in (Inr r, w\<lparr>mw_challenges := map_set (mc_id c) c (mw_challenges w)\<rparr>, s')));
          (r1, w, s) = finish t1 found1 (w, s); (r2, w, s) = finish t2 found2 (w, s)
      in (r1, r2, w, s))"

text \<open>
  a challenge is exchanged for one session only if its exchanges do not overlap: after a
  completed exchange every further one is refused and issues nothing, but two exchanges of a valid
  challenge that both load it before either saves are both answered with a session.
\<close>

theorem challenge_exchanged_once_unless_overlapping:
  assumes "map_get (mw_challenges w) i = Some c" and "mc_id c = i"
    and "challenge_valid t1 c" and "challenge_valid t2 c"
    and "issue s = (r1, s1)" and "issue s1 = (r2, s2)"
  shows "(\<exists>w1. consume_mfa_challenge issue t1 i (w, s) = (Inr r1, w1, s1) \<and>
            (\<forall>t. is_err (fst (consume_mfa_challenge issue t i (w1, s1))) \<and>
                 snd (consume_mfa_challenge issue t i (w1, s1)) = (w1, s1))) \<and>
         (\<exists>w2. challenge_race issue t1 t2 i (w, s) = (Inr r1, Inr r2, w2, s2))"
  using assms
  by (auto simp: consume_mfa_challenge_def challenge_race_def challenge_check_def challenge_valid_def
      challenge_consume_def challenge_consumed_def challenge_expired_def Let_def)

theorem challenge_exchanged_once_unless_overlapping_witness:
  "\<exists>w2. challenge_race (\<lambda>n. (n, Suc n)) 10 11 ''c''
     (empty_mfa\<lparr>mw_challenges := [(''c'', challenge_create ''c'' ''u'' None 0)]\<rparr>, 0) =
     (Inr 0, Inr (Suc 0), w2, Suc (Suc 0))"
  using challenge_exchanged_once_unless_overlapping [of
      "empty_mfa\<lparr>mw_challenges := [(''c'', challenge_create ''c'' ''u'' None 0)]\<rparr>" "''c''"
      "challenge_create ''c'' ''u'' None 0" 10 11 "\<lambda>n. (n, Suc n)" 0 0 "Suc 0" "Suc 0" "Suc (Suc 0)"]
  by (simp add: challenge_create_def challenge_valid_def challenge_consumed_def challenge_expired_def)

end
