(* ===== verification/WebAuthnRuns.thy ===== *)
theory WebAuthnRuns
  imports WebAuthnFlows MfaRuns
begin

text \<open>
  Runs of the WebAuthn ceremonies among the other MFA calls: a challenge is claimed once, the
  signature counter of a credential only grows, a login is accepted exactly under the conditions the
  ceremony states, and what recovery and overlapping assertions do to credentials.
\<close>

section \<open>The system\<close>

record webauthn_deps =
  wd_attest :: attestation_verifier
  wd_assert :: assertion_verifier
  wd_mfa :: mfa_deps
  wd_ttl :: int

datatype webauthn_call =
    IssueWebAuthn ceremony_type string string string
  | RegisterWebAuthn string string registration_command
  | AssertWebAuthn assertion_command
  | OtherMfa mfa_call

fun webauthn_run :: "webauthn_deps \<Rightarrow> int \<Rightarrow> webauthn_call \<Rightarrow> webauthn_world \<Rightarrow> webauthn_world" where
  "webauthn_run d now (IssueWebAuthn ceremony fresh random user) w =
     snd (issue_webauthn_challenge ceremony (wd_ttl d) fresh random now user w)"
| "webauthn_run d now (RegisterWebAuthn fresh_method fresh_credential cmd) w =
     snd (register_webauthn (wd_attest d) now fresh_method fresh_credential cmd w)"
| "webauthn_run d now (AssertWebAuthn cmd) w = snd (verify_webauthn (wd_assert d) now cmd w)"
| "webauthn_run d now (OtherMfa call) w = w\<lparr>wo_mfa := mfa_run (wd_mfa d) now call (wo_mfa w)\<rparr>"

text \<open>A challenge that is issued was never issued before: 32 random bytes.\<close>

fun fresh_challenge :: "webauthn_world \<Rightarrow> webauthn_call \<Rightarrow> bool" where
  "fresh_challenge w (IssueWebAuthn _ _ random _) = (find_by_challenge (wo_challenges w) random = None)"
| "fresh_challenge w _ = True"

inductive webauthn_step :: "webauthn_deps \<Rightarrow> webauthn_world \<Rightarrow> webauthn_world \<Rightarrow> bool" for d where
  call: "fresh_challenge w call \<Longrightarrow> webauthn_step d w (webauthn_run d now call w)"

abbreviation webauthn_steps :: "webauthn_deps \<Rightarrow> webauthn_world \<Rightarrow> webauthn_world \<Rightarrow> bool" where
  "webauthn_steps d \<equiv> (webauthn_step d)\<^sup>*\<^sup>*"

section \<open>Claiming a challenge\<close>

lemma claim_challenge_Inr:
  "claim_challenge ceremony now user challenge s s = (Inr (), s') \<longleftrightarrow>
     (\<exists>c. find_by_challenge s challenge = Some c \<and> wh_user c = user \<and> wh_ceremony c = ceremony \<and>
       now \<le> wh_expires_at c \<and> \<not> wh_used c \<and> s' = map_set challenge (c\<lparr>wh_used := True\<rparr>) s)"
  by (auto simp: claim_challenge_def challenges_consume_def find_by_challenge_def webauthn_challenge_consume_def
      webauthn_challenge_expired_def Let_def split: option.splits if_splits)

lemma claim_challenge_Inl:
  "claim_challenge ceremony now user challenge s s = (Inl e, s') \<Longrightarrow> e = ValidationError [] \<and> s' = s"
  by (auto simp: claim_challenge_def challenges_consume_def find_by_challenge_def webauthn_challenge_consume_def
      Let_def split: option.splits if_splits)

definition challenge_spent :: "string \<Rightarrow> webauthn_world \<Rightarrow> bool" where
  "challenge_spent challenge w \<longleftrightarrow>
     (\<exists>c. find_by_challenge (wo_challenges w) challenge = Some c \<and> wh_used c)"

lemma claim_spent:
  "challenge_spent challenge w \<Longrightarrow>
     claim_challenge ceremony now user challenge (wo_challenges w) (wo_challenges w) =
       (Inl (ValidationError []), wo_challenges w)"
  by (auto simp: claim_challenge_def challenge_spent_def Let_def)

section \<open>What a login does\<close>

definition login_inputs :: "assertion_command \<Rightarrow> bool" where
  "login_inputs cmd \<longleftrightarrow> js_trim (as_user cmd) \<noteq> [] \<and> js_trim (as_credential cmd) \<noteq> [] \<and>
     js_trim (as_challenge cmd) \<noteq> [] \<and> \<not> empty_input (as_client_data cmd) \<and>
     \<not> empty_input (as_authenticator_data cmd) \<and> \<not> empty_input (as_signature cmd)"

definition registration_inputs :: "registration_command \<Rightarrow> bool" where
  "registration_inputs cmd \<longleftrightarrow> js_trim (rg_user cmd) \<noteq> [] \<and> js_trim (rg_challenge cmd) \<noteq> [] \<and>
     \<not> empty_input (rg_client_data cmd) \<and> \<not> empty_input (rg_attestation cmd)"

lemma verify_webauthn_unfold:
  "verify_webauthn verify now cmd w =
     (if \<not> login_inputs cmd then (Some (Inl (ValidationError [])), w)
      else case claim_challenge Authentication now (as_user cmd) (as_challenge cmd)
             (wo_challenges w) (wo_challenges w) of
        (Inl e, s) \<Rightarrow> (Some (Inl e), w)
      | (Inr _, s) \<Rightarrow>
          (case load_credential now cmd (w\<lparr>wo_challenges := s\<rparr>) of
             Inl e \<Rightarrow> (Some (Inl e), w\<lparr>wo_challenges := s\<rparr>)
           | Inr (c, m) \<Rightarrow> finish_assertion verify now cmd c m (w\<lparr>wo_challenges := s\<rparr>)))"
  by (auto simp: verify_webauthn_def login_inputs_def Let_def split: prod.split sum.split
      dest: claim_challenge_Inl)

lemma register_webauthn_unfold:
  "register_webauthn verify now fm fc cmd w =
     (if \<not> registration_inputs cmd then (Some (Inl (ValidationError [])), w)
      else case claim_challenge Registration now (rg_user cmd) (rg_challenge cmd)
             (wo_challenges w) (wo_challenges w) of
        (Inl e, s) \<Rightarrow> (Some (Inl e), w)
      | (Inr _, s) \<Rightarrow>
          (case verify (rg_client_data cmd) (rg_attestation cmd) (rg_challenge cmd) of
             None \<Rightarrow> (None, w\<lparr>wo_challenges := s\<rparr>)
           | Some (Inl e) \<Rightarrow> (Some (Inl e), w\<lparr>wo_challenges := s\<rparr>)
           | Some (Inr v) \<Rightarrow>
               (if find_by_credential_id (wo_credentials w) (va_credential_id v) \<noteq> None
                then (Some (Inl ConflictError), w\<lparr>wo_challenges := s\<rparr>)
                else
                  let m = create_active fm (rg_user cmd) Webauthn now;
                      c = credential_create fc (va_credential_id v) (rg_user cmd) (mm_id m)
                        (va_public_key v) (Some (va_sign_counter v)) (rg_transports cmd)
                        (va_attestation_type v) (Some (va_aaguid v)) (rg_device cmd) now
                  in (Some (Inr (m, c)), w\<lparr>wo_challenges := s, wo_mfa := methods_save m (wo_mfa w),
                        wo_credentials := credentials_save c (wo_credentials w)\<rparr>))))"
  by (auto simp: register_webauthn_def registration_inputs_def Let_def split: prod.split sum.split option.split
      dest: claim_challenge_Inl)

lemma load_credential_challenges [simp]:
  "load_credential now cmd (w\<lparr>wo_challenges := s\<rparr>) = load_credential now cmd w"
  by (auto simp: load_credential_def split: option.split)

lemma finish_assertion_challenges [simp]:
  "wo_challenges (snd (finish_assertion verify now cmd c m w)) = wo_challenges w"
  by (auto simp: finish_assertion_def failed_attempt_def Let_def split: option.split sum.split)

lemma finish_assertion_Inr:
  "finish_assertion verify now cmd c m w = (Some (Inr (c', m')), w') \<longleftrightarrow>
     (\<exists>v. verify cmd (wc_public_key c) = Some (Inr v) \<and>
       (wc_sign_counter c = 0 \<or> wc_sign_counter c < vs_sign_counter v) \<and>
       c' = update_sign_counter (vs_sign_counter v) now c \<and> record_use now m = Some m' \<and>
       w' = w\<lparr>wo_credentials := credentials_save c' (wo_credentials w), wo_mfa := methods_save m' (wo_mfa w)\<rparr>)"
  by (auto simp: finish_assertion_def Let_def not_le split: option.split sum.split)

lemma verify_webauthn_Inr:
  "verify_webauthn verify now cmd w = (Some (Inr (c', m')), w') \<longleftrightarrow>
     login_inputs cmd \<and>
     (\<exists>s c m. claim_challenge Authentication now (as_user cmd) (as_challenge cmd)
         (wo_challenges w) (wo_challenges w) = (Inr (), s) \<and>
       load_credential now cmd w = Inr (c, m) \<and>
       finish_assertion verify now cmd c m (w\<lparr>wo_challenges := s\<rparr>) = (Some (Inr (c', m')), w'))"
  by (auto simp: verify_webauthn_unfold load_credential_def split: prod.split sum.split option.split)

lemma load_credential_Inr:
  "load_credential now cmd w = Inr (c, m) \<longleftrightarrow>
     find_by_credential_id (wo_credentials w) (as_credential cmd) = Some c \<and> wc_user c = as_user cmd \<and>
     methods_find_by_id (wo_mfa w) (wc_method c) = Some m \<and> mm_status m = MfaActive \<and> \<not> method_locked_at now m"
  by (auto simp: load_credential_def split: option.splits if_splits)

definition accepted :: "('e + 'a) option \<Rightarrow> bool" where
  "accepted r \<longleftrightarrow> (\<exists>x. r = Some (Inr x))"

lemma verify_webauthn_accepts:
  "accepted (fst (verify_webauthn verify now cmd w)) \<longleftrightarrow>
     login_inputs cmd \<and>
     (\<exists>h. find_by_challenge (wo_challenges w) (as_challenge cmd) = Some h \<and> wh_user h = as_user cmd \<and>
       wh_ceremony h = Authentication \<and> now \<le> wh_expires_at h \<and> \<not> wh_used h) \<and>
     (\<exists>c m v. load_credential now cmd w = Inr (c, m) \<and> verify cmd (wc_public_key c) = Some (Inr v) \<and>
       (wc_sign_counter c = 0 \<or> wc_sign_counter c < vs_sign_counter v))"
    (is "?L \<longleftrightarrow> ?I \<and> ?H \<and> ?C")
proof -
  have "?L \<longleftrightarrow> (\<exists>c' m' w'. verify_webauthn verify now cmd w = (Some (Inr (c', m')), w'))"
    by (auto simp: accepted_def prod_eq_iff)
  also have "... \<longleftrightarrow> ?I \<and> ?H \<and> ?C"
    by (fastforce simp: verify_webauthn_Inr claim_challenge_Inr finish_assertion_Inr load_credential_Inr record_use_def)
  finally show ?thesis .
qed

text \<open>
  C23: a WebAuthn login succeeds exactly when every condition of the ceremony holds: the challenge was
  issued to this user for authentication, has not expired and was not used; the credential is the
  user's and its MFA method active and not locked; the client data is JSON that names this type of
  ceremony, this challenge and the expected origin; the authenticator data is of the expected
  relying party with the user present; the signature over the authenticator data and the hash of
  the client data verifies under the stored public key; and the counter has advanced, if the
  credential counts.
\<close>

theorem webauthn_login_iff:
  "accepted (fst (verify_webauthn (\<lambda>cmd key. verify_assertion cr (as_credential cmd) (as_client_data cmd)
       (as_authenticator_data cmd) (as_signature cmd) key (as_challenge cmd) origin rp_id) now cmd w)) \<longleftrightarrow>
     login_inputs cmd \<and>
     (\<exists>h. find_by_challenge (wo_challenges w) (as_challenge cmd) = Some h \<and> wh_user h = as_user cmd \<and>
       wh_ceremony h = Authentication \<and> now \<le> wh_expires_at h \<and> \<not> wh_used h) \<and>
     (\<exists>c m es key. find_by_credential_id (wo_credentials w) (as_credential cmd) = Some c \<and>
       wc_user c = as_user cmd \<and> methods_find_by_id (wo_mfa w) (wc_method c) = Some m \<and>
       mm_status m = MfaActive \<and> \<not> method_locked_at now m \<and>
       json_parse (client_data_text cr (as_client_data cmd)) = Some (JObject es) \<and>
       map_of es (text_of ''type'') = Some (JString (text_of ''webauthn.get'')) \<and>
       map_of es (text_of ''challenge'') = Some (JString (text_of (as_challenge cmd))) \<and>
       map_of es (text_of ''origin'') = Some (JString (text_of origin)) \<and>
       (let auth = to_bytes cr (as_authenticator_data cmd)
        in 37 \<le> length auth \<and> take 32 auth = cr_sha256 cr (text_encode (text_of rp_id)) \<and>
           flag_set 0 (auth ! 32) \<and> import_public_key cr (wc_public_key c) = Some key \<and>
           cr_verify cr (auth @ cr_sha256 cr (client_data_bytes cr (as_client_data cmd))) key
             (to_bytes cr (as_signature cmd)) = Some True \<and>
           (wc_sign_counter c = 0 \<or> wc_sign_counter c < from_bytes (take 4 (drop 33 auth)))))"
  unfolding verify_webauthn_accepts load_credential_Inr verify_assertion_ok check_client_data_ok Let_def
  by (intro conj_cong refl) (fastforce simp: ex_simps)

section \<open>A challenge is claimed once\<close>

fun call_challenge :: "webauthn_call \<Rightarrow> string option" where
  "call_challenge (RegisterWebAuthn _ _ cmd) = Some (rg_challenge cmd)"
| "call_challenge (AssertWebAuthn cmd) = Some (as_challenge cmd)"
| "call_challenge _ = None"

lemma register_challenges:
  "wo_challenges (snd (register_webauthn verify now fm fc cmd w)) = wo_challenges w \<or>
     (\<exists>c. find_by_challenge (wo_challenges w) (rg_challenge cmd) = Some c \<and>
       wo_challenges (snd (register_webauthn verify now fm fc cmd w)) =
         map_set (rg_challenge cmd) (c\<lparr>wh_used := True\<rparr>) (wo_challenges w))"
  by (auto simp: register_webauthn_unfold Let_def claim_challenge_Inr split: prod.split sum.split option.split)

lemma verify_challenges:
  "wo_challenges (snd (verify_webauthn verify now cmd w)) = wo_challenges w \<or>
     (\<exists>c. find_by_challenge (wo_challenges w) (as_challenge cmd) = Some c \<and>
       wo_challenges (snd (verify_webauthn verify now cmd w)) =
         map_set (as_challenge cmd) (c\<lparr>wh_used := True\<rparr>) (wo_challenges w))"
  by (auto simp: verify_webauthn_unfold Let_def claim_challenge_Inr split: prod.split sum.split)

lemma spent_kept:
  assumes "challenge_spent challenge w" "fresh_challenge w call"
  shows "challenge_spent challenge (webauthn_run d now call w)"
proof (cases call)
  case (IssueWebAuthn ceremony fresh random user)
  then show ?thesis using assms
    by (auto simp: challenge_spent_def issue_webauthn_challenge_def Let_def challenges_save_def
        webauthn_challenge_create_def find_by_challenge_def)
next
  case (RegisterWebAuthn fm fc cmd)
  then show ?thesis using assms(1) register_challenges [of "wd_attest d" now fm fc cmd w]
    by (auto simp: challenge_spent_def find_by_challenge_def)
next
  case (AssertWebAuthn cmd)
  then show ?thesis using assms(1) verify_challenges [of "wd_assert d" now cmd w]
    by (auto simp: challenge_spent_def find_by_challenge_def)
qed (use assms(1) in \<open>simp add: challenge_spent_def\<close>)

lemma spent_steps:
  "webauthn_steps d w w' \<Longrightarrow> challenge_spent challenge w \<Longrightarrow> challenge_spent challenge w'"
  by (induction rule: rtranclp_induct) (auto elim!: webauthn_step.cases intro: spent_kept)

lemma spent_challenge_refused:
  assumes "challenge_spent challenge w"
  shows "as_challenge cmd = challenge \<Longrightarrow>
      verify_webauthn verify now cmd w = (Some (Inl (ValidationError [])), w)"
    and "rg_challenge rcmd = challenge \<Longrightarrow>
      register_webauthn attest now fm fc rcmd w = (Some (Inl (ValidationError [])), w)"
  using claim_spent [OF assms]
  by (auto simp: verify_webauthn_unfold register_webauthn_unfold)

lemma changed_spent:
  assumes "call_challenge call = Some challenge" "webauthn_run d now call w \<noteq> w"
  shows "challenge_spent challenge (webauthn_run d now call w)"
proof (cases call)
  case (RegisterWebAuthn fm fc cmd)
  then have "find_by_challenge (wo_challenges (webauthn_run d now call w)) challenge =
      map_option (\<lambda>c. c\<lparr>wh_used := True\<rparr>) (find_by_challenge (wo_challenges w) challenge)"
    "find_by_challenge (wo_challenges w) challenge \<noteq> None"
    using assms by (auto simp: register_webauthn_unfold Let_def claim_challenge_Inr find_by_challenge_def
        split: prod.splits sum.splits option.splits if_splits)
  then show ?thesis by (auto simp: challenge_spent_def)
next
  case (AssertWebAuthn cmd)
  then have "find_by_challenge (wo_challenges (webauthn_run d now call w)) challenge =
      map_option (\<lambda>c. c\<lparr>wh_used := True\<rparr>) (find_by_challenge (wo_challenges w) challenge)"
    "find_by_challenge (wo_challenges w) challenge \<noteq> None"
    using assms by (auto simp: verify_webauthn_unfold Let_def claim_challenge_Inr find_by_challenge_def
        split: prod.splits sum.splits option.splits if_splits)
  then show ?thesis by (auto simp: challenge_spent_def)
qed (use assms in auto)

text \<open>
  C24: a WebAuthn challenge is good for one ceremony: once a registration or a login has changed
  anything (an accepted ceremony, and also one whose verification failed), every later ceremony of
  either kind that presents the same challenge is refused and changes nothing, whatever calls
  were made in between.
\<close>

theorem webauthn_challenge_single_use:
  assumes "call_challenge call = Some challenge" "webauthn_run d t1 call w \<noteq> w"
    and "webauthn_steps d (webauthn_run d t1 call w) w2"
  shows "(as_challenge cmd = challenge \<longrightarrow>
      verify_webauthn verify t2 cmd w2 = (Some (Inl (ValidationError [])), w2)) \<and>
    (rg_challenge rcmd = challenge \<longrightarrow>
      register_webauthn attest t2 fm fc rcmd w2 = (Some (Inl (ValidationError [])), w2))"
  using spent_challenge_refused [OF spent_steps [OF assms(3) changed_spent [OF assms(1,2)]]] by blast

lemma accepted_changes: "accepted (fst (verify_webauthn verify now cmd w)) \<Longrightarrow> snd (verify_webauthn verify now cmd w) \<noteq> w"
proof
  assume "accepted (fst (verify_webauthn verify now cmd w))"
    and same: "snd (verify_webauthn verify now cmd w) = w"
  then obtain c m where "verify_webauthn verify now cmd w = (Some (Inr (c, m)), w)"
    by (auto simp: accepted_def prod_eq_iff)
  then obtain s c0 m0 where s: "claim_challenge Authentication now (as_user cmd) (as_challenge cmd)
      (wo_challenges w) (wo_challenges w) = (Inr (), s)"
    "finish_assertion verify now cmd c0 m0 (w\<lparr>wo_challenges := s\<rparr>) = (Some (Inr (c, m)), w)"
    unfolding verify_webauthn_Inr by blast
  from s(1) obtain h where h: "find_by_challenge (wo_challenges w) (as_challenge cmd) = Some h" "\<not> wh_used h"
    "s = map_set (as_challenge cmd) (h\<lparr>wh_used := True\<rparr>) (wo_challenges w)"
    unfolding claim_challenge_Inr by blast
  from h(3) have "find_by_challenge s (as_challenge cmd) = Some (h\<lparr>wh_used := True\<rparr>)"
    by (simp add: find_by_challenge_def)
  moreover have "s = wo_challenges w"
    using s(2) finish_assertion_challenges [of verify now cmd c0 m0 "w\<lparr>wo_challenges := s\<rparr>"] by simp
  ultimately have "h = h\<lparr>wh_used := True\<rparr>" using h(1) by simp
  then have "wh_used h = wh_used (h\<lparr>wh_used := True\<rparr>)" by (rule arg_cong)
  then show False using h(2) by simp
qed

lemma register_webauthn_Inr:
  "register_webauthn verify now fm fc cmd w = (Some (Inr (m, c)), w') \<longleftrightarrow>
     registration_inputs cmd \<and>
     (\<exists>s v. claim_challenge Registration now (rg_user cmd) (rg_challenge cmd)
         (wo_challenges w) (wo_challenges w) = (Inr (), s) \<and>
       verify (rg_client_data cmd) (rg_attestation cmd) (rg_challenge cmd) = Some (Inr v) \<and>
       find_by_credential_id (wo_credentials w) (va_credential_id v) = None \<and>
       m = create_active fm (rg_user cmd) Webauthn now \<and>
       c = credential_create fc (va_credential_id v) (rg_user cmd) (mm_id m) (va_public_key v)
         (Some (va_sign_counter v)) (rg_transports cmd) (va_attestation_type v) (Some (va_aaguid v))
         (rg_device cmd) now \<and>
       w' = w\<lparr>wo_challenges := s, wo_mfa := methods_save m (wo_mfa w),
              wo_credentials := credentials_save c (wo_credentials w)\<rparr>)"
  by (auto simp: register_webauthn_unfold Let_def split: prod.split sum.split option.split)

lemma verify_webauthn_credential:
  assumes "verify_webauthn verify now cmd w = (Some (Inr (c', m')), w')"
  shows "\<exists>c (v :: verified_assertion). find_by_credential_id (wo_credentials w) (as_credential cmd) = Some c \<and>
    (wc_sign_counter c = 0 \<or> wc_sign_counter c < vs_sign_counter v) \<and>
    c' = update_sign_counter (vs_sign_counter v) now c \<and>
    wo_credentials w' = credentials_save c' (wo_credentials w)"
proof -
  obtain s c m where "load_credential now cmd w = Inr (c, m)"
    "finish_assertion verify now cmd c m (w\<lparr>wo_challenges := s\<rparr>) = (Some (Inr (c', m')), w')"
    using assms unfolding verify_webauthn_Inr by blast
  then show ?thesis unfolding load_credential_Inr finish_assertion_Inr by auto
qed

section \<open>The signature counter\<close>

definition credentials_ok :: "webauthn_world \<Rightarrow> bool" where
  "credentials_ok w \<longleftrightarrow> list_all (\<lambda>(k, c). wc_credential_id c = k) (wo_credentials w)"

lemma credentials_ok_id:
  "credentials_ok w \<Longrightarrow> find_by_credential_id (wo_credentials w) i = Some c \<Longrightarrow> wc_credential_id c = i"
  by (auto simp: credentials_ok_def find_by_credential_id_def list_all_iff dest: map_of_SomeD)

text \<open>A call leaves the credentials as they are, adds a new one, or saves one with a greater counter.\<close>

definition counter_move :: "webauthn_world \<Rightarrow> webauthn_world \<Rightarrow> bool" where
  "counter_move w w' \<longleftrightarrow>
     wo_credentials w' = wo_credentials w \<or>
     (\<exists>i c'. wo_credentials w' = map_set i c' (wo_credentials w) \<and> wc_credential_id c' = i \<and>
       (case find_by_credential_id (wo_credentials w) i of
          None \<Rightarrow> True
        | Some c \<Rightarrow> wc_sign_counter c = 0 \<or> wc_sign_counter c < wc_sign_counter c'))"

lemma counter_move_same: "wo_credentials w' = wo_credentials w \<Longrightarrow> counter_move w w'"
  by (simp add: counter_move_def)

lemma counter_move_save:
  assumes "wo_credentials w' = credentials_save c' (wo_credentials w)"
    and "\<And>c. find_by_credential_id (wo_credentials w) (wc_credential_id c') = Some c \<Longrightarrow>
      wc_sign_counter c = 0 \<or> wc_sign_counter c < wc_sign_counter c'"
  shows "counter_move w w'"
  using assms by (auto simp: counter_move_def credentials_save_def split: option.split
      intro!: exI [of _ "wc_credential_id c'"])

lemma credential_create_id [simp]:
  "wc_credential_id (credential_create fresh i user m key n ts a g dev now) = i"
  by (simp add: credential_create_def)

lemma finish_assertion_credentials:
  "mm_status m = MfaActive \<Longrightarrow> \<not> accepted (fst (finish_assertion verify now cmd c m w)) \<Longrightarrow>
     wo_credentials (snd (finish_assertion verify now cmd c m w)) = wo_credentials w"
  by (auto simp: finish_assertion_def accepted_def failed_attempt_def record_use_def Let_def
      split: option.splits sum.splits if_splits)

lemma verify_webauthn_refused:
  assumes "\<not> accepted (fst (verify_webauthn verify now cmd w))"
  shows "wo_credentials (snd (verify_webauthn verify now cmd w)) = wo_credentials w"
proof (cases "claim_challenge Authentication now (as_user cmd) (as_challenge cmd)
    (wo_challenges w) (wo_challenges w)")
  case (Pair r s)
  show ?thesis
  proof (cases "load_credential now cmd w")
    case (Inl e)
    then show ?thesis using Pair by (cases r) (simp_all add: verify_webauthn_unfold)
  next
    case (Inr p)
    obtain c m where p: "load_credential now cmd w = Inr (c, m)" using Inr by (cases p) simp
    then have "mm_status m = MfaActive" by (simp add: load_credential_Inr)
    from finish_assertion_credentials [OF this, of verify now cmd c "w\<lparr>wo_challenges := s\<rparr>"] show ?thesis
      using assms Pair p by (cases r) (auto simp: verify_webauthn_unfold split: if_splits)
  qed
qed

lemma webauthn_run_counter:
  assumes "credentials_ok w"
  shows "counter_move w (webauthn_run d now call w)"
proof (cases call)
  case (IssueWebAuthn ceremony fresh random user)
  then show ?thesis by (intro counter_move_same) (simp add: issue_webauthn_challenge_def Let_def)
next
  case (RegisterWebAuthn fm fc cmd)
  show ?thesis
  proof (cases "accepted (fst (register_webauthn (wd_attest d) now fm fc cmd w))")
    case True
    then obtain m c w' where r: "register_webauthn (wd_attest d) now fm fc cmd w = (Some (Inr (m, c)), w')"
      by (auto simp: accepted_def prod_eq_iff)
    then have "find_by_credential_id (wo_credentials w) (wc_credential_id c) = None"
      "wo_credentials w' = credentials_save c (wo_credentials w)"
      by (auto simp: register_webauthn_Inr)
    then show ?thesis using RegisterWebAuthn r by (intro counter_move_save [of _ c]) simp_all
  next
    case False
    then show ?thesis using RegisterWebAuthn
      by (intro counter_move_same)
        (auto simp: accepted_def register_webauthn_unfold Let_def
          split: prod.splits sum.splits option.splits if_splits)
  qed
next
  case (AssertWebAuthn cmd)
  show ?thesis
  proof (cases "accepted (fst (verify_webauthn (wd_assert d) now cmd w))")
    case False
    then show ?thesis using AssertWebAuthn by (intro counter_move_same) (simp add: verify_webauthn_refused)
  next
    case True
    then obtain c' m' w' where ok: "verify_webauthn (wd_assert d) now cmd w = (Some (Inr (c', m')), w')"
      by (auto simp: accepted_def prod_eq_iff)
    then obtain c and v :: verified_assertion where c:
      "find_by_credential_id (wo_credentials w) (as_credential cmd) = Some c"
      "wc_sign_counter c = 0 \<or> wc_sign_counter c < vs_sign_counter v"
      "c' = update_sign_counter (vs_sign_counter v) now c"
      "wo_credentials w' = credentials_save c' (wo_credentials w)"
      using verify_webauthn_credential by blast
    have "wc_credential_id c' = as_credential cmd"
      using c(3) credentials_ok_id [OF assms c(1)] by (simp add: update_sign_counter_def)
    with c ok AssertWebAuthn show ?thesis
      by (intro counter_move_save [of _ c']) (auto simp: update_sign_counter_def)
  qed
qed (simp add: counter_move_def)

lemma credentials_ok_move: "credentials_ok w \<Longrightarrow> counter_move w w' \<Longrightarrow> credentials_ok w'"
  by (auto simp: counter_move_def credentials_ok_def list_all_map_set)

definition counter_at_least :: "string \<Rightarrow> nat \<Rightarrow> webauthn_world \<Rightarrow> bool" where
  "counter_at_least i n w \<longleftrightarrow>
     (\<exists>c. find_by_credential_id (wo_credentials w) i = Some c \<and> n \<le> wc_sign_counter c)"

lemma counter_at_least_move:
  "counter_at_least i n w \<Longrightarrow> counter_move w w' \<Longrightarrow> n > 0 \<Longrightarrow> counter_at_least i n w'"
  by (fastforce simp: counter_at_least_def counter_move_def find_by_credential_id_def split: option.splits)

lemma counter_at_least_steps:
  assumes "webauthn_steps d w w'" "credentials_ok w" "counter_at_least i n w" "n > 0"
  shows "credentials_ok w' \<and> counter_at_least i n w'"
  using assms
proof (induction rule: rtranclp_induct)
  case (step w1 w2)
  then show ?case
    by (auto elim!: webauthn_step.cases
        intro: credentials_ok_move webauthn_run_counter counter_at_least_move)
qed simp

lemma clone_refused:
  assumes "load_credential now cmd w = Inr (c, m)" "verify cmd (wc_public_key c) = Some (Inr v)"
    and "wc_sign_counter c > 0" "vs_sign_counter v \<le> wc_sign_counter c"
    and "snd (verify_webauthn verify now cmd w) \<noteq> w"
  shows "\<not> accepted (fst (verify_webauthn verify now cmd w)) \<and>
    wo_credentials (snd (verify_webauthn verify now cmd w)) = wo_credentials w \<and>
    wo_events (snd (verify_webauthn verify now cmd w)) = wo_events w @
      [\<lparr>cs_credential_id = wc_credential_id c, cs_user = as_user cmd,
        cs_previous = wc_sign_counter c, cs_presented = vs_sign_counter v\<rparr>] \<and>
    wo_mfa (snd (verify_webauthn verify now cmd w)) = methods_save (method_failed_attempt now m) (wo_mfa w)"
proof -
  obtain s where s: "login_inputs cmd" "claim_challenge Authentication now (as_user cmd) (as_challenge cmd)
      (wo_challenges w) (wo_challenges w) = (Inr (), s)"
    using assms(5) by (auto simp: verify_webauthn_unfold split: prod.splits sum.splits if_splits)
  with assms(1-4) show ?thesis
    by (simp add: verify_webauthn_unfold finish_assertion_def failed_attempt_def accepted_def)
qed

text \<open>
  the signature counter of a credential protects against a clone: of two accepted logins with
  one credential, any calls in between, the later presents a strictly greater counter, unless
  the authenticator does not count (its counter was 0). A verified assertion that does not
  advance a counting credential is refused, reported in a \<open>WebAuthnCloneSuspected\<close> event with both
  counters, counted as a failed attempt of the method, and leaves every credential as it was.
\<close>

theorem sign_counter_detects_clone:
  assumes "credentials_ok w"
    and "verify_webauthn (wd_assert d) t1 cmd w = (Some (Inr (c1, m1)), w1)"
    and "webauthn_steps d w1 w2" and "as_credential cmd2 = as_credential cmd"
  shows "(verify_webauthn (wd_assert d) t2 cmd2 w2 = (Some (Inr (c2, m2)), w3) \<longrightarrow>
      wc_sign_counter c1 = 0 \<or> wc_sign_counter c1 < wc_sign_counter c2) \<and>
    (\<forall>c m v. load_credential t2 cmd2 w2 = Inr (c, m) \<longrightarrow> wd_assert d cmd2 (wc_public_key c) = Some (Inr v) \<longrightarrow>
      wc_sign_counter c1 > 0 \<longrightarrow> vs_sign_counter v \<le> wc_sign_counter c1 \<longrightarrow>
      snd (verify_webauthn (wd_assert d) t2 cmd2 w2) \<noteq> w2 \<longrightarrow>
      \<not> accepted (fst (verify_webauthn (wd_assert d) t2 cmd2 w2)) \<and>
      wo_credentials (snd (verify_webauthn (wd_assert d) t2 cmd2 w2)) = wo_credentials w2 \<and>
      wo_events (snd (verify_webauthn (wd_assert d) t2 cmd2 w2)) = wo_events w2 @
        [\<lparr>cs_credential_id = as_credential cmd, cs_user = as_user cmd2,
          cs_previous = wc_sign_counter c, cs_presented = vs_sign_counter v\<rparr>] \<and>
      wo_mfa (snd (verify_webauthn (wd_assert d) t2 cmd2 w2)) =
        methods_save (method_failed_attempt t2 m) (wo_mfa w2))"
proof -
  let ?i = "as_credential cmd" and ?n = "wc_sign_counter c1"
  from verify_webauthn_credential [OF assms(2)] obtain c and v :: verified_assertion where c:
    "find_by_credential_id (wo_credentials w) ?i = Some c"
    "c1 = update_sign_counter (vs_sign_counter v) t1 c" "wo_credentials w1 = credentials_save c1 (wo_credentials w)"
    by blast
  have id: "wc_credential_id c1 = ?i"
    using c(2) credentials_ok_id [OF assms(1) c(1)] by (simp add: update_sign_counter_def)
  have ok1: "credentials_ok w1"
    using assms(1) c(3) by (simp add: credentials_ok_def credentials_save_def list_all_map_set)
  have "counter_at_least ?i ?n w1"
    using c(3) id by (simp add: counter_at_least_def credentials_save_def find_by_credential_id_def)
  then have later: "credentials_ok w2" "counter_at_least ?i ?n w2" if "?n > 0"
    using counter_at_least_steps [OF assms(3) ok1] that by simp_all
  show ?thesis
  proof (rule conjI)
    show "verify_webauthn (wd_assert d) t2 cmd2 w2 = (Some (Inr (c2, m2)), w3) \<longrightarrow>
        ?n = 0 \<or> ?n < wc_sign_counter c2"
    proof (intro impI disjCI)
      assume h: "verify_webauthn (wd_assert d) t2 cmd2 w2 = (Some (Inr (c2, m2)), w3)" "\<not> ?n < wc_sign_counter c2"
      obtain c' and v' :: verified_assertion where "find_by_credential_id (wo_credentials w2) ?i = Some c'"
        "wc_sign_counter c' = 0 \<or> wc_sign_counter c' < vs_sign_counter v'"
        "c2 = update_sign_counter (vs_sign_counter v') t2 c'"
        using verify_webauthn_credential [OF h(1)] assms(4) by auto
      with h(2) later(2) show "?n = 0"
        by (cases "?n = 0") (auto simp: counter_at_least_def update_sign_counter_def)
    qed
  next
    have "?n \<le> wc_sign_counter c \<and> wc_credential_id c = ?i"
      if "load_credential t2 cmd2 w2 = Inr (c, m)" "?n > 0" for c m
      using later [OF that(2)] that(1) credentials_ok_id [OF later(1) [OF that(2)]] assms(4)
      by (auto simp: load_credential_Inr counter_at_least_def)
    note counters = this
    show "\<forall>c m v. load_credential t2 cmd2 w2 = Inr (c, m) \<longrightarrow>
      wd_assert d cmd2 (wc_public_key c) = Some (Inr v) \<longrightarrow> ?n > 0 \<longrightarrow> vs_sign_counter v \<le> ?n \<longrightarrow>
      snd (verify_webauthn (wd_assert d) t2 cmd2 w2) \<noteq> w2 \<longrightarrow>
      \<not> accepted (fst (verify_webauthn (wd_assert d) t2 cmd2 w2)) \<and>
      wo_credentials (snd (verify_webauthn (wd_assert d) t2 cmd2 w2)) = wo_credentials w2 \<and>
      wo_events (snd (verify_webauthn (wd_assert d) t2 cmd2 w2)) = wo_events w2 @
        [\<lparr>cs_credential_id = ?i, cs_user = as_user cmd2,
          cs_previous = wc_sign_counter c, cs_presented = vs_sign_counter v\<rparr>] \<and>
      wo_mfa (snd (verify_webauthn (wd_assert d) t2 cmd2 w2)) =
        methods_save (method_failed_attempt t2 m) (wo_mfa w2)"
    proof (intro allI impI)
      fix c m v
      assume h: "load_credential t2 cmd2 w2 = Inr (c, m)" "wd_assert d cmd2 (wc_public_key c) = Some (Inr v)"
        "?n > 0" "vs_sign_counter v \<le> ?n" "snd (verify_webauthn (wd_assert d) t2 cmd2 w2) \<noteq> w2"
      have "0 < wc_sign_counter c" "vs_sign_counter v \<le> wc_sign_counter c" "wc_credential_id c = ?i"
        using counters [OF h(1,3)] h(3,4) by simp_all
      from clone_refused [OF h(1,2) this(1,2) h(5)] this(3)
      show "\<not> accepted (fst (verify_webauthn (wd_assert d) t2 cmd2 w2)) \<and>
        wo_credentials (snd (verify_webauthn (wd_assert d) t2 cmd2 w2)) = wo_credentials w2 \<and>
        wo_events (snd (verify_webauthn (wd_assert d) t2 cmd2 w2)) = wo_events w2 @
          [\<lparr>cs_credential_id = ?i, cs_user = as_user cmd2,
            cs_previous = wc_sign_counter c, cs_presented = vs_sign_counter v\<rparr>] \<and>
        wo_mfa (snd (verify_webauthn (wd_assert d) t2 cmd2 w2)) =
          methods_save (method_failed_attempt t2 m) (wo_mfa w2)" by simp
    qed
  qed
qed

section \<open>Overlapping logins\<close>

text \<open>
  Two logins whose challenges are loaded before either is consumed, and whose credentials are loaded
  before either finishes. \<open>None\<close>: one of them ends before its last turn.
\<close>

definition assertion_race ::
  "assertion_verifier \<Rightarrow> int \<Rightarrow> assertion_command \<Rightarrow> int \<Rightarrow> assertion_command \<Rightarrow> webauthn_world
     \<Rightarrow> ((webauthn_credential \<times> mfa_method) result option \<times> (webauthn_credential \<times> mfa_method) result option
       \<times> webauthn_world) option" where
  "assertion_race verify t1 cmd1 t2 cmd2 w =
     (case claim_challenge Authentication t1 (as_user cmd1) (as_challenge cmd1) (wo_challenges w) (wo_challenges w) of
        (Inl _, _) \<Rightarrow> None
      | (Inr _, s1) \<Rightarrow>
          (case claim_challenge Authentication t2 (as_user cmd2) (as_challenge cmd2) (wo_challenges w) s1 of
             (Inl _, _) \<Rightarrow> None
           | (Inr _, s2) \<Rightarrow>
               (case (load_credential t1 cmd1 w, load_credential t2 cmd2 w) of
                  (Inr (c1, m1), Inr (c2, m2)) \<Rightarrow>
                    (let (r1, w1) = finish_assertion verify t1 cmd1 c1 m1 (w\<lparr>wo_challenges := s2\<rparr>);
                         (r2, w2) = finish_assertion verify t2 cmd2 c2 m2 w1
                     in Some (r1, r2, w2))
                | _ \<Rightarrow> None)))"

text \<open>
  consuming a challenge is one step of its store, so that two overlapping logins with one
  challenge never both get past it; the counter is read and written in different turns, so that
  two overlapping logins with two challenges are both accepted although they present the same
  counter, or a smaller one second, no clone is reported, and the later save decides the counter.
\<close>

theorem overlapping_logins:
  assumes "credentials_ok w"
  shows "(as_challenge cmd1 = as_challenge cmd2 \<longrightarrow> assertion_race verify t1 cmd1 t2 cmd2 w = None) \<and>
    (\<forall>c m v1 v2 r1 r2 w'. assertion_race verify t1 cmd1 t2 cmd2 w = Some (r1, r2, w') \<longrightarrow>
      load_credential t1 cmd1 w = Inr (c, m) \<longrightarrow> load_credential t2 cmd2 w = Inr (c, m) \<longrightarrow>
      verify cmd1 (wc_public_key c) = Some (Inr v1) \<longrightarrow> verify cmd2 (wc_public_key c) = Some (Inr v2) \<longrightarrow>
      wc_sign_counter c < vs_sign_counter v1 \<longrightarrow> wc_sign_counter c < vs_sign_counter v2 \<longrightarrow>
      accepted r1 \<and> accepted r2 \<and> wo_events w' = wo_events w \<and>
      map_option wc_sign_counter (find_by_credential_id (wo_credentials w') (as_credential cmd2)) =
        Some (vs_sign_counter v2))"
proof (intro conjI allI impI)
  assume same: "as_challenge cmd1 = as_challenge cmd2"
  show "assertion_race verify t1 cmd1 t2 cmd2 w = None"
  proof (cases "claim_challenge Authentication t1 (as_user cmd1) (as_challenge cmd1) (wo_challenges w) (wo_challenges w)")
    case (Pair r s)
    then have "claim_challenge Authentication t2 (as_user cmd2) (as_challenge cmd2) (wo_challenges w) s =
        (Inl (ValidationError []), s)" if "r = Inr ()"
      using that same
      by (auto simp: claim_challenge_Inr)
        (auto simp: claim_challenge_def challenges_consume_def Let_def split: option.split)
    then show ?thesis using Pair by (cases r) (simp_all add: assertion_race_def)
  qed
next
  fix c m v1 v2 r1 r2 w'
  assume race: "assertion_race verify t1 cmd1 t2 cmd2 w = Some (r1, r2, w')"
    and load: "load_credential t1 cmd1 w = Inr (c, m)" "load_credential t2 cmd2 w = Inr (c, m)"
    and v: "verify cmd1 (wc_public_key c) = Some (Inr v1)" "verify cmd2 (wc_public_key c) = Some (Inr v2)"
    and less: "wc_sign_counter c < vs_sign_counter v1" "wc_sign_counter c < vs_sign_counter v2"
  have "mm_status m = MfaActive" using load(1) by (simp add: load_credential_Inr)
  then obtain m1 m2 where use: "record_use t1 m = Some m1" "record_use t2 m = Some m2" by (simp add: record_use_def)
  have fin: "finish_assertion verify t cmd c m u = (Some (Inr (update_sign_counter (vs_sign_counter v) t c, m')),
      u\<lparr>wo_credentials := credentials_save (update_sign_counter (vs_sign_counter v) t c) (wo_credentials u),
        wo_mfa := methods_save m' (wo_mfa u)\<rparr>)"
    if "verify cmd (wc_public_key c) = Some (Inr v)" "wc_sign_counter c < vs_sign_counter v"
      "record_use t m = Some m'" for cmd t v m' u
    using that by (simp add: finish_assertion_def Let_def)
  have id: "wc_credential_id c = as_credential cmd2"
    using load(2) credentials_ok_id [OF assms] by (simp add: load_credential_Inr)
  show "accepted r1" "accepted r2" "wo_events w' = wo_events w"
    "map_option wc_sign_counter (find_by_credential_id (wo_credentials w') (as_credential cmd2)) =
      Some (vs_sign_counter v2)"
    using race id
    by (auto simp: assertion_race_def load fin [OF v(1) less(1) use(1)] fin [OF v(2) less(2) use(2)] accepted_def
        find_by_credential_id_def credentials_save_def update_sign_counter_def
        split: prod.splits sum.splits)
qed

section \<open>After a recovery\<close>

lemma credential_stays:
  assumes "webauthn_steps d w w'" "credentials_ok w" "find_by_credential_id (wo_credentials w) i \<noteq> None"
  shows "find_by_credential_id (wo_credentials w') i \<noteq> None"
proof -
  have "credentials_ok w' \<and> find_by_credential_id (wo_credentials w') i \<noteq> None"
    using assms
  proof (induction rule: rtranclp_induct)
    case (step w1 w2)
    then obtain now call where w2: "w2 = webauthn_run d now call w1" by (auto elim: webauthn_step.cases)
    have ok: "credentials_ok w1" "find_by_credential_id (wo_credentials w1) i \<noteq> None"
      using step.IH step.prems by blast+
    have move: "counter_move w1 w2" unfolding w2 by (rule webauthn_run_counter [OF ok(1)])
    have "find_by_credential_id (wo_credentials w2) i \<noteq> None"
      using ok(2) move by (auto simp: counter_move_def find_by_credential_id_def)
    then show ?case using credentials_ok_move [OF ok(1) move] by simp
  qed simp
  then show ?thesis by simp
qed

text \<open>
  a recovery ends every passkey of the user, and for good: no login with a credential whose
  method belonged to the user is accepted after it, but the credential itself stays stored, so
  that every later registration of the same authenticator, whatever happens in between, fails, with
  a conflict when its attestation is in order.
\<close>

theorem recovery_orphans_passkeys:
  assumes "credentials_ok w" "methods_ok (wo_mfa w)"
    and "recover_mfa_access can_recover revoke_all target actor reason (wo_mfa w) = (Inr r, mfa')"
    and "find_by_credential_id (wo_credentials w) i = Some c"
    and "methods_find_by_id (wo_mfa w) (wc_method c) = Some m" "mm_user m = target"
    and "webauthn_steps d (w\<lparr>wo_mfa := mfa'\<rparr>) w2"
  shows "(as_credential cmd = i \<longrightarrow> \<not> accepted (fst (verify_webauthn verify t1 cmd (w\<lparr>wo_mfa := mfa'\<rparr>)))) \<and>
    (attest (rg_client_data rcmd) (rg_attestation rcmd) (rg_challenge rcmd) = Some (Inr v) \<longrightarrow>
      va_credential_id v = i \<longrightarrow>
      fst (register_webauthn attest t2 fm fc rcmd w2) \<in>
        {Some (Inl (ValidationError [])), Some (Inl ConflictError)})"
proof (intro conjI impI)
  have del: "mw_methods mfa' = fold (\<lambda>m. map_delete (mm_id m)) (methods_by_user (wo_mfa w) target) (mw_methods (wo_mfa w))"
    using assms(3) by (auto simp: recover_mfa_access_def Let_def fold_delete_methods split: if_splits)
  have mid: "mm_id m = wc_method c"
    using methods_ok_id [OF assms(2)] assms(5) by (simp add: methods_find_by_id_def)
  have "m \<in> set (methods_by_user (wo_mfa w) target)"
    using assms(2,5,6) map_values_iff [of "mw_methods (wo_mfa w)" m]
    by (auto simp: methods_by_user_def methods_find_by_id_def methods_ok_def)
  then have "wc_method c \<in> mm_id ` set (methods_by_user (wo_mfa w) target)"
    unfolding mid [symmetric] by (rule imageI)
  then have gone: "methods_find_by_id mfa' (wc_method c) = None"
    by (simp add: methods_find_by_id_def del map_get_fold_delete)
  show "\<not> accepted (fst (verify_webauthn verify t1 cmd (w\<lparr>wo_mfa := mfa'\<rparr>)))" if "as_credential cmd = i"
    using that gone assms(4) by (auto simp: verify_webauthn_accepts load_credential_Inr)
  have stays: "find_by_credential_id (wo_credentials w2) i \<noteq> None"
    using credential_stays [OF assms(7)] assms(1,4) by (simp add: credentials_ok_def)
  show "fst (register_webauthn attest t2 fm fc rcmd w2) \<in>
      {Some (Inl (ValidationError [])), Some (Inl ConflictError)}"
    if "attest (rg_client_data rcmd) (rg_attestation rcmd) (rg_challenge rcmd) = Some (Inr v)" "va_credential_id v = i"
    using that stays
    by (auto simp: register_webauthn_unfold split: prod.split sum.split dest: claim_challenge_Inl)
qed

section \<open>Concrete runs\<close>

definition demo_passkey :: webauthn_credential where
  "demo_passkey = credential_create ''c1'' ''pk'' ''u'' ''m1'' ''key'' (Some 5) None [] None None 0"

definition demo_assertion :: "string \<Rightarrow> nat \<Rightarrow> assertion_command" where
  "demo_assertion challenge n = \<lparr>as_user = ''u'', as_credential = ''pk'', as_challenge = challenge,
     as_client_data = BytesInput [1], as_authenticator_data = BytesInput [n], as_signature = BytesInput [1]\<rparr>"

text \<open>A verifier that accepts, with the counter in the authenticator data.\<close>

definition demo_verifier :: assertion_verifier where
  "demo_verifier cmd key = Some (Inr \<lparr>vs_credential_id = as_credential cmd,
     vs_sign_counter = (case as_authenticator_data cmd of BytesInput bs \<Rightarrow> from_bytes bs | _ \<Rightarrow> 0),
     vs_user_present = True, vs_user_verified = True, vs_rp_id = [], vs_origin = []\<rparr>)"

definition demo_attester :: attestation_verifier where
  "demo_attester client_data object challenge = Some (Inr \<lparr>va_credential_id = ''pk'', va_public_key = ''key'',
     va_sign_counter = 5, va_aaguid = [], va_attestation_type = [], va_rp_id = [], va_origin = []\<rparr>)"

definition demo_webauthn_deps :: webauthn_deps where
  "demo_webauthn_deps = \<lparr>wd_attest = demo_attester, wd_assert = demo_verifier, wd_mfa = demo_deps, wd_ttl = 1000\<rparr>"

definition demo_webauthn :: webauthn_world where
  "demo_webauthn =
     \<lparr>wo_mfa = empty_mfa\<lparr>mw_methods := [(''m1'', create_active ''m1'' ''u'' Webauthn 0)]\<rparr>,
      wo_credentials = [(''pk'', demo_passkey)],
      wo_challenges = [(''a'', webauthn_challenge_create ''h1'' ''u'' ''a'' Authentication (Some 1000) 0),
        (''b'', webauthn_challenge_create ''h2'' ''u'' ''b'' Authentication (Some 1000) 0)],
      wo_events = []\<rparr>"

lemma demo_credentials_ok: "credentials_ok demo_webauthn"
  by (simp add: credentials_ok_def demo_webauthn_def demo_passkey_def)

definition demo_logged_in :: webauthn_world where
  "demo_logged_in = webauthn_run demo_webauthn_deps 10 (AssertWebAuthn (demo_assertion ''a'' 6)) demo_webauthn"

lemma demo_login:
  "accepted (fst (verify_webauthn demo_verifier 10 (demo_assertion ''a'' 6) demo_webauthn))"
  "accepted (fst (verify_webauthn demo_verifier 20 (demo_assertion ''b'' 7) demo_logged_in))"
proof -
  have "case fst (verify_webauthn demo_verifier 10 (demo_assertion ''a'' 6) demo_webauthn) of
      Some (Inr _) \<Rightarrow> True | _ \<Rightarrow> False" by code_simp
  then show "accepted (fst (verify_webauthn demo_verifier 10 (demo_assertion ''a'' 6) demo_webauthn))"
    by (auto simp: accepted_def split: option.splits sum.splits)
  have "case fst (verify_webauthn demo_verifier 20 (demo_assertion ''b'' 7) demo_logged_in) of
      Some (Inr _) \<Rightarrow> True | _ \<Rightarrow> False" by code_simp
  then show "accepted (fst (verify_webauthn demo_verifier 20 (demo_assertion ''b'' 7) demo_logged_in))"
    by (auto simp: accepted_def split: option.splits sum.splits)
qed

theorem webauthn_challenge_single_use_witness:
  "verify_webauthn demo_verifier 20 (demo_assertion ''a'' 7) demo_logged_in =
     (Some (Inl (ValidationError [])), demo_logged_in)"
proof -
  have changed: "webauthn_run demo_webauthn_deps 10 (AssertWebAuthn (demo_assertion ''a'' 6)) demo_webauthn \<noteq> demo_webauthn"
    using accepted_changes [OF demo_login(1)] by (simp add: demo_webauthn_deps_def)
  have run: "webauthn_steps demo_webauthn_deps
      (webauthn_run demo_webauthn_deps 10 (AssertWebAuthn (demo_assertion ''a'' 6)) demo_webauthn) demo_logged_in"
    by (simp add: demo_logged_in_def)
  have call: "call_challenge (AssertWebAuthn (demo_assertion ''a'' 6)) = Some ''a''" by (simp add: demo_assertion_def)
  from webauthn_challenge_single_use [OF call changed run, of "demo_assertion ''a'' 7" demo_verifier 20]
  show ?thesis by (simp add: demo_assertion_def)
qed

theorem sign_counter_detects_clone_witness:
  "\<exists>c1 c2. fst (verify_webauthn demo_verifier 10 (demo_assertion ''a'' 6) demo_webauthn) = Some (Inr c1) \<and>
     fst (verify_webauthn demo_verifier 20 (demo_assertion ''b'' 7) demo_logged_in) = Some (Inr c2) \<and>
     (wc_sign_counter (fst c1) = 0 \<or> wc_sign_counter (fst c1) < wc_sign_counter (fst c2))"
proof -
  have d: "wd_assert demo_webauthn_deps = demo_verifier" by (simp add: demo_webauthn_deps_def)
  obtain c1 m1 where one: "verify_webauthn (wd_assert demo_webauthn_deps) 10 (demo_assertion ''a'' 6) demo_webauthn =
      (Some (Inr (c1, m1)), demo_logged_in)"
    using demo_login(1) by (auto simp: accepted_def prod_eq_iff d demo_logged_in_def)
  obtain c2 m2 w3 where two: "verify_webauthn (wd_assert demo_webauthn_deps) 20 (demo_assertion ''b'' 7) demo_logged_in =
      (Some (Inr (c2, m2)), w3)"
    using demo_login(2) by (auto simp: accepted_def prod_eq_iff d)
  have run: "webauthn_steps demo_webauthn_deps demo_logged_in demo_logged_in" by simp
  have same: "as_credential (demo_assertion ''b'' 7) = as_credential (demo_assertion ''a'' 6)"
    by (simp add: demo_assertion_def)
  from sign_counter_detects_clone [OF demo_credentials_ok one run same] two
  have "wc_sign_counter c1 = 0 \<or> wc_sign_counter c1 < wc_sign_counter c2" by blast
  then show ?thesis using one two by (auto simp: d)
qed

theorem overlapping_logins_witness:
  "\<exists>r1 r2 w'. assertion_race demo_verifier 10 (demo_assertion ''a'' 6) 10 (demo_assertion ''b'' 6) demo_webauthn =
     Some (r1, r2, w') \<and> accepted r1 \<and> accepted r2 \<and> wo_events w' = []"
proof -
  have "case assertion_race demo_verifier 10 (demo_assertion ''a'' 6) 10 (demo_assertion ''b'' 6) demo_webauthn of
      None \<Rightarrow> False | Some _ \<Rightarrow> True" by code_simp
  then obtain r1 r2 w' where race: "assertion_race demo_verifier 10 (demo_assertion ''a'' 6) 10 (demo_assertion ''b'' 6)
      demo_webauthn = Some (r1, r2, w')" by (auto split: option.splits)
  have load: "load_credential 10 (demo_assertion x 6) demo_webauthn =
      Inr (demo_passkey, create_active ''m1'' ''u'' Webauthn 0)" for x
    by (simp add: load_credential_def demo_webauthn_def demo_assertion_def find_by_credential_id_def demo_passkey_def
        credential_create_def methods_find_by_id_def create_active_def method_locked_at_def)
  have verified: "demo_verifier (demo_assertion x 6) key = Some (Inr \<lparr>vs_credential_id = ''pk'', vs_sign_counter = 6,
      vs_user_present = True, vs_user_verified = True, vs_rp_id = [], vs_origin = []\<rparr>)" for x key
    by (simp add: demo_verifier_def demo_assertion_def from_bytes_def)
  have "accepted r1 \<and> accepted r2 \<and> wo_events w' = wo_events demo_webauthn"
    using overlapping_logins [OF demo_credentials_ok, of "demo_assertion ''a'' 6" "demo_assertion ''b'' 6" demo_verifier 10 10]
      race load verified by (simp add: demo_passkey_def credential_create_def)
  then show ?thesis using race by (auto simp: demo_webauthn_def)
qed

theorem recovery_orphans_passkeys_witness:
  "\<not> accepted (fst (verify_webauthn demo_verifier 10 (demo_assertion ''a'' 6) (demo_webauthn\<lparr>wo_mfa :=
     snd (recover_mfa_access (\<lambda>a. a = ''root'') (\<lambda>_. 0) ''u'' ''root'' ''lost'' (wo_mfa demo_webauthn))\<rparr>)))"
proof -
  let ?mfa = "snd (recover_mfa_access (\<lambda>a. a = ''root'') (\<lambda>_. 0) ''u'' ''root'' ''lost'' (wo_mfa demo_webauthn))"
  have ok: "methods_ok (wo_mfa demo_webauthn)"
    by (simp add: methods_ok_def demo_webauthn_def map_wf_def create_active_def)
  have recovered: "recover_mfa_access (\<lambda>a. a = ''root'') (\<lambda>_. 0) ''u'' ''root'' ''lost'' (wo_mfa demo_webauthn) =
      (Inr (length (methods_by_user (wo_mfa demo_webauthn) ''u''), 0), ?mfa)"
    by (simp add: recover_mfa_access_def Let_def)
  have stored: "find_by_credential_id (wo_credentials demo_webauthn) ''pk'' = Some demo_passkey"
    "methods_find_by_id (wo_mfa demo_webauthn) (wc_method demo_passkey) = Some (create_active ''m1'' ''u'' Webauthn 0)"
    "mm_user (create_active ''m1'' ''u'' Webauthn 0) = ''u''"
    by (simp_all add: demo_webauthn_def find_by_credential_id_def methods_find_by_id_def demo_passkey_def
        credential_create_def create_active_def)
  have "webauthn_steps demo_webauthn_deps (demo_webauthn\<lparr>wo_mfa := ?mfa\<rparr>) (demo_webauthn\<lparr>wo_mfa := ?mfa\<rparr>)" by simp
  from recovery_orphans_passkeys [OF demo_credentials_ok ok recovered stored this, of "demo_assertion ''a'' 6"]
  show ?thesis by (simp add: demo_assertion_def)
qed

end
