(* ===== verification/HttpErrors.thy ===== *)
theory HttpErrors
  imports Prelude
begin

text \<open>
  The error contract of the HTTP API, \<open>apps/api/src/http\<close>: the registry of public error codes, the
  one response shape, the translation of domain, validation and framework failures into it, the
  check that a route declares its validators, and the HTML seam. A failure is a value of
  \<open>thrown\<close>; a response is a \<open>reply\<close>. Log lines are left out.
\<close>

section \<open>Requests and replies\<close>

text \<open>A header of an incoming request is a string or, repeated, a list of strings.\<close>

datatype header_value = HText string | HList "string list"

record http_request =
  rq_method :: string
  rq_url :: string
  rq_headers :: "(string, header_value) js_map"
  rq_ip :: string
  rq_protocol :: string
  rq_id :: string

record error_body =
  eb_code :: string
  eb_message :: string
  eb_request_id :: string
  eb_details :: "(string \<times> string list) list option"

record 'b reply =
  rp_status :: nat
  rp_headers :: "(string, string) js_map"
  rp_body :: 'b

text \<open>\<open>request.headers[name]\<close> read as a string; the header of the second form is not one.\<close>

definition header_text :: "http_request \<Rightarrow> string \<Rightarrow> string option" where
  "header_text r name =
     (case map_get (rq_headers r) name of Some (HText s) \<Rightarrow> Some s | _ \<Rightarrow> None)"

section \<open>The registry\<close>

definition api_error_codes :: "(string \<times> nat) list" where
  "api_error_codes =
     [(''VALIDATION_ERROR'', 400), (''INVALID_EVIDENCE'', 400), (''NOT_FOUND'', 404),
      (''CONFLICT'', 409), (''PAYLOAD_TOO_LARGE'', 413), (''INVALID_STATUS_TRANSITION'', 409),
      (''REVIEW_CLAIM_CONFLICT'', 409), (''AUDIT_CHAIN_CONFLICT'', 409),
      (''AUTHENTICATION_FAILED'', 401), (''AUTHORIZATION_FAILED'', 403), (''FORBIDDEN'', 403),
      (''REVIEW_DECISION_NOT_PERMITTED'', 403), (''SYSTEM_ROLE_IMMUTABLE'', 403),
      (''AUDIT_ACCESS_DENIED'', 403), (''AUDIT_QUEUE_FULL'', 429), (''SIGNING_FAILED'', 502),
      (''ANCHOR_FAILED'', 502), (''ANCHOR_BALANCE_UNAVAILABLE'', 503),
      (''AUDIT_READ_NOT_RECORDED'', 503), (''INTERNAL_ERROR'', 500), (''NOT_IMPLEMENTED'', 501),
      (''RATE_LIMITED'', 429)]"

definition is_api_error_code :: "string \<Rightarrow> bool" where
  "is_api_error_code code \<longleftrightarrow> code \<in> set (map fst api_error_codes)"

text \<open>\<open>API_ERROR_CODES[code].status\<close>; the argument's type is a key of the table.\<close>

definition api_error_status :: "string \<Rightarrow> nat" where
  "api_error_status code = (case map_of api_error_codes code of Some n \<Rightarrow> n | None \<Rightarrow> 500)"

section \<open>Failures and their responses\<close>

record validation_issue =
  vi_instance_path :: "string option"
  vi_data_path :: "string option"
  vi_message :: "string option"
  vi_missing_property :: "string option"

text \<open>
  What reaches the error handler: a \<open>DomainError\<close> with its code, message and, for a
  \<open>ValidationError\<close>, field errors; a \<open>ZodError\<close> with the path and message of each issue; or any
  other \<open>Error\<close>, with the properties Fastify sets on its own errors when it has them.
\<close>

datatype thrown =
    ThrownDomain string string "(string \<times> string list) list option"
  | ThrownZod "(string list \<times> string) list"
  | ThrownOther "nat option" "validation_issue list option" "string option" string

definition send_api_error ::
  "string \<Rightarrow> string \<Rightarrow> string \<Rightarrow> (string \<times> string list) list option \<Rightarrow> error_body reply" where
  "send_api_error request_id code message details =
     \<lparr>rp_status = api_error_status code, rp_headers = [],
      rp_body = \<lparr>eb_code = code, eb_message = message, eb_request_id = request_id,
                 eb_details = details\<rparr>\<rparr>"

definition send_unexpected_error :: "string \<Rightarrow> error_body reply" where
  "send_unexpected_error request_id =
     send_api_error request_id ''INTERNAL_ERROR'' ''An unexpected error occurred.'' None"

text \<open>\<open>(fields[path] ??= []).push(message)\<close>.\<close>

definition push_field :: "string \<Rightarrow> string \<Rightarrow> (string, string list) js_map \<Rightarrow> (string, string list) js_map" where
  "push_field path message acc = map_set path (or_default (map_get acc path) [] @ [message]) acc"

definition issue_path :: "string option \<Rightarrow> validation_issue \<Rightarrow> string" where
  "issue_path context i =
     (let property = (case vi_missing_property i of Some p \<Rightarrow> ''.'' @ p | None \<Rightarrow> '''')
      in or_default context ''request'' @
         (case vi_instance_path i of Some p \<Rightarrow> p | None \<Rightarrow> or_default (vi_data_path i) '''') @ property)"

definition validation_details :: "string option \<Rightarrow> validation_issue list \<Rightarrow> (string \<times> string list) list" where
  "validation_details context issues =
     fold (\<lambda>i acc. push_field (issue_path context i) (or_default (vi_message i) ''is invalid'') acc)
       issues []"

definition zod_details :: "(string list \<times> string) list \<Rightarrow> (string \<times> string list) list" where
  "zod_details issues =
     fold (\<lambda>(path, message) acc.
             push_field (if length path > 0 then js_join ''.'' path else ''request'') message acc)
       issues []"

definition framework_status_codes :: "(nat \<times> string \<times> string) list" where
  "framework_status_codes =
     [(401, ''AUTHENTICATION_FAILED'', ''Authentication failed.''),
      (403, ''FORBIDDEN'', ''Permission denied.''),
      (409, ''CONFLICT'', ''Request conflicts with the current resource state.''),
      (413, ''PAYLOAD_TOO_LARGE'', ''Request body is too large.''),
      (429, ''RATE_LIMITED'', ''Too many requests.'')]"

text \<open>\<open>sendDomainError\<close>, and the domain branch of \<open>handleApiError\<close>.\<close>

definition send_domain_error ::
  "string \<Rightarrow> string \<Rightarrow> string \<Rightarrow> (string \<times> string list) list option \<Rightarrow> error_body reply" where
  "send_domain_error request_id code message field_errors =
     (if \<not> is_api_error_code code then send_unexpected_error request_id
      else let details = (case field_errors of
                 Some fs \<Rightarrow> (if length fs > 0 then Some fs else None)
               | None \<Rightarrow> None)
           in send_api_error request_id code message details)"

definition handle_api_error :: "string \<Rightarrow> thrown \<Rightarrow> error_body reply" where
  "handle_api_error request_id e =
     (case e of
        ThrownDomain code message field_errors \<Rightarrow> send_domain_error request_id code message field_errors
      | ThrownZod issues \<Rightarrow>
          send_api_error request_id ''VALIDATION_ERROR'' ''Request validation failed.''
            (Some (zod_details issues))
      | ThrownOther status validation context message \<Rightarrow>
          (case validation of
             Some issues \<Rightarrow>
               send_api_error request_id ''VALIDATION_ERROR'' ''Request validation failed.''
                 (Some (validation_details context issues))
           | None \<Rightarrow>
               (if status = Some 404
                then send_api_error request_id ''NOT_FOUND'' ''Route not found.'' None
                else if status = Some 400
                then send_api_error request_id ''VALIDATION_ERROR'' ''Request could not be processed.'' None
                else case Option.bind status (map_of framework_status_codes) of
                  Some (code, text) \<Rightarrow> send_api_error request_id code text None
                | None \<Rightarrow> send_unexpected_error request_id)))"

definition send_error :: "string \<Rightarrow> thrown \<Rightarrow> error_body reply" where
  "send_error request_id e =
     (case e of
        ThrownDomain code message field_errors \<Rightarrow> send_domain_error request_id code message field_errors
      | _ \<Rightarrow> send_unexpected_error request_id)"

text \<open>
  What the routes of the API throw of the domain errors of this development (\<open>Prelude\<close>), with the
  message as written by the error.
\<close>

fun thrown_of :: "string \<Rightarrow> domain_error \<Rightarrow> thrown" where
  "thrown_of message (ValidationError fs) = ThrownDomain ''VALIDATION_ERROR'' message (Some fs)"
| "thrown_of message e = ThrownDomain (error_code e) message None"

section \<open>Route validation\<close>

record route_shape =
  rt_methods :: "string list"
  rt_url :: string
  rt_body :: bool
  rt_params :: bool
  rt_querystring :: bool

definition body_schema_exemptions :: "string list" where
  "body_schema_exemptions =
     [''POST /verification/:requestId/evidence'', ''POST /verification/review-queue/claim'']"

definition ascii_upper :: "char \<Rightarrow> char" where
  "ascii_upper c =
     (let n = of_char c :: nat in if 97 \<le> n \<and> n \<le> 122 then char_of (n - 32) else c)"

text \<open>The list of missing schemas; the registration throws unless it is empty.\<close>

definition missing_route_schemas :: "route_shape \<Rightarrow> string list" where
  "missing_route_schemas route =
     (let methods = map (map ascii_upper) (rt_methods route);
          carries_body = list_ex (\<lambda>m. m \<in> {''POST'', ''PUT'', ''PATCH''}) methods \<and>
            \<not> list_ex (\<lambda>m. m @ '' '' @ rt_url route \<in> set body_schema_exemptions) methods
      in (if CHR '':'' \<in> set (rt_url route) \<and> \<not> rt_params route then [''params''] else []) @
         (if carries_body \<and> \<not> rt_body route then [''body''] else []) @
         (if ''GET'' \<in> set methods \<and> rt_url route = ''/admin/users/:userId/roles'' \<and>
             \<not> rt_querystring route then [''querystring''] else []))"

section \<open>HTML\<close>

definition html_escape_char :: "char \<Rightarrow> string" where
  "html_escape_char c =
     (if c = CHR ''&'' then ''&amp;'' else if c = CHR ''<'' then ''&lt;''
      else if c = CHR ''>'' then ''&gt;'' else if c = CHR 0x22 then ''&quot;''
      else if c = CHR 0x27 then ''&#39;'' else [c])"

definition escape_html :: "string \<Rightarrow> string" where
  "escape_html s = concat (map html_escape_char s)"

text \<open>\<open>s.replaceAll(p, r)\<close>: the occurrences from left to right that do not overlap.\<close>

function replace_all :: "string \<Rightarrow> string \<Rightarrow> string \<Rightarrow> string" where
  "replace_all p r s =
     (case s of
        [] \<Rightarrow> []
      | c # cs \<Rightarrow> (if p \<noteq> [] \<and> take (length p) s = p then r @ replace_all p r (drop (length p) s)
                  else c # replace_all p r cs))"
  by pat_completeness auto
termination
  by (relation "measure (\<lambda>(p, r, s). length s)") (auto simp: neq_Nil_conv)

declare replace_all.simps [simp del]

definition script_element :: "string \<Rightarrow> string \<Rightarrow> string" where
  "script_element nonce script =
     ''<script nonce='' @ [CHR 0x22] @ escape_html nonce @ [CHR 0x22] @ ''>'' @
     replace_all ''</script'' (''<'' @ [CHR 0x5C] @ ''/script'') script @ ''</script>'' @ [CHR 0x0A]"

definition render_html_document :: "string \<Rightarrow> string \<Rightarrow> string \<Rightarrow> string option \<Rightarrow> string" where
  "render_html_document title body nonce inline_script =
     (let script = (case inline_script of None \<Rightarrow> '''' | Some s \<Rightarrow> script_element nonce s)
      in js_join [CHR 0x0A]
        [''<!doctype html>'',
         ''<html lang='' @ [CHR 0x22] @ ''en'' @ [CHR 0x22] @ ''>'',
         ''<head>'',
         ''<meta charset='' @ [CHR 0x22] @ ''utf-8'' @ [CHR 0x22] @ ''>'',
         ''<meta name='' @ [CHR 0x22] @ ''viewport'' @ [CHR 0x22] @ '' content='' @ [CHR 0x22] @
           ''width=device-width, initial-scale=1'' @ [CHR 0x22] @ ''>'',
         ''<title>'' @ escape_html title @ ''</title>'',
         ''</head>'', ''<body>'', body, script, ''</body>'', ''</html>'', ''''])"

section \<open>What a response may say\<close>

lemma api_error_codes_distinct: "distinct (map fst api_error_codes)"
  by code_simp

lemma api_error_status_range:
  "is_api_error_code code \<Longrightarrow> 400 \<le> api_error_status code \<and> api_error_status code < 600"
proof -
  have "list_all (\<lambda>(c, n). 400 \<le> n \<and> n < 600) api_error_codes" by code_simp
  moreover assume "is_api_error_code code"
  then obtain n where "map_of api_error_codes code = Some n"
    by (metis is_api_error_code_def map_of_eq_None_iff not_Some_eq set_map)
  ultimately show ?thesis
    by (auto simp: api_error_status_def list_all_iff dest!: map_of_SomeD)
qed

text \<open>The statuses of the registry are the hints of the domain errors.\<close>

lemma api_status_is_hint:
  "is_api_error_code (error_code e) \<and> api_error_status (error_code e) = http_status_hint e"
  by (cases e) (simp_all add: is_api_error_code_def api_error_status_def api_error_codes_def)

definition public_messages :: "string list" where
  "public_messages =
     [''An unexpected error occurred.'', ''Request validation failed.'', ''Route not found.'',
      ''Request could not be processed.'', ''Authentication failed.'', ''Permission denied.'',
      ''Request conflicts with the current resource state.'', ''Request body is too large.'',
      ''Too many requests.'']"

lemma framework_response:
  assumes "Option.bind status (map_of framework_status_codes) = Some (code, text)"
  shows "is_api_error_code code \<and> status = Some (api_error_status code) \<and> text \<in> set public_messages"
proof -
  have "list_all (\<lambda>(s, c, t). is_api_error_code c \<and> api_error_status c = s \<and> t \<in> set public_messages)
      framework_status_codes" by code_simp
  moreover obtain s where "status = Some s" "map_of framework_status_codes s = Some (code, text)"
    using assms by (cases status) auto
  ultimately show ?thesis by (auto simp: list_all_iff dest!: map_of_SomeD)
qed

lemma public_texts [simp]:
  "''An unexpected error occurred.'' \<in> set public_messages"
  "''Request validation failed.'' \<in> set public_messages" "''Route not found.'' \<in> set public_messages"
  "''Request could not be processed.'' \<in> set public_messages"
  by (simp_all add: public_messages_def)

lemma handler_codes [simp]:
  "is_api_error_code ''INTERNAL_ERROR''" "is_api_error_code ''VALIDATION_ERROR''"
  "is_api_error_code ''NOT_FOUND''"
  by (simp_all add: is_api_error_code_def api_error_codes_def)

definition speaks_for_itself :: "thrown \<Rightarrow> bool" where
  "speaks_for_itself e =
     (case e of ThrownDomain code _ _ \<Rightarrow> is_api_error_code code | _ \<Rightarrow> False)"

lemma send_api_error_fields [simp]:
  "rp_status (send_api_error i c m d) = api_error_status c"
  "eb_code (rp_body (send_api_error i c m d)) = c"
  "eb_message (rp_body (send_api_error i c m d)) = m"
  "eb_request_id (rp_body (send_api_error i c m d)) = i"
  "eb_details (rp_body (send_api_error i c m d)) = d"
  by (simp_all add: send_api_error_def)

text \<open>
  C30: The error handler answers every failure with the one error shape: a code of the registry
  with that code's status, between 400 and 599, and the id of the request. Only a domain error
  with a registered code speaks for itself; for every other failure the message is one of nine
  fixed texts, and two failures that differ in their messages alone get the same response, so
  nothing an unexpected exception says reaches the client. Field details come with validation
  failures only: the fields of a registered domain error that carries some, which of the domain
  errors only \<open>ValidationError\<close> does, or the issues of a zod or framework validation; every other
  answer has none.
\<close>

theorem error_responses_closed:
  "is_api_error_code (eb_code (rp_body (handle_api_error i e))) \<and>
   rp_status (handle_api_error i e) = api_error_status (eb_code (rp_body (handle_api_error i e))) \<and>
   400 \<le> rp_status (handle_api_error i e) \<and> rp_status (handle_api_error i e) < 600 \<and>
   eb_request_id (rp_body (handle_api_error i e)) = i \<and>
   (speaks_for_itself e \<or> eb_message (rp_body (handle_api_error i e)) \<in> set public_messages) \<and>
   handle_api_error i (ThrownOther status validation context m) =
     handle_api_error i (ThrownOther status validation context m') \<and>
   (is_api_error_code code \<or>
      handle_api_error i (ThrownDomain code m fs) = send_unexpected_error i) \<and>
   eb_details (rp_body (handle_api_error i e)) =
     (case e of
        ThrownDomain c _ fs' \<Rightarrow> (if is_api_error_code c \<and> fs' \<noteq> Some [] then fs' else None)
      | ThrownZod issues \<Rightarrow> Some (zod_details issues)
      | ThrownOther _ issues ctx _ \<Rightarrow> map_option (validation_details ctx) issues) \<and>
   eb_details (rp_body (handle_api_error i (thrown_of m d))) =
     (case d of ValidationError fs' \<Rightarrow> (if fs' = [] then None else Some fs') | _ \<Rightarrow> None)"
proof -
  have code: "is_api_error_code (eb_code (rp_body (handle_api_error i e))) \<and>
      rp_status (handle_api_error i e) = api_error_status (eb_code (rp_body (handle_api_error i e))) \<and>
      eb_request_id (rp_body (handle_api_error i e)) = i"
    by (auto simp: handle_api_error_def send_domain_error_def send_unexpected_error_def Let_def
        split: thrown.split option.split dest: framework_response)
  have message: "speaks_for_itself e \<or> eb_message (rp_body (handle_api_error i e)) \<in> set public_messages"
    by (auto simp: handle_api_error_def send_domain_error_def send_unexpected_error_def Let_def
        speaks_for_itself_def split: thrown.split option.split dest: framework_response)
  have details: "eb_details (rp_body (handle_api_error i x)) =
     (case x of
        ThrownDomain c _ fs' \<Rightarrow> (if is_api_error_code c \<and> fs' \<noteq> Some [] then fs' else None)
      | ThrownZod issues \<Rightarrow> Some (zod_details issues)
      | ThrownOther _ issues ctx _ \<Rightarrow> map_option (validation_details ctx) issues)" for x
    by (auto simp: handle_api_error_def send_domain_error_def send_unexpected_error_def Let_def
        split: thrown.split option.split)
  have domain: "eb_details (rp_body (handle_api_error i (thrown_of m d))) =
     (case d of ValidationError fs' \<Rightarrow> (if fs' = [] then None else Some fs') | _ \<Rightarrow> None)"
    by (cases d) (simp_all add: details)
  show ?thesis
    unfolding details [of e] domain
    using code message api_error_status_range
    by (simp add: handle_api_error_def send_domain_error_def)
qed

section \<open>Escaping\<close>

lemma escape_html_append [simp]: "escape_html (s @ t) = escape_html s @ escape_html t"
  by (simp add: escape_html_def)

lemma escape_html_no_markup:
  "c \<in> set (escape_html s) \<Longrightarrow> c \<notin> {CHR ''<'', CHR ''>'', CHR 0x22, CHR 0x27}"
  by (induction s) (auto simp: escape_html_def html_escape_char_def split: if_splits)

text \<open>The reader of a character reference: \<open>&\<close> starts one of the five, and nothing else is escaped.\<close>

fun html_unescape :: "string \<Rightarrow> string" where
  "html_unescape [] = []"
| "html_unescape (c # cs) =
     (if c \<noteq> CHR ''&'' then c # html_unescape cs
      else if take 4 cs = ''amp;'' then CHR ''&'' # html_unescape (drop 4 cs)
      else if take 3 cs = ''lt;'' then CHR ''<'' # html_unescape (drop 3 cs)
      else if take 3 cs = ''gt;'' then CHR ''>'' # html_unescape (drop 3 cs)
      else if take 5 cs = ''quot;'' then CHR 0x22 # html_unescape (drop 5 cs)
      else if take 4 cs = ''#39;'' then CHR 0x27 # html_unescape (drop 4 cs)
      else c # html_unescape cs)"

lemma html_unescape_char: "html_unescape (html_escape_char c @ s) = c # html_unescape s"
  by (simp add: html_escape_char_def)

lemma html_unescape_escape: "html_unescape (escape_html s) = s"
proof (induction s)
  case Nil
  then show ?case by (simp add: escape_html_def)
next
  case (Cons c s)
  have "escape_html (c # s) = html_escape_char c @ escape_html s" by (simp add: escape_html_def)
  then show ?case using Cons html_unescape_char by simp
qed

lemma replace_all_Nil [simp]: "replace_all p r [] = []"
  by (subst replace_all.simps) simp

lemma replace_all_Cons:
  "replace_all p r (c # cs) =
     (if p \<noteq> [] \<and> take (length p) (c # cs) = p then r @ replace_all p r (drop (length p) (c # cs))
      else c # replace_all p r cs)"
  by (subst replace_all.simps) simp

lemma replace_all_prefix:
  "take (length q) (replace_all p (d # r) s) = q \<Longrightarrow> d \<notin> set q \<Longrightarrow> take (length q) s = q"
proof (induction q arbitrary: s)
  case (Cons x q)
  then obtain c cs where s: "s = c # cs" by (cases s) auto
  show ?case
    using Cons.prems Cons.IH [of cs] unfolding s replace_all_Cons by (auto split: if_splits)
qed simp

text \<open>The written-out script holds no \<open></script\<close>: the markup of the document closes it.\<close>

lemma js_includes_skip: "d \<notin> set u \<Longrightarrow> js_includes (u @ s) (d # p) = js_includes s (d # p)"
  by (induction u) auto

lemma replace_all_removes:
  assumes "d \<notin> set (a # p)" "d \<notin> set (b # r)" "a \<noteq> b"
  shows "\<not> js_includes (replace_all (d # a # p) (d # b # r) s) (d # a # p)"
proof (induction s rule: length_induct)
  case (1 s)
  show ?case
  proof (cases s)
    case (Cons c cs)
    show ?thesis
    proof (cases "take (length (d # a # p)) s = d # a # p")
      case True
      let ?rest = "replace_all (d # a # p) (d # b # r) (drop (length (d # a # p)) s)"
      have "replace_all (d # a # p) (d # b # r) s = d # (b # r) @ ?rest"
        using True unfolding Cons replace_all_Cons by simp
      moreover have "\<not> js_includes ?rest (d # a # p)"
        using 1 Cons by (simp del: js_includes.simps)
      moreover have "js_includes ((b # r) @ ?rest) (d # a # p) = js_includes ?rest (d # a # p)"
        by (rule js_includes_skip) (rule assms(2))
      ultimately show ?thesis using assms(3) by simp
    next
      case False
      let ?rest = "replace_all (d # a # p) (d # b # r) cs"
      have "replace_all (d # a # p) (d # b # r) s = c # ?rest"
        using False unfolding Cons replace_all_Cons by (simp only: if_False simp_thms)
      moreover have "\<not> js_includes ?rest (d # a # p)" using 1 Cons by (simp del: js_includes.simps)
      moreover have "take (length (d # a # p)) (c # ?rest) \<noteq> d # a # p"
      proof
        assume h: "take (length (d # a # p)) (c # ?rest) = d # a # p"
        then have "take (length (a # p)) ?rest = a # p" by simp
        then have "take (length (a # p)) cs = a # p" by (rule replace_all_prefix) (rule assms(1))
        then show False using h False Cons by simp
      qed
      ultimately show ?thesis by simp
    qed
  qed simp
qed

text \<open>
  A rendered document: what follows the opening tag of its script, up to the end tag the
  document itself writes, holds no \<open></script\<close>, the escaped title holds no markup and reads back
  as the title, and so does the nonce in its attribute.
\<close>

theorem html_document_contained:
  "(\<exists>out. script_element nonce script = ''<script nonce='' @ [CHR 0x22] @ escape_html nonce @
       [CHR 0x22] @ ''>'' @ out @ ''</script>'' @ [CHR 0x0A] \<and> \<not> js_includes out ''</script'') \<and>
   html_unescape (escape_html title) = title \<and> html_unescape (escape_html nonce) = nonce \<and>
   set (escape_html title) \<inter> {CHR ''<'', CHR ''>'', CHR 0x22, CHR 0x27} = {}"
proof -
  have "\<not> js_includes (replace_all ''</script'' (CHR ''<'' # CHR 0x5C # ''/script'') script) ''</script''"
    by (rule replace_all_removes) simp_all
  then show ?thesis
    using html_unescape_escape escape_html_no_markup
    by (auto simp: script_element_def simp del: js_includes.simps)
qed

text \<open>The replacement is case-sensitive, the end tag of an HTML parser is not.\<close>

lemma upper_case_end_tag_passes:
  "replace_all ''</script'' (CHR ''<'' # CHR 0x5C # ''/script'') ''</SCRIPT><b>'' = ''</SCRIPT><b>''"
  by code_simp

end
