(* ===== verification/HttpEdge.thy ===== *)
theory HttpEdge
  imports HttpErrors TextForms
begin

text \<open>
  The request hooks at the edge of the API, \<open>apps/api/src/plugins\<close>: the CORS origin check, the
  transport security headers with the redirect to HTTPS, the version prefix, the request id, and
  the reduction of a CSP report to a log line. A hook is a function from the request to what it
  does: pass, or the reply it ends the request with.
\<close>

text \<open>\<open>a.startsWith(b)\<close>, \<open>a.lastIndexOf(c)\<close> as the split around the last \<open>c\<close>.\<close>

definition starts_with :: "string \<Rightarrow> string \<Rightarrow> bool" where
  "starts_with s p \<longleftrightarrow> take (length p) s = p"


section \<open>Cross-origin requests\<close>

record cors_policy =
  cp_allowed_origins :: "string list"
  cp_allow_credentials :: bool

definition no_cors :: cors_policy where
  "no_cors = \<lparr>cp_allowed_origins = [], cp_allow_credentials = False\<rparr>"

definition cors_wildcard :: string where "cors_wildcard = ''*''"

definition cors_configuration_error :: "string list \<Rightarrow> bool \<Rightarrow> bool" where
  "cors_configuration_error allowed credentials \<longleftrightarrow> credentials \<and> cors_wildcard \<in> set allowed"

text \<open>\<open>None\<close> is the thrown \<open>ConfigError\<close>.\<close>

definition cors_policy_from_config :: "string list \<Rightarrow> bool \<Rightarrow> cors_policy option" where
  "cors_policy_from_config allowed credentials =
     (if cors_configuration_error allowed credentials then None
      else Some \<lparr>cp_allowed_origins = allowed, cp_allow_credentials = credentials\<rparr>)"

definition is_origin_allowed :: "string \<Rightarrow> cors_policy \<Rightarrow> bool" where
  "is_origin_allowed origin policy \<longleftrightarrow>
     cors_wildcard \<in> set (cp_allowed_origins policy) \<or> origin \<in> set (cp_allowed_origins policy)"

datatype edge_reply =
    EdgeApiError "error_body reply"
  | EdgeError nat string
  | EdgeRedirect nat string

text \<open>The \<open>onRequest\<close> hook of \<open>registerCors\<close>; \<open>None\<close> lets the request through.\<close>

definition cors_hook :: "cors_policy \<Rightarrow> string option \<Rightarrow> edge_reply option" where
  "cors_hook policy origin =
     (case origin of
        None \<Rightarrow> None
      | Some o_header \<Rightarrow>
          (if is_origin_allowed o_header policy then None else Some (EdgeError 403 ''forbidden_origin'')))"

text \<open>
  \<open>registerCors\<close>: refuses the conflicting policy (\<open>None\<close>), adds the hook, and registers
  \<open>@fastify/cors\<close> unless there is nothing to allow; the result says whether it does, and with
  the literal wildcard or the callback.
\<close>

datatype cors_registration = RefuseOnly | WildcardOrigin bool | CallbackOrigin bool

definition register_cors :: "cors_policy \<Rightarrow> cors_registration option" where
  "register_cors policy =
     (if cors_configuration_error (cp_allowed_origins policy) (cp_allow_credentials policy) then None
      else if length (cp_allowed_origins policy) = 0 then Some RefuseOnly
      else if cors_wildcard \<in> set (cp_allowed_origins policy)
      then Some (WildcardOrigin (cp_allow_credentials policy))
      else Some (CallbackOrigin (cp_allow_credentials policy)))"

section \<open>Transport security\<close>


text \<open>A number of the configuration: an integer, or one that is not.\<close>

datatype js_seconds = WholeSeconds int | NotWhole

record hsts_directive =
  hs_max_age :: js_seconds
  hs_include_subdomains :: bool
  hs_preload :: bool


record transport_config =
  tc_node_env :: string
  tc_hsts_max_age :: js_seconds
  tc_hsts_include_subdomains :: bool
  tc_hsts_preload :: bool
  tc_enforce_https :: bool

record security_options =
  so_hsts :: "hsts_directive option"
  so_enforce_https :: bool

definition no_transport_security :: security_options where
  "no_transport_security = \<lparr>so_hsts = None, so_enforce_https = False\<rparr>"

definition security_headers_from_config :: "transport_config \<Rightarrow> security_options option" where
  "security_headers_from_config c =
     (if tc_node_env c \<noteq> ''production''
      then Some \<lparr>so_hsts = None, so_enforce_https = tc_enforce_https c\<rparr>
      else if tc_hsts_preload c \<and> \<not> tc_hsts_include_subdomains c then None
      else Some \<lparr>so_hsts = Some \<lparr>hs_max_age = tc_hsts_max_age c,
                   hs_include_subdomains = tc_hsts_include_subdomains c,
                   hs_preload = tc_hsts_preload c\<rparr>,
                 so_enforce_https = tc_enforce_https c\<rparr>)"

definition code_in :: "nat \<Rightarrow> nat \<Rightarrow> char \<Rightarrow> bool" where
  "code_in a b c \<longleftrightarrow> a \<le> of_char c \<and> (of_char c :: nat) \<le> b"


definition ascii_digit :: "char \<Rightarrow> bool" where "ascii_digit c \<longleftrightarrow> code_in 48 57 c"










section \<open>The version prefix\<close>

datatype path_exclusion = ExactPath string | PathPattern "string \<Rightarrow> bool"

definition is_path_excluded :: "string \<Rightarrow> path_exclusion list \<Rightarrow> bool" where
  "is_path_excluded path exclusions =
     list_ex (\<lambda>e. case e of
         ExactPath p \<Rightarrow> path = p \<or> starts_with path (p @ ''/'')
       | PathPattern test \<Rightarrow> test path) exclusions"

definition version_pattern :: "string \<Rightarrow> bool" where
  "version_pattern s =
     (case s of [] \<Rightarrow> False
      | c # ds \<Rightarrow> (c = CHR ''v'' \<or> c = CHR ''V'') \<and> ds \<noteq> [] \<and> list_all ascii_digit ds)"

definition path_prefix :: "string \<Rightarrow> string option" where
  "path_prefix path =
     (case path of
        [] \<Rightarrow> None
      | c # rest \<Rightarrow>
          (let segment = takeWhile (\<lambda>x. x \<noteq> CHR ''/'') rest
           in if c = CHR ''/'' \<and> segment \<noteq> [] then Some segment else None))"

definition path_of_url :: "string \<Rightarrow> string" where
  "path_of_url url = hd (js_split CHR ''?'' url)"

definition default_supported_versions :: "string list" where
  "default_supported_versions = [''v1'']"

definition version_excluded_paths :: "path_exclusion list" where
  "version_excluded_paths = [ExactPath ''/health'', ExactPath ''/docs'', ExactPath ''/favicon.ico'']"

definition missing_version_message :: "string list \<Rightarrow> string" where
  "missing_version_message supported =
     ''API version prefix missing. Requests must be prefixed with a valid API version (e.g. /'' @
     (case supported of [] \<Rightarrow> ''v1'' | v # _ \<Rightarrow> v) @ ''/...).''"

definition unsupported_version_message :: "string \<Rightarrow> string list \<Rightarrow> string" where
  "unsupported_version_message prefix supported =
     ''API version '' @ [CHR 0x27] @ prefix @ [CHR 0x27] @ '' is not supported. Supported versions: '' @
     js_join '', '' supported @ ''.''"

definition versioning_hook ::
  "string list \<Rightarrow> path_exclusion list \<Rightarrow> http_request \<Rightarrow> edge_reply option" where
  "versioning_hook supported excluded r =
     (let path = path_of_url (rq_url r)
      in if is_path_excluded path excluded then None
         else case path_prefix path of
           None \<Rightarrow> Some (EdgeApiError (send_api_error (rq_id r) ''VALIDATION_ERROR''
                    (missing_version_message supported) None))
         | Some prefix \<Rightarrow>
             (if \<not> version_pattern prefix
              then Some (EdgeApiError (send_api_error (rq_id r) ''VALIDATION_ERROR''
                     (missing_version_message supported) None))
              else if js_lower prefix \<notin> set supported
              then Some (EdgeApiError (send_api_error (rq_id r) ''NOT_FOUND''
                     (unsupported_version_message prefix supported) None))
              else None))"

section \<open>The request id\<close>

definition resolve_request_id :: "string \<Rightarrow> string \<Rightarrow> http_request \<Rightarrow> string" where
  "resolve_request_id generated name r =
     (case header_text r (js_lower name) of
        Some raw \<Rightarrow> (if length (js_trim raw) > 0 then js_trim raw else generated)
      | None \<Rightarrow> generated)"

text \<open>The hook sets the id of the request and echoes it; the logger's child context is left out.\<close>

definition request_context_hook ::
  "string \<Rightarrow> string \<Rightarrow> http_request \<Rightarrow> http_request \<times> (string \<times> string)" where
  "request_context_hook generated name r =
     (let i = resolve_request_id generated name r in (r\<lparr>rq_id := i\<rparr>, (js_lower name, i)))"

definition propagate_request_context :: "string \<Rightarrow> (string, string) js_map \<Rightarrow> (string, string) js_map" where
  "propagate_request_context i headers =
     (if length i = 0 then headers else map_set ''x-request-id'' i headers)"

section \<open>CSP reports\<close>

record csp_report =
  csp_document_uri :: "string option"
  csp_effective_directive :: "string option"
  csp_violated_directive :: "string option"
  csp_blocked_uri :: "string option"
  csp_disposition :: "string option"
  csp_source_file :: "string option"
  csp_status_code :: "string option"

definition csp_field :: "string \<Rightarrow> string option \<Rightarrow> (string \<times> string) list" where
  "csp_field name v = (case v of None \<Rightarrow> [] | Some s \<Rightarrow> [(name, s)])"

text \<open>\<open>summarize\<close>, a number kept as its text; an absent report has no fields.\<close>

definition summarize_csp_report :: "csp_report option \<Rightarrow> (string \<times> string) list" where
  "summarize_csp_report report =
     (case report of
        None \<Rightarrow> [(''documentUri'', ''unknown'')]
      | Some r \<Rightarrow>
          [(''documentUri'', or_default (csp_document_uri r) ''unknown'')] @
          csp_field ''directive'' (case csp_effective_directive r of
              Some d \<Rightarrow> Some d | None \<Rightarrow> csp_violated_directive r) @
          csp_field ''blockedUri'' (csp_blocked_uri r) @
          csp_field ''disposition'' (csp_disposition r) @
          csp_field ''sourceFile'' (csp_source_file r) @
          csp_field ''statusCode'' (csp_status_code r))"


section \<open>What the hooks guarantee\<close>













text \<open>A policy that registers never pairs the wildcard with credentials.\<close>

lemma cors_never_credentialed_wildcard:
  "register_cors policy = Some (WildcardOrigin credentials) \<Longrightarrow> \<not> credentials"
  by (auto simp: register_cors_def cors_configuration_error_def split: if_splits)

lemma cors_hook_exact:
  "register_cors policy = Some (CallbackOrigin credentials) \<Longrightarrow>
     cors_hook policy origin = None \<longleftrightarrow> origin = None \<or> (\<exists>x \<in> set (cp_allowed_origins policy). origin = Some x)"
  by (auto simp: register_cors_def cors_hook_def is_origin_allowed_def split: if_splits option.splits)

text \<open>The one thing a CSP report cannot do is add a field to the log line.\<close>

lemma csp_summary_fields:
  "set (map fst (summarize_csp_report r)) \<subseteq>
     {''documentUri'', ''directive'', ''blockedUri'', ''disposition'', ''sourceFile'', ''statusCode''}"
  by (auto simp: summarize_csp_report_def csp_field_def split: option.splits)

end
