(* ===== verification/Organizations.thy ===== *)
theory Organizations
  imports Credentials
begin

text \<open>
  The multi-tenant half of \<open>packages/identity\<close>: the entities \<open>Organization\<close>,
  \<open>OrganizationMembership\<close>, \<open>Invitation\<close> and \<open>ApiKey\<close>, their in-memory repositories, and the use
  cases that create and read them. Ids, random text and the clock are arguments; SHA-256 (hex) is
  the parameter \<open>digest\<close>. \<open>InMemoryUnitOfWork.run\<close> calls its callback on the repositories, so a
  use case that runs in it is a function of the workspace.
\<close>

section \<open>Organization\<close>

datatype org_status = OrgActive | OrgSuspended | OrgDeleted

record organization =
  og_id :: string
  og_name :: string
  og_slug :: string
  og_owner :: string
  og_status :: org_status
  og_created_at :: int
  og_updated_at :: int

definition slug_char :: "char \<Rightarrow> bool" where
  "slug_char c \<longleftrightarrow> (let n = of_char c :: nat in 97 \<le> n \<and> n \<le> 122 \<or> 48 \<le> n \<and> n \<le> 57)"

definition slug_segment :: "string \<Rightarrow> bool" where
  "slug_segment s \<longleftrightarrow> s \<noteq> [] \<and> list_all slug_char s"

definition is_valid_slug :: "string \<Rightarrow> bool" where
  "is_valid_slug slug \<longleftrightarrow> list_all slug_segment (js_split CHR ''-'' slug)"

definition organization_create :: "string \<Rightarrow> int \<Rightarrow> string \<Rightarrow> string \<Rightarrow> string \<Rightarrow> organization result" where
  "organization_create fresh now name slug owner =
     (let normalized_name = js_trim name;
          normalized_slug = js_lower (js_trim slug);
          field_errors =
            (if length normalized_name = 0 then [(''name'', [''required''])]
             else if length normalized_name > 128 then [(''name'', [''too_long''])] else []) @
            (if length normalized_slug < 3 then [(''slug'', [''too_short''])]
             else if length normalized_slug > 63 then [(''slug'', [''too_long''])]
             else if \<not> is_valid_slug normalized_slug then [(''slug'', [''invalid_format''])] else [])
      in if length field_errors > 0 then Inl (ValidationError field_errors)
         else Inr \<lparr>og_id = fresh, og_name = normalized_name, og_slug = normalized_slug,
           og_owner = owner, og_status = OrgActive, og_created_at = now, og_updated_at = now\<rparr>)"

section \<open>Membership\<close>

datatype membership_status = MemberActive | MemberRevoked

record membership =
  mb_id :: string
  mb_user :: string
  mb_org :: string
  mb_status :: membership_status
  mb_joined_at :: int

definition membership_create ::
  "string \<Rightarrow> int \<Rightarrow> string \<Rightarrow> string \<Rightarrow> membership list \<Rightarrow> membership result" where
  "membership_create fresh now user org existing =
     (if list_ex (\<lambda>m. mb_user m = user \<and> mb_org m = org \<and> mb_status m = MemberActive) existing
      then Inl ConflictError
      else Inr \<lparr>mb_id = fresh, mb_user = user, mb_org = org, mb_status = MemberActive,
        mb_joined_at = now\<rparr>)"

definition membership_revoke :: "membership \<Rightarrow> membership" where
  "membership_revoke m = (if mb_status m = MemberRevoked then m else m\<lparr>mb_status := MemberRevoked\<rparr>)"

section \<open>Invitation\<close>

datatype invitation_status = InvPending | InvAccepted | InvRevoked

datatype invitation_event = OrganizationInvitationCreated string string string

record invitation =
  iv_id :: string
  iv_org :: string
  iv_email :: string
  iv_invited_by :: string
  iv_token_hash :: string
  iv_status :: invitation_status
  iv_created_at :: int
  iv_expires_at :: int
  iv_accepted_at :: "int option"
  iv_events :: "invitation_event list"

definition invitation_ttl_ms :: int where
  "invitation_ttl_ms = 7 * 24 * 60 * 60 * 1000"

text \<open>\<open>token\<close> is the \<open>randomUUID()\<close> of the call; the invitation is returned beside it.\<close>

definition invitation_create ::
  "(string \<Rightarrow> string) \<Rightarrow> string \<Rightarrow> string \<Rightarrow> int \<Rightarrow> string \<Rightarrow> string \<Rightarrow> string \<Rightarrow> int option
     \<Rightarrow> invitation \<times> string" where
  "invitation_create digest fresh token now org email invited_by ttl =
     (\<lparr>iv_id = fresh, iv_org = org, iv_email = email, iv_invited_by = invited_by,
       iv_token_hash = digest token, iv_status = InvPending, iv_created_at = now,
       iv_expires_at = now + or_default ttl invitation_ttl_ms, iv_accepted_at = None,
       iv_events = [OrganizationInvitationCreated fresh org email]\<rparr>, token)"

definition invitation_matches_token :: "(string \<Rightarrow> string) \<Rightarrow> string \<Rightarrow> invitation \<Rightarrow> bool" where
  "invitation_matches_token digest token i =
     (let candidate = hex_bytes (digest token); actual = hex_bytes (iv_token_hash i)
      in length candidate = length actual \<and> candidate = actual)"

definition invitation_reconstitute :: "invitation \<Rightarrow> invitation" where
  "invitation_reconstitute props = props\<lparr>iv_events := []\<rparr>"

definition invitation_is_expired :: "int \<Rightarrow> invitation \<Rightarrow> bool" where
  "invitation_is_expired now i \<longleftrightarrow> now \<ge> iv_expires_at i"

definition invitation_accept :: "int \<Rightarrow> invitation \<Rightarrow> invitation result" where
  "invitation_accept now i =
     (if iv_status i = InvAccepted then Inl (ValidationError [(''status'', [''already_accepted''])])
      else if iv_status i = InvRevoked then Inl (ValidationError [(''status'', [''revoked''])])
      else if invitation_is_expired now i then Inl (ValidationError [(''status'', [''expired''])])
      else Inr (i\<lparr>iv_status := InvAccepted, iv_accepted_at := Some now, iv_events := []\<rparr>))"

definition invitation_revoke :: "invitation \<Rightarrow> invitation" where
  "invitation_revoke i =
     (if iv_status i \<noteq> InvPending then i else i\<lparr>iv_status := InvRevoked, iv_events := []\<rparr>)"

section \<open>API key\<close>

datatype api_key_status = KeyActive | KeyRevoked | KeyExpired

datatype api_key_event = ApiKeyCreated string string string string "string list"

text \<open>
  \<open>expiresAt\<close> is a \<open>Date\<close> the caller supplies, so it may be the Invalid Date (\<open>Some None\<close>), for
  which both comparisons with it are false.
\<close>

record api_key =
  ak_id :: string
  ak_name :: string
  ak_org :: string
  ak_hash :: string
  ak_preview :: string
  ak_scopes :: "string list"
  ak_status :: api_key_status
  ak_expires_at :: "date option"
  ak_created_at :: int
  ak_revoked_at :: "int option"
  ak_events :: "api_key_event list"

definition expired_by :: "date option \<Rightarrow> int \<Rightarrow> bool" where
  "expired_by expires now = (case expires of None \<Rightarrow> False | Some d \<Rightarrow> date_ge (Some now) d)"

text \<open>\<open>entropy\<close> is the base64url text of the 32 random bytes.\<close>

definition api_key_create ::
  "(string \<Rightarrow> string) \<Rightarrow> string \<Rightarrow> string \<Rightarrow> int \<Rightarrow> string \<Rightarrow> string \<Rightarrow> string list option
     \<Rightarrow> date option \<Rightarrow> (api_key \<times> string) result" where
  "api_key_create digest fresh entropy now name org scopes expires =
     (let trimmed = js_trim name
      in if length trimmed = 0 then Inl (ValidationError [])
         else if expired_by expires now then Inl (ValidationError [])
         else let raw_key = ''vx_'' @ entropy;
                  preview = drop (length raw_key - 4) raw_key;
                  granted = or_default scopes []
              in Inr (\<lparr>ak_id = fresh, ak_name = trimmed, ak_org = org, ak_hash = digest raw_key,
                   ak_preview = preview, ak_scopes = granted, ak_status = KeyActive,
                   ak_expires_at = expires, ak_created_at = now, ak_revoked_at = None,
                   ak_events = [ApiKeyCreated fresh org trimmed preview granted]\<rparr>, raw_key))"

definition api_key_matches :: "(string \<Rightarrow> string) \<Rightarrow> string \<Rightarrow> api_key \<Rightarrow> bool" where
  "api_key_matches digest candidate k =
     (let a = hex_bytes (ak_hash k); b = hex_bytes (digest candidate)
      in if length a \<noteq> length b then False else a = b)"

definition api_key_is_active :: "int \<Rightarrow> api_key \<Rightarrow> bool" where
  "api_key_is_active now k =
     (if ak_status k \<noteq> KeyActive then False
      else if expired_by (ak_expires_at k) now then False
      else True)"

definition api_key_revoke :: "int \<Rightarrow> api_key \<Rightarrow> api_key" where
  "api_key_revoke now k =
     (if ak_status k = KeyRevoked then k else k\<lparr>ak_status := KeyRevoked, ak_revoked_at := Some now\<rparr>)"

section \<open>The in-memory repositories\<close>

type_synonym org_store = "(string, organization) js_map"
type_synonym membership_store = "(string, membership) js_map"
type_synonym invitation_store = "(string, invitation) js_map"
type_synonym api_key_store = "(string, api_key) js_map"

definition orgs_find_by_id :: "org_store \<Rightarrow> string \<Rightarrow> organization option" where
  "orgs_find_by_id m i = map_get m i"

definition orgs_find_many :: "org_store \<Rightarrow> string list \<Rightarrow> organization list" where
  "orgs_find_many m ids = filter (\<lambda>g. og_id g \<in> set ids) (map_values m)"

definition orgs_find_by_slug :: "org_store \<Rightarrow> string \<Rightarrow> organization option" where
  "orgs_find_by_slug m slug = find (\<lambda>g. og_slug g = slug) (map_values m)"

definition orgs_find_all :: "org_store \<Rightarrow> organization list" where
  "orgs_find_all m = map_values m"

definition orgs_save :: "organization \<Rightarrow> org_store \<Rightarrow> org_store" where
  "orgs_save g m = map_set (og_id g) g m"

definition orgs_exists_by_slug :: "org_store \<Rightarrow> string \<Rightarrow> bool" where
  "orgs_exists_by_slug m slug = list_ex (\<lambda>g. og_slug g = slug) (map_values m)"

definition members_find_active :: "membership_store \<Rightarrow> string \<Rightarrow> string \<Rightarrow> membership option" where
  "members_find_active m user org =
     find (\<lambda>x. mb_user x = user \<and> mb_org x = org \<and> mb_status x = MemberActive) (map_values m)"

definition members_of_org :: "membership_store \<Rightarrow> string \<Rightarrow> membership list" where
  "members_of_org m org = filter (\<lambda>x. mb_org x = org) (map_values m)"

definition members_of_user :: "membership_store \<Rightarrow> string \<Rightarrow> membership list" where
  "members_of_user m user = filter (\<lambda>x. mb_user x = user) (map_values m)"

definition members_of_orgs :: "membership_store \<Rightarrow> string list \<Rightarrow> membership list" where
  "members_of_orgs m orgs = filter (\<lambda>x. mb_org x \<in> set orgs) (map_values m)"

definition members_save :: "membership \<Rightarrow> membership_store \<Rightarrow> membership_store" where
  "members_save x m = map_set (mb_id x) x m"

definition invitations_find_by_id :: "invitation_store \<Rightarrow> string \<Rightarrow> invitation option" where
  "invitations_find_by_id m i = map_get m i"

definition invitations_find_by_token ::
  "(string \<Rightarrow> string) \<Rightarrow> invitation_store \<Rightarrow> string \<Rightarrow> invitation option" where
  "invitations_find_by_token digest m token =
     find (invitation_matches_token digest token) (map_values m)"

definition invitations_save :: "invitation \<Rightarrow> invitation_store \<Rightarrow> invitation_store" where
  "invitations_save i m = map_set (iv_id i) i m"

definition keys_find_by_id :: "api_key_store \<Rightarrow> string \<Rightarrow> api_key option" where
  "keys_find_by_id m i = map_get m i"

definition keys_find_by_hash :: "api_key_store \<Rightarrow> string \<Rightarrow> api_key option" where
  "keys_find_by_hash m h = find (\<lambda>k. ak_hash k = h) (map_values m)"

definition keys_of_org :: "api_key_store \<Rightarrow> string \<Rightarrow> api_key list" where
  "keys_of_org m org = filter (\<lambda>k. ak_org k = org) (map_values m)"

definition keys_save :: "api_key \<Rightarrow> api_key_store \<Rightarrow> api_key_store" where
  "keys_save k m = map_set (ak_id k) k m"

section \<open>Use cases\<close>

text \<open>The repositories of a unit of work, and the API keys.\<close>

record workspace =
  ws_users :: user_store
  ws_orgs :: org_store
  ws_members :: membership_store
  ws_invitations :: invitation_store
  ws_keys :: api_key_store

definition create_organization_execute ::
  "string \<Rightarrow> string \<Rightarrow> int \<Rightarrow> string \<Rightarrow> string \<Rightarrow> string \<Rightarrow> workspace
     \<Rightarrow> (organization \<times> membership) result \<times> workspace" where
  "create_organization_execute org_id member_id now name slug owner w =
     (let normalized_slug = js_lower (js_trim slug)
      in if orgs_exists_by_slug (ws_orgs w) normalized_slug then (Inl ConflictError, w)
         else case organization_create org_id now name slug owner of
           Inl e \<Rightarrow> (Inl e, w)
         | Inr g \<Rightarrow>
             (case membership_create member_id now owner (og_id g) [] of
                Inl e \<Rightarrow> (Inl e, w)
              | Inr x \<Rightarrow> (Inr (g, x), w\<lparr>ws_orgs := orgs_save g (ws_orgs w),
                                        ws_members := members_save x (ws_members w)\<rparr>)))"

definition invite_user_execute ::
  "(string \<Rightarrow> string) \<Rightarrow> string \<Rightarrow> string \<Rightarrow> int \<Rightarrow> string \<Rightarrow> string \<Rightarrow> string \<Rightarrow> workspace
     \<Rightarrow> (invitation \<times> string) result \<times> workspace" where
  "invite_user_execute digest fresh token now org email invited_by w =
     (case email_create email of
        Inl e \<Rightarrow> (Inl e, w)
      | Inr address \<Rightarrow>
          (let issued = invitation_create digest fresh token now org address invited_by None
           in (Inr issued, w\<lparr>ws_invitations := invitations_save (fst issued) (ws_invitations w)\<rparr>)))"

text \<open>The third component lists the events handed to the publisher, if there is one.\<close>

definition create_api_key_execute ::
  "(string \<Rightarrow> string) \<Rightarrow> bool \<Rightarrow> string \<Rightarrow> string \<Rightarrow> int \<Rightarrow> string \<Rightarrow> string \<Rightarrow> string list option
     \<Rightarrow> date option \<Rightarrow> workspace \<Rightarrow> (api_key \<times> string) result \<times> workspace \<times> api_key_event list" where
  "create_api_key_execute digest publishes fresh entropy now name org scopes expires w =
     (case api_key_create digest fresh entropy now name org scopes expires of
        Inl e \<Rightarrow> (Inl e, w, [])
      | Inr issued \<Rightarrow>
          (Inr issued, w\<lparr>ws_keys := keys_save (fst issued) (ws_keys w)\<rparr>,
           if publishes then ak_events (fst issued) else []))"

definition get_user_execute :: "string \<Rightarrow> workspace \<Rightarrow> user option result" where
  "get_user_execute i w = Inr (users_find_by_id (ws_users w) i)"

definition get_organization_execute ::
  "string option \<Rightarrow> string option \<Rightarrow> workspace \<Rightarrow> organization option result" where
  "get_organization_execute i slug w =
     (case i of
        Some x \<Rightarrow> Inr (orgs_find_by_id (ws_orgs w) x)
      | None \<Rightarrow> (case slug of
            Some s \<Rightarrow> Inr (orgs_find_by_slug (ws_orgs w) s)
          | None \<Rightarrow> Inr None))"

definition get_organization_users_execute :: "string \<Rightarrow> workspace \<Rightarrow> user list result" where
  "get_organization_users_execute org w =
     (let active = filter (\<lambda>m. mb_status m = MemberActive) (members_of_org (ws_members w) org)
      in if length active = 0 then Inr []
         else Inr (users_find_many (ws_users w) (map mb_user active)))"

definition get_user_organizations_execute :: "string \<Rightarrow> workspace \<Rightarrow> organization list result" where
  "get_user_organizations_execute user w =
     (let active = filter (\<lambda>m. mb_status m = MemberActive) (members_of_user (ws_members w) user)
      in if length active = 0 then Inr []
         else Inr (orgs_find_many (ws_orgs w) (map mb_org active)))"

definition list_organizations_execute :: "workspace \<Rightarrow> organization list result" where
  "list_organizations_execute w = Inr (orgs_find_all (ws_orgs w))"

text \<open>One turn of the last loop: \<open>result.get(organizationId)?.push(user)\<close>.\<close>

definition push_member ::
  "(string, user) js_map \<Rightarrow> membership \<Rightarrow> (string, user list) js_map \<Rightarrow> (string, user list) js_map" where
  "push_member user_map m acc =
     (case map_get user_map (mb_user m) of
        None \<Rightarrow> acc
      | Some u \<Rightarrow> (case map_get acc (mb_org m) of
            None \<Rightarrow> acc
          | Some us \<Rightarrow> map_set (mb_org m) (us @ [u]) acc))"

definition get_users_by_organization_ids_execute ::
  "string list \<Rightarrow> workspace \<Rightarrow> (string, user list) js_map result" where
  "get_users_by_organization_ids_execute org_ids w =
     (let start = fold (\<lambda>i acc. map_set i [] acc) org_ids []
      in if length org_ids = 0 then Inr start
         else let active = filter (\<lambda>m. mb_status m = MemberActive)
                             (members_of_orgs (ws_members w) org_ids);
                  user_ids = set_of_list (map mb_user active)
              in if length user_ids = 0 then Inr start
                 else let users = users_find_many (ws_users w) user_ids;
                          user_map = fold (\<lambda>u acc. map_set (u_id u) u acc) users []
                      in Inr (fold (push_member user_map) active start))"

end
