(* ===== verification/OrganizationRuns.thy ===== *)
theory OrganizationRuns
  imports Organizations "HOL-Library.Multiset"
begin

text \<open>
  Runs of the organization use cases over one workspace: the directory of organizations and
  memberships they reach, what an invitation goes through, and the agreement of the batched
  membership query with the query for one organization.
\<close>

section \<open>Steps\<close>

text \<open>
  The use cases, and the entity operations followed by the repository's \<open>save\<close>: joining an
  organization with the memberships the repository knows, revoking a membership, accepting and
  revoking an invitation, revoking an API key. Ids are random UUIDs: nothing in the store has, or
  refers to, the new ids of a step, and the 256 random bits of a new API key give a new hash.
\<close>

inductive workspace_step :: "(string \<Rightarrow> string) \<Rightarrow> workspace \<Rightarrow> workspace \<Rightarrow> bool" for digest where
  create_organization:
    "create_organization_execute org_id member_id now name slug owner w = (r, w') \<Longrightarrow>
     map_get (ws_orgs w) org_id = None \<Longrightarrow> members_of_org (ws_members w) org_id = [] \<Longrightarrow>
     map_get (ws_members w) member_id = None \<Longrightarrow> workspace_step digest w w'"
| join:
    "membership_create member_id now user org (members_of_user (ws_members w) user) = Inr x \<Longrightarrow>
     map_get (ws_members w) member_id = None \<Longrightarrow>
     workspace_step digest w (w\<lparr>ws_members := members_save x (ws_members w)\<rparr>)"
| leave:
    "map_get (ws_members w) i = Some x \<Longrightarrow>
     workspace_step digest w (w\<lparr>ws_members := members_save (membership_revoke x) (ws_members w)\<rparr>)"
| invite:
    "invite_user_execute digest fresh token now org email inviter w = (r, w') \<Longrightarrow>
     map_get (ws_invitations w) fresh = None \<Longrightarrow> workspace_step digest w w'"
| accept:
    "invitations_find_by_id (ws_invitations w) i = Some v \<Longrightarrow> invitation_accept now v = Inr v' \<Longrightarrow>
     workspace_step digest w (w\<lparr>ws_invitations := invitations_save v' (ws_invitations w)\<rparr>)"
| revoke_invitation:
    "invitations_find_by_id (ws_invitations w) i = Some v \<Longrightarrow>
     workspace_step digest w
       (w\<lparr>ws_invitations := invitations_save (invitation_revoke v) (ws_invitations w)\<rparr>)"
| create_key:
    "create_api_key_execute digest publishes fresh entropy now name org scopes expires w = (r, w', es) \<Longrightarrow>
     map_get (ws_keys w) fresh = None \<Longrightarrow> keys_find_by_hash (ws_keys w) (digest (''vx_'' @ entropy)) = None \<Longrightarrow>
     workspace_step digest w w'"
| revoke_key:
    "keys_find_by_id (ws_keys w) i = Some k \<Longrightarrow>
     workspace_step digest w (w\<lparr>ws_keys := keys_save (api_key_revoke now k) (ws_keys w)\<rparr>)"
| user_step:
    "directory_step (ws_users w) m \<Longrightarrow> workspace_step digest w (w\<lparr>ws_users := m\<rparr>)"

inductive workspace_steps :: "(string \<Rightarrow> string) \<Rightarrow> workspace \<Rightarrow> workspace \<Rightarrow> bool" for digest where
  refl: "workspace_steps digest w w"
| more: "workspace_steps digest w v \<Longrightarrow> workspace_step digest v u \<Longrightarrow> workspace_steps digest w u"

definition empty_workspace :: workspace where
  "empty_workspace = \<lparr>ws_users = [], ws_orgs = [], ws_members = [], ws_invitations = [], ws_keys = []\<rparr>"

section \<open>The workspace invariant\<close>

definition organization_wf :: "organization \<Rightarrow> bool" where
  "organization_wf g \<longleftrightarrow> 0 < length (og_name g) \<and> length (og_name g) \<le> 128 \<and>
     3 \<le> length (og_slug g) \<and> length (og_slug g) \<le> 63 \<and> is_valid_slug (og_slug g)"

definition same_seat :: "membership \<Rightarrow> membership \<Rightarrow> bool" where
  "same_seat x y \<longleftrightarrow> mb_user x = mb_user y \<and> mb_org x = mb_org y \<and>
     mb_status x = MemberActive \<and> mb_status y = MemberActive"

definition orgs_inv :: "org_store \<Rightarrow> bool" where
  "orgs_inv m \<longleftrightarrow> map_wf m \<and> (\<forall>i g. map_get m i = Some g \<longrightarrow> og_id g = i \<and> organization_wf g) \<and>
     (\<forall>i j g h. map_get m i = Some g \<longrightarrow> map_get m j = Some h \<longrightarrow> og_slug g = og_slug h \<longrightarrow> i = j)"

definition members_inv :: "membership_store \<Rightarrow> bool" where
  "members_inv m \<longleftrightarrow> map_wf m \<and> (\<forall>i x. map_get m i = Some x \<longrightarrow> mb_id x = i) \<and>
     (\<forall>i j x y. map_get m i = Some x \<longrightarrow> map_get m j = Some y \<longrightarrow> same_seat x y \<longrightarrow> i = j)"

definition owners_seated :: "org_store \<Rightarrow> membership_store \<Rightarrow> bool" where
  "owners_seated gs m \<longleftrightarrow> (\<forall>i g. map_get gs i = Some g \<longrightarrow>
     (\<exists>j x. map_get m j = Some x \<and> mb_user x = og_owner g \<and> mb_org x = i))"

definition invitations_inv :: "invitation_store \<Rightarrow> bool" where
  "invitations_inv m \<longleftrightarrow> (\<forall>i v. map_get m i = Some v \<longrightarrow>
     iv_id v = i \<and> (iv_status v = InvAccepted \<longleftrightarrow> iv_accepted_at v \<noteq> None))"

definition workspace_inv :: "workspace \<Rightarrow> bool" where
  "workspace_inv w \<longleftrightarrow> directory_inv (ws_users w) \<and> orgs_inv (ws_orgs w) \<and>
     members_inv (ws_members w) \<and> owners_seated (ws_orgs w) (ws_members w) \<and>
     invitations_inv (ws_invitations w)"

lemma organization_create_Inr:
  "organization_create fresh now name slug owner = Inr g \<Longrightarrow>
     organization_wf g \<and> og_id g = fresh \<and> og_owner g = owner \<and> og_slug g = js_lower (js_trim slug) \<and>
     og_status g = OrgActive"
  by (auto simp: organization_create_def organization_wf_def Let_def split: if_splits)

lemma membership_create_Inr:
  "membership_create fresh now user org ms = Inr x \<Longrightarrow>
     mb_id x = fresh \<and> mb_user x = user \<and> mb_org x = org \<and> mb_status x = MemberActive \<and>
     (\<forall>y \<in> set ms. \<not> same_seat x y)"
  by (auto simp: membership_create_def same_seat_def list_ex_iff split: if_splits)

lemma membership_revoke_fields [simp]:
  "mb_id (membership_revoke x) = mb_id x" "mb_user (membership_revoke x) = mb_user x"
  "mb_org (membership_revoke x) = mb_org x" "mb_status (membership_revoke x) = MemberRevoked"
  by (auto simp: membership_revoke_def)

lemma orgs_exists_by_slug_iff:
  "orgs_inv m \<Longrightarrow> orgs_exists_by_slug m s \<longleftrightarrow> (\<exists>i g. map_get m i = Some g \<and> og_slug g = s)"
  unfolding orgs_exists_by_slug_def list_ex_iff Bex_def orgs_inv_def by (metis map_values_iff)

lemma orgs_save_fresh:
  assumes "orgs_inv m" "organization_wf g" "\<not> orgs_exists_by_slug m (og_slug g)"
  shows "orgs_inv (orgs_save g m)"
proof -
  have no: "og_slug h \<noteq> og_slug g" if "map_get m i = Some h" for i h
    using assms(3) that unfolding orgs_exists_by_slug_iff [OF assms(1)] by blast
  show ?thesis
    unfolding orgs_inv_def orgs_save_def
  proof (intro conjI allI impI)
    show "map_wf (map_set (og_id g) g m)" using assms(1) by (simp add: orgs_inv_def)
    show "og_id h = i" "organization_wf h" if "map_get (map_set (og_id g) g m) i = Some h" for i h
      using that assms(1,2) by (auto simp: orgs_inv_def split: if_splits)
    show "i = j" if "map_get (map_set (og_id g) g m) i = Some h"
      "map_get (map_set (og_id g) g m) j = Some k" "og_slug h = og_slug k" for i j h k
    proof (cases "i = og_id g \<or> j = og_id g")
      case True
      then show ?thesis using that no by (auto split: if_splits)
    next
      case False
      then have "map_get m i = Some h" "map_get m j = Some k" using that by auto
      then show ?thesis using assms(1) that(3) unfolding orgs_inv_def by blast
    qed
  qed
qed

lemma members_save_new:
  assumes "members_inv m" "\<And>j y. j \<noteq> mb_id x \<Longrightarrow> map_get m j = Some y \<Longrightarrow> \<not> same_seat x y"
  shows "members_inv (members_save x m)"
proof -
  have sym: "same_seat a b = same_seat b a" for a b by (auto simp: same_seat_def)
  show ?thesis
    unfolding members_inv_def members_save_def
  proof (intro conjI allI impI)
    show "map_wf (map_set (mb_id x) x m)" using assms(1) by (simp add: members_inv_def)
    show "mb_id y = i" if "map_get (map_set (mb_id x) x m) i = Some y" for i y
      using that assms(1) by (auto simp: members_inv_def split: if_splits)
    show "i = j" if h: "map_get (map_set (mb_id x) x m) i = Some y"
      "map_get (map_set (mb_id x) x m) j = Some z" "same_seat y z" for i j y z
    proof (cases "i = mb_id x")
      case True
      then have "y = x" using h(1) by simp
      then show ?thesis using True h(2,3) assms(2) [of j z] by (auto split: if_splits)
    next
      case False
      then have y: "map_get m i = Some y" using h(1) by simp
      show ?thesis
      proof (cases "j = mb_id x")
        case True
        then show ?thesis using h(2,3) assms(2) [OF False y] sym by simp
      next
        case False
        then have "map_get m j = Some z" using h(2) by simp
        then show ?thesis using assms(1) y h(3) unfolding members_inv_def by blast
      qed
    qed
  qed
qed

lemma members_save_revoked:
  "members_inv m \<Longrightarrow> members_inv (members_save (membership_revoke x) m)"
  by (rule members_save_new) (auto simp: same_seat_def)

lemma owners_seated_save:
  assumes "owners_seated gs m" "map_get m (mb_id x) = None \<or>
    (\<exists>y. map_get m (mb_id x) = Some y \<and> mb_user y = mb_user x \<and> mb_org y = mb_org x)"
  shows "owners_seated gs (members_save x m)"
  unfolding owners_seated_def members_save_def
proof (intro allI impI)
  fix i g assume "map_get gs i = Some g"
  then obtain j y where y: "map_get m j = Some y" "mb_user y = og_owner g" "mb_org y = i"
    using assms(1) unfolding owners_seated_def by blast
  show "\<exists>j y. map_get (map_set (mb_id x) x m) j = Some y \<and> mb_user y = og_owner g \<and> mb_org y = i"
    using y assms(2) by (cases "j = mb_id x") (auto intro: exI [of _ j])
qed

lemma owners_seated_orgs:
  assumes "owners_seated gs m" "map_get m j = Some x" "mb_user x = og_owner g" "mb_org x = og_id g"
  shows "owners_seated (orgs_save g gs) m"
  using assms unfolding owners_seated_def orgs_save_def by (metis map_get_set option.inject)

lemma create_organization_inv:
  assumes inv: "workspace_inv w"
    and run: "create_organization_execute org_id member_id now name slug owner w = (r, w')"
    and fresh: "members_of_org (ws_members w) org_id = []" "map_get (ws_members w) member_id = None"
  shows "workspace_inv w'"
proof (cases "orgs_exists_by_slug (ws_orgs w) (js_lower (js_trim slug))")
  case True
  then show ?thesis using run inv by (simp add: create_organization_execute_def Let_def)
next
  case False
  show ?thesis
  proof (cases "organization_create org_id now name slug owner")
    case (Inl e)
    then show ?thesis using run inv False by (simp add: create_organization_execute_def Let_def)
  next
    case (Inr g)
    note g = organization_create_Inr [OF Inr]
    define x where "x = \<lparr>mb_id = member_id, mb_user = owner, mb_org = og_id g,
      mb_status = MemberActive, mb_joined_at = now\<rparr>"
    have w': "w' = w\<lparr>ws_orgs := orgs_save g (ws_orgs w), ws_members := members_save x (ws_members w)\<rparr>"
      using run False Inr by (simp add: create_organization_execute_def membership_create_def x_def Let_def)
    have m: "map_get (members_save x (ws_members w)) member_id = Some x"
      by (simp add: members_save_def x_def)
    have "orgs_inv (orgs_save g (ws_orgs w))"
      using inv g False by (intro orgs_save_fresh) (auto simp: workspace_inv_def)
    moreover have own: "owners_seated (ws_orgs w) (members_save x (ws_members w))"
      using inv fresh by (intro owners_seated_save) (auto simp: workspace_inv_def x_def)
    moreover have "members_inv (members_save x (ws_members w))"
    proof (rule members_save_new)
      show "members_inv (ws_members w)" using inv by (simp add: workspace_inv_def)
      fix j y assume "map_get (ws_members w) j = Some y"
      then have "y \<in> set (map_values (ws_members w))"
        using inv by (auto simp: workspace_inv_def members_inv_def map_values_iff)
      then have "mb_org y \<noteq> org_id" using fresh(1) by (auto simp: members_of_org_def filter_empty_conv)
      then show "\<not> same_seat x y" using g by (auto simp: same_seat_def x_def)
    qed
    moreover have "owners_seated (orgs_save g (ws_orgs w)) (members_save x (ws_members w))"
      using g by (intro owners_seated_orgs [OF own m]) (simp_all add: x_def)
    ultimately show ?thesis using inv w' by (simp add: workspace_inv_def)
  qed
qed

lemma join_inv:
  assumes inv: "workspace_inv w"
    and x: "membership_create member_id now user org (members_of_user (ws_members w) user) = Inr x"
    and fresh: "map_get (ws_members w) member_id = None"
  shows "workspace_inv (w\<lparr>ws_members := members_save x (ws_members w)\<rparr>)"
proof -
  note m = membership_create_Inr [OF x]
  have "members_inv (members_save x (ws_members w))"
  proof (rule members_save_new)
    show "members_inv (ws_members w)" using inv by (simp add: workspace_inv_def)
    fix j y assume "map_get (ws_members w) j = Some y"
    then have "y \<in> set (map_values (ws_members w))"
      using inv by (auto simp: workspace_inv_def members_inv_def map_values_iff)
    then show "\<not> same_seat x y" using m by (auto simp: same_seat_def members_of_user_def)
  qed
  then show ?thesis
    using inv m fresh owners_seated_save [of "ws_orgs w" "ws_members w" x]
    by (simp add: workspace_inv_def)
qed

lemma leave_inv:
  assumes inv: "workspace_inv w" and x: "map_get (ws_members w) i = Some x"
  shows "workspace_inv (w\<lparr>ws_members := members_save (membership_revoke x) (ws_members w)\<rparr>)"
proof -
  have "mb_id x = i" using inv x by (simp add: workspace_inv_def members_inv_def)
  then have "owners_seated (ws_orgs w) (members_save (membership_revoke x) (ws_members w))"
    using inv x by (intro owners_seated_save) (auto simp: workspace_inv_def)
  then show ?thesis using inv by (simp add: workspace_inv_def members_save_revoked)
qed

lemma invitations_save_inv:
  "invitations_inv m \<Longrightarrow> (iv_status v = InvAccepted \<longleftrightarrow> iv_accepted_at v \<noteq> None) \<Longrightarrow>
     invitations_inv (invitations_save v m)"
  by (auto simp: invitations_inv_def invitations_save_def split: if_splits)

lemma invitation_accept_Inr:
  "invitation_accept now v = Inr v' \<longleftrightarrow>
     iv_status v = InvPending \<and> now < iv_expires_at v \<and>
     v' = v\<lparr>iv_status := InvAccepted, iv_accepted_at := Some now, iv_events := []\<rparr>"
  by (cases "iv_status v") (auto simp: invitation_accept_def invitation_is_expired_def)

lemma workspace_step_inv:
  assumes "workspace_step digest w w'" "workspace_inv w"
  shows "workspace_inv w'"
  using assms
proof (cases rule: workspace_step.cases)
  case (create_organization org_id member_id now name slug owner r)
  then show ?thesis using create_organization_inv assms(2) by blast
next
  case (join member_id now user org x)
  then show ?thesis using join_inv assms(2) by blast
next
  case (leave i x)
  then show ?thesis using leave_inv assms(2) by blast
next
  case (invite fresh token now org email inviter r)
  then show ?thesis
    using assms(2)
    by (auto simp: invite_user_execute_def workspace_inv_def Let_def invitation_create_def
        intro!: invitations_save_inv split: sum.splits)
next
  case (accept i v now v')
  then show ?thesis
    using assms(2) by (auto simp: workspace_inv_def invitation_accept_Inr intro!: invitations_save_inv)
next
  case (revoke_invitation i v)
  then have "iv_status v = InvAccepted \<longleftrightarrow> iv_accepted_at v \<noteq> None"
    using assms(2) by (auto simp: workspace_inv_def invitations_inv_def invitations_find_by_id_def)
  then show ?thesis
    using assms(2) revoke_invitation
    by (cases "iv_status v")
      (auto simp: workspace_inv_def invitation_revoke_def intro!: invitations_save_inv)
next
  case (create_key publishes fresh entropy now name org scopes expires r es)
  then show ?thesis
    using assms(2) by (auto simp: create_api_key_execute_def workspace_inv_def split: sum.splits)
next
  case (revoke_key i k now)
  then show ?thesis using assms(2) by (simp add: workspace_inv_def)
next
  case (user_step m)
  then show ?thesis using assms(2) directory_step_inv by (auto simp: workspace_inv_def)
qed

lemma empty_workspace_inv [simp]: "workspace_inv empty_workspace"
  by (simp add: workspace_inv_def empty_workspace_def orgs_inv_def members_inv_def
      owners_seated_def invitations_inv_def)

lemma workspace_steps_inv:
  "workspace_steps digest w w' \<Longrightarrow> workspace_inv w \<Longrightarrow> workspace_inv w'"
  by (induction rule: workspace_steps.induct) (auto intro: workspace_step_inv)

section \<open>What the runs keep\<close>

lemma workspace_step_org_keep:
  "workspace_step digest w w' \<Longrightarrow> map_get (ws_orgs w) i = Some g \<Longrightarrow> map_get (ws_orgs w') i = Some g"
proof (induction rule: workspace_step.induct)
  case (create_organization org_id member_id now name slug owner w r w')
  then show ?case
    by (auto simp: create_organization_execute_def membership_create_def Let_def orgs_save_def
        split: if_splits sum.splits) (metis organization_create_Inr option.distinct(1))
qed (auto simp: invite_user_execute_def create_api_key_execute_def Let_def split: sum.splits)

lemma workspace_steps_org_keep:
  "workspace_steps digest w w' \<Longrightarrow> map_get (ws_orgs w) i = Some g \<Longrightarrow> map_get (ws_orgs w') i = Some g"
  by (induction rule: workspace_steps.induct) (auto intro: workspace_step_org_keep)

text \<open>An accepted invitation stays as it was accepted.\<close>

lemma workspace_step_accepted:
  assumes "workspace_step digest w w'" "map_get (ws_invitations w) i = Some v"
    "iv_status v = InvAccepted" "workspace_inv w"
  shows "map_get (ws_invitations w') i = Some v"
proof -
  have ids: "iv_id u = j" if "map_get (ws_invitations w) j = Some u" for j u
    using assms(4) that by (simp add: workspace_inv_def invitations_inv_def)
  show ?thesis
    using assms(1)
  proof (cases rule: workspace_step.cases)
    case (create_organization org_id member_id now name slug owner r)
    then show ?thesis
      using assms(2) by (auto simp: create_organization_execute_def Let_def split: if_splits sum.splits)
  next
    case (invite fresh token now org email inviter r)
    then show ?thesis
      using assms(2)
      by (auto simp: invite_user_execute_def Let_def invitations_save_def invitation_create_def
          split: sum.splits)
  next
    case (accept j u now u')
    then show ?thesis
      using assms(2,3) ids by (auto simp: invitations_find_by_id_def invitations_save_def invitation_accept_Inr)
  next
    case (revoke_invitation j u)
    then show ?thesis
      using assms(2,3) ids
      by (auto simp: invitations_find_by_id_def invitations_save_def invitation_revoke_def)
  next
    case (create_key publishes fresh entropy now name org scopes expires r es)
    then show ?thesis using assms(2) by (auto simp: create_api_key_execute_def split: sum.splits)
  qed (use assms(2) in auto)
qed

lemma workspace_steps_accepted:
  assumes "workspace_steps digest w w'" "workspace_inv w"
    "map_get (ws_invitations w) i = Some v" "iv_status v = InvAccepted"
  shows "map_get (ws_invitations w') i = Some v"
  using assms
  by (induction rule: workspace_steps.induct) (auto dest: workspace_steps_inv intro: workspace_step_accepted)

text \<open>
  An invitation is used once: it can be accepted only before its expiry and while pending, and
  once an acceptance is saved, every later workspace still shows it accepted at that instant and
  refuses every further attempt.
\<close>

theorem invitation_accepted_once:
  assumes "workspace_steps digest empty_workspace w"
    and "invitations_find_by_id (ws_invitations w) i = Some v"
    and "invitation_accept now v = Inr v'"
    and "workspace_steps digest (w\<lparr>ws_invitations := invitations_save v' (ws_invitations w)\<rparr>) w'"
  shows "now < iv_expires_at v \<and> iv_status v = InvPending \<and>
    (\<exists>u. invitations_find_by_id (ws_invitations w') i = Some u \<and> iv_accepted_at u = Some now \<and>
       invitation_accept later u = Inl (ValidationError [(''status'', [''already_accepted''])]))"
proof -
  let ?m = "w\<lparr>ws_invitations := invitations_save v' (ws_invitations w)\<rparr>"
  have inv: "workspace_inv w" using workspace_steps_inv [OF assms(1)] by simp
  have id: "iv_id v = i"
    using inv assms(2) by (simp add: workspace_inv_def invitations_inv_def invitations_find_by_id_def)
  have v': "iv_status v = InvPending" "now < iv_expires_at v"
    "v' = v\<lparr>iv_status := InvAccepted, iv_accepted_at := Some now, iv_events := []\<rparr>"
    using assms(3) by (auto simp: invitation_accept_Inr)
  have "workspace_step digest w ?m" by (rule workspace_step.accept [OF assms(2,3)])
  then have "workspace_inv ?m" using workspace_step_inv inv by blast
  moreover have "map_get (ws_invitations ?m) i = Some v'" using v' id by (simp add: invitations_save_def)
  ultimately have "map_get (ws_invitations w') i = Some v'"
    using workspace_steps_accepted [OF assms(4)] v' by simp
  then show ?thesis using v' by (simp add: invitations_find_by_id_def invitation_accept_def)
qed

section \<open>The organization directory\<close>

text \<open>
  C29: In every workspace the use cases reach from an empty one, each organization has a name of 1
  to 128 characters and a slug of 3 to 63 made of non-empty lowercase alphanumeric segments; no
  two organizations share a slug; its owner has a membership row in it, which the creation saved
  with it; and a user holds at most one active membership per organization. No later step changes
  or removes an organization, so its slug stays taken: creating another with any spelling of it
  is refused with a conflict and leaves the workspace as it was.
\<close>

theorem organization_directory_sound:
  assumes "workspace_steps digest empty_workspace w" and "workspace_steps digest w w'"
    and "map_get (ws_orgs w) i = Some g"
  shows "organization_wf g \<and>
    (\<forall>j h. map_get (ws_orgs w) j = Some h \<and> og_slug h = og_slug g \<longrightarrow> j = i) \<and>
    (\<exists>j x. map_get (ws_members w) j = Some x \<and> mb_user x = og_owner g \<and> mb_org x = i) \<and>
    (\<forall>j x k y. map_get (ws_members w) j = Some x \<and> map_get (ws_members w) k = Some y \<and>
       same_seat x y \<longrightarrow> j = k) \<and>
    map_get (ws_orgs w') i = Some g \<and>
    (\<forall>raw org_id member_id now name owner. js_lower (js_trim raw) = og_slug g \<longrightarrow>
       create_organization_execute org_id member_id now name raw owner w' = (Inl ConflictError, w'))"
proof -
  have inv: "workspace_inv w" using workspace_steps_inv [OF assms(1)] by simp
  then have o: "orgs_inv (ws_orgs w)" and m: "members_inv (ws_members w)"
    and s: "owners_seated (ws_orgs w) (ws_members w)" by (simp_all add: workspace_inv_def)
  have keep: "map_get (ws_orgs w') i = Some g" by (rule workspace_steps_org_keep [OF assms(2,3)])
  have "workspace_inv w'" by (rule workspace_steps_inv [OF assms(2) inv])
  then have taken: "orgs_exists_by_slug (ws_orgs w') (og_slug g)"
    using keep orgs_exists_by_slug_iff unfolding workspace_inv_def by blast
  have "organization_wf g" using o assms(3) by (simp add: orgs_inv_def)
  moreover have "\<forall>j h. map_get (ws_orgs w) j = Some h \<and> og_slug h = og_slug g \<longrightarrow> j = i"
    using o assms(3) unfolding orgs_inv_def by blast
  moreover have "\<exists>j x. map_get (ws_members w) j = Some x \<and> mb_user x = og_owner g \<and> mb_org x = i"
    using s assms(3) unfolding owners_seated_def by blast
  moreover have "\<forall>j x k y. map_get (ws_members w) j = Some x \<and> map_get (ws_members w) k = Some y \<and>
       same_seat x y \<longrightarrow> j = k"
    using m unfolding members_inv_def by blast
  ultimately show ?thesis
    using keep taken by (simp add: create_organization_execute_def)
qed

definition demo_org :: organization where
  "demo_org = \<lparr>og_id = ''o1'', og_name = ''Acme'', og_slug = ''acme-eu'', og_owner = ''u1'',
     og_status = OrgActive, og_created_at = 5, og_updated_at = 5\<rparr>"

definition demo_seat :: membership where
  "demo_seat = \<lparr>mb_id = ''m1'', mb_user = ''u1'', mb_org = ''o1'', mb_status = MemberActive,
     mb_joined_at = 5\<rparr>"

definition demo_workspace :: workspace where
  "demo_workspace = empty_workspace\<lparr>ws_users := [(''u1'', demo_user)],
     ws_orgs := [(''o1'', demo_org)], ws_members := [(''m1'', demo_seat)]\<rparr>"

lemma demo_creation:
  "create_organization_execute ''o1'' ''m1'' 5 ''Acme '' ''Acme-EU'' ''u1''
     (empty_workspace\<lparr>ws_users := [(''u1'', demo_user)]\<rparr>) = (Inr (demo_org, demo_seat), demo_workspace)"
  by code_simp

lemma demo_workspace_steps: "workspace_steps digest empty_workspace demo_workspace"
proof (rule workspace_steps.more [OF workspace_steps.more [OF workspace_steps.refl]])
  have "directory_step (ws_users empty_workspace) [(''u1'', demo_user)]"
    using directory_step.register [OF demo_register_run] by (simp add: empty_workspace_def)
  then show "workspace_step digest empty_workspace (empty_workspace\<lparr>ws_users := [(''u1'', demo_user)]\<rparr>)"
    by (rule workspace_step.user_step)
  show "workspace_step digest (empty_workspace\<lparr>ws_users := [(''u1'', demo_user)]\<rparr>) demo_workspace"
    by (rule workspace_step.create_organization [OF demo_creation])
      (simp_all add: empty_workspace_def members_of_org_def map_values_def)
qed

theorem organization_directory_sound_witness:
  "organization_wf demo_org \<and>
   fst (create_organization_execute ''o2'' ''m2'' 9 ''Other'' ''  ACME-eu'' ''u2'' demo_workspace)
     = Inl ConflictError"
proof -
  have "map_get (ws_orgs demo_workspace) ''o1'' = Some demo_org" by (simp add: demo_workspace_def)
  moreover have "js_lower (js_trim ''  ACME-eu'') = og_slug demo_org" by code_simp
  ultimately show ?thesis
    using organization_directory_sound [OF demo_workspace_steps workspace_steps.refl, of "''o1''" demo_org]
    by simp
qed

section \<open>The batched query\<close>

definition active_of :: "workspace \<Rightarrow> string \<Rightarrow> membership list" where
  "active_of w org = filter (\<lambda>m. mb_status m = MemberActive) (members_of_org (ws_members w) org)"

lemma active_of_iff:
  "m \<in> set (active_of w org) \<longleftrightarrow>
     m \<in> set (map_values (ws_members w)) \<and> mb_org m = org \<and> mb_status m = MemberActive"
  by (auto simp: active_of_def members_of_org_def)

lemma get_organization_users_eq:
  "get_organization_users_execute org w = Inr (users_find_many (ws_users w) (map mb_user (active_of w org)))"
  by (cases "active_of w org") (simp_all add: get_organization_users_execute_def active_of_def users_find_many_def Let_def)

lemma push_member_get:
  "map_get (push_member um m acc) org =
     (if mb_org m = org
      then map_option (\<lambda>us. us @ (case map_get um (mb_user m) of None \<Rightarrow> [] | Some u \<Rightarrow> [u])) (map_get acc org)
      else map_get acc org)"
  by (cases "map_get acc org") (auto simp: push_member_def split: option.splits)

lemma push_member_fold:
  "map_get (fold (push_member um) ms acc) org =
     map_option (\<lambda>us. us @ List.map_filter (\<lambda>m. map_get um (mb_user m)) (filter (\<lambda>m. mb_org m = org) ms))
       (map_get acc org)"
proof (induction ms arbitrary: acc)
  case Nil
  then show ?case by (simp add: List.map_filter_def option.map_ident)
next
  case (Cons m ms)
  show ?case
    unfolding fold_Cons comp_def Cons.IH push_member_get
    by (cases "map_get um (mb_user m)")
      (simp_all add: List.map_filter_simps option.map_comp comp_def)
qed

lemma start_fold:
  "map_get (fold (\<lambda>i acc. map_set i [] acc) ids acc) org =
     (if org \<in> set ids then Some [] else map_get acc org)"
  by (induction ids arbitrary: acc) auto

lemma user_map_fold:
  "distinct (map u_id us) \<Longrightarrow>
     map_get (fold (\<lambda>u acc. map_set (u_id u) u acc) us acc) i = Some u \<longleftrightarrow>
       u \<in> set us \<and> u_id u = i \<or> i \<notin> u_id ` set us \<and> map_get acc i = Some u"
proof (induction us arbitrary: acc)
  case (Cons a us)
  then have "distinct (map u_id us)" "u_id a \<notin> u_id ` set us" by simp_all
  then show ?case
    unfolding fold_Cons comp_def Cons.IH [OF \<open>distinct (map u_id us)\<close>] by auto
qed simp

lemma get_users_by_ids_eq:
  defines "active \<equiv> \<lambda>w ids. filter (\<lambda>m. mb_status m = MemberActive) (members_of_orgs (ws_members w) ids)"
  shows "get_users_by_organization_ids_execute ids w =
    Inr (fold (push_member (fold (\<lambda>u acc. map_set (u_id u) u acc)
      (users_find_many (ws_users w) (set_of_list (map mb_user (active w ids)))) []))
      (active w ids) (fold (\<lambda>i acc. map_set i [] acc) ids []))"
proof -
  have none: "active w ids = []" if "set_of_list (map mb_user (active w ids)) = []"
    using that set_set_of_list [of "map mb_user (active w ids)"] by simp
  show ?thesis
  proof (cases "ids = [] \<or> set_of_list (map mb_user (active w ids)) = []")
    case True
    then have "active w ids = []" using none by (auto simp: active_def members_of_orgs_def)
    then show ?thesis
      by (simp add: get_users_by_organization_ids_execute_def active_def set_of_list_def Let_def)
  next
    case False
    then show ?thesis by (simp add: get_users_by_organization_ids_execute_def active_def Let_def)
  qed
qed

lemma active_filter:
  "org \<in> set ids \<Longrightarrow>
     filter (\<lambda>m. mb_org m = org)
       (filter (\<lambda>m. mb_status m = MemberActive) (members_of_orgs (ws_members w) ids)) = active_of w org"
  by (auto simp: active_of_def members_of_org_def members_of_orgs_def intro: filter_cong)

lemma map_values_distinct:
  assumes "map_wf m" "\<And>i x. map_get m i = Some x \<Longrightarrow> f x = i"
  shows "distinct (map f (map_values m))"
proof -
  have "map f (map_values m) = map fst m"
    using assms by (auto simp: map_values_def map_wf_def)
  then show ?thesis using assms(1) by (simp add: map_wf_def)
qed

lemma users_find_many_distinct:
  "directory_inv m \<Longrightarrow> distinct (map u_id (users_find_many m ids))"
  unfolding users_find_many_def
  by (rule distinct_map_filter, rule map_values_distinct) (auto simp: directory_inv_def)

lemma users_find_many_iff:
  "directory_inv m \<Longrightarrow> u \<in> set (users_find_many m ids) \<longleftrightarrow> u_id u \<in> set ids \<and> users_find_by_id m (u_id u) = Some u"
  by (auto simp: users_find_many_def directory_values users_find_by_id_iff user_is_deleted_def)

lemma distinct_mapD: "distinct (map f xs) \<Longrightarrow> distinct xs"
  by (simp add: distinct_map)

lemma map_filter_set: "set (List.map_filter f xs) = {y. \<exists>x \<in> set xs. f x = Some y}"
  by (induction xs) (auto simp: List.map_filter_simps split: option.splits)

lemma map_filter_keys:
  "(\<And>i u. g i = Some u \<Longrightarrow> key u = i) \<Longrightarrow>
     map key (List.map_filter (\<lambda>m. g (f m)) ms) = filter (\<lambda>i. g i \<noteq> None) (map f ms)"
  by (induction ms) (auto simp: List.map_filter_def)

lemma active_users_distinct:
  assumes "members_inv (ws_members w)"
  shows "distinct (map mb_user (active_of w org))"
proof -
  have "distinct (map mb_id (map_values (ws_members w)))"
    using assms by (intro map_values_distinct) (auto simp: members_inv_def)
  then have d: "distinct (active_of w org)"
    by (auto simp: active_of_def members_of_org_def distinct_map)
  have "x = y" if "x \<in> set (active_of w org)" "y \<in> set (active_of w org)" "mb_user x = mb_user y" for x y
  proof -
    have "x \<in> set (map_values (ws_members w))" "y \<in> set (map_values (ws_members w))"
      using that by (auto simp: active_of_def members_of_org_def)
    then obtain i j where ij: "map_get (ws_members w) i = Some x" "map_get (ws_members w) j = Some y"
      using assms unfolding members_inv_def by (metis map_values_iff)
    have "same_seat x y" using that by (auto simp: same_seat_def active_of_def members_of_org_def)
    then have "i = j" using assms ij unfolding members_inv_def by blast
    then show ?thesis using ij by simp
  qed
  then show ?thesis using d by (auto simp: distinct_map inj_on_def)
qed

text \<open>
  In every workspace the use cases reach, the batched query a GraphQL loader runs for many
  organizations answers exactly the requested ids, and for each of them the same users, each
  once, as the query for that organization alone: the users not soft-deleted that hold an active
  membership of it. Only their order may differ.
\<close>

theorem batched_members_agree:
  assumes "workspace_steps digest empty_workspace w"
  shows "\<exists>answer. get_users_by_organization_ids_execute ids w = Inr answer \<and>
    (\<forall>org. org \<notin> set ids \<longrightarrow> map_get answer org = None) \<and>
    (\<forall>org \<in> set ids. \<exists>us vs. map_get answer org = Some us \<and>
       get_organization_users_execute org w = Inr vs \<and> mset us = mset vs \<and> distinct us \<and>
       set us = {u. users_find_by_id (ws_users w) (u_id u) = Some u \<and>
         (\<exists>m \<in> set (map_values (ws_members w)). mb_user m = u_id u \<and> mb_org m = org \<and>
            mb_status m = MemberActive)})"
proof -
  have inv: "workspace_inv w" using workspace_steps_inv [OF assms] by simp
  then have dir: "directory_inv (ws_users w)" and mem: "members_inv (ws_members w)"
    by (simp_all add: workspace_inv_def)
  define active where "active = filter (\<lambda>m. mb_status m = MemberActive) (members_of_orgs (ws_members w) ids)"
  define um where "um = fold (\<lambda>u acc. map_set (u_id u) u acc)
      (users_find_many (ws_users w) (set_of_list (map mb_user active))) []"
  define answer where "answer = fold (push_member um) active (fold (\<lambda>i acc. map_set i [] acc) ids [])"
  have run: "get_users_by_organization_ids_execute ids w = Inr answer"
    unfolding get_users_by_ids_eq answer_def um_def active_def ..
  have um: "map_get um i = Some u \<longleftrightarrow> i \<in> set (map mb_user active) \<and> users_find_by_id (ws_users w) i = Some u"
    for i u
    using users_find_by_id_iff directory_invD [OF dir]
    unfolding um_def user_map_fold [OF users_find_many_distinct [OF dir]] users_find_many_iff [OF dir]
    by (auto simp del: set_map)
  show ?thesis
  proof (intro exI [of _ answer] conjI ballI allI impI)
    show "get_users_by_organization_ids_execute ids w = Inr answer" by (rule run)
    show "map_get answer org = None" if "org \<notin> set ids" for org
      using that by (simp add: answer_def push_member_fold start_fold)
    fix org assume org: "org \<in> set ids"
    define us where "us = List.map_filter (\<lambda>m. map_get um (mb_user m)) (active_of w org)"
    let ?vs = "users_find_many (ws_users w) (map mb_user (active_of w org))"
    have us: "map_get answer org = Some us"
      using org active_filter [OF org, of w]
      by (simp add: answer_def push_member_fold start_fold us_def active_def)
    have sub: "set (active_of w org) \<subseteq> set active"
      using org by (auto simp: active_def active_of_def members_of_org_def members_of_orgs_def)
    have set_us: "set us = {u. \<exists>m \<in> set (active_of w org). users_find_by_id (ws_users w) (mb_user m) = Some u}"
      unfolding us_def map_filter_set um using sub by auto
    have id: "u_id u = i" if "users_find_by_id (ws_users w) i = Some u" for i u
      using that users_find_by_id_iff directory_invD [OF dir] by blast
    have set_vs: "set ?vs = set us"
      using users_find_many_iff [OF dir] id unfolding set_us by fastforce
    have key: "u_id u = i" if "map_get um i = Some u" for i u using that um id by blast
    have "map u_id us = filter (\<lambda>i. map_get um i \<noteq> None) (map mb_user (active_of w org))"
      unfolding us_def by (rule map_filter_keys) (rule key)
    then have "distinct (map u_id us)"
      using distinct_filter [OF active_users_distinct [OF mem, of org]] by metis
    then have d: "distinct us" by (rule distinct_mapD)
    have dv: "distinct ?vs"
      by (rule distinct_mapD [OF users_find_many_distinct [OF dir]])
    have "mset us = mset ?vs" by (rule iffD1 [OF set_eq_iff_mset_eq_distinct [OF d dv] set_vs [symmetric]])
    have "set us = {u. users_find_by_id (ws_users w) (u_id u) = Some u \<and>
         (\<exists>m \<in> set (map_values (ws_members w)). mb_user m = u_id u \<and> mb_org m = org \<and>
            mb_status m = MemberActive)}"
      unfolding set_us
    proof (intro Collect_cong iffI; elim bexE conjE)
      fix u m assume m: "m \<in> set (active_of w org)" "users_find_by_id (ws_users w) (mb_user m) = Some u"
      have "u_id u = mb_user m" using id m(2) by simp
      then show "users_find_by_id (ws_users w) (u_id u) = Some u \<and>
          (\<exists>m \<in> set (map_values (ws_members w)). mb_user m = u_id u \<and> mb_org m = org \<and>
            mb_status m = MemberActive)"
        using m active_of_iff by auto
    next
      fix u m assume "users_find_by_id (ws_users w) (u_id u) = Some u"
        "m \<in> set (map_values (ws_members w))" "mb_user m = u_id u" "mb_org m = org" "mb_status m = MemberActive"
      then show "\<exists>m \<in> set (active_of w org). users_find_by_id (ws_users w) (mb_user m) = Some u"
        using active_of_iff by (intro bexI [of _ m]) auto
    qed
    with us d \<open>mset us = mset ?vs\<close> show "\<exists>us vs. map_get answer org = Some us \<and>
       get_organization_users_execute org w = Inr vs \<and> mset us = mset vs \<and> distinct us \<and>
       set us = {u. users_find_by_id (ws_users w) (u_id u) = Some u \<and>
         (\<exists>m \<in> set (map_values (ws_members w)). mb_user m = u_id u \<and> mb_org m = org \<and>
            mb_status m = MemberActive)}"
      using get_organization_users_eq [of org w]
      by - (intro exI [of _ us] exI [of _ ?vs] conjI, assumption+)
  qed
qed

definition demo_members_answer :: "(string, user list) js_map result" where
  "demo_members_answer = get_users_by_organization_ids_execute [''o1'', ''o9''] demo_workspace"

theorem batched_members_agree_witness:
  "(\<exists>answer. demo_members_answer = Inr answer \<and> map_get answer ''o7'' = None) \<and>
   demo_members_answer = Inr [(''o1'', [demo_user]), (''o9'', [])]"
proof
  show "\<exists>answer. demo_members_answer = Inr answer \<and> map_get answer ''o7'' = None"
  proof -
    obtain answer where a:
      "get_users_by_organization_ids_execute [''o1'', ''o9''] demo_workspace = Inr answer"
      "\<forall>org. org \<notin> set [''o1'', ''o9''] \<longrightarrow> map_get answer org = None"
      using batched_members_agree [OF demo_workspace_steps, of "[''o1'', ''o9'']"]
      by blast
    have "''o7'' \<notin> set [''o1'', ''o9'']" by simp
    with a show ?thesis unfolding demo_members_answer_def by blast
  qed
  show "demo_members_answer = Inr [(''o1'', [demo_user]), (''o9'', [])]" by code_simp
qed

end
