(* ===== verification/ApiGuards.thy ===== *)
theory ApiGuards
  imports HttpEdge OrganizationRuns
begin

text \<open>
  The guards a route of the API can stand behind, \<open>apps/api/src/plugins\<close>: API-key authentication,
  the fixed-window rate limiter and the idempotency store with its hooks. The clock is an
  argument and SHA-256 a parameter. The limiter's and the idempotency store's maps in memory are
  modelled; of their Redis branches only what is computed from Redis's answer.
\<close>

section \<open>API-key authentication\<close>

record service_principal =
  sp_id :: string
  sp_name :: string
  sp_org :: string
  sp_scopes :: "string list"
  sp_permissions :: "string list"

definition auth_excluded_paths :: "path_exclusion list" where
  "auth_excluded_paths =
     [ExactPath ''/health'', ExactPath ''/docs'', ExactPath ''/favicon.ico'', ExactPath ''/auth/login'',
      ExactPath ''/auth/register'']"

text \<open>\<open>s.split(/\s+/)\<close>.\<close>

function split_ws :: "string \<Rightarrow> string list" where
  "split_ws [] = [[]]"
| "split_ws (c # cs) =
     (if js_ws c then [] # split_ws (dropWhile js_ws cs)
      else (case split_ws cs of [] \<Rightarrow> [[c]] | w # ws \<Rightarrow> (c # w) # ws))"
  by pat_completeness auto
termination
  by (relation "measure length") (auto simp: le_imp_less_Suc length_dropWhile_le)

definition extract_api_key :: "http_request \<Rightarrow> string option" where
  "extract_api_key r =
     (let from_header = (case header_text r ''x-api-key'' of
            Some x \<Rightarrow> (if length (js_trim x) > 0 then Some (js_trim x) else None)
          | None \<Rightarrow> None)
      in case header_text r ''authorization'' of
        None \<Rightarrow> from_header
      | Some auth \<Rightarrow>
          (case split_ws (js_trim auth) of
             [scheme, credential] \<Rightarrow>
               (if js_lower scheme = ''apikey'' \<or> js_lower scheme = ''bearer''
                then if starts_with credential ''vx_'' then Some credential
                     else if js_lower scheme = ''apikey'' then Some credential
                     else from_header
                else from_header)
           | _ \<Rightarrow> from_header))"

datatype auth_outcome =
    AuthSkip
  | AuthReject "error_body reply"
  | AuthPrincipal service_principal

definition service_principal_of :: "api_key \<Rightarrow> service_principal" where
  "service_principal_of k =
     \<lparr>sp_id = ak_id k, sp_name = ak_name k, sp_org = ak_org k, sp_scopes = ak_scopes k,
      sp_permissions = set_of_list (ak_scopes k)\<rparr>"

definition api_key_hook ::
  "(string \<Rightarrow> string) \<Rightarrow> (string \<Rightarrow> api_key option) \<Rightarrow> path_exclusion list \<Rightarrow> bool \<Rightarrow> int
     \<Rightarrow> http_request \<Rightarrow> auth_outcome" where
  "api_key_hook digest find_by_hash excluded is_optional now r =
     (let reject = (\<lambda>m. AuthReject (send_api_error (rq_id r) ''AUTHENTICATION_FAILED'' m None))
      in if is_path_excluded (path_of_url (rq_url r)) excluded then AuthSkip
         else case extract_api_key r of
           None \<Rightarrow>
             (if is_optional then AuthSkip
              else reject ''Authentication required. Provide an API key or bearer token.'')
         | Some raw_key \<Rightarrow>
             (case find_by_hash (digest raw_key) of
                None \<Rightarrow> reject ''Invalid API key.''
              | Some k \<Rightarrow>
                  (if \<not> api_key_matches digest raw_key k then reject ''Invalid API key.''
                   else if \<not> api_key_is_active now k
                   then reject (if ak_status k = KeyRevoked then ''API key has been revoked.''
                                else ''API key has expired.'')
                   else AuthPrincipal (service_principal_of k))))"

section \<open>The rate limiter\<close>

record limit_result =
  lr_allowed :: bool
  lr_remaining :: nat
  lr_reset_at :: int
  lr_retry_after :: int

text \<open>A counter and the end of its window, per key.\<close>

type_synonym limit_store = "(string, nat \<times> int) js_map"

definition ceil_seconds :: "int \<Rightarrow> int" where
  "ceil_seconds ms = - ((- ms) div 1000)"

text \<open>Redis's answer to \<open>INCR\<close> and \<open>PTTL\<close>, and whether the key's expiry is set again.\<close>

definition redis_consume :: "int \<Rightarrow> nat \<Rightarrow> int \<Rightarrow> nat \<Rightarrow> int \<Rightarrow> limit_result \<times> bool" where
  "redis_consume now hits pttl limit window =
     (let renew = (hits = 1 \<or> pttl < 0);
          ttl = (if renew then window else pttl)
      in (\<lparr>lr_allowed = hits \<le> limit, lr_remaining = limit - hits, lr_reset_at = now + max 0 ttl,
           lr_retry_after = max 1 (ceil_seconds ttl)\<rparr>, renew))"

definition limit_consume :: "int \<Rightarrow> string \<Rightarrow> nat \<Rightarrow> int \<Rightarrow> limit_store \<Rightarrow> limit_result \<times> limit_store" where
  "limit_consume now key limit window s =
     (let start = (\<lparr>lr_allowed = 1 \<le> limit, lr_remaining = limit - 1, lr_reset_at = now + window,
                    lr_retry_after = ceil_seconds window\<rparr>, map_set key (1, now + window) s)
      in case map_get s key of
        None \<Rightarrow> start
      | Some (hits, reset_at) \<Rightarrow>
          (if now \<ge> reset_at then start
           else let hits = hits + 1;
                    pttl = max 0 (reset_at - now)
                in (\<lparr>lr_allowed = hits \<le> limit, lr_remaining = limit - hits, lr_reset_at = reset_at,
                     lr_retry_after = max 1 (ceil_seconds pttl)\<rparr>, map_set key (hits, reset_at) s)))"

text \<open>The limit settings of a route; absent ones fall back to the plugin's defaults.\<close>

record route_limit =
  rl_max :: "nat option"
  rl_window :: "int option"
  rl_identifier :: "(http_request \<Rightarrow> string) option"

definition limit_principal :: "http_request \<Rightarrow> string" where
  "limit_principal r =
     (case header_text r ''x-user-id'' of
        Some u \<Rightarrow> (if length u > 0 then ''user:'' @ u
                  else (case header_text r ''x-api-key'' of
                     Some k \<Rightarrow> (if length k > 0 then ''apikey:'' @ k else ''ip:'' @ rq_ip r)
                   | None \<Rightarrow> ''ip:'' @ rq_ip r))
      | None \<Rightarrow> (case header_text r ''x-api-key'' of
           Some k \<Rightarrow> (if length k > 0 then ''apikey:'' @ k else ''ip:'' @ rq_ip r)
         | None \<Rightarrow> ''ip:'' @ rq_ip r))"

definition limit_key :: "route_limit option \<Rightarrow> http_request \<Rightarrow> string" where
  "limit_key route r =
     (case Option.bind route rl_identifier of
        Some f \<Rightarrow> f r
      | None \<Rightarrow> rq_url r @ '':'' @ limit_principal r)"

text \<open>The headers it sets and, when the limit is exceeded, the reply that ends the request.\<close>

definition rate_limit_hook ::
  "nat \<Rightarrow> int \<Rightarrow> route_limit option \<Rightarrow> int \<Rightarrow> http_request \<Rightarrow> limit_store
     \<Rightarrow> ((string \<times> int) list \<times> error_body reply option) \<times> limit_store" where
  "rate_limit_hook default_max default_window route now r s =
     (let max = or_default (Option.bind route rl_max) default_max;
          window = or_default (Option.bind route rl_window) default_window;
          (result, s') = limit_consume now (limit_key route r) max window s;
          headers = [(''X-RateLimit-Limit'', int max), (''X-RateLimit-Remaining'', int (lr_remaining result)),
                     (''X-RateLimit-Reset'', ceil_seconds (lr_reset_at result))]
      in if \<not> lr_allowed result
         then ((headers @ [(''Retry-After'', lr_retry_after result)],
                Some (send_api_error (rq_id r) ''RATE_LIMITED''
                  ''Rate limit exceeded. Please retry later.'' None)), s')
         else ((headers, None), s'))"

section \<open>Idempotency keys\<close>

record idem_record =
  ir_request_hash :: string
  ir_status :: nat
  ir_content_type :: "string option"
  ir_body :: string
  ir_created_at :: int

type_synonym idem_store = "(string, idem_record \<times> int) js_map"

definition default_idempotency_ttl_seconds :: int where
  "default_idempotency_ttl_seconds = 86400"

definition idem_get :: "int \<Rightarrow> string \<Rightarrow> idem_store \<Rightarrow> idem_record option \<times> idem_store" where
  "idem_get now key s =
     (case map_get s key of
        None \<Rightarrow> (None, s)
      | Some (rec, expires_at) \<Rightarrow>
          (if now > expires_at then (None, map_delete key s) else (Some rec, s)))"

definition idem_set :: "int \<Rightarrow> int \<Rightarrow> string \<Rightarrow> idem_record \<Rightarrow> idem_store \<Rightarrow> idem_store" where
  "idem_set now ttl_seconds key rec s = map_set key (rec, now + ttl_seconds * 1000) s"

definition idem_clear :: "idem_store \<Rightarrow> idem_store" where
  "idem_clear s = []"

text \<open>The body of a request as the text that is hashed: itself, or its \<open>JSON.stringify\<close>.\<close>

definition hash_request :: "(string \<Rightarrow> string) \<Rightarrow> string \<Rightarrow> string \<Rightarrow> string option \<Rightarrow> string" where
  "hash_request digest verb url body =
     digest (map ascii_upper verb @ '':'' @ url @ '':'' @ or_default body '''')"

record api_reply =
  ar_status :: nat
  ar_content_type :: "string option"
  ar_body :: string
  ar_replayed :: bool

datatype idem_outcome = IdemPass "(string \<times> string) option" | IdemReply "(string \<times> string)" api_reply

text \<open>
  The \<open>preHandler\<close> hook; \<open>conflict_body\<close> is the serialized error envelope. The pair it passes on
  is the key and the hash of the request, which the hook leaves on the request object.
\<close>

definition idem_pre_handler ::
  "(string \<Rightarrow> string) \<Rightarrow> string \<Rightarrow> int \<Rightarrow> http_request \<Rightarrow> string option \<Rightarrow> idem_store
     \<Rightarrow> idem_outcome \<times> idem_store" where
  "idem_pre_handler digest conflict_body now r body s =
     (if rq_method r \<noteq> ''POST'' \<and> rq_method r \<noteq> ''PATCH'' then (IdemPass None, s)
      else case header_text r ''idempotency-key'' of
        None \<Rightarrow> (IdemPass None, s)
      | Some raw \<Rightarrow>
          (if length (js_trim raw) = 0 then (IdemPass None, s)
           else let key = js_trim raw;
                    current = hash_request digest (rq_method r) (rq_url r) body;
                    (existing, s') = idem_get now key s
                in case existing of
                  None \<Rightarrow> (IdemPass (Some (key, current)), s')
                | Some rec \<Rightarrow>
                    (if ir_request_hash rec \<noteq> current
                     then (IdemReply (key, current)
                       \<lparr>ar_status = api_error_status ''CONFLICT'',
                        ar_content_type = Some ''application/json; charset=utf-8'',
                        ar_body = conflict_body, ar_replayed = False\<rparr>, s')
                     else (IdemReply (key, current)
                       \<lparr>ar_status = ir_status rec,
                        ar_content_type = (if ir_content_type rec = Some '''' then None
                                           else ir_content_type rec),
                        ar_body = ir_body rec, ar_replayed = True\<rparr>, s'))))"

definition idem_on_send ::
  "int \<Rightarrow> int \<Rightarrow> (string \<times> string) option \<Rightarrow> api_reply \<Rightarrow> idem_store \<Rightarrow> idem_store" where
  "idem_on_send ttl now context reply s =
     (case context of
        None \<Rightarrow> s
      | Some (key, hash) \<Rightarrow>
          (if length key = 0 \<or> length hash = 0 \<or> ar_status reply \<ge> 500 then s
           else if ar_replayed reply then s
           else idem_set now ttl key
                  \<lparr>ir_request_hash = hash, ir_status = ar_status reply,
                   ir_content_type = ar_content_type reply, ir_body = ar_body reply,
                   ir_created_at = now\<rparr> s))"

text \<open>
  One request through both hooks: a reply sent by the first hook ends the request, and Fastify
  runs \<open>onSend\<close> for it as for any other. The handler takes the state of the application.
\<close>

definition idem_serve ::
  "(string \<Rightarrow> string) \<Rightarrow> string \<Rightarrow> int \<Rightarrow> int \<Rightarrow> http_request \<Rightarrow> string option \<Rightarrow> ('a \<Rightarrow> api_reply \<times> 'a)
     \<Rightarrow> 'a \<times> idem_store \<Rightarrow> api_reply \<times> 'a \<times> idem_store" where
  "idem_serve digest conflict_body ttl now r body handler st =
     (case idem_pre_handler digest conflict_body now r body (snd st) of
        (IdemReply context reply, s) \<Rightarrow> (reply, fst st, idem_on_send ttl now (Some context) reply s)
      | (IdemPass context, s) \<Rightarrow>
          (let (reply, a) = handler (fst st)
           in (reply, a, idem_on_send ttl now context reply s)))"

end
