(* ===== verification/ApiGuardRuns.thy ===== *)
theory ApiGuardRuns
  imports ApiGuards
begin

text \<open>
  What the guards guarantee over runs: an issued API key authenticates until it is revoked or
  expires, a fixed window admits a bounded number of requests, and a retried request is answered
  from the record of the first; and the sequences of requests for which they do less.
\<close>

section \<open>API keys\<close>

definition keys_inv :: "api_key_store \<Rightarrow> bool" where
  "keys_inv m \<longleftrightarrow> map_wf m \<and> (\<forall>i k. map_get m i = Some k \<longrightarrow> ak_id k = i) \<and>
     (\<forall>i j k l. map_get m i = Some k \<longrightarrow> map_get m j = Some l \<longrightarrow> ak_hash k = ak_hash l \<longrightarrow> i = j)"

definition same_key :: "api_key \<Rightarrow> api_key \<Rightarrow> bool" where
  "same_key k l \<longleftrightarrow> ak_id l = ak_id k \<and> ak_name l = ak_name k \<and> ak_org l = ak_org k \<and>
     ak_hash l = ak_hash k \<and> ak_scopes l = ak_scopes k \<and> ak_expires_at l = ak_expires_at k \<and>
     (ak_status l = ak_status k \<or> ak_status l = KeyRevoked)"

lemma same_key_refl [simp]: "same_key k k"
  by (simp add: same_key_def)

lemma same_key_trans: "same_key a b \<Longrightarrow> same_key b c \<Longrightarrow> same_key a c"
  by (auto simp: same_key_def)

lemma same_key_revoke [simp]: "same_key k (api_key_revoke now k)"
  by (simp add: same_key_def api_key_revoke_def)

lemma api_key_create_Inr:
  "api_key_create digest fresh entropy now name org scopes expires = Inr (k, raw) \<Longrightarrow>
     ak_id k = fresh \<and> raw = ''vx_'' @ entropy \<and> ak_hash k = digest raw \<and> ak_status k = KeyActive \<and>
     ak_expires_at k = expires \<and> ak_org k = org \<and> ak_scopes k = or_default scopes []"
  by (auto simp: api_key_create_def Let_def split: if_splits)

lemma keys_inv_ids: "keys_inv m \<Longrightarrow> map_get m i = Some k \<Longrightarrow> ak_id k = i"
  unfolding keys_inv_def by blast

lemma keys_inv_hash:
  "keys_inv m \<Longrightarrow> map_get m i = Some k \<Longrightarrow> map_get m j = Some l \<Longrightarrow> ak_hash k = ak_hash l \<Longrightarrow> i = j"
  unfolding keys_inv_def by blast

lemma keys_inv_values: "keys_inv m \<Longrightarrow> k \<in> set (map_values m) \<longleftrightarrow> map_get m (ak_id k) = Some k"
  using map_values_iff [of m k] keys_inv_ids [of m] unfolding keys_inv_def by metis

lemma keys_find_by_hash_iff:
  assumes "keys_inv m"
  shows "keys_find_by_hash m h = Some k \<longleftrightarrow> map_get m (ak_id k) = Some k \<and> ak_hash k = h"
proof
  assume "keys_find_by_hash m h = Some k"
  then have "k \<in> set (map_values m) \<and> ak_hash k = h"
    unfolding keys_find_by_hash_def by (rule find_SomeD)
  then show "map_get m (ak_id k) = Some k \<and> ak_hash k = h" using keys_inv_values [OF assms] by blast
next
  assume h: "map_get m (ak_id k) = Some k \<and> ak_hash k = h"
  then have "k \<in> set (map_values m)" using keys_inv_values [OF assms] by blast
  then obtain l where l: "keys_find_by_hash m h = Some l"
    unfolding keys_find_by_hash_def using h find_exists [of k "map_values m" "\<lambda>k. ak_hash k = h"] by blast
  then have lv: "l \<in> set (map_values m) \<and> ak_hash l = h"
    unfolding keys_find_by_hash_def by (rule find_SomeD)
  then have lm: "map_get m (ak_id l) = Some l" using keys_inv_values [OF assms] by blast
  have "ak_id l = ak_id k" using keys_inv_hash [OF assms lm] h lv by blast
  with lm h have "l = k" by (metis option.inject)
  with l show "keys_find_by_hash m h = Some k" by blast
qed

lemma keys_save_inv:
  assumes "keys_inv m" "\<And>j l. j \<noteq> ak_id k \<Longrightarrow> map_get m j = Some l \<Longrightarrow> ak_hash l \<noteq> ak_hash k"
  shows "keys_inv (keys_save k m)"
  unfolding keys_inv_def keys_save_def
proof (intro conjI allI impI)
  show "map_wf (map_set (ak_id k) k m)" using assms(1) by (simp add: keys_inv_def)
  show "ak_id a = i" if "map_get (map_set (ak_id k) k m) i = Some a" for i a
    using that keys_inv_ids [OF assms(1)] by (cases "i = ak_id k") simp_all
  show "i = j" if h: "map_get (map_set (ak_id k) k m) i = Some a" "map_get (map_set (ak_id k) k m) j = Some b"
    "ak_hash a = ak_hash b" for i j a b
  proof (cases "i = ak_id k"; cases "j = ak_id k")
    assume c: "i = ak_id k" "j \<noteq> ak_id k"
    then have "a = k" "map_get m j = Some b" using h by simp_all
    then show ?thesis using assms(2) c h(3) by metis
  next
    assume c: "i \<noteq> ak_id k" "j = ak_id k"
    then have "b = k" "map_get m i = Some a" using h by simp_all
    then show ?thesis using assms(2) c h(3) by metis
  next
    assume c: "i \<noteq> ak_id k" "j \<noteq> ak_id k"
    then have "map_get m i = Some a" "map_get m j = Some b" using h by simp_all
    then show ?thesis using keys_inv_hash [OF assms(1)] h(3) by blast
  qed simp
qed

lemma keys_inv_revoke:
  assumes "keys_inv m" "map_get m i = Some k"
  shows "keys_inv (keys_save (api_key_revoke now k) m)"
proof (rule keys_save_inv [OF assms(1)])
  fix j l assume h: "j \<noteq> ak_id (api_key_revoke now k)" "map_get m j = Some l"
  have "ak_id (api_key_revoke now k) = i" "ak_hash (api_key_revoke now k) = ak_hash k"
    using keys_inv_ids [OF assms] by (simp_all add: api_key_revoke_def)
  then show "ak_hash l \<noteq> ak_hash (api_key_revoke now k)"
    using keys_inv_hash [OF assms(1) h(2) assms(2)] h(1) by argo
qed

lemma keys_kept:
  assumes "keys_inv m" "map_get m (ak_id k) = None \<or> (\<exists>l. map_get m (ak_id k) = Some l \<and> same_key l k)"
  shows "\<forall>i a. map_get m i = Some a \<longrightarrow> (\<exists>b. map_get (keys_save k m) i = Some b \<and> same_key a b)"
proof (intro allI impI)
  fix i a assume "map_get m i = Some a"
  then show "\<exists>b. map_get (keys_save k m) i = Some b \<and> same_key a b"
    using assms(2) by (cases "i = ak_id k") (auto simp: keys_save_def)
qed

lemma workspace_step_keys:
  assumes "workspace_step digest w w'" "keys_inv (ws_keys w)"
  shows "keys_inv (ws_keys w') \<and>
    (\<forall>i k. map_get (ws_keys w) i = Some k \<longrightarrow> (\<exists>l. map_get (ws_keys w') i = Some l \<and> same_key k l))"
  using assms(1)
proof (cases rule: workspace_step.cases)
  case (create_organization org_id member_id now name slug owner r)
  then have "ws_keys w' = ws_keys w"
    by (auto simp: create_organization_execute_def Let_def split: if_splits sum.splits)
  then show ?thesis using assms(2) by auto
next
  case (invite fresh token now org email inviter r)
  then have "ws_keys w' = ws_keys w"
    by (auto simp: invite_user_execute_def Let_def split: sum.splits)
  then show ?thesis using assms(2) by auto
next
  case (create_key publishes fresh entropy now name org scopes expires r es)
  show ?thesis
  proof (cases "api_key_create digest fresh entropy now name org scopes expires")
    case (Inl e)
    then have "ws_keys w' = ws_keys w" using create_key(1) by (simp add: create_api_key_execute_def)
    then show ?thesis using assms(2) by auto
  next
    case (Inr issued)
    obtain k raw where issued: "issued = (k, raw)" by (cases issued)
    have k: "ak_id k = fresh" "ak_hash k = digest (''vx_'' @ entropy)"
      using api_key_create_Inr [OF Inr [unfolded issued]] by simp_all
    have keys: "ws_keys w' = keys_save k (ws_keys w)"
      using create_key(1) Inr issued by (auto simp: create_api_key_execute_def)
    have no: "ak_hash l \<noteq> ak_hash k" if "map_get (ws_keys w) j = Some l" for j l
    proof
      assume h: "ak_hash l = ak_hash k"
      have "map_get (ws_keys w) (ak_id l) = Some l" using that keys_inv_ids [OF assms(2) that] by blast
      then have "keys_find_by_hash (ws_keys w) (ak_hash k) = Some l"
        unfolding keys_find_by_hash_iff [OF assms(2)] using h by blast
      then show False using create_key(3) k by simp
    qed
    then have "keys_inv (ws_keys w')" unfolding keys by (intro keys_save_inv [OF assms(2)])
    then show ?thesis using keys_kept [OF assms(2), of k] create_key(2) k keys by simp
  qed
next
  case (revoke_key i k now)
  have k: "map_get (ws_keys w) i = Some k" using revoke_key(2) by (simp add: keys_find_by_id_def)
  have id: "ak_id (api_key_revoke now k) = i"
    using keys_inv_ids [OF assms(2) k] by (simp add: api_key_revoke_def)
  have keys: "ws_keys w' = keys_save (api_key_revoke now k) (ws_keys w)" using revoke_key(1) by simp
  have "map_get (ws_keys w) (ak_id (api_key_revoke now k)) = None \<or>
      (\<exists>l. map_get (ws_keys w) (ak_id (api_key_revoke now k)) = Some l \<and> same_key l (api_key_revoke now k))"
    using k id by auto
  then show ?thesis using keys_inv_revoke [OF assms(2) k] keys_kept [OF assms(2)] unfolding keys by blast
qed (use assms(2) in auto)

lemma workspace_steps_keys:
  assumes "workspace_steps digest w w'" "keys_inv (ws_keys w)"
  shows "keys_inv (ws_keys w') \<and>
    (\<forall>i k. map_get (ws_keys w) i = Some k \<longrightarrow> (\<exists>l. map_get (ws_keys w') i = Some l \<and> same_key k l))"
  using assms
proof (induction rule: workspace_steps.induct)
  case (refl w)
  then show ?case by auto
next
  case (more w v u)
  then show ?case using workspace_step_keys [OF more.hyps(2)] same_key_trans by meson
qed

lemma api_key_hook_found:
  assumes "keys_inv m" "map_get m (ak_id l) = Some l" "ak_hash l = digest raw"
    and "extract_api_key r = Some raw" "\<not> is_path_excluded (path_of_url (rq_url r)) excluded"
  shows "api_key_hook digest (keys_find_by_hash m) excluded is_optional now r =
    (if api_key_is_active now l then AuthPrincipal (service_principal_of l)
     else AuthReject (send_api_error (rq_id r) ''AUTHENTICATION_FAILED''
       (if ak_status l = KeyRevoked then ''API key has been revoked.'' else ''API key has expired.'') None))"
proof -
  have "keys_find_by_hash m (digest raw) = Some l"
    unfolding keys_find_by_hash_iff [OF assms(1)] using assms(2,3) by blast
  then show ?thesis using assms(3-5) by (simp add: api_key_hook_def api_key_matches_def)
qed

lemma same_key_principal: "same_key k l \<Longrightarrow> service_principal_of l = service_principal_of k"
  by (simp add: same_key_def service_principal_of_def)

text \<open>
  C32: An issued API key works exactly until it is revoked or expires: whatever the workspace went
  through since \<open>CreateApiKey\<close> returned the raw key, a request that presents it is let in as the
  service principal of that key, with its organization and scopes, iff the stored key is not
  revoked and its expiry has not come, and is refused with a 401 otherwise. Once revoked it is
  refused in every later workspace. A key whose expiry is the Invalid Date never expires.
\<close>

theorem api_key_until_revoked:
  assumes "workspace_steps digest empty_workspace w"
    and "create_api_key_execute digest publishes fresh entropy now name org scopes expires w =
      (Inr (k, raw), w1, es)"
    and "map_get (ws_keys w) fresh = None"
    and "keys_find_by_hash (ws_keys w) (digest (''vx_'' @ entropy)) = None"
    and "workspace_steps digest w1 w2"
    and "extract_api_key r = Some raw" and "\<not> is_path_excluded (path_of_url (rq_url r)) excluded"
  shows "\<exists>l. keys_find_by_id (ws_keys w2) fresh = Some l \<and>
    (if ak_status l = KeyRevoked \<or> expired_by expires later
     then (\<exists>m. api_key_hook digest (keys_find_by_hash (ws_keys w2)) excluded is_optional later r =
            AuthReject (send_api_error (rq_id r) ''AUTHENTICATION_FAILED'' m None))
     else api_key_hook digest (keys_find_by_hash (ws_keys w2)) excluded is_optional later r =
            AuthPrincipal (service_principal_of k)) \<and>
    (ak_status l = KeyRevoked \<longrightarrow> (\<forall>w3 t. workspace_steps digest w2 w3 \<longrightarrow>
       api_key_hook digest (keys_find_by_hash (ws_keys w3)) excluded is_optional t r =
         AuthReject (send_api_error (rq_id r) ''AUTHENTICATION_FAILED'' ''API key has been revoked.'' None)))"
proof -
  have "keys_inv (ws_keys empty_workspace)" by (simp add: keys_inv_def empty_workspace_def)
  then have inv: "keys_inv (ws_keys w)" using workspace_steps_keys [OF assms(1)] by blast
  have made: "api_key_create digest fresh entropy now name org scopes expires = Inr (k, raw)"
    and w1: "w1 = w\<lparr>ws_keys := keys_save k (ws_keys w)\<rparr>"
    using assms(2) by (auto simp: create_api_key_execute_def split: sum.splits)
  note k = api_key_create_Inr [OF made]
  have inv1: "keys_inv (ws_keys w1)"
    using workspace_step_keys [OF workspace_step.create_key [OF assms(2-4)] inv] by blast
  have "map_get (ws_keys w1) fresh = Some k" using k w1 by (simp add: keys_save_def)
  then obtain l where l: "map_get (ws_keys w2) fresh = Some l" "same_key k l"
    using workspace_steps_keys [OF assms(5) inv1] by blast
  have inv2: "keys_inv (ws_keys w2)" using workspace_steps_keys [OF assms(5) inv1] by blast
  have al: "ak_id l = fresh" "ak_hash l = digest raw" "ak_expires_at l = expires"
    "ak_status l = KeyActive \<or> ak_status l = KeyRevoked"
    using l(2) k by (auto simp: same_key_def)
  note found = api_key_hook_found [where digest = digest and raw = raw, OF inv2 l(1) [folded al(1)] al(2) assms(6,7)]
  have answer: "if ak_status l = KeyRevoked \<or> expired_by expires later
     then (\<exists>m. api_key_hook digest (keys_find_by_hash (ws_keys w2)) excluded is_optional later r =
            AuthReject (send_api_error (rq_id r) ''AUTHENTICATION_FAILED'' m None))
     else api_key_hook digest (keys_find_by_hash (ws_keys w2)) excluded is_optional later r =
            AuthPrincipal (service_principal_of k)"
    unfolding found using al(3,4) same_key_principal [OF l(2)] by (auto simp: api_key_is_active_def)
  have dead: "api_key_hook digest (keys_find_by_hash (ws_keys w3)) excluded is_optional t r =
         AuthReject (send_api_error (rq_id r) ''AUTHENTICATION_FAILED'' ''API key has been revoked.'' None)"
    if revoked: "ak_status l = KeyRevoked" and steps: "workspace_steps digest w2 w3" for w3 t
  proof -
    obtain n where n: "map_get (ws_keys w3) fresh = Some n" "same_key l n"
      using workspace_steps_keys [OF steps inv2] l(1) by blast
    have "ak_id n = fresh" "ak_hash n = digest raw" "ak_status n = KeyRevoked"
      using n(2) al revoked by (auto simp: same_key_def)
    then show ?thesis
      using api_key_hook_found [of "ws_keys w3" n digest raw] workspace_steps_keys [OF steps inv2]
        n(1) assms(6,7) by (simp add: api_key_is_active_def)
  qed
  show ?thesis
    using l(1) answer dead unfolding keys_find_by_id_def by (intro exI [of _ l] conjI impI allI) auto
qed

definition demo_key_request :: http_request where
  "demo_key_request = \<lparr>rq_method = ''GET'', rq_url = ''/v1/me?full=1'',
     rq_headers = [(''authorization'', HText '' ApiKey  vx_abcd'')], rq_ip = ''10.0.0.1'',
     rq_protocol = ''https'', rq_id = ''r1''\<rparr>"

definition demo_key_creation :: "(api_key \<times> string) result \<times> workspace \<times> api_key_event list" where
  "demo_key_creation = create_api_key_execute (\<lambda>x. ''ab'' @ x) False ''k1'' ''abcd'' 5 '' CI '' ''o1''
     (Some [''audit:read'']) (Some (Some 100)) demo_workspace"

theorem api_key_until_revoked_witness:
  "(case demo_key_creation of
      (Inr (k, raw), w1, _) \<Rightarrow>
        api_key_hook (\<lambda>x. ''ab'' @ x) (keys_find_by_hash (ws_keys w1)) auth_excluded_paths False 50
          demo_key_request = AuthPrincipal (service_principal_of k) \<and>
        \<not> expired_by (Some (Some 100)) 50
    | _ \<Rightarrow> False)"
proof -
  have "case demo_key_creation of
      (Inr (k, raw), w1, es) \<Rightarrow> es = [] \<and>
        keys_find_by_id (ws_keys w1) ''k1'' = Some k \<and> ak_status k = KeyActive \<and>
        extract_api_key demo_key_request = Some raw \<and>
        \<not> is_path_excluded (path_of_url (rq_url demo_key_request)) auth_excluded_paths
    | _ \<Rightarrow> False" by code_simp
  then obtain k raw w1 where h: "demo_key_creation = (Inr (k, raw), w1, [])"
    "keys_find_by_id (ws_keys w1) ''k1'' = Some k" "ak_status k = KeyActive"
    "extract_api_key demo_key_request = Some raw"
    "\<not> is_path_excluded (path_of_url (rq_url demo_key_request)) auth_excluded_paths"
    by (auto split: prod.splits sum.splits)
  have empty: "map_get (ws_keys demo_workspace) ''k1'' = None"
    "keys_find_by_hash (ws_keys demo_workspace) (''ab'' @ ''vx_'' @ ''abcd'') = None"
    by (simp_all add: demo_workspace_def empty_workspace_def keys_find_by_hash_def map_values_def)
  show ?thesis
    using api_key_until_revoked [OF demo_workspace_steps h(1) [unfolded demo_key_creation_def] empty(1) empty(2)
        workspace_steps.refl h(4,5), of 50 False] h(2,3)
    unfolding h(1) by (auto simp: expired_by_def)
qed

section \<open>The rate limiter\<close>

text \<open>Calls of \<open>consume\<close> in order, each a time and a key, with what each was told.\<close>

fun limit_calls :: "nat \<Rightarrow> int \<Rightarrow> (int \<times> string) list \<Rightarrow> limit_store \<Rightarrow> (int \<times> string \<times> bool) list" where
  "limit_calls limit window [] s = []"
| "limit_calls limit window ((now, key) # calls) s =
     (let (result, s') = limit_consume now key limit window s
      in (now, key, lr_allowed result) # limit_calls limit window calls s')"

definition admitted :: "string \<Rightarrow> int \<Rightarrow> int \<Rightarrow> (int \<times> string \<times> bool) list \<Rightarrow> nat" where
  "admitted key a b out = length (filter (\<lambda>(t, k, ok). ok \<and> k = key \<and> a \<le> t \<and> t < b) out)"

lemma admitted_simps [simp]:
  "admitted key a b [] = 0"
  "admitted key a b ((t, k, ok) # out) =
     (if ok \<and> k = key \<and> a \<le> t \<and> t < b then 1 else 0) + admitted key a b out"
  by (simp_all add: admitted_def)

text \<open>What one call does to the entry of its key, and to no other.\<close>

lemma limit_consume_other:
  "k \<noteq> key \<Longrightarrow> map_get (snd (limit_consume now k limit window s)) key = map_get s key"
  by (auto simp: limit_consume_def Let_def split: option.splits)

lemma limit_consume_live:
  "map_get s key = Some (c, e) \<Longrightarrow> now < e \<Longrightarrow>
     lr_allowed (fst (limit_consume now key limit window s)) = (c + 1 \<le> limit) \<and>
     map_get (snd (limit_consume now key limit window s)) key = Some (c + 1, e)"
  by (simp add: limit_consume_def Let_def)

lemma limit_consume_fresh:
  "(case map_get s key of None \<Rightarrow> True | Some (c, e) \<Rightarrow> e \<le> now) \<Longrightarrow>
     lr_allowed (fst (limit_consume now key limit window s)) = (1 \<le> limit) \<and>
     map_get (snd (limit_consume now key limit window s)) key = Some (1, now + window)"
  by (auto simp: limit_consume_def Let_def split: option.splits)

lemma limit_calls_times: "map fst (limit_calls limit window calls s) = map fst calls"
  by (induction calls arbitrary: s) (auto simp: Let_def split: prod.splits)

lemma admitted_late:
  assumes "\<forall>t \<in> set (map fst calls). b \<le> t"
  shows "admitted key a b (limit_calls limit window calls s) = 0"
  using assms limit_calls_times [of limit window calls s]
  by (induction calls arbitrary: s) (auto simp: Let_def split: prod.splits)

lemma admitted_in_window:
  assumes "sorted (map fst calls)" "map_get s key = Some (c, e)" "b \<le> e"
  shows "admitted key a b (limit_calls limit window calls s) \<le> limit - c"
  using assms
proof (induction calls arbitrary: s c)
  case (Cons call calls)
  obtain t k where call: "call = (t, k)" by (cases call)
  let ?s = "snd (limit_consume t k limit window s)"
  have sorted: "sorted (map fst calls)" "\<forall>u \<in> set (map fst calls). t \<le> u"
    using Cons.prems(1) call by auto
  show ?case
  proof (cases "k = key")
    case False
    then show ?thesis
      using Cons.IH [OF sorted(1), of ?s c] Cons.prems limit_consume_other [OF False, of t limit window s]
      by (simp add: call case_prod_beta)
  next
    case True
    show ?thesis
    proof (cases "t < e")
      case True
      then show ?thesis
        using Cons.IH [OF sorted(1), of ?s "c + 1"] Cons.prems \<open>k = key\<close>
          limit_consume_live [OF Cons.prems(2) True, of limit window]
        by (auto simp: call case_prod_beta)
    next
      case False
      then have "\<forall>u \<in> set (map fst ((t, k) # calls)). b \<le> u" using sorted Cons.prems(3) by fastforce
      then show ?thesis using admitted_late [of "(t, k) # calls" b key a limit window s] call by simp
    qed
  qed
qed simp

definition spent :: "nat \<Rightarrow> (nat \<times> int) option \<Rightarrow> nat" where
  "spent limit entry = (case entry of None \<Rightarrow> 0 | Some (c, e) \<Rightarrow> limit - c)"

lemma admitted_from:
  assumes "sorted (map fst calls)" "\<forall>t \<in> set (map fst calls). a \<le> t"
  shows "admitted key a (a + window) (limit_calls limit window calls s) \<le>
    limit + spent limit (map_get s key)"
  using assms
proof (induction calls arbitrary: s)
  case (Cons call calls)
  obtain t k where call: "call = (t, k)" by (cases call)
  let ?s = "snd (limit_consume t k limit window s)"
  have sorted: "sorted (map fst calls)" "\<forall>u \<in> set (map fst calls). a \<le> u" "a \<le> t"
    using Cons.prems call by auto
  show ?case
  proof (cases "k = key")
    case False
    then show ?thesis
      using Cons.IH [OF sorted(1,2), of ?s] limit_consume_other [OF False, of t limit window s]
      by (simp add: call case_prod_beta)
  next
    case True
    show ?thesis
    proof (cases "case map_get s key of None \<Rightarrow> True | Some (c, e) \<Rightarrow> e \<le> t")
      case fresh: True
      note f = limit_consume_fresh [OF fresh, of limit window]
      have "admitted key a (a + window) (limit_calls limit window calls ?s) \<le> limit - 1"
        using f True sorted by (intro admitted_in_window [of _ _ _ _ "t + window"]) auto
      then show ?thesis using f True by (auto simp: call case_prod_beta)
    next
      case False
      then obtain c e where e: "map_get s key = Some (c, e)" "t < e"
        by (auto split: option.splits)
      note l = limit_consume_live [OF e, of limit window]
      show ?thesis
        using Cons.IH [OF sorted(1,2), of ?s] l True e
        by (auto simp: call case_prod_beta spent_def split: if_splits)
    qed
  qed
qed simp

text \<open>
  C33: The rate limiter in memory, for calls in the order of the clock and any limit and window:
  within every interval as long as the window it admits at most twice the limit for one key,
  whatever the other keys do; from the moment a window opens to its end it admits at most the
  limit. (Calls under different keys are never counted together, see
  \<open>distinct_keys_unlimited\<close>.)
\<close>

theorem rate_limit_bounded:
  assumes "sorted (map fst calls)"
  shows "admitted key a (a + window) (limit_calls limit window calls s) \<le> 2 * limit \<and>
    (map_get s key = None \<and> map snd (take 1 calls) = [key] \<longrightarrow>
       admitted key (fst (hd calls)) (fst (hd calls) + window) (limit_calls limit window calls s) \<le> limit)"
proof
  show "admitted key a (a + window) (limit_calls limit window calls s) \<le> 2 * limit"
    using assms
  proof (induction calls arbitrary: s)
    case (Cons call calls)
    obtain t k where call: "call = (t, k)" by (cases call)
    show ?case
    proof (cases "t < a")
      case True
      then show ?thesis using Cons by (simp add: call case_prod_beta)
    next
      case False
      then have "\<forall>u \<in> set (map fst (call # calls)). a \<le> u" using Cons.prems call by fastforce
      then have "admitted key a (a + window) (limit_calls limit window (call # calls) s) \<le>
          limit + spent limit (map_get s key)"
        by (intro admitted_from [OF Cons.prems])
      moreover have "spent limit (map_get s key) \<le> limit"
        by (auto simp: spent_def split: option.splits)
      ultimately show ?thesis by linarith
    qed
  qed simp
  show "map_get s key = None \<and> map snd (take 1 calls) = [key] \<longrightarrow>
       admitted key (fst (hd calls)) (fst (hd calls) + window) (limit_calls limit window calls s) \<le> limit"
    using admitted_from [OF assms, of "fst (hd calls)" key window limit s] assms
    by (cases calls) (auto simp: spent_def)
qed

theorem rate_limit_bounded_witness:
  "admitted ''k'' 900 1900 (limit_calls 2 1000 [(0, ''k''), (950, ''k''), (960, ''k''), (1000, ''k''), (1001, ''k'')] [])
     \<le> 4 \<and>
   admitted ''k'' 900 1900 (limit_calls 2 1000 [(0, ''k''), (950, ''k''), (960, ''k''), (1000, ''k''), (1001, ''k'')] []) = 3"
proof
  show "admitted ''k'' 900 1900 (limit_calls 2 1000 [(0, ''k''), (950, ''k''), (960, ''k''), (1000, ''k''), (1001, ''k'')] []) \<le> 4"
    using rate_limit_bounded [of "[(0, ''k''), (950, ''k''), (960, ''k''), (1000, ''k''), (1001, ''k'')]"
        "''k''" 900 1000 2 "[]"] by simp
  show "admitted ''k'' 900 1900 (limit_calls 2 1000 [(0, ''k''), (950, ''k''), (960, ''k''), (1000, ''k''), (1001, ''k'')] []) = 3"
    by code_simp
qed

text \<open>
  The key holds the URL with its query and a header the client writes, so a caller that changes
  either starts a new counter each time: every one of its requests is admitted.
\<close>

lemma distinct_keys_unlimited:
  assumes "distinct (map snd calls)" "\<forall>k \<in> set (map snd calls). map_get s k = None" "1 \<le> limit"
  shows "list_all (\<lambda>(t, k, ok). ok) (limit_calls limit window calls s)"
  using assms
proof (induction calls arbitrary: s)
  case (Cons call calls)
  obtain t k where call: "call = (t, k)" by (cases call)
  let ?s = "snd (limit_consume t k limit window s)"
  have d: "distinct (map snd calls)" "k \<notin> set (map snd calls)" "map_get s k = None"
    "\<forall>j \<in> set (map snd calls). map_get s j = None"
    using Cons.prems(1,2) call by auto
  have "\<forall>j \<in> set (map snd calls). map_get ?s j = None"
    using d(2,4) limit_consume_other by metis
  then have "list_all (\<lambda>(t, k, ok). ok) (limit_calls limit window calls ?s)"
    using Cons.IH d(1) assms(3) by blast
  moreover have "lr_allowed (fst (limit_consume t k limit window s))"
    using limit_consume_fresh [where s = s and key = k and now = t] d(3) assms(3) by simp
  ultimately show ?case unfolding call by (cases "limit_consume t k limit window s") simp
qed simp

lemma limit_key_header:
  "header_text r ''x-user-id'' = Some u \<Longrightarrow> u \<noteq> [] \<Longrightarrow> limit_key None r = rq_url r @ '':user:'' @ u"
  by (simp add: limit_key_def limit_principal_def)

section \<open>Idempotency keys\<close>

definition idem_key :: "http_request \<Rightarrow> string option" where
  "idem_key r =
     (if rq_method r = ''POST'' \<or> rq_method r = ''PATCH''
      then (case header_text r ''idempotency-key'' of
          Some raw \<Rightarrow> (if js_trim raw = [] then None else Some (js_trim raw))
        | None \<Rightarrow> None)
      else None)"

definition fingerprint :: "(string \<Rightarrow> string) \<Rightarrow> http_request \<Rightarrow> string option \<Rightarrow> string" where
  "fingerprint digest r body = hash_request digest (rq_method r) (rq_url r) body"

definition live_record :: "int \<Rightarrow> string \<Rightarrow> idem_store \<Rightarrow> idem_record option" where
  "live_record now key s =
     (case map_get s key of None \<Rightarrow> None | Some (rec, e) \<Rightarrow> (if now > e then None else Some rec))"

definition purge :: "int \<Rightarrow> string \<Rightarrow> idem_store \<Rightarrow> idem_store" where
  "purge now key s =
     (case map_get s key of None \<Rightarrow> s | Some (rec, e) \<Rightarrow> (if now > e then map_delete key s else s))"

lemma idem_get_eq: "idem_get now key s = (live_record now key s, purge now key s)"
  by (auto simp: idem_get_def live_record_def purge_def split: option.splits)

definition stored_reply :: "idem_record \<Rightarrow> api_reply" where
  "stored_reply rec =
     \<lparr>ar_status = ir_status rec,
      ar_content_type = (if ir_content_type rec = Some '''' then None else ir_content_type rec),
      ar_body = ir_body rec, ar_replayed = True\<rparr>"

definition conflict_reply :: "string \<Rightarrow> api_reply" where
  "conflict_reply conflict_body =
     \<lparr>ar_status = 409, ar_content_type = Some ''application/json; charset=utf-8'',
      ar_body = conflict_body, ar_replayed = False\<rparr>"

lemma conflict_status: "api_error_status ''CONFLICT'' = 409"
  by (simp add: api_error_status_def api_error_codes_def)

lemma idem_pre_handler_eq:
  "idem_pre_handler digest conflict_body now r body s =
     (case idem_key r of
        None \<Rightarrow> (IdemPass None, s)
      | Some key \<Rightarrow>
          (case live_record now key s of
             None \<Rightarrow> (IdemPass (Some (key, fingerprint digest r body)), purge now key s)
           | Some rec \<Rightarrow>
               (IdemReply (key, fingerprint digest r body)
                 (if ir_request_hash rec \<noteq> fingerprint digest r body then conflict_reply conflict_body
                  else stored_reply rec), purge now key s)))"
  by (auto simp: idem_pre_handler_def idem_key_def idem_get_eq fingerprint_def stored_reply_def
      conflict_reply_def conflict_status Let_def split: option.splits)

lemma purge_keep: "map_get s key = Some (rec, e) \<Longrightarrow> now \<le> e \<Longrightarrow> map_get (purge now k s) key = Some (rec, e)"
  by (auto simp: purge_def split: option.splits)

text \<open>The requests of a client, each with its time and the handler it would reach.\<close>

type_synonym 'a idem_event = "int \<times> http_request \<times> string option \<times> ('a \<Rightarrow> api_reply \<times> 'a)"

fun idem_run ::
  "(string \<Rightarrow> string) \<Rightarrow> string \<Rightarrow> int \<Rightarrow> 'a idem_event list \<Rightarrow> 'a \<times> idem_store \<Rightarrow> 'a \<times> idem_store" where
  "idem_run digest cb ttl [] st = st"
| "idem_run digest cb ttl ((now, r, body, h) # es) st =
     idem_run digest cb ttl es (snd (idem_serve digest cb ttl now r body h st))"

lemma idem_serve_replay:
  assumes "map_get s key = Some (rec, e)" "now \<le> e" "idem_key r = Some key"
    and "fingerprint digest r body = ir_request_hash rec"
  shows "idem_serve digest cb ttl now r body h (a, s) = (stored_reply rec, a, s)"
  using assms
  by (simp add: idem_serve_def idem_pre_handler_eq live_record_def idem_on_send_def stored_reply_def
      purge_def)

lemma idem_serve_keeps:
  assumes "map_get s key = Some (rec, e)" "now \<le> e"
    and "idem_key r \<noteq> Some key \<or> fingerprint digest r body = ir_request_hash rec"
  shows "map_get (snd (snd (idem_serve digest cb ttl now r body h (a, s)))) key = Some (rec, e)"
proof (cases "idem_key r = Some key")
  case True
  then have "fingerprint digest r body = ir_request_hash rec" using assms(3) by simp
  then show ?thesis
    unfolding idem_serve_replay [OF assms(1,2) True \<open>fingerprint digest r body = ir_request_hash rec\<close>]
    using assms(1) by simp
next
  case other: False
  show ?thesis
  proof (cases "idem_key r")
    case None
    then show ?thesis
      using assms(1) by (simp add: idem_serve_def idem_pre_handler_eq idem_on_send_def case_prod_beta)
  next
    case (Some k)
    then have "k \<noteq> key" using other by simp
    then show ?thesis
      using Some purge_keep [OF assms(1,2), of k]
      by (auto simp: idem_serve_def idem_pre_handler_eq idem_on_send_def idem_set_def case_prod_beta
          split: option.split)
  qed
qed

lemma idem_run_keeps:
  assumes "map_get (snd st) key = Some (rec, e)"
    and "\<forall>(now, r, body, h) \<in> set es. now \<le> e \<and> (idem_key r \<noteq> Some key \<or>
      fingerprint digest r body = ir_request_hash rec)"
  shows "map_get (snd (idem_run digest cb ttl es st)) key = Some (rec, e)"
  using assms
proof (induction es arbitrary: st)
  case (Cons ev es)
  obtain now r body h where ev: "ev = (now, r, body, h)" by (cases ev) auto
  obtain a s where st: "st = (a, s)" by (cases st)
  have "map_get (snd (snd (idem_serve digest cb ttl now r body h (a, s)))) key = Some (rec, e)"
    using Cons.prems ev st by (intro idem_serve_keeps) auto
  then show ?case using Cons.IH Cons.prems(2) ev st by simp
qed simp

text \<open>
  C34: A retry is answered from the record. Once a request with an idempotency key has been
  handled with a status below 500, then until its time to live is over a later request with the
  same key, method, URL and body gets that status, content type and body back, marked as
  replayed, and neither the application's state nor the store changes, whatever the other
  requests in between did, provided none of them used the key for a different request. (One that
  does takes the key over, see \<open>conflicting_reuse_takes_over\<close>.)
\<close>

theorem retry_replayed:
  assumes "idem_key r = Some key" and "live_record t key s = None"
    and "idem_serve digest cb ttl t r body h (a, s) = (reply, st)"
    and "ar_status reply < 500" and "\<not> ar_replayed reply" and "fingerprint digest r body \<noteq> []"
    and "\<forall>(now, r', body', h') \<in> set es. now \<le> t + ttl * 1000 \<and>
      (idem_key r' \<noteq> Some key \<or> fingerprint digest r' body' = fingerprint digest r body)"
    and "idem_key again = Some key" and "fingerprint digest again body' = fingerprint digest r body"
    and "later \<le> t + ttl * 1000"
  shows "idem_serve digest cb ttl later again body' h' (idem_run digest cb ttl es st) =
    (\<lparr>ar_status = ar_status reply,
      ar_content_type = (if ar_content_type reply = Some '''' then None else ar_content_type reply),
      ar_body = ar_body reply, ar_replayed = True\<rparr>, idem_run digest cb ttl es st)"
proof -
  define rec where "rec = \<lparr>ir_request_hash = fingerprint digest r body, ir_status = ar_status reply,
    ir_content_type = ar_content_type reply, ir_body = ar_body reply, ir_created_at = t\<rparr>"
  have key: "key \<noteq> []" using assms(1) by (auto simp: idem_key_def split: if_splits option.splits)
  have stored: "map_get (snd st) key = Some (rec, t + ttl * 1000)"
    using assms(1-6) key
    by (auto simp: idem_serve_def idem_pre_handler_eq idem_on_send_def idem_set_def rec_def
        case_prod_beta)
  have hash: "ir_request_hash rec = fingerprint digest r body" by (simp add: rec_def)
  have run: "map_get (snd (idem_run digest cb ttl es st)) key = Some (rec, t + ttl * 1000)"
    using assms(7) unfolding hash [symmetric] by (rule idem_run_keeps [OF stored])
  obtain b s' where st: "idem_run digest cb ttl es st = (b, s')"
    by (cases "idem_run digest cb ttl es st")
  show ?thesis
    using idem_serve_replay [of s' key rec "t + ttl * 1000" later again digest body' cb ttl h' b]
      run st assms(8-10) hash
    by (simp add: stored_reply_def rec_def)
qed

definition demo_post :: http_request where
  "demo_post = \<lparr>rq_method = ''POST'', rq_url = ''/v1/items'',
     rq_headers = [(''idempotency-key'', HText '' abc '')], rq_ip = ''10.0.0.1'',
     rq_protocol = ''https'', rq_id = ''r1''\<rparr>"

definition demo_created :: "nat \<Rightarrow> api_reply \<times> nat" where
  "demo_created n = (\<lparr>ar_status = 201, ar_content_type = None, ar_body = ''made'', ar_replayed = False\<rparr>, n + 1)"

lemma demo_first:
  "idem_serve (\<lambda>x. x) ''conflict'' 1 100 demo_post None demo_created (7, []) =
     (fst (demo_created 7), 8, [(''abc'', \<lparr>ir_request_hash = ''POST:/v1/items:'', ir_status = 201,
        ir_content_type = None, ir_body = ''made'', ir_created_at = 100\<rparr>, 1100)])"
  by code_simp

theorem retry_replayed_witness:
  "idem_serve (\<lambda>x. x) ''conflict'' 1 1100 demo_post None demo_created
     (8, [(''abc'', \<lparr>ir_request_hash = ''POST:/v1/items:'', ir_status = 201,
        ir_content_type = None, ir_body = ''made'', ir_created_at = 100\<rparr>, 1100)]) =
     (\<lparr>ar_status = 201, ar_content_type = None, ar_body = ''made'', ar_replayed = True\<rparr>,
      8, [(''abc'', \<lparr>ir_request_hash = ''POST:/v1/items:'', ir_status = 201,
        ir_content_type = None, ir_body = ''made'', ir_created_at = 100\<rparr>, 1100)])"
proof -
  have k: "idem_key demo_post = Some ''abc''" by code_simp
  have f: "fingerprint (\<lambda>x. x) demo_post None \<noteq> []" by code_simp
  show ?thesis
    using retry_replayed [OF k _ demo_first _ _ f _ k HOL.refl, of "[]" 1100 demo_created]
    by (simp add: live_record_def demo_created_def)
qed

text \<open>
  What the hooks do not guarantee: the 409 that refuses a conflicting reuse passes the \<open>onSend\<close>
  hook and replaces the record, so that the original request is refused from then on and the
  conflicting one is ``replayed''; and two requests whose first hooks both run before either
  response is sent both reach the handler.
\<close>

lemma conflicting_reuse_takes_over:
  assumes "map_get s key = Some (rec, e)" "now \<le> e" "idem_key r = Some key"
    and "fingerprint digest r body \<noteq> ir_request_hash rec" "fingerprint digest r body \<noteq> []"
    and "idem_key original = Some key" "fingerprint digest original body' = ir_request_hash rec"
    and "now \<le> later" "later \<le> now + ttl * 1000"
  shows "\<exists>s'. idem_serve digest cb ttl now r body h (a, s) = (conflict_reply cb, a, s') \<and>
    fst (idem_serve digest cb ttl later original body' h' (a, s')) = conflict_reply cb \<and>
    fst (idem_serve digest cb ttl later r body h (a, s')) = (conflict_reply cb)\<lparr>ar_replayed := True\<rparr>"
proof -
  have key: "key \<noteq> []" using assms(3) by (auto simp: idem_key_def split: if_splits option.splits)
  show ?thesis
    using assms key
    by (simp add: idem_serve_def idem_pre_handler_eq live_record_def purge_def idem_on_send_def
        idem_set_def conflict_reply_def stored_reply_def)
qed

lemma overlapping_requests_both_pass:
  assumes "idem_key r = Some key" "live_record t1 key s = None" "t1 \<le> t2"
  shows "\<exists>s1 s2. idem_pre_handler digest cb t1 r body s = (IdemPass (Some (key, fingerprint digest r body)), s1) \<and>
    idem_pre_handler digest cb t2 r body s1 = (IdemPass (Some (key, fingerprint digest r body)), s2)"
  using assms
  by (auto simp: idem_pre_handler_eq live_record_def purge_def split: option.splits if_splits)

end
