(* ===== verification/AuditAccess.thy ===== *)
theory AuditAccess
  imports AuditRuns
begin

text \<open>
  Reading the audit log: \<open>packages/audit/domain/policies/audit-access-policy.ts\<close>,
  \<open>application/audit-read-access.ts\<close>, the use cases \<open>query-audit-events.ts\<close> and
  \<open>export-audit-events.ts\<close> on the in-memory reader, the export encoder
  \<open>application/audit-export-encoding.ts\<close> and the retention review. A read runs on the store the
  access is recorded in and on the reader the entries come from; \<open>recorder\<close> is
  \<open>RecordAuditEvent.execute\<close>. The outer \<open>None\<close> of a read is the \<open>RangeError\<close> an Invalid Date filter
  raises.
\<close>

section \<open>Who may read\<close>

datatype audit_read_operation = ReadQuery | ReadExport

fun audit_permission :: "audit_read_operation \<Rightarrow> string" where
  "audit_permission ReadQuery = ''audit:query''"
| "audit_permission ReadExport = ''audit:export''"

fun audit_operation_text :: "audit_read_operation \<Rightarrow> string" where
  "audit_operation_text ReadQuery = ''query''"
| "audit_operation_text ReadExport = ''export''"

datatype audit_denial = MissingPermission | CrossOrganization

fun audit_denial_text :: "audit_denial \<Rightarrow> string" where
  "audit_denial_text MissingPermission = ''missing_permission''"
| "audit_denial_text CrossOrganization = ''cross_organization''"

record audit_reader =
  ard_actor :: string
  ard_organization :: string
  ard_permissions :: "string list"

definition authorize_audit_read :: "audit_reader \<Rightarrow> audit_read_operation \<Rightarrow> string \<Rightarrow> audit_denial + unit" where
  "authorize_audit_read reader operation organization =
     (if ard_organization reader \<noteq> organization then Inl CrossOrganization
      else if audit_permission operation \<notin> set (ard_permissions reader) then Inl MissingPermission
      else Inr ())"

datatype audit_read_error = ReadDenied audit_denial | ReadNotRecorded

record audit_criteria =
  acr_organization :: string
  acr_actor :: "string option"
  acr_subject :: "string option"
  acr_from :: "date option"
  acr_to :: "date option"

definition optional_field :: "string \<Rightarrow> string option \<Rightarrow> metadata_bag" where
  "optional_field k v = (case v of None \<Rightarrow> [] | Some s \<Rightarrow> [(k, s)])"

fun iso_field :: "string \<Rightarrow> date option \<Rightarrow> metadata_bag option" where
  "iso_field k None = Some []"
| "iso_field k (Some None) = None"
| "iso_field k (Some (Some ms)) = Some [(k, to_iso_string ms)]"

definition describe_criteria :: "audit_criteria \<Rightarrow> metadata_bag option" where
  "describe_criteria c =
     (case (iso_field ''filter.from'' (acr_from c), iso_field ''filter.to'' (acr_to c)) of
        (Some f, Some t) \<Rightarrow> Some ((''organizationId'', acr_organization c) #
          optional_field ''filter.actorId'' (acr_actor c) @ optional_field ''filter.subjectId'' (acr_subject c) @ f @ t)
      | _ \<Rightarrow> None)"

definition read_command :: "audit_action \<Rightarrow> audit_reader \<Rightarrow> audit_criteria \<Rightarrow> metadata_bag \<Rightarrow> record_command" where
  "read_command action reader c metadata =
     \<lparr>rc_action = action, rc_actor = Some (ard_actor reader), rc_subject = Some (acr_organization c),
      rc_metadata = Some metadata, rc_occurred_at = None\<rparr>"

definition authorize_and_record_audit_read ::
  "(record_command \<Rightarrow> 's \<Rightarrow> audit_log_entry option \<times> 's) \<Rightarrow> audit_reader \<Rightarrow> audit_read_operation \<Rightarrow> audit_criteria \<Rightarrow> 's \<Rightarrow>
   (audit_read_error + unit) option \<times> 's" where
  "authorize_and_record_audit_read recorder reader operation c s =
     (case authorize_audit_read reader operation (acr_organization c) of
        Inl denial \<Rightarrow>
          (case describe_criteria c of
             None \<Rightarrow> (None, s)
           | Some m \<Rightarrow>
               (Some (Inl (ReadDenied denial)),
                snd (recorder (read_command ActAuditAccessDenied reader c
                  (m @ [(''operation'', audit_operation_text operation), (''reason'', audit_denial_text denial),
                        (''actorOrganizationId'', ard_organization reader)])) s)))
      | Inr _ \<Rightarrow>
          (case describe_criteria c of
             None \<Rightarrow> (None, s)
           | Some m \<Rightarrow>
               (case recorder (read_command (if operation = ReadQuery then ActAuditQueried else ActAuditExported) reader c m) s of
                  (None, s') \<Rightarrow> (Some (Inl ReadNotRecorded), s')
                | (Some _, s') \<Rightarrow> (Some (Inr ()), s'))))"

section \<open>Query and export\<close>

record mem_event_reader =
  mr_entries :: "(string \<times> audit_log_entry) list"
  mr_reads :: "audit_criteria list"

definition reader_matching :: "mem_event_reader \<Rightarrow> audit_criteria \<Rightarrow> audit_log_entry list" where
  "reader_matching r c =
     sort_key al_sequence
       (filter (\<lambda>e. (acr_actor c = None \<or> al_actor e = acr_actor c) \<and>
                    (acr_subject c = None \<or> al_subject e = acr_subject c) \<and>
                    (case acr_from c of None \<Rightarrow> True | Some d \<Rightarrow> date_ge (Some (al_occurred_at e)) d) \<and>
                    (case acr_to c of None \<Rightarrow> True | Some d \<Rightarrow> date_ge d (Some (al_occurred_at e))))
          (map snd (filter (\<lambda>p. fst p = acr_organization c) (mr_entries r))))"

definition reader_query ::
  "audit_criteria \<Rightarrow> int option \<Rightarrow> nat \<Rightarrow> mem_event_reader \<Rightarrow> audit_log_entry list \<times> mem_event_reader" where
  "reader_query c after limit r =
     (take limit (filter (\<lambda>e. or_default after 0 < al_sequence e) (reader_matching r c)),
      r\<lparr>mr_reads := mr_reads r @ [c]\<rparr>)"

definition reader_stream :: "audit_criteria \<Rightarrow> mem_event_reader \<Rightarrow> audit_log_entry list \<times> mem_event_reader" where
  "reader_stream c r = (reader_matching r c, r\<lparr>mr_reads := mr_reads r @ [c]\<rparr>)"

definition max_audit_query_page_size :: int where
  "max_audit_query_page_size = 100"

definition default_audit_page_size :: int where
  "default_audit_page_size = 50"

definition query_limit :: "int option \<Rightarrow> nat" where
  "query_limit limit = nat (min (max (or_default limit default_audit_page_size) 1) max_audit_query_page_size)"

record query_page =
  qp_entries :: "audit_log_entry list"
  qp_has_more :: bool
  qp_next_cursor :: "int option"

definition query_page_of :: "nat \<Rightarrow> audit_log_entry list \<Rightarrow> query_page" where
  "query_page_of limit page =
     (let has_more = limit < length page; es = (if has_more then take limit page else page)
      in \<lparr>qp_entries = es, qp_has_more = has_more,
          qp_next_cursor = (if has_more then map_option al_sequence (last_opt es) else None)\<rparr>)"

definition query_execute ::
  "(record_command \<Rightarrow> 's \<Rightarrow> audit_log_entry option \<times> 's) \<Rightarrow> audit_reader \<Rightarrow> audit_criteria \<Rightarrow> int option \<Rightarrow> int option \<Rightarrow>
   's \<times> mem_event_reader \<Rightarrow> (audit_read_error + query_page) option \<times> 's \<times> mem_event_reader" where
  "query_execute recorder reader c after limit st =
     (case authorize_and_record_audit_read recorder reader ReadQuery c (fst st) of
        (None, s) \<Rightarrow> (None, s, snd st)
      | (Some (Inl e), s) \<Rightarrow> (Some (Inl e), s, snd st)
      | (Some (Inr _), s) \<Rightarrow>
          (let (page, r) = reader_query c after (query_limit limit + 1) (snd st)
           in (Some (Inr (query_page_of (query_limit limit) page)), s, r)))"

definition export_execute ::
  "(record_command \<Rightarrow> 's \<Rightarrow> audit_log_entry option \<times> 's) \<Rightarrow> audit_reader \<Rightarrow> audit_criteria \<Rightarrow>
   's \<times> mem_event_reader \<Rightarrow> (audit_read_error + audit_log_entry list) option \<times> 's \<times> mem_event_reader" where
  "export_execute recorder reader c st =
     (case authorize_and_record_audit_read recorder reader ReadExport c (fst st) of
        (None, s) \<Rightarrow> (None, s, snd st)
      | (Some (Inl e), s) \<Rightarrow> (Some (Inl e), s, snd st)
      | (Some (Inr _), s) \<Rightarrow>
          (let (es, r) = reader_stream c (snd st) in (Some (Inr es), s, r)))"

section \<open>Export encoding\<close>

definition json_escape_char :: "char \<Rightarrow> string" where
  "json_escape_char c =
     (if c = CHR 0x22 then [CHR 0x5C, CHR 0x22] else if c = CHR 0x5C then [CHR 0x5C, CHR 0x5C]
      else if c = CHR 0x08 then [CHR 0x5C, CHR ''b''] else if c = CHR 0x09 then [CHR 0x5C, CHR ''t'']
      else if c = CHR 0x0A then [CHR 0x5C, CHR ''n''] else if c = CHR 0x0C then [CHR 0x5C, CHR ''f'']
      else if c = CHR 0x0D then [CHR 0x5C, CHR ''r'']
      else if (of_char c :: nat) < 32 then unicode_escape c else [c])"

definition json_quote :: "string \<Rightarrow> string" where
  "json_quote s = CHR 0x22 # concat (map json_escape_char s) @ [CHR 0x22]"

definition json_bag :: "metadata_bag \<Rightarrow> string" where
  "json_bag m = ''{'' @ js_join '','' (map (\<lambda>(k, v). json_quote k @ '':'' @ json_quote v) m) @ ''}''"

text \<open>\<open>AuditLogEntry.toLogFields\<close>, in the column order of the export.\<close>

definition entry_log_fields :: "audit_log_entry \<Rightarrow> string list" where
  "entry_log_fields e =
     [show_int (al_sequence e), escape_for_text (audit_action_text (al_action e)),
      escape_for_text (or_default (al_actor e) []), escape_for_text (or_default (al_subject e) []),
      to_iso_string (al_occurred_at e), al_previous_hash e, al_hash e,
      escape_json_line_terminators (json_bag (al_metadata e))]"

definition csv_special :: "char \<Rightarrow> bool" where
  "csv_special c \<longleftrightarrow> c \<in> {CHR 0x22, CHR '','', CHR 0x0D, CHR 0x0A}"

definition csv_cell :: "string \<Rightarrow> string" where
  "csv_cell value' =
     (let neutralized = neutralize_formula_prefix value'
      in if list_ex csv_special neutralized
         then CHR 0x22 # concat (map (\<lambda>c. if c = CHR 0x22 then [c, c] else [c]) neutralized) @ [CHR 0x22]
         else neutralized)"

definition csv_row :: "audit_log_entry \<Rightarrow> string" where
  "csv_row e = js_join '','' (map csv_cell (entry_log_fields e))"

definition json_optional :: "string option \<Rightarrow> string" where
  "json_optional v = (case v of None \<Rightarrow> ''null'' | Some s \<Rightarrow> json_quote s)"

definition jsonl_row :: "audit_log_entry \<Rightarrow> string" where
  "jsonl_row e =
     ''{'' @ js_join '','' (map (\<lambda>(k, v). json_quote k @ '':'' @ v)
       [(''sequence'', show_int (al_sequence e)), (''action'', json_quote (audit_action_text (al_action e))),
        (''actorId'', json_optional (al_actor e)), (''subjectId'', json_optional (al_subject e)),
        (''occurredAt'', json_quote (to_iso_string (al_occurred_at e))),
        (''previousHash'', json_quote (al_previous_hash e)), (''hash'', json_quote (al_hash e)),
        (''metadata'', json_bag (al_metadata e))]) @ ''}''"

datatype audit_export_format = Csv | Jsonl

definition audit_export_header :: string where
  "audit_export_header = ''sequence,action,actor_id,subject_id,occurred_at,previous_hash,hash,metadata''"

definition default_export_max_records :: nat where
  "default_export_max_records = 10000"

fun export_rows :: "audit_export_format \<Rightarrow> nat \<Rightarrow> audit_log_entry list \<Rightarrow> string list \<Rightarrow> string list \<times> bool" where
  "export_rows fmt max_records [] rows = (rows, False)"
| "export_rows fmt max_records (e # es) rows =
     (if length rows \<ge> max_records then (rows, True)
      else export_rows fmt max_records es (rows @ [if fmt = Csv then csv_row e else jsonl_row e]))"

record export_result =
  xr_body :: string
  xr_record_count :: nat
  xr_truncated :: bool

definition encode_audit_export :: "audit_export_format \<Rightarrow> nat option \<Rightarrow> audit_log_entry list \<Rightarrow> export_result" where
  "encode_audit_export fmt max_records es =
     (let (rows, truncated) = export_rows fmt (or_default max_records default_export_max_records) es []
      in \<lparr>xr_body = (if fmt = Csv
            then audit_export_header @ [CHR 0x0D, CHR 0x0A] @ concat (map (\<lambda>r. r @ [CHR 0x0D, CHR 0x0A]) rows)
            else concat (map (\<lambda>r. r @ [CHR 0x0A]) rows)),
          xr_record_count = length rows, xr_truncated = truncated\<rparr>)"

section \<open>Retention review\<close>

record retention_policy =
  rtn_name :: string
  rtn_window_days :: int

definition retention_policy_new :: "string \<Rightarrow> int \<Rightarrow> retention_policy option" where
  "retention_policy_new name days = (if days < 1 then None else Some \<lparr>rtn_name = name, rtn_window_days = days\<rparr>)"

definition default_retention_policy :: retention_policy where
  "default_retention_policy = \<lparr>rtn_name = ''default-7y'', rtn_window_days = 7 * 365\<rparr>"

definition retention_cutoff :: "retention_policy \<Rightarrow> int \<Rightarrow> int" where
  "retention_cutoff p now = now - rtn_window_days p * 86400000"

record retention_review =
  rv_policy :: string
  rv_evaluated_at :: int
  rv_cutoff :: int
  rv_candidates :: "(audit_log_entry \<times> int) list"
  rv_evaluated_through :: "int option"
  rv_next_cursor :: "int option"
  rv_has_more :: bool

definition retention_execute ::
  "retention_policy \<Rightarrow> int \<Rightarrow> int option \<Rightarrow> nat option \<Rightarrow> string option \<Rightarrow> audit_log_entry list \<Rightarrow> retention_review" where
  "retention_execute p now cursor limit organization es =
     (let cutoff = retention_cutoff p now; n = or_default limit 200;
          page = mem_audit_find_with_filters
            \<lparr>af_actor = None, af_subject = None, af_organization = organization, af_action = None,
             af_from = None, af_to = Some (Some cutoff)\<rparr> (or_default cursor 0 + 1) (n + 1) es;
          has_more = n < length page; examined = (if has_more then take n page else page)
      in \<lparr>rv_policy = rtn_name p, rv_evaluated_at = now, rv_cutoff = cutoff,
          rv_candidates = map (\<lambda>e. (e, (now - al_occurred_at e) div 86400000)) examined,
          rv_evaluated_through = map_option al_sequence (last_opt examined),
          rv_next_cursor = (if has_more then map_option al_sequence (last_opt examined) else None),
          rv_has_more = has_more\<rparr>)"

section \<open>Reads are authorized and recorded\<close>

lemma authorize_and_record_cases:
  assumes "authorize_and_record_audit_read recorder reader operation c s = (out, s')"
  shows "out = Some (Inr ()) \<Longrightarrow> ard_organization reader = acr_organization c \<and>
      audit_permission operation \<in> set (ard_permissions reader) \<and>
      (\<exists>cmd e. recorder cmd s = (Some e, s') \<and>
         rc_action cmd = (if operation = ReadQuery then ActAuditQueried else ActAuditExported) \<and>
         rc_actor cmd = Some (ard_actor reader) \<and> rc_subject cmd = Some (acr_organization c))"
  using assms
  by (auto simp: authorize_and_record_audit_read_def authorize_audit_read_def read_command_def
      split: if_splits option.splits prod.splits sum.splits)

lemma reader_query_entries:
  assumes "reader_query c after limit r = (page, r')" "x \<in> set page"
  shows "(acr_organization c, x) \<in> set (mr_entries r)"
  using assms by (auto simp: reader_query_def reader_matching_def dest!: in_set_takeD)

lemma query_page_of_entries: "set (qp_entries (query_page_of n page)) \<subseteq> set page" "length (qp_entries (query_page_of n page)) \<le> max n (length (qp_entries (query_page_of n page)))"
  by (auto simp: query_page_of_def Let_def dest: in_set_takeD)

lemma query_page_length: "length page \<le> n + 1 \<Longrightarrow> length (qp_entries (query_page_of n page)) \<le> n"
  by (auto simp: query_page_of_def Let_def)

lemma query_limit_bounds: "1 \<le> query_limit limit" "query_limit limit \<le> 100"
  by (auto simp: query_limit_def max_audit_query_page_size_def)

text \<open>
  C17: No unobserved read of the audit log: a query is answered only to a reader of that organization
  holding \<^emph>\<open>audit:query\<close>, and then the new head of the chain is the record of the
  query, the page holds at most 100 entries and all of them are filed under the organization; in
  every other case the reader's storage was not touched. The same holds of an export under
  \<^emph>\<open>audit:export\<close>.
\<close>

theorem audit_reads_recorded:
  assumes "verify_chain sha es = None" "\<forall>k < attempts. extends_chain sha (\<lambda>c. c) (env k)"
    and "recorder = record_execute mem_audit_ops sha ids now env attempts"
    and "query_execute recorder reader c after limit (es, r) = (answer, es', r')"
    and "export_execute recorder reader c (es, r) = (exported, es'', r'')"
  shows "(case answer of
       Some (Inr page) \<Rightarrow> ard_organization reader = acr_organization c \<and> ''audit:query'' \<in> set (ard_permissions reader) \<and>
         (\<exists>e. last_opt es' = Some e \<and> al_action e = ActAuditQueried \<and> al_actor e = Some (ard_actor reader)) \<and>
         length (qp_entries page) \<le> 100 \<and> (\<forall>x \<in> set (qp_entries page). (acr_organization c, x) \<in> set (mr_entries r))
     | _ \<Rightarrow> r' = r) \<and>
    (case exported of
       Some (Inr xs) \<Rightarrow> ard_organization reader = acr_organization c \<and> ''audit:export'' \<in> set (ard_permissions reader) \<and>
         (\<exists>e. last_opt es'' = Some e \<and> al_action e = ActAuditExported \<and> al_actor e = Some (ard_actor reader)) \<and>
         (\<forall>x \<in> set xs. (acr_organization c, x) \<in> set (mr_entries r))
     | _ \<Rightarrow> r'' = r)"
proof
  have recorded: "last_opt t = Some e \<and> al_action e = rc_action cmd \<and> al_actor e = rc_actor cmd"
    if "recorder cmd es = (Some e, t)" for cmd e t
    using record_execute_bounded [OF assms(1,2), of ids now cmd "Some e" t] that unfolding assms(3) by blast
  obtain q s where q: "authorize_and_record_audit_read recorder reader ReadQuery c es = (q, s)" by fastforce
  show "case answer of
       Some (Inr page) \<Rightarrow> ard_organization reader = acr_organization c \<and> ''audit:query'' \<in> set (ard_permissions reader) \<and>
         (\<exists>e. last_opt es' = Some e \<and> al_action e = ActAuditQueried \<and> al_actor e = Some (ard_actor reader)) \<and>
         length (qp_entries page) \<le> 100 \<and> (\<forall>x \<in> set (qp_entries page). (acr_organization c, x) \<in> set (mr_entries r))
     | _ \<Rightarrow> r' = r"
  proof (cases "q = Some (Inr ())")
    case False
    then show ?thesis using assms(4) q by (auto simp: query_execute_def split: option.splits sum.splits)
  next
    case True
    obtain page rr where p: "reader_query c after (query_limit limit + 1) r = (page, rr)" by fastforce
    then have "answer = Some (Inr (query_page_of (query_limit limit) page))" "es' = s"
      using assms(4) q True by (auto simp: query_execute_def)
    moreover have "length page \<le> query_limit limit + 1" using p by (auto simp: reader_query_def)
    then have "length (qp_entries (query_page_of (query_limit limit) page)) \<le> 100"
      using query_page_length query_limit_bounds(2) [of limit] le_trans by blast
    moreover note authorize_and_record_cases [OF q True]
    ultimately show ?thesis
      using recorded reader_query_entries [OF p] query_page_of_entries(1) [of "query_limit limit" page]
      by (auto simp: subset_iff)
  qed
  obtain q s where q: "authorize_and_record_audit_read recorder reader ReadExport c es = (q, s)" by fastforce
  show "case exported of
       Some (Inr xs) \<Rightarrow> ard_organization reader = acr_organization c \<and> ''audit:export'' \<in> set (ard_permissions reader) \<and>
         (\<exists>e. last_opt es'' = Some e \<and> al_action e = ActAuditExported \<and> al_actor e = Some (ard_actor reader)) \<and>
         (\<forall>x \<in> set xs. (acr_organization c, x) \<in> set (mr_entries r))
     | _ \<Rightarrow> r'' = r"
  proof (cases "q = Some (Inr ())")
    case False
    then show ?thesis using assms(5) q by (auto simp: export_execute_def split: option.splits sum.splits)
  next
    case True
    then have "exported = Some (Inr (reader_matching r c))" "es'' = s"
      using assms(5) q by (auto simp: export_execute_def reader_stream_def)
    moreover note authorize_and_record_cases [OF q True]
    ultimately show ?thesis
      using recorded by (auto simp: reader_matching_def)
  qed
qed

section \<open>Keyset pages cover the result\<close>

lemma ascending_matching:
  assumes "distinct (map al_sequence (reader_matching r c))"
  shows "ascending (reader_matching r c)"
proof -
  have "sorted (map al_sequence (reader_matching r c))" by (simp add: reader_matching_def)
  with assms show ?thesis by (simp add: strict_sorted_iff)
qed

definition matching_after :: "audit_criteria \<Rightarrow> int option \<Rightarrow> mem_event_reader \<Rightarrow> audit_log_entry list" where
  "matching_after c after r = filter (\<lambda>e. or_default after 0 < al_sequence e) (reader_matching r c)"

text \<open>
  Paging loses and repeats nothing: for entries with distinct sequence numbers the entries that
  match after a cursor are the page that a query returns followed by those that match after the
  page's cursor, and there is no next cursor exactly when the page is the rest.
\<close>

theorem audit_pages_cover:
  assumes "distinct (map al_sequence (reader_matching r c))"
    and "page = query_page_of (query_limit limit) (fst (reader_query c after (query_limit limit + 1) r))"
  shows "matching_after c after r =
    qp_entries page @ (case qp_next_cursor page of None \<Rightarrow> [] | Some k \<Rightarrow> matching_after c (Some k) r)"
proof -
  let ?n = "query_limit limit"
  let ?L = "matching_after c after r"
  have pg: "page = query_page_of ?n (take (?n + 1) ?L)"
    using assms(2) by (simp add: reader_query_def matching_after_def)
  show ?thesis
  proof (cases "length ?L \<le> ?n")
    case True
    then show ?thesis by (simp add: pg query_page_of_def)
  next
    case False
    define x where "x = last (take ?n ?L)"
    have ne: "take ?n ?L \<noteq> []" using False query_limit_bounds(1) [of limit] by auto
    have p: "qp_entries page = take ?n ?L" "qp_next_cursor page = Some (al_sequence x)"
      using False ne by (auto simp: pg query_page_of_def Let_def min_def last_opt_def x_def)
    have L: "?L = filter (\<lambda>e. or_default after 0 + 1 \<le> al_sequence e) (reader_matching r c)"
      unfolding matching_after_def by (rule filter_cong) auto
    have "x \<in> set ?L" using ne unfolding x_def by (meson in_set_takeD last_in_set)
    then have "or_default after 0 + 1 \<le> al_sequence x" unfolding L by simp
    from filter_after_page [OF ascending_matching [OF assms(1)] this _ ne x_def]
    have "filter (\<lambda>e. al_sequence x + 1 \<le> al_sequence e) (reader_matching r c) = drop ?n ?L"
      unfolding L by blast
    moreover have "matching_after c (Some (al_sequence x)) r =
        filter (\<lambda>e. al_sequence x + 1 \<le> al_sequence e) (reader_matching r c)"
      unfolding matching_after_def by (rule filter_cong) auto
    ultimately show ?thesis by (simp add: p)
  qed
qed

section \<open>A CSV record reads back as its cells\<close>

text \<open>A reader of one RFC 4180 record: quoted cells, doubled quotes, commas between cells.\<close>

fun csv_cells :: "bool \<Rightarrow> string \<Rightarrow> string \<Rightarrow> string list" where
  "csv_cells quoted cell [] = [cell]"
| "csv_cells False cell (c # s) =
     (if c = CHR '',''
      then cell # (case s of d # t \<Rightarrow> if d = CHR 0x22 then csv_cells True [] t else csv_cells False [] s
                   | [] \<Rightarrow> [[]])
      else csv_cells False (cell @ [c]) s)"
| "csv_cells True cell (c # s) =
     (if c = CHR 0x22
      then (case s of d # t \<Rightarrow> if d = CHR 0x22 then csv_cells True (cell @ [c]) t else csv_cells False cell s
            | [] \<Rightarrow> [cell])
      else csv_cells True (cell @ [c]) s)"

definition csv_read :: "string \<Rightarrow> string list" where
  "csv_read s = (case s of d # t \<Rightarrow> if d = CHR 0x22 then csv_cells True [] t else csv_cells False [] s | [] \<Rightarrow> [[]])"

lemma csv_cells_comma: "csv_cells False cell (CHR '','' # s) = cell # csv_read s"
  by (simp add: csv_read_def split: list.split)

lemma csv_cells_plain:
  "\<not> list_ex csv_special w \<Longrightarrow> csv_cells False cell (w @ rest) = csv_cells False (cell @ w) rest"
  by (induction w arbitrary: cell) (auto simp: csv_special_def)

lemma csv_cells_quoted:
  "rest = [] \<or> hd rest \<noteq> CHR 0x22 \<Longrightarrow>
   csv_cells True cell (concat (map (\<lambda>c. if c = CHR 0x22 then [c, c] else [c]) w) @ CHR 0x22 # rest) =
   csv_cells False (cell @ w) rest"
  by (induction w arbitrary: cell) (auto split: list.split)

lemma csv_read_cell:
  assumes "rest = [] \<or> hd rest = CHR '',''"
  shows "csv_read (csv_cell v @ rest) = csv_cells False (neutralize_formula_prefix v) rest"
proof (cases "list_ex csv_special (neutralize_formula_prefix v)")
  case True
  have "rest = [] \<or> hd rest \<noteq> CHR 0x22" using assms by auto
  then show ?thesis using True by (simp add: csv_cell_def csv_read_def Let_def csv_cells_quoted)
next
  case False
  show ?thesis
  proof (cases "neutralize_formula_prefix v")
    case Nil
    then show ?thesis using assms by (cases rest) (auto simp: csv_cell_def csv_read_def)
  next
    case (Cons d t)
    then have "d \<noteq> CHR 0x22" using False by (auto simp: csv_special_def)
    then show ?thesis
      using csv_cells_plain [OF False, of "[]" rest] False Cons by (simp add: csv_cell_def csv_read_def)
  qed
qed

lemma csv_read_join:
  "csv_read (js_join '','' (map csv_cell (v # vs))) = map neutralize_formula_prefix (v # vs)"
proof (induction vs arbitrary: v)
  case Nil
  then show ?case using csv_read_cell [of "[]" v] by simp
next
  case (Cons u vs)
  have "csv_read (csv_cell v @ CHR '','' # js_join '','' (map csv_cell (u # vs))) =
      neutralize_formula_prefix v # csv_read (js_join '','' (map csv_cell (u # vs)))"
    by (subst csv_read_cell) (simp_all only: csv_cells_comma list.sel simp_thms)
  then show ?case using Cons.IH [of u] by simp
qed

lemma neutralize_not_formula: "neutralize_formula_prefix v = [] \<or> \<not> formula_character (hd (neutralize_formula_prefix v))"
  by (auto simp: neutralize_formula_prefix_def formula_character_def)

text \<open>One record is one line: no cell holds a character that ends a line.\<close>

definition line_break :: "char \<Rightarrow> bool" where
  "line_break c \<longleftrightarrow> c \<in> {CHR 0x0A, CHR 0x0B, CHR 0x0C, CHR 0x0D, CHR 0x1C, CHR 0x1D, CHR 0x1E, CHR 0x85}"

lemma printable_no_break: "printable c \<Longrightarrow> \<not> line_break c"
  by (auto simp: printable_def line_break_def)

lemma digits_no_break: "c \<in> set (show_nat n) \<Longrightarrow> \<not> line_break c" "c \<in> set (pad_zero w n) \<Longrightarrow> \<not> line_break c"
  using show_nat_digits [of c n] pad_zero_digits [of c w n] by (auto simp: line_break_def)

lemma show_int_no_break: "c \<in> set (show_int n) \<Longrightarrow> \<not> line_break c"
  by (auto simp: show_int_def digits_no_break split: if_splits) (simp_all add: line_break_def)

lemma iso_no_break: "c \<in> set (to_iso_string ms) \<Longrightarrow> \<not> line_break c"
  by (cases "iso_fields ms")
    (auto simp: to_iso_string_fields year_text_def digits_no_break split: if_splits, simp_all add: line_break_def)

lemma unicode_escape_no_break: "x \<in> set (unicode_escape c) \<Longrightarrow> \<not> line_break x"
  using printable_unicode_escape printable_no_break by blast

lemma json_escape_chars:
  "x \<in> set (json_escape_char c) \<Longrightarrow>
   x \<in> set (unicode_escape c) \<or> x \<in> set ''bfnrt'' \<or> x = CHR 0x22 \<or> x = CHR 0x5C \<or> x = c \<and> 32 \<le> (of_char c :: nat)"
  unfolding json_escape_char_def by (simp split: if_splits; blast)

lemma json_quote_breaks: "x \<in> set (json_quote s) \<Longrightarrow> line_break x \<Longrightarrow> x = CHR 0x85"
proof -
  have low: "line_break x \<Longrightarrow> (of_char x :: nat) < 32 \<or> x = CHR 0x85" by (auto simp: line_break_def)
  have plain: "\<not> line_break (CHR 0x22)" "\<not> line_break (CHR 0x5C)" "\<forall>y \<in> set ''bfnrt''. \<not> line_break y"
    by (simp_all add: line_break_def)
  have "x = CHR 0x85" if "x \<in> set (json_escape_char c)" "line_break x" for c
    using json_escape_chars [OF that(1)] low that(2) plain unicode_escape_no_break [of x c] by (metis linorder_not_less)
  moreover assume "x \<in> set (json_quote s)" "line_break x"
  ultimately show "x = CHR 0x85" using plain(1) by (auto simp: json_quote_def)
qed

lemma js_join_all:
  "\<forall>x \<in> set d. P x \<Longrightarrow> \<forall>w \<in> set ws. \<forall>x \<in> set w. P x \<Longrightarrow> \<forall>x \<in> set (js_join d ws). P x"
  by (induction d ws rule: js_join.induct) auto

definition json_break :: "char \<Rightarrow> bool" where
  "json_break x \<longleftrightarrow> (line_break x \<longrightarrow> x = CHR 0x85)"

lemma json_break_punctuation: "json_break (CHR ''{'')" "json_break (CHR ''}'')" "json_break (CHR '','')" "json_break (CHR '':'')"
  by (simp_all add: json_break_def line_break_def)

lemma json_bag_breaks: "\<forall>x \<in> set (json_bag m). json_break x"
proof -
  have q: "\<forall>x \<in> set (json_quote s). json_break x" for s using json_quote_breaks by (simp add: json_break_def)
  have "\<forall>x \<in> set (json_quote k @ '':'' @ json_quote v). json_break x" for k v
    using q [of k] q [of v] json_break_punctuation unfolding set_append by (simp add: ball_Un)
  then have "\<forall>w \<in> set (map (\<lambda>(k, v). json_quote k @ '':'' @ json_quote v) m). \<forall>x \<in> set w. json_break x"
    by (simp add: case_prod_unfold)
  moreover have "\<forall>x \<in> set '',''. json_break x" using json_break_punctuation by simp
  ultimately have "\<forall>x \<in> set (js_join '','' (map (\<lambda>(k, v). json_quote k @ '':'' @ json_quote v) m)). json_break x"
    by (intro js_join_all)
  then show ?thesis unfolding json_bag_def using json_break_punctuation by simp
qed

lemma escape_terminators_no_break:
  assumes "\<forall>x \<in> set s. json_break x"
  shows "c \<in> set (escape_json_line_terminators s) \<Longrightarrow> \<not> line_break c"
  using assms unicode_escape_no_break by (auto simp: json_break_def escape_json_line_terminators_def split: if_splits)

lemma csv_cell_no_break:
  assumes "\<forall>c \<in> set v. \<not> line_break c"
  shows "c \<in> set (csv_cell v) \<Longrightarrow> \<not> line_break c"
proof -
  have n: "\<forall>c \<in> set (neutralize_formula_prefix v). \<not> line_break c"
    using assms by (auto simp: neutralize_formula_prefix_def line_break_def)
  have q: "\<not> line_break (CHR 0x22)" by (simp add: line_break_def)
  show "c \<in> set (csv_cell v) \<Longrightarrow> \<not> line_break c"
    using n q by (auto simp: csv_cell_def Let_def split: if_splits)
qed

text \<open>
  A CSV export cannot be broken by what is recorded in it: a record reads back as exactly its
  eight columns whatever the values contain, no column starts with a character a spreadsheet takes
  for a formula, and as long as the stored hashes are free of line breaks the record is one line.
\<close>

theorem csv_export_intact:
  "csv_read (csv_row e) = map neutralize_formula_prefix (entry_log_fields e) \<and>
   (\<forall>cell \<in> set (csv_read (csv_row e)). cell = [] \<or> \<not> formula_character (hd cell)) \<and>
   ((\<forall>c \<in> set (al_previous_hash e @ al_hash e). \<not> line_break c) \<longrightarrow> (\<forall>c \<in> set (csv_row e). \<not> line_break c))"
proof (intro conjI impI)
  show read: "csv_read (csv_row e) = map neutralize_formula_prefix (entry_log_fields e)"
    unfolding csv_row_def entry_log_fields_def by (rule csv_read_join)
  show "\<forall>cell \<in> set (csv_read (csv_row e)). cell = [] \<or> \<not> formula_character (hd cell)"
    unfolding read using neutralize_not_formula by auto
next
  assume h: "\<forall>c \<in> set (al_previous_hash e @ al_hash e). \<not> line_break c"
  have "\<forall>v \<in> set (entry_log_fields e). \<forall>c \<in> set v. \<not> line_break c"
    using h show_int_no_break iso_no_break printable_no_break [OF printable_escape]
      escape_terminators_no_break [OF json_bag_breaks [of "al_metadata e"]]
    unfolding entry_log_fields_def by simp
  then have "\<forall>w \<in> set (map csv_cell (entry_log_fields e)). \<forall>c \<in> set w. \<not> line_break c"
    using csv_cell_no_break unfolding set_map by blast
  moreover have "\<forall>c \<in> set '',''. \<not> line_break c" by (simp add: line_break_def)
  ultimately show "\<forall>c \<in> set (csv_row e). \<not> line_break c"
    unfolding csv_row_def by (intro js_join_all)
qed

section \<open>Witnesses\<close>

definition demo_auditor :: audit_reader where
  "demo_auditor = \<lparr>ard_actor = ''alice'', ard_organization = ''o1'', ard_permissions = [''audit:query'']\<rparr>"

definition demo_criteria :: audit_criteria where
  "demo_criteria = \<lparr>acr_organization = ''o1'', acr_actor = None, acr_subject = None, acr_from = None, acr_to = None\<rparr>"

definition demo_recorder :: "record_command \<Rightarrow> audit_log_entry list \<Rightarrow> audit_log_entry option \<times> audit_log_entry list" where
  "demo_recorder = record_execute mem_audit_ops demo_sha (\<lambda>_. ''q'') (\<lambda>_. 11) (\<lambda>_ c. c) 3"

definition demo_event_reader :: mem_event_reader where
  "demo_event_reader = \<lparr>mr_entries = map (\<lambda>e. (''o1'', e)) demo_chain, mr_reads = []\<rparr>"

lemma demo_recorder_records: "\<exists>e s. demo_recorder (read_command a demo_auditor demo_criteria m) demo_chain = (Some e, s)"
proof -
  let ?run = "record_execute mem_audit_ops demo_sha (\<lambda>_. ''q'') (\<lambda>_. 11) (\<lambda>_ c. c) 3 (read_command a demo_auditor demo_criteria m) demo_chain"
  have env: "\<forall>k < 3. extends_chain demo_sha (\<lambda>c. c) ((\<lambda>_ c. c) k)" by (simp add: extends_chain_def)
  have "rc_occurred_at (read_command a demo_auditor demo_criteria m) \<noteq> Some None" by (simp add: read_command_def)
  with mem_audit.record_attempts_undisturbed [where n = 2 and env = "\<lambda>_ c. c", OF demo_chain_verified(1) HOL.refl this]
  show ?thesis unfolding demo_recorder_def record_execute_def by (metis eval_nat_numeral(3) prod.collapse)
qed

theorem audit_reads_recorded_witness:
  "\<exists>page es' r'. query_execute demo_recorder demo_auditor demo_criteria None None (demo_chain, demo_event_reader) =
     (Some (Inr page), es', r') \<and> (\<exists>e. last_opt es' = Some e \<and> al_action e = ActAuditQueried) \<and> length (qp_entries page) \<le> 100"
proof -
  have env: "\<forall>k < 3. extends_chain demo_sha (\<lambda>c. c) ((\<lambda>_ c. c) k)" by (simp add: extends_chain_def)
  obtain a es' r' where q: "query_execute demo_recorder demo_auditor demo_criteria None None (demo_chain, demo_event_reader) = (a, es', r')"
    by (metis prod_cases3)
  obtain x es'' r'' where x: "export_execute demo_recorder demo_auditor demo_criteria (demo_chain, demo_event_reader) = (x, es'', r'')"
    by (metis prod_cases3)
  have allow: "authorize_audit_read demo_auditor ReadQuery (acr_organization demo_criteria) = Inr ()"
    by (simp add: authorize_audit_read_def demo_auditor_def demo_criteria_def)
  obtain m where m: "describe_criteria demo_criteria = Some m"
    by (simp add: describe_criteria_def demo_criteria_def)
  obtain e s where "demo_recorder (read_command ActAuditQueried demo_auditor demo_criteria m) demo_chain = (Some e, s)"
    using demo_recorder_records by blast
  then have "authorize_and_record_audit_read demo_recorder demo_auditor ReadQuery demo_criteria demo_chain = (Some (Inr ()), s)"
    by (simp add: authorize_and_record_audit_read_def allow m)
  then have "\<exists>page. a = Some (Inr page)"
    using q by (auto simp: query_execute_def split: prod.splits)
  then show ?thesis
    using audit_reads_recorded [OF demo_chain_verified(1) env demo_recorder_def q x] q by auto
qed

theorem audit_pages_cover_witness:
  "matching_after demo_criteria None demo_event_reader =
     qp_entries (query_page_of 1 (fst (reader_query demo_criteria None 2 demo_event_reader))) @
     (case qp_next_cursor (query_page_of 1 (fst (reader_query demo_criteria None 2 demo_event_reader))) of
        None \<Rightarrow> [] | Some k \<Rightarrow> matching_after demo_criteria (Some k) demo_event_reader)"
proof -
  have m: "reader_matching demo_event_reader demo_criteria = sort_key al_sequence demo_chain"
    by (simp add: reader_matching_def demo_event_reader_def demo_criteria_def filter_map comp_def)
  have "distinct (map al_sequence demo_chain)"
    using verified_ascending(1) [OF demo_chain_verified(1)] by (simp add: strict_sorted_iff)
  then have d: "distinct (map al_sequence (reader_matching demo_event_reader demo_criteria))"
    unfolding m by (simp add: distinct_map)
  have l: "query_limit (Some 1) = 1" by (simp add: query_limit_def max_audit_query_page_size_def)
  show ?thesis using audit_pages_cover [OF d HOL.refl, of None "Some 1"] unfolding l one_add_one .
qed

theorem csv_export_intact_witness:
  "\<not> list_ex line_break (csv_row \<lparr>al_sequence = 1, al_action = ActUserLoginFailed, al_actor = Some ''=x'', al_subject = None,
     al_metadata = [], al_occurred_at = 0, al_previous_hash = genesis_hash, al_id = ''i'', al_hash = ''ab''\<rparr>)"
proof -
  let ?e = "\<lparr>al_sequence = 1, al_action = ActUserLoginFailed, al_actor = Some ''=x'', al_subject = None,
     al_metadata = [], al_occurred_at = 0, al_previous_hash = genesis_hash, al_id = ''i'', al_hash = ''ab''\<rparr>"
  have "\<forall>c \<in> set (al_previous_hash ?e @ al_hash ?e). \<not> line_break c"
    by (auto simp: genesis_hash_def line_break_def)
  with csv_export_intact [of ?e] have "\<forall>c \<in> set (csv_row ?e). \<not> line_break c" by blast
  then show ?thesis unfolding list_ex_iff by blast
qed

end
