(* ===== verification/Pagination.thy ===== *)
theory Pagination
  imports JsonParse Complex_Main
begin

text \<open>
  Cursor pagination, \<open>apps/api/src/pagination/cursor-pagination.ts\<close>: the opaque keyset cursor,
  which is the base64url text of the UTF-8 bytes of a JSON object, the clamp on a page limit, and
  the page envelope. The library functions are written out: \<open>JSON.stringify\<close> of strings,
  base64url of \<open>Buffer\<close> in both directions, \<open>Buffer.toString('utf8')\<close> (which keeps a byte order
  mark, unlike \<open>TextDecoder\<close>), \<open>Number.parseInt\<close> and \<open>Math.trunc\<close>.
\<close>

section \<open>base64url\<close>

definition b64_char :: "nat \<Rightarrow> char" where
  "b64_char n =
     (if n < 26 then char_of (65 + n) else if n < 52 then char_of (71 + n)
      else if n < 62 then char_of (n - 4) else if n = 62 then CHR ''-'' else CHR ''_'')"

fun base64url_encode :: "nat list \<Rightarrow> string" where
  "base64url_encode [] = []"
| "base64url_encode [a] = [b64_char (a div 4), b64_char (a mod 4 * 16)]"
| "base64url_encode [a, b] =
     [b64_char (a div 4), b64_char (a mod 4 * 16 + b div 16), b64_char (b mod 16 * 4)]"
| "base64url_encode (a # b # c # bs) =
     b64_char (a div 4) # b64_char (a mod 4 * 16 + b div 16) # b64_char (b mod 16 * 4 + c div 64)
     # b64_char (c mod 64) # base64url_encode bs"

text \<open>Both alphabets are read; the decoder passes over every other character.\<close>

definition b64_value :: "char \<Rightarrow> nat option" where
  "b64_value c =
     (let n = of_char c :: nat
      in if 65 \<le> n \<and> n \<le> 90 then Some (n - 65) else if 97 \<le> n \<and> n \<le> 122 then Some (n - 71)
         else if 48 \<le> n \<and> n \<le> 57 then Some (n + 4)
         else if c = CHR ''-'' \<or> c = CHR ''+'' then Some 62
         else if c = CHR ''_'' \<or> c = CHR ''/'' then Some 63 else None)"

fun sextets_bytes :: "nat list \<Rightarrow> nat list" where
  "sextets_bytes (p # q # r # s # vs) =
     (p * 4 + q div 16) # (q mod 16 * 16 + r div 4) # (r mod 4 * 64 + s) # sextets_bytes vs"
| "sextets_bytes [p, q, r] = [p * 4 + q div 16, q mod 16 * 16 + r div 4]"
| "sextets_bytes [p, q] = [p * 4 + q div 16]"
| "sextets_bytes _ = []"

definition base64url_decode :: "string \<Rightarrow> nat list" where
  "base64url_decode s = sextets_bytes (List.map_filter b64_value s)"

section \<open>JSON text of strings\<close>

definition hex_code :: "nat \<Rightarrow> nat" where
  "hex_code n = (if n < 10 then 48 + n else 87 + n)"

definition unit_escape :: "nat \<Rightarrow> js_text" where
  "unit_escape u =
     [92, 117, hex_code (u div 4096 mod 16), hex_code (u div 256 mod 16), hex_code (u div 16 mod 16),
      hex_code (u mod 16)]"

definition plain_json_unit :: "nat \<Rightarrow> js_text" where
  "plain_json_unit u =
     (if u = 34 then [92, 34] else if u = 92 then [92, 92] else if u = 8 then [92, 98]
      else if u = 12 then [92, 102] else if u = 10 then [92, 110] else if u = 13 then [92, 114]
      else if u = 9 then [92, 116] else if u < 32 then unit_escape u else [u])"

text \<open>A surrogate that is not half of a pair is escaped.\<close>

fun json_string_units :: "js_text \<Rightarrow> js_text" where
  "json_string_units [] = []"
| "json_string_units [u] =
     (if high_surrogate u \<or> low_surrogate u then unit_escape u else plain_json_unit u)"
| "json_string_units (u # v # us) =
     (if high_surrogate u
      then if low_surrogate v then u # v # json_string_units us
           else unit_escape u @ json_string_units (v # us)
      else if low_surrogate u then unit_escape u @ json_string_units (v # us)
      else plain_json_unit u @ json_string_units (v # us))"

definition json_string :: "js_text \<Rightarrow> js_text" where
  "json_string t = 34 # json_string_units t @ [34]"

section \<open>The cursor\<close>

record cursor_payload =
  cu_id :: js_text
  cu_created_at :: js_text

definition cursor_json :: "js_text \<Rightarrow> js_text \<Rightarrow> js_text" where
  "cursor_json i created =
     [123] @ json_string (text_of ''id'') @ [58] @ json_string i @ [44] @
     json_string (text_of ''createdAt'') @ [58] @ json_string created @ [125]"

text \<open>\<open>created\<close> is the text of \<open>createdAt\<close>, the ISO form where it is a \<open>Date\<close>.\<close>

definition encode_cursor :: "js_text \<Rightarrow> js_text \<Rightarrow> string" where
  "encode_cursor i created = base64url_encode (text_encode (cursor_json i created))"

definition buffer_text :: "nat list \<Rightarrow> js_text" where
  "buffer_text bs = concat (map utf16_units (utf8_decode utf8_initial bs))"

definition decode_cursor :: "string \<Rightarrow> cursor_payload option" where
  "decode_cursor cursor =
     (case json_parse (buffer_text (base64url_decode cursor)) of
        None \<Rightarrow> None
      | Some parsed \<Rightarrow>
          (case parsed of
             JObject es \<Rightarrow>
               (case (map_of es (text_of ''id''), map_of es (text_of ''createdAt'')) of
                  (Some (JString i), Some (JString c)) \<Rightarrow> Some \<lparr>cu_id = i, cu_created_at = c\<rparr>
                | _ \<Rightarrow> None)
           | _ \<Rightarrow> None))"

section \<open>The limit\<close>

definition default_page_limit :: int where "default_page_limit = 50"
definition max_page_limit :: int where "max_page_limit = 100"
definition min_page_limit :: int where "min_page_limit = 1"

datatype js_num = NotANumber | PlusInfinity | MinusInfinity | Finite rat

datatype limit_input = LimitAbsent | LimitText string | LimitNumber js_num

definition math_trunc :: "rat \<Rightarrow> int" where
  "math_trunc q = (if q \<ge> 0 then \<lfloor>q\<rfloor> else \<lceil>q\<rceil>)"

definition digit_value :: "char \<Rightarrow> int" where
  "digit_value c = of_char c - 48"

definition dec_digit :: "char \<Rightarrow> bool" where
  "dec_digit c \<longleftrightarrow> (let n = of_char c :: nat in 48 \<le> n \<and> n \<le> 57)"

text \<open>\<open>Number.parseInt(s, 10)\<close>; \<open>None\<close> is NaN.\<close>

definition parse_int :: "string \<Rightarrow> int option" where
  "parse_int s =
     (let body = trim_start s;
          (sign, rest) = (case body of
             c # cs \<Rightarrow> (if c = CHR ''-'' then (-1, cs) else if c = CHR ''+'' then (1, cs) else (1, body))
           | [] \<Rightarrow> (1, []));
          digits = takeWhile dec_digit rest
      in if digits = [] then None
         else Some (sign * fold (\<lambda>c n. 10 * n + digit_value c) digits 0))"

definition sanitize_limit :: "int \<Rightarrow> int \<Rightarrow> limit_input \<Rightarrow> int" where
  "sanitize_limit default_limit max_limit limit =
     (if limit = LimitAbsent \<or> limit = LimitText '''' then default_limit
      else let parsed = (case limit of
                 LimitText s \<Rightarrow> (case parse_int s of None \<Rightarrow> NotANumber | Some n \<Rightarrow> Finite (of_int n))
               | LimitNumber (Finite q) \<Rightarrow> Finite (of_int (math_trunc q))
               | LimitNumber n \<Rightarrow> n
               | LimitAbsent \<Rightarrow> NotANumber)
           in case parsed of
             NotANumber \<Rightarrow> min_page_limit
           | MinusInfinity \<Rightarrow> min_page_limit
           | PlusInfinity \<Rightarrow> max_limit
           | Finite q \<Rightarrow> (if q < of_int min_page_limit then min_page_limit
                         else if q > of_int max_limit then max_limit else \<lfloor>q\<rfloor>))"

section \<open>The envelope\<close>

record 'a paginated =
  pg_items :: "'a list"
  pg_next_cursor :: "string option"
  pg_has_more :: bool

definition paginate_envelope :: "('a \<Rightarrow> js_text) \<Rightarrow> ('a \<Rightarrow> js_text) \<Rightarrow> 'a list \<Rightarrow> nat \<Rightarrow> 'a paginated" where
  "paginate_envelope item_id created items_with_extra limit =
     (let has_more = length items_with_extra > limit;
          items = (if has_more then take limit items_with_extra else items_with_extra);
          next_cursor = (if has_more \<and> items \<noteq> []
                         then Some (encode_cursor (item_id (last items)) (created (last items))) else None)
      in \<lparr>pg_items = items, pg_next_cursor = next_cursor, pg_has_more = has_more\<rparr>)"

section \<open>Reading back\<close>

lemma b64_value_char: "n < 64 \<Longrightarrow> b64_value (b64_char n) = Some n"
  by (auto simp: b64_value_def b64_char_def Let_def)

lemma base64url_round_trip:
  "list_all (\<lambda>b. b < 256) bs \<Longrightarrow> base64url_decode (base64url_encode bs) = bs"
  by (induction bs rule: base64url_encode.induct)
    (auto simp: base64url_decode_def List.map_filter_simps b64_value_char)

lemma hex_unit_code: "n < 16 \<Longrightarrow> hex_unit (hex_code n) = Some n"
  by (auto simp: hex_unit_def hex_code_def)

lemma hex_join:
  assumes "u < 65536"
  shows "((u div 4096 mod 16 * 16 + u div 256 mod 16) * 16 + u div 16 mod 16) * 16 + u mod 16 = (u :: nat)"
proof -
  have "u div 4096 mod 16 = u div 4096" using assms by (intro mod_less) (simp add: less_mult_imp_div_less)
  moreover have "u div 256 = u div 4096 * 16 + u div 256 mod 16"
    using div_mult_mod_eq [of "u div 256" 16] by (simp add: div_mult2_eq [symmetric])
  moreover have "u div 16 = u div 256 * 16 + u div 16 mod 16"
    using div_mult_mod_eq [of "u div 16" 16] by (simp add: div_mult2_eq [symmetric])
  moreover have "u = u div 16 * 16 + u mod 16" by simp
  ultimately show ?thesis by presburger
qed

lemma jp_string_escape:
  "u < 65536 \<Longrightarrow> jp_string (unit_escape u @ s) = map_option (apfst ((#) u)) (jp_string s)"
  using hex_join [of u] by (simp add: unit_escape_def hex_unit_code)

lemma jp_string_plain:
  "u < 65536 \<Longrightarrow> jp_string (plain_json_unit u @ s) = map_option (apfst ((#) u)) (jp_string s)"
  by (simp add: plain_json_unit_def jp_string_escape escape_unit_def)

lemma jp_string_raw: "32 < u \<Longrightarrow> u \<noteq> 34 \<Longrightarrow> u \<noteq> 92 \<Longrightarrow> jp_string (u # s) = map_option (apfst ((#) u)) (jp_string s)"
  by simp

lemma jp_string_units:
  "list_all (\<lambda>u. u < 65536) t \<Longrightarrow> jp_string (json_string_units t @ 34 # r) = Some (t, r)"
proof (induction t rule: json_string_units.induct)
  case (2 u)
  then show ?case by (simp add: jp_string_escape jp_string_plain del: jp_string.simps) simp
next
  case (3 u v us)
  have raw: "jp_string (u # v # s) = map_option (apfst ((#) u)) (map_option (apfst ((#) v)) (jp_string s))"
    if "high_surrogate u" "low_surrogate v" for s
    using that jp_string_raw [of u] jp_string_raw [of v] by (simp add: high_surrogate_def low_surrogate_def)
  show ?case
    using 3 raw by (auto simp: jp_string_escape jp_string_plain simp del: jp_string.simps)
qed simp

text \<open>The text of a string is well formed, so its bytes give it back.\<close>

lemma well_formed_append: "well_formed_text a \<Longrightarrow> well_formed_text b \<Longrightarrow> well_formed_text (a @ b)"
  by (induction a rule: well_formed_text.induct) (auto split: if_splits, (cases b, auto)+)

lemma ascii_text: "list_all (\<lambda>u. u < 128) t \<Longrightarrow> well_formed_text t"
  by (induction t rule: well_formed_text.induct) (auto simp: high_surrogate_def low_surrogate_def)

lemma hex_code_below: "n < 16 \<Longrightarrow> hex_code n < 128"
  by (simp add: hex_code_def)

lemma unit_escape_ascii: "well_formed_text (unit_escape u)"
  by (rule ascii_text) (simp add: unit_escape_def hex_code_below)

lemma plain_unit_text:
  "u < 65536 \<Longrightarrow> \<not> high_surrogate u \<Longrightarrow> \<not> low_surrogate u \<Longrightarrow> well_formed_text (plain_json_unit u)"
  by (simp add: plain_json_unit_def unit_escape_ascii) (simp add: high_surrogate_def low_surrogate_def)

lemma json_units_text: "list_all (\<lambda>u. u < 65536) t \<Longrightarrow> well_formed_text (json_string_units t)"
proof (induction t rule: json_string_units.induct)
  case (2 u)
  then show ?case by (simp add: unit_escape_ascii plain_unit_text)
next
  case (3 u v us)
  then show ?case
    by (cases "high_surrogate u"; cases "low_surrogate u"; cases "low_surrogate v")
      (auto simp: unit_escape_ascii plain_unit_text intro!: well_formed_append)
qed simp

lemma json_string_text: "list_all (\<lambda>u. u < 65536) t \<Longrightarrow> well_formed_text (json_string t)"
  unfolding json_string_def
  using well_formed_append [OF ascii_text [of "[34]"] well_formed_append [OF json_units_text ascii_text [of "[34]"]]]
  by simp

lemma buffer_text_encode: "well_formed_text t \<Longrightarrow> buffer_text (text_encode t) = t"
  using well_formed_scalars [of t] by (simp add: buffer_text_def text_encode_def utf8_decode_encoded)

lemma text_encode_below: "well_formed_text t \<Longrightarrow> list_all (\<lambda>b. b < 256) (text_encode t)"
  using well_formed_scalars [of t] utf8_bytes_below
  by (auto simp: text_encode_def list_all_iff)

lemma js_skip_Cons: "u \<notin> {32, 9, 10, 13} \<Longrightarrow> js_skip (u # s) = u # s"
  by (simp add: js_skip_def)

lemma jp_value_string: "list_all (\<lambda>u. u < 65536) t \<Longrightarrow> jp_value (Suc f) (json_string t @ r) = Some (JString t, r)"
  using jp_string_units [of t r] by (simp add: json_string_def js_skip_Cons del: jp_string.simps)

lemma jp_members_step:
  assumes "list_all (\<lambda>u. u < 65536) k" "list_all (\<lambda>u. u < 65536) t"
  shows "jp_members (Suc (Suc f)) acc (json_string k @ 58 # json_string t @ u # r) =
    (if u = 125 then Some (jobj_set k (JString t) acc, r)
     else if u = 44 then jp_members (Suc f) (jobj_set k (JString t) acc) r
     else if u \<in> {32, 9, 10, 13}
     then jp_members (Suc (Suc f)) acc (json_string k @ 58 # json_string t @ u # r) else None)"
  using jp_string_units [OF assms(1), of "58 # json_string t @ u # r"] jp_value_string [OF assms(2), of f "u # r"]
  by (simp add: json_string_def js_skip_Cons del: jp_string.simps jp_value.simps)

lemma ascii_units: "list_all (\<lambda>u. u < 65536) (text_of s)"
  by (auto simp: text_of_def list_all_iff intro: less_trans [OF nat_of_char_less_256])

lemma jp_value_object:
  "take 1 (js_skip r) \<noteq> [125] \<Longrightarrow> jp_members f [] r = Some (es, s) \<Longrightarrow>
     jp_value (Suc f) (123 # r) = Some (JObject es, s)"
  by (simp add: js_skip_Cons)

lemma json_parse_cursor:
  assumes "list_all (\<lambda>u. u < 65536) i" "list_all (\<lambda>u. u < 65536) c"
  shows "json_parse (cursor_json i c) =
    Some (JObject [(text_of ''id'', JString i), (text_of ''createdAt'', JString c)])"
proof -
  have "jp_members (Suc (Suc (Suc f))) [] (tl (cursor_json i c)) =
      Some ([(text_of ''id'', JString i), (text_of ''createdAt'', JString c)], [])" for f
    using jp_members_step [OF ascii_units assms(1), of "Suc f" "[]" "''id''" 44
        "json_string (text_of ''createdAt'') @ 58 # json_string c @ [125]"]
      jp_members_step [OF ascii_units assms(2), of f "[(text_of ''id'', JString i)]" "''createdAt''" 125 "[]"]
    by (simp add: cursor_json_def text_of_def del: jp_members.simps)
  moreover have "\<exists>f. 2 * length (cursor_json i c) + 2 = Suc (Suc (Suc (Suc f)))"
    by (simp add: cursor_json_def)
  then obtain f where f: "2 * length (cursor_json i c) + 2 = Suc (Suc (Suc (Suc f)))" by blast
  moreover have "cursor_json i c = 123 # tl (cursor_json i c)" by (simp add: cursor_json_def)
  moreover have "take 1 (js_skip (tl (cursor_json i c))) \<noteq> [125]"
    by (simp add: cursor_json_def json_string_def js_skip_Cons)
  ultimately have "jp_value (2 * length (cursor_json i c) + 2) (cursor_json i c) =
      Some (JObject [(text_of ''id'', JString i), (text_of ''createdAt'', JString c)], [])"
    unfolding f by (metis (no_types) jp_value_object)
  then show ?thesis unfolding json_parse_def by (simp add: js_skip_def)
qed

lemma units_cursor: "list_all (\<lambda>u. u < 65536) i \<Longrightarrow> list_all (\<lambda>u. u < 65536) c \<Longrightarrow> well_formed_text (cursor_json i c)"
  unfolding cursor_json_def
  by (intro well_formed_append json_string_text ascii_units ascii_text) simp_all

text \<open>
  C35: A cursor reads back as the payload it was made from, for ids and timestamps that are any
  JavaScript strings: quotes, control characters, text outside ASCII and unpaired surrogates all
  survive the JSON text, its UTF-8 bytes and base64url.
\<close>

theorem cursor_round_trip:
  assumes "list_all (\<lambda>u. u < 65536) i" and "list_all (\<lambda>u. u < 65536) created"
  shows "decode_cursor (encode_cursor i created) = Some \<lparr>cu_id = i, cu_created_at = created\<rparr>"
proof -
  have wf: "well_formed_text (cursor_json i created)" by (rule units_cursor [OF assms])
  have "buffer_text (base64url_decode (encode_cursor i created)) = cursor_json i created"
    unfolding encode_cursor_def base64url_round_trip [OF text_encode_below [OF wf]]
    by (rule buffer_text_encode [OF wf])
  moreover have "text_of ''id'' \<noteq> text_of ''createdAt''" by (simp add: text_of_def)
  ultimately show ?thesis by (simp add: decode_cursor_def json_parse_cursor [OF assms])
qed

theorem cursor_round_trip_witness:
  "decode_cursor (encode_cursor [117, 34, 0xD800, 10, 0xE9] (text_of ''2026-01-15'')) =
     Some \<lparr>cu_id = [117, 34, 0xD800, 10, 0xE9], cu_created_at = text_of ''2026-01-15''\<rparr>"
  by (rule cursor_round_trip) (simp_all add: text_of_def)

lemma sanitize_limit_bounds:
  assumes "min_page_limit \<le> default_limit" "default_limit \<le> max_limit"
  shows "min_page_limit \<le> sanitize_limit default_limit max_limit l \<and>
    sanitize_limit default_limit max_limit l \<le> max_limit"
  using assms
  by (auto simp: sanitize_limit_def Let_def floor_le_iff le_floor_iff split: js_num.splits)

lemma paginate_envelope_items:
  "pg_items (paginate_envelope f g xs limit) = take limit xs \<and>
   (pg_has_more (paginate_envelope f g xs limit) \<longleftrightarrow> limit < length xs) \<and>
   (0 < limit \<longrightarrow> (pg_next_cursor (paginate_envelope f g xs limit) \<noteq> None \<longleftrightarrow> limit < length xs))"
  by (auto simp: paginate_envelope_def Let_def)

end
