(* ===== verification/AuditRoutes.thy ===== *)
theory AuditRoutes
  imports AuditAccess Pagination HttpErrors
begin

text \<open>
  The audit routes of the API, \<open>apps/api/src/routes/audit.ts\<close>: the reader taken from the request's
  headers, the query route with its cursor, and the export route with its two row formats, over
  the modelled use cases. Node gives a repeated header as a list for \<open>set-cookie\<close> only, so the
  identity headers are read as strings; \<open>x-permissions\<close> is handled in both forms as the code does.
  \<open>Number\<close> applied to a parsed JSON value or to a text is a parameter (the floor of a finite
  result, which is all a comparison with a sequence number depends on).
\<close>

definition split_permissions :: "string list \<Rightarrow> string list" where
  "split_permissions parts =
     fold (\<lambda>p acc. if length (js_trim p) > 0 then set_add (js_trim p) acc else acc) parts []"

definition resolve_audit_reader :: "http_request \<Rightarrow> audit_reader" where
  "resolve_audit_reader r =
     (let actor = (case header_text r ''x-actor-id'' of
            Some a \<Rightarrow> a
          | None \<Rightarrow> (case header_text r ''x-user-id'' of Some u \<Rightarrow> u | None \<Rightarrow> ''anonymous''));
          organization = (case header_text r ''x-organization-id'' of
            Some g \<Rightarrow> g
          | None \<Rightarrow> (case header_text r ''x-org-id'' of Some g \<Rightarrow> g | None \<Rightarrow> ''''));
          permissions = (case map_get (rq_headers r) ''x-permissions'' of
            None \<Rightarrow> []
          | Some (HText raw) \<Rightarrow> split_permissions (js_split CHR '','' raw)
          | Some (HList raws) \<Rightarrow> split_permissions raws)
      in \<lparr>ard_actor = actor, ard_organization = organization, ard_permissions = permissions\<rparr>)"

record 'n numbers =
  nu_of_value :: "json_data \<Rightarrow> int option"
  nu_of_text :: "js_text \<Rightarrow> int option"

definition encode_audit_cursor :: "int \<Rightarrow> string" where
  "encode_audit_cursor n =
     base64url_encode (text_encode
       ([123] @ json_string (text_of ''sequence'') @ [58] @ text_of (show_int n) @ [125]))"

definition decode_audit_cursor :: "'n numbers \<Rightarrow> string \<Rightarrow> int option" where
  "decode_audit_cursor nu cursor =
     (let raw = buffer_text (base64url_decode cursor)
      in case json_parse raw of
        None \<Rightarrow> None
      | Some parsed \<Rightarrow>
          (case parsed of
             JObject es \<Rightarrow> (case map_of es (text_of ''sequence'') of
                 Some v \<Rightarrow> nu_of_value nu v | None \<Rightarrow> nu_of_text nu raw)
           | _ \<Rightarrow> nu_of_text nu raw))"

text \<open>The validated query string; dates are their \<open>Date\<close> values.\<close>

record audit_query =
  aq_cursor :: "string option"
  aq_limit :: limit_input
  aq_actor :: "string option"
  aq_subject :: "string option"
  aq_from :: "date option"
  aq_to :: "date option"

datatype audit_response =
    AuditError "error_body reply"
  | AuditPage "audit_log_entry list" "string option" bool
  | AuditExport string string

text \<open>\<open>sendDomainError\<close> on the two errors of the read use cases.\<close>

definition audit_read_failure :: "string \<Rightarrow> audit_read_error \<Rightarrow> error_body reply" where
  "audit_read_failure request_id e =
     (case e of
        ReadDenied _ \<Rightarrow> send_domain_error request_id ''AUDIT_ACCESS_DENIED''
          ''You are not permitted to read this audit log.'' None
      | ReadNotRecorded \<Rightarrow> send_domain_error request_id ''AUDIT_READ_NOT_RECORDED''
          ''The audit log is temporarily unavailable. Try again shortly.'' None)"

definition audit_query_route ::
  "'n numbers \<Rightarrow> (audit_reader \<Rightarrow> audit_criteria \<Rightarrow> int option \<Rightarrow> int option \<Rightarrow> 's
       \<Rightarrow> (audit_read_error + query_page) option \<times> 's) option
     \<Rightarrow> http_request \<Rightarrow> audit_query \<Rightarrow> 's \<Rightarrow> audit_response \<times> 's" where
  "audit_query_route nu query_use_case r q s =
     (let reader = resolve_audit_reader r
      in if length (ard_organization reader) = 0
         then (AuditError (send_api_error (rq_id r) ''AUDIT_ACCESS_DENIED''
                 ''Organization context required to query audit logs.'' None), s)
         else case query_use_case of
           None \<Rightarrow> (AuditError (send_api_error (rq_id r) ''NOT_IMPLEMENTED''
                     ''Audit event querying is not enabled.'' None), s)
         | Some query \<Rightarrow>
             (let limit = sanitize_limit default_page_limit max_page_limit (aq_limit q);
                  after = (case aq_cursor q of
                      Some c \<Rightarrow> (if length c > 0 then decode_audit_cursor nu c else None)
                    | None \<Rightarrow> None);
                  criteria = \<lparr>acr_organization = ard_organization reader, acr_actor = aq_actor q,
                    acr_subject = aq_subject q, acr_from = aq_from q, acr_to = aq_to q\<rparr>
              in case query reader criteria after (Some limit) s of
                (None, s') \<Rightarrow> (AuditError (send_unexpected_error (rq_id r)), s')
              | (Some (Inl e), s') \<Rightarrow> (AuditError (audit_read_failure (rq_id r) e), s')
              | (Some (Inr page), s') \<Rightarrow>
                  (AuditPage (qp_entries page)
                     (case qp_next_cursor page of
                        Some n \<Rightarrow> (if qp_has_more page then Some (encode_audit_cursor n) else None)
                      | None \<Rightarrow> None)
                     (qp_has_more page), s')))"

section \<open>The export route's rows\<close>

definition route_csv_cell :: "string \<Rightarrow> string" where
  "route_csv_cell v =
     (let neutralized = (case v of
            c # _ \<Rightarrow> (if c \<in> {CHR ''+'', CHR ''='', CHR ''@'', CHR ''-''} then CHR 0x27 # v else v)
          | [] \<Rightarrow> [])
      in if list_ex csv_special neutralized
         then CHR 0x22 # concat (map (\<lambda>c. if c = CHR 0x22 then [c, c] else [c]) neutralized) @ [CHR 0x22]
         else neutralized)"

definition route_csv_row :: "audit_log_entry \<Rightarrow> string" where
  "route_csv_row e = js_join '','' (map route_csv_cell (entry_log_fields e))"

definition audit_export_route ::
  "(audit_reader \<Rightarrow> audit_criteria \<Rightarrow> 's \<Rightarrow> (audit_read_error + audit_log_entry list) option \<times> 's) option
     \<Rightarrow> http_request \<Rightarrow> audit_query \<Rightarrow> audit_export_format \<Rightarrow> 's \<Rightarrow> audit_response \<times> 's" where
  "audit_export_route export_use_case r q format s =
     (let reader = resolve_audit_reader r
      in if length (ard_organization reader) = 0
         then (AuditError (send_api_error (rq_id r) ''AUDIT_ACCESS_DENIED''
                 ''Organization context required to export audit logs.'' None), s)
         else case export_use_case of
           None \<Rightarrow> (AuditError (send_api_error (rq_id r) ''NOT_IMPLEMENTED''
                     ''Audit event export is not enabled.'' None), s)
         | Some export \<Rightarrow>
             (let criteria = \<lparr>acr_organization = ard_organization reader, acr_actor = aq_actor q,
                    acr_subject = aq_subject q, acr_from = aq_from q, acr_to = aq_to q\<rparr>
              in case export reader criteria s of
                (None, s') \<Rightarrow> (AuditError (send_unexpected_error (rq_id r)), s')
              | (Some (Inl e), s') \<Rightarrow> (AuditError (audit_read_failure (rq_id r) e), s')
              | (Some (Inr es), s') \<Rightarrow>
                  (case format of
                     Csv \<Rightarrow> (AuditExport ''text/csv; charset=utf-8''
                       (concat (map (\<lambda>l. l @ [CHR 0x0D, CHR 0x0A])
                          (audit_export_header # map route_csv_row es))), s')
                   | Jsonl \<Rightarrow> (AuditExport ''application/x-ndjson; charset=utf-8''
                       (concat (map (\<lambda>e. jsonl_row e @ [CHR 0x0A]) es)), s'))))"

section \<open>Whose authority the routes act on\<close>

definition route_criteria :: "http_request \<Rightarrow> audit_query \<Rightarrow> audit_criteria" where
  "route_criteria r q =
     \<lparr>acr_organization = ard_organization (resolve_audit_reader r), acr_actor = aq_actor q,
      acr_subject = aq_subject q, acr_from = aq_from q, acr_to = aq_to q\<rparr>"

definition answers_page :: "audit_response \<Rightarrow> bool" where
  "answers_page a = (case a of AuditPage _ _ _ \<Rightarrow> True | _ \<Rightarrow> False)"

lemma authorize_and_record_permits:
  "(\<exists>s'. authorize_and_record_audit_read recorder reader ReadQuery c s = (Some (Inr ()), s')) \<longleftrightarrow>
     ard_organization reader = acr_organization c \<and> ''audit:query'' \<in> set (ard_permissions reader) \<and>
     (\<exists>m e s'. describe_criteria c = Some m \<and>
        recorder (read_command ActAuditQueried reader c m) s = (Some e, s'))"
  by (auto simp: authorize_and_record_audit_read_def authorize_audit_read_def
      split: option.splits prod.splits sum.splits)

lemma query_execute_page:
  "(\<exists>page st'. query_execute recorder reader c after limit st = (Some (Inr page), st')) \<longleftrightarrow>
     (\<exists>s'. authorize_and_record_audit_read recorder reader ReadQuery c (fst st) = (Some (Inr ()), s'))"
  by (auto simp: query_execute_def split: option.splits prod.splits sum.splits)

lemma audit_query_route_page:
  "answers_page (fst (audit_query_route nu (Some query) r q st)) \<longleftrightarrow>
     ard_organization (resolve_audit_reader r) \<noteq> [] \<and>
     (\<exists>page st'. query (resolve_audit_reader r) (route_criteria r q)
        (case aq_cursor q of Some c \<Rightarrow> (if length c > 0 then decode_audit_cursor nu c else None) | None \<Rightarrow> None)
        (Some (sanitize_limit default_page_limit max_page_limit (aq_limit q))) st = (Some (Inr page), st'))"
  by (auto simp: audit_query_route_def answers_page_def route_criteria_def Let_def
      split: option.splits prod.splits sum.splits)

lemma audit_query_route_iff:
  "answers_page (fst (audit_query_route nu (Some (query_execute recorder)) r q (s, m))) \<longleftrightarrow>
     ard_organization (resolve_audit_reader r) \<noteq> [] \<and>
     ''audit:query'' \<in> set (ard_permissions (resolve_audit_reader r)) \<and>
     (\<exists>d e s'. describe_criteria (route_criteria r q) = Some d \<and>
        recorder (read_command ActAuditQueried (resolve_audit_reader r) (route_criteria r q) d) s = (Some e, s'))"
  unfolding audit_query_route_page query_execute_page authorize_and_record_permits
  by (simp add: route_criteria_def)

lemma query_execute_entries:
  assumes "query_execute recorder reader c after limit (s, m) = (Some (Inr page), st')"
  shows "length (qp_entries page) \<le> 100 \<and> (\<forall>x \<in> set (qp_entries page). (acr_organization c, x) \<in> set (mr_entries m))"
proof -
  obtain a s' where a: "authorize_and_record_audit_read recorder reader ReadQuery c s = (a, s')" by fastforce
  obtain found m' where f: "reader_query c after (query_limit limit + 1) m = (found, m')" by fastforce
  have page: "page = query_page_of (query_limit limit) found"
    using assms a f by (auto simp: query_execute_def split: option.splits sum.splits)
  have "length found \<le> query_limit limit + 1" using f by (auto simp: reader_query_def)
  then have "length (qp_entries page) \<le> 100"
    unfolding page using query_page_length query_limit_bounds(2) [of limit] le_trans by blast
  moreover have "(acr_organization c, x) \<in> set (mr_entries m)" if "x \<in> set (qp_entries page)" for x
    using that query_page_of_entries(1) [of "query_limit limit" found] reader_query_entries [OF f]
    unfolding page by blast
  ultimately show ?thesis by blast
qed

text \<open>
  The audit query route acts on what the request says of itself: it answers with a page
  exactly if a header names an organization, the \<open>x-permissions\<close> header of the same request
  lists \<open>audit:query\<close>, and the read can be recorded, whoever sent the request. The page then has
  at most 100 entries, all filed under the organization the header named.
\<close>

theorem audit_route_authority_is_headers:
  "(answers_page (fst (audit_query_route nu (Some (query_execute recorder)) r q (s, m))) \<longleftrightarrow>
     ard_organization (resolve_audit_reader r) \<noteq> [] \<and>
     ''audit:query'' \<in> set (ard_permissions (resolve_audit_reader r)) \<and>
     (\<exists>d e s'. describe_criteria (route_criteria r q) = Some d \<and>
        recorder (read_command ActAuditQueried (resolve_audit_reader r) (route_criteria r q) d) s = (Some e, s'))) \<and>
   (case fst (audit_query_route nu (Some (query_execute recorder)) r q (s, m)) of
      AuditPage es cursor has_more \<Rightarrow> length es \<le> 100 \<and>
        set es \<subseteq> {x. (ard_organization (resolve_audit_reader r), x) \<in> set (mr_entries m)}
    | _ \<Rightarrow> True)"
proof
  show "answers_page (fst (audit_query_route nu (Some (query_execute recorder)) r q (s, m))) \<longleftrightarrow>
     ard_organization (resolve_audit_reader r) \<noteq> [] \<and>
     ''audit:query'' \<in> set (ard_permissions (resolve_audit_reader r)) \<and>
     (\<exists>d e s'. describe_criteria (route_criteria r q) = Some d \<and>
        recorder (read_command ActAuditQueried (resolve_audit_reader r) (route_criteria r q) d) s = (Some e, s'))"
    by (rule audit_query_route_iff)
  show "case fst (audit_query_route nu (Some (query_execute recorder)) r q (s, m)) of
      AuditPage es cursor has_more \<Rightarrow> length es \<le> 100 \<and>
        set es \<subseteq> {x. (ard_organization (resolve_audit_reader r), x) \<in> set (mr_entries m)}
    | _ \<Rightarrow> True"
    using query_execute_entries
    by (fastforce simp: audit_query_route_def Let_def split: option.split prod.split sum.split audit_response.split)
qed

text \<open>So a request with two headers and no credential of any kind reads any organization's log.\<close>

definition forged_request :: "string \<Rightarrow> http_request" where
  "forged_request organization =
     \<lparr>rq_method = ''GET'', rq_url = ''/audit'',
      rq_headers = [(''x-organization-id'', HText organization), (''x-permissions'', HText ''audit:query'')],
      rq_ip = ''203.0.113.9'', rq_protocol = ''https'', rq_id = ''r1''\<rparr>"

lemma forged_reader:
  "resolve_audit_reader (forged_request organization) =
     \<lparr>ard_actor = ''anonymous'', ard_organization = organization, ard_permissions = [''audit:query'']\<rparr>"
proof -
  have "split_permissions (js_split CHR '','' ''audit:query'') = [''audit:query'']" by code_simp
  then show ?thesis by (simp add: resolve_audit_reader_def forged_request_def header_text_def)
qed

lemma forged_request_reads:
  assumes "organization \<noteq> []"
    and "\<And>d. describe_criteria (route_criteria (forged_request organization) q) = Some d \<Longrightarrow>
      \<exists>e s'. recorder (read_command ActAuditQueried (resolve_audit_reader (forged_request organization))
        (route_criteria (forged_request organization) q) d) s = (Some e, s')"
    and "describe_criteria (route_criteria (forged_request organization) q) \<noteq> None"
  shows "answers_page (fst (audit_query_route nu (Some (query_execute recorder)) (forged_request organization) q (s, m)))"
  using assms by (auto simp: audit_query_route_iff forged_reader)


end
