(* ===== verification/AdminRoutes.thy ===== *)
theory AdminRoutes
  imports Permissions HttpErrors
begin

text \<open>
  The RBAC administration surface: the routes of
  \<open>packages/authorization/interface/admin-roles.routes.ts\<close> over the repository of
  \<open>infrastructure/prisma-authorization-repository.ts\<close>. The database is its four tables as lists of
  rows. Of Prisma the repository uses \<open>findUnique\<close>, \<open>findFirst\<close> and \<open>findMany\<close> with equality
  filters, \<open>create\<close>, \<open>update\<close>, \<open>upsert\<close>, \<open>delete\<close> and \<open>deleteMany\<close>; they are written out on the
  rows, with the unique keys, foreign keys and cascades of \<open>packages/database/prisma/schema.prisma\<close>:
  a violated one, or a missing row to update or delete, is the exception Prisma raises. Ids are
  taken to be UUIDs and row-level security is left out. \<open>by_name\<close> is the collation of the database.
\<close>

section \<open>Tables\<close>

record role_row =
  rr_id :: string
  rr_name :: string
  rr_description :: "string option"
  rr_is_system :: bool

record permission_row =
  pr_id :: string
  pr_key :: string
  pr_description :: "string option"

record role_assignment =
  ra_id :: string
  ra_user :: string
  ra_role :: string
  ra_org :: string
  ra_assigned_at :: int
  ra_assigned_by :: "string option"
  ra_expires_at :: "int option"

record authz_db =
  adb_users :: "string list"
  adb_roles :: "role_row list"
  adb_permissions :: "permission_row list"
  adb_role_permissions :: "(string \<times> string) list"
  adb_assignments :: "role_assignment list"

datatype authz_code = AuthzNotFound | AuthzForbidden | AuthzConflict | AuthzInvalid

text \<open>An \<open>AuthorizationError\<close>, or an exception of the database client with its message.\<close>

datatype authz_failure = AuthzFailure authz_code | DatabaseFailure string

record role_record =
  ro_id :: string
  ro_name :: string
  ro_description :: string
  ro_is_system :: bool
  ro_permissions :: "string list"

section \<open>The repository\<close>

definition role_keys :: "authz_db \<Rightarrow> string \<Rightarrow> string list" where
  "role_keys db role_id =
     List.map_filter (\<lambda>(r, p). if r = role_id then map_option pr_key (find (\<lambda>x. pr_id x = p) (adb_permissions db))
                               else None) (adb_role_permissions db)"

definition map_role :: "authz_db \<Rightarrow> role_row \<Rightarrow> role_record" where
  "map_role db row =
     \<lparr>ro_id = rr_id row, ro_name = rr_name row, ro_description = or_default (rr_description row) '''',
      ro_is_system = rr_is_system row, ro_permissions = role_keys db (rr_id row)\<rparr>"

definition find_role :: "authz_db \<Rightarrow> string \<Rightarrow> role_row option" where
  "find_role db i = find (\<lambda>r. rr_id r = i) (adb_roles db)"

definition find_permission :: "authz_db \<Rightarrow> string \<Rightarrow> permission_row option" where
  "find_permission db key = find (\<lambda>p. pr_key p = key) (adb_permissions db)"

definition repo_list_roles :: "(role_row list \<Rightarrow> role_row list) \<Rightarrow> authz_db \<Rightarrow> role_record list" where
  "repo_list_roles by_name db = map (map_role db) (by_name (adb_roles db))"

definition repo_get_role :: "authz_db \<Rightarrow> string \<Rightarrow> role_record option" where
  "repo_get_role db i = map_option (map_role db) (find_role db i)"

definition repo_create_role ::
  "string \<Rightarrow> string \<Rightarrow> string \<Rightarrow> bool \<Rightarrow> authz_db \<Rightarrow> (authz_failure + role_record) \<times> authz_db" where
  "repo_create_role fresh name description is_system db =
     (if list_ex (\<lambda>r. rr_name r = name) (adb_roles db)
      then (Inl (DatabaseFailure ''Unique constraint failed''), db)
      else let row = \<lparr>rr_id = fresh, rr_name = name, rr_description = Some description,
                 rr_is_system = is_system\<rparr>;
               db' = db\<lparr>adb_roles := adb_roles db @ [row]\<rparr>
           in (Inr (map_role db' row), db'))"

definition repo_update_role ::
  "string \<Rightarrow> string option \<Rightarrow> string option \<Rightarrow> authz_db \<Rightarrow> (authz_failure + role_record) \<times> authz_db" where
  "repo_update_role i name description db =
     (case find_role db i of
        None \<Rightarrow> (Inl (DatabaseFailure ''Record to update not found''), db)
      | Some row \<Rightarrow>
          (let row' = row\<lparr>rr_name := or_default name (rr_name row),
                 rr_description := (case description of None \<Rightarrow> rr_description row | Some d \<Rightarrow> Some d)\<rparr>
           in if list_ex (\<lambda>r. rr_id r \<noteq> i \<and> rr_name r = rr_name row') (adb_roles db)
              then (Inl (DatabaseFailure ''Unique constraint failed''), db)
              else let db' = db\<lparr>adb_roles := map (\<lambda>r. if rr_id r = i then row' else r) (adb_roles db)\<rparr>
                   in (Inr (map_role db' row'), db')))"

definition repo_delete_role :: "string \<Rightarrow> authz_db \<Rightarrow> (authz_failure + unit) \<times> authz_db" where
  "repo_delete_role i db =
     (case find_role db i of
        None \<Rightarrow> (Inl (AuthzFailure AuthzNotFound), db)
      | Some row \<Rightarrow>
          (if rr_is_system row then (Inl (AuthzFailure AuthzForbidden), db)
           else (Inr (), db\<lparr>adb_roles := filter (\<lambda>r. rr_id r \<noteq> i) (adb_roles db),
                   adb_role_permissions := filter (\<lambda>(r, p). r \<noteq> i) (adb_role_permissions db),
                   adb_assignments := filter (\<lambda>a. ra_role a \<noteq> i) (adb_assignments db)\<rparr>)))"

definition repo_list_permissions ::
  "(permission_row list \<Rightarrow> permission_row list) \<Rightarrow> authz_db \<Rightarrow> (string \<times> string \<times> string) list" where
  "repo_list_permissions by_key db =
     map (\<lambda>p. (pr_id p, pr_key p, or_default (pr_description p) '''')) (by_key (adb_permissions db))"

definition repo_grant_permission ::
  "string \<Rightarrow> string \<Rightarrow> authz_db \<Rightarrow> (authz_failure + role_record) \<times> authz_db" where
  "repo_grant_permission role_id key db =
     (case find_permission db key of
        None \<Rightarrow> (Inl (AuthzFailure AuthzNotFound), db)
      | Some p \<Rightarrow>
          (case find_role db role_id of
             None \<Rightarrow> (Inl (AuthzFailure AuthzNotFound), db)
           | Some role \<Rightarrow>
               (if key = ''*:*'' \<and> \<not> rr_is_system role then (Inl (AuthzFailure AuthzForbidden), db)
                else let db' = db\<lparr>adb_role_permissions := set_add (role_id, pr_id p) (adb_role_permissions db)\<rparr>
                     in (Inr (map_role db' role), db'))))"

definition repo_revoke_permission ::
  "string \<Rightarrow> string \<Rightarrow> authz_db \<Rightarrow> (authz_failure + role_record) \<times> authz_db" where
  "repo_revoke_permission role_id key db =
     (case find_permission db key of
        None \<Rightarrow> (Inl (AuthzFailure AuthzNotFound), db)
      | Some p \<Rightarrow>
          (case find_role db role_id of
             None \<Rightarrow> (Inl (AuthzFailure AuthzNotFound), db)
           | Some role \<Rightarrow>
               (if rr_is_system role then (Inl (AuthzFailure AuthzForbidden), db)
                else let db' = db\<lparr>adb_role_permissions := set_delete (role_id, pr_id p) (adb_role_permissions db)\<rparr>
                     in (Inr (map_role db' role), db'))))"

definition repo_list_assignments :: "authz_db \<Rightarrow> string \<Rightarrow> string option \<Rightarrow> role_assignment list" where
  "repo_list_assignments db user org =
     sort_key (\<lambda>a. - ra_assigned_at a)
       (filter (\<lambda>a. ra_user a = user \<and> (case org of None \<Rightarrow> True | Some g \<Rightarrow> ra_org a = g))
          (adb_assignments db))"

definition assignment_live :: "int \<Rightarrow> role_assignment \<Rightarrow> bool" where
  "assignment_live now a \<longleftrightarrow> (case ra_expires_at a of None \<Rightarrow> True | Some e \<Rightarrow> e > now)"

definition repo_assign_role ::
  "string \<Rightarrow> int \<Rightarrow> string \<Rightarrow> string \<Rightarrow> string \<Rightarrow> string option \<Rightarrow> int option \<Rightarrow> authz_db
     \<Rightarrow> (authz_failure + role_assignment) \<times> authz_db" where
  "repo_assign_role fresh now user role_id org assigned_by expires db =
     (case find_role db role_id of
        None \<Rightarrow> (Inl (AuthzFailure AuthzNotFound), db)
      | Some _ \<Rightarrow>
          (case find (\<lambda>a. ra_user a = user \<and> ra_role a = role_id \<and> ra_org a = org \<and> assignment_live now a)
                  (adb_assignments db) of
             Some existing \<Rightarrow> (Inr existing, db)
           | None \<Rightarrow>
               (if list_ex (\<lambda>a. ra_user a = user \<and> ra_org a = org \<and> ra_role a = role_id) (adb_assignments db)
                then (Inl (DatabaseFailure ''Unique constraint failed''), db)
                else if user \<notin> set (adb_users db)
                then (Inl (DatabaseFailure ''Foreign key constraint failed''), db)
                else let a = \<lparr>ra_id = fresh, ra_user = user, ra_role = role_id, ra_org = org,
                           ra_assigned_at = now, ra_assigned_by = assigned_by, ra_expires_at = expires\<rparr>
                     in (Inr a, db\<lparr>adb_assignments := adb_assignments db @ [a]\<rparr>))))"

definition repo_revoke_assignment :: "string \<Rightarrow> authz_db \<Rightarrow> (authz_failure + unit) \<times> authz_db" where
  "repo_revoke_assignment i db =
     (if list_ex (\<lambda>a. ra_id a = i) (adb_assignments db)
      then (Inr (), db\<lparr>adb_assignments := filter (\<lambda>a. ra_id a \<noteq> i) (adb_assignments db)\<rparr>)
      else (Inl (DatabaseFailure ''Record to delete does not exist''), db))"

definition repo_has_permission :: "int \<Rightarrow> authz_db \<Rightarrow> string \<Rightarrow> string option \<Rightarrow> string \<Rightarrow> bool" where
  "repo_has_permission now db user org key =
     (case org of
        None \<Rightarrow> False
      | Some g \<Rightarrow>
          list_ex (\<lambda>a. legacy_role_has_permission (role_keys db (ra_role a)) key)
            (filter (\<lambda>a. ra_user a = user \<and> ra_org a = g \<and> assignment_live now a) (adb_assignments db)))"

section \<open>The routes\<close>

text \<open>The first value of a repeated header.\<close>

definition admin_header :: "http_request \<Rightarrow> string \<Rightarrow> string option" where
  "admin_header r name =
     (case map_get (rq_headers r) name of
        None \<Rightarrow> None
      | Some (HText s) \<Rightarrow> Some s
      | Some (HList xs) \<Rightarrow> (case xs of [] \<Rightarrow> None | x # _ \<Rightarrow> Some x))"

datatype admin_route =
    ListRoles
  | CreateRole string string
  | UpdateRole string "string option" "string option"
  | DeleteRole string
  | ListPermissions
  | GrantPermission string string
  | RevokePermission string string
  | ListAssignments string "string option"
  | AssignRole string string "string option" "int option"
  | RevokeAssignment string

datatype admin_body =
    BodyRoles "role_record list"
  | BodyRole role_record
  | BodyPermissions "(string \<times> string \<times> string) list"
  | BodyAssignments "role_assignment list"
  | BodyAssignment role_assignment
  | BodyEmpty
  | BodyError string

record admin_reply =
  ad_status :: nat
  ad_body :: admin_body

definition error_status :: "authz_failure \<Rightarrow> nat" where
  "error_status e =
     (case e of
        DatabaseFailure _ \<Rightarrow> 500
      | AuthzFailure AuthzNotFound \<Rightarrow> 404
      | AuthzFailure AuthzConflict \<Rightarrow> 409
      | AuthzFailure AuthzInvalid \<Rightarrow> 400
      | AuthzFailure AuthzForbidden \<Rightarrow> 403)"

definition failure_message :: "authz_failure \<Rightarrow> string" where
  "failure_message e =
     (case e of
        DatabaseFailure m \<Rightarrow> m
      | AuthzFailure AuthzNotFound \<Rightarrow> ''NOT_FOUND''
      | AuthzFailure AuthzConflict \<Rightarrow> ''CONFLICT''
      | AuthzFailure AuthzInvalid \<Rightarrow> ''INVALID''
      | AuthzFailure AuthzForbidden \<Rightarrow> ''FORBIDDEN'')"

definition reply_error :: "authz_failure \<Rightarrow> admin_reply" where
  "reply_error e =
     \<lparr>ad_status = error_status e,
      ad_body = BodyError (if error_status e = 403 then ''Forbidden'' else failure_message e)\<rparr>"

definition forbidden_reply :: admin_reply where
  "forbidden_reply = \<lparr>ad_status = 403, ad_body = BodyError ''Forbidden''\<rparr>"

definition route_permission :: "admin_route \<Rightarrow> string" where
  "route_permission route =
     (case route of
        ListRoles \<Rightarrow> ''roles:read'' | ListPermissions \<Rightarrow> ''roles:read''
      | ListAssignments _ _ \<Rightarrow> ''roles:read'' | _ \<Rightarrow> ''roles:write'')"

definition require_route_permission :: "int \<Rightarrow> http_request \<Rightarrow> string \<Rightarrow> authz_db \<Rightarrow> bool" where
  "require_route_permission now r key db =
     (case admin_header r ''x-user-id'' of
        None \<Rightarrow> False
      | Some user \<Rightarrow> repo_has_permission now db user (admin_header r ''x-organization-id'') key)"

text \<open>A repository call whose success is answered with \<open>status\<close>.\<close>

definition answer ::
  "nat \<Rightarrow> ('a \<Rightarrow> admin_body) \<Rightarrow> (authz_failure + 'a) \<times> authz_db \<Rightarrow> admin_reply \<times> authz_db" where
  "answer status body out =
     ((case fst out of Inl e \<Rightarrow> reply_error e | Inr v \<Rightarrow> \<lparr>ad_status = status, ad_body = body v\<rparr>), snd out)"

definition list_assignments_route ::
  "http_request \<Rightarrow> string \<Rightarrow> string option \<Rightarrow> authz_db \<Rightarrow> admin_reply" where
  "list_assignments_route r user org db =
     (case admin_header r ''x-organization-id'' of
        None \<Rightarrow> forbidden_reply
      | Some caller_org \<Rightarrow>
          (if org \<noteq> None \<and> org \<noteq> Some caller_org then forbidden_reply
           else \<lparr>ad_status = 200, ad_body = BodyAssignments (repo_list_assignments db user (Some caller_org))\<rparr>))"

definition assign_role_route ::
  "string \<Rightarrow> int \<Rightarrow> http_request \<Rightarrow> string \<Rightarrow> string \<Rightarrow> string option \<Rightarrow> int option \<Rightarrow> authz_db
     \<Rightarrow> admin_reply \<times> authz_db" where
  "assign_role_route fresh now r user role_id org expires db =
     (let actor = admin_header r ''x-user-id'';
          caller_org = admin_header r ''x-organization-id'';
          organization = (case org of Some g \<Rightarrow> Some g | None \<Rightarrow> caller_org)
      in case organization of
        None \<Rightarrow> (forbidden_reply, db)
      | Some g \<Rightarrow>
          (if caller_org \<noteq> Some g then (forbidden_reply, db)
           else case repo_get_role db role_id of
             None \<Rightarrow> (\<lparr>ad_status = 404, ad_body = BodyError ''Role not found''\<rparr>, db)
           | Some target \<Rightarrow>
               (if actor = Some user \<and>
                   \<not> list_all (\<lambda>p. repo_has_permission now db user caller_org p) (ro_permissions target)
                then (forbidden_reply, db)
                else answer 201 BodyAssignment
                       (repo_assign_role fresh now user role_id g actor expires db))))"

definition admin_handle ::
  "(role_row list \<Rightarrow> role_row list) \<Rightarrow> (permission_row list \<Rightarrow> permission_row list) \<Rightarrow> string \<Rightarrow> int
     \<Rightarrow> http_request \<Rightarrow> admin_route \<Rightarrow> authz_db \<Rightarrow> admin_reply \<times> authz_db" where
  "admin_handle by_name by_key fresh now r route db =
     (if \<not> require_route_permission now r (route_permission route) db then (forbidden_reply, db)
      else case route of
        ListRoles \<Rightarrow> (\<lparr>ad_status = 200, ad_body = BodyRoles (repo_list_roles by_name db)\<rparr>, db)
      | CreateRole name description \<Rightarrow>
          (if js_trim name = '''' \<or> js_trim description = ''''
           then (\<lparr>ad_status = 400, ad_body = BodyError ''name and description are required''\<rparr>, db)
           else answer 201 BodyRole (repo_create_role fresh name description False db))
      | UpdateRole i name description \<Rightarrow> answer 200 BodyRole (repo_update_role i name description db)
      | DeleteRole i \<Rightarrow> answer 204 (\<lambda>_. BodyEmpty) (repo_delete_role i db)
      | ListPermissions \<Rightarrow> (\<lparr>ad_status = 200, ad_body = BodyPermissions (repo_list_permissions by_key db)\<rparr>, db)
      | GrantPermission i key \<Rightarrow> answer 200 BodyRole (repo_grant_permission i key db)
      | RevokePermission i key \<Rightarrow> answer 200 BodyRole (repo_revoke_permission i key db)
      | ListAssignments user org \<Rightarrow> (list_assignments_route r user org db, db)
      | AssignRole user role_id org expires \<Rightarrow> assign_role_route fresh now r user role_id org expires db
      | RevokeAssignment i \<Rightarrow> answer 204 (\<lambda>_. BodyEmpty) (repo_revoke_assignment i db))"

section \<open>The tables stay sound\<close>

definition db_inv :: "authz_db \<Rightarrow> bool" where
  "db_inv db \<longleftrightarrow> distinct (map rr_id (adb_roles db)) \<and> distinct (map rr_name (adb_roles db)) \<and>
     distinct (map (\<lambda>a. (ra_user a, ra_org a, ra_role a)) (adb_assignments db)) \<and>
     distinct (map ra_id (adb_assignments db)) \<and> distinct (adb_role_permissions db) \<and>
     (\<forall>(r, p) \<in> set (adb_role_permissions db). r \<in> rr_id ` set (adb_roles db) \<and>
        p \<in> pr_id ` set (adb_permissions db)) \<and>
     (\<forall>a \<in> set (adb_assignments db). ra_role a \<in> rr_id ` set (adb_roles db) \<and> ra_user a \<in> set (adb_users db))"

lemma role_keys_set:
  "set (role_keys db i) =
     {k. \<exists>p row. (i, p) \<in> set (adb_role_permissions db) \<and>
        find (\<lambda>x. pr_id x = p) (adb_permissions db) = Some row \<and> k = pr_key row}"
proof -
  have mf: "set (List.map_filter f xs) = {y. \<exists>x \<in> set xs. f x = Some y}" for f :: "string \<times> string \<Rightarrow> string option" and xs
    by (induction xs) (auto simp: List.map_filter_simps split: option.splits)
  show ?thesis unfolding role_keys_def mf by (force split: if_splits)
qed

lemma find_role_Some: "find_role db i = Some r \<Longrightarrow> r \<in> set (adb_roles db) \<and> rr_id r = i"
  unfolding find_role_def by (rule find_SomeD)

lemma find_permission_Some: "find_permission db k = Some p \<Longrightarrow> p \<in> set (adb_permissions db) \<and> pr_key p = k"
  unfolding find_permission_def by (rule find_SomeD)

lemma distinct_snoc: "distinct (map f xs) \<Longrightarrow> f x \<notin> f ` set xs \<Longrightarrow> distinct (map f (xs @ [x]))"
  by auto

lemma distinct_filter_map: "distinct (map f xs) \<Longrightarrow> distinct (map f (filter P xs))"
  by (induction xs) auto

lemma create_role_inv:
  "db_inv db \<Longrightarrow> fresh \<notin> rr_id ` set (adb_roles db) \<Longrightarrow>
     db_inv (snd (repo_create_role fresh name description s db))"
  by (auto simp: repo_create_role_def db_inv_def Let_def list_ex_iff)

lemma distinct_replace:
  "distinct (map k xs) \<Longrightarrow> distinct (map f xs) \<Longrightarrow> (\<forall>x \<in> set xs. k x \<noteq> i \<longrightarrow> f x \<noteq> f y) \<Longrightarrow>
     distinct (map f (map (\<lambda>x. if k x = i then y else x) xs))"
proof (induction xs)
  case (Cons x xs)
  have IH: "distinct (map f (map (\<lambda>x. if k x = i then y else x) xs))" using Cons by simp
  show ?case
  proof (cases "k x = i")
    case True
    have other: "\<forall>z \<in> set xs. k z \<noteq> i"
    proof (intro ballI notI)
      fix z assume "z \<in> set xs" "k z = i"
      then have "k x \<in> k ` set xs" using True by (metis image_eqI)
      then show False using Cons.prems(1) by simp
    qed
    then have "map (\<lambda>x. if k x = i then y else x) xs = xs" by (simp add: map_idI)
    then show ?thesis using True other Cons.prems(2,3) by auto
  next
    case False
    then have "f x \<notin> set (map f (map (\<lambda>x. if k x = i then y else x) xs))"
      using Cons.prems by (auto split: if_splits)
    then show ?thesis using IH False by simp
  qed
qed simp

lemma update_role_inv:
  assumes "db_inv db"
  shows "db_inv (snd (repo_update_role i name description db))"
proof (cases "find_role db i")
  case None
  then show ?thesis using assms by (simp add: repo_update_role_def)
next
  case (Some row)
  define row' where "row' = row\<lparr>rr_name := or_default name (rr_name row),
    rr_description := (case description of None \<Rightarrow> rr_description row | Some d \<Rightarrow> Some d)\<rparr>"
  have row: "row \<in> set (adb_roles db)" "rr_id row = i" "rr_id row' = i"
    using find_role_Some [OF Some] by (simp_all add: row'_def)
  have d: "distinct (map rr_id (adb_roles db))" "distinct (map rr_name (adb_roles db))"
    using assms by (simp_all add: db_inv_def)
  then have only: "x = row" if "x \<in> set (adb_roles db)" "rr_id x = i" for x
    using that row by (auto simp: distinct_map inj_on_def)
  show ?thesis
  proof (cases "list_ex (\<lambda>r. rr_id r \<noteq> i \<and> rr_name r = rr_name row') (adb_roles db)")
    case True
    then show ?thesis using assms Some by (simp add: repo_update_role_def row'_def Let_def)
  next
    case False
    let ?roles = "map (\<lambda>r. if rr_id r = i then row' else r) (adb_roles db)"
    have "snd (repo_update_role i name description db) = db\<lparr>adb_roles := ?roles\<rparr>"
      using Some False by (simp add: repo_update_role_def row'_def Let_def)
    moreover have "distinct (map rr_id ?roles)" "distinct (map rr_name ?roles)"
    proof -
      have "\<forall>x \<in> set (adb_roles db). rr_id x \<noteq> i \<longrightarrow> rr_id x \<noteq> rr_id row'" using row by simp
      then show "distinct (map rr_id ?roles)" by (rule distinct_replace [OF d(1) d(1)])
      have "\<forall>x \<in> set (adb_roles db). rr_id x \<noteq> i \<longrightarrow> rr_name x \<noteq> rr_name row'"
        using False unfolding list_ex_iff by blast
      then show "distinct (map rr_name ?roles)" by (rule distinct_replace [OF d])
    qed
    moreover have "map rr_id ?roles = map rr_id (adb_roles db)" using row(3) by auto
    then have "rr_id ` set ?roles = rr_id ` set (adb_roles db)" by (metis set_map)
    ultimately show ?thesis using assms unfolding db_inv_def by (simp del: set_map map_map)
  qed
qed

lemma delete_role_inv: "db_inv db \<Longrightarrow> db_inv (snd (repo_delete_role i db))"
  by (auto simp: repo_delete_role_def db_inv_def distinct_filter_map split: option.split)

lemma grant_permission_inv: "db_inv db \<Longrightarrow> db_inv (snd (repo_grant_permission i key db))"
  by (auto simp: repo_grant_permission_def db_inv_def Let_def split: option.split
      dest!: find_role_Some find_permission_Some)

lemma revoke_permission_inv: "db_inv db \<Longrightarrow> db_inv (snd (repo_revoke_permission i key db))"
  by (auto simp: repo_revoke_permission_def db_inv_def Let_def split: option.split)

lemma assign_role_inv:
  "db_inv db \<Longrightarrow> fresh \<notin> ra_id ` set (adb_assignments db) \<Longrightarrow>
     db_inv (snd (repo_assign_role fresh now user role_id org actor expires db))"
  by (auto simp: repo_assign_role_def db_inv_def Let_def list_ex_iff split: option.split
      dest!: find_role_Some)

lemma revoke_assignment_inv: "db_inv db \<Longrightarrow> db_inv (snd (repo_revoke_assignment i db))"
  by (auto simp: repo_revoke_assignment_def db_inv_def distinct_filter_map)

section \<open>What an administrator can and cannot change\<close>

text \<open>One request, with a fresh id for what it creates.\<close>

inductive admin_step :: "authz_db \<Rightarrow> authz_db \<Rightarrow> bool" where
  "admin_handle by_name by_key fresh now r route db = (reply, db') \<Longrightarrow>
     fresh \<notin> rr_id ` set (adb_roles db) \<Longrightarrow> fresh \<notin> ra_id ` set (adb_assignments db) \<Longrightarrow> admin_step db db'"

inductive admin_steps :: "authz_db \<Rightarrow> authz_db \<Rightarrow> bool" where
  none: "admin_steps db db"
| step: "admin_steps a b \<Longrightarrow> admin_step b c \<Longrightarrow> admin_steps a c"

lemma answer_snd [simp]: "snd (answer status body out) = snd out"
  by (simp add: answer_def)

lemma admin_handle_cases:
  assumes "Q db" "\<And>name description. Q (snd (repo_create_role fresh name description False db))"
    and "\<And>i name description. Q (snd (repo_update_role i name description db))"
    and "\<And>i. Q (snd (repo_delete_role i db))" "\<And>i key. Q (snd (repo_grant_permission i key db))"
    and "\<And>i key. Q (snd (repo_revoke_permission i key db))"
    and "\<And>user i g actor expires. Q (snd (repo_assign_role fresh now user i g actor expires db))"
    and "\<And>i. Q (snd (repo_revoke_assignment i db))"
  shows "Q (snd (admin_handle by_name by_key fresh now r route db))"
  using assms
  by (cases route) (auto simp: admin_handle_def assign_role_route_def Let_def
      split: option.split)

lemma admin_step_inv: "admin_step db db' \<Longrightarrow> db_inv db \<Longrightarrow> db_inv db'"
proof (induction rule: admin_step.induct)
  case (1 by_name by_key fresh now r route db reply db')
  note inv = \<open>db_inv db\<close>
  have "db_inv (snd (admin_handle by_name by_key fresh now r route db))"
    by (rule admin_handle_cases [where Q = db_inv])
      (rule inv create_role_inv [OF inv 1(2)] update_role_inv [OF inv] delete_role_inv [OF inv]
         grant_permission_inv [OF inv] revoke_permission_inv [OF inv] assign_role_inv [OF inv 1(3)]
         revoke_assignment_inv [OF inv])+
  then show ?case using 1 by simp
qed

lemma admin_steps_inv: "admin_steps db db' \<Longrightarrow> db_inv db \<Longrightarrow> db_inv db'"
  by (induction rule: admin_steps.induct) (auto intro: admin_step_inv)

text \<open>A built-in role and what it grants.\<close>

definition system_role_keeps :: "string \<Rightarrow> authz_db \<Rightarrow> authz_db \<Rightarrow> bool" where
  "system_role_keeps i db db' \<longleftrightarrow>
     (\<exists>row. find_role db' i = Some row \<and> rr_is_system row) \<and> set (role_keys db i) \<subseteq> set (role_keys db' i)"

lemma system_role_keeps_refl:
  "find_role db i = Some row \<Longrightarrow> rr_is_system row \<Longrightarrow> system_role_keeps i db db"
  by (simp add: system_role_keeps_def)

lemma find_snoc: "find P xs = Some x \<Longrightarrow> find P (xs @ ys) = Some x"
  by (induction xs) auto

lemma find_filter: "(\<forall>x. P x \<longrightarrow> Q x) \<Longrightarrow> find P (filter Q xs) = find P xs"
  by (induction xs) auto

lemma find_replace:
  "find (\<lambda>r. rr_id r = i) (map (\<lambda>r. if rr_id r = j then row' else r) xs) =
     (if i = j \<and> rr_id row' = j then map_option (\<lambda>_. row') (find (\<lambda>r. rr_id r = i) xs)
      else find (\<lambda>r. rr_id r = i) xs)"
  if "rr_id row' = j"
  using that by (induction xs) auto

lemma system_role_keeps_step:
  assumes "find_role db i = Some row" "rr_is_system row"
  shows "system_role_keeps i db (snd (admin_handle by_name by_key fresh now r route db))"
proof -
  have keys: "role_keys d i = role_keys db i"
    if "adb_permissions d = adb_permissions db" "adb_role_permissions d = adb_role_permissions db" for d :: authz_db
    unfolding role_keys_def that by (rule HOL.refl)
  have create: "system_role_keeps i db (snd (repo_create_role fresh name description False db))" for name description
  proof -
    let ?d = "snd (repo_create_role fresh name description False db)"
    have "role_keys ?d i = role_keys db i" by (rule keys) (simp_all add: repo_create_role_def Let_def)
    moreover have "find_role ?d i = Some row"
      using assms(1) by (simp add: repo_create_role_def find_role_def Let_def find_snoc)
    ultimately show ?thesis using assms(2) by (simp add: system_role_keeps_def)
  qed
  have update: "system_role_keeps i db (snd (repo_update_role j name description db))" for j name description
  proof (cases "find_role db j")
    case None
    then show ?thesis using assms system_role_keeps_refl by (simp add: repo_update_role_def)
  next
    case (Some old)
    have "rr_id old = j" using find_role_Some [OF Some] by simp
    moreover have "i = j \<Longrightarrow> old = row" using Some assms(1) by simp
    ultimately show ?thesis
      using Some assms keys [of "snd (repo_update_role j name description db)"]
      by (auto simp: repo_update_role_def system_role_keeps_def find_role_def Let_def find_replace)
  qed
  have delete: "system_role_keeps i db (snd (repo_delete_role j db))" for j
  proof (cases "find_role db j")
    case None
    then show ?thesis using assms system_role_keeps_refl by (simp add: repo_delete_role_def)
  next
    case (Some old)
    show ?thesis
    proof (cases "rr_is_system old")
      case True
      then show ?thesis using Some assms system_role_keeps_refl by (simp add: repo_delete_role_def)
    next
      case False
      then have "i \<noteq> j" using Some assms by auto
      then have "find_role (snd (repo_delete_role j db)) i = Some row"
        using Some False assms(1) by (simp add: repo_delete_role_def find_role_def find_filter)
      moreover have "set (role_keys db i) \<subseteq> set (role_keys (snd (repo_delete_role j db)) i)"
        using \<open>i \<noteq> j\<close> Some False unfolding role_keys_set by (auto simp: repo_delete_role_def)
      ultimately show ?thesis using assms(2) by (simp add: system_role_keeps_def)
    qed
  qed
  have grant: "system_role_keeps i db (snd (repo_grant_permission j key db))" for j key
    using assms unfolding system_role_keeps_def role_keys_set
    by (auto simp: repo_grant_permission_def find_role_def Let_def split: option.split)
  have revoke: "system_role_keeps i db (snd (repo_revoke_permission j key db))" for j key
  proof (cases "j = i")
    case True
    then show ?thesis
      using assms system_role_keeps_refl [OF assms] by (auto simp: repo_revoke_permission_def split: option.split)
  next
    case False
    then show ?thesis
      using assms unfolding system_role_keeps_def role_keys_set
      by (auto simp: repo_revoke_permission_def find_role_def Let_def split: option.split)
  qed
  have assign: "system_role_keeps i db (snd (repo_assign_role fresh now user j g actor expires db))"
    for user j g actor expires
    using assms keys [of "snd (repo_assign_role fresh now user j g actor expires db)"] unfolding system_role_keeps_def
    by (auto simp: repo_assign_role_def find_role_def Let_def split: option.split)
  have unassign: "system_role_keeps i db (snd (repo_revoke_assignment j db))" for j
    using assms keys [of "snd (repo_revoke_assignment j db)"] unfolding system_role_keeps_def
    by (auto simp: repo_revoke_assignment_def find_role_def)
  show ?thesis
    by (rule admin_handle_cases [where Q = "system_role_keeps i db"])
      (rule system_role_keeps_refl [OF assms] create update delete grant revoke assign unassign)+
qed

lemma admin_steps_system:
  "admin_steps db db' \<Longrightarrow> find_role db i = Some row \<Longrightarrow> rr_is_system row \<Longrightarrow> system_role_keeps i db db'"
proof (induction rule: admin_steps.induct)
  case (none db)
  then show ?case by (rule system_role_keeps_refl)
next
  case (step a b c)
  then obtain row' where "find_role b i = Some row'" "rr_is_system row'" "set (role_keys a i) \<subseteq> set (role_keys b i)"
    by (auto simp: system_role_keeps_def)
  moreover have "system_role_keeps i b c"
    using step.hyps(2) calculation by cases (metis snd_conv system_role_keeps_step)
  ultimately show ?case by (auto simp: system_role_keeps_def)
qed

text \<open>
  C26: The administration routes keep the RBAC tables sound: from tables whose role ids, names and
  assignments are unique and whose references exist, every sequence of requests leads to such
  tables, and no built-in role disappears or loses a permission. A request is served only to a user
  named in \<open>x-user-id\<close> with a live assignment, in the organization of \<open>x-organization-id\<close>, to a role
  that grants \<open>roles:read\<close> for the three listing routes and \<open>roles:write\<close> for the others; any other
  request, reads included, is answered with a bare 403 and changes nothing. Whatever changes the
  tables was asked by a holder of \<open>roles:write\<close>.
\<close>

theorem admin_tables_sound:
  assumes "db_inv db" and "admin_steps db db'" and "find_role db i = Some row" and "rr_is_system row"
  shows "db_inv db' \<and> system_role_keeps i db db' \<and>
    (let holds = (\<lambda>key. \<exists>user org a. admin_header r ''x-user-id'' = Some user \<and>
           admin_header r ''x-organization-id'' = Some org \<and>
           a \<in> set (adb_assignments db') \<and> ra_user a = user \<and> ra_org a = org \<and> assignment_live now a \<and>
           legacy_role_has_permission (role_keys db' (ra_role a)) key);
         listing = (route = ListRoles \<or> route = ListPermissions \<or> (\<exists>user org. route = ListAssignments user org))
     in (\<not> holds (if listing then ''roles:read'' else ''roles:write'') \<longrightarrow>
           admin_handle by_name by_key fresh now r route db' =
             (\<lparr>ad_status = 403, ad_body = BodyError ''Forbidden''\<rparr>, db')) \<and>
        (snd (admin_handle by_name by_key fresh now r route db') \<noteq> db' \<longrightarrow> \<not> listing \<and> holds ''roles:write''))"
proof -
  let ?holds = "\<lambda>key. \<exists>user org a. admin_header r ''x-user-id'' = Some user \<and>
      admin_header r ''x-organization-id'' = Some org \<and>
      a \<in> set (adb_assignments db') \<and> ra_user a = user \<and> ra_org a = org \<and> assignment_live now a \<and>
      legacy_role_has_permission (role_keys db' (ra_role a)) key"
  let ?listing = "route = ListRoles \<or> route = ListPermissions \<or> (\<exists>user org. route = ListAssignments user org)"
  have holds: "require_route_permission now r key db' \<longleftrightarrow> ?holds key" for key
    by (auto simp: require_route_permission_def repo_has_permission_def list_ex_iff split: option.splits)
  have key: "route_permission route = (if ?listing then ''roles:read'' else ''roles:write'')"
    by (cases route) (simp_all add: route_permission_def)
  have refused: "admin_handle by_name by_key fresh now r route db' = (forbidden_reply, db')"
    if "\<not> ?holds (if ?listing then ''roles:read'' else ''roles:write'')"
    using that unfolding key [symmetric] holds [symmetric] by (simp add: admin_handle_def)
  have reads: "snd (admin_handle by_name by_key fresh now r route db') = db'" if ?listing
    using that by (auto simp: admin_handle_def)
  have "\<not> ?listing \<and> ?holds ''roles:write''" if "snd (admin_handle by_name by_key fresh now r route db') \<noteq> db'"
  proof -
    have l: "\<not> ?listing" using reads that by blast
    then have "(if ?listing then ''roles:read'' else ''roles:write'') = ''roles:write''" by (rule if_not_P)
    from refused [unfolded this] that have "?holds ''roles:write''" by (metis (no_types, lifting) snd_conv)
    with l show ?thesis by blast
  qed
  then show ?thesis
    using admin_steps_inv [OF assms(2,1)] admin_steps_system [OF assms(2-4)] refused
    unfolding Let_def forbidden_reply_def by blast
qed

text \<open>A concrete set of tables: a built-in role, an editor with \<open>roles:write\<close>, and two users.\<close>

definition demo_db :: authz_db where
  "demo_db = \<lparr>adb_users = [''u1'', ''u2''],
     adb_roles = [\<lparr>rr_id = ''r1'', rr_name = ''admin'', rr_description = None, rr_is_system = True\<rparr>,
                  \<lparr>rr_id = ''r2'', rr_name = ''editor'', rr_description = Some ''edits'', rr_is_system = False\<rparr>],
     adb_permissions = [\<lparr>pr_id = ''p1'', pr_key = ''roles:write'', pr_description = None\<rparr>,
                        \<lparr>pr_id = ''p2'', pr_key = ''*:*'', pr_description = None\<rparr>,
                        \<lparr>pr_id = ''p3'', pr_key = ''docs:read'', pr_description = None\<rparr>],
     adb_role_permissions = [(''r1'', ''p1''), (''r2'', ''p1'')],
     adb_assignments = [\<lparr>ra_id = ''a1'', ra_user = ''u1'', ra_role = ''r2'', ra_org = ''g1'',
       ra_assigned_at = 5, ra_assigned_by = None, ra_expires_at = None\<rparr>]\<rparr>"

definition demo_request :: http_request where
  "demo_request = \<lparr>rq_method = ''POST'', rq_url = ''/'', rq_headers =
     [(''x-user-id'', HText ''u1''), (''x-organization-id'', HText ''g1'')],
     rq_ip = ''::1'', rq_protocol = ''http'', rq_id = ''q1''\<rparr>"

definition demo_db_granted :: authz_db where
  "demo_db_granted = snd (admin_handle id id ''n1'' 10 demo_request (GrantPermission ''r2'' ''docs:read'') demo_db)"

lemma demo_db_inv: "db_inv demo_db"
  by (simp add: db_inv_def demo_db_def)

lemma demo_db_steps: "admin_steps demo_db demo_db_granted"
proof (rule admin_steps.step)
  show "admin_steps demo_db demo_db" by (rule admin_steps.none)
  show "admin_step demo_db demo_db_granted"
    by (rule admin_step.intros [where by_name = id and by_key = id and fresh = "''n1''" and now = 10
          and r = demo_request and route = "GrantPermission ''r2'' ''docs:read''"
          and reply = "fst (admin_handle id id ''n1'' 10 demo_request (GrantPermission ''r2'' ''docs:read'') demo_db)"])
      (simp_all add: demo_db_granted_def demo_db_def)
qed

theorem admin_tables_sound_witness:
  "db_inv demo_db_granted \<and> set (role_keys demo_db_granted ''r2'') = {''roles:write'', ''docs:read''} \<and>
     system_role_keeps ''r1'' demo_db demo_db_granted"
proof -
  have "db_inv demo_db_granted \<and> system_role_keeps ''r1'' demo_db demo_db_granted"
    using admin_tables_sound [OF demo_db_inv demo_db_steps, where i = "''r1''" and
      row = "\<lparr>rr_id = ''r1'', rr_name = ''admin'', rr_description = None, rr_is_system = True\<rparr>"]
    by (simp add: demo_db_def find_role_def)
  moreover have "set (role_keys demo_db_granted ''r2'') = {''roles:write'', ''docs:read''}" by code_simp
  ultimately show ?thesis by simp
qed

section \<open>What \<open>roles:write\<close> amounts to\<close>

lemma role_keys_granted:
  assumes "find_permission db key = Some p" "distinct (map pr_id (adb_permissions db))"
  shows "key \<in> set (role_keys (db\<lparr>adb_role_permissions := set_add (i, pr_id p) (adb_role_permissions db)\<rparr>) i)"
proof -
  have p: "p \<in> set (adb_permissions db)" "pr_key p = key" using find_permission_Some [OF assms(1)] by simp_all
  have unique: "p \<in> set xs \<Longrightarrow> distinct (map pr_id xs) \<Longrightarrow> find (\<lambda>x. pr_id x = pr_id p) xs = Some p" for xs
    by (induction xs) (auto simp: image_iff)
  have "find (\<lambda>x. pr_id x = pr_id p) (adb_permissions db) = Some p"
    by (rule unique [OF p(1) assms(2)])
  then show ?thesis using p(2) unfolding role_keys_set by (auto simp: image_iff)
qed

text \<open>
  C27: \<open>roles:write\<close> is full control of the RBAC tables. A user who holds it through a live assignment to
  an ordinary role can grant that role any registered permission but the literal \<open>*:*\<close> and holds
  it from then on, without the check that a role they assign to themselves goes through; and they
  can revoke any stored assignment, whatever organization it belongs to.
\<close>

theorem roles_write_is_full_control:
  assumes "admin_header r ''x-user-id'' = Some user" and "admin_header r ''x-organization-id'' = Some g"
    and "a \<in> set (adb_assignments db)" and "ra_user a = user" and "ra_org a = g" and "assignment_live now a"
    and "legacy_role_has_permission (role_keys db (ra_role a)) ''roles:write''"
    and "find_role db (ra_role a) = Some role" and "\<not> rr_is_system role"
    and "find_permission db key = Some p" and "key \<noteq> ''*:*''" and "distinct (map pr_id (adb_permissions db))"
    and "b \<in> set (adb_assignments db)"
  shows "(case admin_handle by_name by_key fresh now r (GrantPermission (ra_role a) key) db of
            (reply, db') \<Rightarrow> ad_status reply = 200 \<and> repo_has_permission now db' user (Some g) key) \<and>
    (case admin_handle by_name by_key fresh now r (RevokeAssignment (ra_id b)) db of
            (reply, db') \<Rightarrow> ad_status reply = 204 \<and> b \<notin> set (adb_assignments db'))"
proof
  have may: "require_route_permission now r ''roles:write'' db"
    using assms(1-7) by (auto simp: require_route_permission_def repo_has_permission_def list_ex_iff)
  let ?db = "db\<lparr>adb_role_permissions := set_add (ra_role a, pr_id p) (adb_role_permissions db)\<rparr>"
  have "key \<in> set (role_keys ?db (ra_role a))" by (rule role_keys_granted [OF assms(10,12)])
  then have "repo_has_permission now ?db user (Some g) key"
    using assms(3-6) by (auto simp: repo_has_permission_def list_ex_iff legacy_role_has_permission_def Let_def)
  then show "case admin_handle by_name by_key fresh now r (GrantPermission (ra_role a) key) db of
      (reply, db') \<Rightarrow> ad_status reply = 200 \<and> repo_has_permission now db' user (Some g) key"
    using may assms(8-11)
    by (simp add: admin_handle_def route_permission_def answer_def repo_grant_permission_def Let_def)
  show "case admin_handle by_name by_key fresh now r (RevokeAssignment (ra_id b)) db of
      (reply, db') \<Rightarrow> ad_status reply = 204 \<and> b \<notin> set (adb_assignments db')"
    using may assms(13)
    by (auto simp: admin_handle_def route_permission_def answer_def repo_revoke_assignment_def list_ex_iff)
qed

theorem roles_write_is_full_control_witness:
  "repo_has_permission 10
     (snd (admin_handle id id ''n1'' 10 demo_request (GrantPermission ''r2'' ''docs:read'') demo_db))
     ''u1'' (Some ''g1'') ''docs:read'' \<and> \<not> repo_has_permission 10 demo_db ''u1'' (Some ''g1'') ''docs:read''"
proof -
  let ?a = "\<lparr>ra_id = ''a1'', ra_user = ''u1'', ra_role = ''r2'', ra_org = ''g1'',
       ra_assigned_at = 5, ra_assigned_by = None, ra_expires_at = None\<rparr>"
  have "legacy_role_has_permission (role_keys demo_db ''r2'') ''roles:write''" by code_simp
  then have "repo_has_permission 10
     (snd (admin_handle id id ''n1'' 10 demo_request (GrantPermission ''r2'' ''docs:read'') demo_db))
     ''u1'' (Some ''g1'') ''docs:read''"
    using roles_write_is_full_control [of demo_request "''u1''" "''g1''" ?a demo_db 10
        "\<lparr>rr_id = ''r2'', rr_name = ''editor'', rr_description = Some ''edits'', rr_is_system = False\<rparr>"
        "''docs:read''" "\<lparr>pr_id = ''p3'', pr_key = ''docs:read'', pr_description = None\<rparr>" ?a id id "''n1''"]
    by (simp add: admin_header_def demo_request_def demo_db_def assignment_live_def find_role_def
        find_permission_def split: prod.splits)
  moreover have "\<not> repo_has_permission 10 demo_db ''u1'' (Some ''g1'') ''docs:read''" by code_simp
  ultimately show ?thesis by simp
qed

text \<open>An expired assignment stays in the way of a new one: the unique key counts it.\<close>

lemma expired_assignment_blocks:
  assumes "find_role db i = Some role" and "a \<in> set (adb_assignments db)" and "ra_user a = user"
    and "ra_org a = g" and "ra_role a = i"
    and "\<forall>b \<in> set (adb_assignments db). ra_user b = user \<and> ra_role b = i \<and> ra_org b = g \<longrightarrow> \<not> assignment_live now b"
  shows "repo_assign_role fresh now user i g actor expires db =
    (Inl (DatabaseFailure ''Unique constraint failed''), db)"
proof -
  have "find (\<lambda>a. ra_user a = user \<and> ra_role a = i \<and> ra_org a = g \<and> assignment_live now a) (adb_assignments db) = None"
    using assms(6) by (auto simp: find_None_iff)
  moreover have "list_ex (\<lambda>a. ra_user a = user \<and> ra_org a = g \<and> ra_role a = i) (adb_assignments db)"
    using assms(2-5) by (auto simp: list_ex_iff)
  ultimately show ?thesis using assms(1) by (simp add: repo_assign_role_def)
qed

end
