(* ===== verification/AnchorFunding.thy ===== *)
theory AnchorFunding
  imports Pagination TextForms
begin

text \<open>
  The funding of the account that anchors the audit log, \<open>packages/stellar-anchor\<close>: amounts
  (\<open>application/ports/account-balance.ts\<close>) and the monitor that reads the balance, raises alerts
  and clears or refuses a submission (\<open>infrastructure/balance-monitor.ts\<close>). Horizon's answer to a
  balance query, the clock and whether the alerter delivers are arguments; the alerts and metrics
  handed to their sinks are kept in the state. Times are milliseconds; amounts of XLM shown to
  humans are kept in stroops and message texts are dropped.
\<close>

section \<open>Amounts\<close>

definition stroops_per_xlm :: nat where "stroops_per_xlm = 10000000"

definition anchor_transaction_fee_stroops :: nat where "anchor_transaction_fee_stroops = 100"

text \<open>
  A number of the language: the double nearest to a natural number, ties to the even one. Sums and
  products of numbers are this function of the exact result.
\<close>

fun bit_length :: "nat \<Rightarrow> nat" where
  "bit_length n = (if n = 0 then 0 else Suc (bit_length (n div 2)))"

declare bit_length.simps [simp del]

definition double_of :: "nat \<Rightarrow> nat" where
  "double_of n =
     (if n < 2 ^ 53 then n
      else let unit_size = 2 ^ (bit_length n - 53);
               q = n div unit_size; r = n mod unit_size
           in if 2 * r > unit_size \<or> (2 * r = unit_size \<and> odd q) then (q + 1) * unit_size
              else q * unit_size)"

text \<open>The pattern \<open>^(\d+)(?:\.(\d{1,7}))?$\<close>: the two groups.\<close>

definition amount_pattern :: "string \<Rightarrow> (string \<times> string option) option" where
  "amount_pattern s =
     (case split_first CHR ''.'' s of
        None \<Rightarrow> (if s \<noteq> [] \<and> list_all dec_digit s then Some (s, None) else None)
      | Some (whole, decimals) \<Rightarrow>
          (if whole \<noteq> [] \<and> list_all dec_digit whole \<and> decimals \<noteq> [] \<and> length decimals \<le> 7 \<and> list_all dec_digit decimals
           then Some (whole, Some decimals) else None))"

text \<open>
  \<open>Number(match[1])\<close> is a safe integer exactly when the digits read as one, and is then exact.
\<close>

definition xlm_to_stroops :: "string \<Rightarrow> nat option" where
  "xlm_to_stroops amount =
     (case amount_pattern (js_trim amount) of
        None \<Rightarrow> None
      | Some (digits, decimal_digits) \<Rightarrow>
          (let whole = read_digits digits;
               decimals = or_default decimal_digits [];
               fraction = read_digits (decimals @ replicate (7 - length decimals) CHR ''0'')
           in if \<not> whole < 2 ^ 53 then None
              else Some (double_of (double_of (whole * stroops_per_xlm) + fraction))))"

section \<open>Balances\<close>

record account_balance =
  ab_key :: string
  ab_network :: string
  ab_stroops :: nat
  ab_queried_at :: int

text \<open>
  \<open>HorizonAccountBalanceReader.read\<close>; the argument is what \<open>loadAccount\<close> gives, an exception or the
  balance lines of the account as pairs of asset type and amount.
\<close>

definition read_balance ::
  "string \<Rightarrow> string \<Rightarrow> int \<Rightarrow> string + (string \<times> string) list \<Rightarrow> string + account_balance" where
  "read_balance key network_id now account =
     (case account of
        Inl e \<Rightarrow> Inl e
      | Inr balances \<Rightarrow>
          (case find (\<lambda>(asset, amount). asset = ''native'') balances of
             None \<Rightarrow> Inl ''no native (XLM) balance line''
           | Some (_, balance) \<Rightarrow>
               (case xlm_to_stroops balance of
                  None \<Rightarrow> Inl ''unparseable XLM balance''
                | Some stroops \<Rightarrow> Inr \<lparr>ab_key = key, ab_network = network_id, ab_stroops = stroops,
                    ab_queried_at = now\<rparr>)))"

section \<open>The monitor\<close>

datatype alert_kind =
    AlertBelowThreshold
  | AlertUnfundable
  | AlertBalanceUnreadable
  | AlertUnfundableAttempt
  | AlertRecovered

datatype funding_class = Funded | BelowThreshold | Unfundable

datatype funding_status = StatusOf funding_class account_balance | StatusUnknown string

record funding_alert =
  fa_kind :: alert_kind
  fa_network :: string
  fa_key :: string
  fa_available :: "nat option"
  fa_threshold :: nat
  fa_observed_at :: int

record balance_metric =
  bm_available :: nat
  bm_threshold :: nat
  bm_fundable :: bool
  bm_network :: string
  bm_key :: string
  bm_observed_at :: int

text \<open>The constructor's options; the threshold is the rounded number of stroops.\<close>

record monitor_config =
  mc_key :: string
  mc_threshold :: nat
  mc_fee :: nat

record monitor =
  mo_last_alerted :: "alert_kind option"
  mo_reported_underfunded :: bool
  mo_last_status :: "funding_status option"
  mo_alerts :: "funding_alert list"
  mo_metrics :: "balance_metric list"

definition new_monitor :: monitor where
  "new_monitor = \<lparr>mo_last_alerted = None, mo_reported_underfunded = False, mo_last_status = None,
     mo_alerts = [], mo_metrics = []\<rparr>"

definition classify_balance :: "monitor_config \<Rightarrow> monitor \<Rightarrow> account_balance \<Rightarrow> funding_class" where
  "classify_balance cfg m b =
     (if mo_reported_underfunded m \<or> ab_stroops b < mc_fee cfg then Unfundable
      else if ab_stroops b < mc_threshold cfg then BelowThreshold else Funded)"

text \<open>
  \<open>#raise\<close>: the first component is whether the call returns; it throws when the alerter does.
\<close>

definition raise_alert ::
  "monitor_config \<Rightarrow> int \<Rightarrow> bool \<Rightarrow> bool \<Rightarrow> funding_status option \<Rightarrow> alert_kind \<Rightarrow> monitor \<Rightarrow> bool \<times> monitor" where
  "raise_alert cfg now delivered force status kind m =
     (if \<not> force \<and> mo_last_alerted m = Some kind then (True, m)
      else let alert = \<lparr>fa_kind = kind,
                 fa_network = (case status of Some (StatusOf _ b) \<Rightarrow> ab_network b | _ \<Rightarrow> ''unknown''),
                 fa_key = mc_key cfg,
                 fa_available = (case status of Some (StatusOf _ b) \<Rightarrow> Some (ab_stroops b) | _ \<Rightarrow> None),
                 fa_threshold = mc_threshold cfg, fa_observed_at = now\<rparr>
           in (delivered, m\<lparr>mo_last_alerted := Some kind, mo_alerts := mo_alerts m @ [alert]\<rparr>))"

definition emit_metric :: "monitor_config \<Rightarrow> int \<Rightarrow> account_balance option \<Rightarrow> monitor \<Rightarrow> monitor" where
  "emit_metric cfg now balance m =
     m\<lparr>mo_metrics := mo_metrics m @
       [\<lparr>bm_available = (case balance of None \<Rightarrow> 0 | Some b \<Rightarrow> ab_stroops b), bm_threshold = mc_threshold cfg,
         bm_fundable = (case balance of None \<Rightarrow> False
           | Some b \<Rightarrow> \<not> mo_reported_underfunded m \<and> ab_stroops b \<ge> mc_fee cfg),
         bm_network = (case balance of None \<Rightarrow> ''unknown'' | Some b \<Rightarrow> ab_network b),
         bm_key = mc_key cfg, bm_observed_at = now\<rparr>]\<rparr>"

definition raise_for_balance ::
  "monitor_config \<Rightarrow> int \<Rightarrow> bool \<Rightarrow> account_balance \<Rightarrow> funding_class \<Rightarrow> monitor \<Rightarrow> bool \<times> monitor" where
  "raise_for_balance cfg now delivered b kind m =
     (case kind of
        Funded \<Rightarrow>
          (if mo_last_alerted m \<noteq> None
           then raise_alert cfg now delivered False (Some (StatusOf kind b)) AlertRecovered m
           else (True, m))
      | BelowThreshold \<Rightarrow> raise_alert cfg now delivered False (Some (StatusOf kind b)) AlertBelowThreshold m
      | Unfundable \<Rightarrow> raise_alert cfg now delivered False (Some (StatusOf kind b)) AlertUnfundable m)"

text \<open>\<open>None\<close> is the exception of the alerter.\<close>

definition check_funding ::
  "monitor_config \<Rightarrow> int \<Rightarrow> bool \<Rightarrow> string + account_balance \<Rightarrow> monitor \<Rightarrow> funding_status option \<times> monitor" where
  "check_funding cfg now delivered reading m =
     (case reading of
        Inl e \<Rightarrow>
          (let status = StatusUnknown e;
               (returns, m') = raise_alert cfg now delivered False (Some status) AlertBalanceUnreadable
                 (emit_metric cfg now None (m\<lparr>mo_last_status := Some status\<rparr>))
           in ((if returns then Some status else None), m'))
      | Inr b \<Rightarrow>
          (let m1 = (if ab_stroops b \<ge> mc_threshold cfg then m\<lparr>mo_reported_underfunded := False\<rparr> else m);
               kind = classify_balance cfg m1 b;
               status = StatusOf kind b;
               (returns, m') = raise_for_balance cfg now delivered b kind
                 (emit_metric cfg now (Some b) (m1\<lparr>mo_last_status := Some status\<rparr>))
           in ((if returns then Some status else None), m')))"

text \<open>\<open>beforeAnchor\<close>: cleared or refused, \<open>None\<close> the exception.\<close>

definition before_anchor ::
  "monitor_config \<Rightarrow> int \<Rightarrow> bool \<Rightarrow> string + account_balance \<Rightarrow> monitor \<Rightarrow> bool option \<times> monitor" where
  "before_anchor cfg now delivered reading m =
     (let (status, m') = check_funding cfg now delivered reading m
      in ((case status of
             None \<Rightarrow> None
           | Some (StatusOf Funded _) \<Rightarrow> Some True
           | Some _ \<Rightarrow> Some False), m'))"

definition report_underfunded_rejection ::
  "monitor_config \<Rightarrow> int \<Rightarrow> bool \<Rightarrow> monitor \<Rightarrow> bool \<times> monitor" where
  "report_underfunded_rejection cfg now delivered m =
     (let (returns, m') = raise_alert cfg now delivered True (mo_last_status m) AlertUnfundableAttempt
            (m\<lparr>mo_reported_underfunded := True\<rparr>)
      in if returns then (True, m'\<lparr>mo_last_alerted := Some AlertUnfundable\<rparr>) else (False, m'))"

definition underfunded_patterns :: "string list" where
  "underfunded_patterns =
     [''op_underfunded'', ''insufficient balance'', ''underfunded'', ''account not funded'',
      ''the source account does not have enough'']"

definition is_underfunded_ledger_error :: "string \<Rightarrow> bool" where
  "is_underfunded_ledger_error message =
     (let text = js_lower message
      in if js_includes text ''no such account'' then True
         else list_ex (js_includes text) underfunded_patterns)"

section \<open>Amounts are read exactly\<close>

lemma double_of_small [simp]: "n < 2 ^ 53 \<Longrightarrow> double_of n = n"
  by (simp add: double_of_def)

lemma read_digits_append: "read_digits (s @ t) = read_digits s * 10 ^ length t + read_digits t"
proof -
  define f where "f = (\<lambda>a c. 10 * a + (of_char c - 48) :: nat)"
  have split: "foldl f a t = a * 10 ^ length t + foldl f 0 t" for a
  proof (induction t arbitrary: a)
    case (Cons c t)
    have "foldl f a (c # t) = f a c * 10 ^ length t + foldl f 0 t" unfolding foldl.simps by (rule Cons)
    moreover have "foldl f 0 (c # t) = f 0 c * 10 ^ length t + foldl f 0 t" unfolding foldl.simps by (rule Cons)
    moreover have "f a c = 10 * a + f 0 c" by (simp add: f_def)
    ultimately show ?case by (simp add: add_mult_distrib)
  qed simp
  have "foldl f 0 (s @ t) = foldl f (foldl f 0 s) t" by simp
  also have "... = foldl f 0 s * 10 ^ length t + foldl f 0 t" by (rule split)
  finally show ?thesis by (simp add: read_digits_def f_def)
qed

text \<open>The seven decimals of an amount, as Horizon writes them.\<close>

definition seven_digits :: "nat \<Rightarrow> string" where
  "seven_digits n = (let s = show_nat n in replicate (7 - length s) CHR ''0'' @ s)"

definition amount_text :: "nat \<Rightarrow> string" where
  "amount_text n = show_nat (n div stroops_per_xlm) @ ''.'' @ seven_digits (n mod stroops_per_xlm)"

lemma read_digits_zeros: "read_digits (replicate k CHR ''0'' @ s) = read_digits s"
proof -
  have "read_digits (replicate k CHR ''0'') = 0"
    by (induction k) (simp_all add: read_digits_def)
  then show ?thesis by (simp add: read_digits_append)
qed

lemma show_nat_length: "n < 10 ^ k \<Longrightarrow> 0 < k \<Longrightarrow> length (show_nat n) \<le> k"
proof (induction k arbitrary: n)
  case (Suc k)
  show ?case
  proof (cases "n < 10")
    case True
    then show ?thesis by (simp add: show_nat.simps [of n])
  next
    case False
    then have "0 < k" using Suc.prems by (cases k) auto
    moreover have "n div 10 < 10 ^ k" using Suc.prems by (simp add: less_mult_imp_div_less mult.commute)
    ultimately have "n div 10 < 10 ^ k" "0 < k" by simp_all
    then show ?thesis using Suc.IH [of "n div 10"] False by (simp add: show_nat.simps [of n])
  qed
qed simp

lemma show_nat_dec_digits: "list_all dec_digit (show_nat n)"
  using show_nat_digits [of _ n] by (fastforce simp: list_all_iff dec_digit_def)

lemma seven_digits_facts:
  assumes "n < 10 ^ 7"
  shows "length (seven_digits n) = 7" "list_all dec_digit (seven_digits n)" "read_digits (seven_digits n) = n"
proof -
  have "length (show_nat n) \<le> 7" using show_nat_length [OF assms] by simp
  then show "length (seven_digits n) = 7" by (simp add: seven_digits_def Let_def)
  show "list_all dec_digit (seven_digits n)"
    using show_nat_dec_digits [of n] by (auto simp: seven_digits_def Let_def dec_digit_def list_all_iff)
  show "read_digits (seven_digits n) = n"
    by (simp add: seven_digits_def Let_def read_digits_zeros read_show_nat)
qed

lemma dec_digit_plain: "dec_digit c \<Longrightarrow> c \<noteq> CHR ''.'' \<and> \<not> js_ws c"
  by (auto simp: dec_digit_def js_ws_def Let_def)

text \<open>
  An amount of the ledger reads as its number of stroops, digit for digit, as long as that number is
  a safe integer; a text that is not digits with at most seven decimals is not a number.
\<close>

lemma amount_round_trip:
  assumes "n < 2 ^ 53"
  shows "xlm_to_stroops (amount_text n) = Some n"
proof -
  let ?w = "show_nat (n div stroops_per_xlm)" and ?d = "seven_digits (n mod stroops_per_xlm)"
  have "n mod stroops_per_xlm < 10 ^ 7" by (simp add: stroops_per_xlm_def)
  note d = seven_digits_facts [OF this]
  have plain: "list_all dec_digit ?w" by (rule show_nat_dec_digits)
  have "\<forall>c \<in> set (amount_text n). dec_digit c \<or> c = CHR ''.''"
    using plain d(2) by (auto simp: amount_text_def list_all_iff)
  then have "\<forall>c \<in> set (amount_text n). \<not> js_ws c" using dec_digit_plain by (fastforce simp: js_ws_def)
  then have "js_trim (amount_text n) = amount_text n" by (rule js_trim_no_ws)
  moreover have "split_first CHR ''.'' (amount_text n) = Some (?w, ?d)"
    using plain dec_digit_plain unfolding amount_text_def split_first_Some by (auto simp: list_all_iff)
  ultimately have "amount_pattern (js_trim (amount_text n)) = Some (?w, Some ?d)"
    using plain d by (auto simp: amount_pattern_def)
  moreover have "n div stroops_per_xlm < 2 ^ 53" "n div stroops_per_xlm * stroops_per_xlm < 2 ^ 53"
    using assms by (auto intro: le_less_trans [OF div_le_dividend] le_less_trans [OF div_times_less_eq_dividend])
  moreover have "n div stroops_per_xlm * stroops_per_xlm + n mod stroops_per_xlm = n" by simp
  ultimately show ?thesis
    using assms d by (simp add: xlm_to_stroops_def read_show_nat Let_def)
qed

section \<open>What the monitor says\<close>

text \<open>
  What reaches a monitor, with the clock, whether the alerter delivers, and for a poll (of the timer
  or of a submission) Horizon's answer.
\<close>

datatype funding_event = Polled int bool "string + account_balance" | Rejected int bool

fun monitor_event :: "monitor_config \<Rightarrow> funding_event \<Rightarrow> monitor \<Rightarrow> monitor" where
  "monitor_event cfg (Polled now delivered reading) m = snd (check_funding cfg now delivered reading m)"
| "monitor_event cfg (Rejected now delivered) m = snd (report_underfunded_rejection cfg now delivered m)"

definition monitor_run :: "monitor_config \<Rightarrow> funding_event list \<Rightarrow> monitor" where
  "monitor_run cfg events = fold (monitor_event cfg) events new_monitor"

fun no_repeats :: "alert_kind list \<Rightarrow> bool" where
  "no_repeats (k # l # ks) = ((k \<noteq> l \<or> l = AlertUnfundableAttempt) \<and> no_repeats (l # ks))"
| "no_repeats _ = True"

abbreviation alert_kinds :: "monitor \<Rightarrow> alert_kind list" where
  "alert_kinds m \<equiv> map fa_kind (mo_alerts m)"

text \<open>A report of the ledger stands for the monitor's own alert.\<close>

definition stands_for :: "alert_kind \<Rightarrow> alert_kind \<Rightarrow> bool" where
  "stands_for l k \<longleftrightarrow> l = k \<or> (l = AlertUnfundableAttempt \<and> k = AlertUnfundable)"

definition monitor_inv :: "monitor \<Rightarrow> bool" where
  "monitor_inv m \<longleftrightarrow> no_repeats (alert_kinds m) \<and>
     (case mo_last_alerted m of
        None \<Rightarrow> mo_alerts m = []
      | Some k \<Rightarrow> mo_alerts m \<noteq> [] \<and> stands_for (last (alert_kinds m)) k)"

lemma no_repeats_snoc:
  "no_repeats (ks @ [l]) \<longleftrightarrow> no_repeats ks \<and> (ks = [] \<or> last ks \<noteq> l \<or> l = AlertUnfundableAttempt)"
  by (induction ks rule: no_repeats.induct) auto

lemma raise_alert_inv:
  assumes "monitor_inv m" "kind = AlertUnfundableAttempt \<longleftrightarrow> force"
  shows "monitor_inv (snd (raise_alert cfg now delivered force status kind m))"
    and "mo_last_alerted (snd (raise_alert cfg now delivered force status kind m)) = Some kind"
    and "mo_last_status (snd (raise_alert cfg now delivered force status kind m)) = mo_last_status m"
  using assms
  by (auto simp: raise_alert_def monitor_inv_def no_repeats_snoc stands_for_def Let_def last_map split: option.splits)

lemma monitor_inv_new: "monitor_inv new_monitor"
  by (simp add: monitor_inv_def new_monitor_def)

lemma emit_metric_inv [simp]:
  "monitor_inv (emit_metric cfg now b m) = monitor_inv m"
  "mo_last_alerted (emit_metric cfg now b m) = mo_last_alerted m"
  "mo_last_status (emit_metric cfg now b m) = mo_last_status m"
  by (simp_all add: emit_metric_def monitor_inv_def cong: option.case_cong)

lemma monitor_inv_flags [simp]:
  "monitor_inv (m\<lparr>mo_last_status := s\<rparr>) = monitor_inv m"
  "monitor_inv (m\<lparr>mo_reported_underfunded := u\<rparr>) = monitor_inv m"
  by (simp_all add: monitor_inv_def cong: option.case_cong)

text \<open>The kinds the last alert can have for each status.\<close>

definition told_by :: "funding_status \<Rightarrow> alert_kind option \<Rightarrow> bool" where
  "told_by s l =
     (case s of
        StatusUnknown _ \<Rightarrow> l = Some AlertBalanceUnreadable
      | StatusOf Funded _ \<Rightarrow> l = None \<or> l = Some AlertRecovered
      | StatusOf BelowThreshold _ \<Rightarrow> l = Some AlertBelowThreshold
      | StatusOf Unfundable _ \<Rightarrow> l = Some AlertUnfundable \<or> l = Some AlertUnfundableAttempt)"

lemma raise_for_balance_facts:
  assumes "monitor_inv m"
  shows "monitor_inv (snd (raise_for_balance cfg now delivered b kind m)) \<and>
    mo_last_status (snd (raise_for_balance cfg now delivered b kind m)) = mo_last_status m \<and>
    told_by (StatusOf kind b) (mo_last_alerted (snd (raise_for_balance cfg now delivered b kind m)))"
  using assms raise_alert_inv [of m _ False]
  by (cases kind) (auto simp: raise_for_balance_def told_by_def)

lemma check_funding_facts:
  fixes cfg now delivered reading
  assumes "monitor_inv m"
  defines "m' \<equiv> snd (check_funding cfg now delivered reading m)"
  shows "monitor_inv m' \<and> (\<exists>s. mo_last_status m' = Some s \<and> told_by s (mo_last_alerted m'))"
proof (cases reading)
  case (Inl e)
  then show ?thesis
    using assms(1) raise_alert_inv [of "emit_metric cfg now None (m\<lparr>mo_last_status := Some (StatusUnknown e)\<rparr>)"
        AlertBalanceUnreadable False cfg now delivered "Some (StatusUnknown e)"]
    by (simp add: m'_def check_funding_def Let_def case_prod_beta told_by_def)
next
  case (Inr b)
  define m1 where "m1 = (if ab_stroops b \<ge> mc_threshold cfg then m\<lparr>mo_reported_underfunded := False\<rparr> else m)"
  define kind where "kind = classify_balance cfg m1 b"
  define m2 where "m2 = emit_metric cfg now (Some b) (m1\<lparr>mo_last_status := Some (StatusOf kind b)\<rparr>)"
  have m': "m' = snd (raise_for_balance cfg now delivered b kind m2)"
    by (simp add: m'_def check_funding_def Inr Let_def case_prod_beta m1_def [symmetric] kind_def [symmetric]
        m2_def [symmetric])
  have "monitor_inv m2" "mo_last_status m2 = Some (StatusOf kind b)"
    using assms(1) by (simp_all add: m2_def m1_def)
  then show ?thesis unfolding m' using raise_for_balance_facts [of m2 cfg now delivered b kind] by simp
qed

lemma told_by_last:
  assumes "monitor_inv m" "told_by s (mo_last_alerted m)"
  shows "told_by s (if mo_alerts m = [] then None else Some (last (alert_kinds m)))"
  using assms by (auto simp: monitor_inv_def told_by_def stands_for_def split: option.splits funding_status.splits funding_class.splits)

lemma report_rejection_inv:
  assumes "monitor_inv m"
  shows "monitor_inv (snd (report_underfunded_rejection cfg now delivered m))"
proof -
  let ?m = "m\<lparr>mo_reported_underfunded := True\<rparr>"
  let ?r = "raise_alert cfg now delivered True (mo_last_status m) AlertUnfundableAttempt ?m"
  have "monitor_inv (snd ?r)" "mo_last_alerted (snd ?r) = Some AlertUnfundableAttempt"
    using raise_alert_inv [of ?m AlertUnfundableAttempt True cfg now delivered "mo_last_status m"] assms by simp_all
  then have "monitor_inv (snd ?r)" "monitor_inv (snd ?r\<lparr>mo_last_alerted := Some AlertUnfundable\<rparr>)"
    by (auto simp: monitor_inv_def stands_for_def)
  then show ?thesis by (simp add: report_underfunded_rejection_def Let_def case_prod_beta)
qed

lemma monitor_run_inv: "monitor_inv (monitor_run cfg events)"
proof -
  have "monitor_inv m \<Longrightarrow> monitor_inv (fold (monitor_event cfg) events m)" for m
  proof (induction events arbitrary: m)
    case (Cons ev events)
    have "monitor_inv (monitor_event cfg ev m)"
      using Cons.prems check_funding_facts report_rejection_inv by (cases ev) auto
    then show ?case using Cons.IH by simp
  qed simp
  then show ?thesis unfolding monitor_run_def using monitor_inv_new by blast
qed

text \<open>Clearance, exactly.\<close>

lemma before_anchor_iff:
  "fst (before_anchor cfg now delivered reading m) = Some True \<longleftrightarrow>
    (\<exists>b. reading = Inr b \<and> mc_threshold cfg \<le> ab_stroops b \<and> mc_fee cfg \<le> ab_stroops b \<and>
       (delivered \<or> mo_last_alerted m \<in> {None, Some AlertRecovered}))"
  by (auto simp: before_anchor_def check_funding_def classify_balance_def raise_for_balance_def raise_alert_def
      emit_metric_def Let_def case_prod_beta split: sum.splits funding_status.splits funding_class.splits option.splits)

text \<open>
  C38: The monitor says what it sees and does not repeat itself. After any sequence of polls and
  rejections by the ledger, whatever the alerter delivered, the last alert handed to it tells the
  status of the next poll (none or a recovery when funded, the matching alarm otherwise, a reported
  rejection counting as one), and no two successive alerts are alike but for rejections. A
  submission is cleared exactly when the balance could be read, covers the fee and reaches the
  alert threshold, and the recovery it may owe is delivered.
\<close>

theorem funding_alerts_tell_status:
  "(case mo_last_status (monitor_run cfg (events @ [Polled now delivered reading])) of
      None \<Rightarrow> False
    | Some s \<Rightarrow> told_by s
        (let alerts = alert_kinds (monitor_run cfg (events @ [Polled now delivered reading]))
         in if alerts = [] then None else Some (last alerts))) \<and>
   no_repeats (alert_kinds (monitor_run cfg events)) \<and>
   (fst (before_anchor cfg now delivered reading (monitor_run cfg events)) = Some True \<longleftrightarrow>
      (\<exists>b. reading = Inr b \<and> mc_threshold cfg \<le> ab_stroops b \<and> mc_fee cfg \<le> ab_stroops b \<and>
         (delivered \<or> mo_last_alerted (monitor_run cfg events) \<in> {None, Some AlertRecovered})))"
proof (intro conjI)
  let ?m = "monitor_run cfg events"
  have run: "monitor_run cfg (events @ [Polled now delivered reading]) =
      snd (check_funding cfg now delivered reading ?m)" by (simp add: monitor_run_def)
  obtain s where s: "mo_last_status (snd (check_funding cfg now delivered reading ?m)) = Some s"
      "told_by s (mo_last_alerted (snd (check_funding cfg now delivered reading ?m)))"
      and inv: "monitor_inv (snd (check_funding cfg now delivered reading ?m))"
    using check_funding_facts [OF monitor_run_inv] by blast
  show "case mo_last_status (monitor_run cfg (events @ [Polled now delivered reading])) of
      None \<Rightarrow> False
    | Some s \<Rightarrow> told_by s
        (let alerts = alert_kinds (monitor_run cfg (events @ [Polled now delivered reading]))
         in if alerts = [] then None else Some (last alerts))"
    using told_by_last [OF inv s(2)] s(1) unfolding run by (simp add: Let_def)
  show "no_repeats (alert_kinds ?m)" using monitor_run_inv [of cfg events] by (simp add: monitor_inv_def)
  show "fst (before_anchor cfg now delivered reading ?m) = Some True \<longleftrightarrow>
      (\<exists>b. reading = Inr b \<and> mc_threshold cfg \<le> ab_stroops b \<and> mc_fee cfg \<le> ab_stroops b \<and>
         (delivered \<or> mo_last_alerted ?m \<in> {None, Some AlertRecovered}))"
    by (rule before_anchor_iff)
qed

text \<open>
  An account above the fee and below the alert threshold can pay and is refused; a rejection by the
  ledger is forgotten at the next poll that reads the very balance it was about, when that is
  above the threshold; an alert that could not be delivered is not raised again.
\<close>

lemma solvent_account_refused:
  assumes "mc_fee cfg \<le> ab_stroops b" "ab_stroops b < mc_threshold cfg"
  shows "fst (before_anchor cfg now delivered (Inr b) m) \<noteq> Some True"
  using assms by (simp add: before_anchor_iff)

lemma rejection_forgotten:
  assumes "mc_threshold cfg \<le> ab_stroops b" "mc_fee cfg \<le> ab_stroops b"
  shows "fst (before_anchor cfg now True (Inr b) (snd (report_underfunded_rejection cfg t delivered m))) = Some True"
  using assms by (simp add: before_anchor_iff)

lemma undelivered_alert_not_repeated:
  assumes "ab_stroops b < mc_threshold cfg"
  shows "mo_alerts (snd (check_funding cfg later True (Inr b) (snd (check_funding cfg now False (Inr b) m)))) =
    mo_alerts (snd (check_funding cfg now False (Inr b) m))"
  using assms
  by (auto simp: check_funding_def classify_balance_def raise_for_balance_def raise_alert_def emit_metric_def
      Let_def case_prod_beta)

end
