(* ===== verification/StellarAnchor.thy ===== *)
theory StellarAnchor
  imports AnchorFunding AuditMetadata
begin

text \<open>
  Anchoring a digest on the ledger, \<open>packages/stellar-anchor\<close>: the check of a digest, the signers,
  \<open>StellarHashAnchor\<close> with its funding guard, the in-memory anchor and the command line. The Stellar
  SDK and Horizon are a record of functions: loading an account, building the transaction that
  carries a digest, its hash, attaching a signature and submitting, each of which may throw a
  message; and looking a transaction up. The process's arguments, environment and exit code are
  values.
\<close>

section \<open>Digests\<close>

definition lower_hex :: "char \<Rightarrow> bool" where
  "lower_hex c \<longleftrightarrow> (let n = of_char c :: nat in (48 \<le> n \<and> n \<le> 57) \<or> (97 \<le> n \<and> n \<le> 102))"

definition is_sha256_digest :: "string \<Rightarrow> bool" where
  "is_sha256_digest s \<longleftrightarrow> length s = 64 \<and> list_all lower_hex s"

definition bytes_hex :: "nat list \<Rightarrow> string" where
  "bytes_hex bs = concat (map (\<lambda>b. [hex_digit (b div 16), hex_digit (b mod 16)]) bs)"

section \<open>Signers\<close>

text \<open>\<open>TransactionSigner\<close>; \<open>Inl\<close> is a \<open>SigningError\<close> with its message.\<close>

record transaction_signer =
  ts_account_id :: "string + string"
  ts_sign :: "nat list \<Rightarrow> string + nat list"

text \<open>\<open>KmsTransactionSigner\<close>; \<open>client\<close> is the key service, \<open>Inl\<close> the name of what it throws.\<close>

definition kms_account_id :: "string \<Rightarrow> string + string" where
  "kms_account_id account =
     (if \<not> (take 1 account = ''G'')
      then Inl ''configured account is not a Stellar account key'' else Inr account)"

definition kms_sign :: "(string \<Rightarrow> nat list \<Rightarrow> string + nat list) \<Rightarrow> string \<Rightarrow> nat list \<Rightarrow> string + nat list" where
  "kms_sign client key_id digest =
     (if length digest = 0 then Inl ''refused to sign an empty digest''
      else case client key_id digest of
        Inl e \<Rightarrow> Inl (''the key service refused the signing request ('' @ e @ '')'')
      | Inr signature \<Rightarrow>
          (if length signature \<noteq> 64 then Inl ''key service returned a signature of another length''
           else Inr signature))"

definition kms_signer :: "(string \<Rightarrow> nat list \<Rightarrow> string + nat list) \<Rightarrow> string \<Rightarrow> string \<Rightarrow> transaction_signer" where
  "kms_signer client key_id account = \<lparr>ts_account_id = kms_account_id account, ts_sign = kms_sign client key_id\<rparr>"

text \<open>\<open>LocalTransactionSigner\<close> over a key pair of the SDK.\<close>

definition local_signer :: "string \<Rightarrow> (nat list \<Rightarrow> string + nat list) \<Rightarrow> transaction_signer" where
  "local_signer public_key key_sign =
     \<lparr>ts_account_id = Inr public_key,
      ts_sign = (\<lambda>digest. case key_sign digest of
         Inl e \<Rightarrow> Inl (''the local key could not sign these bytes ('' @ e @ '')'') | Inr s \<Rightarrow> Inr s)\<rparr>"

section \<open>The anchor\<close>

text \<open>
  \<open>'acc\<close> is a loaded account, \<open>'tx\<close> a transaction. \<open>sl_build\<close> makes the payment of one stroop to
  oneself with the digest as its hash memo; \<open>sl_lookup\<close> gives the type and text of a memo.
\<close>

record ('acc, 'tx) stellar_ledger =
  sl_load :: "string \<Rightarrow> string + 'acc"
  sl_build :: "'acc \<Rightarrow> string \<Rightarrow> string \<Rightarrow> string + 'tx"
  sl_hash :: "'tx \<Rightarrow> nat list"
  sl_attach :: "string \<Rightarrow> nat list \<Rightarrow> 'tx \<Rightarrow> string + 'tx"
  sl_submit :: "'tx \<Rightarrow> string + string"
  sl_lookup :: "string \<Rightarrow> string + (string \<times> string option)"

record anchor_receipt =
  re_hash :: string
  re_ref :: string
  re_at :: int
  re_network :: string

datatype anchor_failure =
    NotADigest
  | NoSigner
  | SignerFailed string
  | NotCleared
  | LedgerFailed string

text \<open>
  The guard of one call: the monitor's configuration and state, Horizon's answer to its reading,
  and whether its alerter delivers an alert of the check and one of the report.
\<close>

record guard_call =
  gc_config :: monitor_config
  gc_reading :: "string + account_balance"
  gc_check_delivered :: bool
  gc_report_delivered :: bool

text \<open>The part inside \<open>try\<close>: \<open>Inl\<close> what it throws, with the transaction it submitted, if any.\<close>

definition submit_anchor ::
  "('acc, 'tx) stellar_ledger \<Rightarrow> transaction_signer \<Rightarrow> string \<Rightarrow> string
     \<Rightarrow> (string + (anchor_failure + string)) \<times> 'tx option" where
  "submit_anchor l signer account hash =
     (case sl_load l account of
        Inl e \<Rightarrow> (Inl e, None)
      | Inr source \<Rightarrow>
          (case sl_build l source account hash of
             Inl e \<Rightarrow> (Inl e, None)
           | Inr tx \<Rightarrow>
               (case ts_sign signer (sl_hash l tx) of
                  Inl e \<Rightarrow> (Inr (Inl (SignerFailed e)), None)
                | Inr signature \<Rightarrow>
                    (case sl_attach l account signature tx of
                       Inl e \<Rightarrow> (Inl e, None)
                     | Inr signed \<Rightarrow>
                         (case sl_submit l signed of
                            Inl e \<Rightarrow> (Inl e, Some signed)
                          | Inr ref \<Rightarrow> (Inr (Inr ref), Some signed))))))"

text \<open>
  \<open>anchor(hash)\<close>: its result (\<open>None\<close> when the guard's alerter throws), the guard's state after it,
  and the transaction that was submitted.
\<close>

definition stellar_anchor ::
  "('acc, 'tx) stellar_ledger \<Rightarrow> transaction_signer option \<Rightarrow> string \<Rightarrow> int \<Rightarrow> string
     \<Rightarrow> (guard_call \<times> monitor) option
     \<Rightarrow> (anchor_failure + anchor_receipt) option \<times> monitor option \<times> 'tx option" where
  "stellar_anchor l signer network_id now hash guard =
     (let state = map_option snd guard
      in if \<not> is_sha256_digest hash then (Some (Inl NotADigest), state, None)
         else case signer of
           None \<Rightarrow> (Some (Inl NoSigner), state, None)
         | Some s \<Rightarrow>
             (case ts_account_id s of
                Inl e \<Rightarrow> (Some (Inl (SignerFailed e)), state, None)
              | Inr account \<Rightarrow>
                  (let (cleared, state') =
                         (case guard of
                            None \<Rightarrow> (Some True, None)
                          | Some (g, m) \<Rightarrow>
                              (let (c, m') = before_anchor (gc_config g) now (gc_check_delivered g) (gc_reading g) m
                               in (c, Some m')))
                   in case cleared of
                        None \<Rightarrow> (None, state', None)
                      | Some False \<Rightarrow> (Some (Inl NotCleared), state', None)
                      | Some True \<Rightarrow>
                          (case submit_anchor l s account hash of
                             (Inr (Inl f), tx) \<Rightarrow> (Some (Inl f), state', tx)
                           | (Inr (Inr ref), tx) \<Rightarrow>
                               (Some (Inr \<lparr>re_hash = hash, re_ref = ref, re_at = now, re_network = network_id\<rparr>),
                                state', tx)
                           | (Inl e, tx) \<Rightarrow>
                               (case (guard, state') of
                                  (Some (g, _), Some m') \<Rightarrow>
                                    (if is_underfunded_ledger_error e
                                     then (let (returns, m'') = report_underfunded_rejection (gc_config g) now
                                                 (gc_report_delivered g) m'
                                           in ((if returns then Some (Inl (LedgerFailed e)) else None),
                                               Some m'', tx))
                                     else (Some (Inl (LedgerFailed e)), state', tx))
                                | _ \<Rightarrow> (Some (Inl (LedgerFailed e)), state', tx))))))"

definition stellar_verify :: "('acc, 'tx) stellar_ledger \<Rightarrow> string \<Rightarrow> string \<Rightarrow> anchor_failure + bool" where
  "stellar_verify l hash ref =
     (if \<not> is_sha256_digest hash then Inl NotADigest
      else if \<not> is_sha256_digest ref then Inl NotADigest
      else case sl_lookup l ref of
        Inl e \<Rightarrow> Inl (LedgerFailed e)
      | Inr (memo_type, memo) \<Rightarrow>
          (case memo of
             None \<Rightarrow> Inr False
           | Some text \<Rightarrow>
               (if memo_type \<noteq> ''hash'' then Inr False
                else Inr (bytes_hex (base64url_decode text) = hash))))"

definition stellar_account_id :: "transaction_signer option \<Rightarrow> anchor_failure + string" where
  "stellar_account_id signer =
     (case signer of
        None \<Rightarrow> Inl NoSigner
      | Some s \<Rightarrow> (case ts_account_id s of Inl e \<Rightarrow> Inl (SignerFailed e) | Inr a \<Rightarrow> Inr a))"

section \<open>The anchor in memory\<close>

record memory_anchor =
  ma_refs :: "(string, string) js_map"
  ma_next_fails :: bool

definition memory_fail_next :: "memory_anchor \<Rightarrow> memory_anchor" where
  "memory_fail_next a = a\<lparr>ma_next_fails := True\<rparr>"

definition memory_anchor_hash ::
  "string \<Rightarrow> int \<Rightarrow> string \<Rightarrow> memory_anchor \<Rightarrow> (anchor_failure + anchor_receipt) \<times> memory_anchor" where
  "memory_anchor_hash fresh now hash a =
     (if ma_next_fails a
      then (Inl (LedgerFailed ''Simulated anchoring failure.''), a\<lparr>ma_next_fails := False\<rparr>)
      else if \<not> is_sha256_digest hash then (Inl NotADigest, a)
      else (Inr \<lparr>re_hash = hash, re_ref = fresh, re_at = now, re_network = ''in-memory''\<rparr>,
            a\<lparr>ma_refs := map_set fresh hash (ma_refs a)\<rparr>))"

definition memory_verify :: "string \<Rightarrow> string \<Rightarrow> memory_anchor \<Rightarrow> anchor_failure + bool" where
  "memory_verify hash ref a =
     (if \<not> is_sha256_digest hash then Inl NotADigest else Inr (map_get (ma_refs a) ref = Some hash))"

section \<open>The command line\<close>

datatype cli_outcome =
    CliFails
  | CliBalance nat
  | CliVerified nat
  | CliAnchored anchor_receipt

definition cli_network :: "(string, string) js_map \<Rightarrow> string option" where
  "cli_network env =
     (let v = or_default (map_get env ''STELLAR_NETWORK'') ''testnet''
      in if v \<noteq> ''testnet'' \<and> v \<noteq> ''public'' then None else Some v)"

text \<open>
  \<open>reportBalance\<close>: \<open>to_number\<close> is \<open>Number\<close> on the threshold's text (\<open>None\<close> when not finite), rounded
  to stroops; \<open>public_key_of\<close> derives an account from a secret key. The monitor is new.
\<close>

definition cli_balance ::
  "(string \<Rightarrow> int option) \<Rightarrow> (string \<Rightarrow> string) \<Rightarrow> (string \<Rightarrow> string \<Rightarrow> string + account_balance)
     \<Rightarrow> int \<Rightarrow> (string, string) js_map \<Rightarrow> cli_outcome" where
  "cli_balance to_stroops public_key_of read now env =
     (case cli_network env of
        None \<Rightarrow> CliFails
      | Some network \<Rightarrow>
          (case to_stroops (or_default (map_get env ''STELLAR_ANCHOR_MIN_XLM'') ''1'') of
             None \<Rightarrow> CliFails
           | Some threshold \<Rightarrow>
               (if threshold < 0 then CliFails
                else case (case map_get env ''STELLAR_ANCHOR_PUBLIC_KEY'' of
                       Some k \<Rightarrow> Some k
                     | None \<Rightarrow> (case map_get env ''STELLAR_ANCHOR_SECRET_KEY'' of
                         None \<Rightarrow> None
                       | Some secret \<Rightarrow> (if length secret = 0 then None else Some (public_key_of secret)))) of
                    None \<Rightarrow> CliFails
                  | Some key \<Rightarrow>
                      (case fst (check_funding \<lparr>mc_key = key, mc_threshold = nat threshold,
                              mc_fee = anchor_transaction_fee_stroops\<rparr> now True (read network key) new_monitor) of
                         Some (StatusOf Funded _) \<Rightarrow> CliBalance 0
                       | Some (StatusOf BelowThreshold _) \<Rightarrow> CliBalance 1
                       | _ \<Rightarrow> CliBalance 2))))"

text \<open>
  \<open>main\<close>: \<open>anchor secret network hash\<close> and \<open>verify network hash ref\<close> run the adapter without a
  guard.
\<close>

definition anchor_cli ::
  "((string, string) js_map \<Rightarrow> cli_outcome) \<Rightarrow> (string \<Rightarrow> string \<Rightarrow> string \<Rightarrow> anchor_failure + anchor_receipt)
     \<Rightarrow> (string \<Rightarrow> string \<Rightarrow> string \<Rightarrow> anchor_failure + bool) \<Rightarrow> string list \<Rightarrow> (string, string) js_map
     \<Rightarrow> cli_outcome" where
  "anchor_cli balance anchor verify args env =
     (let command = (case args of [] \<Rightarrow> '''' | c # _ \<Rightarrow> c)
      in if command = ''balance'' then balance env
         else if command \<noteq> ''anchor'' \<and> command \<noteq> ''verify'' then CliFails
         else case drop 1 args of
           [] \<Rightarrow> CliFails
         | hash # rest \<Rightarrow>
             (if \<not> is_sha256_digest hash then CliFails
              else case cli_network env of
                None \<Rightarrow> CliFails
              | Some network \<Rightarrow>
                  (if command = ''verify''
                   then (case rest of
                           [] \<Rightarrow> CliFails
                         | ref # _ \<Rightarrow>
                             (case verify network hash ref of
                                Inl _ \<Rightarrow> CliFails
                              | Inr True \<Rightarrow> CliVerified 0
                              | Inr False \<Rightarrow> CliVerified 1))
                   else if network = ''public'' \<and> map_get env ''STELLAR_ALLOW_LOCAL_SIGNING'' \<noteq> Some ''1''
                   then CliFails
                   else (case map_get env ''STELLAR_ANCHOR_SECRET_KEY'' of
                           None \<Rightarrow> CliFails
                         | Some secret \<Rightarrow>
                             (if length secret = 0 then CliFails
                              else case anchor secret network hash of
                                Inl _ \<Rightarrow> CliFails
                              | Inr receipt \<Rightarrow> CliAnchored receipt)))))"

section \<open>What is submitted and what a receipt proves\<close>

definition hex_val :: "char \<Rightarrow> nat" where
  "hex_val c = (let n = of_char c :: nat in if n < 58 then n - 48 else n - 87)"

text \<open>The bytes a digest in hex stands for, as \<open>Memo.hash\<close> takes them.\<close>

fun digest_bytes :: "string \<Rightarrow> nat list" where
  "digest_bytes (a # b # s) = (16 * hex_val a + hex_val b) # digest_bytes s"
| "digest_bytes _ = []"

lemma hex_digit_val:
  assumes "lower_hex c"
  shows "hex_val c < 16" "hex_digit (hex_val c) = c"
proof -
  obtain n :: nat where n: "n = of_char c" by simp
  have "(48 \<le> n \<and> n \<le> 57) \<or> (97 \<le> n \<and> n \<le> 102)" using assms by (simp add: lower_hex_def Let_def n)
  then have "hex_val c < 16 \<and> (if hex_val c < 10 then 48 + hex_val c else 87 + hex_val c) = n"
    unfolding hex_val_def Let_def n [symmetric] by auto
  moreover have "char_of n = c" by (simp add: n)
  ultimately show "hex_val c < 16" "hex_digit (hex_val c) = c"
    unfolding hex_digit_def by (auto split: if_splits)
qed

lemma bytes_hex_digest:
  "even (length s) \<Longrightarrow> list_all lower_hex s \<Longrightarrow> bytes_hex (digest_bytes s) = s"
proof (induction s rule: digest_bytes.induct)
  case (1 a b s)
  then show ?case using hex_digit_val by (auto simp: bytes_hex_def)
qed (simp_all add: bytes_hex_def)

text \<open>
  What anchoring relies on of the ledger: a transaction it accepted is found under the hash it
  answered, with a hash memo whose base64 text is the bytes of the digest it was built from.
\<close>

definition ledger_keeps :: "('acc, 'tx) stellar_ledger \<Rightarrow> bool" where
  "ledger_keeps l \<longleftrightarrow>
     (\<forall>source account hash tx signature signed ref.
        sl_build l source account hash = Inr tx \<longrightarrow> sl_attach l account signature tx = Inr signed \<longrightarrow>
        sl_submit l signed = Inr ref \<longrightarrow>
        is_sha256_digest ref \<and>
        (\<exists>text. sl_lookup l ref = Inr (''hash'', Some text) \<and> base64url_decode text = digest_bytes hash))"

lemma submit_anchor_receipt:
  assumes "submit_anchor l s account hash = (Inr (Inr ref), tx)"
  obtains source built signature signed where "sl_build l source account hash = Inr built"
    "sl_attach l account signature built = Inr signed" "sl_submit l signed = Inr ref" "tx = Some signed"
  using assms by (auto simp: submit_anchor_def split: sum.splits)

lemma submit_anchor_failure: "fst (submit_anchor l s account hash) \<noteq> Inr (Inl (LedgerFailed e))"
  by (simp add: submit_anchor_def split: sum.splits)

lemma stellar_anchor_receipt:
  assumes "stellar_anchor l signer net now hash guard = (Some (Inr rc), m', tx)"
  obtains s account where "is_sha256_digest hash" "signer = Some s" "ts_account_id s = Inr account"
    "submit_anchor l s account hash = (Inr (Inr (re_ref rc)), tx)" "re_hash rc = hash"
proof -
  have valid: "is_sha256_digest hash" using assms by (simp add: stellar_anchor_def Let_def split: if_splits)
  then obtain s account where s: "signer = Some s" "ts_account_id s = Inr account"
    using assms by (auto simp: stellar_anchor_def Let_def split: option.splits sum.splits)
  have "submit_anchor l s account hash = (Inr (Inr (re_ref rc)), tx) \<and> re_hash rc = hash"
    using assms valid s
    by (auto simp: stellar_anchor_def Let_def case_prod_beta prod_eq_iff
        split: option.splits bool.splits sum.splits prod.splits if_splits)
  then show ?thesis using that valid s by blast
qed

text \<open>
  C36: A receipt is a commitment to its digest and to nothing else: of an anchor that answered with
  a receipt, the receipt names the digest it was given, and verifying its reference against any
  well-formed digest answers whether that is the digest.
\<close>

theorem receipt_commits_to_digest:
  assumes "ledger_keeps l"
    and "stellar_anchor l signer net now hash guard = (Some (Inr rc), m', tx)"
    and "is_sha256_digest other"
  shows "re_hash rc = hash \<and> stellar_verify l other (re_ref rc) = Inr (other = hash)"
proof -
  obtain s account where valid: "is_sha256_digest hash"
      and sub: "submit_anchor l s account hash = (Inr (Inr (re_ref rc)), tx)" and h: "re_hash rc = hash"
    by (rule stellar_anchor_receipt [OF assms(2)])
  obtain source built signature signed where "sl_build l source account hash = Inr built"
      "sl_attach l account signature built = Inr signed" "sl_submit l signed = Inr (re_ref rc)"
    by (rule submit_anchor_receipt [OF sub])
  then obtain memo where ref: "is_sha256_digest (re_ref rc)"
      and memo: "sl_lookup l (re_ref rc) = Inr (''hash'', Some memo)" "base64url_decode memo = digest_bytes hash"
    using assms(1) unfolding ledger_keeps_def by blast
  have "bytes_hex (base64url_decode memo) = hash"
    using valid bytes_hex_digest [of hash] unfolding memo(2) by (simp add: is_sha256_digest_def)
  then show ?thesis using h ref memo(1) assms(3) by (auto simp: stellar_verify_def)
qed

text \<open>
  C37: Nothing is submitted unless the guard saw the money: with a funding guard, a transaction
  reaches the ledger only for a well-formed digest and a balance read in this call that covers the
  fee and the alert threshold; and when the ledger refuses it for want of funds, the last alert is
  the report of that refusal.
\<close>

theorem anchor_submission_gated:
  "case stellar_anchor l signer net now hash (Some (g, m)) of
     (outcome, m', tx) \<Rightarrow>
       (tx = None \<or> is_sha256_digest hash \<and>
          (\<exists>b. gc_reading g = Inr b \<and> mc_fee (gc_config g) \<le> ab_stroops b \<and>
             mc_threshold (gc_config g) \<le> ab_stroops b)) \<and>
       (case outcome of
          Some (Inl (LedgerFailed e)) \<Rightarrow>
            (if is_underfunded_ledger_error e
             then \<exists>m''. m' = Some m'' \<and> mo_alerts m'' \<noteq> [] \<and> last (alert_kinds m'') = AlertUnfundableAttempt
             else True)
        | _ \<Rightarrow> True)"
proof -
  let ?r = "stellar_anchor l signer net now hash (Some (g, m))"
  let ?c = "before_anchor (gc_config g) now (gc_check_delivered g) (gc_reading g) m"
  have gate: "snd (snd ?r) = None \<or> is_sha256_digest hash \<and> fst ?c = Some True"
    by (auto simp: stellar_anchor_def Let_def case_prod_beta split: option.splits sum.splits bool.splits prod.splits)
  have reported: "mo_alerts (snd (report_underfunded_rejection c t d k)) \<noteq> [] \<and>
      last (alert_kinds (snd (report_underfunded_rejection c t d k))) = AlertUnfundableAttempt" for c t d k
    by (simp add: report_underfunded_rejection_def raise_alert_def Let_def)
  have report: "\<exists>m''. fst (snd ?r) = Some m'' \<and> mo_alerts m'' \<noteq> [] \<and>
      last (alert_kinds m'') = AlertUnfundableAttempt"
    if "fst ?r = Some (Inl (LedgerFailed e))" "is_underfunded_ledger_error e" for e
    using that reported
    by (auto simp: stellar_anchor_def submit_anchor_failure Let_def case_prod_beta
        split: option.splits sum.splits bool.splits prod.splits if_splits)
  show ?thesis
    using gate report unfolding before_anchor_iff
    by (auto split: prod.split option.split sum.split anchor_failure.split)
qed

text \<open>A ledger that keeps its transactions: the digest is the transaction and its own reference.\<close>

definition demo_ledger :: "(unit, string) stellar_ledger" where
  "demo_ledger = \<lparr>sl_load = (\<lambda>_. Inr ()), sl_build = (\<lambda>_ _ hash. Inr hash), sl_hash = digest_bytes,
     sl_attach = (\<lambda>_ _ tx. Inr tx),
     sl_submit = (\<lambda>tx. if is_sha256_digest tx then Inr tx else Inl ''tx_failed''),
     sl_lookup = (\<lambda>ref. Inr (''hash'', Some (base64url_encode (digest_bytes ref))))\<rparr>"

definition demo_digest :: string where "demo_digest = replicate 64 CHR ''a''"

definition demo_signer :: transaction_signer where
  "demo_signer = kms_signer (\<lambda>_ _. Inr (replicate 64 7)) ''key'' ''GABC''"

lemma digest_bytes_below: "list_all lower_hex s \<Longrightarrow> \<forall>b \<in> set (digest_bytes s). b < 256"
proof (induction s rule: digest_bytes.induct)
  case (1 a b s)
  then show ?case using hex_digit_val(1) [of a] hex_digit_val(1) [of b] by auto
qed simp_all

lemma demo_ledger_keeps: "ledger_keeps demo_ledger"
  using digest_bytes_below
  by (auto simp: ledger_keeps_def demo_ledger_def is_sha256_digest_def base64url_round_trip list_all_iff split: if_splits)

theorem receipt_commits_to_digest_witness:
  "stellar_verify demo_ledger demo_digest demo_digest = Inr True \<and>
   stellar_verify demo_ledger (replicate 64 CHR ''b'') demo_digest = Inr False"
proof -
  have r: "stellar_anchor demo_ledger (Some demo_signer) ''stellar:testnet'' 9 demo_digest None =
      (Some (Inr \<lparr>re_hash = demo_digest, re_ref = demo_digest, re_at = 9, re_network = ''stellar:testnet''\<rparr>),
       None, Some demo_digest)" by code_simp
  have "is_sha256_digest demo_digest" "is_sha256_digest (replicate 64 CHR ''b'')"
    "demo_digest \<noteq> replicate 64 CHR ''b''" by code_simp+
  then show ?thesis
    using receipt_commits_to_digest [OF demo_ledger_keeps r, of demo_digest]
      receipt_commits_to_digest [OF demo_ledger_keeps r, of "replicate 64 CHR ''b''"] by simp
qed

text \<open>
  On the public network the command line signs with a key of the environment only when told so, and
  verifying never signs.
\<close>

lemma anchor_cli_signs:
  assumes "anchor_cli balance anchor verify args env = CliAnchored receipt"
    and "\<And>e r. balance e \<noteq> CliAnchored r"
  shows "\<exists>hash secret network. args ! 0 = ''anchor'' \<and> args ! 1 = hash \<and> is_sha256_digest hash \<and>
    map_get env ''STELLAR_ANCHOR_SECRET_KEY'' = Some secret \<and> secret \<noteq> [] \<and> cli_network env = Some network \<and>
    (network = ''public'' \<longrightarrow> map_get env ''STELLAR_ALLOW_LOCAL_SIGNING'' = Some ''1'') \<and>
    anchor secret network hash = Inr receipt"
  using assms by (auto simp: anchor_cli_def Let_def split: if_splits list.splits option.splits sum.splits bool.splits)

end
