(* ===== verification/SessionCookies.thy ===== *)
theory SessionCookies
  imports HttpEdge
begin

text \<open>
  The session cookies, \<open>packages/sessions/infrastructure/http/cookie-config.ts\<close>: the checks and the
  \<open>Set-Cookie\<close> text of a cookie, the refresh-token and CSRF cookies, and their clearing. What the
  code does with \<open>toUTCString\<close> is the parameter \<open>utc\<close>; a lifetime is below \<open>10 ^ 21\<close>, from where on
  numbers print with an exponent.
\<close>

section \<open>Cookies\<close>




















section \<open>What a browser reads\<close>






















end
