(* ===== verification/PolicySimulation.thy ===== *)
theory PolicySimulation
  imports JsonParse TextForms
begin

text \<open>
  Dry runs of a policy against fixtures: \<open>application/use-cases/simulate-policy.ts\<close> of
  \<open>packages/authorization\<close>, and the command around it, \<open>infrastructure/cli/policy-simulate-command.ts\<close>,
  with its argument and fixture-file parsers and its table. The engine of the port is a function
  that throws a message or gives a run; reading a file is a function as well. Of error texts the
  field they are filed under is kept. JSON values and the texts in them are those of \<open>JsonParse\<close>.
\<close>

section \<open>The use case\<close>

datatype policy_effect = EffectPermit | EffectDeny | EffectNotApplicable

datatype policy_source = StoredPolicy js_text | DraftPolicy js_text js_text

type_synonym attribute_bag = "(js_text \<times> json_data) list"

record attribute_axes =
  ax_subject :: attribute_bag
  ax_resource :: attribute_bag
  ax_action :: attribute_bag
  ax_environment :: attribute_bag

record rule_outcome =
  ro_rule :: js_text
  ro_effect :: policy_effect
  ro_decisive :: bool

record simulation_run =
  sr_label :: js_text
  sr_effect :: policy_effect
  sr_algorithm :: js_text
  sr_matched :: "js_text list"
  sr_rules :: "rule_outcome list"

type_synonym simulation_engine = "policy_source \<Rightarrow> attribute_axes \<Rightarrow> string + simulation_run"

record policy_fixture =
  pf_name :: js_text
  pf_expected :: policy_effect
  pf_context :: attribute_axes

record fixture_set =
  fs_policy :: policy_source
  fs_fixtures :: "policy_fixture list"

record fixture_result =
  fr_name :: js_text
  fr_expected :: policy_effect
  fr_actual :: policy_effect
  fr_passed :: bool
  fr_run :: simulation_run

record simulation_report =
  rp_label :: js_text
  rp_results :: "fixture_result list"
  rp_passed :: nat
  rp_failed :: nat
  rp_success :: bool

text \<open>\<open>text.trim() === ""\<close>: white space and line terminators only.\<close>

definition space_unit :: "nat \<Rightarrow> bool" where
  "space_unit u \<longleftrightarrow> u \<in> {9, 10, 11, 12, 13, 32, 160, 0x1680, 0x2028, 0x2029, 0x202F, 0x205F, 0x3000, 0xFEFF} \<or>
     (0x2000 \<le> u \<and> u \<le> 0x200A)"

definition blank :: "js_text \<Rightarrow> bool" where
  "blank t \<longleftrightarrow> list_all space_unit t"

definition indexed :: "nat \<Rightarrow> string \<Rightarrow> string" where
  "indexed i rest = ''fixtures['' @ show_nat i @ '']'' @ rest"

fun fixture_name_errors :: "nat \<Rightarrow> js_text set \<Rightarrow> policy_fixture list \<Rightarrow> string list" where
  "fixture_name_errors i seen [] = []"
| "fixture_name_errors i seen (f # fs) =
     (if blank (pf_name f) then indexed i ''.name'' # fixture_name_errors (Suc i) seen fs
      else if pf_name f \<in> seen then indexed i ''.name'' # fixture_name_errors (Suc i) seen fs
      else fixture_name_errors (Suc i) (insert (pf_name f) seen) fs)"

text \<open>The fields with an error.\<close>

definition validate_fixture_set :: "fixture_set \<Rightarrow> string list" where
  "validate_fixture_set fs =
     (case fs_policy fs of
        StoredPolicy ref \<Rightarrow> (if blank ref then [''policy.ref''] else [])
      | DraftPolicy _ dsl \<Rightarrow> (if blank dsl then [''policy.dsl''] else [])) @
     (if length (fs_fixtures fs) = 0 then [''fixtures''] else []) @
     fixture_name_errors 0 {} (fs_fixtures fs)"

fun run_fixtures ::
  "simulation_engine \<Rightarrow> policy_source \<Rightarrow> policy_fixture list \<Rightarrow> string + fixture_result list" where
  "run_fixtures engine policy [] = Inr []"
| "run_fixtures engine policy (f # fs) =
     (case engine policy (pf_context f) of
        Inl e \<Rightarrow> Inl e
      | Inr run \<Rightarrow>
          (case run_fixtures engine policy fs of
             Inl e \<Rightarrow> Inl e
           | Inr results \<Rightarrow>
               Inr (\<lparr>fr_name = pf_name f, fr_expected = pf_expected f, fr_actual = sr_effect run,
                     fr_passed = (sr_effect run = pf_expected f), fr_run = run\<rparr> # results)))"

definition describe_policy :: "policy_source \<Rightarrow> js_text" where
  "describe_policy p = (case p of StoredPolicy ref \<Rightarrow> ref | DraftPolicy label _ \<Rightarrow> label)"

text \<open>Thrown, or the \<open>Result\<close>: the fields in error or the report.\<close>

definition simulate_execute ::
  "simulation_engine \<Rightarrow> fixture_set \<Rightarrow> string + (string list + simulation_report)" where
  "simulate_execute engine fs =
     (let invalid = validate_fixture_set fs
      in if invalid \<noteq> [] then Inr (Inl invalid)
         else case run_fixtures engine (fs_policy fs) (fs_fixtures fs) of
           Inl e \<Rightarrow> Inl e
         | Inr results \<Rightarrow>
             (let passed = length (filter fr_passed results)
              in Inr (Inr \<lparr>rp_label = (case results of r # _ \<Rightarrow> sr_label (fr_run r)
                                       | [] \<Rightarrow> describe_policy (fs_policy fs)),
                   rp_results = results, rp_passed = passed, rp_failed = length results - passed,
                   rp_success = (passed = length results)\<rparr>)))"

section \<open>The arguments\<close>

record simulate_options =
  op_fixtures :: "string option"
  op_json :: bool
  op_policy :: "string option"
  op_dsl :: "string option"
  op_explain :: bool

definition dashed :: "string \<Rightarrow> bool" where
  "dashed s \<longleftrightarrow> take 2 s = ''--''"

text \<open>The loop over the arguments; \<open>None\<close> is the error that is returned.\<close>

fun parse_flags :: "string list \<Rightarrow> simulate_options \<Rightarrow> simulate_options option" where
  "parse_flags [] o' = Some o'"
| "parse_flags (flag # rest) o' =
     (if flag = ''--verbose'' then parse_flags rest (o'\<lparr>op_explain := True\<rparr>)
      else if flag \<in> {''--fixtures'', ''--policy'', ''--dsl'', ''--format''} then
        (case rest of
           [] \<Rightarrow> None
         | v # rest' \<Rightarrow>
             (if dashed v then None
              else if flag = ''--fixtures'' then parse_flags rest' (o'\<lparr>op_fixtures := Some v\<rparr>)
              else if flag = ''--policy'' then parse_flags rest' (o'\<lparr>op_policy := Some v\<rparr>)
              else if flag = ''--dsl'' then parse_flags rest' (o'\<lparr>op_dsl := Some v\<rparr>)
              else if v = ''table'' \<or> v = ''json'' then parse_flags rest' (o'\<lparr>op_json := (v = ''json'')\<rparr>)
              else None))
      else None)"

definition parse_argv :: "string list \<Rightarrow> simulate_options option" where
  "parse_argv argv =
     (case parse_flags argv \<lparr>op_fixtures = None, op_json = False, op_policy = None, op_dsl = None,
              op_explain = False\<rparr> of
        None \<Rightarrow> None
      | Some o' \<Rightarrow>
          (if op_fixtures o' = None then None
           else if op_policy o' \<noteq> None \<and> op_dsl o' \<noteq> None then None else Some o'))"

section \<open>The fixture file\<close>

definition unexpected_keys :: "attribute_bag \<Rightarrow> string list \<Rightarrow> js_text list" where
  "unexpected_keys es allowed = filter (\<lambda>k. k \<notin> set (map text_of allowed)) (map fst es)"

definition effect_of :: "json_data option \<Rightarrow> policy_effect option" where
  "effect_of v =
     (case v of
        Some (JString t) \<Rightarrow>
          (if t = text_of ''PERMIT'' then Some EffectPermit
           else if t = text_of ''DENY'' then Some EffectDeny
           else if t = text_of ''NOT_APPLICABLE'' then Some EffectNotApplicable else None)
      | _ \<Rightarrow> None)"

definition filled_string :: "json_data option \<Rightarrow> js_text option" where
  "filled_string v = (case v of Some (JString t) \<Rightarrow> (if blank t then None else Some t) | _ \<Rightarrow> None)"

definition parse_policy_source :: "json_data option \<Rightarrow> string + policy_source" where
  "parse_policy_source raw =
     (case raw of
        Some (JObject es) \<Rightarrow>
          (if unexpected_keys es [''kind'', ''ref'', ''label'', ''dsl''] \<noteq> [] then Inl ''policy''
           else let prop = (\<lambda>k. map_of es (text_of k))
                in if prop ''kind'' = Some (JString (text_of ''stored''))
                   then (case filled_string (prop ''ref'') of
                           None \<Rightarrow> Inl ''policy.ref'' | Some ref \<Rightarrow> Inr (StoredPolicy ref))
                   else if prop ''kind'' = Some (JString (text_of ''draft''))
                   then (case filled_string (prop ''label'') of
                           None \<Rightarrow> Inl ''policy.label''
                         | Some label \<Rightarrow>
                             (case filled_string (prop ''dsl'') of
                                None \<Rightarrow> Inl ''policy.dsl'' | Some dsl \<Rightarrow> Inr (DraftPolicy label dsl)))
                   else Inl ''policy.kind'')
      | _ \<Rightarrow> Inl ''policy'')"

definition context_axes :: "string list" where
  "context_axes = [''subject'', ''resource'', ''action'', ''environment'']"

definition bag_of :: "attribute_bag \<Rightarrow> string \<Rightarrow> attribute_bag option" where
  "bag_of es axis =
     (case map_of es (text_of axis) of None \<Rightarrow> Some [] | Some (JObject bag) \<Rightarrow> Some bag | Some _ \<Rightarrow> None)"

definition parse_context :: "json_data option \<Rightarrow> string \<Rightarrow> string list + attribute_axes" where
  "parse_context raw field =
     (case raw of
        None \<Rightarrow> Inr \<lparr>ax_subject = [], ax_resource = [], ax_action = [], ax_environment = []\<rparr>
      | Some (JObject es) \<Rightarrow>
          (if unexpected_keys es context_axes \<noteq> [] then Inl [field @ ''.context'']
           else let wrong = filter (\<lambda>a. bag_of es a = None) context_axes
                in if wrong \<noteq> [] then Inl (map (\<lambda>a. field @ ''.context.'' @ a) wrong)
                   else (case (bag_of es ''subject'', bag_of es ''resource'', bag_of es ''action'',
                               bag_of es ''environment'') of
                           (Some s, Some r, Some a, Some e) \<Rightarrow>
                             Inr \<lparr>ax_subject = s, ax_resource = r, ax_action = a, ax_environment = e\<rparr>
                         | _ \<Rightarrow> Inl [field @ ''.context'']))
      | Some _ \<Rightarrow> Inl [field @ ''.context''])"

text \<open>One entry: the fields in error, and the fixture it adds.\<close>

definition parse_fixture :: "nat \<Rightarrow> json_data \<Rightarrow> string list \<times> policy_fixture list" where
  "parse_fixture i entry =
     (case entry of
        JObject es \<Rightarrow>
          (let field = indexed i '''';
               prop = (\<lambda>k. map_of es (text_of k));
               errors = (if unexpected_keys es [''name'', ''expectedEffect'', ''context''] \<noteq> []
                         then [field @ ''.unknown''] else []) @
                        (if filled_string (prop ''name'') = None then [field @ ''.name''] else []) @
                        (if effect_of (prop ''expectedEffect'') = None then [field @ ''.expectedEffect''] else [])
           in case parse_context (prop ''context'') field of
                Inl more_errors \<Rightarrow> (errors @ more_errors, [])
              | Inr context \<Rightarrow>
                  (case (filled_string (prop ''name''), effect_of (prop ''expectedEffect'')) of
                     (Some name, Some effect) \<Rightarrow>
                       (errors, [\<lparr>pf_name = name, pf_expected = effect, pf_context = context\<rparr>])
                   | _ \<Rightarrow> (errors, [])))
      | _ \<Rightarrow> ([indexed i ''''], []))"

fun parse_fixture_entries :: "nat \<Rightarrow> json_data list \<Rightarrow> string list \<times> policy_fixture list" where
  "parse_fixture_entries i [] = ([], [])"
| "parse_fixture_entries i (e # es) =
     (let (errors, fixtures) = parse_fixture i e;
          (errors', fixtures') = parse_fixture_entries (Suc i) es
      in (errors @ errors', fixtures @ fixtures'))"

definition parse_fixtures :: "json_data option \<Rightarrow> string list + policy_fixture list" where
  "parse_fixtures raw =
     (case raw of
        Some (JArray entries) \<Rightarrow>
          (let (errors, fixtures) = parse_fixture_entries 0 entries
           in if errors \<noteq> [] then Inl errors else Inr fixtures)
      | _ \<Rightarrow> Inl [''fixtures''])"

definition parse_fixture_set :: "json_data \<Rightarrow> policy_source option \<Rightarrow> string list + fixture_set" where
  "parse_fixture_set raw override =
     (case raw of
        JObject es \<Rightarrow>
          (if unexpected_keys es [''policy'', ''fixtures''] \<noteq> [] then Inl [''fixtures'']
           else case (case override of Some p \<Rightarrow> Inr p | None \<Rightarrow> parse_policy_source (map_of es (text_of ''policy''))) of
             Inl e \<Rightarrow> Inl [e]
           | Inr policy \<Rightarrow>
               (case parse_fixtures (map_of es (text_of ''fixtures'')) of
                  Inl e \<Rightarrow> Inl e
                | Inr fixtures \<Rightarrow> Inr \<lparr>fs_policy = policy, fs_fixtures = fixtures\<rparr>))
      | _ \<Rightarrow> Inl [''fixtures''])"

section \<open>The table\<close>

definition effect_text :: "policy_effect \<Rightarrow> string" where
  "effect_text e =
     (case e of EffectPermit \<Rightarrow> ''PERMIT'' | EffectDeny \<Rightarrow> ''DENY'' | EffectNotApplicable \<Rightarrow> ''NOT_APPLICABLE'')"

definition matched_rule_count :: "fixture_result \<Rightarrow> nat" where
  "matched_rule_count r = length (filter (\<lambda>o'. ro_effect o' \<noteq> EffectNotApplicable) (sr_rules (fr_run r)))"

definition describe_rule :: "rule_outcome \<Rightarrow> string" where
  "describe_rule o' =
     (if ro_decisive o' then ''decisive''
      else if ro_effect o' = EffectNotApplicable then ''did not match'' else ''overridden by the combining step'')"

definition pad_end :: "nat \<Rightarrow> js_text \<Rightarrow> js_text" where
  "pad_end n t = t @ replicate (n - length t) 32"

definition text_trim_end :: "js_text \<Rightarrow> js_text" where
  "text_trim_end t = rev (dropWhile space_unit (rev t))"

fun text_join :: "js_text \<Rightarrow> js_text list \<Rightarrow> js_text" where
  "text_join d [] = []"
| "text_join d [w] = w"
| "text_join d (w # v # ws) = w @ d @ text_join d (v # ws)"

definition table_headers :: "string list" where
  "table_headers = [''fixture'', ''expected'', ''actual'', ''rules'', ''result'']"

definition table_row :: "fixture_result \<Rightarrow> js_text list" where
  "table_row r =
     [fr_name r, text_of (effect_text (fr_expected r)), text_of (effect_text (fr_actual r)),
      text_of (show_nat (matched_rule_count r) @ ''/'' @ show_nat (length (sr_rules (fr_run r)))),
      text_of (if fr_passed r then ''PASS'' else ''FAIL'')]"

definition table_widths :: "js_text list list \<Rightarrow> nat list" where
  "table_widths rows =
     map (\<lambda>(column, header). fold max (map (\<lambda>row. length (row ! column)) rows) (length header))
       (zip [0..<5] table_headers)"

definition table_line :: "nat list \<Rightarrow> js_text list \<Rightarrow> js_text" where
  "table_line widths cells =
     text_trim_end (text_join (text_of ''  '') (map (\<lambda>(w, cell). pad_end w cell) (zip widths cells)))"

definition summary_line :: "simulation_report \<Rightarrow> js_text" where
  "summary_line r =
     (let total = length (rp_results r)
      in text_of (show_nat total @ '' fixture'' @ (if total = 1 then '''' else ''s'') @ '' '') @ [0x2014] @
         text_of ('' '' @ show_nat (rp_passed r) @ '' passed, '' @ show_nat (rp_failed r) @ '' failed''))"

definition explain_fixture :: "fixture_result \<Rightarrow> js_text list" where
  "explain_fixture r =
     (let outcome = (if fr_expected r = fr_actual r then ''resolved to '' @ effect_text (fr_actual r)
            else ''resolved to '' @ effect_text (fr_actual r) @ '', expected '' @ effect_text (fr_expected r))
      in [text_of ''rules for '' @ [34] @ fr_name r @ [34, 32, 0x2014, 32] @ sr_algorithm (fr_run r) @
          text_of ('' '' @ outcome @ '':'')] @
         (if sr_rules (fr_run r) = []
          then [text_of ''  (no rules evaluated '' @ [0x2014] @
                text_of '' check the policy targets this action/resource)''] else []) @
         map (\<lambda>o'. text_of ''  '' @ pad_end 28 (ro_rule o') @ [32] @
                pad_end 15 (text_of (effect_text (ro_effect o'))) @ [32] @ text_of (describe_rule o'))
           (sr_rules (fr_run r)))"

definition render_table :: "simulation_report \<Rightarrow> bool \<Rightarrow> js_text" where
  "render_table r explain_all =
     (let rows = map table_row (rp_results r);
          widths = table_widths rows;
          outline = text_join (text_of ''  '') (map (\<lambda>w. replicate w 45) widths);
          explained = filter (\<lambda>x. explain_all \<or> \<not> fr_passed x) (rp_results r)
      in text_join [10]
           ([text_of ''policy '' @ rp_label r, [], table_line widths (map text_of table_headers), outline] @
            map (table_line widths) rows @ [[], summary_line r] @
            concat (map (\<lambda>x. [] # explain_fixture x) explained)))"

section \<open>The command\<close>

datatype simulate_output =
    UsageOnly
  | ArgumentError
  | InputErrors "string list"
  | CouldNotRun string
  | TableOutput js_text
  | JsonOutput simulation_report

fun last_segment :: "string \<Rightarrow> string" where
  "last_segment path = last (js_split CHR ''/'' path)"

text \<open>\<open>file.replace(/\.(policy|txt|dsl)$/i, "")\<close>.\<close>

definition strip_suffix :: "string \<Rightarrow> string \<Rightarrow> string option" where
  "strip_suffix suffix s =
     (let n = length s - length suffix
      in if length suffix \<le> length s \<and> js_lower (drop n s) = suffix then Some (take n s) else None)"

definition draft_label :: "string \<Rightarrow> string" where
  "draft_label path =
     (let file = last_segment path
      in case List.map_filter (\<lambda>suffix. strip_suffix suffix file) [''.policy'', ''.txt'', ''.dsl''] of
           [] \<Rightarrow> file
         | label # _ \<Rightarrow> label)"

definition resolve_policy_override ::
  "(string \<Rightarrow> string + js_text) \<Rightarrow> simulate_options \<Rightarrow> string + policy_source option" where
  "resolve_policy_override read_file o' =
     (case op_policy o' of
        Some ref \<Rightarrow> Inr (Some (StoredPolicy (text_of ref)))
      | None \<Rightarrow>
          (case op_dsl o' of
             None \<Rightarrow> Inr None
           | Some path \<Rightarrow>
               (case read_file path of
                  Inl _ \<Rightarrow> Inl ''policy.dsl''
                | Inr dsl \<Rightarrow>
                    (if blank dsl then Inl ''policy.dsl''
                     else Inr (Some (DraftPolicy (text_of (draft_label path)) dsl))))))"

definition load_fixture_set ::
  "(string \<Rightarrow> string + js_text) \<Rightarrow> simulate_options \<Rightarrow> string list + fixture_set" where
  "load_fixture_set read_file o' =
     (case resolve_policy_override read_file o' of
        Inl e \<Rightarrow> Inl [e]
      | Inr override \<Rightarrow>
          (case read_file (or_default (op_fixtures o') '''') of
             Inl _ \<Rightarrow> Inl [''fixtures'']
           | Inr raw \<Rightarrow>
               (case json_parse raw of
                  None \<Rightarrow> Inl [''fixtures'']
                | Some parsed \<Rightarrow> parse_fixture_set parsed override)))"

definition simulate_run ::
  "simulation_engine \<Rightarrow> (string \<Rightarrow> string + js_text) \<Rightarrow> string list \<Rightarrow> nat \<times> simulate_output" where
  "simulate_run engine read_file argv =
     (if ''--help'' \<in> set argv \<or> ''-h'' \<in> set argv then (0, UsageOnly)
      else case parse_argv argv of
        None \<Rightarrow> (2, ArgumentError)
      | Some o' \<Rightarrow>
          (case load_fixture_set read_file o' of
             Inl wrong \<Rightarrow> (2, InputErrors wrong)
           | Inr fs \<Rightarrow>
               (case simulate_execute engine fs of
                  Inl e \<Rightarrow> (2, CouldNotRun e)
                | Inr (Inl wrong) \<Rightarrow> (2, InputErrors wrong)
                | Inr (Inr report) \<Rightarrow>
                    ((if rp_success report then 0 else 1),
                     (if op_json o' then JsonOutput report
                      else TableOutput (render_table report (op_explain o')))))))"

section \<open>The exit code tells the truth\<close>

lemma fixture_name_errors_Nil:
  "fixture_name_errors i seen fs = [] \<longleftrightarrow>
     list_all (\<lambda>f. \<not> blank (pf_name f)) fs \<and> distinct (map pf_name fs) \<and> set (map pf_name fs) \<inter> seen = {}"
  by (induction fs arbitrary: i seen) auto

lemma run_fixtures_Inr:
  "run_fixtures engine policy fs = Inr results \<Longrightarrow>
     list_all2 (\<lambda>f r. \<exists>run. engine policy (pf_context f) = Inr run \<and>
       r = \<lparr>fr_name = pf_name f, fr_expected = pf_expected f, fr_actual = sr_effect run,
            fr_passed = (sr_effect run = pf_expected f), fr_run = run\<rparr>) fs results"
  by (induction fs arbitrary: results) (auto split: sum.splits)

lemma length_filter_all: "length (filter P xs) = length xs \<longleftrightarrow> list_all P xs"
proof (induction xs)
  case (Cons x xs)
  have "length (filter P xs) \<noteq> Suc (length xs)" using length_filter_le [of P xs] by linarith
  then show ?case using Cons by simp
qed simp

lemma run_fixtures_total:
  "(\<exists>results. run_fixtures engine policy fs = Inr results) \<longleftrightarrow>
     list_all (\<lambda>f. \<exists>run. engine policy (pf_context f) = Inr run) fs"
  by (induction fs) (auto split: sum.splits)

text \<open>What the author of a fixture set wants to hear: it is well-formed, and every fixture agrees.\<close>

definition well_formed_set :: "fixture_set \<Rightarrow> bool" where
  "well_formed_set fs \<longleftrightarrow>
     (case fs_policy fs of StoredPolicy ref \<Rightarrow> \<not> blank ref | DraftPolicy _ dsl \<Rightarrow> \<not> blank dsl) \<and>
     fs_fixtures fs \<noteq> [] \<and> list_all (\<lambda>f. \<not> blank (pf_name f)) (fs_fixtures fs) \<and>
     distinct (map pf_name (fs_fixtures fs))"

definition fixture_effect :: "simulation_engine \<Rightarrow> fixture_set \<Rightarrow> policy_fixture \<Rightarrow> policy_effect option" where
  "fixture_effect engine fs f =
     (case engine (fs_policy fs) (pf_context f) of Inl _ \<Rightarrow> None | Inr run \<Rightarrow> Some (sr_effect run))"

lemma validate_Nil: "validate_fixture_set fs = [] \<longleftrightarrow> well_formed_set fs"
  by (auto simp: validate_fixture_set_def well_formed_set_def fixture_name_errors_Nil split: policy_source.splits)

lemma simulate_execute_report:
  assumes "simulate_execute engine fs = Inr (Inr report)"
  shows "well_formed_set fs" "list_all (\<lambda>f. fixture_effect engine fs f \<noteq> None) (fs_fixtures fs)"
    "rp_success report \<longleftrightarrow> list_all (\<lambda>f. fixture_effect engine fs f = Some (pf_expected f)) (fs_fixtures fs)"
    "map fr_name (rp_results report) = map pf_name (fs_fixtures fs)"
proof -
  show "well_formed_set fs"
    using assms unfolding validate_Nil [symmetric] by (auto simp: simulate_execute_def Let_def split: if_splits)
  obtain results where run: "run_fixtures engine (fs_policy fs) (fs_fixtures fs) = Inr results"
      and r: "rp_results report = results" "rp_success report \<longleftrightarrow> length (filter fr_passed results) = length results"
    using assms by (auto simp: simulate_execute_def Let_def split: if_splits sum.splits)
  note all = run_fixtures_Inr [OF run]
  have "length (filter fr_passed results) = length results \<longleftrightarrow> list_all fr_passed results"
    by (rule length_filter_all)
  moreover have "list_all fr_passed results \<longleftrightarrow>
      list_all (\<lambda>f. fixture_effect engine fs f = Some (pf_expected f)) (fs_fixtures fs)"
    using all by (induction rule: list_all2_induct) (auto simp: fixture_effect_def)
  ultimately show "rp_success report \<longleftrightarrow>
      list_all (\<lambda>f. fixture_effect engine fs f = Some (pf_expected f)) (fs_fixtures fs)" using r by simp
  show "list_all (\<lambda>f. fixture_effect engine fs f \<noteq> None) (fs_fixtures fs)"
    using all by (induction rule: list_all2_induct) (auto simp: fixture_effect_def)
  show "map fr_name (rp_results report) = map pf_name (fs_fixtures fs)"
    unfolding r using all by (induction rule: list_all2_induct) auto
qed

lemma simulate_execute_total:
  assumes "well_formed_set fs" "list_all (\<lambda>f. fixture_effect engine fs f \<noteq> None) (fs_fixtures fs)"
  obtains report where "simulate_execute engine fs = Inr (Inr report)"
proof -
  have "list_all (\<lambda>f. \<exists>run. engine (fs_policy fs) (pf_context f) = Inr run) (fs_fixtures fs)"
    using assms(2) unfolding list_all_iff fixture_effect_def
    by (metis (no_types, lifting) old.sum.exhaust old.sum.simps(5))
  then obtain results where "run_fixtures engine (fs_policy fs) (fs_fixtures fs) = Inr results"
    unfolding run_fixtures_total [symmetric] by blast
  then show ?thesis using that assms(1) by (simp add: simulate_execute_def validate_Nil Let_def)
qed

text \<open>Parsing drops no fixture: an accepted file has one fixture for each entry.\<close>

lemma parse_context_error: "parse_context raw field \<noteq> Inl []"
  by (auto simp: parse_context_def Let_def split: option.splits json_data.splits)

lemma parse_fixture_one: "parse_fixture i e = ([], fs) \<Longrightarrow> length fs = 1"
  using parse_context_error
  by (auto simp: parse_fixture_def Let_def split: json_data.splits sum.splits option.splits if_splits)

lemma parse_fixture_entries_all: "parse_fixture_entries i es = ([], fs) \<Longrightarrow> length fs = length es"
proof (induction es arbitrary: i fs)
  case (Cons e es)
  obtain er f where one: "parse_fixture i e = (er, f)" by fastforce
  obtain er' f' where rest: "parse_fixture_entries (Suc i) es = (er', f')" by fastforce
  have "er = []" "er' = []" "fs = f @ f'" using Cons.prems one rest by auto
  then show ?case using Cons.IH [of "Suc i" f'] rest parse_fixture_one [of i e f] one by simp
qed simp

lemma parse_fixtures_all:
  "parse_fixtures raw = Inr fs \<Longrightarrow> \<exists>entries. raw = Some (JArray entries) \<and> length fs = length entries"
  using parse_fixture_entries_all
  by (auto simp: parse_fixtures_def Let_def case_prod_beta split: option.splits json_data.splits if_splits)
    (metis prod.collapse)

text \<open>
  C40: The exit code of a dry run is its verdict. It is 0 for a help request, and otherwise exactly
  when the arguments parse, the fixture file loads into a well-formed set with at least one fixture
  and unique names, the engine ran on every one of them and each effect is the expected one; 1
  exactly when all of that holds but some effect differs; and 2 for anything else, so a run that
  asserted nothing or could not finish never passes for agreement.
\<close>

theorem exit_code_is_verdict:
  "let help = (''--help'' \<in> set argv \<or> ''-h'' \<in> set argv);
       ran = (case parse_argv argv of None \<Rightarrow> None
              | Some o' \<Rightarrow> (case load_fixture_set read_file o' of Inl _ \<Rightarrow> None
                  | Inr fs \<Rightarrow> (if well_formed_set fs \<and>
                        list_all (\<lambda>f. fixture_effect engine fs f \<noteq> None) (fs_fixtures fs)
                      then Some fs else None)));
       code = fst (simulate_run engine read_file argv)
   in (code = 0 \<longleftrightarrow> help \<or> (case ran of None \<Rightarrow> False
         | Some fs \<Rightarrow> list_all (\<lambda>f. fixture_effect engine fs f = Some (pf_expected f)) (fs_fixtures fs))) \<and>
      (code = 1 \<longleftrightarrow> \<not> help \<and> (case ran of None \<Rightarrow> False
         | Some fs \<Rightarrow> \<not> list_all (\<lambda>f. fixture_effect engine fs f = Some (pf_expected f)) (fs_fixtures fs))) \<and>
      code \<le> 2"
proof (cases "''--help'' \<in> set argv \<or> ''-h'' \<in> set argv")
  case True
  then show ?thesis by (simp add: simulate_run_def)
next
  case False
  show ?thesis
  proof (cases "parse_argv argv")
    case None
    then show ?thesis using False by (simp add: simulate_run_def)
  next
    case (Some o')
    show ?thesis
    proof (cases "load_fixture_set read_file o'")
      case (Inl e)
      then show ?thesis using False Some by (simp add: simulate_run_def)
    next
      case (Inr fs)
      show ?thesis
      proof (cases "\<exists>report. simulate_execute engine fs = Inr (Inr report)")
        case True
        then obtain report where "simulate_execute engine fs = Inr (Inr report)" by blast
        then show ?thesis using False Some Inr simulate_execute_report [of engine fs report]
          by (simp add: simulate_run_def Let_def)
      next
        case none: False
        then have "\<not> (well_formed_set fs \<and> list_all (\<lambda>f. fixture_effect engine fs f \<noteq> None) (fs_fixtures fs))"
          using simulate_execute_total [of fs engine] by blast
        then show ?thesis using False Some Inr none
          by (auto simp: simulate_run_def Let_def split: sum.split)
      qed
    qed
  qed
qed

end
