(* ===== verification/Spec2Isabelle.thy ===== *)
theory Spec2Isabelle
  imports PermissionGuards PolicyLint AuthzService PolicyCacheModel CredentialRuns SessionRuns AuditWriter AuditSubscribers VerificationQueue WebAuthnRuns ApiGuardRuns AuditRoutes AdminRoutes StellarAnchor SessionCookies PolicySimulation
begin

text \<open>
  Verification of the core of Verixa, an identity and access platform written in TypeScript
  (\<open>src/packages\<close>, \<open>src/apps/api\<close>).

  \<^bold>\<open>The program.\<close> Each package is a hexagon: a domain of immutable entities and value objects,
  use cases over ports, and adapters. \<open>shared-kernel\<close> gives the error classes, \<open>Result\<close>, the
  brute-force policy and the event publisher to all of them. \<open>identity\<close> owns users; \<open>credentials\<close>
  their passwords, lockout and one-time links; \<open>sessions\<close> what a login opens; \<open>mfa\<close> the second
  factor; \<open>verification\<close> the review of identity evidence; \<open>authorization\<close> the roles and policies
  that guard every request; \<open>audit\<close> the hash-chained log the others write to through subscribers.
  \<open>apps/api\<close> wires them.

  \<^bold>\<open>How the model follows the code.\<close> A class is a record of its properties and each method a
  definition under the method's name, in the order of the file; an enum or union type is a
  datatype. A use case is a function from the state of its repositories to its answer and the state
  after it, with every guard and early return of \<open>execute\<close> a branch. A \<open>Result\<close> is a sum, \<open>Inl\<close> the
  error; where the code can also throw, an outer \<open>Inl\<close> or \<open>None\<close> is the exception. Repositories are
  the in-memory adapters of the repository, as insertion-ordered maps, behind the port: a record
  of operations whose contract is a locale, interpreted on the adapter. Text for humans in error
  messages is dropped, field names and error codes are kept.

  What the code draws or asks of its environment is an argument: clocks, ids, salts, random bytes
  and raw tokens. Code that is not in the repository is a parameter: SHA-256, HMAC and argon2, the
  rate limiter, the role gate and policy decision point, \<open>Date.parse\<close>, the token signer, the ledger,
  the verifiers of the browser's signatures. What a theorem needs of a parameter is a hypothesis
  of that theorem with a concrete instance as its witness.

  \<^bold>\<open>Theories.\<close>

  \<^item> \<open>Prelude\<close>, \<open>TextForms\<close>, \<open>JsValues\<close>, \<open>JsonText\<close>: results and errors, JavaScript strings, maps,
    dates, numbers and JSON, each with the lemma that its text form loses nothing.

  \<^item> \<open>Permissions\<close>, \<open>Roles\<close>, \<open>RoleAdmin\<close>, \<open>Assignments\<close>, \<open>PermissionCheck\<close>
    (\<open>packages/authorization\<close>): the role based part. The locales \<open>role_store\<close>, \<open>permission_store\<close>
    and \<open>assignment_store\<close> are the contracts of the repositories; \<open>role_admin\<close> and
    \<open>permission_check\<close> prove the use cases on them once. Shown: the check answers exactly what the
    stored roles and live assignments say, tenants are isolated, a revocation is effective, and
    the invariant of the role store.

  \<^item> \<open>Policies\<close>, \<open>PolicyLint\<close>, \<open>AuthzService\<close>, \<open>PolicyCacheModel\<close>: conditions and their evaluation, the
    three combining algorithms, versioned policies, the linter, the composition of role gate and
    policies, and the cache as a refinement of a plain store.

  \<^item> \<open>Identity\<close>, \<open>BruteForce\<close>, \<open>Credentials\<close>, \<open>CredentialFlows\<close>, \<open>CredentialRuns\<close>: users, passwords,
    lockout, one-time tokens and the eight credential use cases; \<open>CredentialRuns\<close> speaks of runs of
    calls: a reset link works once, a recent password is refused, a registered user logs in.

  \<^item> \<open>Sessions\<close>, \<open>SessionRuns\<close>: sessions and rotating refresh tokens; a token is redeemed once and its
    reuse ends the session, a revoked session stays dead, eviction returns.

  \<^item> \<open>AuditMetadata\<close>, \<open>AuditLog\<close>, \<open>AuditVerify\<close>, \<open>AuditRuns\<close>, \<open>AuditAccess\<close>, \<open>AuditWriter\<close>,
    \<open>AuditSubscribers\<close>: the metadata bounds, the chain and its compare-and-set append, its batched
    verification and anchoring, interleaved writers, access and export, the write queue with its
    flushes as steps, and the way from a domain event to an entry.

  \<^item> \<open>Verification\<close>, \<open>VerificationFlows\<close>, \<open>VerificationRuns\<close>, \<open>VerificationQueue\<close>: evidence, the review
    lease and the request's state machine, the queue and the use cases, runs of them.

  \<^item> \<open>Base32\<close>, \<open>Mfa\<close>, \<open>MfaFlows\<close>, \<open>MfaRuns\<close>: TOTP down to its bits, backup codes, enforcement,
    recovery, step-up and the exchange of a login challenge.

  \<^item> \<open>Utf8\<close>, \<open>Cbor\<close>, \<open>JsonParse\<close>, \<open>WebAuthn\<close>, \<open>WebAuthnFlows\<close>, \<open>WebAuthnRuns\<close>: the second factor of the
    browser. UTF-8 and JSON texts as code units, the CBOR codec, the two verifiers down to the bytes
    of the authenticator data, the challenge and credential stores, the two ceremonies and runs of
    them: a login succeeds exactly under the conditions of the standard, a challenge is used once.
    The key import, the signature check and the hash of \<open>node:crypto\<close> are a record of parameters.

  \<^item> \<open>Organizations\<close>, \<open>OrganizationRuns\<close> (\<open>packages/identity\<close>): organizations, memberships, invitations
    and API keys with their repositories and use cases, and the directory every run of them keeps.

  \<^item> \<open>HttpErrors\<close>, \<open>HttpEdge\<close>, \<open>ApiGuards\<close>, \<open>ApiGuardRuns\<close>, \<open>Pagination\<close>, \<open>AuditRoutes\<close>
    (\<open>apps/api/src/http\<close>, \<open>plugins\<close>, \<open>pagination\<close>, \<open>routes/audit.ts\<close>): the error contract, the hooks at
    the edge, the guards of a route with runs of requests through them, cursors down to their bytes
    and the audit routes over \<open>AuditAccess\<close>.

  \<^item> \<open>AnchorFunding\<close>, \<open>StellarAnchor\<close> (\<open>packages/stellar-anchor\<close>): the money behind the anchors and the
    anchor on the ledger: a receipt commits to its digest, nothing is submitted unless the guard saw
    the fee, the alerts tell the status. The SDK and the ledger are a record of functions.

  \<^item> \<open>SessionCookies\<close> (\<open>packages/sessions/infrastructure/http\<close>): the cookies of a session, which a
    reader of the header splits into exactly the attributes they were given.

  \<^item> \<open>PolicySimulation\<close> (\<open>packages/authorization\<close>): the dry run of policies over fixtures and its
    command line, whose exit code is the verdict.

  \<^item> \<open>PermissionGuards\<close>, \<open>AdminRoutes\<close> (\<open>packages/authorization/interface\<close>): the permission guards over
    \<open>PermissionCheck\<close>, and the administration routes over the rows of the database.

  \<^item> This theory: properties that span components, such as a password reset that ends the sessions.

  \<^bold>\<open>Steps, bounds and termination.\<close> A call is atomic except where the development models its turns
  between \<open>await\<close>s: the writers of the audit log (\<open>AuditRuns\<close>), flushes of the write queue
  (\<open>AuditWriter\<close>), two decisions of one case (\<open>VerificationQueue\<close>) and two exchanges of one challenge
  (\<open>MfaRuns\<close>). Loops are structural recursion where the code walks a list; the walk over the chain,
  session eviction and the settling of the write queue are \<open>partial_function (option)\<close>, whose
  theorems say that they return. The append protocol retries its three attempts, as written.
  The base32 accumulator is a \<open>32 word\<close>; other integers never leave the exact range of a double and
  are \<open>int\<close> or \<open>nat\<close>. Times are whole milliseconds. A string is a list of code units below 256, and
  \<open>trim\<close>, \<open>toLowerCase\<close> and \<open>toUpperCase\<close> are written out for that range; texts that leave it (JSON,
  client data, cursors) are lists of 16-bit units. The CBOR and JSON readers take a depth computed
  from the length of the input; \<open>cbor_read_depth\<close> and \<open>json_text_depth\<close> show that no input uses it
  up.

  \<^bold>\<open>Not modelled.\<close> The decoy work that equalises response times, log lines and metrics have no
  functional effect. The microtasks in which the write queue starts its flushes are steps of the
  environment. Prisma, Redis and argon2 adapters are glue whose contract is the port; the one
  exception is the repository of the administration routes, which has no other adapter. The route
  handlers that only forward to a modelled use case or return fixed answers, the wiring of the
  application, GraphQL and OpenAPI schemas, zod schemas of the environment, notification templates
  and the scripts are outside of the development.
\<close>

section \<open>Properties that span components\<close>







end
